(* ===== verification/Raft_Prelude.thy ===== *)
theory Raft_Prelude
  imports
    Main
    "HOL-Library.Word"
    "HOL-Library.Monad_Syntax"
    "HOL-Library.AList"
    "HOL-Library.Multiset"
begin

text \<open>
  Shared vocabulary of the development.

  \<^item> Machine integers: \<open>uint64_t\<close>, \<open>uint32_t\<close> and \<open>int64_t\<close> are words of their width, so
    that \<open>+\<close> wraps as in C++. Positions inside a \<open>std::vector\<close> (\<open>size_t\<close> used as an index or
    as a length) are natural numbers.
  \<^item> Bytes: \<open>std::string\<close> and Cap'n Proto \<open>Data\<close> are \<open>string\<close> (a list of 8-bit characters).
  \<^item> Aborts: \<open>PANIC\<close>, a failed \<open>ASSERT\<close> (\<open>include/raftpp/core/assert.h\<close>), an uncaught exception
    and an access outside a container are the value \<open>None\<close> of an \<open>option\<close> result; the
    option monad threads the state through the calls. \<open>DEBUG_ASSERT\<close> is compiled out of release
    builds and is stated as a lemma instead.
  \<^item> Errors: \<open>Result<T>\<close> (\<open>include/raftpp/core/error.h\<close>) is the sum \<open>raft_error + 'a\<close>.
  \<^item> Containers: \<open>Set<uint64_t>\<close> is a duplicate-free list and \<open>Map<K,V>\<close> an association list with
    distinct keys, both in iteration order. C++ leaves the iteration order of these hash
    containers open; the statements quantify over the lists, so over every such order.
\<close>

section \<open>Machine integers and names of types\<close>

type_synonym u64 = "64 word"
type_synonym u32 = "32 word"
type_synonym i64 = "64 word" \<comment> \<open>two's complement, read with \<open>sint\<close>\<close>
type_synonym bytes = string

named_theorems raft_simps \<open>rewrite rules of the model's operations\<close>
named_theorems wf_intros \<open>preservation of the well-formedness invariants\<close>
named_theorems frame_simps \<open>which fields an operation leaves alone\<close>

definition kInvalidIndex :: u64 where
  "kInvalidIndex = 0"

definition kInvalidId :: u64 where
  "kInvalidId = 0"

definition u64_max :: u64 where
  "u64_max = - 1"

section \<open>Errors\<close>

datatype StorageErrorCode =
    Compacted | Unavailable | LogTemporarilyUnavailable | SnapshotOutOfDate
  | SnapshotTemporarilyUnavailable
  | MetadataFileTooSmall | InvalidMetadataHeader | MetadataCrcMismatch | HardStateParseError
  | ConfStateParseError | PeerAddressBookParseError
  | CurrentSegmentNotFound | SegmentNotOpen | InvalidSegmentHeader
  | IoUringNotBuilt | IoUringNotLinux | IoUringInitFailed | IoUringProbeMissingOp
  | CorruptEntryRecord | EntryParseError
  | ZeroEntriesInSlice

datatype RaftErrorCode =
    StepLocalMsg | StepPeerNotFound | ProposalDropped | RequestSnapshotDropped | ChecksumMismatch
  | AlreadyStarted | ShuttingDown | LostLeadership | IncompatibleStorage | ConfChangeParseError

datatype ConfigErrorCode =
    InvalidNodeId | HeartbeatTickTooSmall | ElectionTickTooSmall | MaxInflightMessagesTooSmall
  | LeaseBasedReadRequiresCheckQuorum | ListenAddressEmpty | DataDirectoryEmpty
  | NodeIdNotInInitialPeers

datatype ConfChangeErrorCode =
    LearnersNextMustBeEmpty | AutoLeaveMustBeFalse | ConfigAlreadyJoint | ZeroVoterConfigJoint
  | LeaveNonJointConfig | RemovedAllVoters | CannotApplySimpleInJointConfig
  | MultipleVotersChangedWithoutJoint

text \<open>A formatted message is kept as its format string and its arguments.\<close>

datatype RpcErrorCode =
    AddressPortMissing | AddressPortInvalid | AddressPortOutOfRange | BindFailed | ListenFailed | UdpBindFailed
  | UdpRecvStartFailed | ConnectionClosed | InvalidMagic | HeaderParseFailed | HandshakeParseFailed
  | PayloadParseFailed | HandshakeTooShort | HandshakeInvalidMagic | HandshakeBufferTooSmall | MessageTooLarge
  | Timeout

datatype message_text = Fmt string "u64 list"

datatype raft_error =
    StorageError StorageErrorCode
  | StorageErrorOther message_text
  | RaftError RaftErrorCode
  | InvalidConfigError message_text
  | ConfChangeError message_text
  | FatalError message_text
  | ConfigError ConfigErrorCode
  | ConfChangeCode ConfChangeErrorCode
  | RpcError RpcErrorCode

type_synonym 'a result = "raft_error + 'a"

section \<open>Aborting operations\<close>

definition ASSERT :: "bool \<Rightarrow> unit option" where
  "ASSERT b = (if b then Some () else None)"

lemma ASSERT_simps [simp]:
  "ASSERT True = Some ()"
  "ASSERT False = None"
  "(ASSERT b = Some u) = b"
  "(ASSERT b = None) = (\<not> b)"
  by (simp_all add: ASSERT_def)

definition vec_get :: "'a list \<Rightarrow> nat \<Rightarrow> 'a option" where
  "vec_get xs i = (if i < length xs then Some (xs ! i) else None)"

lemma vec_get_Some [simp]: "i < length xs \<Longrightarrow> vec_get xs i = Some (xs ! i)"
  by (simp add: vec_get_def)

lemma vec_get_None [simp]: "length xs \<le> i \<Longrightarrow> vec_get xs i = None"
  by (simp add: vec_get_def)

lemma vec_get_eq_Some: "vec_get xs i = Some x \<longleftrightarrow> i < length xs \<and> xs ! i = x"
  by (auto simp: vec_get_def)

definition unwrap :: "'a result \<Rightarrow> 'a option" where
  "unwrap r = (case r of Inl _ \<Rightarrow> None | Inr x \<Rightarrow> Some x)"

lemma unwrap_simps [simp]: "unwrap (Inl e) = None" "unwrap (Inr x) = Some x"
  by (simp_all add: unwrap_def)

text \<open>Early return of an error.\<close>

definition result_bind :: "'a result \<Rightarrow> ('a \<Rightarrow> 'b result) \<Rightarrow> 'b result" where
  "result_bind r f = (case r of Inl e \<Rightarrow> Inl e | Inr x \<Rightarrow> f x)"

lemma result_bind_simps [simp]:
  "result_bind (Inl e) f = Inl e"
  "result_bind (Inr x) f = f x"
  by (simp_all add: result_bind_def)

lemma result_bind_Inr: "result_bind r f = Inr y \<longleftrightarrow> (\<exists>x. r = Inr x \<and> f x = Inr y)"
  by (cases r) auto

lemma bind_SomeE:
  assumes "Option.bind m f = Some y"
  obtains x where "m = Some x" "f x = Some y"
  using assms by (cases m) auto

section \<open>Hash containers\<close>

text \<open>\<open>Map::emplace\<close>: an existing key keeps its value.\<close>

definition Map_emplace :: "'k \<Rightarrow> 'v \<Rightarrow> ('k \<times> 'v) list \<Rightarrow> ('k \<times> 'v) list" where
  "Map_emplace k v m = (if map_of m k = None then m @ [(k, v)] else m)"

lemma map_of_emplace [simp]:
  "map_of (Map_emplace k v m) = (if map_of m k = None then (map_of m)(k \<mapsto> v) else map_of m)"
proof
  show "map_of (Map_emplace k v m) x =
      (if map_of m k = None then (map_of m)(k \<mapsto> v) else map_of m) x" for x
    by (cases "map_of m x") (auto simp: Map_emplace_def map_add_def)
qed

lemma keys_emplace: "fst ` set (Map_emplace k v m) = insert k (fst ` set m)"
  by (force simp: Map_emplace_def map_of_eq_None_iff)

lemma distinct_emplace [simp]:
  "distinct (map fst m) \<Longrightarrow> distinct (map fst (Map_emplace k v m))"
  by (auto simp: Map_emplace_def map_of_eq_None_iff)

lemma distinct_map_fst_delete [simp]:
  "distinct (map fst m) \<Longrightarrow> distinct (map fst (AList.delete k m))"
  by (rule distinct_delete)

text \<open>Changing the values of a map in place.\<close>

definition Map_map_values :: "('k \<Rightarrow> 'v \<Rightarrow> 'w) \<Rightarrow> ('k \<times> 'v) list \<Rightarrow> ('k \<times> 'w) list" where
  "Map_map_values f m = map (\<lambda>(k, v). (k, f k v)) m"

lemma keys_map_values [simp]: "map fst (Map_map_values f m) = map fst m"
  by (induction m) (auto simp: Map_map_values_def)

lemma map_of_map_values [simp]:
  "map_of (Map_map_values f m) k = map_option (f k) (map_of m k)"
  by (induction m) (auto simp: Map_map_values_def)

section \<open>Lemmas on words\<close>

lemma unat_lt_max: "unat (x::u64) < 2 ^ 64"
  using unsigned_less [of x] by simp

lemma unat_of_nat_u64: "n < 2 ^ 64 \<Longrightarrow> unat (of_nat n :: u64) = n"
  by (simp add: unat_of_nat take_bit_nat_eq_self)

lemma unat_add_u64: "unat x + unat y < 2 ^ 64 \<Longrightarrow> unat (x + y :: u64) = unat x + unat y"
  using unat_add_lem [of x y] by simp

lemma unat_add_of_nat_u64:
  "unat (x::u64) + n < 2 ^ 64 \<Longrightarrow> unat (x + of_nat n) = unat x + n"
  by (simp add: unat_add_u64 unat_of_nat_u64)

lemma unat_Suc_u64: "x < y \<Longrightarrow> unat (x + 1 :: u64) = Suc (unat x)"
  using unat_add_u64 [of x 1] unat_lt_max [of y] by (simp add: word_less_nat_alt)

lemma unat_Suc_bound_u64: "Suc (unat x) < 2 ^ 64 \<Longrightarrow> unat (x + 1 :: u64) = Suc (unat x)"
  using unat_add_u64 [of x 1] by simp

lemma unat_sub_u64: "y \<le> x \<Longrightarrow> unat (x - y :: u64) = unat x - unat y"
  by (simp add: unat_sub)

lemma unat_sub_one_u64: "x \<noteq> 0 \<Longrightarrow> unat (x - 1 :: u64) = unat x - 1"
  by (rule unat_minus_one)

lemma u64_eq_iff: "(x::u64) = y \<longleftrightarrow> unat x = unat y"
  by (simp add: word_unat_eq_iff)

lemmas u64_nat_simps = word_less_nat_alt word_le_nat_alt u64_eq_iff

section \<open>Lemmas on lists\<close>

text \<open>
  In a list ordered downwards by a key, the element at position \<open>k\<close> reaches \<open>j\<close> exactly when
  more than \<open>k\<close> elements do.
\<close>

lemma desc_nth_iff:
  fixes f :: "'a \<Rightarrow> 'b::linorder"
  assumes "sorted_wrt (\<lambda>a b. f b \<le> f a) ms" "k < length ms"
  shows "j \<le> f (ms ! k) \<longleftrightarrow> k < length (filter (\<lambda>m. j \<le> f m) ms)"
  using assms
proof (induction ms arbitrary: k)
  case Nil
  then show ?case by simp
next
  case (Cons m ms)
  show ?case
  proof (cases "j \<le> f m")
    case True
    then show ?thesis using Cons by (cases k) auto
  next
    case False
    then have below: "\<not> j \<le> f b" if "b \<in> set (m # ms)" for b using Cons.prems(1) that by auto
    then have "filter (\<lambda>m. j \<le> f m) (m # ms) = []" by (simp add: filter_empty_conv)
    moreover have "\<not> j \<le> f ((m # ms) ! k)" using below Cons.prems(2) by (metis nth_mem)
    ultimately show ?thesis by simp
  qed
qed

lemma sorted_wrt_rev_sort_key: "sorted_wrt (\<lambda>a b. f b \<le> f a) (rev (sort_key f xs))"
  using sorted_sort_key [of f xs] by (simp add: sorted_wrt_rev sorted_map)

lemma length_filter_mset:
  "mset xs = mset ys \<Longrightarrow> length (filter P xs) = length (filter P ys)"
  by (metis mset_filter size_mset)

lemma length_filter_distinct: "distinct xs \<Longrightarrow> length (filter P xs) = card {x \<in> set xs. P x}"
  by (metis distinct_card distinct_filter set_filter)

end
