(* ===== verification/Messages.thy ===== *)
theory Messages
  imports Raft_Prelude
begin

text \<open>
  The messages of the protocol (\<open>proto/raftpp.capnp\<close>, \<open>include/raftpp/core/types.h\<close>) and the helpers
  on them (\<open>lib/core/util.cc\<close>). A Cap'n Proto struct is a record of its fields; reading a field that
  was never set gives its default, so a default message exists for every struct. The size of a
  serialized entry is a property of the Cap'n Proto library and a parameter \<open>entry_bytes\<close> here.
\<close>

section \<open>Data\<close>

datatype EntryType = ENTRY_NORMAL | ENTRY_CONF_CHANGE | ENTRY_CONF_CHANGE_V2

record entry =
  e_type :: EntryType
  e_term :: u64
  e_index :: u64
  e_data :: bytes
  e_context :: bytes
  e_checksum :: u32

record conf_state =
  cs_voters :: "u64 list"
  cs_learners :: "u64 list"
  cs_voters_outgoing :: "u64 list"
  cs_learners_next :: "u64 list"
  cs_auto_leave :: bool

record snapshot_metadata =
  sm_conf_state :: conf_state
  sm_index :: u64
  sm_term :: u64

record snapshot =
  sn_data :: bytes
  sn_metadata :: snapshot_metadata

datatype MessageType =
    MSG_HUP | MSG_BEAT | MSG_PROPOSE | MSG_APPEND | MSG_APPEND_RESPONSE
  | MSG_REQUEST_VOTE | MSG_REQUEST_VOTE_RESPONSE | MSG_SNAPSHOT | MSG_HEARTBEAT
  | MSG_HEARTBEAT_RESPONSE | MSG_UNREACHABLE | MSG_SNAP_STATUS | MSG_CHECK_QUORUM
  | MSG_TRANSFER_LEADER | MSG_TIMEOUT_NOW | MSG_READ_INDEX | MSG_READ_INDEX_RESP
  | MSG_REQUEST_PRE_VOTE | MSG_REQUEST_PRE_VOTE_RESPONSE

record message =
  m_type :: MessageType
  m_to :: u64
  m_from :: u64
  m_term :: u64
  m_log_term :: u64
  m_index :: u64
  m_entries :: "entry list"
  m_commit :: u64
  m_commit_term :: u64
  m_snapshot :: snapshot
  m_request_snapshot :: u64
  m_reject :: bool
  m_reject_hint :: u64
  m_context :: bytes
  m_priority :: i64

record hard_state =
  hs_term :: u64
  hs_vote :: u64
  hs_commit :: u64

datatype ConfChangeTransition = AUTO | IMPLICIT | EXPLICIT

text \<open>
  A 16-bit enumerant read from the wire may lie outside the schema; \<open>ConfChanger::Apply\<close> has a branch
  for it, so it is a value of the type.
\<close>

datatype ConfChangeType = ADD_NODE | REMOVE_NODE | ADD_LEARNER_NODE | OTHER_CHANGE_TYPE nat

record conf_change =
  cc_change_type :: ConfChangeType
  cc_node_id :: u64
  cc_context :: bytes
  cc_id :: u64

record conf_change_single =
  ccs_change_type :: ConfChangeType
  ccs_node_id :: u64

record conf_change_v2 =
  cc2_transition :: ConfChangeTransition
  cc2_changes :: "conf_change_single list"
  cc2_context :: bytes

section \<open>Defaults and constructors\<close>

definition default_entry :: entry where
  "default_entry = \<lparr>e_type = ENTRY_NORMAL, e_term = 0, e_index = 0, e_data = [], e_context = [],
                    e_checksum = 0\<rparr>"

definition default_conf_state :: conf_state where
  "default_conf_state = \<lparr>cs_voters = [], cs_learners = [], cs_voters_outgoing = [],
                         cs_learners_next = [], cs_auto_leave = False\<rparr>"

definition default_snapshot_metadata :: snapshot_metadata where
  "default_snapshot_metadata = \<lparr>sm_conf_state = default_conf_state, sm_index = 0, sm_term = 0\<rparr>"

definition default_snapshot :: snapshot where
  "default_snapshot = \<lparr>sn_data = [], sn_metadata = default_snapshot_metadata\<rparr>"

definition default_message :: message where
  "default_message = \<lparr>m_type = MSG_HUP, m_to = 0, m_from = 0, m_term = 0, m_log_term = 0,
     m_index = 0, m_entries = [], m_commit = 0, m_commit_term = 0, m_snapshot = default_snapshot,
     m_request_snapshot = 0, m_reject = False, m_reject_hint = 0, m_context = [], m_priority = 0\<rparr>"

definition MakeEntry :: "u64 \<Rightarrow> u64 \<Rightarrow> EntryType \<Rightarrow> entry" where
  "MakeEntry index trm type =
     default_entry \<lparr>e_index := index, e_term := trm, e_type := type\<rparr>"

definition MakeHardState :: "u64 \<Rightarrow> u64 \<Rightarrow> u64 \<Rightarrow> hard_state" where
  "MakeHardState trm vote commit = \<lparr>hs_term = trm, hs_vote = vote, hs_commit = commit\<rparr>"

definition IsEmptyHardState :: "hard_state \<Rightarrow> bool" where
  "IsEmptyHardState hs \<longleftrightarrow> hs_term hs = 0 \<and> hs_vote hs = 0 \<and> hs_commit hs = 0"

abbreviation sn_index :: "snapshot \<Rightarrow> u64" where
  "sn_index s \<equiv> sm_index (sn_metadata s)"

abbreviation sn_term :: "snapshot \<Rightarrow> u64" where
  "sn_term s \<equiv> sm_term (sn_metadata s)"

record IndexTerm =
  it_index :: u64
  it_term :: u64

definition IndexTerm_of_snapshot :: "snapshot \<Rightarrow> IndexTerm" where
  "IndexTerm_of_snapshot s = \<lparr>it_index = sn_index s, it_term = sn_term s\<rparr>"

section \<open>Entry lists\<close>

definition EntryApproximateSize :: "entry \<Rightarrow> u64" where
  "EntryApproximateSize ent = of_nat (length (e_data ent)) + of_nat (length (e_context ent)) + 12"

text \<open>The loop of \<open>LimitSize\<close>: the number of entries to keep.\<close>

fun LimitSize_loop :: "(entry \<Rightarrow> u64) \<Rightarrow> u64 \<Rightarrow> u64 \<Rightarrow> nat \<Rightarrow> entry list \<Rightarrow> nat" where
  "LimitSize_loop entry_bytes mx current_total_size keep_count [] = keep_count"
| "LimitSize_loop entry_bytes mx current_total_size keep_count (e # es) =
     (let entry_size = entry_bytes e in
      if keep_count = 0
      then LimitSize_loop entry_bytes mx (current_total_size + entry_size) (keep_count + 1) es
      else if mx < current_total_size + entry_size then keep_count
      else LimitSize_loop entry_bytes mx (current_total_size + entry_size) (keep_count + 1) es)"

definition LimitSize :: "(entry \<Rightarrow> u64) \<Rightarrow> u64 option \<Rightarrow> entry list \<Rightarrow> entry list" where
  "LimitSize entry_bytes mx entries =
     (if length entries \<le> 1 then entries
      else case mx of
        None \<Rightarrow> entries
      | Some m \<Rightarrow>
          if m = u64_max then entries
          else take (LimitSize_loop entry_bytes m 0 0 entries) entries)"

definition IsContinuousEntries :: "message \<Rightarrow> entry list \<Rightarrow> bool" where
  "IsContinuousEntries m entries \<longleftrightarrow>
     (if m_entries m \<noteq> [] \<and> entries \<noteq> []
      then e_index (last (m_entries m)) + 1 = e_index (hd entries)
      else True)"

section \<open>Lemmas\<close>

lemma LimitSize_loop_ge: "keep \<le> LimitSize_loop sz mx cur keep es"
proof (induction es arbitrary: cur keep)
  case (Cons e es)
  show ?case using Cons.IH [of "keep + 1" "cur + sz e"] by (auto simp: Let_def)
qed simp

lemma LimitSize_loop_le: "LimitSize_loop sz mx cur keep es \<le> keep + length es"
proof (induction es arbitrary: cur keep)
  case (Cons e es)
  show ?case using Cons.IH [of "cur + sz e" "keep + 1"] by (auto simp: Let_def)
qed simp

lemma LimitSize_prefix: "\<exists>n. LimitSize sz mx es = take n es"
  by (auto simp: LimitSize_def split: option.splits intro: exI [of _ "length es"])

lemma LimitSize_loop_pos:
  assumes "es \<noteq> []"
  shows "0 < LimitSize_loop sz mx cur keep es"
proof -
  obtain e es' where "es = e # es'" using assms by (cases es) auto
  then show ?thesis
    using LimitSize_loop_ge [of "keep + 1" sz mx "cur + sz e" es'] by (auto simp: Let_def)
qed

lemma LimitSize_nonempty [simp]: "LimitSize sz mx es = [] \<longleftrightarrow> es = []"
proof (cases "es = []")
  case False
  then show ?thesis using LimitSize_loop_pos [OF False]
    by (simp add: LimitSize_def split: option.splits)
qed (simp add: LimitSize_def)

lemma length_LimitSize: "length (LimitSize sz mx es) \<le> length es"
  using LimitSize_prefix [of sz mx es] by auto

lemma LimitSize_take: "LimitSize sz mx es = take (length (LimitSize sz mx es)) es"
  using LimitSize_prefix [of sz mx es] by (metis append_eq_conv_conj append_take_drop_id)

lemma hd_LimitSize: "es \<noteq> [] \<Longrightarrow> hd (LimitSize sz mx es) = hd es"
  by (metis LimitSize_nonempty LimitSize_take hd_take length_greater_0_conv)

lemma LimitSize_loop_max: "LimitSize_loop sz u64_max cur keep es = keep + length es"
  by (induction es arbitrary: cur keep) (auto simp: Let_def u64_max_def)

lemma LimitSize_Some: "LimitSize sz (Some m) es = take (LimitSize_loop sz m 0 0 es) es"
proof (cases "length es \<le> 1")
  case True
  then show ?thesis by (cases es) (auto simp: LimitSize_def Let_def)
qed (auto simp: LimitSize_def LimitSize_loop_max)

text \<open>Sizes as numbers, to state the budget without wrap-around.\<close>

definition total_bytes :: "(entry \<Rightarrow> u64) \<Rightarrow> entry list \<Rightarrow> nat" where
  "total_bytes sz es = sum_list (map (\<lambda>e. unat (sz e)) es)"

lemma total_bytes_simps [simp]:
  "total_bytes sz [] = 0"
  "total_bytes sz (e # es) = unat (sz e) + total_bytes sz es"
  by (simp_all add: total_bytes_def)

lemma LimitSize_loop_budget:
  assumes "unat cur + total_bytes sz es < 2 ^ 64" "0 < keep"
  shows "LimitSize_loop sz mx cur keep es = keep + n \<Longrightarrow>
           (0 < n \<longrightarrow> unat cur + total_bytes sz (take n es) \<le> unat mx) \<and>
           (n < length es \<longrightarrow> unat mx < unat cur + total_bytes sz (take (Suc n) es))"
  using assms
proof (induction es arbitrary: cur keep n)
  case (Cons e es)
  have sum: "unat (cur + sz e) = unat cur + unat (sz e)"
    using Cons.prems(2) by (intro unat_add_u64) simp
  show ?case
  proof (cases "mx < cur + sz e")
    case True
    then have "n = 0" using Cons.prems by (simp add: Let_def)
    then show ?thesis using True sum by (simp add: word_less_nat_alt)
  next
    case False
    then have step: "LimitSize_loop sz mx (cur + sz e) (keep + 1) es = keep + n"
      using Cons.prems by (simp add: Let_def)
    then obtain k where n: "n = Suc k"
      using LimitSize_loop_ge [of "keep + 1" sz mx "cur + sz e" es] by (cases n) auto
    have "(0 < k \<longrightarrow> unat (cur + sz e) + total_bytes sz (take k es) \<le> unat mx) \<and>
      (k < length es \<longrightarrow> unat mx < unat (cur + sz e) + total_bytes sz (take (Suc k) es))"
      by (rule Cons.IH [of _ "keep + 1"]) (use step n sum Cons.prems in auto)
    moreover have "unat cur + unat (sz e) \<le> unat mx" using False sum by (simp add: word_less_nat_alt)
    ultimately show ?thesis using n sum by (cases k) (auto simp: algebra_simps)
  qed
qed simp

text \<open>
  The size limit on a batch of entries: the result is the longest prefix that stays within the
  limit, except that a first entry is always kept so that an oversized entry cannot block progress.
\<close>

theorem LimitSize_longest_prefix:
  fixes mx :: u64
  assumes "total_bytes sz es < 2 ^ 64" "es \<noteq> []"
  defines "r \<equiv> LimitSize sz (Some mx) es"
  shows "r = take (length r) es \<and> r \<noteq> [] \<and>
         (1 < length r \<longrightarrow> mx = u64_max \<or> total_bytes sz r \<le> unat mx) \<and>
         (length r < length es \<longrightarrow> unat mx < total_bytes sz (take (Suc (length r)) es))"
proof -
  obtain e es' where es: "es = e # es'" using assms(2) by (cases es) auto
  define n where "n = LimitSize_loop sz mx (sz e) 1 es' - 1"
  have loop: "LimitSize_loop sz mx (sz e) 1 es' = 1 + n"
    using LimitSize_loop_ge [of 1 sz mx "sz e" es'] by (simp add: n_def)
  have n_le: "n \<le> length es'" using LimitSize_loop_le [of sz mx "sz e" 1 es'] loop by simp
  have b: "(0 < n \<longrightarrow> unat (sz e) + total_bytes sz (take n es') \<le> unat mx) \<and>
      (n < length es' \<longrightarrow> unat mx < unat (sz e) + total_bytes sz (take (Suc n) es'))"
    by (rule LimitSize_loop_budget [OF _ _ loop]) (use assms(1) es in auto)
  have r: "r = (if es' = [] \<or> mx = u64_max then es else e # take n es')"
    using loop by (auto simp: r_def LimitSize_def es Let_def)
  have pre: "r = take (length r) es" unfolding r_def by (rule LimitSize_take)
  show ?thesis using r b n_le pre es by auto
qed

theorem LimitSize_longest_prefix_witness:
  "LimitSize (\<lambda>e. 8) (Some 20) [MakeEntry 1 1 ENTRY_NORMAL, MakeEntry 2 1 ENTRY_NORMAL, MakeEntry 3 1 ENTRY_NORMAL]
     = [MakeEntry 1 1 ENTRY_NORMAL, MakeEntry 2 1 ENTRY_NORMAL] \<and>
   unat (20 :: u64) < total_bytes (\<lambda>e. 8)
     (take 3 [MakeEntry 1 1 ENTRY_NORMAL, MakeEntry 2 1 ENTRY_NORMAL, MakeEntry 3 1 ENTRY_NORMAL])"
proof -
  let ?es = "[MakeEntry 1 1 ENTRY_NORMAL, MakeEntry 2 1 ENTRY_NORMAL, MakeEntry 3 1 ENTRY_NORMAL]"
  have r: "LimitSize (\<lambda>e. 8) (Some 20) ?es = [MakeEntry 1 1 ENTRY_NORMAL, MakeEntry 2 1 ENTRY_NORMAL]"
    by (simp add: LimitSize_def u64_max_def Let_def)
  show ?thesis
    using LimitSize_longest_prefix [of "\<lambda>e. 8" ?es 20] unfolding r by (simp add: numeral_3_eq_3)
qed

end
