(* ===== verification/Storage.thy ===== *)
theory Storage
  imports Messages
begin

text \<open>
  The storage interface that the log reads (\<open>include/raftpp/core/storage.h\<close>) and its in-memory
  implementation (\<open>lib/core/memory_storage.cc\<close>). The virtual functions of \<open>Storage\<close> are a record of
  operations on a storage state; what the log relies on are the laws of the locale \<open>log_storage\<close>.
  Every operation of \<open>MemoryStorage\<close> holds its mutex from start to end, so each is one atomic step.
\<close>

section \<open>The interface\<close>

record RaftState =
  rs_hard_state :: hard_state
  rs_conf_state :: conf_state

definition RaftState_new :: RaftState where
  "RaftState_new = \<lparr>rs_hard_state = MakeHardState 0 0 0, rs_conf_state = default_conf_state\<rparr>"

text \<open>\<open>GetEntriesFor\<close> with its payload.\<close>

datatype GetEntriesContext =
    SendAppendCtx u64 u64 bool
  | GenReadyCtx
  | TransferLeaderCtx
  | CommitByVoteCtx
  | EmptyCtx bool

fun GetEntriesContext_CanAsync :: "GetEntriesContext \<Rightarrow> bool" where
  "GetEntriesContext_CanAsync (EmptyCtx can_async) = can_async"
| "GetEntriesContext_CanAsync (SendAppendCtx _ _ _) = True"
| "GetEntriesContext_CanAsync _ = False"

record 's storage_ops =
  so_InitialState :: "'s \<Rightarrow> RaftState result"
  so_Entries :: "u64 \<Rightarrow> u64 \<Rightarrow> u64 option \<Rightarrow> GetEntriesContext \<Rightarrow> 's \<Rightarrow> (entry list result \<times> 's) option"
  so_Term :: "u64 \<Rightarrow> 's \<Rightarrow> u64 result option"
  so_FirstIndex :: "'s \<Rightarrow> u64 result"
  so_LastIndex :: "'s \<Rightarrow> u64 result"
  so_GetSnapshot :: "u64 \<Rightarrow> u64 \<Rightarrow> 's \<Rightarrow> (snapshot result \<times> 's) option"

section \<open>MemoryStorage\<close>

record MemoryStorage =
  ms_raft_state :: RaftState
  ms_entries :: "entry list"
  ms_snapshot_metadata :: snapshot_metadata
  ms_trigger_snapshot_unavailable :: bool
  ms_trigger_log_unavailable :: bool
  ms_get_entries_context :: "GetEntriesContext option"

definition MemoryStorage_new :: MemoryStorage where
  "MemoryStorage_new =
     \<lparr>ms_raft_state = RaftState_new, ms_entries = [], ms_snapshot_metadata = default_snapshot_metadata,
      ms_trigger_snapshot_unavailable = False, ms_trigger_log_unavailable = False,
      ms_get_entries_context = None\<rparr>"

definition MemoryStorage_first_index :: "MemoryStorage \<Rightarrow> u64" where
  "MemoryStorage_first_index s =
     (if ms_entries s = [] then sm_index (ms_snapshot_metadata s) + 1 else e_index (hd (ms_entries s)))"

definition MemoryStorage_last_index :: "MemoryStorage \<Rightarrow> u64" where
  "MemoryStorage_last_index s =
     (if ms_entries s = [] then sm_index (ms_snapshot_metadata s) else e_index (last (ms_entries s)))"

definition update_hard_state :: "(hard_state \<Rightarrow> hard_state) \<Rightarrow> MemoryStorage \<Rightarrow> MemoryStorage" where
  "update_hard_state f s =
     s\<lparr>ms_raft_state := (ms_raft_state s)\<lparr>rs_hard_state := f (rs_hard_state (ms_raft_state s))\<rparr>\<rparr>"

definition MemoryStorage_SetHardState :: "hard_state \<Rightarrow> MemoryStorage \<Rightarrow> MemoryStorage" where
  "MemoryStorage_SetHardState hs = update_hard_state (\<lambda>_. hs)"

definition MemoryStorage_SetConfState :: "conf_state \<Rightarrow> MemoryStorage \<Rightarrow> MemoryStorage" where
  "MemoryStorage_SetConfState cs s =
     s\<lparr>ms_raft_state := (ms_raft_state s)\<lparr>rs_conf_state := cs\<rparr>\<rparr>"

definition MemoryStorage_HasEntryAt :: "u64 \<Rightarrow> MemoryStorage \<Rightarrow> bool" where
  "MemoryStorage_HasEntryAt index s \<longleftrightarrow>
     ms_entries s \<noteq> [] \<and> MemoryStorage_first_index s \<le> index \<and> index \<le> MemoryStorage_last_index s"

definition MemoryStorage_CommitTo :: "u64 \<Rightarrow> MemoryStorage \<Rightarrow> MemoryStorage option" where
  "MemoryStorage_CommitTo index s =
     do {
       ASSERT (MemoryStorage_HasEntryAt index s);
       e \<leftarrow> vec_get (ms_entries s) (unat (index - e_index (hd (ms_entries s))));
       Some (update_hard_state (\<lambda>hs. hs\<lparr>hs_commit := index, hs_term := e_term e\<rparr>) s)
     }"

definition MemoryStorage_ApplySnapshot :: "snapshot \<Rightarrow> MemoryStorage \<Rightarrow> unit result \<times> MemoryStorage" where
  "MemoryStorage_ApplySnapshot sn s =
     (let meta = sn_metadata sn; index = sm_index meta in
      if index < MemoryStorage_first_index s then (Inl (StorageError SnapshotOutOfDate), s)
      else
        let s = s\<lparr>ms_snapshot_metadata := meta\<rparr>;
            s = update_hard_state (\<lambda>hs. hs\<lparr>hs_term := max (hs_term hs) (sm_term meta), hs_commit := index\<rparr>) s;
            s = s\<lparr>ms_entries := []\<rparr>
        in (Inr (), MemoryStorage_SetConfState (sm_conf_state meta) s))"

definition MemoryStorage_Compact :: "u64 \<Rightarrow> MemoryStorage \<Rightarrow> (unit result \<times> MemoryStorage) option" where
  "MemoryStorage_Compact compact_index s =
     (if compact_index \<le> MemoryStorage_first_index s then Some (Inr (), s)
      else if MemoryStorage_last_index s + 1 < compact_index then
        Some (Inl (FatalError (Fmt ''compact not received raft logs, compact_index={} last_index={}''
                     [compact_index, MemoryStorage_last_index s])), s)
      else if ms_entries s = [] then Some (Inr (), s)
      else
        let offset = unat (compact_index - e_index (hd (ms_entries s)))
        in if offset \<le> length (ms_entries s)
           then Some (Inr (), s\<lparr>ms_entries := drop offset (ms_entries s)\<rparr>)
           else None)"

definition MemoryStorage_ApplyLocalSnapshot ::
  "snapshot \<Rightarrow> MemoryStorage \<Rightarrow> (unit result \<times> MemoryStorage) option" where
  "MemoryStorage_ApplyLocalSnapshot sn s =
     (let meta = sn_metadata sn; index = sm_index meta in
      if index < MemoryStorage_first_index s then Some (Inl (StorageError SnapshotOutOfDate), s)
      else
        let s = s\<lparr>ms_snapshot_metadata := meta\<rparr>;
            s = update_hard_state (\<lambda>hs. hs\<lparr>hs_term := max (hs_term hs) (sm_term meta)\<rparr>) s;
            s = update_hard_state (\<lambda>hs. if hs_commit hs < index then hs\<lparr>hs_commit := index\<rparr> else hs) s;
            s = MemoryStorage_SetConfState (sm_conf_state meta) s
        in MemoryStorage_Compact (index + 1) s)"

definition MemoryStorage_MayAppend :: "entry list \<Rightarrow> MemoryStorage \<Rightarrow> unit result \<times> MemoryStorage" where
  "MemoryStorage_MayAppend ents s =
     (if ents = [] then (Inr (), s)
      else
        let new_appended = e_index (hd ents) in
        if new_appended < MemoryStorage_first_index s then
          (Inl (FatalError (Fmt ''overwrite compacted raft logs, compacted={} new_appended={}''
                  [MemoryStorage_first_index s - 1, new_appended])), s)
        else if MemoryStorage_last_index s + 1 < new_appended then
          (Inl (FatalError (Fmt ''raft logs should be continuous, last_index={} new_appended={}''
                  [MemoryStorage_last_index s, new_appended])), s)
        else
          let diff = unat (new_appended - MemoryStorage_first_index s);
              kept = (if diff < length (ms_entries s) then take diff (ms_entries s) else ms_entries s)
          in (Inr (), s\<lparr>ms_entries := kept @ ents\<rparr>))"

definition MemoryStorage_Append :: "entry list \<Rightarrow> MemoryStorage \<Rightarrow> unit result \<times> MemoryStorage" where
  "MemoryStorage_Append ents s = MemoryStorage_MayAppend ents s"

definition MemoryStorage_TriggerSnapshotUnavailable :: "MemoryStorage \<Rightarrow> MemoryStorage" where
  "MemoryStorage_TriggerSnapshotUnavailable s = s\<lparr>ms_trigger_snapshot_unavailable := True\<rparr>"

definition MemoryStorage_TriggerLogUnavailable :: "bool \<Rightarrow> MemoryStorage \<Rightarrow> MemoryStorage" where
  "MemoryStorage_TriggerLogUnavailable enable s = s\<lparr>ms_trigger_log_unavailable := enable\<rparr>"

definition MemoryStorage_TakeGetEntriesContext ::
  "MemoryStorage \<Rightarrow> GetEntriesContext option \<times> MemoryStorage" where
  "MemoryStorage_TakeGetEntriesContext s =
     (ms_get_entries_context s, s\<lparr>ms_get_entries_context := None\<rparr>)"

definition MemoryStorage_snapshot :: "MemoryStorage \<Rightarrow> snapshot option" where
  "MemoryStorage_snapshot s =
     (let index = hs_commit (rs_hard_state (ms_raft_state s));
          meta = ms_snapshot_metadata s
      in do {
        ASSERT (\<not> index < sm_index meta);
        trm \<leftarrow> (if sm_index meta < index
               then do {
                 e0 \<leftarrow> vec_get (ms_entries s) 0;
                 e \<leftarrow> vec_get (ms_entries s) (unat (index - e_index e0));
                 Some (e_term e)
               }
               else Some (sm_term meta));
        Some \<lparr>sn_data = [],
              sn_metadata = \<lparr>sm_conf_state = rs_conf_state (ms_raft_state s), sm_index = index, sm_term = trm\<rparr>\<rparr>
      })"

definition MemoryStorage_InitialState :: "MemoryStorage \<Rightarrow> RaftState result" where
  "MemoryStorage_InitialState s = Inr (ms_raft_state s)"

definition MemoryStorage_Entries ::
  "(entry \<Rightarrow> u64) \<Rightarrow> u64 \<Rightarrow> u64 \<Rightarrow> u64 option \<Rightarrow> GetEntriesContext \<Rightarrow> MemoryStorage \<Rightarrow>
     (entry list result \<times> MemoryStorage) option" where
  "MemoryStorage_Entries entry_bytes low high max_size context s =
     (if low < MemoryStorage_first_index s then Some (Inl (StorageError Compacted), s)
      else if MemoryStorage_last_index s + 1 < high then None
      else if ms_trigger_log_unavailable s \<and> GetEntriesContext_CanAsync context
      then Some (Inl (StorageError LogTemporarilyUnavailable), s\<lparr>ms_get_entries_context := Some context\<rparr>)
      else do {
        front \<leftarrow> vec_get (ms_entries s) 0;
        let lo = unat (low - e_index front);
        let hi = unat (high - e_index front);
        ASSERT (lo \<le> hi \<and> hi \<le> length (ms_entries s));
        let entries = take (hi - lo) (drop lo (ms_entries s));
        Some (Inr (case max_size of Some m \<Rightarrow> LimitSize entry_bytes (Some m) entries | None \<Rightarrow> entries), s)
      })"

definition MemoryStorage_SetEntries :: "entry list \<Rightarrow> MemoryStorage \<Rightarrow> MemoryStorage" where
  "MemoryStorage_SetEntries entries s = s\<lparr>ms_entries := entries\<rparr>"

definition MemoryStorage_SetRaftState :: "RaftState \<Rightarrow> MemoryStorage \<Rightarrow> MemoryStorage" where
  "MemoryStorage_SetRaftState rs s = s\<lparr>ms_raft_state := rs\<rparr>"

definition MemoryStorage_AllEntries :: "MemoryStorage \<Rightarrow> entry list" where
  "MemoryStorage_AllEntries s = ms_entries s"

definition MemoryStorage_Sync :: "MemoryStorage \<Rightarrow> unit result" where
  "MemoryStorage_Sync s = Inr ()"

definition MemoryStorage_Term :: "u64 \<Rightarrow> MemoryStorage \<Rightarrow> u64 result option" where
  "MemoryStorage_Term idx s =
     (if idx = sm_index (ms_snapshot_metadata s) then Some (Inr (sm_term (ms_snapshot_metadata s)))
      else
        let offset = MemoryStorage_first_index s in
        if idx < offset then Some (Inl (StorageError Compacted))
        else if MemoryStorage_last_index s < idx then Some (Inl (StorageError Unavailable))
        else do {
          e \<leftarrow> vec_get (ms_entries s) (unat (idx - offset));
          Some (Inr (e_term e))
        })"

definition MemoryStorage_GetSnapshot ::
  "u64 \<Rightarrow> u64 \<Rightarrow> MemoryStorage \<Rightarrow> (snapshot result \<times> MemoryStorage) option" where
  "MemoryStorage_GetSnapshot request_index to s =
     (if ms_trigger_snapshot_unavailable s
      then Some (Inl (StorageError SnapshotTemporarilyUnavailable),
                 s\<lparr>ms_trigger_snapshot_unavailable := False\<rparr>)
      else do {
        sn \<leftarrow> MemoryStorage_snapshot s;
        Some (Inr (if sn_index sn < request_index
                   then sn\<lparr>sn_metadata := (sn_metadata sn)\<lparr>sm_index := request_index\<rparr>\<rparr>
                   else sn), s)
      })"

definition memory_ops :: "(entry \<Rightarrow> u64) \<Rightarrow> MemoryStorage storage_ops" where
  "memory_ops entry_bytes =
     \<lparr>so_InitialState = MemoryStorage_InitialState,
      so_Entries = MemoryStorage_Entries entry_bytes,
      so_Term = MemoryStorage_Term,
      so_FirstIndex = (\<lambda>s. Inr (MemoryStorage_first_index s)),
      so_LastIndex = (\<lambda>s. Inr (MemoryStorage_last_index s)),
      so_GetSnapshot = MemoryStorage_GetSnapshot\<rparr>"

section \<open>Consecutive entries\<close>

text \<open>The entries carry the indexes \<open>n\<close>, \<open>n + 1\<close>, ... in this order.\<close>

fun contig :: "u64 \<Rightarrow> entry list \<Rightarrow> bool" where
  "contig n [] = True"
| "contig n (e # es) = (e_index e = n \<and> contig (n + 1) es)"

lemma contig_nth: "contig n es \<Longrightarrow> i < length es \<Longrightarrow> e_index (es ! i) = n + of_nat i"
proof (induction es arbitrary: n i)
  case (Cons e es)
  then show ?case by (cases i) (auto simp: algebra_simps)
qed simp

lemma contig_append [simp]:
  "contig n (xs @ ys) \<longleftrightarrow> contig n xs \<and> contig (n + of_nat (length xs)) ys"
  by (induction xs arbitrary: n) (auto simp: algebra_simps)

lemma contig_take [simp]: "contig n es \<Longrightarrow> contig n (take k es)"
  by (metis append_take_drop_id contig_append)

lemma contig_drop: "contig n es \<Longrightarrow> k \<le> length es \<Longrightarrow> contig (n + of_nat k) (drop k es)"
  by (metis append_take_drop_id contig_append length_take min.absorb2)

lemma contig_hd: "contig n es \<Longrightarrow> es \<noteq> [] \<Longrightarrow> e_index (hd es) = n"
  by (cases es) auto

lemma contig_last: "contig n es \<Longrightarrow> es \<noteq> [] \<Longrightarrow> e_index (last es) = n + of_nat (length es) - 1"
  by (simp add: last_conv_nth contig_nth of_nat_diff Suc_leI)

lemma unat_last:
  assumes "unat (n::u64) + k < 2 ^ 64" "0 < unat n + k"
  shows "unat (n + of_nat k - 1) = unat n + k - 1"
proof -
  have "unat (n + of_nat k) = unat n + k" by (rule unat_add_of_nat_u64 [OF assms(1)])
  moreover have "n + of_nat k \<noteq> 0" using calculation assms(2) by (metis less_numeral_extra(3) unat_0)
  ultimately show ?thesis by (simp add: unat_sub_one_u64)
qed

section \<open>What the log relies on\<close>

text \<open>
  A storage holds consecutive entries \<open>ents s\<close> from \<open>first s\<close> on. Reading may be postponed
  (\<open>LogTemporarilyUnavailable\<close>) only if the caller allowed it, and changes nothing visible.
\<close>

locale log_storage =
  fixes ops :: "'s storage_ops" and inv :: "'s \<Rightarrow> bool" and first :: "'s \<Rightarrow> u64"
    and ents :: "'s \<Rightarrow> entry list" and sz :: "entry \<Rightarrow> u64"
  assumes st_contig: "inv s \<Longrightarrow> contig (first s) (ents s)"
    and st_fits: "inv s \<Longrightarrow> unat (first s) + length (ents s) < 2 ^ 64"
    and st_first_pos: "inv s \<Longrightarrow> 0 < first s"
    and st_FirstIndex: "inv s \<Longrightarrow> so_FirstIndex ops s = Inr (first s)"
    and st_LastIndex: "inv s \<Longrightarrow> so_LastIndex ops s = Inr (first s + of_nat (length (ents s)) - 1)"
    and st_Term_in: "inv s \<Longrightarrow> i < length (ents s) \<Longrightarrow>
       so_Term ops (first s + of_nat i) s = Some (Inr (e_term (ents s ! i)))"
    and st_Term_after: "inv s \<Longrightarrow> unat (first s) + length (ents s) \<le> unat idx \<Longrightarrow>
       so_Term ops idx s = Some (Inl (StorageError Unavailable))"
    and st_Term_before: "inv s \<Longrightarrow> idx < first s \<Longrightarrow>
       so_Term ops idx s = Some (Inl (StorageError Compacted)) \<or> (\<exists>t. so_Term ops idx s = Some (Inr t))"
    and st_Entries_before: "inv s \<Longrightarrow> low < first s \<Longrightarrow>
       so_Entries ops low high mx ctx s = Some (Inl (StorageError Compacted), s)"
    and st_Entries: "inv s \<Longrightarrow> first s \<le> low \<Longrightarrow> low < high \<Longrightarrow>
       unat high \<le> unat (first s) + length (ents s) \<Longrightarrow>
       \<exists>s'. inv s' \<and> first s' = first s \<and> ents s' = ents s \<and>
         (so_Entries ops low high mx ctx s = Some (Inl (StorageError LogTemporarilyUnavailable), s') \<and>
            GetEntriesContext_CanAsync ctx \<or>
          so_Entries ops low high mx ctx s = Some (Inr (LimitSize sz mx
            (take (unat high - unat low) (drop (unat low - unat (first s)) (ents s)))), s'))"
    and st_Entries_frame: "so_Entries ops low high mx ctx s = Some (res, s') \<Longrightarrow>
       inv s' = inv s \<and> first s' = first s \<and> ents s' = ents s"
    and st_GetSnapshot_frame: "so_GetSnapshot ops ri to s = Some (sn, s') \<Longrightarrow>
       inv s' = inv s \<and> first s' = first s \<and> ents s' = ents s"
begin

lemma st_last_unat: "inv s \<Longrightarrow>
    unat (first s + of_nat (length (ents s)) - 1) = unat (first s) + length (ents s) - 1"
  using st_fits [of s] st_first_pos [of s] by (intro unat_last) (auto simp: word_less_nat_alt)

lemma st_Term_at:
  assumes "inv s" "first s \<le> idx" "unat idx < unat (first s) + length (ents s)"
  shows "so_Term ops idx s = Some (Inr (e_term (ents s ! (unat idx - unat (first s)))))"
proof -
  have le: "unat (first s) \<le> unat idx" using assms(2) by (simp add: word_le_nat_alt)
  then have "idx = first s + of_nat (unat idx - unat (first s))"
    using unat_add_of_nat_u64 [of "first s" "unat idx - unat (first s)"] st_fits [OF assms(1)] assms(3)
    by (simp add: u64_eq_iff)
  moreover have "unat idx - unat (first s) < length (ents s)" using assms(3) le by arith
  ultimately show ?thesis using st_Term_in [OF assms(1)] by metis
qed

end

section \<open>MemoryStorage keeps the contract\<close>

definition mem_wf :: "MemoryStorage \<Rightarrow> bool" where
  "mem_wf s \<longleftrightarrow>
     contig (MemoryStorage_first_index s) (ms_entries s) \<and>
     unat (MemoryStorage_first_index s) + length (ms_entries s) < 2 ^ 64 \<and>
     sm_index (ms_snapshot_metadata s) < MemoryStorage_first_index s"

lemma mem_last:
  assumes "mem_wf s"
  shows "MemoryStorage_last_index s = MemoryStorage_first_index s + of_nat (length (ms_entries s)) - 1"
    and "unat (MemoryStorage_last_index s) = unat (MemoryStorage_first_index s) + length (ms_entries s) - 1"
    and "unat (MemoryStorage_last_index s + 1) = unat (MemoryStorage_first_index s) + length (ms_entries s)"
proof -
  show l: "MemoryStorage_last_index s = MemoryStorage_first_index s + of_nat (length (ms_entries s)) - 1"
    using assms contig_last [of "MemoryStorage_first_index s" "ms_entries s"]
    by (auto simp: mem_wf_def MemoryStorage_last_index_def MemoryStorage_first_index_def)
  have "0 < MemoryStorage_first_index s"
    using assms by (auto simp: mem_wf_def intro: le_less_trans [OF word_zero_le])
  then show u: "unat (MemoryStorage_last_index s) = unat (MemoryStorage_first_index s) + length (ms_entries s) - 1"
    unfolding l using assms by (intro unat_last) (auto simp: mem_wf_def word_less_nat_alt)
  then show "unat (MemoryStorage_last_index s + 1) = unat (MemoryStorage_first_index s) + length (ms_entries s)"
    using assms unat_add_of_nat_u64 by (simp add: l mem_wf_def)
qed

lemma mem_first_pos: "mem_wf s \<Longrightarrow> 0 < MemoryStorage_first_index s"
  by (auto simp: mem_wf_def intro: le_less_trans [OF word_zero_le])

lemma mem_Term_in:
  assumes "mem_wf s" "i < length (ms_entries s)"
  shows "MemoryStorage_Term (MemoryStorage_first_index s + of_nat i) s = Some (Inr (e_term (ms_entries s ! i)))"
proof -
  let ?f = "MemoryStorage_first_index s"
  have u: "unat (?f + of_nat i) = unat ?f + i"
    using assms by (intro unat_add_of_nat_u64) (simp add: mem_wf_def)
  have "\<not> ?f + of_nat i < ?f" "\<not> MemoryStorage_last_index s < ?f + of_nat i"
    using u assms(2) mem_last(2) [OF assms(1)] by (auto simp: word_less_nat_alt)
  moreover have "?f + of_nat i \<noteq> sm_index (ms_snapshot_metadata s)"
    using u assms(1) by (auto simp: mem_wf_def word_less_nat_alt)
  moreover have "unat (?f + of_nat i - ?f) = i"
    using assms by (simp add: unat_of_nat_u64 mem_wf_def)
  ultimately show ?thesis using assms(2) by (simp add: MemoryStorage_Term_def Let_def)
qed

lemma mem_Term_after:
  assumes "mem_wf s" "unat (MemoryStorage_first_index s) + length (ms_entries s) \<le> unat idx"
  shows "MemoryStorage_Term idx s = Some (Inl (StorageError Unavailable))"
proof -
  have "MemoryStorage_last_index s < idx" "\<not> idx < MemoryStorage_first_index s"
    using assms(2) mem_last(2) [OF assms(1)] mem_first_pos [OF assms(1)] by (auto simp: word_less_nat_alt)
  moreover have "idx \<noteq> sm_index (ms_snapshot_metadata s)"
    using assms by (auto simp: mem_wf_def word_less_nat_alt)
  ultimately show ?thesis by (simp add: MemoryStorage_Term_def Let_def)
qed

lemma mem_Entries:
  assumes "mem_wf s" "MemoryStorage_first_index s \<le> low" "low < high"
    "unat high \<le> unat (MemoryStorage_first_index s) + length (ms_entries s)"
  shows "MemoryStorage_Entries sz low high mx ctx s =
     (if ms_trigger_log_unavailable s \<and> GetEntriesContext_CanAsync ctx
      then Some (Inl (StorageError LogTemporarilyUnavailable), s\<lparr>ms_get_entries_context := Some ctx\<rparr>)
      else Some (Inr (LimitSize sz mx (take (unat high - unat low)
             (drop (unat low - unat (MemoryStorage_first_index s)) (ms_entries s)))), s))"
proof -
  let ?f = "MemoryStorage_first_index s"
  have lh: "unat ?f \<le> unat low" "unat low < unat high" using assms(2,3) by (simp_all add: u64_nat_simps)
  then have ne: "ms_entries s \<noteq> []" using assms(4) by auto
  have f: "e_index (ms_entries s ! 0) = ?f" using ne by (simp add: MemoryStorage_first_index_def hd_conv_nth)
  have hi: "unat (high - ?f) = unat high - unat ?f" and lo: "unat (low - ?f) = unat low - unat ?f"
    using lh by (simp_all add: unat_sub_u64 word_le_nat_alt)
  have "\<not> MemoryStorage_last_index s + 1 < high"
    using mem_last(3) [OF assms(1)] assms(4) by (simp add: word_less_nat_alt)
  moreover have "\<not> low < ?f" using assms(2) by simp
  moreover have "unat high - unat ?f - (unat low - unat ?f) = unat high - unat low" using lh by arith
  moreover have "unat low - unat ?f \<le> unat high - unat ?f" "unat high - unat ?f \<le> length (ms_entries s)"
    using lh assms(4) by arith+
  moreover have "LimitSize sz None es = es" for es by (simp add: LimitSize_def)
  ultimately show ?thesis using ne
    by (cases mx) (simp_all add: MemoryStorage_Entries_def f hi lo)
qed

lemma mem_context_frame [simp]:
  "mem_wf (s\<lparr>ms_get_entries_context := c\<rparr>) = mem_wf s"
  "MemoryStorage_first_index (s\<lparr>ms_get_entries_context := c\<rparr>) = MemoryStorage_first_index s"
  "mem_wf (s\<lparr>ms_trigger_snapshot_unavailable := b\<rparr>) = mem_wf s"
  "MemoryStorage_first_index (s\<lparr>ms_trigger_snapshot_unavailable := b\<rparr>) = MemoryStorage_first_index s"
  by (simp_all add: mem_wf_def MemoryStorage_first_index_def)

interpretation mem: log_storage "memory_ops sz" mem_wf MemoryStorage_first_index ms_entries sz for sz
proof unfold_locales
  show "contig (MemoryStorage_first_index s) (ms_entries s)"
    "unat (MemoryStorage_first_index s) + length (ms_entries s) < 2 ^ 64" if "mem_wf s" for s
    using that by (simp_all add: mem_wf_def)
  show "0 < MemoryStorage_first_index s" if "mem_wf s" for s using that by (rule mem_first_pos)
  show "so_FirstIndex (memory_ops sz) s = Inr (MemoryStorage_first_index s)" for s
    by (simp add: memory_ops_def)
  show "so_LastIndex (memory_ops sz) s = Inr (MemoryStorage_first_index s + of_nat (length (ms_entries s)) - 1)"
    if "mem_wf s" for s using mem_last(1) [OF that] by (simp add: memory_ops_def)
  show "so_Term (memory_ops sz) (MemoryStorage_first_index s + of_nat i) s = Some (Inr (e_term (ms_entries s ! i)))"
    if "mem_wf s" "i < length (ms_entries s)" for s i using mem_Term_in [OF that] by (simp add: memory_ops_def)
  show "so_Term (memory_ops sz) idx s = Some (Inl (StorageError Unavailable))"
    if "mem_wf s" "unat (MemoryStorage_first_index s) + length (ms_entries s) \<le> unat idx" for s idx
    using mem_Term_after [OF that] by (simp add: memory_ops_def)
  show "so_Term (memory_ops sz) idx s = Some (Inl (StorageError Compacted)) \<or>
      (\<exists>t. so_Term (memory_ops sz) idx s = Some (Inr t))" if "idx < MemoryStorage_first_index s" for s idx
    using that by (simp add: memory_ops_def MemoryStorage_Term_def Let_def)
  show "so_Entries (memory_ops sz) low high mx ctx s = Some (Inl (StorageError Compacted), s)"
    if "low < MemoryStorage_first_index s" for s low high mx ctx
    using that by (simp add: memory_ops_def MemoryStorage_Entries_def)
  show "\<exists>s'. mem_wf s' \<and> MemoryStorage_first_index s' = MemoryStorage_first_index s \<and> ms_entries s' = ms_entries s \<and>
     (so_Entries (memory_ops sz) low high mx ctx s = Some (Inl (StorageError LogTemporarilyUnavailable), s') \<and>
        GetEntriesContext_CanAsync ctx \<or>
      so_Entries (memory_ops sz) low high mx ctx s = Some (Inr (LimitSize sz mx (take (unat high - unat low)
        (drop (unat low - unat (MemoryStorage_first_index s)) (ms_entries s)))), s'))"
    if "mem_wf s" "MemoryStorage_first_index s \<le> low" "low < high"
      "unat high \<le> unat (MemoryStorage_first_index s) + length (ms_entries s)" for s low high mx ctx
    using mem_Entries [OF that, of sz mx ctx] that(1)
    by (cases "ms_trigger_log_unavailable s \<and> GetEntriesContext_CanAsync ctx")
      (auto simp: memory_ops_def intro: exI [of _ "s\<lparr>ms_get_entries_context := Some ctx\<rparr>"])
  show "mem_wf s' = mem_wf s \<and> MemoryStorage_first_index s' = MemoryStorage_first_index s \<and> ms_entries s' = ms_entries s"
    if "so_Entries (memory_ops sz) low high mx ctx s = Some (res, s')" for low high mx ctx s res s'
    using that by (auto simp: memory_ops_def MemoryStorage_Entries_def Let_def mem_wf_def MemoryStorage_first_index_def
        split: if_splits elim!: bind_SomeE)
  show "mem_wf s' = mem_wf s \<and> MemoryStorage_first_index s' = MemoryStorage_first_index s \<and> ms_entries s' = ms_entries s"
    if "so_GetSnapshot (memory_ops sz) ri to s = Some (sn, s')" for ri to s sn s'
    using that by (auto simp: memory_ops_def MemoryStorage_GetSnapshot_def mem_wf_def MemoryStorage_first_index_def
        split: if_splits elim!: bind_SomeE)
qed

section \<open>Writing to MemoryStorage\<close>

lemma mem_MayAppend:
  assumes "mem_wf s" "es \<noteq> []" "contig (e_index (hd es)) es" "unat (e_index (hd es)) + length es < 2 ^ 64"
  defines "n \<equiv> unat (e_index (hd es))" and "f \<equiv> unat (MemoryStorage_first_index s)"
  shows "if f \<le> n \<and> n \<le> f + length (ms_entries s)
         then \<exists>s'. MemoryStorage_MayAppend es s = (Inr (), s') \<and> mem_wf s' \<and>
                ms_entries s' = take (n - f) (ms_entries s) @ es \<and>
                MemoryStorage_first_index s' = MemoryStorage_first_index s \<and>
                ms_raft_state s' = ms_raft_state s
         else \<exists>m. MemoryStorage_MayAppend es s = (Inl (FatalError m), s)"
proof -
  let ?f = "MemoryStorage_first_index s" and ?n = "e_index (hd es)"
  have low: "?n < ?f \<longleftrightarrow> n < f" by (simp add: n_def f_def word_less_nat_alt)
  have high: "MemoryStorage_last_index s + 1 < ?n \<longleftrightarrow> f + length (ms_entries s) < n"
    using mem_last(3) [OF assms(1)] by (simp add: n_def f_def word_less_nat_alt)
  show ?thesis
  proof (cases "f \<le> n \<and> n \<le> f + length (ms_entries s)")
    case True
    have d: "unat (?n - ?f) = n - f" using True by (simp add: unat_sub_u64 word_le_nat_alt n_def f_def)
    let ?es = "take (n - f) (ms_entries s) @ es"
    let ?s = "s\<lparr>ms_entries := ?es\<rparr>"
    have r: "MemoryStorage_MayAppend es s = (Inr (), ?s)"
      using True low high d assms(2) by (simp add: MemoryStorage_MayAppend_def Let_def)
    have len: "length (take (n - f) (ms_entries s)) = n - f" using True by (auto simp: min_def)
    have at: "?f + of_nat (n - f) = ?n"
      using unat_add_of_nat_u64 [of ?f "n - f"] True assms(4) unat_lt_max [of ?n]
      by (simp add: u64_eq_iff n_def f_def)
    have first: "MemoryStorage_first_index ?s = ?f"
    proof (cases "n = f")
      case True
      then have "?n = ?f" by (simp add: n_def f_def u64_eq_iff)
      then show ?thesis using True assms(2) by (simp add: MemoryStorage_first_index_def)
    next
      case False
      then have "ms_entries s \<noteq> []" using True by auto
      then show ?thesis using False True
        by (simp add: MemoryStorage_first_index_def hd_append hd_take)
    qed
    have "contig ?f ?es" using assms(1,3) len at by (simp add: mem_wf_def)
    moreover have "unat ?f + length ?es < 2 ^ 64" using assms(4) len True by (simp add: n_def f_def)
    ultimately have "mem_wf ?s" using first assms(1) by (simp add: mem_wf_def)
    then show ?thesis using True r first by auto
  next
    case False
    then show ?thesis using low high assms(2)
      by (auto simp: MemoryStorage_MayAppend_def Let_def)
  qed
qed

lemma mem_MayAppend_wf:
  assumes "mem_wf s" "es \<noteq> []" "contig (e_index (hd es)) es" "unat (e_index (hd es)) + length es < 2 ^ 64"
    "MemoryStorage_MayAppend es s = (r, s')"
  shows "mem_wf s'"
  using mem_MayAppend [OF assms(1-4)] assms(1,5) by (auto split: if_splits)

text \<open>
  C28. Appending to the in-memory log: the batch is accepted exactly when it starts inside the log or
  directly behind it; then everything from its first index on is replaced by it and nothing before
  is touched. Otherwise the log stays as it is and the error names the gap or the overwrite.
\<close>

theorem memory_append_replaces_suffix:
  assumes "mem_wf s" "es \<noteq> []" "contig (e_index (hd es)) es" "unat (e_index (hd es)) + length es < 2 ^ 64"
  defines "n \<equiv> unat (e_index (hd es))" and "f \<equiv> unat (MemoryStorage_first_index s)"
  shows "if f \<le> n \<and> n \<le> f + length (ms_entries s)
         then \<exists>s'. MemoryStorage_MayAppend es s = (Inr (), s') \<and> mem_wf s' \<and>
                ms_entries s' = take (n - f) (ms_entries s) @ es \<and>
                MemoryStorage_first_index s' = MemoryStorage_first_index s \<and>
                ms_raft_state s' = ms_raft_state s
         else \<exists>m. MemoryStorage_MayAppend es s = (Inl (FatalError m), s)"
  using mem_MayAppend [OF assms(1-4)] unfolding n_def f_def .

definition memory_example :: MemoryStorage where
  "memory_example = MemoryStorage_new\<lparr>ms_entries := [MakeEntry 1 1 ENTRY_NORMAL, MakeEntry 2 1 ENTRY_NORMAL, MakeEntry 3 1 ENTRY_NORMAL]\<rparr>"

lemma memory_example_wf: "mem_wf memory_example"
  by (simp add: mem_wf_def memory_example_def MemoryStorage_new_def MemoryStorage_first_index_def
      MakeEntry_def default_entry_def default_snapshot_metadata_def)

theorem memory_append_replaces_suffix_witness:
  "\<exists>s'. MemoryStorage_MayAppend [MakeEntry 2 5 ENTRY_NORMAL] memory_example = (Inr (), s') \<and>
        ms_entries s' = [MakeEntry 1 1 ENTRY_NORMAL, MakeEntry 2 5 ENTRY_NORMAL]"
proof -
  have "contig (e_index (hd [MakeEntry 2 5 ENTRY_NORMAL])) [MakeEntry 2 5 ENTRY_NORMAL]" by simp
  from memory_append_replaces_suffix [OF memory_example_wf _ this]
  show ?thesis
    by (auto simp: memory_example_def MakeEntry_def default_entry_def MemoryStorage_first_index_def
        MemoryStorage_new_def)
qed

text \<open>
  The operations as one step: a batch must be consecutive and its indexes must fit, and a local snapshot must lie within
  the log. Reading is a step, since it notes contexts and clears the trigger.
\<close>

inductive mem_step :: "MemoryStorage \<Rightarrow> MemoryStorage \<Rightarrow> bool" where
  append: "contig (e_index (hd es)) es \<Longrightarrow> unat (e_index (hd es)) + length es < 2 ^ 64 \<Longrightarrow>
     MemoryStorage_Append es s = (r, s') \<Longrightarrow> mem_step s s'"
| apply_snapshot: "sn_index sn < u64_max \<Longrightarrow> MemoryStorage_ApplySnapshot sn s = (r, s') \<Longrightarrow> mem_step s s'"
| local_snapshot: "sn_index sn < u64_max \<Longrightarrow> ms_entries s = [] \<or> sn_index sn \<le> MemoryStorage_last_index s \<Longrightarrow>
     MemoryStorage_ApplyLocalSnapshot sn s = Some (r, s') \<Longrightarrow> mem_step s s'"
| compact: "MemoryStorage_Compact i s = Some (r, s') \<Longrightarrow> mem_step s s'"
| hard_state: "mem_step s (MemoryStorage_SetHardState hs s)"
| conf_state: "mem_step s (MemoryStorage_SetConfState cs s)"
| commit_to: "MemoryStorage_CommitTo i s = Some s' \<Longrightarrow> mem_step s s'"
| log_unavailable: "mem_step s (MemoryStorage_TriggerLogUnavailable b s)"
| snapshot_unavailable: "mem_step s (MemoryStorage_TriggerSnapshotUnavailable s)"
| take_context: "mem_step s (snd (MemoryStorage_TakeGetEntriesContext s))"
| set_entries: "contig (e_index (hd es)) es \<Longrightarrow> es \<noteq> [] \<longrightarrow> sm_index (ms_snapshot_metadata s) < e_index (hd es) \<Longrightarrow>
     unat (e_index (hd es)) + length es < 2 ^ 64 \<Longrightarrow> mem_step s (MemoryStorage_SetEntries es s)"
| raft_state: "mem_step s (MemoryStorage_SetRaftState rs s)"
| entries: "MemoryStorage_Entries sz low high max_size ctx s = Some (r, s') \<Longrightarrow> mem_step s s'"
| get_snapshot: "MemoryStorage_GetSnapshot i to s = Some (r, s') \<Longrightarrow> mem_step s s'"

lemma mem_wf_cong:
  "ms_entries s = ms_entries s' \<Longrightarrow> ms_snapshot_metadata s = ms_snapshot_metadata s' \<Longrightarrow> mem_wf s = mem_wf s'"
  by (simp add: mem_wf_def MemoryStorage_first_index_def)

lemma u64_lt_succ: "(x::u64) < y \<Longrightarrow> x < x + 1"
  using unat_Suc_u64 [of x y] by (simp add: word_less_nat_alt)

lemma mem_ApplySnapshot_wf:
  "mem_wf s \<Longrightarrow> sn_index sn < u64_max \<Longrightarrow> MemoryStorage_ApplySnapshot sn s = (r, s') \<Longrightarrow> mem_wf s'"
  using unat_lt_max [of "sn_index sn + 1"]
  by (auto simp: MemoryStorage_ApplySnapshot_def Let_def mem_wf_def MemoryStorage_first_index_def
      update_hard_state_def MemoryStorage_SetConfState_def u64_lt_succ split: if_splits)

lemma mem_Compact_wf:
  assumes "mem_wf s" "MemoryStorage_Compact i s = Some (r, s')"
  shows "mem_wf s'"
proof (cases "s' = s")
  case False
  let ?f = "MemoryStorage_first_index s" and ?k = "unat (i - e_index (hd (ms_entries s)))"
  from False assms have s': "s' = s\<lparr>ms_entries := drop ?k (ms_entries s)\<rparr>" "ms_entries s \<noteq> []"
    "?k \<le> length (ms_entries s)"
    by (auto simp: MemoryStorage_Compact_def Let_def split: if_splits)
  have c: "contig (?f + of_nat ?k) (drop ?k (ms_entries s))"
    using assms(1) s'(3) by (intro contig_drop) (simp_all add: mem_wf_def)
  have u: "unat (?f + of_nat ?k) = unat ?f + ?k"
    using assms(1) s'(3) by (intro unat_add_of_nat_u64) (simp add: mem_wf_def)
  have m: "sm_index (ms_snapshot_metadata s) < ?f" using assms(1) by (simp add: mem_wf_def)
  show ?thesis
  proof (cases "drop ?k (ms_entries s) = []")
    case True
    have "sm_index (ms_snapshot_metadata s) < sm_index (ms_snapshot_metadata s) + 1"
      by (rule u64_lt_succ [OF m])
    then show ?thesis using True s'(1) unat_lt_max [of "sm_index (ms_snapshot_metadata s) + 1"]
      by (simp add: mem_wf_def MemoryStorage_first_index_def)
  next
    case False
    then have "MemoryStorage_first_index s' = ?f + of_nat ?k"
      using contig_hd [OF c False] s'(1) by (simp add: MemoryStorage_first_index_def)
    then show ?thesis using c u m s'(1,3) assms(1) by (simp add: mem_wf_def word_less_nat_alt)
  qed
qed (use assms in simp)

text \<open>The state in which \<open>ApplyLocalSnapshot\<close> compacts.\<close>

definition with_local_snapshot :: "snapshot \<Rightarrow> MemoryStorage \<Rightarrow> MemoryStorage" where
  "with_local_snapshot sn s =
     (let meta = sn_metadata sn; index = sm_index meta;
          s = s\<lparr>ms_snapshot_metadata := meta\<rparr>;
          s = update_hard_state (\<lambda>hs. hs\<lparr>hs_term := max (hs_term hs) (sm_term meta)\<rparr>) s;
          s = update_hard_state (\<lambda>hs. if hs_commit hs < index then hs\<lparr>hs_commit := index\<rparr> else hs) s
      in MemoryStorage_SetConfState (sm_conf_state meta) s)"

lemma ApplyLocalSnapshot_alt:
  "MemoryStorage_ApplyLocalSnapshot sn s =
     (if sn_index sn < MemoryStorage_first_index s then Some (Inl (StorageError SnapshotOutOfDate), s)
      else MemoryStorage_Compact (sn_index sn + 1) (with_local_snapshot sn s))"
  by (simp add: MemoryStorage_ApplyLocalSnapshot_def with_local_snapshot_def Let_def)

lemma with_local_snapshot_simps [simp]:
  "ms_entries (with_local_snapshot sn s) = ms_entries s"
  "ms_snapshot_metadata (with_local_snapshot sn s) = sn_metadata sn"
  by (simp_all add: with_local_snapshot_def Let_def update_hard_state_def MemoryStorage_SetConfState_def)

lemma mem_ApplyLocalSnapshot:
  assumes "mem_wf s" "MemoryStorage_first_index s \<le> sn_index sn" "sn_index sn < u64_max"
    "ms_entries s = [] \<or> sn_index sn \<le> MemoryStorage_last_index s"
  shows "\<exists>s'. MemoryStorage_ApplyLocalSnapshot sn s = Some (Inr (), s') \<and> mem_wf s' \<and>
           ms_snapshot_metadata s' = sn_metadata sn \<and>
           MemoryStorage_first_index s' = sn_index sn + 1 \<and>
           ms_entries s' = drop (Suc (unat (sn_index sn)) - unat (MemoryStorage_first_index s)) (ms_entries s)"
proof -
  let ?s = "with_local_snapshot sn s" and ?i = "sn_index sn" and ?f = "MemoryStorage_first_index s"
  have suc: "unat (?i + 1) = Suc (unat ?i)" by (rule unat_Suc_u64 [OF assms(3)])
  show ?thesis
  proof (cases "ms_entries s = []")
    case True
    then have "MemoryStorage_Compact (?i + 1) ?s = Some (Inr (), ?s)"
      by (simp add: MemoryStorage_Compact_def MemoryStorage_first_index_def)
    then show ?thesis using True assms(2) u64_lt_succ [OF assms(3)] unat_lt_max [of "?i + 1"]
      by (auto simp: ApplyLocalSnapshot_alt mem_wf_def MemoryStorage_first_index_def)
  next
    case False
    have f: "MemoryStorage_first_index ?s = ?f" "MemoryStorage_last_index ?s = MemoryStorage_last_index s"
      using False by (simp_all add: MemoryStorage_first_index_def MemoryStorage_last_index_def)
    have fi: "unat ?f \<le> unat ?i" using assms(2) by (simp add: word_le_nat_alt)
    have il: "unat ?i < unat ?f + length (ms_entries s)"
      using assms(4) False mem_last(2) [OF assms(1)] mem_first_pos [OF assms(1)]
      by (auto simp: word_le_nat_alt word_less_nat_alt)
    define k where "k = unat (?i + 1 - ?f)"
    have k: "k = Suc (unat ?i) - unat ?f"
      using suc fi by (simp add: k_def unat_sub_u64 word_le_nat_alt)
    have kl: "k \<le> length (ms_entries s)" using k il by arith
    let ?s' = "?s\<lparr>ms_entries := drop k (ms_entries s)\<rparr>"
    have "\<not> ?i + 1 \<le> ?f" "\<not> MemoryStorage_last_index s + 1 < ?i + 1"
      using suc fi il mem_last(3) [OF assms(1)] by (auto simp: u64_nat_simps)
    moreover have "e_index (hd (ms_entries s)) = ?f" using False by (simp add: MemoryStorage_first_index_def)
    ultimately have r: "MemoryStorage_Compact (?i + 1) ?s = Some (Inr (), ?s')"
      using False kl f by (simp add: MemoryStorage_Compact_def Let_def k_def)
    have at: "?f + of_nat k = ?i + 1" using k suc fi by (simp add: k_def)
    have c: "contig (?i + 1) (drop k (ms_entries s))"
      using contig_drop [of ?f "ms_entries s" k] kl assms(1) at by (simp add: mem_wf_def)
    have first: "MemoryStorage_first_index ?s' = ?i + 1"
      using contig_hd [OF c] by (simp add: MemoryStorage_first_index_def)
    have "unat ?f + length (ms_entries s) < 2 ^ 64" using assms(1) by (simp add: mem_wf_def)
    then have "mem_wf ?s'"
      using c suc k fi kl u64_lt_succ [OF assms(3)] unfolding mem_wf_def first by simp
    then show ?thesis using r first k assms(2) by (auto simp: ApplyLocalSnapshot_alt)
  qed
qed

lemma mem_ApplyLocalSnapshot_beyond:
  assumes "mem_wf s" "ms_entries s \<noteq> []" "MemoryStorage_last_index s < sn_index sn" "sn_index sn < u64_max"
  shows "\<exists>m. MemoryStorage_ApplyLocalSnapshot sn s = Some (Inl (FatalError m), with_local_snapshot sn s)"
proof -
  have f: "MemoryStorage_first_index (with_local_snapshot sn s) = MemoryStorage_first_index s"
    "MemoryStorage_last_index (with_local_snapshot sn s) = MemoryStorage_last_index s"
    using assms(2) by (simp_all add: MemoryStorage_first_index_def MemoryStorage_last_index_def)
  have "unat (MemoryStorage_first_index s) \<le> unat (MemoryStorage_last_index s)"
    using mem_last(2) [OF assms(1)] assms(2) by (cases "ms_entries s") auto
  then have "\<not> sn_index sn < MemoryStorage_first_index s"
    "\<not> sn_index sn + 1 \<le> MemoryStorage_first_index s"
    "MemoryStorage_last_index s + 1 < sn_index sn + 1"
    using assms(3) unat_Suc_u64 [OF assms(4)] unat_Suc_u64 [OF assms(3)] by (auto simp: u64_nat_simps)
  then show ?thesis by (simp add: ApplyLocalSnapshot_alt MemoryStorage_Compact_def f)
qed

lemma with_local_snapshot_beyond:
  assumes "mem_wf s" "ms_entries s \<noteq> []" "MemoryStorage_last_index s < sn_index sn"
  shows "\<not> mem_wf (with_local_snapshot sn s)"
proof -
  have "unat (MemoryStorage_first_index s) \<le> unat (MemoryStorage_last_index s)"
    using mem_last(2) [OF assms(1)] assms(2) by (cases "ms_entries s") auto
  then have "MemoryStorage_first_index s \<le> sn_index sn" using assms(3) by (simp add: u64_nat_simps)
  then show ?thesis using assms(2) by (auto simp: mem_wf_def MemoryStorage_first_index_def)
qed

lemma mem_step_wf: "mem_step s s' \<Longrightarrow> mem_wf s \<Longrightarrow> mem_wf s'"
proof (induction rule: mem_step.induct)
  case (append es s r s')
  show ?case
  proof (cases "es = []")
    case True
    then show ?thesis using append by (simp add: MemoryStorage_Append_def MemoryStorage_MayAppend_def)
  next
    case False
    then show ?thesis using mem_MayAppend_wf [OF append.prems False append.hyps(1,2)] append.hyps(3)
      by (simp add: MemoryStorage_Append_def)
  qed
next
  case (local_snapshot sn s r s')
  show ?case
  proof (cases "sn_index sn < MemoryStorage_first_index s")
    case True
    then show ?thesis using local_snapshot by (simp add: ApplyLocalSnapshot_alt)
  next
    case False
    then show ?thesis using mem_ApplyLocalSnapshot [OF local_snapshot.prems _ local_snapshot.hyps(1,2)] local_snapshot.hyps(3) by auto
  qed
next
  case (set_entries es s)
  then have "sm_index (ms_snapshot_metadata s) < sm_index (ms_snapshot_metadata s) + 1"
    using u64_lt_succ by (auto simp: mem_wf_def)
  then show ?case
    using set_entries unat_lt_max [of "sm_index (ms_snapshot_metadata s) + 1"]
    by (cases "es = []") (simp_all add: mem_wf_def MemoryStorage_SetEntries_def MemoryStorage_first_index_def)
next
  case (entries sz low high max_size ctx s r s')
  then show ?case
    by (auto simp: MemoryStorage_Entries_def Let_def split: if_splits elim!: bind_SomeE cong: mem_wf_cong)
next
  case (get_snapshot i to s r s')
  then show ?case
    by (auto simp: MemoryStorage_GetSnapshot_def split: if_splits elim!: bind_SomeE cong: mem_wf_cong)
next
  case (commit_to i s s')
  then show ?case
    by (auto simp: MemoryStorage_CommitTo_def update_hard_state_def elim!: bind_SomeE cong: mem_wf_cong)
qed (auto intro: mem_ApplySnapshot_wf mem_Compact_wf
       simp: MemoryStorage_SetHardState_def update_hard_state_def MemoryStorage_SetConfState_def
         MemoryStorage_TriggerLogUnavailable_def MemoryStorage_TakeGetEntriesContext_def
         MemoryStorage_TriggerSnapshotUnavailable_def MemoryStorage_SetRaftState_def cong: mem_wf_cong)

text \<open>
  C29. Whatever sequence of operations is performed on a fresh in-memory storage, with consecutive batches and with local
  snapshots of entries that it holds, its entries stay consecutive and lie strictly above the snapshot index, and the
  indexes never wrap around. The condition on local snapshots is needed: one that lies beyond the last entry is
  reported as an error and leaves a storage whose snapshot index lies above its entries.
\<close>

theorem memory_storage_invariant:
  assumes "mem_step\<^sup>*\<^sup>* MemoryStorage_new s"
  shows "mem_wf s \<and>
    (\<forall>sn. ms_entries s \<noteq> [] \<and> MemoryStorage_last_index s < sn_index sn \<and> sn_index sn < u64_max \<longrightarrow>
       (\<exists>m s'. MemoryStorage_ApplyLocalSnapshot sn s = Some (Inl (FatalError m), s') \<and> \<not> mem_wf s'))"
proof -
  have "mem_wf MemoryStorage_new"
    by (simp add: mem_wf_def MemoryStorage_new_def MemoryStorage_first_index_def default_snapshot_metadata_def)
  with assms have wf: "mem_wf s" by (induction rule: rtranclp_induct) (auto intro: mem_step_wf)
  then show ?thesis using mem_ApplyLocalSnapshot_beyond with_local_snapshot_beyond by blast
qed

theorem memory_storage_invariant_witness:
  "mem_wf memory_example \<and>
   (\<exists>m s'. MemoryStorage_ApplyLocalSnapshot \<lparr>sn_data = [], sn_metadata = \<lparr>sm_conf_state = default_conf_state, sm_index = 7, sm_term = 1\<rparr>\<rparr>
       memory_example = Some (Inl (FatalError m), s') \<and> \<not> mem_wf s')"
proof -
  have "MemoryStorage_Append [MakeEntry 1 1 ENTRY_NORMAL, MakeEntry 2 1 ENTRY_NORMAL, MakeEntry 3 1 ENTRY_NORMAL]
      MemoryStorage_new = (Inr (), memory_example)"
    by (simp add: MemoryStorage_Append_def MemoryStorage_MayAppend_def MemoryStorage_first_index_def
        MemoryStorage_last_index_def MemoryStorage_new_def memory_example_def MakeEntry_def
        default_entry_def default_snapshot_metadata_def)
  then have "mem_step MemoryStorage_new memory_example"
    by (rule mem_step.append [rotated 2]) (simp_all add: MakeEntry_def default_entry_def)
  then have "mem_step\<^sup>*\<^sup>* MemoryStorage_new memory_example" by (rule r_into_rtranclp)
  from memory_storage_invariant [OF this] show ?thesis
    by (simp add: memory_example_def MemoryStorage_last_index_def MakeEntry_def default_entry_def u64_max_def)
qed

text \<open>
  A local snapshot inside the log cuts it exactly there: the snapshot's metadata is recorded,
  the log continues with the entry after it and keeps every later entry. A local snapshot beyond
  the last entry is reported as an error, but the snapshot metadata has been replaced by then.
\<close>

theorem memory_local_snapshot:
  assumes "mem_wf s" "ms_entries s \<noteq> []" "MemoryStorage_first_index s \<le> sn_index sn" "sn_index sn < u64_max"
  shows "if sn_index sn \<le> MemoryStorage_last_index s
         then \<exists>s'. MemoryStorage_ApplyLocalSnapshot sn s = Some (Inr (), s') \<and> mem_wf s' \<and>
                ms_snapshot_metadata s' = sn_metadata sn \<and>
                MemoryStorage_first_index s' = sn_index sn + 1 \<and>
                ms_entries s' = drop (Suc (unat (sn_index sn)) - unat (MemoryStorage_first_index s)) (ms_entries s)
         else \<exists>m s'. MemoryStorage_ApplyLocalSnapshot sn s = Some (Inl (FatalError m), s') \<and>
                ms_entries s' = ms_entries s \<and> ms_snapshot_metadata s' = sn_metadata sn \<and> \<not> mem_wf s'"
proof (cases "sn_index sn \<le> MemoryStorage_last_index s")
  case True
  then show ?thesis using mem_ApplyLocalSnapshot [OF assms(1,3,4)] by auto
next
  case False
  then have "\<not> mem_wf (with_local_snapshot sn s)"
    using assms(2,3) by (auto simp: mem_wf_def MemoryStorage_first_index_def)
  moreover have "MemoryStorage_last_index s < sn_index sn" using False by simp
  ultimately show ?thesis using False mem_ApplyLocalSnapshot_beyond [OF assms(1,2) _ assms(4)] by fastforce
qed

theorem memory_local_snapshot_witness:
  "\<exists>s'. MemoryStorage_ApplyLocalSnapshot
          \<lparr>sn_data = [], sn_metadata = \<lparr>sm_conf_state = default_conf_state, sm_index = 2, sm_term = 1\<rparr>\<rparr>
          memory_example = Some (Inr (), s') \<and> ms_entries s' = [MakeEntry 3 1 ENTRY_NORMAL]"
proof -
  let ?sn = "\<lparr>sn_data = [], sn_metadata = \<lparr>sm_conf_state = default_conf_state, sm_index = 2, sm_term = 1\<rparr>\<rparr>"
  have e: "ms_entries memory_example \<noteq> []" "MemoryStorage_first_index memory_example = 1"
    "MemoryStorage_last_index memory_example = 3"
    "ms_entries memory_example = [MakeEntry 1 1 ENTRY_NORMAL, MakeEntry 2 1 ENTRY_NORMAL, MakeEntry 3 1 ENTRY_NORMAL]"
    by (simp_all add: memory_example_def MemoryStorage_first_index_def MemoryStorage_last_index_def
        MakeEntry_def default_entry_def)
  show ?thesis
    using memory_local_snapshot [OF memory_example_wf e(1), of ?sn] by (auto simp: e u64_max_def)
qed

end
