(* ===== verification/Unstable.thy ===== *)
theory Unstable
  imports Storage
begin

text \<open>
  The part of the log that is not yet in the storage (\<open>lib/core/unstable_log.cc\<close>): entries from
  \<open>offset\<close> on and possibly a snapshot in front of them.
\<close>

section \<open>Model\<close>

record Unstable =
  un_snapshot :: "snapshot option"
  un_entries :: "entry list"
  un_entries_size :: u64
  un_offset :: u64

definition Unstable_new :: "u64 \<Rightarrow> Unstable" where
  "Unstable_new offset = \<lparr>un_snapshot = None, un_entries = [], un_entries_size = 0, un_offset = offset\<rparr>"

definition Unstable_MaybeFirstIndex :: "Unstable \<Rightarrow> u64 option" where
  "Unstable_MaybeFirstIndex u = (case un_snapshot u of Some sn \<Rightarrow> Some (sn_index sn + 1) | None \<Rightarrow> None)"

definition Unstable_MaybeLastIndex :: "Unstable \<Rightarrow> u64 option" where
  "Unstable_MaybeLastIndex u =
     (if un_entries u = [] then (case un_snapshot u of Some sn \<Rightarrow> Some (sn_index sn) | None \<Rightarrow> None)
      else Some (un_offset u + of_nat (length (un_entries u)) - 1))"

text \<open>The outer option is the abort of an access outside the vector.\<close>

definition Unstable_MaybeTerm :: "u64 \<Rightarrow> Unstable \<Rightarrow> u64 option option" where
  "Unstable_MaybeTerm idx u =
     (if idx < un_offset u then
        (case un_snapshot u of
           None \<Rightarrow> Some None
         | Some sn \<Rightarrow> if idx = sn_index sn then Some (Some (sn_term sn)) else Some None)
      else case Unstable_MaybeLastIndex u of
        Some last_idx \<Rightarrow>
          if last_idx < idx then Some None
          else do {
            e \<leftarrow> vec_get (un_entries u) (unat (idx - un_offset u));
            Some (Some (e_term e))
          }
      | None \<Rightarrow> Some None)"

definition Unstable_StableEntries :: "u64 \<Rightarrow> u32 \<Rightarrow> Unstable \<Rightarrow> Unstable option" where
  "Unstable_StableEntries index trm u =
     do {
       ASSERT (un_snapshot u = None);
       ASSERT (un_entries u \<noteq> []);
       let entry = last (un_entries u);
       ASSERT (e_index entry = index \<and> e_term entry = ucast trm);
       Some (u\<lparr>un_offset := e_index entry + 1, un_entries := [], un_entries_size := 0\<rparr>)
     }"

definition Unstable_Restore :: "snapshot \<Rightarrow> Unstable \<Rightarrow> Unstable" where
  "Unstable_Restore sn u =
     u\<lparr>un_entries := [], un_entries_size := 0, un_offset := sn_index sn + 1, un_snapshot := Some sn\<rparr>"

definition Unstable_MustCheckOutOfBounds :: "u64 \<Rightarrow> u64 \<Rightarrow> Unstable \<Rightarrow> unit option" where
  "Unstable_MustCheckOutOfBounds lo hi u =
     do {
       ASSERT (lo \<le> hi);
       let upper = un_offset u + of_nat (length (un_entries u));
       ASSERT (un_offset u \<le> lo \<and> hi \<le> upper)
     }"

definition Unstable_push :: "entry \<Rightarrow> Unstable \<Rightarrow> Unstable" where
  "Unstable_push ent u =
     u\<lparr>un_entries := un_entries u @ [ent], un_entries_size := un_entries_size u + EntryApproximateSize ent\<rparr>"

definition Unstable_TruncateAndAppend :: "entry list \<Rightarrow> Unstable \<Rightarrow> Unstable option" where
  "Unstable_TruncateAndAppend ents u =
     do {
       front \<leftarrow> vec_get ents 0;
       let after = e_index front;
       u \<leftarrow> (if after = un_offset u + of_nat (length (un_entries u)) then Some u
             else if after \<le> un_offset u then Some (u\<lparr>un_offset := after, un_entries := [], un_entries_size := 0\<rparr>)
             else do {
               let keep_count = unat (after - un_offset u);
               Unstable_MustCheckOutOfBounds (un_offset u) after u;
               Some (u\<lparr>un_entries_size :=
                         fold (\<lambda>e n. n - EntryApproximateSize e) (drop keep_count (un_entries u)) (un_entries_size u),
                       un_entries := take keep_count (un_entries u)\<rparr>)
             });
       Some (fold Unstable_push ents u)
     }"

definition Unstable_StableSnapshot :: "u64 \<Rightarrow> Unstable \<Rightarrow> Unstable option" where
  "Unstable_StableSnapshot index u =
     (case un_snapshot u of
        Some sn \<Rightarrow> if sn_index sn \<noteq> index then None else Some (u\<lparr>un_snapshot := None\<rparr>)
      | None \<Rightarrow> None)"

definition Unstable_Slice :: "u64 \<Rightarrow> u64 \<Rightarrow> Unstable \<Rightarrow> entry list option" where
  "Unstable_Slice lo hi u =
     do {
       Unstable_MustCheckOutOfBounds lo hi u;
       let l = unat (lo - un_offset u);
       let h = unat (hi - un_offset u);
       Some (take (h - l) (drop l (un_entries u)))
     }"

section \<open>Invariant\<close>

definition approx_size :: "entry list \<Rightarrow> u64" where
  "approx_size es = sum_list (map EntryApproximateSize es)"

lemma approx_size_simps [simp]:
  "approx_size [] = 0" "approx_size (e # es) = EntryApproximateSize e + approx_size es"
  "approx_size (xs @ ys) = approx_size xs + approx_size ys"
  by (simp_all add: approx_size_def)

definition unstable_wf :: "Unstable \<Rightarrow> bool" where
  "unstable_wf u \<longleftrightarrow>
     contig (un_offset u) (un_entries u) \<and> 0 < un_offset u \<and>
     unat (un_offset u) + length (un_entries u) < 2 ^ 64 \<and>
     un_entries_size u = approx_size (un_entries u) \<and>
     (\<forall>sn. un_snapshot u = Some sn \<longrightarrow> sn_index sn < un_offset u \<and> un_offset u = sn_index sn + 1)"

lemma unstable_offset_pos: "unstable_wf u \<Longrightarrow> 0 < unat (un_offset u)"
  by (simp add: unstable_wf_def word_less_nat_alt)

lemma unstable_upper:
  "unstable_wf u \<Longrightarrow> unat (un_offset u + of_nat (length (un_entries u))) =
     unat (un_offset u) + length (un_entries u)"
  by (rule unat_add_of_nat_u64) (simp add: unstable_wf_def)

lemma unstable_last:
  assumes "unstable_wf u"
  shows "unat (un_offset u + of_nat (length (un_entries u)) - 1) = unat (un_offset u) + length (un_entries u) - 1"
  using assms by (intro unat_last) (auto simp: unstable_wf_def word_less_nat_alt)

lemma fold_push:
  "fold Unstable_push ents u =
     u\<lparr>un_entries := un_entries u @ ents, un_entries_size := un_entries_size u + approx_size ents\<rparr>"
  by (induction ents arbitrary: u) (auto simp: Unstable_push_def algebra_simps)

lemma fold_minus_size: "fold (\<lambda>e n. n - EntryApproximateSize e) es n = n - approx_size es"
  by (induction es arbitrary: n) (auto simp: algebra_simps)

text \<open>The term of every index, as the unstable part knows it.\<close>

lemma MaybeTerm_entry:
  assumes "unstable_wf u" "un_offset u \<le> idx" "unat idx < unat (un_offset u) + length (un_entries u)"
  shows "Unstable_MaybeTerm idx u = Some (Some (e_term (un_entries u ! (unat idx - unat (un_offset u)))))"
proof -
  have le: "unat (un_offset u) \<le> unat idx" using assms(2) by (simp add: word_le_nat_alt)
  then have ne: "un_entries u \<noteq> []" using assms(3) by auto
  have "\<not> un_offset u + of_nat (length (un_entries u)) - 1 < idx"
    using unstable_last [OF assms(1)] assms(3) by (simp add: word_less_nat_alt)
  moreover have "unat (idx - un_offset u) = unat idx - unat (un_offset u)"
    using assms(2) by (rule unat_sub_u64)
  moreover have "unat idx - unat (un_offset u) < length (un_entries u)" using assms(3) le by arith
  ultimately show ?thesis using leD [OF assms(2)] ne
    by (simp add: Unstable_MaybeTerm_def Unstable_MaybeLastIndex_def)
qed

lemma MaybeTerm_beyond:
  assumes "unstable_wf u" "unat (un_offset u) + length (un_entries u) \<le> unat idx"
  shows "Unstable_MaybeTerm idx u = Some None"
proof -
  have "un_offset u \<le> idx" using assms(2) by (simp add: word_le_nat_alt)
  moreover have "un_offset u + of_nat (length (un_entries u)) - 1 < idx"
    using unstable_last [OF assms(1)] assms unstable_offset_pos [OF assms(1)] by (simp add: word_less_nat_alt)
  moreover have "sn_index sn < idx" if "un_snapshot u = Some sn" for sn
    using that assms(1) calculation(1) by (auto simp: unstable_wf_def)
  ultimately show ?thesis
    by (auto simp: Unstable_MaybeTerm_def Unstable_MaybeLastIndex_def leD split: option.splits)
qed

lemma MaybeTerm_below:
  assumes "idx < un_offset u"
  shows "Unstable_MaybeTerm idx u =
    Some (case un_snapshot u of Some sn \<Rightarrow> if idx = sn_index sn then Some (sn_term sn) else None | None \<Rightarrow> None)"
  using assms by (simp add: Unstable_MaybeTerm_def split: option.splits)

lemma Slice_in:
  assumes "unstable_wf u" "un_offset u \<le> lo" "lo \<le> hi" "unat hi \<le> unat (un_offset u) + length (un_entries u)"
  shows "Unstable_Slice lo hi u =
    Some (take (unat hi - unat lo) (drop (unat lo - unat (un_offset u)) (un_entries u)))"
proof -
  have le: "unat (un_offset u) \<le> unat lo" "unat lo \<le> unat hi" using assms(2,3) by (simp_all add: word_le_nat_alt)
  have "hi \<le> un_offset u + of_nat (length (un_entries u))"
    using assms(4) unstable_upper [OF assms(1)] by (simp add: word_le_nat_alt)
  moreover have "unat (lo - un_offset u) = unat lo - unat (un_offset u)"
    "unat (hi - un_offset u) = unat hi - unat (un_offset u)"
    using assms(2,3) by (auto intro: unat_sub_u64)
  ultimately show ?thesis using assms(2,3) le
    by (simp add: Unstable_Slice_def Unstable_MustCheckOutOfBounds_def)
qed

section \<open>Truncating and appending\<close>

lemma TruncateAndAppend_wf_result:
  assumes "unstable_wf u" "ents \<noteq> []" "contig (e_index (hd ents)) ents"
    "unat (e_index (hd ents)) + length ents < 2 ^ 64" "0 < e_index (hd ents)"
    "\<And>sn. un_snapshot u = Some sn \<Longrightarrow> sn_index sn < e_index (hd ents)"
    "unat (e_index (hd ents)) \<le> unat (un_offset u) + length (un_entries u)"
  shows "\<exists>u'. Unstable_TruncateAndAppend ents u = Some u' \<and> unstable_wf u' \<and>
           un_offset u' = min (un_offset u) (e_index (hd ents)) \<and>
           un_entries u' = take (unat (e_index (hd ents)) - unat (un_offset u)) (un_entries u) @ ents \<and>
           un_snapshot u' = un_snapshot u"
proof -
  let ?a = "e_index (hd ents)" and ?o = "un_offset u" and ?es = "un_entries u"
  define k where "k = unat ?a - unat ?o"
  have front: "vec_get ents 0 = Some (hd ents)" using assms(2) by (simp add: hd_conv_nth)
  have wf: "contig ?o ?es" "unat ?o + length ?es < 2 ^ 64" "un_entries_size u = approx_size ?es"
    using assms(1) by (simp_all add: unstable_wf_def)
  have snap: "?o \<le> ?a" if "un_snapshot u = Some sn" for sn
    using that assms(1,6) inc_le [of "sn_index sn" ?a] by (auto simp: unstable_wf_def)
  have size: "approx_size ?es - approx_size (drop k ?es) = approx_size (take k ?es)" for k
    using approx_size_simps(3) [of "take k ?es" "drop k ?es"] by simp
  show ?thesis
  proof (cases "?a \<le> ?o")
    case True
    then have k0: "k = 0" by (simp add: k_def word_le_nat_alt)
    let ?u = "u\<lparr>un_offset := ?a, un_entries := ents, un_entries_size := approx_size ents\<rparr>"
    have mid: "(if ?a = ?o + of_nat (length ?es) then Some u
        else if ?a \<le> ?o then Some (u\<lparr>un_offset := ?a, un_entries := [], un_entries_size := 0\<rparr>) else X)
      = Some (u\<lparr>un_offset := ?a, un_entries := [], un_entries_size := 0\<rparr>)" for X
    proof (cases "?a = ?o + of_nat (length ?es)")
      case True
      then have "unat ?o + length ?es \<le> unat ?o"
        using \<open>?a \<le> ?o\<close> unstable_upper [OF assms(1)] by (simp add: word_le_nat_alt)
      then have "?es = []" by simp
      then show ?thesis using True wf(3) by (cases u) simp
    qed (simp add: True)
    have "Unstable_TruncateAndAppend ents u = Some ?u"
      unfolding Unstable_TruncateAndAppend_def front by (simp add: mid fold_push Let_def)
    moreover have "unstable_wf ?u"
      using assms(3-6) snap True assms(1) by (force simp: unstable_wf_def)
    ultimately show ?thesis using True k0 by (auto simp: k_def min_absorb2)
  next
    case False
    then have lt: "unat ?o < unat ?a" by (simp add: word_le_nat_alt)
    have kl: "k \<le> length ?es" using assms(7) by (simp add: k_def)
    have ka: "unat (?a - ?o) = k" using False by (simp add: k_def unat_sub_u64)
    let ?u = "u\<lparr>un_entries := take k ?es @ ents, un_entries_size := approx_size (take k ?es @ ents)\<rparr>"
    have "Unstable_MustCheckOutOfBounds ?o ?a u = Some ()"
      using False assms(7) unstable_upper [OF assms(1)]
      by (simp add: Unstable_MustCheckOutOfBounds_def word_le_nat_alt)
    moreover have "k = length ?es" if "?a = ?o + of_nat (length ?es)"
      using that unstable_upper [OF assms(1)] by (simp add: k_def)
    ultimately have "Unstable_TruncateAndAppend ents u = Some ?u"
      unfolding Unstable_TruncateAndAppend_def front using False wf(3)
      by (cases "?a = ?o + of_nat (length ?es)") (simp_all add: fold_push fold_minus_size Let_def ka size)
    moreover have "?o + of_nat k = ?a"
      using unat_add_of_nat_u64 [of ?o k] lt unat_lt_max [of ?a] by (simp add: u64_eq_iff k_def)
    then have "contig ?o (take k ?es @ ents)" using wf(1) assms(3) kl by simp
    then have "unstable_wf ?u"
      using assms(1,4) lt kl by (auto simp: unstable_wf_def k_def)
    ultimately show ?thesis using False by (auto simp: k_def min_absorb1)
  qed
qed

lemma TruncateAndAppend_gap:
  assumes "unstable_wf u" "ents \<noteq> []" "unat (un_offset u) + length (un_entries u) < unat (e_index (hd ents))"
  shows "Unstable_TruncateAndAppend ents u = None"
proof -
  have "vec_get ents 0 = Some (hd ents)" using assms(2) by (simp add: hd_conv_nth)
  moreover have "e_index (hd ents) \<noteq> un_offset u + of_nat (length (un_entries u))"
    "\<not> e_index (hd ents) \<le> un_offset u"
    "\<not> e_index (hd ents) \<le> un_offset u + of_nat (length (un_entries u))"
    using unstable_upper [OF assms(1)] assms(3) by (auto simp: u64_nat_simps)
  ultimately show ?thesis
    by (simp add: Unstable_TruncateAndAppend_def Unstable_MustCheckOutOfBounds_def Let_def)
qed

text \<open>
  C30. Appending to the unstable part: a batch that starts inside or directly behind it replaces
  everything from its first index on, a batch that starts before it replaces all of it and moves
  the offset down, the byte count stays exact, and a batch that would leave a gap aborts.
\<close>

theorem unstable_append_replaces_suffix:
  assumes "unstable_wf u" "ents \<noteq> []" "contig (e_index (hd ents)) ents"
    "unat (e_index (hd ents)) + length ents < 2 ^ 64" "0 < e_index (hd ents)"
    "\<forall>sn. un_snapshot u = Some sn \<longrightarrow> sn_index sn < e_index (hd ents)"
  shows "if unat (e_index (hd ents)) \<le> unat (un_offset u) + length (un_entries u)
         then \<exists>u'. Unstable_TruncateAndAppend ents u = Some u' \<and> unstable_wf u' \<and>
                un_offset u' = min (un_offset u) (e_index (hd ents)) \<and>
                un_entries u' = take (unat (e_index (hd ents)) - unat (un_offset u)) (un_entries u) @ ents \<and>
                un_snapshot u' = un_snapshot u
         else Unstable_TruncateAndAppend ents u = None"
  using TruncateAndAppend_wf_result [OF assms(1-5)] TruncateAndAppend_gap [OF assms(1,2)] assms(6)
  by auto

theorem unstable_append_replaces_suffix_witness:
  "\<exists>u'. Unstable_TruncateAndAppend [MakeEntry 6 2 ENTRY_NORMAL]
          \<lparr>un_snapshot = None, un_entries = [MakeEntry 5 1 ENTRY_NORMAL, MakeEntry 6 1 ENTRY_NORMAL],
           un_entries_size = 24, un_offset = 5\<rparr> = Some u' \<and>
        un_entries u' = [MakeEntry 5 1 ENTRY_NORMAL, MakeEntry 6 2 ENTRY_NORMAL] \<and> un_entries_size u' = 24"
proof -
  let ?u = "\<lparr>un_snapshot = None, un_entries = [MakeEntry 5 1 ENTRY_NORMAL, MakeEntry 6 1 ENTRY_NORMAL],
           un_entries_size = 24, un_offset = 5\<rparr>"
  have wf: "unstable_wf ?u"
    by (simp add: unstable_wf_def MakeEntry_def default_entry_def EntryApproximateSize_def)
  have "contig (e_index (hd [MakeEntry 6 2 ENTRY_NORMAL])) [MakeEntry 6 2 ENTRY_NORMAL]" by simp
  from unstable_append_replaces_suffix [OF wf _ this]
  show ?thesis
    by (auto simp: unstable_wf_def MakeEntry_def default_entry_def EntryApproximateSize_def)
qed

section \<open>Moving entries and the snapshot to the storage\<close>

lemma StableEntries_wf:
  assumes "unstable_wf u" "Unstable_StableEntries index trm u = Some u'"
  shows "unstable_wf u' \<and> un_offset u' = un_offset u + of_nat (length (un_entries u)) \<and>
         un_entries u' = [] \<and> un_snapshot u' = None \<and> un_snapshot u = None \<and>
         index = un_offset u + of_nat (length (un_entries u)) - 1 \<and>
         un_entries u \<noteq> [] \<and> e_term (last (un_entries u)) = ucast trm"
proof -
  have c: "un_snapshot u = None" "un_entries u \<noteq> []" "e_index (last (un_entries u)) = index"
    "e_term (last (un_entries u)) = ucast trm"
    and u': "u' = u\<lparr>un_offset := index + 1, un_entries := [], un_entries_size := 0\<rparr>"
    using assms(2) by (auto simp: Unstable_StableEntries_def Let_def elim!: bind_SomeE)
  have l: "index = un_offset u + of_nat (length (un_entries u)) - 1"
    using contig_last [of "un_offset u" "un_entries u"] assms(1) c by (simp add: unstable_wf_def)
  then show ?thesis using c u' unstable_upper [OF assms(1)] assms(1)
    by (auto simp: unstable_wf_def word_less_nat_alt)
qed

lemma StableEntries_ok:
  assumes "un_snapshot u = None" "un_entries u \<noteq> []" "e_index (last (un_entries u)) = index"
    "e_term (last (un_entries u)) = ucast trm"
  shows "Unstable_StableEntries index trm u =
     Some (u\<lparr>un_offset := index + 1, un_entries := [], un_entries_size := 0\<rparr>)"
  using assms by (simp add: Unstable_StableEntries_def Let_def)

lemma Restore_wf: "sn_index sn < u64_max \<Longrightarrow> unstable_wf (Unstable_Restore sn u)"
  using u64_lt_succ [of "sn_index sn" u64_max] unat_lt_max [of "sn_index sn + 1"]
  by (auto simp: unstable_wf_def Unstable_Restore_def intro: le_less_trans [OF word_zero_le])

lemma StableSnapshot_wf: "unstable_wf u \<Longrightarrow> Unstable_StableSnapshot i u = Some u' \<Longrightarrow>
    unstable_wf u' \<and> un_snapshot u' = None \<and> un_offset u' = un_offset u \<and> un_entries u' = un_entries u \<and>
    (\<exists>sn. un_snapshot u = Some sn \<and> sn_index sn = i)"
  by (auto simp: Unstable_StableSnapshot_def unstable_wf_def split: option.splits if_splits)

end
