(* ===== verification/ReadOnly.thy ===== *)
theory ReadOnly
  imports Messages
begin

text \<open>
  Pending linearizable reads of a leader (\<open>lib/core/read_only.cc\<close>): a queue of request contexts in
  arrival order and a map from context to the request, its read index and the members that have
  confirmed the leader since.
\<close>

section \<open>Model\<close>

datatype ReadOnlyOption = Safe | LeaseBased

record ReadState =
  rst_index :: u64
  rst_request_ctx :: bytes

record ReadIndexStatus =
  ris_req :: message
  ris_index :: u64
  ris_acks :: "u64 list"

record ReadOnly =
  ro_option :: ReadOnlyOption
  ro_pending_read_index :: "(bytes \<times> ReadIndexStatus) list"
  ro_read_index_queue :: "bytes list"

definition ReadOnly_new :: "ReadOnlyOption \<Rightarrow> ReadOnly" where
  "ReadOnly_new opt = \<lparr>ro_option = opt, ro_pending_read_index = [], ro_read_index_queue = []\<rparr>"

definition ReadOnly_AddRequest :: "u64 \<Rightarrow> message \<Rightarrow> u64 \<Rightarrow> ReadOnly \<Rightarrow> ReadOnly" where
  "ReadOnly_AddRequest index req self_id ro =
     (case m_entries req of
        [] \<Rightarrow> ro
      | e # _ \<Rightarrow>
          let ctx = e_data e in
          if map_of (ro_pending_read_index ro) ctx \<noteq> None then ro
          else
            let status = \<lparr>ris_req = req, ris_index = index, ris_acks = [self_id]\<rparr>
            in ro\<lparr>ro_pending_read_index := Map_emplace ctx status (ro_pending_read_index ro),
                  ro_read_index_queue := ro_read_index_queue ro @ [ctx]\<rparr>)"

definition ReadOnly_LastPendingRequestCtx :: "ReadOnly \<Rightarrow> bytes option" where
  "ReadOnly_LastPendingRequestCtx ro =
     (if ro_read_index_queue ro = [] then None else Some (last (ro_read_index_queue ro)))"

definition ReadOnly_PendingReadCount :: "ReadOnly \<Rightarrow> nat" where
  "ReadOnly_PendingReadCount ro = length (ro_read_index_queue ro)"

definition ReadOnly_RecvACK :: "u64 \<Rightarrow> bytes \<Rightarrow> ReadOnly \<Rightarrow> u64 list option \<times> ReadOnly" where
  "ReadOnly_RecvACK peer ctx ro =
     (case map_of (ro_pending_read_index ro) ctx of
        Some status \<Rightarrow>
          let status = status\<lparr>ris_acks := List.insert peer (ris_acks status)\<rparr>
          in (Some (ris_acks status),
              ro\<lparr>ro_pending_read_index := AList.update ctx status (ro_pending_read_index ro)\<rparr>)
      | None \<Rightarrow> (None, ro))"

text \<open>The search for the position of the context; the outer option is the abort.\<close>

fun Advance_position ::
  "(bytes \<times> ReadIndexStatus) list \<Rightarrow> bytes \<Rightarrow> nat \<Rightarrow> bytes list \<Rightarrow> nat option option" where
  "Advance_position pending ctx i [] = Some None"
| "Advance_position pending ctx i (x # xs) =
     (if map_of pending x = None then None
      else if x = ctx then Some (Some i)
      else Advance_position pending ctx (i + 1) xs)"

text \<open>The loop that takes \<open>n\<close> requests off the front of the queue.\<close>

fun Advance_pop :: "nat \<Rightarrow> ReadOnly \<Rightarrow> (ReadIndexStatus list \<times> ReadOnly) option" where
  "Advance_pop 0 ro = Some ([], ro)"
| "Advance_pop (Suc n) ro =
     (case ro_read_index_queue ro of
        [] \<Rightarrow> None
      | rs # queue \<Rightarrow>
          (case map_of (ro_pending_read_index ro) rs of
             None \<Rightarrow> None
           | Some status \<Rightarrow> do {
               (rss, ro') \<leftarrow> Advance_pop n
                  (ro\<lparr>ro_read_index_queue := queue,
                      ro_pending_read_index := AList.delete rs (ro_pending_read_index ro)\<rparr>);
               Some (status # rss, ro')
             }))"

definition ReadOnly_Advance :: "bytes \<Rightarrow> ReadOnly \<Rightarrow> (ReadIndexStatus list \<times> ReadOnly) option" where
  "ReadOnly_Advance ctx ro =
     do {
       p \<leftarrow> Advance_position (ro_pending_read_index ro) ctx 0 (ro_read_index_queue ro);
       case p of
         Some i \<Rightarrow> Advance_pop (i + 1) ro
       | None \<Rightarrow> Some ([], ro)
     }"

section \<open>Queue and map agree\<close>

definition read_only_wf :: "ReadOnly \<Rightarrow> bool" where
  "read_only_wf ro \<longleftrightarrow>
     distinct (ro_read_index_queue ro) \<and> distinct (map fst (ro_pending_read_index ro)) \<and>
     dom (map_of (ro_pending_read_index ro)) = set (ro_read_index_queue ro)"

lemma AddRequest_wf [wf_intros]: "read_only_wf ro \<Longrightarrow> read_only_wf (ReadOnly_AddRequest i req self ro)"
  by (auto simp: ReadOnly_AddRequest_def read_only_wf_def Let_def split: list.splits)

lemma RecvACK_wf [wf_intros]: "read_only_wf ro \<Longrightarrow> read_only_wf (snd (ReadOnly_RecvACK peer ctx ro))"
  by (auto simp: ReadOnly_RecvACK_def read_only_wf_def Let_def update_conv' distinct_update
      split: option.splits)

lemma Advance_position_wf:
  "set q \<subseteq> dom (map_of pending) \<Longrightarrow>
     Advance_position pending ctx i q =
       Some (if ctx \<in> set q then Some (i + length (takeWhile (\<lambda>x. x \<noteq> ctx) q)) else None)"
  by (induction q arbitrary: i) auto

lemma Advance_pop_wf:
  assumes "read_only_wf ro" "n \<le> length (ro_read_index_queue ro)"
  shows "\<exists>ro'. Advance_pop n ro =
           Some (map (\<lambda>x. the (map_of (ro_pending_read_index ro) x)) (take n (ro_read_index_queue ro)), ro') \<and>
           read_only_wf ro' \<and> ro_read_index_queue ro' = drop n (ro_read_index_queue ro) \<and>
           ro_option ro' = ro_option ro \<and>
           map_of (ro_pending_read_index ro') =
             map_of (ro_pending_read_index ro) |` set (drop n (ro_read_index_queue ro))"
  using assms
proof (induction n arbitrary: ro)
  case 0
  then have "map_of (ro_pending_read_index ro) |` set (ro_read_index_queue ro) = map_of (ro_pending_read_index ro)"
    by (auto simp: read_only_wf_def restrict_map_def fun_eq_iff)
      (metis domIff)
  then show ?case using 0 by simp
next
  case (Suc n)
  then obtain x q where q: "ro_read_index_queue ro = x # q" by (cases "ro_read_index_queue ro") auto
  have "x \<in> dom (map_of (ro_pending_read_index ro))" using Suc.prems(1) q by (simp add: read_only_wf_def)
  then obtain st where st: "map_of (ro_pending_read_index ro) x = Some st" by blast
  define ro1 where "ro1 = ro\<lparr>ro_read_index_queue := q,
      ro_pending_read_index := AList.delete x (ro_pending_read_index ro)\<rparr>"
  have m1: "map_of (ro_pending_read_index ro1) = (map_of (ro_pending_read_index ro))(x := None)"
    by (simp add: ro1_def delete_conv')
  have nx: "x \<notin> set q" using Suc.prems(1) q by (simp add: read_only_wf_def)
  have "read_only_wf ro1"
    using Suc.prems(1) q nx m1 by (auto simp: read_only_wf_def ro1_def)
  moreover have "n \<le> length (ro_read_index_queue ro1)" using Suc.prems(2) q by (simp add: ro1_def)
  ultimately obtain ro' where r: "Advance_pop n ro1 =
       Some (map (\<lambda>y. the (map_of (ro_pending_read_index ro1) y)) (take n q), ro')"
     "read_only_wf ro'" "ro_read_index_queue ro' = drop n q" "ro_option ro' = ro_option ro"
     "map_of (ro_pending_read_index ro') = map_of (ro_pending_read_index ro1) |` set (drop n q)"
    using Suc.IH [of ro1] by (auto simp: ro1_def)
  have same: "map (\<lambda>y. the (map_of (ro_pending_read_index ro1) y)) (take n q) =
      map (\<lambda>y. the (map_of (ro_pending_read_index ro) y)) (take n q)"
    using nx by (intro map_cong) (auto simp: m1 dest: in_set_takeD)
  have "map_of (ro_pending_read_index ro1) |` set (drop n q) = map_of (ro_pending_read_index ro) |` set (drop n q)"
    using nx by (auto simp: m1 restrict_map_def fun_eq_iff dest: in_set_dropD)
  then show ?case using r q st same by (simp add: ro1_def [symmetric])
qed

text \<open>
  C31. Confirming a read confirms every read queued before it: for a context in the queue the requests
  up to and including it are returned in arrival order and forgotten, later ones stay queued with
  their acknowledgements, and queue and map keep describing the same requests. For any other
  context nothing happens. The operation never aborts.
\<close>

theorem read_only_advance:
  assumes "read_only_wf ro"
  shows "if ctx \<in> set (ro_read_index_queue ro)
         then \<exists>pre post ro'. ro_read_index_queue ro = pre @ ctx # post \<and>
                ReadOnly_Advance ctx ro =
                  Some (map (\<lambda>x. the (map_of (ro_pending_read_index ro) x)) (pre @ [ctx]), ro') \<and>
                read_only_wf ro' \<and> ro_read_index_queue ro' = post \<and>
                map_of (ro_pending_read_index ro') = map_of (ro_pending_read_index ro) |` set post
         else ReadOnly_Advance ctx ro = Some ([], ro)"
proof (cases "ctx \<in> set (ro_read_index_queue ro)")
  case True
  let ?q = "ro_read_index_queue ro"
  obtain pre post where split: "?q = pre @ ctx # post" and np: "ctx \<notin> set pre"
    using split_list_first [OF True] by blast
  have tw: "takeWhile (\<lambda>x. x \<noteq> ctx) ?q = pre"
    unfolding split using np by (subst takeWhile_append2) auto
  have pos: "Advance_position (ro_pending_read_index ro) ctx 0 ?q = Some (Some (length pre))"
    using Advance_position_wf [of ?q "ro_pending_read_index ro" ctx 0] assms True
    by (simp add: read_only_wf_def tw)
  have "length pre + 1 \<le> length ?q" unfolding split by simp
  from Advance_pop_wf [OF assms this] obtain ro' where
    "Advance_pop (length pre + 1) ro =
      Some (map (\<lambda>x. the (map_of (ro_pending_read_index ro) x)) (take (length pre + 1) ?q), ro')"
    "read_only_wf ro'" "ro_read_index_queue ro' = drop (length pre + 1) ?q"
    "map_of (ro_pending_read_index ro') = map_of (ro_pending_read_index ro) |` set (drop (length pre + 1) ?q)"
    by blast
  moreover have "take (length pre + 1) ?q = pre @ [ctx]" "drop (length pre + 1) ?q = post"
    unfolding split by simp_all
  ultimately show ?thesis using True pos split by (auto simp: ReadOnly_Advance_def)
next
  case False
  then show ?thesis
    using Advance_position_wf [of "ro_read_index_queue ro" "ro_pending_read_index ro" ctx 0] assms
    by (simp add: ReadOnly_Advance_def read_only_wf_def)
qed

definition read_example :: ReadOnly where
  "read_example =
     (let req = (\<lambda>c. default_message\<lparr>m_entries := [default_entry\<lparr>e_data := c\<rparr>]\<rparr>)
      in ReadOnly_AddRequest 7 (req ''b'') 1 (ReadOnly_AddRequest 5 (req ''a'') 1 (ReadOnly_new Safe)))"

theorem read_only_advance_witness:
  "\<exists>rss ro'. ReadOnly_Advance ''b'' read_example = Some (rss, ro') \<and> map ris_index rss = [5, 7] \<and>
             ro_read_index_queue ro' = []"
proof -
  have wf: "read_only_wf read_example"
    unfolding read_example_def Let_def
    by (intro AddRequest_wf) (simp add: read_only_wf_def ReadOnly_new_def)
  have q: "ro_read_index_queue read_example = [''a'', ''b'']"
    by (simp add: read_example_def ReadOnly_AddRequest_def ReadOnly_new_def Let_def default_message_def
        default_entry_def Map_emplace_def)
  have idx: "ris_index (the (map_of (ro_pending_read_index read_example) ''a'')) = 5"
    "ris_index (the (map_of (ro_pending_read_index read_example) ''b'')) = 7"
    by (simp_all add: read_example_def ReadOnly_AddRequest_def ReadOnly_new_def Let_def default_message_def
        default_entry_def Map_emplace_def)
  obtain pre post ro' where r: "[''a'', ''b''] = pre @ ''b'' # post"
    "ReadOnly_Advance ''b'' read_example =
      Some (map (\<lambda>x. the (map_of (ro_pending_read_index read_example) x)) (pre @ [''b'']), ro')"
    "ro_read_index_queue ro' = post"
    using read_only_advance [OF wf, of "''b''"] unfolding q by auto
  then have "pre = [''a''] \<and> post = []" by (auto simp: Cons_eq_append_conv)
  then show ?thesis using r idx by auto
qed

end
