(* ===== verification/RaftConfig.thy ===== *)
theory RaftConfig
  imports ReadOnly
begin

text \<open>
  The configuration of a node (\<open>lib/core/raft_config.cc\<close>). Tick counts and byte limits are
  \<open>size_t\<close>/\<open>uint64_t\<close> and kept at 64 bits; the window size is a vector capacity.
\<close>

section \<open>Model\<close>

definition kHeartbeatTick :: u64 where
  "kHeartbeatTick = 2"

record Config =
  c_id :: u64
  c_election_tick :: u64
  c_heartbeat_tick :: u64
  c_applied :: u64
  c_max_size_per_message :: u64
  c_max_inflight_messages :: nat
  c_check_quorum :: bool
  c_pre_vote :: bool
  c_min_election_tick :: u64
  c_max_election_tick :: u64
  c_read_only_option :: ReadOnlyOption
  c_skip_broadcast_commit :: bool
  c_batch_append :: bool
  c_priority :: i64
  c_max_uncommitted_size :: u64
  c_max_committed_size_per_ready :: u64
  c_max_apply_unpersisted_log_limit :: u64
  c_disable_proposal_forwarding :: bool
  c_load_state_on_startup :: bool

definition DefaultConfig :: Config where
  "DefaultConfig =
     \<lparr>c_id = 0, c_election_tick = kHeartbeatTick * 10, c_heartbeat_tick = kHeartbeatTick, c_applied = 0,
      c_max_size_per_message = 0, c_max_inflight_messages = 256, c_check_quorum = False,
      c_pre_vote = False, c_min_election_tick = 0, c_max_election_tick = 0, c_read_only_option = Safe,
      c_skip_broadcast_commit = False, c_batch_append = False, c_priority = 0,
      c_max_uncommitted_size = u64_max, c_max_committed_size_per_ready = u64_max,
      c_max_apply_unpersisted_log_limit = 0, c_disable_proposal_forwarding = False,
      c_load_state_on_startup = False\<rparr>"

definition Config_MinElectionTick :: "Config \<Rightarrow> u64" where
  "Config_MinElectionTick c = (if c_min_election_tick c = 0 then c_election_tick c else c_min_election_tick c)"

definition Config_MaxElectionTick :: "Config \<Rightarrow> u64" where
  "Config_MaxElectionTick c = (if c_max_election_tick c = 0 then 2 * c_election_tick c else c_max_election_tick c)"

definition Config_Validate :: "Config \<Rightarrow> unit result" where
  "Config_Validate c =
     (if c_id c = kInvalidId then Inl (ConfigError InvalidNodeId)
      else if c_heartbeat_tick c = 0 then Inl (ConfigError HeartbeatTickTooSmall)
      else if c_election_tick c \<le> c_heartbeat_tick c then Inl (ConfigError ElectionTickTooSmall)
      else
        let min_timeout = Config_MinElectionTick c; max_timeout = Config_MaxElectionTick c in
        if min_timeout < c_election_tick c then
          Inl (InvalidConfigError (Fmt ''min election tick {} must not be less than election_tick {}''
                 [min_timeout, c_election_tick c]))
        else if max_timeout \<le> min_timeout then
          Inl (InvalidConfigError (Fmt ''min election tick {} should be less than max election tick {}''
                 [min_timeout, max_timeout]))
        else if c_max_inflight_messages c = 0 then Inl (ConfigError MaxInflightMessagesTooSmall)
        else if c_read_only_option c = LeaseBased \<and> \<not> c_check_quorum c
        then Inl (ConfigError LeaseBasedReadRequiresCheckQuorum)
        else if c_max_uncommitted_size c < c_max_size_per_message c
        then Inl (InvalidConfigError (Fmt ''max uncommitted size should greater than max_size_per_msg'' []))
        else Inr ())"

section \<open>What a valid configuration guarantees\<close>

text \<open>
  Validation accepts exactly the usable configurations: a non-zero id, heartbeats more frequent
  than elections, a non-empty range of randomized election timeouts that starts no earlier than the
  election tick (also when \<open>2 * election_tick\<close> wraps around), room for at least one in-flight message,
  lease-based reads only with quorum checks, and a message size within the uncommitted budget.
\<close>

theorem config_validate_exact:
  "Config_Validate c = Inr () \<longleftrightarrow>
     c_id c \<noteq> 0 \<and> 0 < c_heartbeat_tick c \<and> c_heartbeat_tick c < c_election_tick c \<and>
     c_election_tick c \<le> Config_MinElectionTick c \<and>
     Config_MinElectionTick c < Config_MaxElectionTick c \<and>
     0 < c_max_inflight_messages c \<and>
     (c_check_quorum c \<or> c_read_only_option c = Safe) \<and>
     c_max_size_per_message c \<le> c_max_uncommitted_size c"
proof -
  have "c_read_only_option c = Safe \<longleftrightarrow> c_read_only_option c \<noteq> LeaseBased"
    by (cases "c_read_only_option c") auto
  then show ?thesis
    by (auto simp: Config_Validate_def Let_def kInvalidId_def word_gt_0 not_le not_less)
qed

end
