(* ===== verification/RaftLog.thy ===== *)
theory RaftLog
  imports Unstable RaftConfig
begin

text \<open>
  The log of a node (\<open>lib/core/raft_log.cc\<close>): the storage for what is stable, the unstable part on
  top of it, and the cursors \<open>committed\<close>, \<open>persisted\<close> and \<open>applied\<close>. The storage is a parameter: its
  operations are the argument \<open>ops\<close>, its state the field \<open>rl_store\<close>. The size function of Cap'n Proto
  that limits the batches is the argument \<open>sz\<close>.
\<close>

section \<open>Model\<close>

record 's RaftLog =
  rl_store :: 's
  rl_unstable :: Unstable
  rl_committed :: u64
  rl_persisted :: u64
  rl_applied :: u64
  rl_max_apply_unpersisted_log_limit :: u64

record MaybeAppendResult =
  mar_term_matched :: bool
  mar_conflict_index :: u64
  mar_last_index :: u64

definition RaftLog_new :: "'s storage_ops \<Rightarrow> Config \<Rightarrow> 's \<Rightarrow> 's RaftLog option" where
  "RaftLog_new ops config store =
     do {
       last_index \<leftarrow> unwrap (so_LastIndex ops store);
       first_index \<leftarrow> unwrap (so_FirstIndex ops store);
       Some \<lparr>rl_store = store, rl_unstable = Unstable_new (last_index + 1),
             rl_committed = first_index - 1, rl_persisted = last_index, rl_applied = first_index - 1,
             rl_max_apply_unpersisted_log_limit = c_max_apply_unpersisted_log_limit config\<rparr>
     }"

definition RaftLog_GetInitialState :: "'s storage_ops \<Rightarrow> 's RaftLog \<Rightarrow> RaftState result" where
  "RaftLog_GetInitialState ops l = so_InitialState ops (rl_store l)"

definition RaftLog_LastIndex :: "'s storage_ops \<Rightarrow> 's RaftLog \<Rightarrow> u64 option" where
  "RaftLog_LastIndex ops l =
     (case Unstable_MaybeLastIndex (rl_unstable l) of
        Some i \<Rightarrow> Some i
      | None \<Rightarrow> unwrap (so_LastIndex ops (rl_store l)))"

definition RaftLog_FirstIndex :: "'s storage_ops \<Rightarrow> 's RaftLog \<Rightarrow> u64 option" where
  "RaftLog_FirstIndex ops l =
     (case Unstable_MaybeFirstIndex (rl_unstable l) of
        Some i \<Rightarrow> Some i
      | None \<Rightarrow> unwrap (so_FirstIndex ops (rl_store l)))"

definition RaftLog_Term :: "'s storage_ops \<Rightarrow> u64 \<Rightarrow> 's RaftLog \<Rightarrow> u64 result option" where
  "RaftLog_Term ops idx l =
     do {
       first_index \<leftarrow> RaftLog_FirstIndex ops l;
       last_index \<leftarrow> RaftLog_LastIndex ops l;
       if idx < first_index - 1 \<or> last_index < idx then Some (Inr 0)
       else do {
         r \<leftarrow> Unstable_MaybeTerm idx (rl_unstable l);
         case r of
           Some t \<Rightarrow> Some (Inr t)
         | None \<Rightarrow> do {
             r \<leftarrow> so_Term ops idx (rl_store l);
             case r of
               Inr t \<Rightarrow> Some (Inr t)
             | Inl err \<Rightarrow>
                 if err = StorageError Compacted \<or> err = StorageError Unavailable
                 then Some (Inl err) else None
           }
       }
     }"

definition RaftLog_LastTerm :: "'s storage_ops \<Rightarrow> 's RaftLog \<Rightarrow> u64 option" where
  "RaftLog_LastTerm ops l =
     do {
       last_index \<leftarrow> RaftLog_LastIndex ops l;
       r \<leftarrow> RaftLog_Term ops last_index l;
       case r of
         Inr t \<Rightarrow> Some t
       | Inl err \<Rightarrow> if err = StorageError Compacted then Some 0 else None
     }"

definition RaftLog_MatchTerm :: "'s storage_ops \<Rightarrow> u64 \<Rightarrow> u64 \<Rightarrow> 's RaftLog \<Rightarrow> bool option" where
  "RaftLog_MatchTerm ops idx trm l =
     do {
       r \<leftarrow> RaftLog_Term ops idx l;
       Some (case r of Inr t \<Rightarrow> t = trm | Inl _ \<Rightarrow> False)
     }"

fun RaftLog_FindConflict :: "'s storage_ops \<Rightarrow> entry list \<Rightarrow> 's RaftLog \<Rightarrow> u64 option" where
  "RaftLog_FindConflict ops [] l = Some 0"
| "RaftLog_FindConflict ops (e # es) l =
     do {
       matched \<leftarrow> RaftLog_MatchTerm ops (e_index e) (e_term e) l;
       if \<not> matched then Some (e_index e) else RaftLog_FindConflict ops es l
     }"

definition RaftLog_MaybePersist :: "'s storage_ops \<Rightarrow> u64 \<Rightarrow> u64 \<Rightarrow> 's RaftLog \<Rightarrow> (bool \<times> 's RaftLog) option" where
  "RaftLog_MaybePersist ops index trm l =
     (let first_update_index =
            (case un_snapshot (rl_unstable l) of
               Some sn \<Rightarrow> sn_index sn
             | None \<Rightarrow> un_offset (rl_unstable l))
      in if rl_persisted l < index \<and> index < first_update_index then do {
           r \<leftarrow> so_Term ops index (rl_store l);
           Some (if r = Inr trm then (True, l\<lparr>rl_persisted := index\<rparr>) else (False, l))
         } else Some (False, l))"

definition RaftLog_MaybePersistSnapshot :: "u64 \<Rightarrow> 's RaftLog \<Rightarrow> (bool \<times> 's RaftLog) option" where
  "RaftLog_MaybePersistSnapshot index l =
     (if index \<le> rl_persisted l then Some (False, l)
      else do {
        ASSERT (\<not> rl_committed l < index);
        ASSERT (\<not> un_offset (rl_unstable l) \<le> index);
        Some (True, l\<lparr>rl_persisted := index\<rparr>)
      })"

definition RaftLog_CommitTo :: "'s storage_ops \<Rightarrow> u64 \<Rightarrow> 's RaftLog \<Rightarrow> (unit result \<times> 's RaftLog) option" where
  "RaftLog_CommitTo ops to_commit l =
     (if to_commit \<le> rl_committed l then Some (Inr (), l)
      else do {
        last_index \<leftarrow> RaftLog_LastIndex ops l;
        if last_index < to_commit
        then Some (Inl (FatalError (Fmt ''to_commit {} is out of range [last_index {}]''
                          [to_commit, last_index])), l)
        else Some (Inr (), l\<lparr>rl_committed := to_commit\<rparr>)
      })"

definition RaftLog_MaybeCommit :: "'s storage_ops \<Rightarrow> u64 \<Rightarrow> u64 \<Rightarrow> 's RaftLog \<Rightarrow> (bool \<times> 's RaftLog) option" where
  "RaftLog_MaybeCommit ops max_index trm l =
     (if rl_committed l < max_index then do {
        r \<leftarrow> RaftLog_Term ops max_index l;
        if r = Inr trm then do {
          (_, l) \<leftarrow> RaftLog_CommitTo ops max_index l;
          Some (True, l)
        } else Some (False, l)
      } else Some (False, l))"

definition RaftLog_Append :: "'s storage_ops \<Rightarrow> entry list \<Rightarrow> 's RaftLog \<Rightarrow> (u64 \<times> 's RaftLog) option" where
  "RaftLog_Append ops entries l =
     (case entries of
        [] \<Rightarrow> do { i \<leftarrow> RaftLog_LastIndex ops l; Some (i, l) }
      | front # _ \<Rightarrow> do {
          let after = e_index front - 1;
          let l = (if after < rl_committed l then l\<lparr>rl_committed := after\<rparr> else l);
          u \<leftarrow> Unstable_TruncateAndAppend entries (rl_unstable l);
          let l = l\<lparr>rl_unstable := u\<rparr>;
          i \<leftarrow> RaftLog_LastIndex ops l;
          Some (i, l)
        })"

definition RaftLog_MaybeAppend ::
  "'s storage_ops \<Rightarrow> u64 \<Rightarrow> u64 \<Rightarrow> u64 \<Rightarrow> entry list \<Rightarrow> 's RaftLog \<Rightarrow> (MaybeAppendResult result \<times> 's RaftLog) option" where
  "RaftLog_MaybeAppend ops idx trm committed entries l =
     do {
       matched \<leftarrow> RaftLog_MatchTerm ops idx trm l;
       if \<not> matched
       then Some (Inr \<lparr>mar_term_matched = False, mar_conflict_index = 0, mar_last_index = 0\<rparr>, l)
       else do {
         conflict_idx \<leftarrow> RaftLog_FindConflict ops entries l;
         if conflict_idx \<noteq> 0 \<and> conflict_idx \<le> rl_committed l
         then Some (Inl (FatalError (Fmt ''entry {} conflict with committed entry {}''
                           [conflict_idx, rl_committed l])), l)
         else do {
           l \<leftarrow> (if conflict_idx = 0 then Some l
                 else do {
                   let start = unat (conflict_idx - (idx + 1));
                   ASSERT (start \<le> length entries);
                   (_, l) \<leftarrow> RaftLog_Append ops (drop start entries) l;
                   Some (l\<lparr>rl_persisted := min (rl_persisted l) (conflict_idx - 1)\<rparr>)
                 });
           let last_new_idx = idx + of_nat (length entries);
           (_, l) \<leftarrow> RaftLog_CommitTo ops (min committed last_new_idx) l;
           Some (Inr \<lparr>mar_term_matched = True, mar_conflict_index = conflict_idx,
                      mar_last_index = last_new_idx\<rparr>, l)
         }
       }
     }"

definition RaftLog_MustCheckOutOfBounds :: "'s storage_ops \<Rightarrow> u64 \<Rightarrow> u64 \<Rightarrow> 's RaftLog \<Rightarrow> unit result option" where
  "RaftLog_MustCheckOutOfBounds ops low high l =
     (if high < low then Some (Inl (FatalError (Fmt ''invalid slice {} > {}'' [low, high])))
      else do {
        first_index \<leftarrow> RaftLog_FirstIndex ops l;
        if low < first_index then Some (Inl (StorageError Compacted))
        else do {
          last_index \<leftarrow> RaftLog_LastIndex ops l;
          let len = last_index + 1 - first_index;
          if first_index + len < high
          then Some (Inl (FatalError (Fmt ''slice[{},{}] out of bound[{},{}]''
                            [low, high, first_index, last_index])))
          else Some (Inr ())
        }
      })"

definition RaftLog_Slice ::
  "(entry \<Rightarrow> u64) \<Rightarrow> 's storage_ops \<Rightarrow> u64 \<Rightarrow> u64 \<Rightarrow> u64 option \<Rightarrow> GetEntriesContext \<Rightarrow> 's RaftLog \<Rightarrow>
     (entry list result \<times> 's RaftLog) option" where
  "RaftLog_Slice sz ops low high max_size context l =
     do {
       r \<leftarrow> RaftLog_MustCheckOutOfBounds ops low high l;
       case r of
         Inl err \<Rightarrow> Some (Inl err, l)
       | Inr _ \<Rightarrow>
           if low = high then Some (Inr [], l)
           else do {
             let offset = un_offset (rl_unstable l);
             (early, r, l) \<leftarrow> (if low < offset then do {
                 let unstable_high = min high offset;
                 (r, store) \<leftarrow> so_Entries ops low unstable_high max_size context (rl_store l);
                 let l = l\<lparr>rl_store := store\<rparr>;
                 case r of
                   Inr entries \<Rightarrow> Some (length entries < unat (unstable_high - low), Inr entries, l)
                 | Inl err \<Rightarrow>
                     if err = StorageError Compacted \<or> err = StorageError LogTemporarilyUnavailable
                     then Some (True, Inl err, l) else None
               } else Some (False, Inr [], l));
             case r of
               Inl err \<Rightarrow> Some (Inl err, l)
             | Inr entries \<Rightarrow>
                 if early then Some (Inr entries, l)
                 else do {
                   unstable \<leftarrow> (if offset < high then Unstable_Slice (max low offset) high (rl_unstable l)
                                else Some []);
                   Some (Inr (LimitSize sz max_size (entries @ unstable)), l)
                 }
           }
     }"

definition RaftLog_GetEntries ::
  "(entry \<Rightarrow> u64) \<Rightarrow> 's storage_ops \<Rightarrow> u64 \<Rightarrow> u64 option \<Rightarrow> GetEntriesContext \<Rightarrow> 's RaftLog \<Rightarrow>
     (entry list result \<times> 's RaftLog) option" where
  "RaftLog_GetEntries sz ops idx max_size context l =
     do {
       last_idx \<leftarrow> RaftLog_LastIndex ops l;
       if last_idx < idx then Some (Inr [], l)
       else RaftLog_Slice sz ops idx (last_idx + 1) max_size context l
     }"

partial_function (option) RaftLog_AllEntries ::
  "(entry \<Rightarrow> u64) \<Rightarrow> 's storage_ops \<Rightarrow> 's RaftLog \<Rightarrow> (entry list \<times> 's RaftLog) option" where
  "RaftLog_AllEntries sz ops l =
     do {
       first_index \<leftarrow> RaftLog_FirstIndex ops l;
       (r, l) \<leftarrow> RaftLog_GetEntries sz ops first_index None (EmptyCtx False) l;
       case r of
         Inr es \<Rightarrow> Some (es, l)
       | Inl err \<Rightarrow> if err = StorageError Compacted then RaftLog_AllEntries sz ops l else None
     }"

definition RaftLog_AppliedToUnchecked :: "u64 \<Rightarrow> 's RaftLog \<Rightarrow> 's RaftLog" where
  "RaftLog_AppliedToUnchecked idx l = l\<lparr>rl_applied := idx\<rparr>"

definition RaftLog_AppliedTo :: "u64 \<Rightarrow> 's RaftLog \<Rightarrow> 's RaftLog option" where
  "RaftLog_AppliedTo idx l =
     (if idx = 0 then Some l
      else if rl_committed l < idx \<or> idx < rl_applied l then None
      else Some (RaftLog_AppliedToUnchecked idx l))"

partial_function (option) FindConflictByTerm_loop ::
  "'s storage_ops \<Rightarrow> u64 \<Rightarrow> u64 \<Rightarrow> 's RaftLog \<Rightarrow> (u64 \<times> u64 option) option" where
  "FindConflictByTerm_loop ops conflict_index trm l =
     do {
       r \<leftarrow> RaftLog_Term ops conflict_index l;
       case r of
         Inr t \<Rightarrow>
           if trm < t then FindConflictByTerm_loop ops (conflict_index - 1) trm l
           else Some (conflict_index, Some t)
       | Inl _ \<Rightarrow> Some (conflict_index, None)
     }"

definition RaftLog_FindConflictByTerm ::
  "'s storage_ops \<Rightarrow> u64 \<Rightarrow> u64 \<Rightarrow> 's RaftLog \<Rightarrow> (u64 \<times> u64 option) option" where
  "RaftLog_FindConflictByTerm ops index trm l =
     do {
       last_index \<leftarrow> RaftLog_LastIndex ops l;
       if last_index < index then Some (index, None)
       else FindConflictByTerm_loop ops index trm l
     }"

definition RaftLog_GetSnapshot ::
  "'s storage_ops \<Rightarrow> u64 \<Rightarrow> u64 \<Rightarrow> 's RaftLog \<Rightarrow> (snapshot result \<times> 's RaftLog) option" where
  "RaftLog_GetSnapshot ops request_index to l =
     (let from_store = do {
            (r, store) \<leftarrow> so_GetSnapshot ops request_index to (rl_store l);
            Some (r, l\<lparr>rl_store := store\<rparr>)
          }
      in case un_snapshot (rl_unstable l) of
           Some sn \<Rightarrow> if request_index \<le> sn_index sn then Some (Inr sn, l) else from_store
         | None \<Rightarrow> from_store)"

definition RaftLog_CommitInfo :: "'s storage_ops \<Rightarrow> 's RaftLog \<Rightarrow> (u64 \<times> u64) option" where
  "RaftLog_CommitInfo ops l =
     do {
       r \<leftarrow> RaftLog_Term ops (rl_committed l) l;
       t \<leftarrow> unwrap r;
       Some (rl_committed l, t)
     }"

definition RaftLog_IsUpToDate :: "'s storage_ops \<Rightarrow> u64 \<Rightarrow> u64 \<Rightarrow> 's RaftLog \<Rightarrow> bool option" where
  "RaftLog_IsUpToDate ops last_idx trm l =
     do {
       last_term \<leftarrow> RaftLog_LastTerm ops l;
       if last_term < trm then Some True
       else if trm = last_term then do {
         own_last \<leftarrow> RaftLog_LastIndex ops l;
         Some (own_last \<le> last_idx)
       } else Some False
     }"

definition RaftLog_Restore :: "snapshot \<Rightarrow> 's RaftLog \<Rightarrow> unit result \<times> 's RaftLog" where
  "RaftLog_Restore sn l =
     (let index = sn_index sn in
      if index < rl_committed l
      then (Inl (FatalError (Fmt ''index {} < committed_ {}'' [index, rl_committed l])), l)
      else
        let l = (if rl_committed l < rl_persisted l then l\<lparr>rl_persisted := rl_committed l\<rparr> else l)
        in (Inr (), l\<lparr>rl_committed := index, rl_unstable := Unstable_Restore sn (rl_unstable l)\<rparr>))"

definition RaftLog_AppliedIndexUpperBound :: "'s RaftLog \<Rightarrow> u64" where
  "RaftLog_AppliedIndexUpperBound l =
     min (rl_committed l) (rl_persisted l + rl_max_apply_unpersisted_log_limit l)"

definition RaftLog_HasNextEntriesSince :: "'s storage_ops \<Rightarrow> u64 \<Rightarrow> 's RaftLog \<Rightarrow> bool option" where
  "RaftLog_HasNextEntriesSince ops since_idx l =
     do {
       first_index \<leftarrow> RaftLog_FirstIndex ops l;
       Some (max (since_idx + 1) first_index < RaftLog_AppliedIndexUpperBound l + 1)
     }"

definition RaftLog_HasNextEntries :: "'s storage_ops \<Rightarrow> 's RaftLog \<Rightarrow> bool option" where
  "RaftLog_HasNextEntries ops l = RaftLog_HasNextEntriesSince ops (rl_applied l) l"

definition RaftLog_NextEntriesSince ::
  "(entry \<Rightarrow> u64) \<Rightarrow> 's storage_ops \<Rightarrow> u64 \<Rightarrow> u64 option \<Rightarrow> 's RaftLog \<Rightarrow> (entry list option \<times> 's RaftLog) option" where
  "RaftLog_NextEntriesSince sz ops since_idx max_size l =
     do {
       first_index \<leftarrow> RaftLog_FirstIndex ops l;
       let offset = max (since_idx + 1) first_index;
       let high = RaftLog_AppliedIndexUpperBound l + 1;
       if offset < high then do {
         (r, l) \<leftarrow> RaftLog_Slice sz ops offset high max_size GenReadyCtx l;
         es \<leftarrow> unwrap r;
         Some (Some es, l)
       } else Some (None, l)
     }"

definition RaftLog_NextEntries ::
  "(entry \<Rightarrow> u64) \<Rightarrow> 's storage_ops \<Rightarrow> u64 option \<Rightarrow> 's RaftLog \<Rightarrow> (entry list option \<times> 's RaftLog) option" where
  "RaftLog_NextEntries sz ops max_size l = RaftLog_NextEntriesSince sz ops (rl_applied l) max_size l"

definition RaftLog_StableSnapshot :: "u64 \<Rightarrow> 's RaftLog \<Rightarrow> 's RaftLog option" where
  "RaftLog_StableSnapshot index l =
     do { u \<leftarrow> Unstable_StableSnapshot index (rl_unstable l); Some (l\<lparr>rl_unstable := u\<rparr>) }"

text \<open>The 64-bit term is converted to the 32-bit parameter of \<open>Unstable::StableEntries\<close>.\<close>

definition RaftLog_StableEntries :: "u64 \<Rightarrow> u64 \<Rightarrow> 's RaftLog \<Rightarrow> 's RaftLog option" where
  "RaftLog_StableEntries index trm l =
     do { u \<leftarrow> Unstable_StableEntries index (ucast trm) (rl_unstable l); Some (l\<lparr>rl_unstable := u\<rparr>) }"

text \<open>The callback of \<open>Scan\<close> sees a batch and the state it captures and says whether to go on.\<close>

partial_function (option) RaftLog_Scan ::
  "(entry \<Rightarrow> u64) \<Rightarrow> 's storage_ops \<Rightarrow> u64 \<Rightarrow> u64 \<Rightarrow> u64 \<Rightarrow> GetEntriesContext \<Rightarrow>
     (entry list \<Rightarrow> 'a \<Rightarrow> bool \<times> 'a) \<Rightarrow> 's RaftLog \<times> 'a \<Rightarrow> (unit result \<times> 's RaftLog \<times> 'a) option" where
  "RaftLog_Scan sz ops low high page_size ctx scanFn la =
     (if low < high then do {
        (r, l) \<leftarrow> RaftLog_Slice sz ops low high (Some page_size) ctx (fst la);
        case r of
          Inl err \<Rightarrow> Some (Inl err, l, snd la)
        | Inr ents \<Rightarrow>
            if ents = [] then Some (Inl (StorageErrorOther (Fmt ''got 0 entries in [{}, {})'' [low, high])), l, snd la)
            else
              let (go, a) = scanFn ents (snd la)
              in if go then RaftLog_Scan sz ops (low + of_nat (length ents)) high page_size ctx scanFn (l, a)
                 else Some (Inr (), l, a)
      } else Some (Inr (), fst la, snd la))"

section \<open>The log as one list\<close>

text \<open>
  What a log holds, given the first index and the entries of its storage: the stored entries below
  the unstable offset followed by the unstable ones, or only the latter behind a pending snapshot.
\<close>

definition log_first :: "('s \<Rightarrow> u64) \<Rightarrow> 's RaftLog \<Rightarrow> u64" where
  "log_first first l =
     (case un_snapshot (rl_unstable l) of Some sn \<Rightarrow> sn_index sn + 1 | None \<Rightarrow> first (rl_store l))"

definition log_ents :: "('s \<Rightarrow> u64) \<Rightarrow> ('s \<Rightarrow> entry list) \<Rightarrow> 's RaftLog \<Rightarrow> entry list" where
  "log_ents first ents l =
     (case un_snapshot (rl_unstable l) of
        Some _ \<Rightarrow> un_entries (rl_unstable l)
      | None \<Rightarrow> take (unat (un_offset (rl_unstable l)) - unat (first (rl_store l))) (ents (rl_store l))
               @ un_entries (rl_unstable l))"

definition log_wf :: "('s \<Rightarrow> bool) \<Rightarrow> ('s \<Rightarrow> u64) \<Rightarrow> ('s \<Rightarrow> entry list) \<Rightarrow> 's RaftLog \<Rightarrow> bool" where
  "log_wf ok first ents l \<longleftrightarrow>
     ok (rl_store l) \<and> unstable_wf (rl_unstable l) \<and>
     (un_snapshot (rl_unstable l) = None \<longrightarrow>
        first (rl_store l) \<le> un_offset (rl_unstable l) \<and>
        unat (un_offset (rl_unstable l)) \<le> unat (first (rl_store l)) + length (ents (rl_store l)) \<and>
        (un_entries (rl_unstable l) = [] \<longrightarrow>
           unat (un_offset (rl_unstable l)) = unat (first (rl_store l)) + length (ents (rl_store l)))) \<and>
     unat (log_first first l) \<le> Suc (unat (rl_committed l)) \<and>
     unat (rl_committed l) < unat (log_first first l) + length (log_ents first ents l) \<and>
     rl_persisted l < un_offset (rl_unstable l) \<and> rl_applied l \<le> rl_committed l"

text \<open>
  How the log may change over time: nothing committed is lost or replaced, and neither the commit
  index nor the first index moves back.
\<close>

definition log_extends :: "('s \<Rightarrow> bool) \<Rightarrow> ('s \<Rightarrow> u64) \<Rightarrow> ('s \<Rightarrow> entry list) \<Rightarrow> 's RaftLog \<Rightarrow> 's RaftLog \<Rightarrow> bool" where
  "log_extends ok first ents l l' \<longleftrightarrow>
     log_wf ok first ents l' \<and> rl_committed l \<le> rl_committed l' \<and>
     unat (log_first first l) \<le> unat (log_first first l') \<and>
     (\<forall>j. unat (log_first first l') \<le> j \<longrightarrow> j \<le> unat (rl_committed l) \<longrightarrow>
        log_ents first ents l' ! (j - unat (log_first first l')) =
        log_ents first ents l ! (j - unat (log_first first l)))"

lemma log_extends_refl: "log_wf ok first ents l \<Longrightarrow> log_extends ok first ents l l"
  by (simp add: log_extends_def)

lemma log_extends_trans:
  assumes "log_extends ok first ents l l'" "log_extends ok first ents l' l''"
  shows "log_extends ok first ents l l''"
proof -
  have "log_ents first ents l'' ! (j - unat (log_first first l'')) =
        log_ents first ents l ! (j - unat (log_first first l))"
    if "unat (log_first first l'') \<le> j" "j \<le> unat (rl_committed l)" for j
  proof -
    have "unat (log_first first l') \<le> j" "j \<le> unat (rl_committed l')"
      using assms that by (auto simp: log_extends_def word_le_nat_alt)
    then show ?thesis using assms that by (simp add: log_extends_def)
  qed
  then show ?thesis using assms by (auto simp: log_extends_def)
qed

lemma log_extends_same_first:
  assumes "log_wf ok first ents l'" "rl_committed l \<le> rl_committed l'" "log_first first l' = log_first first l"
    "take (Suc (unat (rl_committed l)) - unat (log_first first l)) (log_ents first ents l') =
     take (Suc (unat (rl_committed l)) - unat (log_first first l)) (log_ents first ents l)"
  shows "log_extends ok first ents l l'"
proof -
  have "log_ents first ents l' ! (j - unat (log_first first l)) = log_ents first ents l ! (j - unat (log_first first l))"
    if "unat (log_first first l) \<le> j" "j \<le> unat (rl_committed l)" for j
  proof -
    have "j - unat (log_first first l) < Suc (unat (rl_committed l)) - unat (log_first first l)" using that by simp
    then show ?thesis using arg_cong [OF assms(4), of "\<lambda>xs. xs ! (j - unat (log_first first l))"] by simp
  qed
  then show ?thesis using assms(1-3) by (simp add: log_extends_def)
qed

text \<open>A prefix that was cut by the size limit is cut at the same place in a longer list.\<close>

lemma LimitSize_loop_append:
  "LimitSize_loop sz mx cur keep xs < keep + length xs \<Longrightarrow>
     LimitSize_loop sz mx cur keep (xs @ ys) = LimitSize_loop sz mx cur keep xs"
proof (induction xs arbitrary: cur keep)
  case (Cons x xs)
  then show ?case using Cons.IH [of "cur + sz x" "Suc keep"] by (auto simp: Let_def split: if_splits)
qed simp

lemma LimitSize_append:
  assumes "length (LimitSize sz mx xs) < length xs"
  shows "LimitSize sz mx (xs @ ys) = LimitSize sz mx xs"
proof -
  obtain m where m: "mx = Some m" "m \<noteq> u64_max" "1 < length xs"
    "LimitSize sz mx xs = take (LimitSize_loop sz m 0 0 xs) xs"
    using assms by (auto simp: LimitSize_def split: option.splits if_splits)
  then have "LimitSize_loop sz m 0 0 xs < length xs" using assms by (simp add: min_def split: if_splits)
  then show ?thesis using m LimitSize_loop_append [of sz m 0 0 xs ys] by (simp add: LimitSize_def)
qed

lemma LimitSize_full: "length (LimitSize sz mx xs) = length xs \<Longrightarrow> LimitSize sz mx xs = xs"
  using LimitSize_take [of sz mx xs] by simp

text \<open>The entries with indexes from \<open>low\<close> up to but not including \<open>high\<close>.\<close>

definition sub_entries :: "u64 \<Rightarrow> entry list \<Rightarrow> u64 \<Rightarrow> u64 \<Rightarrow> entry list" where
  "sub_entries first es low high = take (unat high - unat low) (drop (unat low - unat first) es)"

lemma sub_entries_split:
  assumes "unat first \<le> unat low" "unat low \<le> unat mid" "unat mid \<le> unat high"
  shows "sub_entries first es low high = sub_entries first es low mid @ sub_entries first es mid high"
proof -
  have h: "unat high - unat low = (unat mid - unat low) + (unat high - unat mid)"
    and d: "(unat mid - unat low) + (unat low - unat first) = unat mid - unat first" using assms by auto
  show ?thesis unfolding sub_entries_def h take_add drop_drop d ..
qed

lemma take_drop_append: "k + n \<le> length xs \<Longrightarrow> take n (drop k (xs @ ys)) = take n (drop k xs)"
  by simp

lemma length_sub_entries:
  assumes "unat first \<le> unat low" "unat high \<le> unat first + length es"
  shows "length (sub_entries first es low high) = unat high - unat low"
  using assms by (simp add: sub_entries_def)

text \<open>
  What a follower does with the entries behind the matching point: keep what agrees in the term, and
  from the first disagreement on take the leader's entries.
\<close>

fun match_len :: "entry list \<Rightarrow> entry list \<Rightarrow> nat" where
  "match_len (x # xs) (e # es) = (if e_term x = e_term e then Suc (match_len xs es) else 0)"
| "match_len _ _ = 0"

definition merge_entries :: "entry list \<Rightarrow> entry list \<Rightarrow> entry list" where
  "merge_entries xs es =
     (if match_len xs es = length es then xs else take (match_len xs es) xs @ drop (match_len xs es) es)"

definition appended :: "u64 \<Rightarrow> entry list \<Rightarrow> u64 \<Rightarrow> entry list \<Rightarrow> entry list" where
  "appended first xs idx es =
     (let k = Suc (unat idx) - unat first in take k xs @ merge_entries (drop k xs) es)"

lemma match_len_le: "match_len xs es \<le> length es" "match_len xs es \<le> length xs"
  by (induction xs es rule: match_len.induct) auto

lemma match_len_nth: "i < match_len xs es \<Longrightarrow> e_term (xs ! i) = e_term (es ! i)"
proof (induction xs es arbitrary: i rule: match_len.induct)
  case (1 x xs e es)
  then show ?case by (cases i) (auto split: if_splits)
qed auto

lemma match_len_stop: "match_len xs es < length xs \<Longrightarrow> match_len xs es < length es \<Longrightarrow>
    e_term (xs ! match_len xs es) \<noteq> e_term (es ! match_len xs es)"
  by (induction xs es rule: match_len.induct) auto

lemma u64_pred_less: "0 < (x::u64) \<Longrightarrow> x - 1 < x"
  using unat_sub_one_u64 [of x] by (cases "x = 0") (simp_all add: word_less_nat_alt)

lemma u64_succ_below_max: "(x::u64) < x + 1 \<Longrightarrow> x < u64_max"
proof -
  assume "x < x + 1"
  then have "x \<noteq> - 1" by auto
  moreover have "x \<le> - 1" by simp
  ultimately show ?thesis by (simp add: u64_max_def order_less_le)
qed

context log_storage
begin

abbreviation lf :: "'s RaftLog \<Rightarrow> u64" where
  "lf \<equiv> log_first first"

abbreviation le :: "'s RaftLog \<Rightarrow> entry list" where
  "le \<equiv> log_ents first ents"

abbreviation lwf :: "'s RaftLog \<Rightarrow> bool" where
  "lwf \<equiv> log_wf inv first ents"

lemma lwf_parts:
  assumes "lwf l"
  shows "inv (rl_store l)" "unstable_wf (rl_unstable l)"
    "un_snapshot (rl_unstable l) = None \<Longrightarrow> unat (first (rl_store l)) \<le> unat (un_offset (rl_unstable l))"
    "un_snapshot (rl_unstable l) = None \<Longrightarrow>
       unat (un_offset (rl_unstable l)) \<le> unat (first (rl_store l)) + length (ents (rl_store l))"
    "unat (lf l) \<le> Suc (unat (rl_committed l))"
    "unat (rl_committed l) < unat (lf l) + length (le l)"
    "rl_persisted l < un_offset (rl_unstable l)" "rl_applied l \<le> rl_committed l"
  using assms by (simp_all add: log_wf_def word_le_nat_alt)

text \<open>The unstable part is the tail of the log.\<close>

lemma lwf_offset:
  assumes "lwf l"
  shows "unat (lf l) \<le> unat (un_offset (rl_unstable l))"
    and "unat (un_offset (rl_unstable l)) + length (un_entries (rl_unstable l)) = unat (lf l) + length (le l)"
    and "drop (unat (un_offset (rl_unstable l)) - unat (lf l)) (le l) = un_entries (rl_unstable l)"
    and "0 < unat (lf l)"
proof -
  let ?u = "rl_unstable l"
  have "unat (lf l) \<le> unat (un_offset ?u) \<and>
    unat (un_offset ?u) + length (un_entries ?u) = unat (lf l) + length (le l) \<and>
    drop (unat (un_offset ?u) - unat (lf l)) (le l) = un_entries ?u \<and> 0 < unat (lf l)"
  proof (cases "un_snapshot ?u")
    case None
    then show ?thesis
      using lwf_parts(1,3,4) [OF assms] st_first_pos [OF lwf_parts(1) [OF assms]]
      by (auto simp: log_first_def log_ents_def word_less_nat_alt)
  next
    case (Some sn)
    then have "lf l = un_offset ?u" "le l = un_entries ?u"
      using lwf_parts(2) [OF assms] by (auto simp: unstable_wf_def log_first_def log_ents_def)
    then show ?thesis using lwf_parts(2) [OF assms] unstable_offset_pos by simp
  qed
  then show "unat (lf l) \<le> unat (un_offset ?u)"
    "unat (un_offset ?u) + length (un_entries ?u) = unat (lf l) + length (le l)"
    "drop (unat (un_offset ?u) - unat (lf l)) (le l) = un_entries ?u" "0 < unat (lf l)" by auto
qed

lemma lf_pred:
  assumes "lwf l"
  shows "unat (lf l - 1) = unat (lf l) - 1"
proof -
  have "lf l \<noteq> 0" using lwf_offset(4) [OF assms] by auto
  then show ?thesis by (rule unat_sub_one_u64)
qed

lemma lwf_fits: "lwf l \<Longrightarrow> unat (lf l) + length (le l) < 2 ^ 64"
  using lwf_offset(1,2) [of l] lwf_parts(2) [of l] by (simp add: unstable_wf_def)

lemma lwf_contig:
  assumes "lwf l"
  shows "contig (lf l) (le l)"
proof (cases "un_snapshot (rl_unstable l)")
  case None
  let ?u = "rl_unstable l" and ?k = "unat (un_offset (rl_unstable l)) - unat (first (rl_store l))"
  have k: "?k \<le> length (ents (rl_store l))" "unat (first (rl_store l)) \<le> unat (un_offset ?u)"
    using lwf_parts(3,4) [OF assms None] by auto
  then have "first (rl_store l) + of_nat ?k = un_offset ?u"
    using unat_add_of_nat_u64 [of "first (rl_store l)" ?k] unat_lt_max [of "un_offset ?u"]
    by (simp add: u64_eq_iff)
  then show ?thesis
    using None st_contig [OF lwf_parts(1) [OF assms]] lwf_parts(2) [OF assms] k
    by (simp add: log_first_def log_ents_def unstable_wf_def)
next
  case (Some sn)
  then show ?thesis using lwf_parts(2) [OF assms] by (auto simp: unstable_wf_def log_first_def log_ents_def)
qed

lemma FirstIndex_eq: "lwf l \<Longrightarrow> RaftLog_FirstIndex ops l = Some (lf l)"
  using st_FirstIndex [OF lwf_parts(1)]
  by (auto simp: RaftLog_FirstIndex_def log_first_def Unstable_MaybeFirstIndex_def split: option.splits)

lemma last_unat: "lwf l \<Longrightarrow> unat (lf l + of_nat (length (le l)) - 1) = unat (lf l) + length (le l) - 1"
  using lwf_fits [of l] lwf_offset(4) [of l] by (intro unat_last) auto

lemma LastIndex_eq:
  assumes "lwf l"
  shows "RaftLog_LastIndex ops l = Some (lf l + of_nat (length (le l)) - 1)"
proof -
  let ?u = "rl_unstable l"
  have e: "un_offset ?u + of_nat (length (un_entries ?u)) = lf l + of_nat (length (le l))"
    using unstable_upper [OF lwf_parts(2) [OF assms]] lwf_offset(1,2) [OF assms]
      unat_add_of_nat_u64 [of "lf l" "length (le l)"] lwf_fits [OF assms]
    by (simp add: u64_eq_iff)
  show ?thesis
  proof (cases "un_entries ?u = []")
    case False
    then show ?thesis using e by (simp add: RaftLog_LastIndex_def Unstable_MaybeLastIndex_def)
  next
    case True
    show ?thesis
    proof (cases "un_snapshot ?u")
      case None
      have "unat (un_offset ?u) = unat (first (rl_store l)) + length (ents (rl_store l))"
        using assms True None by (simp add: log_wf_def)
      then have "un_offset ?u = first (rl_store l) + of_nat (length (ents (rl_store l)))"
        using unat_add_of_nat_u64 [of "first (rl_store l)"] st_fits [OF lwf_parts(1) [OF assms]]
        by (simp add: u64_eq_iff)
      then show ?thesis using None True e st_LastIndex [OF lwf_parts(1) [OF assms]]
        by (simp add: RaftLog_LastIndex_def Unstable_MaybeLastIndex_def)
    next
      case (Some sn)
      then show ?thesis using True e lwf_parts(2) [OF assms]
        by (auto simp: RaftLog_LastIndex_def Unstable_MaybeLastIndex_def unstable_wf_def)
    qed
  qed
qed

lemma Term_in:
  assumes "lwf l" "unat (lf l) \<le> unat idx" "unat idx < unat (lf l) + length (le l)"
  shows "RaftLog_Term ops idx l = Some (Inr (e_term (le l ! (unat idx - unat (lf l)))))"
proof -
  let ?u = "rl_unstable l" and ?o = "unat (un_offset (rl_unstable l))"
  note off = lwf_offset [OF assms(1)]
  have bounds: "\<not> (idx < lf l - 1 \<or> lf l + of_nat (length (le l)) - 1 < idx)"
    using assms(2,3) last_unat [OF assms(1)] off(4) lf_pred [OF assms(1)]
    by (auto simp: word_less_nat_alt)
  show ?thesis
  proof (cases "un_offset ?u \<le> idx")
    case True
    then have o: "?o \<le> unat idx" by (simp add: word_le_nat_alt)
    have "le l ! (unat idx - unat (lf l)) = un_entries ?u ! (unat idx - ?o)"
      using nth_drop [of "?o - unat (lf l)" "le l" "unat idx - ?o"] off assms(3) o
      by (simp add: off(3))
    moreover have "unat idx < ?o + length (un_entries ?u)" using off(2) assms(3) by simp
    ultimately show ?thesis
      using bounds MaybeTerm_entry [OF lwf_parts(2) [OF assms(1)] True]
      by (simp add: RaftLog_Term_def FirstIndex_eq [OF assms(1)] LastIndex_eq [OF assms(1)])
  next
    case False
    then have o: "unat idx < ?o" by (simp add: word_le_nat_alt)
    then have none: "un_snapshot ?u = None"
      using assms(2) lwf_parts(2) [OF assms(1)] by (cases "un_snapshot ?u") (auto simp: log_first_def unstable_wf_def)
    have f: "lf l = first (rl_store l)" using none by (simp add: log_first_def)
    have "so_Term ops idx (rl_store l) = Some (Inr (e_term (ents (rl_store l) ! (unat idx - unat (lf l)))))"
      using st_Term_at [OF lwf_parts(1) [OF assms(1)], of idx] assms(2) o lwf_parts(4) [OF assms(1) none] f
      by (simp add: word_le_nat_alt)
    moreover have "le l ! (unat idx - unat (lf l)) = ents (rl_store l) ! (unat idx - unat (lf l))"
      using none o f assms(2) lwf_parts(4) [OF assms(1) none]
      by (simp add: log_ents_def nth_append)
    moreover have "Unstable_MaybeTerm idx ?u = Some None"
      using False none by (simp add: MaybeTerm_below)
    ultimately show ?thesis
      using bounds by (simp add: RaftLog_Term_def FirstIndex_eq [OF assms(1)] LastIndex_eq [OF assms(1)])
  qed
qed

lemma Term_out:
  assumes "lwf l" "Suc (unat idx) < unat (lf l) \<or> unat (lf l) + length (le l) \<le> unat idx"
  shows "RaftLog_Term ops idx l = Some (Inr 0)"
proof -
  have "idx < lf l - 1 \<or> lf l + of_nat (length (le l)) - 1 < idx"
    using assms(2) last_unat [OF assms(1)] lwf_offset(4) [OF assms(1)] lf_pred [OF assms(1)]
    by (auto simp: word_less_nat_alt)
  then show ?thesis
    by (simp add: RaftLog_Term_def FirstIndex_eq [OF assms(1)] LastIndex_eq [OF assms(1)])
qed

lemma Term_dummy:
  assumes "lwf l"
  shows "RaftLog_Term ops (lf l - 1) l = Some (Inl (StorageError Compacted)) \<or>
         (\<exists>t. RaftLog_Term ops (lf l - 1) l = Some (Inr t))"
proof -
  have lt: "lf l - 1 < un_offset (rl_unstable l)"
    using lwf_offset(1,4) [OF assms] lf_pred [OF assms] by (auto simp: word_less_nat_alt)
  show ?thesis
  proof (cases "un_snapshot (rl_unstable l)")
    case None
    then have "lf l - 1 < first (rl_store l)"
      using lwf_offset(4) [OF assms] lf_pred [OF assms] by (auto simp: word_less_nat_alt log_first_def)
    from st_Term_before [OF lwf_parts(1) [OF assms] this] show ?thesis
      using None lt by (auto simp: RaftLog_Term_def FirstIndex_eq [OF assms] LastIndex_eq [OF assms] MaybeTerm_below)
  next
    case (Some sn)
    then show ?thesis using lt
      by (auto simp: RaftLog_Term_def FirstIndex_eq [OF assms] LastIndex_eq [OF assms] MaybeTerm_below log_first_def)
  qed
qed

lemma Term_total: "lwf l \<Longrightarrow>
    RaftLog_Term ops idx l = Some (Inl (StorageError Compacted)) \<or> (\<exists>t. RaftLog_Term ops idx l = Some (Inr t))"
proof -
  assume wf: "lwf l"
  consider "Suc (unat idx) < unat (lf l) \<or> unat (lf l) + length (le l) \<le> unat idx"
    | "Suc (unat idx) = unat (lf l)" | "unat (lf l) \<le> unat idx" "unat idx < unat (lf l) + length (le l)"
    by linarith
  then show ?thesis
  proof cases
    case 2
    then have "idx = lf l - 1" using lf_pred [OF wf] lwf_offset(4) [OF wf] by (simp add: u64_eq_iff)
    then show ?thesis using Term_dummy [OF wf] by simp
  qed (use Term_out [OF wf] Term_in [OF wf] in auto)
qed

lemma MatchTerm_in:
  "lwf l \<Longrightarrow> unat (lf l) \<le> unat idx \<Longrightarrow> unat idx < unat (lf l) + length (le l) \<Longrightarrow>
     RaftLog_MatchTerm ops idx t l = Some (e_term (le l ! (unat idx - unat (lf l))) = t)"
  by (simp add: RaftLog_MatchTerm_def Term_in)

lemma MatchTerm_total: "lwf l \<Longrightarrow> \<exists>b. RaftLog_MatchTerm ops idx t l = Some b"
  using Term_total [of l idx] by (auto simp: RaftLog_MatchTerm_def)

text \<open>The two halves of a slice.\<close>

lemma sub_entries_stable:
  assumes "lwf l" "un_snapshot (rl_unstable l) = None" "unat (lf l) \<le> unat low"
    "unat high \<le> unat (un_offset (rl_unstable l))"
  shows "sub_entries (first (rl_store l)) (ents (rl_store l)) low high = sub_entries (lf l) (le l) low high"
proof -
  let ?o = "unat (un_offset (rl_unstable l))" and ?f = "unat (first (rl_store l))"
  have f: "lf l = first (rl_store l)" using assms(2) by (simp add: log_first_def)
  have o: "?o - ?f \<le> length (ents (rl_store l))" using lwf_parts(4) [OF assms(1,2)] by simp
  have "unat high - unat low \<le> (?o - ?f) - (unat low - ?f)" using assms(3,4) f by auto
  then have "take (unat high - unat low) (drop (unat low - ?f) (take (?o - ?f) (ents (rl_store l)))) =
      take (unat high - unat low) (drop (unat low - ?f) (ents (rl_store l)))"
    by (simp add: drop_take min_absorb1)
  moreover have "take (unat high - unat low) (drop (unat low - ?f) (le l)) =
      take (unat high - unat low) (drop (unat low - ?f) (take (?o - ?f) (ents (rl_store l))))"
  proof (cases "unat high \<le> unat low")
    case False
    have "length (take (?o - ?f) (ents (rl_store l))) = ?o - ?f" using o by simp
    then have "(unat low - ?f) + (unat high - unat low) \<le> length (take (?o - ?f) (ents (rl_store l)))"
      using assms(3,4) f False by simp
    from take_drop_append [OF this] show ?thesis using assms(2) by (simp add: log_ents_def)
  qed simp
  ultimately show ?thesis by (simp add: sub_entries_def f)
qed

lemma sub_entries_unstable:
  assumes "lwf l" "un_offset (rl_unstable l) \<le> low" "low \<le> high" "unat high \<le> unat (lf l) + length (le l)"
  shows "Unstable_Slice low high (rl_unstable l) = Some (sub_entries (lf l) (le l) low high)"
proof -
  note off = lwf_offset [OF assms(1)]
  let ?o = "unat (un_offset (rl_unstable l))"
  have o: "?o \<le> unat low" using assms(2) by (simp add: word_le_nat_alt)
  have "drop (unat low - unat (lf l)) (le l) = drop (unat low - ?o) (un_entries (rl_unstable l))"
    using off(1,3) o drop_drop [of "unat low - ?o" "?o - unat (lf l)" "le l"] by simp
  then show ?thesis
    using Slice_in [OF lwf_parts(2) [OF assms(1)] assms(2,3)] off(2) assms(4) by (simp add: sub_entries_def)
qed

lemma lwf_store_cong:
  assumes "lwf l" "inv st" "first st = first (rl_store l)" "ents st = ents (rl_store l)"
  shows "lwf (l\<lparr>rl_store := st\<rparr>) \<and> lf (l\<lparr>rl_store := st\<rparr>) = lf l \<and> le (l\<lparr>rl_store := st\<rparr>) = le l"
  using assms by (cases "un_snapshot (rl_unstable l)") (simp_all add: log_wf_def log_first_def log_ents_def)

lemma MustCheck_ok:
  assumes "lwf l" "unat (lf l) \<le> unat low" "low \<le> high" "unat high \<le> unat (lf l) + length (le l)"
  shows "RaftLog_MustCheckOutOfBounds ops low high l = Some (Inr ())"
proof -
  have "unat (lf l + of_nat (length (le l))) = unat (lf l) + length (le l)"
    by (rule unat_add_of_nat_u64 [OF lwf_fits [OF assms(1)]])
  then have "\<not> lf l + of_nat (length (le l)) < high" "\<not> low < lf l" "\<not> high < low"
    using assms(2-4) by (auto simp: u64_nat_simps)
  then show ?thesis
    by (simp add: RaftLog_MustCheckOutOfBounds_def FirstIndex_eq [OF assms(1)] LastIndex_eq [OF assms(1)] Let_def)
qed

text \<open>A slice is the sublist, limited in size, unless the storage asks to come back later.\<close>

lemma Slice_eq:
  assumes "lwf l" "unat (lf l) \<le> unat low" "low < high" "unat high \<le> unat (lf l) + length (le l)"
  shows "\<exists>st. inv st \<and> first st = first (rl_store l) \<and> ents st = ents (rl_store l) \<and>
    (RaftLog_Slice sz ops low high mx ctx l =
       Some (Inl (StorageError LogTemporarilyUnavailable), l\<lparr>rl_store := st\<rparr>) \<and> GetEntriesContext_CanAsync ctx \<or>
     RaftLog_Slice sz ops low high mx ctx l =
       Some (Inr (LimitSize sz mx (sub_entries (lf l) (le l) low high)), l\<lparr>rl_store := st\<rparr>))"
proof -
  let ?u = "rl_unstable l"
  let ?o = "un_offset ?u"
  have lh: "low \<le> high" "low \<noteq> high" "unat low < unat high" using assms(3) by (auto simp: u64_nat_simps)
  note chk = MustCheck_ok [OF assms(1,2) lh(1) assms(4)]
  show ?thesis
  proof (cases "low < ?o")
    case False
    then have "?o \<le> low" "?o < high" using assms(3) by (auto intro: order_le_less_trans)
    then show ?thesis
      using chk lh False sub_entries_unstable [OF assms(1) \<open>?o \<le> low\<close> lh(1) assms(4)] lwf_parts(1) [OF assms(1)]
      by (intro exI [of _ "rl_store l"]) (simp add: RaftLog_Slice_def Let_def max_absorb1)
  next
    case True
    let ?m = "min high ?o"
    have none: "un_snapshot ?u = None"
      using True assms(2) lwf_parts(2) [OF assms(1)]
      by (cases "un_snapshot ?u") (auto simp: log_first_def unstable_wf_def word_less_nat_alt)
    have f: "lf l = first (rl_store l)" using none by (simp add: log_first_def)
    have lm: "low < ?m" using True assms(3) by simp
    then have m: "low < ?m" "unat ?m \<le> unat ?o" "unat ?m \<le> unat high" "unat low \<le> unat ?m"
      using less_imp_le [OF lm] min.cobounded1 [of high ?o] min.cobounded2 [of high ?o]
      unfolding word_le_nat_alt by blast+
    have mu: "unat (?m - low) = unat ?m - unat low" by (rule unat_sub_u64 [OF less_imp_le [OF lm]])
    have mst: "unat ?m \<le> unat (first (rl_store l)) + length (ents (rl_store l))"
      using m(2) lwf_parts(4) [OF assms(1) none] by simp
    define stable where "stable = sub_entries (lf l) (le l) low ?m"
    have stable: "take (unat ?m - unat low) (drop (unat low - unat (first (rl_store l))) (ents (rl_store l))) = stable"
      using sub_entries_stable [OF assms(1) none assms(2) m(2)] by (simp add: sub_entries_def stable_def)
    have len: "length stable = unat ?m - unat low"
      using length_sub_entries [of "lf l" low ?m "le l"] assms(2,4) m(3) by (simp add: stable_def)
    obtain st where st: "inv st" "first st = first (rl_store l)" "ents st = ents (rl_store l)"
      and r: "so_Entries ops low ?m mx ctx (rl_store l) = Some (Inl (StorageError LogTemporarilyUnavailable), st) \<and>
           GetEntriesContext_CanAsync ctx \<or>
         so_Entries ops low ?m mx ctx (rl_store l) = Some (Inr (LimitSize sz mx stable), st)"
      using st_Entries [OF lwf_parts(1) [OF assms(1)] _ m(1) mst, of mx ctx] assms(2) f stable
      by (auto simp: word_le_nat_alt)
    define rest where "rest = sub_entries (lf l) (le l) ?m high"
    have all: "sub_entries (lf l) (le l) low high = stable @ rest"
      unfolding stable_def rest_def by (rule sub_entries_split) (use assms(2) m in auto)
    have rest: "(if ?o < high then Unstable_Slice (max low ?o) high ?u else Some []) = Some rest"
    proof (cases "?o < high")
      case True
      then show ?thesis using sub_entries_unstable [OF assms(1) order_refl _ assms(4)] \<open>low < ?o\<close>
        by (simp add: rest_def max_absorb2 min_absorb2)
    next
      case False
      then show ?thesis by (simp add: rest_def sub_entries_def min_absorb1)
    qed
    have "RaftLog_Slice sz ops low high mx ctx l =
        Some (Inr (LimitSize sz mx (stable @ rest)), l\<lparr>rl_store := st\<rparr>)"
      if "so_Entries ops low ?m mx ctx (rl_store l) = Some (Inr (LimitSize sz mx stable), st)"
    proof (cases "length (LimitSize sz mx stable) < length stable")
      case True
      then show ?thesis using that chk lh \<open>low < ?o\<close> LimitSize_append [OF True, of rest]
        by (simp add: RaftLog_Slice_def Let_def mu len)
    next
      case False
      then have "LimitSize sz mx stable = stable"
        using LimitSize_full [of sz mx stable] length_LimitSize [of sz mx stable] by simp
      then show ?thesis using that chk lh \<open>low < ?o\<close> False rest
        by (cases "?o < high") (simp_all add: RaftLog_Slice_def Let_def mu len
            unat_sub_u64 [OF less_imp_le [OF \<open>low < ?o\<close>]] unat_sub_u64 [OF lh(1)])
    qed
    moreover have "RaftLog_Slice sz ops low high mx ctx l =
        Some (Inl (StorageError LogTemporarilyUnavailable), l\<lparr>rl_store := st\<rparr>)"
      if "so_Entries ops low ?m mx ctx (rl_store l) = Some (Inl (StorageError LogTemporarilyUnavailable), st)"
      using that chk lh \<open>low < ?o\<close> by (simp add: RaftLog_Slice_def Let_def)
    ultimately show ?thesis using st r all by (intro exI [of _ st]) auto
  qed
qed

lemma persisted_frame [simp]:
  "RaftLog_LastIndex ops (l\<lparr>rl_persisted := p\<rparr>) = RaftLog_LastIndex ops l"
  "lf (l\<lparr>rl_persisted := p\<rparr>) = lf l" "le (l\<lparr>rl_persisted := p\<rparr>) = le l"
  by (simp_all add: RaftLog_LastIndex_def log_first_def log_ents_def split: option.splits)

lemma applied_frame [simp]: "lf (l\<lparr>rl_applied := p\<rparr>) = lf l" "le (l\<lparr>rl_applied := p\<rparr>) = le l"
  by (simp_all add: log_first_def log_ents_def split: option.splits)

lemma committed_frame [simp]:
  "RaftLog_LastIndex ops (l\<lparr>rl_committed := p\<rparr>) = RaftLog_LastIndex ops l"
  "lf (l\<lparr>rl_committed := p\<rparr>) = lf l" "le (l\<lparr>rl_committed := p\<rparr>) = le l"
  by (simp_all add: RaftLog_LastIndex_def log_first_def log_ents_def split: option.splits)

lemma Append_list:
  assumes "un_snapshot u' = un_snapshot (rl_unstable l)"
    "un_offset u' = min (un_offset (rl_unstable l)) a"
    "un_entries u' = take (unat a - unat (un_offset (rl_unstable l))) (un_entries (rl_unstable l)) @ es"
    "lwf l" "unat (lf l) \<le> unat a" "unat a \<le> unat (lf l) + length (le l)"
  shows "lf (l\<lparr>rl_unstable := u'\<rparr>) = lf l" "le (l\<lparr>rl_unstable := u'\<rparr>) = take (unat a - unat (lf l)) (le l) @ es"
proof -
  let ?u = "rl_unstable l" and ?a = "unat a"
  let ?o = "unat (un_offset ?u)"
  show f: "lf (l\<lparr>rl_unstable := u'\<rparr>) = lf l"
    using assms(1) by (cases "un_snapshot ?u") (simp_all add: log_first_def)
  have mo: "unat (un_offset u') = min ?o ?a" using assms(2) by (simp add: min_def word_le_nat_alt)
  show "le (l\<lparr>rl_unstable := u'\<rparr>) = take (?a - unat (lf l)) (le l) @ es"
  proof (cases "un_snapshot ?u")
    case (Some sn)
    then have "lf l = un_offset ?u" using lwf_parts(2) [OF assms(4)] by (auto simp: unstable_wf_def log_first_def)
    then show ?thesis using Some assms(1,3) by (simp add: log_ents_def)
  next
    case None
    have f: "lf l = first (rl_store l)" using None by (simp add: log_first_def)
    have len: "length (take (?o - unat (lf l)) (ents (rl_store l))) = ?o - unat (lf l)"
      using lwf_parts(4) [OF assms(4) None] f by simp
    have fo: "unat (lf l) \<le> ?o" using lwf_offset(1) [OF assms(4)] .
    show ?thesis
    proof (cases "?a \<le> ?o")
      case True
      then show ?thesis using None assms(1,3,5) mo len f
        by (simp add: log_ents_def min_absorb1 min_absorb2)
    next
      case False
      then have "?a - unat (lf l) - (?o - unat (lf l)) = ?a - ?o" using fo by simp
      then show ?thesis using None assms(1,3) mo len f False
        by (simp add: log_ents_def min_absorb1)
    qed
  qed
qed

lemma Append_eq:
  assumes "lwf l" "es \<noteq> []" "contig (e_index (hd es)) es" "unat (e_index (hd es)) + length es < 2 ^ 64"
    "rl_committed l < e_index (hd es)" "unat (e_index (hd es)) \<le> unat (lf l) + length (le l)"
  shows "\<exists>u'. RaftLog_Append ops es l = Some (e_index (hd es) + of_nat (length es) - 1, l\<lparr>rl_unstable := u'\<rparr>) \<and>
     lf (l\<lparr>rl_unstable := u'\<rparr>) = lf l \<and>
     le (l\<lparr>rl_unstable := u'\<rparr>) = take (unat (e_index (hd es)) - unat (lf l)) (le l) @ es \<and>
     (\<forall>p. p < un_offset (rl_unstable l) \<longrightarrow> p < e_index (hd es) \<longrightarrow>
        lwf (l\<lparr>rl_unstable := u', rl_persisted := p\<rparr>))"
proof -
  let ?a = "e_index (hd es)" and ?u = "rl_unstable l"
  have ca: "unat (rl_committed l) < unat ?a" using assms(5) by (simp add: word_less_nat_alt)
  have fa: "unat (lf l) \<le> unat ?a" using ca lwf_parts(5) [OF assms(1)] by simp
  have pos: "0 < ?a" using ca by (simp add: word_less_nat_alt)
  have sn: "sn_index sn < ?a" if "un_snapshot ?u = Some sn" for sn
  proof -
    have "unat (lf l) = Suc (unat (sn_index sn))"
      using that lwf_parts(2) [OF assms(1)] by (auto simp: log_first_def unstable_wf_def intro: unat_Suc_u64)
    then show ?thesis using fa by (simp add: word_less_nat_alt)
  qed
  have off: "unat ?a \<le> unat (un_offset ?u) + length (un_entries ?u)"
    using lwf_offset(2) [OF assms(1)] assms(6) by simp
  obtain u' where u': "Unstable_TruncateAndAppend es ?u = Some u'" "unstable_wf u'"
      "un_offset u' = min (un_offset ?u) ?a"
      "un_entries u' = take (unat ?a - unat (un_offset ?u)) (un_entries ?u) @ es"
      "un_snapshot u' = un_snapshot ?u"
    using TruncateAndAppend_wf_result [OF lwf_parts(2) [OF assms(1)] assms(2-4) pos sn off] by blast
  let ?l = "l\<lparr>rl_unstable := u'\<rparr>"
  note ll = Append_list [OF u'(5,3,4) assms(1) fa assms(6)]
  have wf: "lwf (?l\<lparr>rl_persisted := p\<rparr>)" if p: "p < un_offset ?u" "p < ?a" for p
  proof -
    have "unat (rl_committed l) < unat (lf l) + length (take (unat ?a - unat (lf l)) (le l) @ es)"
      using ca fa assms(2,6) by simp
    moreover have "un_snapshot ?u = None \<Longrightarrow> first (rl_store l) \<le> ?a"
      using fa by (simp add: log_first_def word_le_nat_alt)
    moreover have "un_entries u' \<noteq> []" using u'(4) assms(2) by simp
    moreover have "unat (un_offset u') \<le> unat (un_offset ?u)"
      using u'(3) by (simp add: min_def word_le_nat_alt)
    ultimately show ?thesis
      using assms(1) u'(2,3,5) ll p by (auto simp: log_wf_def)
  qed
  have low: "min (rl_persisted l) (?a - 1) < un_offset ?u" "min (rl_persisted l) (?a - 1) < ?a"
    using lwf_parts(7) [OF assms(1)] u64_pred_less [OF pos] by (simp_all add: min_less_iff_disj)
  have last: "RaftLog_LastIndex ops ?l = Some (?a + of_nat (length es) - 1)"
  proof -
    have "lf l + of_nat (unat ?a - unat (lf l)) = ?a"
      using fa unat_add_of_nat_u64 [of "lf l" "unat ?a - unat (lf l)"] unat_lt_max [of ?a] by (simp add: u64_eq_iff)
    then have "lf l + of_nat (unat ?a - unat (lf l) + length es) = ?a + of_nat (length es)"
      by (simp add: add.assoc [symmetric])
    moreover have "length (le ?l) = unat ?a - unat (lf l) + length es" using ll(2) assms(6) by simp
    ultimately show ?thesis using LastIndex_eq [OF wf [OF low]] ll(1) by simp
  qed
  have "\<not> ?a - 1 < rl_committed l" using ca unat_sub_one_u64 [of ?a] by (cases "?a = 0") (auto simp: word_less_nat_alt)
  then have "RaftLog_Append ops es l = Some (?a + of_nat (length es) - 1, ?l)"
    using assms(2) u'(1) last by (cases es) (simp_all add: RaftLog_Append_def Let_def)
  then show ?thesis using ll wf by auto
qed

lemma CommitTo_eq:
  assumes "lwf l"
  shows "RaftLog_CommitTo ops i l =
    Some (if unat i \<le> unat (rl_committed l) then (Inr (), l)
          else if unat (lf l) + length (le l) \<le> unat i
          then (Inl (FatalError (Fmt ''to_commit {} is out of range [last_index {}]''
                  [i, lf l + of_nat (length (le l)) - 1])), l)
          else (Inr (), l\<lparr>rl_committed := i\<rparr>))"
proof -
  have "(lf l + of_nat (length (le l)) - 1 < i) = (unat (lf l) + length (le l) \<le> unat i)"
    using last_unat [OF assms] lwf_offset(4) [OF assms] by (auto simp: word_less_nat_alt)
  then show ?thesis by (simp add: RaftLog_CommitTo_def LastIndex_eq [OF assms] word_le_nat_alt)
qed

lemma committed_wf:
  assumes "lwf l" "unat (rl_committed l) \<le> unat i" "unat i < unat (lf l) + length (le l)"
  shows "lwf (l\<lparr>rl_committed := i\<rparr>)"
  using assms by (simp add: log_wf_def word_le_nat_alt)

text \<open>The search for the first conflict computes the length of the matching part.\<close>

lemma FindConflict_eq:
  assumes "lwf l" "contig a es" "unat (lf l) \<le> unat a" "unat a \<le> unat (lf l) + length (le l)"
    "unat a + length es < 2 ^ 64" "\<forall>e \<in> set es. e_term e \<noteq> 0"
  shows "RaftLog_FindConflict ops es l =
    Some (let m = match_len (drop (unat a - unat (lf l)) (le l)) es in if m = length es then 0 else a + of_nat m)"
  using assms(2-)
proof (induction es arbitrary: a)
  case (Cons e es)
  let ?k = "unat a - unat (lf l)"
  have e: "e_index e = a" "contig (a + 1) es" using Cons.prems(1) by auto
  have a1: "unat (a + 1) = Suc (unat a)" using Cons.prems(4) by (intro unat_Suc_bound_u64) simp
  show ?case
  proof (cases "unat a < unat (lf l) + length (le l)")
    case True
    then have d: "drop ?k (le l) = le l ! ?k # drop (Suc ?k) (le l)"
      using Cons.prems(2) by (intro Cons_nth_drop_Suc [symmetric]) auto
    have k1: "unat (a + 1) - unat (lf l) = Suc ?k" using a1 Cons.prems(2) by simp
    have "RaftLog_FindConflict ops es l =
      Some (let m = match_len (drop (Suc ?k) (le l)) es in if m = length es then 0 else a + 1 + of_nat m)"
      using Cons.IH [OF e(2)] a1 True Cons.prems k1 by simp
    then show ?thesis
      using MatchTerm_in [OF assms(1) Cons.prems(2) True] d
      by (auto simp: e(1) Let_def algebra_simps)
  next
    case False
    then have "RaftLog_MatchTerm ops a (e_term e) l = Some False"
      using Term_out [OF assms(1)] Cons.prems(5) by (simp add: RaftLog_MatchTerm_def)
    moreover have "drop ?k (le l) = []" using False by simp
    ultimately show ?thesis by (simp add: e(1) Let_def)
  qed
qed simp

text \<open>
  The append of a follower whose log agrees with the leader's at \<open>idx\<close>: the entries behind it are
  merged, and the commit index moves up to what the leader has committed of the entries sent.
\<close>

lemma MaybeAppend_eq:
  assumes "lwf l" "contig (idx + 1) es" "unat (lf l) \<le> Suc (unat idx)" "unat idx < unat (lf l) + length (le l)"
    "Suc (unat idx) + length es < 2 ^ 64" "\<forall>e \<in> set es. e_term e \<noteq> 0"
    "RaftLog_MatchTerm ops idx t l = Some True"
  defines "m \<equiv> match_len (drop (Suc (unat idx) - unat (lf l)) (le l)) es"
  shows "if m < length es \<and> Suc (unat idx) + m \<le> unat (rl_committed l)
    then RaftLog_MaybeAppend ops idx t c es l =
      Some (Inl (FatalError (Fmt ''entry {} conflict with committed entry {}''
             [idx + 1 + of_nat m, rl_committed l])), l)
    else \<exists>l'. RaftLog_MaybeAppend ops idx t c es l =
        Some (Inr \<lparr>mar_term_matched = True,
                    mar_conflict_index = (if m = length es then 0 else idx + 1 + of_nat m),
                    mar_last_index = idx + of_nat (length es)\<rparr>, l') \<and>
      lwf l' \<and> lf l' = lf l \<and> le l' = appended (lf l) (le l) idx es \<and>
      rl_committed l' = max (rl_committed l) (min c (idx + of_nat (length es))) \<and>
      rl_applied l' = rl_applied l \<and> rl_store l' = rl_store l"
proof -
  let ?k = "Suc (unat idx) - unat (lf l)"
  have a: "unat (idx + 1) = Suc (unat idx)" using assms(5) by (intro unat_Suc_bound_u64) simp
  have ml: "m \<le> length es" "m \<le> length (le l) - ?k"
    using match_len_le [of "drop ?k (le l)" es] by (simp_all add: m_def)
  have fc: "RaftLog_FindConflict ops es l = Some (if m = length es then 0 else idx + 1 + of_nat m)"
    using FindConflict_eq [OF assms(1,2) _ _ _ assms(6)] assms(3-5) a by (simp add: m_def Let_def)
  have am: "unat (idx + 1 + of_nat m) = Suc (unat idx) + m"
    using unat_add_of_nat_u64 [of "idx + 1" m] a ml(1) assms(5) by simp
  have nz: "idx + 1 + of_nat m \<noteq> 0" using am by (metis Suc_neq_Zero add_Suc unat_0)
  have ul: "unat (idx + of_nat (length es)) = unat idx + length es"
    using assms(5) by (intro unat_add_of_nat_u64) simp
  define new where "new = min c (idx + of_nat (length es))"
  have new: "unat new \<le> unat idx + length es"
    using ul min.cobounded2 [of c "idx + of_nat (length es)"] by (simp add: new_def word_le_nat_alt)
  have commit: "\<exists>l'. RaftLog_CommitTo ops new l1 = Some (Inr (), l') \<and> lwf l' \<and> lf l' = lf l \<and> le l' = le l1 \<and>
      rl_committed l' = max (rl_committed l) new \<and> rl_applied l' = rl_applied l \<and> rl_store l' = rl_store l"
    if "lwf l1" "lf l1 = lf l" "unat idx + length es < unat (lf l) + length (le l1)" "rl_committed l1 = rl_committed l"
      "rl_applied l1 = rl_applied l" "rl_store l1 = rl_store l" for l1
  proof (cases "unat new \<le> unat (rl_committed l)")
    case True
    then show ?thesis using that CommitTo_eq [OF that(1), of new] by (simp add: max_def u64_nat_simps)
  next
    case False
    then show ?thesis using that CommitTo_eq [OF that(1), of new] committed_wf [OF that(1), of new] new
      by (simp add: max_def u64_nat_simps)
  qed
  consider (keep) "m = length es" | (fatal) "m < length es" "Suc (unat idx) + m \<le> unat (rl_committed l)"
    | (append) "m < length es" "unat (rl_committed l) < Suc (unat idx) + m" using ml(1) by linarith
  then show ?thesis
  proof cases
    case keep
    have "unat idx + length es < unat (lf l) + length (le l)" using keep ml(2) assms(3,4) by linarith
    moreover have "le l = appended (lf l) (le l) idx es"
      using keep by (simp add: appended_def merge_entries_def m_def Let_def)
    ultimately show ?thesis
      using keep commit [OF assms(1)] fc assms(7)
      by (auto simp: RaftLog_MaybeAppend_def Let_def new_def)
  next
    case fatal
    then show ?thesis using fc assms(7) nz am by (simp add: RaftLog_MaybeAppend_def word_le_nat_alt)
  next
    case append
    let ?es = "drop m es" and ?c = "idx + 1 + of_nat m"
    have es: "?es \<noteq> []" using append by simp
    have ct: "contig ?c ?es" using contig_drop [OF assms(2) ml(1)] .
    have h: "e_index (hd ?es) = ?c" by (rule contig_hd [OF ct es])
    have cc: "rl_committed l < ?c" using append(2) am by (simp add: word_less_nat_alt)
    have up: "unat ?c \<le> unat (lf l) + length (le l)" using am ml(2) assms(3,4) by linarith
    have fit: "unat ?c + length ?es < 2 ^ 64" using am append(1) assms(5) by simp
    obtain u' where u': "RaftLog_Append ops ?es l = Some (?c + of_nat (length ?es) - 1, l\<lparr>rl_unstable := u'\<rparr>)"
        "lf (l\<lparr>rl_unstable := u'\<rparr>) = lf l"
        "le (l\<lparr>rl_unstable := u'\<rparr>) = take (unat ?c - unat (lf l)) (le l) @ ?es"
        "\<And>p. p < un_offset (rl_unstable l) \<Longrightarrow> p < ?c \<Longrightarrow> lwf (l\<lparr>rl_unstable := u', rl_persisted := p\<rparr>)"
      using Append_eq [OF assms(1) es] ct h cc up fit by auto
    define l1 where "l1 = l\<lparr>rl_unstable := u', rl_persisted := min (rl_persisted l) (?c - 1)\<rparr>"
    have "0 < ?c" using nz by (simp add: word_neq_0_conv)
    then have "lwf l1"
      using u'(4) [of "min (rl_persisted l) (?c - 1)"] lwf_parts(7) [OF assms(1)] u64_pred_less [of ?c]
      by (simp add: l1_def min_less_iff_disj)
    moreover have ap: "le l1 = appended (lf l) (le l) idx es"
    proof -
      have "unat ?c - unat (lf l) = ?k + m" using am assms(3) by simp
      then show ?thesis using u'(3) append(1)
        by (simp add: l1_def appended_def merge_entries_def m_def Let_def take_add)
    qed
    moreover have "unat idx + length es < unat (lf l) + length (le l1)"
      using ml append(1) assms(3,4) by (simp add: ap appended_def merge_entries_def m_def [symmetric] Let_def)
    moreover have "unat (?c - (idx + 1)) = m" using ml(1) assms(5) by (simp add: unat_of_nat_u64)
    ultimately show ?thesis
      using commit [of l1] fc assms(7) u'(1,2) append am nz
      by (auto simp: RaftLog_MaybeAppend_def Let_def new_def l1_def word_le_nat_alt)
  qed
qed

lemma MaybeAppend_mismatch:
  assumes "RaftLog_MatchTerm ops idx t l = Some False"
  shows "RaftLog_MaybeAppend ops idx t c es l =
    Some (Inr \<lparr>mar_term_matched = False, mar_conflict_index = 0, mar_last_index = 0\<rparr>, l)"
  using assms by (simp add: RaftLog_MaybeAppend_def)

text \<open>What is committed stays where it is.\<close>

lemma appended_committed:
  assumes "lwf l" "unat (lf l) \<le> Suc (unat idx)" "unat idx < unat (lf l) + length (le l)"
    "m = match_len (drop (Suc (unat idx) - unat (lf l)) (le l)) es"
    "m = length es \<or> unat (rl_committed l) < Suc (unat idx) + m"
  shows "take (Suc (unat (rl_committed l)) - unat (lf l)) (appended (lf l) (le l) idx es) =
         take (Suc (unat (rl_committed l)) - unat (lf l)) (le l)"
proof (cases "m = length es")
  case True
  then show ?thesis using assms(4) by (simp add: appended_def merge_entries_def Let_def)
next
  case False
  let ?k = "Suc (unat idx) - unat (lf l)"
  have ml: "m \<le> length (le l) - ?k" using match_len_le(2) [of "drop ?k (le l)" es] assms(4) by simp
  have "appended (lf l) (le l) idx es = take (?k + m) (le l) @ drop m es"
    using False assms(4) by (simp add: appended_def merge_entries_def Let_def take_add)
  moreover have "Suc (unat (rl_committed l)) - unat (lf l) \<le> ?k + m" using assms(2,5) False by auto
  moreover have "?k + m \<le> length (le l)" using ml assms(2,3) by auto
  ultimately show ?thesis by (simp add: min_absorb1)
qed

lemma MaybeCommit_eq:
  fixes i :: u64
  assumes "lwf l" "t \<noteq> 0"
  defines "b \<equiv> unat (rl_committed l) < unat i \<and> unat i < unat (lf l) + length (le l) \<and>
    e_term (le l ! (unat i - unat (lf l))) = t"
  defines "l' \<equiv> if b then l\<lparr>rl_committed := i\<rparr> else l"
  shows "RaftLog_MaybeCommit ops i t l = Some (b, l') \<and> lwf l'"
proof (cases "rl_committed l < i")
  case False
  then show ?thesis using assms(1) by (simp add: RaftLog_MaybeCommit_def word_less_nat_alt b_def l'_def)
next
  case True
  then have c: "unat (rl_committed l) < unat i" by (simp add: word_less_nat_alt)
  then have f: "unat (lf l) \<le> unat i" using lwf_parts(5) [OF assms(1)] by simp
  show ?thesis
  proof (cases "unat i < unat (lf l) + length (le l)")
    case True
    have "lwf (l\<lparr>rl_committed := i\<rparr>)" using committed_wf [OF assms(1)] c True by simp
    then show ?thesis
      using \<open>rl_committed l < i\<close> c True assms(1) Term_in [OF assms(1) f True] CommitTo_eq [OF assms(1), of i]
      by (simp add: RaftLog_MaybeCommit_def b_def l'_def)
  next
    case False
    then show ?thesis using \<open>rl_committed l < i\<close> c assms Term_out [OF assms(1)]
      by (simp add: RaftLog_MaybeCommit_def b_def l'_def)
  qed
qed

text \<open>The search for a hint stops at the first index, going down, whose term is not above the given one.\<close>

lemma FindConflictByTerm_loop_eq:
  assumes "lwf l" "unat idx < unat (lf l) + length (le l)"
    "\<forall>t'. RaftLog_Term ops 0 l = Some (Inr t') \<longrightarrow> t' \<le> t"
  shows "\<exists>i r. FindConflictByTerm_loop ops idx t l = Some (i, r) \<and> i \<le> idx \<and>
    (case r of Some t' \<Rightarrow> RaftLog_Term ops i l = Some (Inr t') \<and> t' \<le> t
             | None \<Rightarrow> RaftLog_Term ops i l = Some (Inl (StorageError Compacted))) \<and>
    (\<forall>j. i < j \<longrightarrow> j \<le> idx \<longrightarrow> (\<exists>t'. RaftLog_Term ops j l = Some (Inr t') \<and> t < t'))"
  using assms(2)
proof (induction "unat idx" arbitrary: idx rule: less_induct)
  case less
  show ?case
  proof (cases "\<exists>t'. RaftLog_Term ops idx l = Some (Inr t') \<and> t < t'")
    case False
    then show ?thesis using Term_total [OF assms(1), of idx]
      by (subst FindConflictByTerm_loop.simps) (auto simp: not_less)
  next
    case True
    then obtain t' where t': "RaftLog_Term ops idx l = Some (Inr t')" "t < t'" by blast
    have nz: "idx \<noteq> 0"
    proof
      assume "idx = 0"
      then have "t' \<le> t" using assms(3) t'(1) by simp
      then show False using t'(2) by (simp add: leD)
    qed
    then have p: "unat (idx - 1) = unat idx - 1" "0 < unat idx"
      by (simp_all add: unat_sub_one_u64 unat_gt_0)
    obtain i r where ih: "FindConflictByTerm_loop ops (idx - 1) t l = Some (i, r)" "i \<le> idx - 1"
      "case r of Some t' \<Rightarrow> RaftLog_Term ops i l = Some (Inr t') \<and> t' \<le> t
             | None \<Rightarrow> RaftLog_Term ops i l = Some (Inl (StorageError Compacted))"
      "\<forall>j. i < j \<longrightarrow> j \<le> idx - 1 \<longrightarrow> (\<exists>t'. RaftLog_Term ops j l = Some (Inr t') \<and> t < t')"
    proof -
      have "unat (idx - 1) < unat idx" "unat (idx - 1) < unat (lf l) + length (le l)" using less.prems p by auto
      from less.hyps [OF this] that show thesis by blast
    qed
    have "\<exists>t'. RaftLog_Term ops j l = Some (Inr t') \<and> t < t'" if "i < j" "j \<le> idx" for j
    proof (cases "j = idx")
      case False
      then have "j \<le> idx - 1" using that p by (simp add: u64_nat_simps)
      then show ?thesis using ih(4) that by blast
    qed (use True in simp)
    moreover have "i \<le> idx" using ih(2) p by (simp add: u64_nat_simps)
    moreover have "FindConflictByTerm_loop ops idx t l = Some (i, r)"
      using ih(1) t' by (subst FindConflictByTerm_loop.simps) simp
    ultimately show ?thesis using ih(3) by blast
  qed
qed

lemma LastTerm_eq:
  assumes "lwf l" "le l \<noteq> []"
  shows "RaftLog_LastTerm ops l = Some (e_term (last (le l)))"
proof -
  let ?i = "lf l + of_nat (length (le l)) - 1"
  have n: "0 < length (le l)" using assms(2) by simp
  then have "unat (lf l) \<le> unat ?i" "unat ?i < unat (lf l) + length (le l)"
    "unat ?i - unat (lf l) = length (le l) - 1"
    unfolding last_unat [OF assms(1)] by linarith+
  from Term_in [OF assms(1) this(1,2)] this(3) show ?thesis
    using assms(2) by (simp add: RaftLog_LastTerm_def LastIndex_eq [OF assms(1)] last_conv_nth)
qed

lemma IsUpToDate_eq:
  assumes "lwf l" "le l \<noteq> []"
  shows "RaftLog_IsUpToDate ops i t l =
    Some (e_term (last (le l)) < t \<or>
          t = e_term (last (le l)) \<and> unat (lf l) + length (le l) \<le> Suc (unat i))"
proof -
  have "(lf l + of_nat (length (le l)) - 1 \<le> i) = (unat (lf l) + length (le l) \<le> Suc (unat i))"
    using last_unat [OF assms(1)] lwf_offset(4) [OF assms(1)] by (auto simp: word_le_nat_alt)
  then show ?thesis
    by (auto simp: RaftLog_IsUpToDate_def LastTerm_eq [OF assms] LastIndex_eq [OF assms(1)])
qed

text \<open>Reading a range page by page: the callback sees every entry of the range, in order.\<close>

lemma Scan_eq:
  assumes "lwf l" "unat (lf l) \<le> unat low" "unat high \<le> unat (lf l) + length (le l)" "low \<le> high"
    "\<not> GetEntriesContext_CanAsync ctx" "\<forall>b a. fst (f b a)"
  shows "\<exists>bs l'. RaftLog_Scan sz ops low high page ctx f (l, a) = Some (Inr (), l', fold (\<lambda>b a. snd (f b a)) bs a) \<and>
    concat bs = sub_entries (lf l) (le l) low high \<and> [] \<notin> set bs \<and> lwf l' \<and> lf l' = lf l \<and> le l' = le l"
  using assms(1-4)
proof (induction "unat high - unat low" arbitrary: low l a rule: less_induct)
  case less
  show ?case
  proof (cases "low < high")
    case False
    then have "low = high" using less.prems(4) by simp
    then show ?thesis using less.prems(1)
      by (subst RaftLog_Scan.simps) (auto simp: sub_entries_def intro: exI [of _ "[]"])
  next
    case True
    let ?es = "sub_entries (lf l) (le l) low high"
    define bt where "bt = LimitSize sz (Some page) ?es"
    define low' where "low' = low + of_nat (length bt)"
    have lh: "unat low < unat high" using True by (simp add: word_less_nat_alt)
    have len: "length ?es = unat high - unat low" by (rule length_sub_entries [OF less.prems(2,3)])
    then have ne: "?es \<noteq> []" using lh by auto
    have bt: "bt \<noteq> []" "length bt \<le> unat high - unat low" "bt = take (length bt) ?es"
      using ne length_LimitSize [of sz "Some page" ?es] len LimitSize_take [of sz "Some page" ?es]
      by (simp_all add: bt_def)
    have n: "0 < length bt" using bt(1) by simp
    have low': "unat low' = unat low + length bt"
      unfolding low'_def using bt(2) lh unat_lt_max [of high] by (intro unat_add_of_nat_u64) linarith
    obtain st where st: "inv st" "first st = first (rl_store l)" "ents st = ents (rl_store l)"
        "RaftLog_Slice sz ops low high (Some page) ctx l = Some (Inr bt, l\<lparr>rl_store := st\<rparr>)"
      using Slice_eq [OF less.prems(1,2) True less.prems(3), of "Some page" ctx] assms(5) by (auto simp: bt_def)
    let ?l = "l\<lparr>rl_store := st\<rparr>"
    have l: "lwf ?l" "lf ?l = lf l" "le ?l = le l" using lwf_store_cong [OF less.prems(1) st(1-3)] by auto
    obtain bs l' where ih: "RaftLog_Scan sz ops low' high page ctx f (?l, snd (f bt a)) =
          Some (Inr (), l', fold (\<lambda>b a. snd (f b a)) bs (snd (f bt a)))"
        "concat bs = sub_entries (lf l) (le l) low' high" "[] \<notin> set bs" "lwf l'" "lf l' = lf l" "le l' = le l"
    proof -
      have "unat high - unat low' < unat high - unat low" "unat (lf ?l) \<le> unat low'"
        "unat high \<le> unat (lf ?l) + length (le ?l)" "low' \<le> high"
        using n bt(2) lh less.prems(2,3) unfolding l(2,3) low' word_le_nat_alt by linarith+
      from less.hyps [OF this(1) l(1) this(2-), of "snd (f bt a)"] that show thesis unfolding l by blast
    qed
    have "bt @ sub_entries (lf l) (le l) low' high = ?es"
    proof -
      have "bt = sub_entries (lf l) (le l) low low'"
        using bt(2,3) low' by (simp add: sub_entries_def min_absorb1)
      then show ?thesis using sub_entries_split [of "lf l" low low' high "le l"] less.prems(2) low' bt(2) lh by simp
    qed
    moreover have "RaftLog_Scan sz ops low high page ctx f (l, a) =
        Some (Inr (), l', fold (\<lambda>b a. snd (f b a)) (bt # bs) a)"
      using ih(1) st(4) True bt(1) assms(6)
      by (subst RaftLog_Scan.simps) (simp add: low'_def case_prod_unfold Let_def)
    ultimately show ?thesis using ih(2-) bt(1) by (intro exI [of _ "bt # bs"] exI [of _ l']) auto
  qed
qed

lemma AllEntries_eq:
  assumes "lwf l"
  shows "\<exists>st. RaftLog_AllEntries sz ops l = Some (le l, l\<lparr>rl_store := st\<rparr>)"
proof -
  let ?n = "unat (lf l) + length (le l)"
  have up: "lf l + of_nat (length (le l)) - 1 + 1 = lf l + of_nat (length (le l))" by simp
  have u: "unat (lf l + of_nat (length (le l))) = ?n" by (rule unat_add_of_nat_u64 [OF lwf_fits [OF assms]])
  show ?thesis
  proof (cases "le l = []")
    case True
    then have "lf l - 1 < lf l" using u64_pred_less [of "lf l"] lwf_offset(4) [OF assms]
      by (simp add: word_less_nat_alt)
    then show ?thesis using True
      by (subst RaftLog_AllEntries.simps)
        (auto simp: RaftLog_GetEntries_def FirstIndex_eq [OF assms] LastIndex_eq [OF assms]
          intro: exI [of _ "rl_store l"])
  next
    case False
    then have n: "0 < length (le l)" by simp
    then have "lf l < lf l + of_nat (length (le l))" using u by (simp add: word_less_nat_alt)
    moreover have "\<not> lf l + of_nat (length (le l)) - 1 < lf l"
      using n unfolding word_less_nat_alt last_unat [OF assms] by linarith
    ultimately show ?thesis
      using Slice_eq [OF assms order_refl, of "lf l + of_nat (length (le l))" None "EmptyCtx False"] u up
      by (subst RaftLog_AllEntries.simps)
        (auto simp: RaftLog_GetEntries_def FirstIndex_eq [OF assms] LastIndex_eq [OF assms] LimitSize_def
          sub_entries_def)
  qed
qed

lemma NextEntriesSince_eq:
  fixes since :: u64
  assumes "lwf l"
  defines "low \<equiv> max (since + 1) (lf l)"
  defines "high \<equiv> RaftLog_AppliedIndexUpperBound l + 1"
  shows "\<exists>st. inv st \<and> first st = first (rl_store l) \<and> ents st = ents (rl_store l) \<and>
    RaftLog_NextEntriesSince sz ops since mx l =
      Some (if low < high then Some (LimitSize sz mx (sub_entries (lf l) (le l) low high)) else None,
            l\<lparr>rl_store := st\<rparr>)"
proof (cases "low < high")
  case False
  then show ?thesis using lwf_parts(1) [OF assms(1)]
    by (intro exI [of _ "rl_store l"])
      (simp add: RaftLog_NextEntriesSince_def FirstIndex_eq [OF assms(1)] Let_def low_def high_def
        del: max_less_iff_conj)
next
  case True
  let ?b = "RaftLog_AppliedIndexUpperBound l"
  have "?b \<le> rl_committed l" by (simp add: RaftLog_AppliedIndexUpperBound_def)
  then have b: "unat ?b < unat (lf l) + length (le l)"
    using lwf_parts(6) [OF assms(1)] by (simp add: word_le_nat_alt)
  then have "unat high \<le> unat (lf l) + length (le l)"
    using unat_Suc_bound_u64 [of ?b] lwf_fits [OF assms(1)] by (simp add: high_def)
  moreover have "unat (lf l) \<le> unat low" by (simp add: low_def word_le_nat_alt [symmetric])
  ultimately obtain st where "inv st" "first st = first (rl_store l)" "ents st = ents (rl_store l)"
      "RaftLog_Slice sz ops low high mx GenReadyCtx l =
         Some (Inr (LimitSize sz mx (sub_entries (lf l) (le l) low high)), l\<lparr>rl_store := st\<rparr>)"
    using Slice_eq [OF assms(1) _ True, of mx GenReadyCtx] by auto
  then show ?thesis using True
    by (intro exI [of _ st])
      (simp add: RaftLog_NextEntriesSince_def FirstIndex_eq [OF assms(1)] Let_def low_def high_def
        del: max_less_iff_conj)
qed

abbreviation ext :: "'s RaftLog \<Rightarrow> 's RaftLog \<Rightarrow> bool" where
  "ext \<equiv> log_extends inv first ents"

text \<open>Every operation of the log extends it.\<close>

lemma MaybeAppend_ext:
  assumes "lwf l" "rl_committed l \<le> idx" "t \<noteq> 0 \<or> idx = 0" "contig (idx + 1) es"
    "Suc (unat idx) + length es < 2 ^ 64" "\<forall>e \<in> set es. e_term e \<noteq> 0"
    "RaftLog_MaybeAppend ops idx t c es l = Some (r, l')"
  shows "ext l l'"
proof (cases "RaftLog_MatchTerm ops idx t l = Some True")
  case False
  then have "RaftLog_MatchTerm ops idx t l = Some False" using MatchTerm_total [OF assms(1), of idx t] by auto
  then show ?thesis using MaybeAppend_mismatch assms(1,7) by (simp add: log_extends_refl)
next
  case True
  let ?m = "match_len (drop (Suc (unat idx) - unat (lf l)) (le l)) es"
  have low: "unat (lf l) \<le> Suc (unat idx)"
    using lwf_parts(5) [OF assms(1)] assms(2) by (simp add: word_le_nat_alt)
  have high: "unat idx < unat (lf l) + length (le l)"
  proof (rule ccontr)
    assume "\<not> unat idx < unat (lf l) + length (le l)"
    then have "t = 0" "idx \<noteq> 0" using True Term_out [OF assms(1), of idx] lwf_offset(4) [OF assms(1)]
      by (auto simp: RaftLog_MatchTerm_def)
    then show False using assms(3) by simp
  qed
  note eq = MaybeAppend_eq [OF assms(1,4) low high assms(5,6) True, of c]
  show ?thesis
  proof (cases "?m < length es \<and> Suc (unat idx) + ?m \<le> unat (rl_committed l)")
    case True
    then have "l' = l" using eq assms(7) by simp
    then show ?thesis using assms(1) by (simp add: log_extends_refl)
  next
    case False
    then have ok: "?m = length es \<or> unat (rl_committed l) < Suc (unat idx) + ?m"
      using match_len_le(1) [of "drop (Suc (unat idx) - unat (lf l)) (le l)" es] by linarith
    from False eq assms(7) have l': "lwf l'" "lf l' = lf l" "le l' = appended (lf l) (le l) idx es"
        "rl_committed l' = max (rl_committed l) (min c (idx + of_nat (length es)))"
      unfolding if_not_P [OF False] by auto
    show ?thesis
      by (rule log_extends_same_first [OF l'(1) _ l'(2)])
        (use l'(3,4) appended_committed [OF assms(1) low high refl ok] in simp_all)
  qed
qed

lemma Append_ext:
  assumes "lwf l" "RaftLog_LastIndex ops l = Some i" "contig (i + 1) es" "Suc (unat i) + length es < 2 ^ 64"
    "RaftLog_Append ops es l = Some (j, l')"
  shows "ext l l' \<and> le l' = le l @ es \<and> lf l' = lf l"
proof (cases "es = []")
  case True
  then show ?thesis using assms(1,2,5) by (auto simp: RaftLog_Append_def log_extends_refl)
next
  case False
  have i: "i = lf l + of_nat (length (le l)) - 1" using LastIndex_eq [OF assms(1)] assms(2) by simp
  have u: "unat (i + 1) = unat (lf l) + length (le l)"
    using unat_add_of_nat_u64 [OF lwf_fits [OF assms(1)]] by (simp add: i)
  have h: "e_index (hd es) = i + 1" by (rule contig_hd [OF assms(3) False])
  have c: "rl_committed l < i + 1" using lwf_parts(6) [OF assms(1)] u by (simp add: word_less_nat_alt)
  have fit: "unat (i + 1) + length es < 2 ^ 64" using assms(4) unat_Suc_bound_u64 [of i] by simp
  obtain u' where u': "l' = l\<lparr>rl_unstable := u'\<rparr>" "lf l' = lf l"
      "le l' = take (unat (i + 1) - unat (lf l)) (le l) @ es"
      "\<And>p. p < un_offset (rl_unstable l) \<Longrightarrow> p < i + 1 \<Longrightarrow> lwf (l\<lparr>rl_unstable := u', rl_persisted := p\<rparr>)"
    using Append_eq [OF assms(1) False] assms(3,5) h c fit u by auto
  have "un_offset (rl_unstable l) \<le> i + 1" using lwf_offset(2) [OF assms(1)] u by (simp add: word_le_nat_alt)
  then have "lwf (l\<lparr>rl_unstable := u', rl_persisted := rl_persisted l\<rparr>)"
    using u'(4) [of "rl_persisted l"] lwf_parts(7) [OF assms(1)] by (auto intro: order_less_le_trans)
  moreover have "l\<lparr>rl_unstable := u', rl_persisted := rl_persisted l\<rparr> = l'" using u'(1) by simp
  ultimately have "lwf l'" by simp
  moreover have "le l' = le l @ es" using u'(3) u by simp
  moreover have "Suc (unat (rl_committed l)) - unat (lf l) \<le> length (le l)"
    using lwf_parts(6) [OF assms(1)] by simp
  ultimately show ?thesis
    using u'(1,2) log_extends_same_first [of inv first ents l' l] by simp
qed

lemma committed_ext:
  assumes "lwf l" "unat (rl_committed l) \<le> unat i" "unat i < unat (lf l) + length (le l)"
  shows "ext l (l\<lparr>rl_committed := i\<rparr>)"
  by (rule log_extends_same_first) (use committed_wf [OF assms] assms(2) in \<open>simp_all add: word_le_nat_alt\<close>)

lemma CommitTo_ext: "lwf l \<Longrightarrow> RaftLog_CommitTo ops i l = Some (r, l') \<Longrightarrow> ext l l'"
  by (auto simp: CommitTo_eq log_extends_refl intro: committed_ext split: if_splits)

lemma MaybeCommit_ext: "lwf l \<Longrightarrow> RaftLog_MaybeCommit ops i t l = Some (b, l') \<Longrightarrow> ext l l'"
  by (auto simp: RaftLog_MaybeCommit_def log_extends_refl dest: CommitTo_ext split: if_splits elim!: bind_SomeE)

lemma cursor_ext:
  assumes "lwf l" "lwf l'" "rl_store l' = rl_store l" "rl_unstable l' = rl_unstable l"
    "rl_committed l' = rl_committed l"
  shows "ext l l'"
  by (rule log_extends_same_first) (use assms in \<open>simp_all add: log_first_def log_ents_def cong: option.case_cong\<close>)

lemma AppliedTo_ext:
  assumes "lwf l" "RaftLog_AppliedTo i l = Some l'"
  shows "ext l l'"
proof -
  have "l' = l \<or> l' = l\<lparr>rl_applied := i\<rparr> \<and> i \<le> rl_committed l"
    using assms(2) by (auto simp: RaftLog_AppliedTo_def RaftLog_AppliedToUnchecked_def not_less split: if_splits)
  then have "lwf l'" using assms(1) by (auto simp: log_wf_def)
  then show ?thesis using assms(2) cursor_ext [OF assms(1)]
    by (auto simp: RaftLog_AppliedTo_def RaftLog_AppliedToUnchecked_def split: if_splits)
qed

lemma persisted_ext: "lwf l \<Longrightarrow> p < un_offset (rl_unstable l) \<Longrightarrow> ext l (l\<lparr>rl_persisted := p\<rparr>)"
  by (rule cursor_ext) (simp_all add: log_wf_def)

lemma MaybePersist_ext:
  assumes "lwf l" "RaftLog_MaybePersist ops i t l = Some (b, l')"
  shows "ext l l'"
proof (cases "l' = l")
  case False
  then have "l' = l\<lparr>rl_persisted := i\<rparr>"
    "i < (case un_snapshot (rl_unstable l) of Some sn \<Rightarrow> sn_index sn | None \<Rightarrow> un_offset (rl_unstable l))"
    using assms(2) by (auto simp: RaftLog_MaybePersist_def Let_def split: if_splits elim!: bind_SomeE)
  moreover have "sn_index sn < un_offset (rl_unstable l)" if "un_snapshot (rl_unstable l) = Some sn" for sn
    using that lwf_parts(2) [OF assms(1)] by (auto simp: unstable_wf_def dest: u64_lt_succ)
  ultimately show ?thesis
    by (auto intro!: persisted_ext [OF assms(1)] split: option.splits dest: order_less_trans)
qed (use assms(1) in \<open>simp add: log_extends_refl\<close>)

lemma MaybePersistSnapshot_ext:
  assumes "lwf l" "RaftLog_MaybePersistSnapshot i l = Some (b, l')"
  shows "ext l l'"
  using assms by (auto simp: RaftLog_MaybePersistSnapshot_def log_extends_refl not_le
      intro!: persisted_ext split: if_splits elim!: bind_SomeE)

lemma Restore_ext:
  assumes "lwf l" "sn_index sn < u64_max" "RaftLog_Restore sn l = (r, l')"
  shows "ext l l'"
proof (cases "sn_index sn < rl_committed l")
  case True
  then show ?thesis using assms(1,3) by (simp add: RaftLog_Restore_def log_extends_refl)
next
  case False
  then have c: "rl_committed l \<le> sn_index sn" by simp
  have l': "l' = l\<lparr>rl_persisted := min (rl_persisted l) (rl_committed l), rl_committed := sn_index sn,
      rl_unstable := Unstable_Restore sn (rl_unstable l)\<rparr>"
    using assms(3) False by (auto simp: RaftLog_Restore_def Let_def min_def not_less split: if_splits)
  have s1: "sn_index sn < sn_index sn + 1" "unat (sn_index sn + 1) = Suc (unat (sn_index sn))"
    using u64_lt_succ [OF assms(2)] unat_Suc_u64 [OF assms(2)] by auto
  have f: "lf l' = sn_index sn + 1" "le l' = []" by (simp_all add: l' Unstable_Restore_def log_first_def log_ents_def)
  have "min (rl_persisted l) (rl_committed l) < sn_index sn + 1"
    using c s1(1) by (auto simp: min_less_iff_disj intro: order_le_less_trans)
  then have "lwf l'" using Restore_wf [OF assms(2)] s1 f c lwf_parts(1,8) [OF assms(1)]
    by (auto simp: l' log_wf_def Unstable_Restore_def intro: order_trans)
  moreover have "unat (lf l) \<le> Suc (unat (sn_index sn))"
    using lwf_parts(5) [OF assms(1)] c by (simp add: word_le_nat_alt)
  ultimately show ?thesis using c s1(2) f by (auto simp: log_extends_def l' word_le_nat_alt)
qed

end

section \<open>The log over MemoryStorage\<close>

abbreviation mlog_first :: "MemoryStorage RaftLog \<Rightarrow> u64" where
  "mlog_first \<equiv> log_first MemoryStorage_first_index"

abbreviation mlog_ents :: "MemoryStorage RaftLog \<Rightarrow> entry list" where
  "mlog_ents \<equiv> log_ents MemoryStorage_first_index ms_entries"

abbreviation mlog_wf :: "MemoryStorage RaftLog \<Rightarrow> bool" where
  "mlog_wf \<equiv> log_wf mem_wf MemoryStorage_first_index ms_entries"

text \<open>
  The life of a log: the operations of the log itself, and the moments at which the application has
  written the unstable entries or the pending snapshot to the storage and reports it, or compacts
  what is applied and persisted.
\<close>

inductive log_step :: "(entry \<Rightarrow> u64) \<Rightarrow> MemoryStorage RaftLog \<Rightarrow> MemoryStorage RaftLog \<Rightarrow> bool" for sz where
  maybe_append: "rl_committed l \<le> idx \<Longrightarrow> t \<noteq> 0 \<or> idx = 0 \<Longrightarrow> contig (idx + 1) es \<Longrightarrow>
     Suc (unat idx) + length es < 2 ^ 64 \<Longrightarrow> \<forall>e \<in> set es. e_term e \<noteq> 0 \<Longrightarrow>
     RaftLog_MaybeAppend (memory_ops sz) idx t c es l = Some (ra, l') \<Longrightarrow> log_step sz l l'"
| append: "RaftLog_LastIndex (memory_ops sz) l = Some i \<Longrightarrow> contig (i + 1) es \<Longrightarrow>
     Suc (unat i) + length es < 2 ^ 64 \<Longrightarrow> RaftLog_Append (memory_ops sz) es l = Some (j, l') \<Longrightarrow> log_step sz l l'"
| commit_to: "RaftLog_CommitTo (memory_ops sz) i l = Some (r, l') \<Longrightarrow> log_step sz l l'"
| maybe_commit: "RaftLog_MaybeCommit (memory_ops sz) i t l = Some (b, l') \<Longrightarrow> log_step sz l l'"
| applied_to: "RaftLog_AppliedTo i l = Some l' \<Longrightarrow> log_step sz l l'"
| restore: "sn_index sn < u64_max \<Longrightarrow> RaftLog_Restore sn l = (r, l') \<Longrightarrow> log_step sz l l'"
| maybe_persist: "RaftLog_MaybePersist (memory_ops sz) i t l = Some (b, l') \<Longrightarrow> log_step sz l l'"
| maybe_persist_snapshot: "RaftLog_MaybePersistSnapshot i l = Some (b, l') \<Longrightarrow> log_step sz l l'"
| persist_entries: "MemoryStorage_Append (un_entries (rl_unstable l)) (rl_store l) = (r, st) \<Longrightarrow>
     RaftLog_StableEntries i t (l\<lparr>rl_store := st\<rparr>) = Some l' \<Longrightarrow> log_step sz l l'"
| persist_snapshot: "un_snapshot (rl_unstable l) = Some sn \<Longrightarrow>
     MemoryStorage_ApplySnapshot sn (rl_store l) = (Inr (), st) \<Longrightarrow>
     RaftLog_StableSnapshot i (l\<lparr>rl_store := st\<rparr>) = Some l' \<Longrightarrow> log_step sz l l'"
| compact: "un_snapshot (rl_unstable l) = None \<Longrightarrow> i \<le> rl_applied l \<Longrightarrow> i < un_offset (rl_unstable l) \<Longrightarrow>
     MemoryStorage_Compact i (rl_store l) = Some (r, st) \<Longrightarrow> log_step sz l (l\<lparr>rl_store := st\<rparr>)"

lemma mlog_persist_entries:
  assumes "mlog_wf l" "MemoryStorage_Append (un_entries (rl_unstable l)) (rl_store l) = (r, st)"
    "RaftLog_StableEntries i t (l\<lparr>rl_store := st\<rparr>) = Some l'"
  shows "mlog_wf l' \<and> mlog_first l' = mlog_first l \<and> mlog_ents l' = mlog_ents l \<and>
         rl_committed l' = rl_committed l \<and> un_entries (rl_unstable l') = []"
proof -
  let ?u = "rl_unstable l" and ?s = "rl_store l"
  let ?k = "unat (un_offset ?u) - unat (MemoryStorage_first_index ?s)"
  obtain u' where u': "Unstable_StableEntries i (ucast t) ?u = Some u'"
      "l' = l\<lparr>rl_store := st, rl_unstable := u'\<rparr>"
    using assms(3) by (auto simp: RaftLog_StableEntries_def elim!: bind_SomeE)
  have uwf: "unstable_wf ?u" using assms(1) by (simp add: log_wf_def)
  note u = StableEntries_wf [OF uwf u'(1)]
  have h: "e_index (hd (un_entries ?u)) = un_offset ?u"
    using uwf u contig_hd [of "un_offset ?u" "un_entries ?u"] by (simp add: unstable_wf_def)
  have wf: "mem_wf ?s" "MemoryStorage_first_index ?s \<le> un_offset ?u"
    "unat (un_offset ?u) \<le> unat (MemoryStorage_first_index ?s) + length (ms_entries ?s)"
    using assms(1) u by (simp_all add: log_wf_def)
  have st: "mem_wf st" "ms_entries st = take ?k (ms_entries ?s) @ un_entries ?u"
      "MemoryStorage_first_index st = MemoryStorage_first_index ?s"
    using mem_MayAppend [OF wf(1), of "un_entries ?u"] u h uwf wf(2,3) assms(2)
    by (auto simp: unstable_wf_def MemoryStorage_Append_def word_le_nat_alt)
  have off: "unat (un_offset u') = unat (un_offset ?u) + length (un_entries ?u)"
    using u unstable_upper [OF uwf] by simp
  have len: "length (take ?k (ms_entries ?s)) = ?k" using wf(2,3) by (simp add: word_le_nat_alt)
  have view: "mlog_first l' = mlog_first l" "mlog_ents l' = mlog_ents l"
    using u u'(2) st off wf(2) len by (simp_all add: log_first_def log_ents_def word_le_nat_alt)
  have "un_offset ?u \<le> un_offset u'" using off by (simp add: word_le_nat_alt)
  then have "mlog_wf l'"
    using assms(1) view u u'(2) st off wf(2) len unfolding log_wf_def
    by (auto simp: word_le_nat_alt intro: order_less_le_trans)
  then show ?thesis using view u u'(2) by simp
qed

lemma mlog_persist_snapshot:
  assumes "mlog_wf l" "un_snapshot (rl_unstable l) = Some sn"
    "MemoryStorage_ApplySnapshot sn (rl_store l) = (Inr (), st)"
    "RaftLog_StableSnapshot i (l\<lparr>rl_store := st\<rparr>) = Some l'"
  shows "mlog_wf l' \<and> mlog_first l' = mlog_first l \<and> mlog_ents l' = mlog_ents l \<and>
         rl_committed l' = rl_committed l \<and> un_snapshot (rl_unstable l') = None"
proof -
  let ?u = "rl_unstable l"
  have uwf: "unstable_wf ?u" using assms(1) by (simp add: log_wf_def)
  then have o: "un_offset ?u = sn_index sn + 1" "sn_index sn < u64_max"
    using assms(2) by (auto simp: unstable_wf_def intro: u64_succ_below_max)
  obtain u' where u': "Unstable_StableSnapshot i ?u = Some u'" "l' = l\<lparr>rl_store := st, rl_unstable := u'\<rparr>"
    using assms(4) by (auto simp: RaftLog_StableSnapshot_def elim!: bind_SomeE)
  note u = StableSnapshot_wf [OF uwf u'(1)]
  have "mem_wf st" using mem_ApplySnapshot_wf [OF _ o(2) assms(3)] assms(1) by (simp add: log_wf_def)
  moreover have st: "ms_entries st = []" "MemoryStorage_first_index st = un_offset ?u"
    using assms(3) o by (auto simp: MemoryStorage_ApplySnapshot_def Let_def MemoryStorage_first_index_def
        update_hard_state_def MemoryStorage_SetConfState_def split: if_splits)
  moreover have view: "mlog_first l' = mlog_first l" "mlog_ents l' = mlog_ents l"
    using u u'(2) st o assms(2) by (simp_all add: log_first_def log_ents_def)
  ultimately show ?thesis using assms(1) u u'(2) by (auto simp: log_wf_def)
qed

lemma mem_Compact_eq:
  assumes "mem_wf s" "unat i < unat (MemoryStorage_first_index s) + length (ms_entries s)"
    "MemoryStorage_Compact i s = Some (r, s')"
  shows "MemoryStorage_first_index s' = max (MemoryStorage_first_index s) i \<and>
         ms_entries s' = drop (unat i - unat (MemoryStorage_first_index s)) (ms_entries s)"
proof (cases "i \<le> MemoryStorage_first_index s")
  case True
  then show ?thesis using assms(3) by (simp add: MemoryStorage_Compact_def max_def u64_nat_simps)
next
  case False
  let ?f = "MemoryStorage_first_index s" and ?k = "unat i - unat (MemoryStorage_first_index s)"
  have i: "unat ?f < unat i" "?f < i" using False by (simp_all add: u64_nat_simps)
  have ne: "ms_entries s \<noteq> []" using assms(2) i(1) by auto
  have h: "e_index (hd (ms_entries s)) = ?f" using ne by (simp add: MemoryStorage_first_index_def)
  have k: "unat (i - ?f) = ?k" "?k < length (ms_entries s)"
    using i unat_sub_u64 [of ?f i] assms(2) by (simp_all add: less_imp_le)
  have top: "\<not> MemoryStorage_last_index s + 1 < i"
    using mem_last(3) [OF assms(1)] assms(2) by (simp add: word_less_nat_alt)
  have s': "s' = s\<lparr>ms_entries := drop ?k (ms_entries s)\<rparr>"
    using assms(3) False ne h k top by (simp add: MemoryStorage_Compact_def Let_def)
  have "e_index (hd (drop ?k (ms_entries s))) = ?f + of_nat ?k"
    using contig_nth [of ?f "ms_entries s" ?k] assms(1) k(2) by (simp add: mem_wf_def hd_drop_conv_nth)
  also have "\<dots> = i" using unat_add_of_nat_u64 [of ?f ?k] i(1) unat_lt_max [of i] by (simp add: u64_eq_iff)
  finally show ?thesis using s' k(2) i(2) by (simp add: MemoryStorage_first_index_def max_absorb2 less_imp_le)
qed

lemma mlog_compact:
  assumes "mlog_wf l" "un_snapshot (rl_unstable l) = None" "i \<le> rl_applied l" "i < un_offset (rl_unstable l)"
    "MemoryStorage_Compact i (rl_store l) = Some (r, st)"
  shows "log_extends mem_wf MemoryStorage_first_index ms_entries l (l\<lparr>rl_store := st\<rparr>)"
proof -
  let ?s = "rl_store l" and ?u = "rl_unstable l" and ?l = "l\<lparr>rl_store := st\<rparr>"
  let ?f = "unat (MemoryStorage_first_index ?s)" and ?o = "unat (un_offset ?u)"
  let ?k = "unat i - ?f"
  have wf: "mem_wf ?s" "?f \<le> ?o" "?o \<le> ?f + length (ms_entries ?s)" "unat i < ?o"
      "unat i \<le> unat (rl_committed l)"
    using assms(1-4) by (auto simp: log_wf_def u64_nat_simps)
  have st: "mem_wf st" by (rule mem_Compact_wf [OF wf(1) assms(5)])
  have eq: "MemoryStorage_first_index st = max (MemoryStorage_first_index ?s) i"
    "ms_entries st = drop ?k (ms_entries ?s)"
    using mem_Compact_eq [OF wf(1) _ assms(5)] wf(3,4) by auto
  have fst: "unat (MemoryStorage_first_index st) = ?f + ?k"
    using eq(1) by (auto simp: max_def word_le_nat_alt)
  have "?o - (?f + ?k) = (?o - ?f) - ?k" by simp
  then have "take (?o - (?f + ?k)) (drop ?k (ms_entries ?s)) @ un_entries ?u =
        drop ?k (take (?o - ?f) (ms_entries ?s) @ un_entries ?u)"
    using wf(2-4) by (simp add: drop_take)
  then have ents: "mlog_ents ?l = drop ?k (mlog_ents l)" and fst': "unat (mlog_first ?l) = unat (mlog_first l) + ?k"
    using assms(2) eq(2) fst by (simp_all add: log_ents_def log_first_def)
  have len: "?k \<le> length (mlog_ents l)" using wf(2-4) assms(2) by (simp add: log_ents_def)
  have "?f + ?k \<le> ?o" "?f + ?k \<le> Suc (unat (rl_committed l))"
    using wf assms(1,2) by (auto simp: log_wf_def log_first_def)
  then have "mlog_wf ?l"
    using assms(1,2) st ents fst fst' eq(2) len wf(2-4) unfolding log_wf_def
    by (auto simp: word_le_nat_alt log_first_def)
  moreover have "mlog_ents ?l ! (j - unat (mlog_first ?l)) = mlog_ents l ! (j - unat (mlog_first l))"
    if "unat (mlog_first ?l) \<le> j" for j
    using that ents fst' len by (simp add: add.commute)
  ultimately show ?thesis using fst' by (simp add: log_extends_def)
qed

lemma log_step_extends:
  assumes "log_step sz l l'" "mlog_wf l"
  shows "log_extends mem_wf MemoryStorage_first_index ms_entries l l'"
  using assms
proof cases
  case maybe_append
  then show ?thesis using mem.MaybeAppend_ext [OF assms(2)] by blast
next
  case append
  then show ?thesis using mem.Append_ext [OF assms(2)] by blast
next
  case commit_to
  then show ?thesis using mem.CommitTo_ext [OF assms(2)] by blast
next
  case maybe_commit
  then show ?thesis using mem.MaybeCommit_ext [OF assms(2)] by blast
next
  case applied_to
  then show ?thesis using mem.AppliedTo_ext [OF assms(2)] by blast
next
  case restore
  then show ?thesis using mem.Restore_ext [OF assms(2)] by blast
next
  case maybe_persist
  then show ?thesis using mem.MaybePersist_ext [OF assms(2)] by blast
next
  case maybe_persist_snapshot
  then show ?thesis using mem.MaybePersistSnapshot_ext [OF assms(2)] by blast
next
  case persist_entries
  then show ?thesis using mlog_persist_entries [OF assms(2)] by (intro log_extends_same_first) simp_all
next
  case persist_snapshot
  then show ?thesis using mlog_persist_snapshot [OF assms(2)] by (intro log_extends_same_first) simp_all
next
  case compact
  then show ?thesis using mlog_compact [OF assms(2)] by blast
qed

section \<open>Properties\<close>

lemma log_steps_extend:
  assumes "(log_step sz)\<^sup>*\<^sup>* l l'" "mlog_wf l"
  shows "log_extends mem_wf MemoryStorage_first_index ms_entries l l'"
  using assms
proof (induction rule: rtranclp_induct)
  case base
  then show ?case by (rule log_extends_refl)
next
  case (step l1 l2)
  then have "log_extends mem_wf MemoryStorage_first_index ms_entries l l1" by simp
  moreover from this have "mlog_wf l1" by (simp add: log_extends_def)
  ultimately show ?case using log_step_extends [OF step.hyps(2)] by (blast intro: log_extends_trans)
qed

text \<open>A log with three stored entries of term 1, the first of them committed.\<close>

definition log_example :: "MemoryStorage RaftLog" where
  "log_example = \<lparr>rl_store = memory_example, rl_unstable = Unstable_new 4, rl_committed = 1, rl_persisted = 3,
     rl_applied = 0, rl_max_apply_unpersisted_log_limit = 0\<rparr>"

lemma log_example_view:
  "mlog_first log_example = 1"
  "mlog_ents log_example = [MakeEntry 1 1 ENTRY_NORMAL, MakeEntry 2 1 ENTRY_NORMAL, MakeEntry 3 1 ENTRY_NORMAL]"
  by (simp_all add: log_example_def log_first_def log_ents_def Unstable_new_def memory_example_def
      MemoryStorage_first_index_def MakeEntry_def default_entry_def)

lemma log_example_wf: "mlog_wf log_example"
  using memory_example_wf log_example_view
  by (simp add: log_wf_def log_example_def Unstable_new_def unstable_wf_def memory_example_def
      MemoryStorage_first_index_def MakeEntry_def default_entry_def)

text \<open>
  C32. Whatever happens to a log (appends of a follower and of a leader, commits, applies, snapshots,
  persisting and compacting), it stays well formed, its commit index and its first index never move
  back, and an entry at a committed index is never lost or replaced as long as the log still reaches
  back to it.
\<close>

theorem raft_log_committed_stable:
  assumes "(log_step sz)\<^sup>*\<^sup>* l l'" "mlog_wf l"
  shows "mlog_wf l' \<and> rl_committed l \<le> rl_committed l' \<and> unat (mlog_first l) \<le> unat (mlog_first l') \<and>
    (\<forall>j. unat (mlog_first l') \<le> j \<longrightarrow> j \<le> unat (rl_committed l) \<longrightarrow>
       mlog_ents l' ! (j - unat (mlog_first l')) = mlog_ents l ! (j - unat (mlog_first l)))"
  using log_steps_extend [OF assms] unfolding log_extends_def .

theorem raft_log_committed_stable_witness:
  "mlog_wf (log_example\<lparr>rl_committed := 2\<rparr>) \<and> rl_committed log_example = 1"
proof -
  have "RaftLog_CommitTo (memory_ops (\<lambda>_. 1)) 2 log_example = Some (Inr (), log_example\<lparr>rl_committed := 2\<rparr>)"
    using mem.CommitTo_eq [OF log_example_wf, of "\<lambda>_. 1" 2] log_example_view by (simp add: log_example_def)
  then have "log_step (\<lambda>_. 1) log_example (log_example\<lparr>rl_committed := 2\<rparr>)" by (rule log_step.commit_to)
  then have "(log_step (\<lambda>_. 1))\<^sup>*\<^sup>* log_example (log_example\<lparr>rl_committed := 2\<rparr>)" by simp
  from raft_log_committed_stable [OF this log_example_wf] show ?thesis by (simp add: log_example_def)
qed

text \<open>
  C33. An append behind an index at which the term of the log (0 where it has no entry) is not the given one is refused and
  changes nothing. Where the term matches, the follower keeps its log as far as it agrees with the new entries, replaces it from
  the first disagreement on and leaves it alone when all of them are there already; the commit index moves to what the
  leader committed of them. A disagreement at a committed index is an error and changes nothing.
\<close>

theorem maybe_append_exact:
  assumes "mlog_wf l" "contig (idx + 1) es" "Suc (unat idx) + length es < 2 ^ 64" "\<forall>e \<in> set es. e_term e \<noteq> 0"
  defines "k \<equiv> Suc (unat idx) - unat (mlog_first l)"
  defines "m \<equiv> match_len (drop k (mlog_ents l)) es"
  shows "(RaftLog_Term (memory_ops sz) idx l \<noteq> Some (Inr t) \<longrightarrow>
      RaftLog_MaybeAppend (memory_ops sz) idx t c es l =
        Some (Inr \<lparr>mar_term_matched = False, mar_conflict_index = 0, mar_last_index = 0\<rparr>, l)) \<and>
    (RaftLog_Term (memory_ops sz) idx l = Some (Inr t) \<and> unat (mlog_first l) \<le> Suc (unat idx) \<and>
     unat idx < unat (mlog_first l) + length (mlog_ents l) \<longrightarrow>
     (if m < length es \<and> Suc (unat idx) + m \<le> unat (rl_committed l)
      then RaftLog_MaybeAppend (memory_ops sz) idx t c es l =
        Some (Inl (FatalError (Fmt ''entry {} conflict with committed entry {}''
               [idx + 1 + of_nat m, rl_committed l])), l)
      else \<exists>l'. RaftLog_MaybeAppend (memory_ops sz) idx t c es l =
          Some (Inr \<lparr>mar_term_matched = True,
                      mar_conflict_index = (if m = length es then 0 else idx + 1 + of_nat m),
                      mar_last_index = idx + of_nat (length es)\<rparr>, l') \<and>
        mlog_wf l' \<and> mlog_first l' = mlog_first l \<and>
        mlog_ents l' = (if m = length es then mlog_ents l else take (k + m) (mlog_ents l) @ drop m es) \<and>
        rl_committed l' = max (rl_committed l) (min c (idx + of_nat (length es)))))"
proof (intro conjI impI)
  assume "RaftLog_Term (memory_ops sz) idx l \<noteq> Some (Inr t)"
  then have "RaftLog_MatchTerm (memory_ops sz) idx t l = Some False"
    using mem.Term_total [OF assms(1), of sz idx] by (auto simp: RaftLog_MatchTerm_def)
  then show "RaftLog_MaybeAppend (memory_ops sz) idx t c es l =
      Some (Inr \<lparr>mar_term_matched = False, mar_conflict_index = 0, mar_last_index = 0\<rparr>, l)"
    by (simp add: RaftLog_MaybeAppend_def)
next
  assume r: "RaftLog_Term (memory_ops sz) idx l = Some (Inr t) \<and> unat (mlog_first l) \<le> Suc (unat idx) \<and>
     unat idx < unat (mlog_first l) + length (mlog_ents l)"
  then have mt: "RaftLog_MatchTerm (memory_ops sz) idx t l = Some True" by (simp add: RaftLog_MatchTerm_def)
  have "appended (mlog_first l) (mlog_ents l) idx es =
      (if m = length es then mlog_ents l else take (k + m) (mlog_ents l) @ drop m es)"
    by (simp add: appended_def merge_entries_def Let_def take_add k_def m_def)
  then show "if m < length es \<and> Suc (unat idx) + m \<le> unat (rl_committed l)
      then RaftLog_MaybeAppend (memory_ops sz) idx t c es l =
        Some (Inl (FatalError (Fmt ''entry {} conflict with committed entry {}''
               [idx + 1 + of_nat m, rl_committed l])), l)
      else \<exists>l'. RaftLog_MaybeAppend (memory_ops sz) idx t c es l =
          Some (Inr \<lparr>mar_term_matched = True,
                      mar_conflict_index = (if m = length es then 0 else idx + 1 + of_nat m),
                      mar_last_index = idx + of_nat (length es)\<rparr>, l') \<and>
        mlog_wf l' \<and> mlog_first l' = mlog_first l \<and>
        mlog_ents l' = (if m = length es then mlog_ents l else take (k + m) (mlog_ents l) @ drop m es) \<and>
        rl_committed l' = max (rl_committed l) (min c (idx + of_nat (length es)))"
    using mem.MaybeAppend_eq [OF assms(1,2) _ _ assms(3,4) mt, of c] r unfolding k_def m_def by (auto split: if_splits)
qed

theorem maybe_append_exact_witness:
  "RaftLog_MaybeAppend (memory_ops (\<lambda>_. 1)) 2 7 3 [MakeEntry 3 7 ENTRY_NORMAL] log_example =
      Some (Inr \<lparr>mar_term_matched = False, mar_conflict_index = 0, mar_last_index = 0\<rparr>, log_example) \<and>
   (\<exists>l'. RaftLog_MaybeAppend (memory_ops (\<lambda>_. 1)) 1 1 3 [MakeEntry 2 1 ENTRY_NORMAL, MakeEntry 3 2 ENTRY_NORMAL] log_example =
      Some (Inr \<lparr>mar_term_matched = True, mar_conflict_index = 3, mar_last_index = 3\<rparr>, l') \<and>
    mlog_ents l' = [MakeEntry 1 1 ENTRY_NORMAL, MakeEntry 2 1 ENTRY_NORMAL, MakeEntry 3 2 ENTRY_NORMAL] \<and>
    rl_committed l' = 3)"
proof (rule conjI)
  have "RaftLog_Term (memory_ops (\<lambda>_. 1)) 2 log_example \<noteq> Some (Inr 7)"
    using mem.Term_in [OF log_example_wf, of 2 "\<lambda>_. 1"] by (simp add: log_example_view MakeEntry_def)
  then show "RaftLog_MaybeAppend (memory_ops (\<lambda>_. 1)) 2 7 3 [MakeEntry 3 7 ENTRY_NORMAL] log_example =
      Some (Inr \<lparr>mar_term_matched = False, mar_conflict_index = 0, mar_last_index = 0\<rparr>, log_example)"
    using maybe_append_exact [OF log_example_wf, of 2 "[MakeEntry 3 7 ENTRY_NORMAL]" "\<lambda>_. 1" 7 3]
    by (simp add: MakeEntry_def default_entry_def)
next
  let ?es = "[MakeEntry 2 1 ENTRY_NORMAL, MakeEntry 3 2 ENTRY_NORMAL]"
  have "RaftLog_Term (memory_ops (\<lambda>_. 1)) 1 log_example = Some (Inr 1)"
    using mem.Term_in [OF log_example_wf, of 1 "\<lambda>_. 1"] by (simp add: log_example_view MakeEntry_def)
  moreover have "contig (1 + 1) ?es" "\<forall>e \<in> set ?es. e_term e \<noteq> 0" by (simp_all add: MakeEntry_def default_entry_def)
  moreover have m: "match_len (drop (Suc (unat (1::u64)) - unat (mlog_first log_example)) (mlog_ents log_example)) ?es = 1"
    by (simp add: log_example_view MakeEntry_def default_entry_def)
  moreover have c: "rl_committed log_example = 1" by (simp add: log_example_def)
  ultimately show "\<exists>l'. RaftLog_MaybeAppend (memory_ops (\<lambda>_. 1)) 1 1 3 ?es log_example =
      Some (Inr \<lparr>mar_term_matched = True, mar_conflict_index = 3, mar_last_index = 3\<rparr>, l') \<and>
    mlog_ents l' = [MakeEntry 1 1 ENTRY_NORMAL, MakeEntry 2 1 ENTRY_NORMAL, MakeEntry 3 2 ENTRY_NORMAL] \<and> rl_committed l' = 3"
    using maybe_append_exact [OF log_example_wf, of 1 ?es "\<lambda>_. 1" 1 3]
    unfolding m c log_example_view by auto
qed

text \<open>
  C34. The search for the hint of a rejected append always ends, and it ends at the largest index not
  above the given one whose term is not above the given term (or is compacted away): every index
  between has a larger term.
\<close>

theorem find_conflict_by_term:
  assumes "mlog_wf l" "unat idx < unat (mlog_first l) + length (mlog_ents l)"
    "\<forall>t'. RaftLog_Term (memory_ops sz) 0 l = Some (Inr t') \<longrightarrow> t' \<le> t"
  shows "\<exists>i r. RaftLog_FindConflictByTerm (memory_ops sz) idx t l = Some (i, r) \<and> i \<le> idx \<and>
    (case r of Some t' \<Rightarrow> RaftLog_Term (memory_ops sz) i l = Some (Inr t') \<and> t' \<le> t
             | None \<Rightarrow> RaftLog_Term (memory_ops sz) i l = Some (Inl (StorageError Compacted))) \<and>
    (\<forall>j. i < j \<longrightarrow> j \<le> idx \<longrightarrow> (\<exists>t'. RaftLog_Term (memory_ops sz) j l = Some (Inr t') \<and> t < t'))"
proof -
  have "\<not> mlog_first l + of_nat (length (mlog_ents l)) - 1 < idx"
    using mem.last_unat [OF assms(1)] assms(2) by (simp add: word_less_nat_alt)
  then show ?thesis
    using mem.FindConflictByTerm_loop_eq [OF assms]
    by (simp add: RaftLog_FindConflictByTerm_def mem.LastIndex_eq [OF assms(1)])
qed

theorem find_conflict_by_term_witness:
  "\<exists>i r. RaftLog_FindConflictByTerm (memory_ops (\<lambda>_. 1)) 3 0 log_example = Some (i, r) \<and> i \<le> 3"
proof -
  have "RaftLog_Term (memory_ops (\<lambda>_. 1)) 0 log_example = Some (Inr 0)" by code_simp
  then show ?thesis using find_conflict_by_term [OF log_example_wf, of 3 "\<lambda>_. 1" 0]
    by (auto simp: log_example_view)
qed

text \<open>
  C35. Scanning a range of the log page by page ends, and a callback that never stops it sees
  consecutive nonempty batches that together are exactly the entries of the range.
\<close>

theorem scan_visits_range:
  assumes "mlog_wf l" "unat (mlog_first l) \<le> unat low" "unat high \<le> unat (mlog_first l) + length (mlog_ents l)"
    "low \<le> high" "\<not> GetEntriesContext_CanAsync ctx" "\<forall>b a. fst (f b a)"
  shows "\<exists>bs l'. RaftLog_Scan sz (memory_ops sz) low high page ctx f (l, a) =
      Some (Inr (), l', fold (\<lambda>b a. snd (f b a)) bs a) \<and>
    concat bs = take (unat high - unat low) (drop (unat low - unat (mlog_first l)) (mlog_ents l)) \<and>
    [] \<notin> set bs \<and> mlog_ents l' = mlog_ents l"
  using mem.Scan_eq [OF assms, of sz page a] unfolding sub_entries_def by blast

theorem scan_visits_range_witness:
  "\<exists>bs l'. RaftLog_Scan (\<lambda>_. 1) (memory_ops (\<lambda>_. 1)) 2 4 0 GenReadyCtx (\<lambda>b n. (True, n + length b)) (log_example, 0) =
      Some (Inr (), l', fold (\<lambda>b n. n + length b) bs 0) \<and>
    concat bs = [MakeEntry 2 1 ENTRY_NORMAL, MakeEntry 3 1 ENTRY_NORMAL]"
  using scan_visits_range [OF log_example_wf, of 2 4 GenReadyCtx "\<lambda>b n. (True, n + length b)" "\<lambda>_. 1" 0 0]
  by (auto simp: log_example_view)

text \<open>
  C36. The entries handed out to be applied are those behind the given index that are committed and
  persisted (up to the configured allowance), cut by the size limit but never to nothing; there is
  no batch exactly when there are none.
\<close>

theorem next_entries_exact:
  assumes "mlog_wf l"
  defines "low \<equiv> max (rl_applied l + 1) (mlog_first l)"
  defines "high \<equiv> min (rl_committed l) (rl_persisted l + rl_max_apply_unpersisted_log_limit l) + 1"
  shows "\<exists>st. mem_wf st \<and> ms_entries st = ms_entries (rl_store l) \<and>
    RaftLog_NextEntries sz (memory_ops sz) mx l =
      Some (if low < high
            then Some (LimitSize sz mx (take (unat high - unat low) (drop (unat low - unat (mlog_first l)) (mlog_ents l))))
            else None,
            l\<lparr>rl_store := st\<rparr>)"
  using mem.NextEntriesSince_eq [OF assms(1), of sz "rl_applied l" mx]
  unfolding low_def high_def RaftLog_NextEntries_def RaftLog_AppliedIndexUpperBound_def sub_entries_def by blast

theorem next_entries_exact_witness:
  "\<exists>l'. RaftLog_NextEntries (\<lambda>_. 1) (memory_ops (\<lambda>_. 1)) None (log_example\<lparr>rl_committed := 2\<rparr>) =
      Some (Some [MakeEntry 1 1 ENTRY_NORMAL, MakeEntry 2 1 ENTRY_NORMAL], l')"
proof -
  have "mlog_wf (log_example\<lparr>rl_committed := 2\<rparr>)"
    using mem.committed_wf [OF log_example_wf, of 2] log_example_view by (simp add: log_example_def)
  moreover have v: "rl_applied (log_example\<lparr>rl_committed := 2\<rparr>) = 0" "rl_committed (log_example\<lparr>rl_committed := 2\<rparr>) = 2"
    "rl_persisted (log_example\<lparr>rl_committed := 2\<rparr>) = 3"
    "rl_max_apply_unpersisted_log_limit (log_example\<lparr>rl_committed := 2\<rparr>) = 0"
    by (simp_all add: log_example_def)
  moreover have w: "mlog_first (log_example\<lparr>rl_committed := 2\<rparr>) = 1" "mlog_ents (log_example\<lparr>rl_committed := 2\<rparr>) = mlog_ents log_example"
    using log_example_view by simp_all
  ultimately show ?thesis
    using next_entries_exact [of "log_example\<lparr>rl_committed := 2\<rparr>" "\<lambda>_. 1" None]
    unfolding v w log_example_view by (auto simp: LimitSize_def)
qed

text \<open>
  C37. Reporting the unstable entries as persisted succeeds exactly for terms below 2 to the 32: the
  term is passed on as a 32-bit value, so that for a larger one the comparison with the last entry
  fails and the node aborts although it was given that entry's own index and term.
\<close>

theorem stable_entries_term_width:
  assumes "un_snapshot (rl_unstable l) = None" "un_entries (rl_unstable l) \<noteq> []"
    "i = e_index (last (un_entries (rl_unstable l)))" "t = e_term (last (un_entries (rl_unstable l)))"
  shows "RaftLog_StableEntries i t l =
    (if unat t < 2 ^ 32
     then Some (l\<lparr>rl_unstable := (rl_unstable l)\<lparr>un_offset := i + 1, un_entries := [], un_entries_size := 0\<rparr>\<rparr>)
     else None)"
proof -
  have "unat (ucast (ucast t :: u32) :: u64) = take_bit 32 (unat t)"
    by (simp add: unsigned_ucast_eq unsigned_take_bit_eq)
  then have "(t = ucast (ucast t :: u32)) = (unat t < 2 ^ 32)"
    unfolding u64_eq_iff by (metis take_bit_nat_eq_self_iff)
  then show ?thesis
    using assms by (auto simp: RaftLog_StableEntries_def Unstable_StableEntries_def Let_def)
qed

theorem stable_entries_term_width_witness:
  "RaftLog_StableEntries 4 4294967296
     (log_example\<lparr>rl_unstable := \<lparr>un_snapshot = None, un_entries = [MakeEntry 4 4294967296 ENTRY_NORMAL],
        un_entries_size = 0, un_offset = 4\<rparr>\<rparr>) = None"
  by (subst stable_entries_term_width) (simp_all add: MakeEntry_def default_entry_def)

end
