(* ===== verification/Inflights.thy ===== *)
theory Inflights
  imports Raft_Prelude
begin

text \<open>
  The sliding window of in-flight append messages of one follower
  (\<open>lib/core/inflights.cc\<close>): a ring buffer of last-entry indexes that is allocated lazily and
  whose capacity may be changed while messages are in flight. The abstract view is the list of
  indexes in flight, oldest first; every operation refines the obvious list operation.
\<close>

section \<open>Model\<close>

record inflights =
  ifl_start :: nat
  ifl_count :: nat
  ifl_buffer :: "u64 list"
  ifl_buffer_capacity :: nat \<comment> \<open>\<open>buffer_.capacity()\<close>; 0 as long as nothing is allocated\<close>
  ifl_capacity :: nat
  ifl_incoming_capacity :: "nat option"

definition Inflights_new :: "nat \<Rightarrow> inflights" where
  "Inflights_new capacity =
     \<lparr>ifl_start = 0, ifl_count = 0, ifl_buffer = [], ifl_buffer_capacity = 0,
      ifl_capacity = capacity, ifl_incoming_capacity = None\<rparr>"

definition Inflights_Full :: "inflights \<Rightarrow> bool" where
  "Inflights_Full s \<longleftrightarrow>
     (if ifl_count s = ifl_capacity s then True
      else case ifl_incoming_capacity s of
             Some c \<Rightarrow> c \<le> ifl_count s
           | None \<Rightarrow> False)"

definition Inflights_Count :: "inflights \<Rightarrow> nat" where
  "Inflights_Count s = ifl_count s"

definition Inflights_BufferSize :: "inflights \<Rightarrow> nat" where
  "Inflights_BufferSize s = ifl_buffer_capacity s"

definition Inflights_buffer_is_allocated :: "inflights \<Rightarrow> bool" where
  "Inflights_buffer_is_allocated s \<longleftrightarrow> 0 < ifl_buffer_capacity s"

text \<open>
  In the wrapped case the live elements are copied to the front of a new buffer; the iterator
  ranges must lie inside the old one.
\<close>

definition Inflights_SetCapacity :: "nat \<Rightarrow> inflights \<Rightarrow> inflights option" where
  "Inflights_SetCapacity incoming s =
     (if ifl_capacity s = incoming then Some (s\<lparr>ifl_incoming_capacity := None\<rparr>)
      else if ifl_capacity s < incoming then
        (if ifl_start s + ifl_count s \<le> ifl_capacity s then
           Some (s\<lparr>ifl_buffer_capacity :=
                     (if 0 < ifl_buffer_capacity s then max (ifl_buffer_capacity s) incoming else 0),
                   ifl_capacity := incoming, ifl_incoming_capacity := None\<rparr>)
         else if ifl_start s \<le> length (ifl_buffer s) \<and> ifl_start s \<le> ifl_capacity s \<and>
                 ifl_count s - (ifl_capacity s - ifl_start s) \<le> length (ifl_buffer s) then
           (let buffer = drop (ifl_start s) (ifl_buffer s) @
                         take (ifl_count s - (ifl_capacity s - ifl_start s)) (ifl_buffer s)
            in Some (s\<lparr>ifl_buffer := buffer,
                       ifl_buffer_capacity := max incoming (length buffer),
                       ifl_start := 0,
                       ifl_capacity := incoming, ifl_incoming_capacity := None\<rparr>))
         else None)
      else if ifl_count s = 0 then
        Some (s\<lparr>ifl_capacity := incoming, ifl_incoming_capacity := None, ifl_start := 0,
                ifl_buffer := (if 0 < ifl_buffer_capacity s then [] else ifl_buffer s),
                ifl_buffer_capacity := (if 0 < ifl_buffer_capacity s then incoming else 0)\<rparr>)
      else Some (s\<lparr>ifl_incoming_capacity := Some incoming\<rparr>))"

definition Inflights_Reset :: "inflights \<Rightarrow> inflights" where
  "Inflights_Reset s =
     s\<lparr>ifl_count := 0, ifl_start := 0, ifl_buffer := [], ifl_buffer_capacity := 0,
       ifl_capacity := (case ifl_incoming_capacity s of Some c \<Rightarrow> c | None \<Rightarrow> ifl_capacity s),
       ifl_incoming_capacity := None\<rparr>"

text \<open>The scan of \<open>FreeTo\<close>: \<open>i\<close> elements are freed and \<open>idx\<close> is the new start.\<close>

function Inflights_FreeTo_loop :: "inflights \<Rightarrow> u64 \<Rightarrow> nat \<Rightarrow> nat \<Rightarrow> (nat \<times> nat) option" where
  "Inflights_FreeTo_loop s to i idx =
     (if i < ifl_count s then
        do { b \<leftarrow> vec_get (ifl_buffer s) idx;
             if to < b then Some (i, idx)
             else let idx1 = idx + 1;
                      idx2 = (if ifl_capacity s \<le> idx1 then idx1 - ifl_capacity s else idx1)
                  in Inflights_FreeTo_loop s to (i + 1) idx2 }
      else Some (i, idx))"
  by pat_completeness auto
termination
  by (relation "measure (\<lambda>(s, to, i, idx). ifl_count s - i)") auto

declare Inflights_FreeTo_loop.simps [simp del]

definition Inflights_FreeTo :: "u64 \<Rightarrow> inflights \<Rightarrow> inflights option" where
  "Inflights_FreeTo to s =
     (if ifl_count s = 0 then Some s
      else do {
        b \<leftarrow> vec_get (ifl_buffer s) (ifl_start s);
        if to < b then Some s
        else do {
          (i, idx) \<leftarrow> Inflights_FreeTo_loop s to 0 (ifl_start s);
          let s1 = s\<lparr>ifl_count := ifl_count s - i, ifl_start := idx\<rparr>;
          Some (if ifl_count s1 = 0 then
                  (case ifl_incoming_capacity s1 of
                     Some c \<Rightarrow> s1\<lparr>ifl_start := 0, ifl_capacity := c, ifl_buffer := [],
                                 ifl_buffer_capacity := c, ifl_incoming_capacity := None\<rparr>
                   | None \<Rightarrow> s1)
                else s1) } })"

definition Inflights_FreeFirstOne :: "inflights \<Rightarrow> inflights option" where
  "Inflights_FreeFirstOne s =
     (if 0 < ifl_count s then
        do { start \<leftarrow> vec_get (ifl_buffer s) (ifl_start s); Inflights_FreeTo start s }
      else Some s)"

text \<open>
  \<open>emplace_back\<close> on a full vector grows it by doubling; the invariant below shows that the
  reserved capacity always suffices.
\<close>

definition vec_grow :: "nat \<Rightarrow> nat \<Rightarrow> nat" where
  "vec_grow cap len = (if len < cap then cap else max 1 (2 * cap))"

definition Inflights_Add :: "u64 \<Rightarrow> inflights \<Rightarrow> inflights option" where
  "Inflights_Add inflight s =
     (if Inflights_Full s then None
      else
        let s1 = (if ifl_buffer_capacity s = 0
                  then s\<lparr>ifl_buffer := [], ifl_buffer_capacity := ifl_capacity s\<rparr> else s);
            next0 = ifl_start s1 + ifl_count s1;
            next1 = (if ifl_capacity s1 \<le> next0 then next0 - ifl_capacity s1 else next0)
        in do {
          ASSERT (next1 \<le> length (ifl_buffer s1));
          let s2 = (if next1 = length (ifl_buffer s1)
                    then s1\<lparr>ifl_buffer := ifl_buffer s1 @ [inflight],
                            ifl_buffer_capacity :=
                              vec_grow (ifl_buffer_capacity s1) (length (ifl_buffer s1))\<rparr>
                    else s1\<lparr>ifl_buffer := (ifl_buffer s1)[next1 := inflight]\<rparr>);
          Some (s2\<lparr>ifl_count := ifl_count s2 + 1\<rparr>) })"

section \<open>Invariant and abstraction\<close>

definition inflights_wf :: "inflights \<Rightarrow> bool" where
  "inflights_wf s \<longleftrightarrow>
     ifl_count s \<le> ifl_capacity s \<and>
     (ifl_start s < ifl_capacity s \<or> ifl_start s = 0) \<and>
     length (ifl_buffer s) \<le> ifl_capacity s \<and>
     length (ifl_buffer s) \<le> ifl_buffer_capacity s \<and>
     (ifl_start s + ifl_count s \<le> length (ifl_buffer s) \<or>
      length (ifl_buffer s) = ifl_capacity s) \<and>
     (0 < ifl_buffer_capacity s \<longrightarrow> ifl_capacity s \<le> ifl_buffer_capacity s) \<and>
     (ifl_buffer_capacity s = 0 \<longrightarrow> ifl_count s = 0 \<and> ifl_start s = 0) \<and>
     (\<forall>c. ifl_incoming_capacity s = Some c \<longrightarrow> c < ifl_capacity s \<and> 0 < ifl_count s)"

text \<open>The position of the \<open>k\<close>-th element in flight, and the list of them.\<close>

definition ifl_pos :: "inflights \<Rightarrow> nat \<Rightarrow> nat" where
  "ifl_pos s k = (ifl_start s + k) mod ifl_capacity s"

definition inflights_list :: "inflights \<Rightarrow> u64 list" where
  "inflights_list s = map (\<lambda>k. ifl_buffer s ! ifl_pos s k) [0..<ifl_count s]"

lemma length_inflights_list [simp]: "length (inflights_list s) = ifl_count s"
  by (simp add: inflights_list_def)

lemma inflights_list_nth: "k < ifl_count s \<Longrightarrow> inflights_list s ! k = ifl_buffer s ! ifl_pos s k"
  by (simp add: inflights_list_def)


lemma ring_index:
  assumes "(a::nat) < n" "k \<le> n"
  shows "(if n \<le> a + k then a + k - n else a + k) = (a + k) mod n"
proof (cases "n \<le> a + k")
  case True
  with assms have "a + k - n < n" by linarith
  with True show ?thesis by (simp add: le_mod_geq)
next
  case False
  then show ?thesis by simp
qed

lemma ring_inj:
  assumes "(a::nat) < n" "i < j" "j < n"
  shows "(a + i) mod n \<noteq> (a + j) mod n"
  using assms by (auto simp: mod_if split: if_splits)

lemma inflights_wf_capacity: "inflights_wf s \<Longrightarrow> k < ifl_count s \<Longrightarrow> ifl_start s < ifl_capacity s"
  by (auto simp: inflights_wf_def)

lemma ifl_pos_bound:
  assumes "inflights_wf s" "k < ifl_count s"
  shows "ifl_pos s k < length (ifl_buffer s)"
proof -
  have c: "ifl_start s < ifl_capacity s" "ifl_count s \<le> ifl_capacity s"
    using assms by (auto simp: inflights_wf_def)
  show ?thesis
  proof (cases "ifl_start s + ifl_count s \<le> length (ifl_buffer s)")
    case True
    moreover from assms(1) have "length (ifl_buffer s) \<le> ifl_capacity s"
      by (simp add: inflights_wf_def)
    ultimately have "ifl_start s + k < ifl_capacity s" "ifl_start s + k < length (ifl_buffer s)"
      using assms(2) by linarith+
    then show ?thesis by (simp add: ifl_pos_def)
  next
    case False
    with assms(1) have "length (ifl_buffer s) = ifl_capacity s" by (auto simp: inflights_wf_def)
    with c show ?thesis by (simp add: ifl_pos_def)
  qed
qed

lemma ifl_pos_0: "inflights_wf s \<Longrightarrow> 0 < ifl_count s \<Longrightarrow> ifl_pos s 0 = ifl_start s"
  by (auto simp: ifl_pos_def inflights_wf_def)

lemma ifl_pos_Suc:
  assumes "inflights_wf s" "k < ifl_count s"
  shows "(if ifl_capacity s \<le> ifl_pos s k + 1 then ifl_pos s k + 1 - ifl_capacity s
          else ifl_pos s k + 1) = ifl_pos s (Suc k)"
proof -
  have "0 < ifl_capacity s" using inflights_wf_capacity [OF assms] by simp
  then have "ifl_pos s k < ifl_capacity s" by (simp add: ifl_pos_def)
  then have "(if ifl_capacity s \<le> ifl_pos s k + 1 then ifl_pos s k + 1 - ifl_capacity s
          else ifl_pos s k + 1) = (ifl_pos s k + 1) mod ifl_capacity s"
    using \<open>0 < ifl_capacity s\<close> by (intro ring_index) auto
  then show ?thesis by (simp add: ifl_pos_def mod_Suc_eq)
qed

lemma FreeTo_loop_eq:
  assumes "inflights_wf s" "i \<le> ifl_count s"
  shows "Inflights_FreeTo_loop s to i (ifl_pos s i) =
    (let j = i + length (takeWhile (\<lambda>x. x \<le> to) (drop i (inflights_list s)))
     in Some (j, ifl_pos s j))"
  using assms(2)
proof (induction "ifl_count s - i" arbitrary: i)
  case 0
  then show ?case by (simp add: Inflights_FreeTo_loop.simps)
next
  case (Suc n)
  then have i: "i < ifl_count s" by linarith
  have b: "vec_get (ifl_buffer s) (ifl_pos s i) = Some (inflights_list s ! i)"
    using ifl_pos_bound [OF assms(1) i] i by (simp add: inflights_list_nth)
  have d: "drop i (inflights_list s) = inflights_list s ! i # drop (Suc i) (inflights_list s)"
    using i by (simp add: Cons_nth_drop_Suc)
  have IH: "Inflights_FreeTo_loop s to (Suc i) (ifl_pos s (Suc i)) =
    (let j = Suc i + length (takeWhile (\<lambda>x. x \<le> to) (drop (Suc i) (inflights_list s)))
     in Some (j, ifl_pos s j))"
    using Suc.hyps(2) i by (intro Suc.hyps(1)) auto
  show ?case
    using i b IH ifl_pos_Suc [OF assms(1) i]
    by (subst Inflights_FreeTo_loop.simps)
       (auto simp: d Let_def not_less simp del: Cons_nth_drop_Suc)
qed

text \<open>Dropping the first \<open>j\<close> elements in flight by moving the start.\<close>

lemma advance_start:
  assumes "inflights_wf s" "j \<le> ifl_count s" "0 < ifl_count s"
  defines "s' \<equiv> s\<lparr>ifl_count := ifl_count s - j, ifl_start := ifl_pos s j\<rparr>"
  shows "inflights_list s' = drop j (inflights_list s)"
    and "j < ifl_count s \<or> ifl_incoming_capacity s = None \<Longrightarrow> inflights_wf s'"
proof -
  have c: "ifl_start s < ifl_capacity s" using inflights_wf_capacity assms(1,3) by blast
  have "ifl_pos s' k = ifl_pos s (j + k)" for k
    by (simp add: s'_def ifl_pos_def mod_add_left_eq add.assoc)
  then show "inflights_list s' = drop j (inflights_list s)"
    by (intro nth_equalityI) (simp_all add: inflights_list_nth s'_def)
  have w: "ifl_start s + ifl_count s \<le> length (ifl_buffer s) \<or> length (ifl_buffer s) = ifl_capacity s"
      "length (ifl_buffer s) \<le> ifl_capacity s"
    using assms(1) by (auto simp: inflights_wf_def)
  have p: "ifl_pos s j + (ifl_count s - j) \<le> length (ifl_buffer s)
     \<or> length (ifl_buffer s) = ifl_capacity s"
  proof (cases "ifl_start s + j < ifl_capacity s")
    case True
    then show ?thesis using w assms(2) by (auto simp: ifl_pos_def)
  next
    case False
    then show ?thesis using w assms(2) by linarith
  qed
  have "ifl_pos s j < ifl_capacity s" using c by (simp add: ifl_pos_def)
  then show "inflights_wf s'" if "j < ifl_count s \<or> ifl_incoming_capacity s = None"
    using assms(1,3) p that by (auto simp: inflights_wf_def s'_def)
qed

section \<open>The operations refine the list of indexes in flight\<close>

text \<open>
  The contract of a bounded send window: what the flow control of \<open>Progress\<close> relies on.
\<close>

locale send_window =
  fixes new_window :: "nat \<Rightarrow> 'w"
    and add :: "u64 \<Rightarrow> 'w \<Rightarrow> 'w option"
    and free_to :: "u64 \<Rightarrow> 'w \<Rightarrow> 'w option"
    and free_first :: "'w \<Rightarrow> 'w option"
    and set_capacity :: "nat \<Rightarrow> 'w \<Rightarrow> 'w option"
    and reset :: "'w \<Rightarrow> 'w"
    and full :: "'w \<Rightarrow> bool"
    and wlist :: "'w \<Rightarrow> u64 list"
    and limit :: "'w \<Rightarrow> nat"
    and invar :: "'w \<Rightarrow> bool"
  assumes new_wf: "invar (new_window n)"
    and new_list: "wlist (new_window n) = []"
    and full_iff: "invar w \<Longrightarrow> full w \<longleftrightarrow> limit w \<le> length (wlist w)"
    and add_ok: "invar w \<Longrightarrow> \<not> full w \<Longrightarrow>
          \<exists>w'. add x w = Some w' \<and> invar w' \<and> wlist w' = wlist w @ [x] \<and> limit w' = limit w"
    and add_full: "full w \<Longrightarrow> add x w = None"
    and free_to_ok: "invar w \<Longrightarrow>
          \<exists>w'. free_to x w = Some w' \<and> invar w' \<and> limit w' = limit w \<and>
               wlist w' = dropWhile (\<lambda>y. y \<le> x) (wlist w)"
    and free_first_ok: "invar w \<Longrightarrow>
          \<exists>w'. free_first w = Some w' \<and> invar w' \<and> limit w' = limit w \<and>
               wlist w' = (case wlist w of [] \<Rightarrow> [] | y # ys \<Rightarrow> dropWhile (\<lambda>z. z \<le> y) ys)"
    and set_capacity_ok: "invar w \<Longrightarrow>
          \<exists>w'. set_capacity n w = Some w' \<and> invar w' \<and> wlist w' = wlist w \<and> limit w' = n"
    and reset_ok: "invar w \<Longrightarrow>
          invar (reset w) \<and> wlist (reset w) = [] \<and> limit (reset w) = limit w"
begin

lemma add_within_limit:
  assumes "invar w" "add x w = Some w'"
  shows "length (wlist w') \<le> limit w'"
proof -
  have nf: "\<not> full w" using add_full assms(2) by force
  with full_iff [OF assms(1)] have "length (wlist w) < limit w" by simp
  with add_ok [OF assms(1) nf, of x] assms(2) show ?thesis by auto
qed

lemma free_to_empties:
  assumes "invar w" "\<forall>y \<in> set (wlist w). y \<le> x"
  shows "\<exists>w'. free_to x w = Some w' \<and> wlist w' = []"
  using free_to_ok [OF assms(1), of x] assms(2) by auto

lemma free_first_makes_room:
  assumes "invar w" "full w" "length (wlist w) \<le> limit w" "wlist w \<noteq> []"
  shows "\<exists>w'. free_first w = Some w' \<and> \<not> full w'"
proof -
  obtain y ys where yys: "wlist w = y # ys" using assms(4) by (cases "wlist w") auto
  obtain w' where w': "free_first w = Some w'" "invar w'" "limit w' = limit w"
      "wlist w' = dropWhile (\<lambda>z. z \<le> y) ys"
    using free_first_ok [OF assms(1)] yys by auto
  have "length (wlist w') < limit w'"
    using w'(3,4) yys assms(3) length_dropWhile_le [of "\<lambda>z. z \<le> y" ys] by simp
  with full_iff [OF w'(2)] w'(1) show ?thesis by auto
qed

end

definition inflights_limit :: "inflights \<Rightarrow> nat" where
  "inflights_limit s =
     (case ifl_incoming_capacity s of Some c \<Rightarrow> c | None \<Rightarrow> ifl_capacity s)"

lemma Inflights_new_wf: "inflights_wf (Inflights_new n)"
  by (simp add: Inflights_new_def inflights_wf_def)

lemma Inflights_Full_iff:
  "inflights_wf s \<Longrightarrow> Inflights_Full s \<longleftrightarrow> inflights_limit s \<le> length (inflights_list s)"
  by (auto simp: Inflights_Full_def inflights_limit_def inflights_wf_def split: option.splits)

text \<open>The slot an \<open>Add\<close> writes, and the effect of writing it.\<close>

lemma Add_slot:
  assumes "inflights_wf s" "ifl_count s < ifl_capacity s"
  defines "n \<equiv> ifl_pos s (ifl_count s)"
  shows "(if ifl_capacity s \<le> ifl_start s + ifl_count s
          then ifl_start s + ifl_count s - ifl_capacity s else ifl_start s + ifl_count s) = n"
    and "n < ifl_capacity s" and "n \<le> length (ifl_buffer s)"
    and "k < ifl_count s \<Longrightarrow> ifl_pos s k \<noteq> n"
proof -
  have st: "ifl_start s < ifl_capacity s" using assms(1,2) by (auto simp: inflights_wf_def)
  show n: "(if ifl_capacity s \<le> ifl_start s + ifl_count s
          then ifl_start s + ifl_count s - ifl_capacity s else ifl_start s + ifl_count s) = n"
    unfolding n_def ifl_pos_def using st assms(2) by (intro ring_index) auto
  show c: "n < ifl_capacity s" using st by (simp add: n_def ifl_pos_def)
  show "n \<le> length (ifl_buffer s)"
    using assms(1) n c by (auto simp: inflights_wf_def split: if_splits)
  show "k < ifl_count s \<Longrightarrow> ifl_pos s k \<noteq> n"
    using ring_inj [OF st, of k "ifl_count s"] assms(2) by (simp add: n_def ifl_pos_def)
qed

lemma Add_write:
  fixes x :: u64
  assumes "inflights_wf s" "ifl_count s < ifl_capacity s" "0 < ifl_buffer_capacity s"
  defines "n \<equiv> ifl_pos s (ifl_count s)" and "b \<equiv> ifl_buffer s"
  defines "s' \<equiv> s\<lparr>ifl_buffer := (if n = length b then b @ [x] else b[n := x]),
                  ifl_buffer_capacity :=
                    (if n = length b then vec_grow (ifl_buffer_capacity s) (length b)
                     else ifl_buffer_capacity s),
                  ifl_count := ifl_count s + 1\<rparr>"
  shows "inflights_wf s'" and "inflights_list s' = inflights_list s @ [x]"
proof -
  note slot = Add_slot [OF assms(1,2), folded n_def b_def]
  show "inflights_wf s'"
    using assms(1-3) slot(1-3)
    by (auto simp: inflights_wf_def s'_def vec_grow_def b_def split: if_splits)
  have new: "ifl_buffer s' ! n = x" using slot(3) by (auto simp: s'_def)
  have old: "ifl_buffer s' ! i = b ! i" if "i < length b" "i \<noteq> n" for i
    using that by (auto simp: s'_def nth_append)
  have pos: "ifl_pos s' k = ifl_pos s k" for k by (simp add: s'_def ifl_pos_def)
  show "inflights_list s' = inflights_list s @ [x]"
  proof (rule nth_equalityI)
    show "length (inflights_list s') = length (inflights_list s @ [x])" by (simp add: s'_def)
  next
    fix k assume "k < length (inflights_list s')"
    then have k: "k < ifl_count s'" and k': "k \<le> ifl_count s" by (auto simp: s'_def)
    show "inflights_list s' ! k = (inflights_list s @ [x]) ! k"
    proof (cases "k = ifl_count s")
      case True
      then show ?thesis using new k by (simp add: inflights_list_nth pos n_def nth_append)
    next
      case False
      with k' have kk: "k < ifl_count s" by simp
      show ?thesis
        using old [OF ifl_pos_bound [OF assms(1) kk, folded b_def] slot(4) [OF kk]] k kk
        by (simp add: inflights_list_nth pos nth_append b_def)
    qed
  qed
qed

lemma Inflights_Add_ok:
  assumes "inflights_wf s" "\<not> Inflights_Full s"
  shows "\<exists>s'. Inflights_Add x s = Some s' \<and> inflights_wf s' \<and>
           inflights_list s' = inflights_list s @ [x] \<and> inflights_limit s' = inflights_limit s"
proof -
  define s1 where "s1 = (if ifl_buffer_capacity s = 0
    then s\<lparr>ifl_buffer := [], ifl_buffer_capacity := ifl_capacity s\<rparr> else s)"
  have nf: "ifl_count s < ifl_capacity s"
    using assms by (auto simp: Inflights_Full_def inflights_wf_def split: if_splits)
  have w1: "inflights_wf s1" using assms(1) nf by (auto simp: s1_def inflights_wf_def)
  have c1: "ifl_count s1 < ifl_capacity s1" "0 < ifl_buffer_capacity s1"
      "inflights_limit s1 = inflights_limit s"
    using nf by (auto simp: s1_def inflights_limit_def split: option.splits)
  have l1: "inflights_list s1 = inflights_list s"
    using assms(1) by (auto simp: s1_def inflights_list_def inflights_wf_def ifl_pos_def)
  note slot = Add_slot [OF w1 c1(1)] and wr = Add_write [OF w1 c1(1,2), of x]
  show ?thesis
    using assms(2) slot(1,3) wr c1 l1
    by (auto simp: Inflights_Add_def Let_def s1_def [symmetric] inflights_limit_def
          split: option.splits)
qed

lemma Inflights_FreeTo_ok:
  assumes "inflights_wf s"
  shows "\<exists>s'. Inflights_FreeTo x s = Some s' \<and> inflights_wf s' \<and>
           inflights_limit s' = inflights_limit s \<and>
           inflights_list s' = dropWhile (\<lambda>y. y \<le> x) (inflights_list s)"
proof (cases "ifl_count s = 0")
  case True
  then show ?thesis using assms by (auto simp: Inflights_FreeTo_def inflights_list_def)
next
  case False
  then have c: "0 < ifl_count s" by simp
  define xs where "xs = inflights_list s"
  define j where "j = length (takeWhile (\<lambda>y. y \<le> x) xs)"
  have hd: "vec_get (ifl_buffer s) (ifl_start s) = Some (xs ! 0)"
    using ifl_pos_bound [OF assms c] ifl_pos_0 [OF assms c] c
    by (simp add: xs_def inflights_list_nth)
  have loop: "Inflights_FreeTo_loop s x 0 (ifl_start s) = Some (j, ifl_pos s j)"
    using FreeTo_loop_eq [OF assms, of 0 x] ifl_pos_0 [OF assms c] by (simp add: j_def xs_def Let_def)
  have j: "j \<le> ifl_count s" and dw: "drop j xs = dropWhile (\<lambda>y. y \<le> x) xs"
    using length_takeWhile_le [of _ xs] by (auto simp: j_def dropWhile_eq_drop xs_def)
  have xs: "xs = xs ! 0 # tl xs"
    using c by (metis hd_conv_nth length_greater_0_conv length_inflights_list list.collapse xs_def)
  note adv = advance_start [OF assms j c, folded xs_def]
  show ?thesis
  proof (cases "x < xs ! 0")
    case True
    then have "dropWhile (\<lambda>y. y \<le> x) xs = xs" by (subst xs, subst (3) xs) simp
    with True show ?thesis using c hd assms by (simp add: Inflights_FreeTo_def xs_def)
  next
    case False
    show ?thesis
    proof (cases "j < ifl_count s \<or> ifl_incoming_capacity s = None")
      case True
      then have "Inflights_FreeTo x s =
          Some (s\<lparr>ifl_count := ifl_count s - j, ifl_start := ifl_pos s j\<rparr>)"
        using False c hd loop by (auto simp: Inflights_FreeTo_def Let_def split: option.splits)
      then show ?thesis using True adv dw
        by (simp add: xs_def inflights_limit_def split: option.splits)
    next
      case empty: False
      then obtain d where d: "ifl_incoming_capacity s = Some d" "j = ifl_count s" using j by auto
      have "drop j xs = []" using d by (simp add: xs_def)
      then show ?thesis using False c hd loop d dw
        by (simp add: Inflights_FreeTo_def xs_def inflights_limit_def inflights_wf_def
              inflights_list_def)
    qed
  qed
qed

lemma Inflights_FreeFirstOne_ok:
  assumes "inflights_wf s"
  shows "\<exists>s'. Inflights_FreeFirstOne s = Some s' \<and> inflights_wf s' \<and>
           inflights_limit s' = inflights_limit s \<and>
           inflights_list s' =
             (case inflights_list s of [] \<Rightarrow> [] | y # ys \<Rightarrow> dropWhile (\<lambda>z. z \<le> y) ys)"
proof (cases "inflights_list s")
  case Nil
  then have "ifl_count s = 0" by (metis length_inflights_list list.size(3))
  then show ?thesis using assms Nil by (simp add: Inflights_FreeFirstOne_def)
next
  case (Cons y ys)
  then have c: "0 < ifl_count s" by (metis length_inflights_list length_greater_0_conv list.distinct(1))
  then have "vec_get (ifl_buffer s) (ifl_start s) = Some y"
    using ifl_pos_bound [OF assms c] ifl_pos_0 [OF assms c] Cons
    by (metis inflights_list_nth nth_Cons_0 vec_get_Some)
  then show ?thesis using c Cons Inflights_FreeTo_ok [OF assms, of y]
    by (simp add: Inflights_FreeFirstOne_def)
qed

lemma SetCapacity_unwrapped_list:
  assumes "inflights_wf s" "ifl_start s + ifl_count s \<le> ifl_capacity s" "ifl_capacity s < n"
  shows "inflights_list (s\<lparr>ifl_buffer_capacity := b, ifl_capacity := n,
           ifl_incoming_capacity := None\<rparr>) = inflights_list s"
  using assms by (auto simp: inflights_list_def ifl_pos_def)

text \<open>The wrapped case: the two pieces of the ring, put one after the other.\<close>

lemma ring_unroll:
  assumes "inflights_wf s" "ifl_capacity s < ifl_start s + ifl_count s"
  shows "drop (ifl_start s) (ifl_buffer s) @
         take (ifl_count s - (ifl_capacity s - ifl_start s)) (ifl_buffer s) = inflights_list s"
    (is "?xs @ ?ys = _")
proof (rule nth_equalityI)
  have len: "length (ifl_buffer s) = ifl_capacity s" "ifl_start s < ifl_capacity s"
      "ifl_count s \<le> ifl_capacity s"
    using assms by (auto simp: inflights_wf_def)
  then show "length (?xs @ ?ys) = length (inflights_list s)" using assms(2) by simp
  fix k assume "k < length (?xs @ ?ys)"
  then have k: "k < ifl_count s" using len assms(2) by simp
  show "(?xs @ ?ys) ! k = inflights_list s ! k"
  proof (cases "ifl_start s + k < ifl_capacity s")
    case True
    then have "k < ifl_capacity s - ifl_start s" by linarith
    with True show ?thesis using k len by (simp add: inflights_list_nth ifl_pos_def nth_append)
  next
    case False
    then have "(ifl_start s + k) mod ifl_capacity s = k - (ifl_capacity s - ifl_start s)"
      using len k by (simp add: le_mod_geq)
    moreover have "\<not> k < ifl_capacity s - ifl_start s" using False by linarith
    ultimately show ?thesis using False k len
      by (simp add: inflights_list_nth ifl_pos_def nth_append)
  qed
qed

lemma Inflights_SetCapacity_ok:
  assumes "inflights_wf s"
  shows "\<exists>s'. Inflights_SetCapacity n s = Some s' \<and> inflights_wf s' \<and>
           inflights_list s' = inflights_list s \<and> inflights_limit s' = n"
proof -
  consider (same) "ifl_capacity s = n"
    | (grow) "ifl_capacity s < n" "ifl_start s + ifl_count s \<le> ifl_capacity s"
    | (wrap) "ifl_capacity s < n" "ifl_capacity s < ifl_start s + ifl_count s"
    | (shrink) "n < ifl_capacity s" by linarith
  then show ?thesis
  proof cases
    case same
    then show ?thesis using assms
      by (auto simp: Inflights_SetCapacity_def inflights_wf_def inflights_list_def ifl_pos_def
            inflights_limit_def)
  next
    case grow
    then show ?thesis using assms SetCapacity_unwrapped_list [OF assms grow(2,1)]
      by (auto simp: Inflights_SetCapacity_def inflights_wf_def inflights_limit_def)
  next
    case wrap
    have w: "ifl_start s < ifl_capacity s" "length (ifl_buffer s) = ifl_capacity s"
        "ifl_count s \<le> ifl_capacity s"
      using assms wrap by (auto simp: inflights_wf_def)
    define s' where "s' = s\<lparr>ifl_buffer := inflights_list s, ifl_buffer_capacity := n, ifl_start := 0,
                       ifl_capacity := n, ifl_incoming_capacity := None\<rparr>"
    have "Inflights_SetCapacity n s = Some s'"
      using w wrap ring_unroll [OF assms wrap(2)]
      by (simp add: Inflights_SetCapacity_def Let_def s'_def max_def)
    moreover have "inflights_list s' = inflights_list s"
      using w(3) wrap(1) by (intro nth_equalityI) (simp_all add: inflights_list_nth s'_def ifl_pos_def)
    moreover have "inflights_wf s'" "inflights_limit s' = n"
      using w wrap by (auto simp: s'_def inflights_wf_def inflights_limit_def)
    ultimately show ?thesis by blast
  next
    case shrink
    then show ?thesis using assms
      by (auto simp: Inflights_SetCapacity_def inflights_wf_def inflights_list_def ifl_pos_def
            inflights_limit_def)
  qed
qed

lemma Inflights_Reset_ok:
  "inflights_wf s \<Longrightarrow> inflights_wf (Inflights_Reset s) \<and> inflights_list (Inflights_Reset s) = [] \<and>
     inflights_limit (Inflights_Reset s) = inflights_limit s"
  by (auto simp: Inflights_Reset_def inflights_wf_def inflights_list_def inflights_limit_def
        split: option.splits)

interpretation ifl: send_window Inflights_new Inflights_Add Inflights_FreeTo Inflights_FreeFirstOne
  Inflights_SetCapacity Inflights_Reset Inflights_Full inflights_list inflights_limit inflights_wf
proof unfold_locales
  show "inflights_wf (Inflights_new n)" for n by (rule Inflights_new_wf)
  show "inflights_list (Inflights_new n) = []" for n
    by (simp add: Inflights_new_def inflights_list_def)
  show "Inflights_Full w \<Longrightarrow> Inflights_Add x w = None" for w x
    by (simp add: Inflights_Add_def)
qed (use Inflights_Full_iff Inflights_Add_ok Inflights_FreeTo_ok Inflights_FreeFirstOne_ok
      Inflights_SetCapacity_ok Inflights_Reset_ok in blast)+

section \<open>Whole runs\<close>

datatype window_op = WAdd u64 | WFreeTo u64 | WFreeFirstOne | WSetCapacity nat | WReset

fun inflights_step :: "window_op \<Rightarrow> inflights \<Rightarrow> inflights option" where
  "inflights_step (WAdd x) s = Inflights_Add x s"
| "inflights_step (WFreeTo x) s = Inflights_FreeTo x s"
| "inflights_step WFreeFirstOne s = Inflights_FreeFirstOne s"
| "inflights_step (WSetCapacity n) s = Inflights_SetCapacity n s"
| "inflights_step WReset s = Some (Inflights_Reset s)"

fun inflights_run :: "window_op list \<Rightarrow> inflights \<Rightarrow> inflights option" where
  "inflights_run [] s = Some s"
| "inflights_run (x # xs) s = do { s' \<leftarrow> inflights_step x s; inflights_run xs s' }"

text \<open>The specification: a list of indexes and a limit.\<close>

fun window_step :: "window_op \<Rightarrow> u64 list \<times> nat \<Rightarrow> (u64 list \<times> nat) option" where
  "window_step (WAdd x) (xs, n) = (if length xs < n then Some (xs @ [x], n) else None)"
| "window_step (WFreeTo x) (xs, n) = Some (dropWhile (\<lambda>y. y \<le> x) xs, n)"
| "window_step WFreeFirstOne (xs, n) =
     Some (case xs of [] \<Rightarrow> [] | y # ys \<Rightarrow> dropWhile (\<lambda>z. z \<le> y) ys, n)"
| "window_step (WSetCapacity m) (xs, n) = Some (xs, m)"
| "window_step WReset (xs, n) = Some ([], n)"

fun window_run :: "window_op list \<Rightarrow> u64 list \<times> nat \<Rightarrow> (u64 list \<times> nat) option" where
  "window_run [] w = Some w"
| "window_run (x # xs) w = do { w' \<leftarrow> window_step x w; window_run xs w' }"

definition inflights_abs :: "inflights \<Rightarrow> u64 list \<times> nat" where
  "inflights_abs s = (inflights_list s, inflights_limit s)"

lemma inflights_step_refines:
  assumes "inflights_wf s"
  shows "map_option inflights_abs (inflights_step x s) = window_step x (inflights_abs s) \<and>
         (\<forall>s'. inflights_step x s = Some s' \<longrightarrow> inflights_wf s')"
proof (cases x)
  case (WAdd y)
  show ?thesis
  proof (cases "Inflights_Full s")
    case True
    then show ?thesis using WAdd ifl.full_iff [OF assms] ifl.add_full
      by (simp add: inflights_abs_def)
  next
    case False
    then show ?thesis using WAdd ifl.full_iff [OF assms] ifl.add_ok [OF assms False, of y]
      by (auto simp: inflights_abs_def)
  qed
next
  case (WFreeTo y)
  then show ?thesis using ifl.free_to_ok [OF assms, of y] by (auto simp: inflights_abs_def)
next
  case WFreeFirstOne
  then show ?thesis using ifl.free_first_ok [OF assms] by (auto simp: inflights_abs_def)
next
  case (WSetCapacity n)
  then show ?thesis using ifl.set_capacity_ok [OF assms, of n] by (auto simp: inflights_abs_def)
next
  case WReset
  then show ?thesis using ifl.reset_ok [OF assms] by (simp add: inflights_abs_def)
qed

lemma inflights_run_refines_from:
  "inflights_wf s \<Longrightarrow>
     map_option inflights_abs (inflights_run ops s) = window_run ops (inflights_abs s)"
proof (induction ops arbitrary: s)
  case Nil
  then show ?case by simp
next
  case (Cons x xs)
  note st = inflights_step_refines [OF Cons.prems, of x]
  show ?case
  proof (cases "inflights_step x s")
    case None
    then show ?thesis using st by (simp flip: st)
  next
    case (Some s')
    then have "window_step x (inflights_abs s) = Some (inflights_abs s')" "inflights_wf s'"
      using st by auto
    then show ?thesis using Some Cons.IH by simp
  qed
qed

text \<open>
  C18. Refinement of the in-flight window: from a fresh window of capacity \<open>n\<close>, every sequence of
  \<open>Add\<close>, \<open>FreeTo\<close>, \<open>FreeFirstOne\<close>, \<open>SetCapacity\<close> and \<open>Reset\<close> calls computes exactly what the
  list specification computes, and aborts exactly when the specification does (an \<open>Add\<close> on a
  full window). In particular neither the rotation of the ring, the lazy allocation nor a pending
  smaller capacity ever loses, reorders or duplicates an index.
\<close>

theorem inflights_run_refines:
  "map_option inflights_abs (inflights_run ops (Inflights_new n)) = window_run ops ([], n)"
proof -
  have "inflights_abs (Inflights_new n) = ([], n)"
    by (simp add: inflights_abs_def Inflights_new_def inflights_list_def inflights_limit_def)
  then show ?thesis using inflights_run_refines_from [OF Inflights_new_wf, of ops n] by simp
qed

end
