(* ===== verification/Progress.thy ===== *)
theory Progress
  imports Inflights
begin

text \<open>
  The leader's view of one follower (\<open>lib/core/progress.cc\<close>): the highest index known to match,
  the next index to send, the replication state and the send window. The second half states the
  invariant that every update the message handlers make to a \<open>Progress\<close> keeps.
\<close>

section \<open>Model\<close>

datatype ProgressState = Probe | Replicate | Snapshot

record progress =
  pr_matched :: u64
  pr_next_idx :: u64
  pr_state :: ProgressState
  pr_paused :: bool
  pr_pending_snapshot :: u64
  pr_pending_request_snapshot :: u64
  pr_recent_active :: bool
  pr_inflights :: inflights
  pr_commit_group_id :: u64
  pr_committed_index :: u64

definition Progress_new :: "u64 \<Rightarrow> nat \<Rightarrow> progress" where
  "Progress_new next_idx max_inflight =
     \<lparr>pr_matched = 0, pr_next_idx = next_idx, pr_state = Probe, pr_paused = False,
      pr_pending_snapshot = 0, pr_pending_request_snapshot = 0, pr_recent_active = False,
      pr_inflights = Inflights_new max_inflight, pr_commit_group_id = 0,
      pr_committed_index = 0\<rparr>"

definition Progress_Reset :: "u64 \<Rightarrow> progress \<Rightarrow> progress" where
  "Progress_Reset next_idx p =
     p\<lparr>pr_matched := 0, pr_next_idx := next_idx, pr_state := Probe, pr_paused := False,
       pr_pending_snapshot := 0, pr_pending_request_snapshot := 0, pr_recent_active := False,
       pr_inflights := Inflights_Reset (pr_inflights p)\<rparr>"

definition Progress_ResetState :: "ProgressState \<Rightarrow> progress \<Rightarrow> progress" where
  "Progress_ResetState st p =
     p\<lparr>pr_paused := False, pr_pending_snapshot := 0, pr_state := st,
       pr_inflights := Inflights_Reset (pr_inflights p)\<rparr>"

definition Progress_BecomeProbe :: "progress \<Rightarrow> progress" where
  "Progress_BecomeProbe p =
     (if pr_state p = Snapshot then
        let pending_snapshot = pr_pending_snapshot p;
            p1 = Progress_ResetState Probe p
        in p1\<lparr>pr_next_idx := max (pr_matched p1 + 1) (pending_snapshot + 1)\<rparr>
      else
        let p1 = Progress_ResetState Probe p
        in p1\<lparr>pr_next_idx := pr_matched p1 + 1\<rparr>)"

definition Progress_BecomeReplicate :: "progress \<Rightarrow> progress" where
  "Progress_BecomeReplicate p =
     (let p1 = Progress_ResetState Replicate p in p1\<lparr>pr_next_idx := pr_matched p1 + 1\<rparr>)"

definition Progress_BecomeSnapshot :: "u64 \<Rightarrow> progress \<Rightarrow> progress" where
  "Progress_BecomeSnapshot snapshot_idx p =
     (Progress_ResetState Snapshot p)\<lparr>pr_pending_snapshot := snapshot_idx\<rparr>"

definition Progress_IsSnapshotCaughtUp :: "progress \<Rightarrow> bool" where
  "Progress_IsSnapshotCaughtUp p \<longleftrightarrow>
     pr_state p = Snapshot \<and> pr_pending_snapshot p \<le> pr_matched p"

definition Progress_Resume :: "progress \<Rightarrow> progress" where
  "Progress_Resume p = p\<lparr>pr_paused := False\<rparr>"

definition Progress_Pause :: "progress \<Rightarrow> progress" where
  "Progress_Pause p = p\<lparr>pr_paused := True\<rparr>"

definition Progress_UpdateCommitted :: "u64 \<Rightarrow> progress \<Rightarrow> progress" where
  "Progress_UpdateCommitted committed_index p =
     (if pr_committed_index p < committed_index
      then p\<lparr>pr_committed_index := committed_index\<rparr> else p)"

definition Progress_MaybeUpdate :: "u64 \<Rightarrow> progress \<Rightarrow> bool \<times> progress" where
  "Progress_MaybeUpdate n p =
     (let need_update = pr_matched p < n;
          p1 = (if need_update then Progress_Resume (p\<lparr>pr_matched := n\<rparr>) else p);
          p2 = (if pr_next_idx p1 < n + 1 then p1\<lparr>pr_next_idx := n + 1\<rparr> else p1)
      in (need_update, p2))"

definition Progress_OptimisticUpdate :: "u64 \<Rightarrow> progress \<Rightarrow> progress" where
  "Progress_OptimisticUpdate n p = p\<lparr>pr_next_idx := n + 1\<rparr>"

definition Progress_UpdateState :: "u64 \<Rightarrow> progress \<Rightarrow> progress option" where
  "Progress_UpdateState last_idx p =
     (case pr_state p of
        Probe \<Rightarrow> Some (Progress_Pause p)
      | Replicate \<Rightarrow> do {
          let p1 = Progress_OptimisticUpdate last_idx p;
          ifl \<leftarrow> Inflights_Add last_idx (pr_inflights p1);
          Some (p1\<lparr>pr_inflights := ifl\<rparr>) }
      | Snapshot \<Rightarrow> None)"

definition Progress_SnapshotFailure :: "progress \<Rightarrow> progress" where
  "Progress_SnapshotFailure p = p\<lparr>pr_pending_snapshot := 0\<rparr>"

definition Progress_IsPaused :: "progress \<Rightarrow> bool" where
  "Progress_IsPaused p =
     (case pr_state p of
        Probe \<Rightarrow> pr_paused p
      | Replicate \<Rightarrow> Inflights_Full (pr_inflights p)
      | Snapshot \<Rightarrow> True)"

definition Progress_MaybeDecTo :: "u64 \<Rightarrow> u64 \<Rightarrow> u64 \<Rightarrow> progress \<Rightarrow> bool \<times> progress" where
  "Progress_MaybeDecTo rejected match_hint request_snapshot p =
     (if pr_state p = Replicate then
        (if rejected < pr_matched p \<or>
            (rejected = pr_matched p \<and> request_snapshot = kInvalidIndex) then (False, p)
         else if request_snapshot = kInvalidIndex
              then (True, p\<lparr>pr_next_idx := pr_matched p + 1\<rparr>)
              else (True, p\<lparr>pr_pending_request_snapshot := request_snapshot\<rparr>))
      else if (pr_next_idx p = 0 \<or> pr_next_idx p - 1 \<noteq> rejected) \<and>
              request_snapshot = kInvalidIndex then (False, p)
      else
        let p1 = (if request_snapshot = kInvalidIndex then
                    let n = min rejected (match_hint + 1)
                    in p\<lparr>pr_next_idx := (if n < pr_matched p + 1 then pr_matched p + 1 else n)\<rparr>
                  else if pr_pending_request_snapshot p = kInvalidIndex
                       then p\<lparr>pr_pending_request_snapshot := request_snapshot\<rparr>
                  else p)
        in (True, Progress_Resume p1))"

definition Progress_SetCommitGroupID :: "u64 \<Rightarrow> progress \<Rightarrow> progress" where
  "Progress_SetCommitGroupID group_id p = p\<lparr>pr_commit_group_id := group_id\<rparr>"

text \<open>
  How \<open>Raft::HandleAppendResponse\<close> applies a rejection and an acknowledgement to the progress of
  the sender. The flag says whether the handler goes on (sends an append, tries to commit).
\<close>

definition Progress_on_reject :: "u64 \<Rightarrow> u64 \<Rightarrow> u64 \<Rightarrow> progress \<Rightarrow> bool \<times> progress" where
  "Progress_on_reject rejected match_hint request_snapshot p =
     (let (changed, p1) = Progress_MaybeDecTo rejected match_hint request_snapshot p
      in (changed,
          if changed \<and> pr_state p1 = Replicate then Progress_BecomeProbe p1 else p1))"

definition Progress_on_ack :: "u64 \<Rightarrow> progress \<Rightarrow> (bool \<times> progress) option" where
  "Progress_on_ack index p =
     (let (updated, p1) = Progress_MaybeUpdate index p
      in if \<not> updated then Some (False, p1)
         else case pr_state p1 of
                Probe \<Rightarrow> Some (True, Progress_BecomeReplicate p1)
              | Replicate \<Rightarrow> do {
                  ifl \<leftarrow> Inflights_FreeTo index (pr_inflights p1);
                  let p2 = p1\<lparr>pr_inflights := ifl\<rparr>;
                  Some (True, if Progress_IsSnapshotCaughtUp p2 then Progress_BecomeProbe p2 else p2) }
              | Snapshot \<Rightarrow>
                  Some (True, if Progress_IsSnapshotCaughtUp p1 then Progress_BecomeProbe p1 else p1))"

text \<open>\<open>Raft::HandleSnapshotStatus\<close> and \<open>Raft::HandleHeartbeatResponse\<close>, their effect on the progress.\<close>

definition Progress_on_snap_status :: "bool \<Rightarrow> progress \<Rightarrow> progress" where
  "Progress_on_snap_status reject p =
     (if pr_state p \<noteq> Snapshot then p
      else
        let p1 = (if reject then Progress_BecomeProbe (Progress_SnapshotFailure p)
                  else Progress_BecomeProbe p)
        in (Progress_Pause p1)\<lparr>pr_pending_request_snapshot := kInvalidIndex\<rparr>)"

definition Progress_on_heartbeat_resp :: "u64 \<Rightarrow> progress \<Rightarrow> progress option" where
  "Progress_on_heartbeat_resp commit p =
     (let p1 = Progress_Resume ((Progress_UpdateCommitted commit p)\<lparr>pr_recent_active := True\<rparr>)
      in if pr_state p1 = Replicate \<and> Inflights_Full (pr_inflights p1)
         then do { ifl \<leftarrow> Inflights_FreeFirstOne (pr_inflights p1);
                   Some (p1\<lparr>pr_inflights := ifl\<rparr>) }
         else Some p1)"

lemmas progress_op_defs =
  Progress_Reset_def Progress_ResetState_def Progress_BecomeProbe_def Progress_BecomeReplicate_def
  Progress_BecomeSnapshot_def Progress_Resume_def Progress_Pause_def Progress_UpdateCommitted_def
  Progress_MaybeUpdate_def Progress_OptimisticUpdate_def Progress_SnapshotFailure_def
  Progress_MaybeDecTo_def Progress_SetCommitGroupID_def

section \<open>The invariant of a follower's progress\<close>

text \<open>
  The window is strictly increasing and lies strictly between \<open>matched\<close> and \<open>next_idx\<close>; it is
  empty outside \<open>Replicate\<close>; a pending snapshot exists in \<open>Snapshot\<close> only.
\<close>

definition window_sorted :: "u64 \<Rightarrow> u64 list \<Rightarrow> u64 \<Rightarrow> bool" where
  "window_sorted lo xs hi \<longleftrightarrow> sorted_wrt (<) xs \<and> (\<forall>x \<in> set xs. lo < x \<and> x < hi)"

definition progress_wf :: "progress \<Rightarrow> bool" where
  "progress_wf p \<longleftrightarrow>
     inflights_wf (pr_inflights p) \<and>
     pr_matched p < pr_next_idx p \<and>
     window_sorted (pr_matched p) (inflights_list (pr_inflights p)) (pr_next_idx p) \<and>
     (pr_state p \<noteq> Replicate \<longrightarrow> inflights_list (pr_inflights p) = []) \<and>
     (pr_state p \<noteq> Snapshot \<longrightarrow> pr_pending_snapshot p = 0)"

lemma window_sorted_Nil [simp]: "window_sorted lo [] hi"
  by (simp add: window_sorted_def)

lemma window_sorted_snoc:
  "window_sorted lo xs hi \<Longrightarrow> lo < x \<Longrightarrow> hi \<le> x \<Longrightarrow> x < hi' \<Longrightarrow> window_sorted lo (xs @ [x]) hi'"
  by (fastforce simp: window_sorted_def sorted_wrt_append)

lemma window_sorted_dropWhile:
  assumes "window_sorted lo xs hi" "hi \<le> hi'"
  shows "window_sorted n (dropWhile (\<lambda>y. y \<le> n) xs) hi'"
proof -
  have "n < y" if "y \<in> set (dropWhile (\<lambda>y. y \<le> n) xs)" for y
    using assms(1) that
    by (induction xs) (auto simp: window_sorted_def split: if_splits)
  then show ?thesis
    using assms by (auto simp: window_sorted_def sorted_wrt_dropWhile dest!: set_dropWhileD)
qed

lemma u64_Suc: "(m::u64) < n \<Longrightarrow> m < m + 1" "(m::u64) < n \<Longrightarrow> m + 1 \<le> n"
  by (simp_all add: u64_nat_simps unat_Suc_u64)

lemma window_sorted_suffix:
  "window_sorted lo (xs @ ys) hi \<Longrightarrow> window_sorted lo ys hi"
  by (simp add: window_sorted_def sorted_wrt_append)

lemma window_sorted_free_first:
  assumes "window_sorted lo xs hi"
  shows "window_sorted lo (case xs of [] \<Rightarrow> [] | y # ys \<Rightarrow> dropWhile (\<lambda>z. z \<le> y) ys) hi"
proof (cases xs)
  case (Cons y ys)
  have "xs = (y # takeWhile (\<lambda>z. z \<le> y) ys) @ dropWhile (\<lambda>z. z \<le> y) ys" using Cons by simp
  then show ?thesis using assms Cons window_sorted_suffix by (metis list.simps(5))
qed simp

lemma progress_wf_ResetState:
  "progress_wf p \<Longrightarrow> m < n \<Longrightarrow> st \<noteq> Snapshot \<Longrightarrow>
     progress_wf ((Progress_ResetState st p)\<lparr>pr_matched := m, pr_next_idx := n\<rparr>)"
  by (simp add: progress_wf_def Progress_ResetState_def ifl.reset_ok)

lemma progress_wf_BecomeProbe [wf_intros]:
  assumes "progress_wf p" shows "progress_wf (Progress_BecomeProbe p)"
proof -
  have "pr_matched p < pr_next_idx p" using assms by (simp add: progress_wf_def)
  note lt = u64_Suc(1) [OF this]
  then have "pr_matched p < max (pr_matched p + 1) (pr_pending_snapshot p + 1)"
    by (rule less_le_trans) simp
  with lt show ?thesis using assms
    by (simp add: progress_wf_def Progress_BecomeProbe_def Progress_ResetState_def ifl.reset_ok Let_def)
qed

lemma progress_wf_BecomeReplicate [wf_intros]:
  assumes "progress_wf p" shows "progress_wf (Progress_BecomeReplicate p)"
proof -
  have "pr_matched p < pr_next_idx p" using assms by (simp add: progress_wf_def)
  from u64_Suc(1) [OF this] show ?thesis using assms
    by (simp add: progress_wf_def Progress_BecomeReplicate_def Progress_ResetState_def ifl.reset_ok
        Let_def)
qed

lemma progress_wf_BecomeSnapshot [wf_intros]:
  "progress_wf p \<Longrightarrow> progress_wf (Progress_BecomeSnapshot i p)"
  by (simp add: progress_wf_def Progress_BecomeSnapshot_def Progress_ResetState_def ifl.reset_ok)

lemma progress_wf_Reset [wf_intros]:
  "progress_wf p \<Longrightarrow> m < n \<Longrightarrow> progress_wf ((Progress_Reset n p)\<lparr>pr_matched := m\<rparr>)"
  by (simp add: progress_wf_def Progress_Reset_def ifl.reset_ok)

lemma progress_wf_flags [wf_intros]:
  assumes "progress_wf p"
  shows "progress_wf (p\<lparr>pr_paused := b\<rparr>)" "progress_wf (p\<lparr>pr_recent_active := b\<rparr>)"
    "progress_wf (p\<lparr>pr_committed_index := i\<rparr>)" "progress_wf (p\<lparr>pr_commit_group_id := i\<rparr>)"
    "progress_wf (p\<lparr>pr_pending_request_snapshot := i\<rparr>)" "progress_wf (p\<lparr>pr_pending_snapshot := 0\<rparr>)"
  using assms by (simp_all add: progress_wf_def)

lemma progress_wf_UpdateState [wf_intros]:
  assumes "progress_wf p" "Progress_UpdateState l p = Some p'"
    "pr_state p = Replicate \<Longrightarrow> pr_next_idx p \<le> l \<and> l < u64_max"
  shows "progress_wf p'"
proof (cases "pr_state p")
  case Probe
  then show ?thesis using assms by (auto simp: Progress_UpdateState_def Progress_Pause_def wf_intros)
next
  case Replicate
  then obtain w where w: "Inflights_Add l (pr_inflights p) = Some w"
      "p' = p\<lparr>pr_next_idx := l + 1, pr_inflights := w\<rparr>"
    using assms(2) by (auto simp: Progress_UpdateState_def Progress_OptimisticUpdate_def bind_eq_Some_conv)
  have l: "pr_next_idx p \<le> l" "l < l + 1" "pr_matched p < l"
    using assms(1,3) Replicate u64_Suc(1) [of l u64_max] by (auto simp: progress_wf_def)
  have wf: "inflights_wf (pr_inflights p)" and nf: "\<not> Inflights_Full (pr_inflights p)"
    using assms(1) w(1) by (auto simp: progress_wf_def ifl.add_full)
  have "inflights_wf w \<and> inflights_list w = inflights_list (pr_inflights p) @ [l]"
    using ifl.add_ok [OF wf nf, of l] w(1) by auto
  moreover have "window_sorted (pr_matched p) (inflights_list (pr_inflights p) @ [l]) (l + 1)"
    using assms(1) l by (intro window_sorted_snoc [where hi = "pr_next_idx p"])
      (auto simp: progress_wf_def)
  ultimately show ?thesis using assms(1) Replicate l w(2) by (auto simp: progress_wf_def)
next
  case Snapshot
  then show ?thesis using assms by (simp add: Progress_UpdateState_def)
qed

lemma progress_wf_on_reject [wf_intros]:
  assumes "progress_wf p" shows "progress_wf (snd (Progress_on_reject r h q p))"
proof -
  have m: "pr_matched p < pr_next_idx p" using assms by (simp add: progress_wf_def)
  note lt = u64_Suc(1) [OF m] and le = u64_Suc(2) [OF m]
  show ?thesis
  proof (cases "pr_state p = Replicate")
    case True
    then show ?thesis using assms lt
      by (auto simp: Progress_on_reject_def Progress_MaybeDecTo_def Progress_BecomeProbe_def
            Progress_ResetState_def progress_wf_def ifl.reset_ok Let_def)
  next
    case False
    then show ?thesis using assms lt
      by (auto simp: Progress_on_reject_def Progress_MaybeDecTo_def Progress_Resume_def
            progress_wf_def Let_def not_less min_def)
  qed
qed

lemma progress_wf_MaybeUpdate_fst:
  assumes "progress_wf p" "n < u64_max" "Progress_MaybeUpdate n p = (b, p1)"
  shows "b = (pr_matched p < n)" "\<not> b \<Longrightarrow> p1 = p"
    "b \<Longrightarrow> pr_matched p1 = n \<and> n < pr_next_idx p1 \<and> pr_next_idx p \<le> pr_next_idx p1"
    "pr_state p1 = pr_state p" "pr_inflights p1 = pr_inflights p"
    "pr_pending_snapshot p1 = pr_pending_snapshot p"
proof -
  have m: "pr_matched p < pr_next_idx p" using assms by (simp add: progress_wf_def)
  have s: "n + 1 \<le> pr_next_idx p" if "n \<le> pr_matched p"
    using m that u64_Suc(2) by (meson le_less_trans)
  show "b = (pr_matched p < n)" "pr_state p1 = pr_state p" "pr_inflights p1 = pr_inflights p"
    "pr_pending_snapshot p1 = pr_pending_snapshot p"
    using assms(3) by (auto simp: Progress_MaybeUpdate_def Let_def Progress_Resume_def split: if_splits)
  show "\<not> b \<Longrightarrow> p1 = p"
    using assms(3) s by (auto simp: Progress_MaybeUpdate_def Let_def not_less split: if_splits)
  show "b \<Longrightarrow> pr_matched p1 = n \<and> n < pr_next_idx p1 \<and> pr_next_idx p \<le> pr_next_idx p1"
    using assms(3) u64_Suc(1) [OF assms(2)]
    by (auto simp: Progress_MaybeUpdate_def Let_def not_less Progress_Resume_def split: if_splits)
qed

lemma progress_wf_on_ack:
  assumes "progress_wf p" "n < u64_max"
  shows "\<exists>b p'. Progress_on_ack n p = Some (b, p') \<and> progress_wf p' \<and>
           b = (pr_matched p < n) \<and> pr_matched p' = max (pr_matched p) n"
proof -
  obtain b p1 where mu: "Progress_MaybeUpdate n p = (b, p1)" by fastforce
  note f = progress_wf_MaybeUpdate_fst [OF assms mu]
  show ?thesis
  proof (cases b)
    case False
    then show ?thesis using assms mu f by (auto simp: Progress_on_ack_def max_def)
  next
    case True
    have mx: "max (pr_matched p) n = n" using True f(1) by simp
    have m1: "pr_matched p1 = n" "n < n + 1" "n < pr_next_idx p1"
      using True f(3) u64_Suc(1) [OF assms(2)] by auto
    have wf: "inflights_wf (pr_inflights p)" using assms by (simp add: progress_wf_def)
    show ?thesis
    proof (cases "pr_state p")
      case Probe
      then show ?thesis using True mu f m1 assms(1) mx
        by (auto simp: Progress_on_ack_def Progress_BecomeReplicate_def Progress_ResetState_def
              progress_wf_def ifl.reset_ok Let_def)
    next
      case Replicate
      obtain w where w: "Inflights_FreeTo n (pr_inflights p) = Some w" "inflights_wf w"
          "inflights_list w = dropWhile (\<lambda>y. y \<le> n) (inflights_list (pr_inflights p))"
        using ifl.free_to_ok [OF wf, of n] by auto
      have "window_sorted n (inflights_list w) (pr_next_idx p1)"
        unfolding w(3) using assms(1) f(3) True
        by (intro window_sorted_dropWhile) (auto simp: progress_wf_def)
      then show ?thesis using True mu f m1 assms(1) w Replicate mx
        by (auto simp: Progress_on_ack_def Progress_IsSnapshotCaughtUp_def progress_wf_def)
    next
      case Snapshot
      have "n < max (n + 1) k" for k using m1(2) by (rule less_le_trans) simp
      then show ?thesis using True mu f m1 assms(1) Snapshot mx
        by (auto simp: Progress_on_ack_def Progress_BecomeProbe_def Progress_ResetState_def
              progress_wf_def ifl.reset_ok Let_def)
    qed
  qed
qed

lemma progress_wf_on_snap_status [wf_intros]:
  "progress_wf p \<Longrightarrow> progress_wf (Progress_on_snap_status b p)"
  by (auto simp: Progress_on_snap_status_def Progress_Pause_def Progress_SnapshotFailure_def Let_def
        intro!: wf_intros)

lemma progress_wf_on_heartbeat_resp:
  assumes "progress_wf p"
  shows "\<exists>p'. Progress_on_heartbeat_resp c p = Some p' \<and> progress_wf p'"
proof -
  define p1 where
    "p1 = Progress_Resume ((Progress_UpdateCommitted c p)\<lparr>pr_recent_active := True\<rparr>)"
  have p1: "progress_wf p1"
    using assms by (auto simp: p1_def Progress_Resume_def Progress_UpdateCommitted_def intro!: wf_intros)
  then have wf: "inflights_wf (pr_inflights p1)" by (simp add: progress_wf_def)
  obtain w where w: "Inflights_FreeFirstOne (pr_inflights p1) = Some w" "inflights_wf w"
      "inflights_list w = (case inflights_list (pr_inflights p1) of [] \<Rightarrow> []
         | y # ys \<Rightarrow> dropWhile (\<lambda>z. z \<le> y) ys)"
    using ifl.free_first_ok [OF wf] by auto
  show ?thesis
  proof (cases "pr_state p1 = Replicate \<and> Inflights_Full (pr_inflights p1)")
    case True
    then show ?thesis
      using p1 w window_sorted_free_first
        [of "pr_matched p1" "inflights_list (pr_inflights p1)" "pr_next_idx p1"]
      by (auto simp: Progress_on_heartbeat_resp_def Let_def p1_def [symmetric] progress_wf_def)
  next
    case False
    then show ?thesis using p1 by (auto simp: Progress_on_heartbeat_resp_def Let_def p1_def [symmetric])
  qed
qed

section \<open>All updates a leader makes to a progress\<close>

text \<open>
  One rule per place where the leader changes a \<open>Progress\<close>. The premises are what the caller
  knows: indexes of entries are below \<open>u64_max\<close>, a batch sent in \<open>Replicate\<close> starts at
  \<open>next_idx\<close>, and a reset installs a matched index below the next one.
\<close>

inductive progress_step :: "progress \<Rightarrow> progress \<Rightarrow> bool" where
  reset: "m < n \<Longrightarrow> progress_step p ((Progress_Reset n p)\<lparr>pr_matched := m\<rparr>)"
| ack: "n < u64_max \<Longrightarrow> Progress_on_ack n p = Some (b, p') \<Longrightarrow> progress_step p p'"
| reject: "progress_step p (snd (Progress_on_reject r h q p))"
| snap_status: "progress_step p (Progress_on_snap_status b p)"
| heartbeat_resp: "Progress_on_heartbeat_resp c p = Some p' \<Longrightarrow> progress_step p p'"
| unreachable: "pr_state p = Replicate \<Longrightarrow> progress_step p (Progress_BecomeProbe p)"
| become_replicate: "progress_step p (Progress_BecomeReplicate p)"
| send: "Progress_UpdateState l p = Some p' \<Longrightarrow>
     (pr_state p = Replicate \<Longrightarrow> pr_next_idx p \<le> l \<and> l < u64_max) \<Longrightarrow> progress_step p p'"
| send_snapshot: "progress_step p (Progress_BecomeSnapshot i p)"
| set_capacity: "Inflights_SetCapacity c (pr_inflights p) = Some w \<Longrightarrow>
     progress_step p (p\<lparr>pr_inflights := w\<rparr>)"
| committed: "progress_step p (Progress_UpdateCommitted i p)"
| group: "progress_step p (Progress_SetCommitGroupID g p)"
| active: "progress_step p (p\<lparr>pr_recent_active := b\<rparr>)"
| free_buffer: "Inflights_Count (pr_inflights p) = 0 \<Longrightarrow> progress_step p (p\<lparr>pr_inflights := Inflights_Reset (pr_inflights p)\<rparr>)"

inductive progress_reachable :: "progress \<Rightarrow> bool" where
  start: "0 < n \<Longrightarrow> progress_reachable (Progress_new n c)"
| step: "progress_reachable p \<Longrightarrow> progress_step p p' \<Longrightarrow> progress_reachable p'"

lemma progress_wf_step: "progress_step p p' \<Longrightarrow> progress_wf p \<Longrightarrow> progress_wf p'"
proof (induction rule: progress_step.induct)
  case (ack n p b p')
  then show ?case using progress_wf_on_ack [of p n] by auto
next
  case (heartbeat_resp c p p')
  then show ?case using progress_wf_on_heartbeat_resp [of p c] by auto
next
  case (send l p p')
  then show ?case by (blast intro: progress_wf_UpdateState)
next
  case (set_capacity c p w)
  then show ?case using ifl.set_capacity_ok [of "pr_inflights p" c] by (auto simp: progress_wf_def)
next
  case (free_buffer p)
  then show ?case using ifl.reset_ok [of "pr_inflights p"] by (auto simp: progress_wf_def)
qed (auto simp: Progress_UpdateCommitted_def Progress_SetCommitGroupID_def intro: wf_intros)

lemma progress_wf_new: "0 < n \<Longrightarrow> progress_wf (Progress_new n c)"
  by (simp add: progress_wf_def Progress_new_def ifl.new_wf ifl.new_list)

lemma progress_reachable_wf: "progress_reachable p \<Longrightarrow> progress_wf p"
  by (induction rule: progress_reachable.induct) (auto intro: progress_wf_new progress_wf_step)

text \<open>
  C19. Invariant of replication progress: whatever sequence of acknowledgements, rejections,
  sends, snapshots, heartbeats, resets, window resizes and freed buffers a leader applies to the progress of a
  peer, the next index to send stays above the matched index, and the messages in flight are
  strictly increasing indexes strictly between the two, present in the \<open>Replicate\<close> state only.
\<close>

theorem progress_invariant:
  assumes "progress_reachable p"
  shows "pr_matched p < pr_next_idx p \<and>
         sorted_wrt (<) (inflights_list (pr_inflights p)) \<and>
         (\<forall>x \<in> set (inflights_list (pr_inflights p)). pr_matched p < x \<and> x < pr_next_idx p) \<and>
         (pr_state p \<noteq> Replicate \<longrightarrow> inflights_list (pr_inflights p) = []) \<and>
         (pr_state p \<noteq> Snapshot \<longrightarrow> pr_pending_snapshot p = 0)"
  using progress_reachable_wf [OF assms] by (simp add: progress_wf_def window_sorted_def)

text \<open>A follower at index 4 that acknowledged index 3 and has the batch up to 6 in flight.\<close>

definition progress_example :: progress where
  "progress_example =
     (Progress_new 4 2)\<lparr>pr_matched := 3, pr_state := Replicate, pr_next_idx := 7,
        pr_inflights := \<lparr>ifl_start = 0, ifl_count = 1, ifl_buffer = [6], ifl_buffer_capacity = 2,
                         ifl_capacity = 2, ifl_incoming_capacity = None\<rparr>\<rparr>"

lemma progress_example_reachable: "progress_reachable progress_example"
proof -
  have a: "Progress_on_ack 3 (Progress_new 4 2) =
      Some (True, (Progress_new 4 2)\<lparr>pr_matched := 3, pr_state := Replicate\<rparr>)"
    by (simp add: Progress_on_ack_def Progress_MaybeUpdate_def Progress_new_def Progress_Resume_def
        Progress_BecomeReplicate_def Progress_ResetState_def Inflights_Reset_def Inflights_new_def Let_def)
  have s: "Progress_UpdateState 6 ((Progress_new 4 2)\<lparr>pr_matched := 3, pr_state := Replicate\<rparr>) =
      Some progress_example"
    by (simp add: Progress_UpdateState_def Progress_OptimisticUpdate_def Progress_new_def
        Inflights_Add_def Inflights_Full_def Inflights_new_def Let_def progress_example_def vec_grow_def)
  show ?thesis
    by (rule progress_reachable.step [OF progress_reachable.step [OF progress_reachable.start [of 4 2]
            progress_step.ack [OF _ a]] progress_step.send [OF s]])
       (simp_all add: u64_max_def Progress_new_def)
qed

theorem progress_invariant_witness:
  "progress_reachable progress_example \<and> inflights_list (pr_inflights progress_example) = [6] \<and>
   pr_matched progress_example < 6 \<and> 6 < pr_next_idx progress_example"
proof -
  have l: "inflights_list (pr_inflights progress_example) = [6]"
    by (simp add: progress_example_def inflights_list_def ifl_pos_def)
  show ?thesis using progress_invariant [OF progress_example_reachable] progress_example_reachable l
    by auto
qed

text \<open>
  Probing converges: when a probed follower rejects the outstanding probe at an index above
  its matched index, the rejection is accepted, the next probe is strictly lower, stays above the
  matched index, and the progress is free to send again. (A rejection of any other index is stale
  and changes nothing.) So a leader finds the match point in finitely many rejections.
\<close>

theorem probe_reject_descends:
  assumes "progress_wf p" "pr_state p = Probe" "pr_matched p < rejected"
  shows "if rejected = pr_next_idx p - 1
         then \<exists>p'. Progress_on_reject rejected hint kInvalidIndex p = (True, p') \<and>
                pr_matched p' = pr_matched p \<and> pr_matched p' < pr_next_idx p' \<and>
                pr_next_idx p' < pr_next_idx p \<and> \<not> Progress_IsPaused p'
         else Progress_on_reject rejected hint kInvalidIndex p = (False, p)"
proof -
  have m: "pr_matched p < pr_next_idx p" using assms(1) by (simp add: progress_wf_def)
  then have nz: "pr_next_idx p \<noteq> 0" by auto
  then have lt: "pr_next_idx p - 1 < pr_next_idx p" by (simp add: u64_nat_simps unat_sub_one_u64)
  have s: "pr_matched p < pr_matched p + 1" "pr_matched p + 1 \<le> rejected"
    using u64_Suc [OF assms(3)] by auto
  show ?thesis
    using assms(2) nz s lt
    by (auto simp: Progress_on_reject_def Progress_MaybeDecTo_def Progress_Resume_def
          Progress_IsPaused_def Let_def min_def)
qed

theorem probe_reject_descends_witness:
  "\<exists>p'. Progress_on_reject 9 4 kInvalidIndex (Progress_new 10 2) = (True, p') \<and>
        pr_next_idx p' < 10 \<and> \<not> Progress_IsPaused p'"
proof -
  have "progress_wf (Progress_new 10 2)" by (rule progress_wf_new) simp
  from probe_reject_descends [OF this, of 9 4] show ?thesis by (auto simp: Progress_new_def)
qed

end
