(* ===== verification/Quorum.thy ===== *)
theory Quorum
  imports Raft_Prelude
begin

text \<open>
  Quorums: the majority of one voter set (\<open>lib/core/majority_conf.cc\<close>) and the joint
  configuration of an incoming and an outgoing voter set (\<open>lib/core/joint_conf.cc\<close>), with the two
  questions asked of them: how an election stands, and up to which index the log is committed.
\<close>

section \<open>Model\<close>

datatype VoteResult = Pending | Lost | Won

record Index =
  ix_index :: u64
  ix_group_id :: u64

text \<open>The interface \<open>AckedIndexer\<close>: what a voter is known to have acknowledged.\<close>

type_synonym acked_indexer = "u64 \<Rightarrow> Index option"

type_synonym MajorityConfig = "u64 list" \<comment> \<open>a \<open>Set<uint64_t>\<close> in iteration order\<close>

record JointConfiguration =
  jc_incoming :: MajorityConfig
  jc_outgoing :: MajorityConfig

definition AckIndexer_AckedIndex :: "(u64 \<times> Index) list \<Rightarrow> acked_indexer" where
  "AckIndexer_AckedIndex m voter = map_of m voter"

definition majority :: "nat \<Rightarrow> nat" where
  "majority n = n div 2 + 1"

text \<open>The entry of a voter in \<open>matched\<close>, with the default for an unknown voter.\<close>

definition acked_or_zero :: "acked_indexer \<Rightarrow> u64 \<Rightarrow> Index" where
  "acked_or_zero l voter =
     (case l voter of Some x \<Rightarrow> x | None \<Rightarrow> \<lparr>ix_index = 0, ix_group_id = 0\<rparr>)"

text \<open>
  \<open>std::sort\<close> by descending index. The order of equal indexes is unspecified in C++;
  \<open>committed_of_sorted_order_free\<close> below shows that no answer depends on it.
\<close>

definition sort_desc :: "Index list \<Rightarrow> Index list" where
  "sort_desc ms = rev (sort_key ix_index ms)"

text \<open>The loop over the groups: the early return (\<open>Inl\<close>) or the final \<open>single_group\<close>.\<close>

fun group_scan :: "u64 \<Rightarrow> u64 \<Rightarrow> bool \<Rightarrow> Index list \<Rightarrow> u64 + bool" where
  "group_scan quorum_commit_index checked_group_id single_group [] = Inr single_group"
| "group_scan quorum_commit_index checked_group_id single_group (m # ms) =
     (if ix_group_id m = 0 then group_scan quorum_commit_index checked_group_id False ms
      else if checked_group_id = 0
           then group_scan quorum_commit_index (ix_group_id m) single_group ms
      else if checked_group_id = ix_group_id m
           then group_scan quorum_commit_index checked_group_id single_group ms
      else Inl (min (ix_index m) quorum_commit_index))"

text \<open>The part of \<open>MajorityConfig::CommittedIndex\<close> after the sort.\<close>

definition committed_of_sorted :: "bool \<Rightarrow> Index list \<Rightarrow> u64 \<times> bool" where
  "committed_of_sorted use_group_commit matched =
     (let quorum = majority (length matched);
          quorum_index = matched ! (quorum - 1)
      in if \<not> use_group_commit then (ix_index quorum_index, False)
         else case group_scan (ix_index quorum_index) (ix_group_id quorum_index) True matched of
                Inl i \<Rightarrow> (i, True)
              | Inr single_group \<Rightarrow>
                  if single_group then (ix_index quorum_index, False)
                  else (ix_index (last matched), False))"

definition MajorityConfig_CommittedIndex ::
  "bool \<Rightarrow> acked_indexer \<Rightarrow> MajorityConfig \<Rightarrow> u64 \<times> bool" where
  "MajorityConfig_CommittedIndex use_group_commit l cfg =
     (if cfg = [] then (u64_max, True)
      else committed_of_sorted use_group_commit (sort_desc (map (acked_or_zero l) cfg)))"

definition MajorityConfig_GetVoteResult :: "(u64 \<Rightarrow> bool option) \<Rightarrow> MajorityConfig \<Rightarrow> VoteResult" where
  "MajorityConfig_GetVoteResult check cfg =
     (if cfg = [] then Won
      else
        let yes = length (filter (\<lambda>v. check v = Some True) cfg);
            missing = length (filter (\<lambda>v. check v = None) cfg);
            q = majority (length cfg)
        in if q \<le> yes then Won else if q \<le> yes + missing then Pending else Lost)"

definition JointConfiguration_CommittedIndex ::
  "bool \<Rightarrow> acked_indexer \<Rightarrow> JointConfiguration \<Rightarrow> u64 \<times> bool" where
  "JointConfiguration_CommittedIndex use_group_commit l jc =
     (let (i_idx, i_use) = MajorityConfig_CommittedIndex use_group_commit l (jc_incoming jc);
          (o_idx, o_use) = MajorityConfig_CommittedIndex use_group_commit l (jc_outgoing jc)
      in (min i_idx o_idx, i_use \<and> o_use))"

definition JointConfiguration_GetVoteResult ::
  "(u64 \<Rightarrow> bool option) \<Rightarrow> JointConfiguration \<Rightarrow> VoteResult" where
  "JointConfiguration_GetVoteResult check jc =
     (let inc = MajorityConfig_GetVoteResult check (jc_incoming jc);
          out = MajorityConfig_GetVoteResult check (jc_outgoing jc)
      in if inc = Won \<and> out = Won then Won
         else if inc = Lost \<or> out = Lost then Lost
         else Pending)"

definition JointConfiguration_Clear :: "JointConfiguration \<Rightarrow> JointConfiguration" where
  "JointConfiguration_Clear jc = \<lparr>jc_incoming = [], jc_outgoing = []\<rparr>"

definition JointConfiguration_Contains :: "u64 \<Rightarrow> JointConfiguration \<Rightarrow> bool" where
  "JointConfiguration_Contains v jc \<longleftrightarrow> v \<in> set (jc_incoming jc) \<or> v \<in> set (jc_outgoing jc)"

definition JointConfiguration_IsSingleton :: "JointConfiguration \<Rightarrow> bool" where
  "JointConfiguration_IsSingleton jc \<longleftrightarrow> jc_outgoing jc = [] \<and> length (jc_incoming jc) = 1"

definition JointConfiguration_IDs :: "JointConfiguration \<Rightarrow> u64 list" where
  "JointConfiguration_IDs jc = fold List.insert (jc_outgoing jc) (jc_incoming jc)"

definition joint_wf :: "JointConfiguration \<Rightarrow> bool" where
  "joint_wf jc \<longleftrightarrow> distinct (jc_incoming jc) \<and> distinct (jc_outgoing jc)"

section \<open>Quorums\<close>

text \<open>A set of nodes is a quorum of a voter set when it holds more than half of it.\<close>

definition majority_quorum :: "MajorityConfig \<Rightarrow> u64 set \<Rightarrow> bool" where
  "majority_quorum cfg S \<longleftrightarrow> cfg = [] \<or> length cfg < 2 * card (set cfg \<inter> S)"

definition joint_quorum :: "JointConfiguration \<Rightarrow> u64 set \<Rightarrow> bool" where
  "joint_quorum jc S \<longleftrightarrow> majority_quorum (jc_incoming jc) S \<and> majority_quorum (jc_outgoing jc) S"

text \<open>The contract the consensus argument needs of a family of quorum systems.\<close>

locale quorum_family =
  fixes quorum :: "'c \<Rightarrow> 'n set \<Rightarrow> bool" and valid :: "'c \<Rightarrow> bool"
  assumes quorum_intersect: "valid c \<Longrightarrow> quorum c P \<Longrightarrow> quorum c Q \<Longrightarrow> P \<inter> Q \<noteq> {}"
    and quorum_mono: "quorum c P \<Longrightarrow> P \<subseteq> Q \<Longrightarrow> quorum c Q"
begin

lemma quorum_nonempty: "valid c \<Longrightarrow> quorum c Q \<Longrightarrow> Q \<noteq> {}"
  using quorum_intersect [of c Q Q] by simp

text \<open>Votes for two candidates cannot both reach a quorum if nobody votes twice.\<close>

lemma unique_choice:
  assumes "valid c" "quorum c {v. vote v = Some a}" "quorum c {v. vote v = Some b}"
  shows "a = b"
  using quorum_intersect [OF assms] by auto

lemma meets_complement: "valid c \<Longrightarrow> quorum c P \<Longrightarrow> \<not> quorum c (- P)"
  using quorum_intersect [of c P "- P"] by auto

end

lemma majority_quorum_intersect:
  assumes "distinct cfg" "cfg \<noteq> []" "majority_quorum cfg P" "majority_quorum cfg Q"
  shows "set cfg \<inter> P \<inter> Q \<noteq> {}"
proof
  assume e: "set cfg \<inter> P \<inter> Q = {}"
  have "card (set cfg \<inter> P) + card (set cfg \<inter> Q) = card ((set cfg \<inter> P) \<union> (set cfg \<inter> Q))"
    using e by (intro card_Un_disjoint [symmetric]) auto
  also have "\<dots> \<le> card (set cfg)" by (intro card_mono) auto
  also have "\<dots> = length cfg" using assms(1) by (rule distinct_card)
  finally show False using assms(2-4) by (simp add: majority_quorum_def)
qed

lemma majority_quorum_mono: "majority_quorum cfg P \<Longrightarrow> P \<subseteq> Q \<Longrightarrow> majority_quorum cfg Q"
proof -
  assume a: "majority_quorum cfg P" "P \<subseteq> Q"
  have "card (set cfg \<inter> P) \<le> card (set cfg \<inter> Q)" using a(2) by (intro card_mono) auto
  then show ?thesis using a(1) by (auto simp: majority_quorum_def)
qed

interpretation maj: quorum_family majority_quorum "\<lambda>cfg. distinct cfg \<and> cfg \<noteq> []"
  by unfold_locales (use majority_quorum_intersect in blast, rule majority_quorum_mono)

interpretation joint: quorum_family joint_quorum "\<lambda>jc. joint_wf jc \<and> jc_incoming jc \<noteq> []"
proof unfold_locales
  show "P \<inter> Q \<noteq> {}"
    if "joint_wf c \<and> jc_incoming c \<noteq> []" "joint_quorum c P" "joint_quorum c Q" for c P Q
    using that maj.quorum_intersect [of "jc_incoming c" P Q] by (auto simp: joint_quorum_def joint_wf_def)
  show "joint_quorum c Q" if "joint_quorum c P" "P \<subseteq> Q" for c P Q
    using that maj.quorum_mono by (auto simp: joint_quorum_def)
qed

lemma majority_le_iff: "majority n \<le> k \<longleftrightarrow> n < 2 * k"
  by (auto simp: majority_def)

lemma majority_pos: "0 < majority n" and majority_le: "0 < n \<Longrightarrow> majority n \<le> n"
  by (simp_all add: majority_def)

lemma majority_quorum_filter:
  "distinct cfg \<Longrightarrow> cfg \<noteq> [] \<Longrightarrow>
     majority_quorum cfg S \<longleftrightarrow> majority (length cfg) \<le> length (filter (\<lambda>v. v \<in> S) cfg)"
  by (simp add: majority_quorum_def majority_le_iff length_filter_distinct Int_def)

section \<open>Elections\<close>

lemma maj_won_iff:
  assumes "distinct cfg"
  shows "MajorityConfig_GetVoteResult check cfg = Won \<longleftrightarrow>
         majority_quorum cfg {v. check v = Some True}"
  using majority_quorum_filter [OF assms, of "{v. check v = Some True}"]
  by (cases "cfg = []") (auto simp: MajorityConfig_GetVoteResult_def Let_def majority_quorum_def)

lemma yes_plus_missing:
  "length (filter (\<lambda>v. check v = Some True) cfg) + length (filter (\<lambda>v. check v = None) cfg)
     = length (filter (\<lambda>v. check v \<noteq> Some False) cfg)"
proof (induction cfg)
  case (Cons v cfg)
  then show ?case by (cases "check v") auto
qed simp

lemma maj_lost_iff:
  assumes "distinct cfg"
  shows "MajorityConfig_GetVoteResult check cfg = Lost \<longleftrightarrow>
         \<not> majority_quorum cfg {v. check v \<noteq> Some False}"
  using majority_quorum_filter [OF assms, of "{v. check v \<noteq> Some False}"]
    yes_plus_missing [of check cfg]
  by (cases "cfg = []") (auto simp: MajorityConfig_GetVoteResult_def Let_def majority_quorum_def)

lemma joint_won_iff:
  "joint_wf jc \<Longrightarrow>
     JointConfiguration_GetVoteResult check jc = Won \<longleftrightarrow> joint_quorum jc {v. check v = Some True}"
  by (auto simp: JointConfiguration_GetVoteResult_def Let_def joint_quorum_def joint_wf_def maj_won_iff)

lemma joint_lost_iff:
  assumes "joint_wf jc"
  shows "JointConfiguration_GetVoteResult check jc = Lost \<longleftrightarrow>
         \<not> joint_quorum jc {v. check v \<noteq> Some False}"
proof -
  let ?i = "MajorityConfig_GetVoteResult check (jc_incoming jc)"
  let ?o = "MajorityConfig_GetVoteResult check (jc_outgoing jc)"
  have "JointConfiguration_GetVoteResult check jc = Lost \<longleftrightarrow> ?i = Lost \<or> ?o = Lost"
    by (auto simp: JointConfiguration_GetVoteResult_def Let_def)
  then show ?thesis using assms by (auto simp: joint_quorum_def joint_wf_def maj_lost_iff)
qed

text \<open>A completion of a partial count: everybody has voted, nobody changed a vote.\<close>

definition vote_completion :: "(u64 \<Rightarrow> bool option) \<Rightarrow> (u64 \<Rightarrow> bool) \<Rightarrow> bool" where
  "vote_completion check full \<longleftrightarrow> (\<forall>v b. check v = Some b \<longrightarrow> full v = b)"

text \<open>
  C20. The vote counter of a joint configuration is exact: \<open>Won\<close> is reported precisely when the
  election is won however the missing votes turn out, and \<open>Lost\<close> precisely when it cannot be won
  any more, where winning needs a majority of the incoming and of the outgoing voters.
\<close>

theorem vote_result_exact:
  assumes "joint_wf jc"
  shows "(JointConfiguration_GetVoteResult check jc = Won \<longleftrightarrow>
            (\<forall>full. vote_completion check full \<longrightarrow> joint_quorum jc {v. full v})) \<and>
         (JointConfiguration_GetVoteResult check jc = Lost \<longleftrightarrow>
            (\<forall>full. vote_completion check full \<longrightarrow> \<not> joint_quorum jc {v. full v}))"
proof -
  have up: "{v. check v = Some True} \<subseteq> {v. full v}"
    and down: "{v. full v} \<subseteq> {v. check v \<noteq> Some False}" if "vote_completion check full" for full
    using that by (auto simp: vote_completion_def)
  have no: "vote_completion check (\<lambda>v. check v = Some True)"
    and yes: "vote_completion check (\<lambda>v. check v \<noteq> Some False)"
    by (auto simp: vote_completion_def)
  show ?thesis
    unfolding joint_won_iff [OF assms] joint_lost_iff [OF assms]
    using joint.quorum_mono [OF _ up] joint.quorum_mono [OF _ down] no yes by blast
qed

theorem vote_result_exact_witness:
  "joint_quorum \<lparr>jc_incoming = [1, 2, 3], jc_outgoing = [3, 4, 5]\<rparr> {v. v \<in> {1, 2, 4, 5}}"
proof -
  let ?jc = "\<lparr>jc_incoming = [1, 2, 3], jc_outgoing = [3, 4, 5]\<rparr>"
  let ?c = "\<lambda>v. if v \<in> {1, 2, 4, 5} then Some True else None"
  have wf: "joint_wf ?jc" by (simp add: joint_wf_def)
  have won: "JointConfiguration_GetVoteResult ?c ?jc = Won"
    by (simp add: JointConfiguration_GetVoteResult_def MajorityConfig_GetVoteResult_def majority_def)
  have "vote_completion ?c (\<lambda>v. v \<in> {1, 2, 4, 5})" by (simp add: vote_completion_def)
  then show ?thesis using vote_result_exact [OF wf, of ?c] won by blast
qed

text \<open>
  Two elections won under the same (joint) configuration share a voter that granted both, so
  with at most one vote per voter and term there is at most one winner per term.
\<close>

theorem two_elections_share_voter:
  assumes "joint_wf jc" "jc_incoming jc \<noteq> []"
    "JointConfiguration_GetVoteResult check1 jc = Won"
    "JointConfiguration_GetVoteResult check2 jc = Won"
  shows "\<exists>v. JointConfiguration_Contains v jc \<and> check1 v = Some True \<and> check2 v = Some True"
proof -
  have "majority_quorum (jc_incoming jc) {v. check1 v = Some True}"
    "majority_quorum (jc_incoming jc) {v. check2 v = Some True}"
    using assms by (simp_all add: joint_won_iff joint_quorum_def)
  then show ?thesis
    using majority_quorum_intersect [of "jc_incoming jc"] assms(1,2)
    by (fastforce simp: joint_wf_def JointConfiguration_Contains_def)
qed

theorem two_elections_share_voter_witness:
  "\<exists>v. JointConfiguration_Contains v \<lparr>jc_incoming = [1, 2, 3], jc_outgoing = [1]\<rparr> \<and>
       (v = 1 \<or> v = 2) \<and> (v = 1 \<or> v = 3)"
proof -
  let ?jc = "\<lparr>jc_incoming = [1, 2, 3], jc_outgoing = [1]\<rparr>"
  let ?c1 = "\<lambda>v. if v = 1 \<or> v = 2 then Some True else None"
  let ?c2 = "\<lambda>v. if v = 1 \<or> v = 3 then Some True else Some False"
  have "JointConfiguration_GetVoteResult ?c1 ?jc = Won"
    "JointConfiguration_GetVoteResult ?c2 ?jc = Won"
    by (simp_all add: JointConfiguration_GetVoteResult_def MajorityConfig_GetVoteResult_def
        majority_def)
  from two_elections_share_voter [OF _ _ this] show ?thesis
    by (force simp: joint_wf_def split: if_splits)
qed

section \<open>The committed index\<close>

lemma length_sort_desc [simp]: "length (sort_desc ms) = length ms"
  by (simp add: sort_desc_def)

lemma mset_sort_desc [simp]: "mset (sort_desc ms) = mset ms"
  by (simp add: sort_desc_def)

lemma set_sort_desc [simp]: "set (sort_desc ms) = set ms"
  by (simp add: sort_desc_def)

lemma sorted_sort_desc: "sorted_wrt (\<lambda>a b. ix_index b \<le> ix_index a) (sort_desc ms)"
  by (simp add: sort_desc_def sorted_wrt_rev_sort_key)

definition acked_at_least :: "acked_indexer \<Rightarrow> u64 \<Rightarrow> u64 set" where
  "acked_at_least l j = {v. j \<le> ix_index (acked_or_zero l v)}"

lemma quorum_position:
  "ms \<noteq> [] \<Longrightarrow> majority (length ms) - 1 < length ms"
  by (simp add: majority_def)

text \<open>The quorum element reaches \<open>j\<close> iff a quorum of the voters does.\<close>

lemma quorum_index_iff:
  assumes "distinct cfg" "cfg \<noteq> []" "sorted_wrt (\<lambda>a b. ix_index b \<le> ix_index a) ms"
    "mset ms = mset (map (acked_or_zero l) cfg)"
  shows "j \<le> ix_index (ms ! (majority (length ms) - 1)) \<longleftrightarrow> majority_quorum cfg (acked_at_least l j)"
proof -
  have len: "length ms = length cfg" using assms(4) by (metis length_map size_mset)
  then have "ms \<noteq> []" using assms(2) by auto
  from desc_nth_iff [OF assms(3) quorum_position [OF this]]
  have "j \<le> ix_index (ms ! (majority (length ms) - 1)) \<longleftrightarrow>
      majority (length ms) - 1 < length (filter (\<lambda>m. j \<le> ix_index m) ms)" .
  also have "\<dots> \<longleftrightarrow> majority (length cfg) \<le> length (filter (\<lambda>m. j \<le> ix_index m) ms)"
    using majority_pos [of "length cfg"] len by auto
  also have "length (filter (\<lambda>m. j \<le> ix_index m) ms) =
      length (filter (\<lambda>v. v \<in> acked_at_least l j) cfg)"
    using length_filter_mset [OF assms(4)] by (simp add: filter_map o_def acked_at_least_def)
  finally show ?thesis using majority_quorum_filter [OF assms(1,2)] by simp
qed

lemma maj_committed_iff:
  assumes "distinct cfg"
  shows "j \<le> fst (MajorityConfig_CommittedIndex False l cfg) \<longleftrightarrow>
         majority_quorum cfg (acked_at_least l j)"
proof (cases "cfg = []")
  case True
  then show ?thesis
    by (simp add: MajorityConfig_CommittedIndex_def majority_quorum_def u64_max_def)
next
  case False
  then show ?thesis
    using quorum_index_iff [OF assms False sorted_sort_desc, of "map (acked_or_zero l) cfg" l j]
    by (simp add: MajorityConfig_CommittedIndex_def committed_of_sorted_def Let_def)
qed

text \<open>
  C21. The committed index of a (joint) configuration without group commit is the largest index
  that a quorum has acknowledged: an index is at or below it exactly when more than half of the
  incoming and more than half of the outgoing voters have acknowledged it.
\<close>

theorem committed_index_exact:
  assumes "joint_wf jc"
  shows "j \<le> fst (JointConfiguration_CommittedIndex False l jc) \<longleftrightarrow>
         joint_quorum jc (acked_at_least l j)"
  using assms maj_committed_iff [of "jc_incoming jc" j l] maj_committed_iff [of "jc_outgoing jc" j l]
  by (simp add: JointConfiguration_CommittedIndex_def joint_quorum_def joint_wf_def case_prod_beta)

theorem committed_index_exact_witness:
  "joint_quorum \<lparr>jc_incoming = [1, 2, 3], jc_outgoing = []\<rparr>
     (acked_at_least (\<lambda>v. Some \<lparr>ix_index = 10 * v, ix_group_id = 0\<rparr>) 20)"
proof -
  have "joint_wf \<lparr>jc_incoming = [1, 2, 3], jc_outgoing = []\<rparr>" by (simp add: joint_wf_def)
  from committed_index_exact [OF this, of 20 "\<lambda>v. Some \<lparr>ix_index = 10 * v, ix_group_id = 0\<rparr>"]
  show ?thesis
    by (simp add: JointConfiguration_CommittedIndex_def MajorityConfig_CommittedIndex_def
        committed_of_sorted_def acked_or_zero_def sort_desc_def majority_def Let_def u64_max_def)
qed

section \<open>Group commit\<close>

text \<open>Two members of different (non-zero) groups have reached \<open>j\<close>.\<close>

definition two_groups :: "Index set \<Rightarrow> u64 \<Rightarrow> bool" where
  "two_groups M j \<longleftrightarrow>
     (\<exists>a\<in>M. \<exists>b\<in>M. ix_group_id a \<noteq> 0 \<and> ix_group_id b \<noteq> 0 \<and> ix_group_id a \<noteq> ix_group_id b \<and>
                   j \<le> ix_index a \<and> j \<le> ix_index b)"

lemma two_groups_antimono: "two_groups M j \<Longrightarrow> i \<le> j \<Longrightarrow> two_groups M i"
  unfolding two_groups_def by (meson order_trans)

text \<open>
  The early return of the loop happens at the first member whose group differs from that of every
  grouped member before it.
\<close>

lemma group_scan_Inl:
  "group_scan qi cg sg ms = Inl i \<Longrightarrow>
   \<exists>pre m post c. ms = pre @ m # post \<and> ix_group_id m \<noteq> 0 \<and> c \<noteq> 0 \<and> c \<noteq> ix_group_id m \<and>
     i = min (ix_index m) qi \<and> (\<forall>a\<in>set pre. ix_group_id a \<noteq> 0 \<longrightarrow> ix_group_id a = c) \<and>
     (cg = 0 \<longrightarrow> (\<exists>a\<in>set pre. ix_group_id a = c)) \<and> (cg \<noteq> 0 \<longrightarrow> c = cg)"
proof (induction ms arbitrary: cg sg)
  case (Cons m ms)
  show ?case
  proof (cases "ix_group_id m \<noteq> 0 \<and> cg \<noteq> 0 \<and> cg \<noteq> ix_group_id m")
    case True
    then show ?thesis using Cons.prems by (intro exI [of _ "[]"]) auto
  next
    case False
    define cg' where "cg' = (if ix_group_id m = 0 then cg else ix_group_id m)"
    obtain sg' where "group_scan qi cg' sg' ms = Inl i"
      using Cons.prems False by (auto simp: cg'_def split: if_splits)
    from Cons.IH [OF this] obtain pre m' post c where
      d: "ms = pre @ m' # post" "ix_group_id m' \<noteq> 0" "c \<noteq> 0"
      "c \<noteq> ix_group_id m'" "i = min (ix_index m') qi"
      "\<forall>a\<in>set pre. ix_group_id a \<noteq> 0 \<longrightarrow> ix_group_id a = c"
      "cg' = 0 \<longrightarrow> (\<exists>a\<in>set pre. ix_group_id a = c)" "cg' \<noteq> 0 \<longrightarrow> c = cg'"
      by (elim exE conjE) (rule that)
    have "ix_group_id m \<noteq> 0 \<longrightarrow> ix_group_id m = c" "cg \<noteq> 0 \<longrightarrow> c = cg"
      "cg = 0 \<longrightarrow> ix_group_id m = c \<or> (\<exists>a\<in>set pre. ix_group_id a = c)"
      using d(7,8) False by (auto simp: cg'_def)
    then have "m # ms = (m # pre) @ m' # post" "\<forall>a\<in>set (m # pre). ix_group_id a \<noteq> 0 \<longrightarrow> ix_group_id a = c"
      "cg = 0 \<longrightarrow> (\<exists>a\<in>set (m # pre). ix_group_id a = c)" "cg \<noteq> 0 \<longrightarrow> c = cg"
      using d(1,6) by simp_all
    then show ?thesis using d(2-5) by blast
  qed
qed simp

lemma group_scan_Inr:
  "group_scan qi cg sg ms = Inr b \<Longrightarrow>
   (\<exists>c. (cg \<noteq> 0 \<longrightarrow> c = cg) \<and> (\<forall>a\<in>set ms. ix_group_id a \<noteq> 0 \<longrightarrow> ix_group_id a = c)) \<and>
   (b \<longleftrightarrow> sg \<and> (\<forall>a\<in>set ms. ix_group_id a \<noteq> 0))"
proof (induction ms arbitrary: cg sg)
  case (Cons m ms)
  show ?case
  proof (cases "ix_group_id m = 0")
    case True
    then show ?thesis using Cons.IH [of cg False] Cons.prems by auto
  next
    case False
    then have "cg = 0 \<or> cg = ix_group_id m" "group_scan qi (ix_group_id m) sg ms = Inr b"
      using Cons.prems by (auto split: if_splits)
    then show ?thesis using Cons.IH [of "ix_group_id m" sg] False by auto
  qed
qed auto

lemma group_scan_sound:
  assumes "group_scan (ix_index q) (ix_group_id q) True ms = Inl i" "q \<in> set ms"
    "sorted_wrt (\<lambda>a b. ix_index b \<le> ix_index a) ms"
  shows "two_groups (set ms) i"
proof -
  obtain pre m post c where d: "ms = pre @ m # post" "ix_group_id m \<noteq> 0" "c \<noteq> 0"
    "c \<noteq> ix_group_id m" "i = min (ix_index m) (ix_index q)"
    "ix_group_id q = 0 \<longrightarrow> (\<exists>a\<in>set pre. ix_group_id a = c)" "ix_group_id q \<noteq> 0 \<longrightarrow> c = ix_group_id q"
    using group_scan_Inl [OF assms(1)] by blast
  have "\<forall>a\<in>set pre. ix_index m \<le> ix_index a" using assms(3) d(1) by (simp add: sorted_wrt_append)
  then have "\<exists>a\<in>set ms. ix_group_id a = c \<and> i \<le> ix_index a"
    using d assms(2) by (cases "ix_group_id q = 0") (auto intro: min.coboundedI1)
  then obtain a where "a \<in> set ms" "ix_group_id a = c" "i \<le> ix_index a" by blast
  then show ?thesis using d unfolding two_groups_def
    by (intro bexI [of _ a] bexI [of _ m]) auto
qed

lemma group_scan_maximal:
  assumes "two_groups (set ms) j" "j \<le> qi" "sorted_wrt (\<lambda>a b. ix_index b \<le> ix_index a) ms"
  shows "\<exists>i. group_scan qi cg True ms = Inl i \<and> j \<le> i"
proof (cases "group_scan qi cg True ms")
  case (Inr b)
  then show ?thesis using group_scan_Inr [OF Inr] assms(1) unfolding two_groups_def by metis
next
  case (Inl i)
  obtain pre m post c where d: "ms = pre @ m # post" "i = min (ix_index m) qi"
    "\<forall>a\<in>set pre. ix_group_id a \<noteq> 0 \<longrightarrow> ix_group_id a = c"
    using group_scan_Inl [OF Inl] by blast
  have "j \<le> ix_index m"
  proof (rule ccontr)
    assume low: "\<not> j \<le> ix_index m"
    have "\<forall>a\<in>set post. ix_index a \<le> ix_index m" using assms(3) d(1) by (simp add: sorted_wrt_append)
    then have "\<forall>a\<in>set ms. j \<le> ix_index a \<longrightarrow> a \<in> set pre" using low d(1) by force
    then show False using assms(1) d(3) unfolding two_groups_def by metis
  qed
  then show ?thesis using Inl d(2) assms(2) by auto
qed

lemma sorted_last_le:
  "sorted_wrt (\<lambda>a b. ix_index b \<le> ix_index a) ms \<Longrightarrow> a \<in> set ms \<Longrightarrow> ix_index (last ms) \<le> ix_index a"
  by (induction ms) auto

text \<open>What the part after the sort computes, in terms of the set of members only.\<close>

lemma committed_of_sorted_group:
  assumes "ms \<noteq> []" "sorted_wrt (\<lambda>a b. ix_index b \<le> ix_index a) ms"
  defines "q \<equiv> ms ! (majority (length ms) - 1)"
  shows "snd (committed_of_sorted True ms) \<longleftrightarrow> two_groups (set ms) 0"
    and "j \<le> fst (committed_of_sorted True ms) \<longleftrightarrow>
         (if two_groups (set ms) 0 then j \<le> ix_index q \<and> two_groups (set ms) j
          else if \<forall>m\<in>set ms. ix_group_id m \<noteq> 0 then j \<le> ix_index q
          else \<forall>m\<in>set ms. j \<le> ix_index m)"
proof -
  have q: "q \<in> set ms" using quorum_position [OF assms(1)] by (simp add: q_def)
  note max = group_scan_maximal [OF _ _ assms(2), of _ "ix_index q" "ix_group_id q"]
  have "(snd (committed_of_sorted True ms) \<longleftrightarrow> two_groups (set ms) 0) \<and>
    (j \<le> fst (committed_of_sorted True ms) \<longleftrightarrow>
      (if two_groups (set ms) 0 then j \<le> ix_index q \<and> two_groups (set ms) j
       else if \<forall>m\<in>set ms. ix_group_id m \<noteq> 0 then j \<le> ix_index q
       else \<forall>m\<in>set ms. j \<le> ix_index m))"
  proof (cases "group_scan (ix_index q) (ix_group_id q) True ms")
    case (Inl i)
    have two: "two_groups (set ms) i" by (rule group_scan_sound [OF Inl q assms(2)])
    have "i \<le> ix_index q" using group_scan_Inl [OF Inl] by auto
    moreover have "j \<le> i" if "j \<le> ix_index q" "two_groups (set ms) j"
      using max [OF that(2,1)] Inl by simp
    moreover have "two_groups (set ms) 0" using two_groups_antimono [OF two] by simp
    ultimately show ?thesis using Inl two_groups_antimono [OF two]
      by (auto simp: committed_of_sorted_def Let_def q_def)
  next
    case (Inr b)
    have "\<not> two_groups (set ms) 0" using max [of 0] Inr by auto
    moreover have "b \<longleftrightarrow> (\<forall>m\<in>set ms. ix_group_id m \<noteq> 0)" using group_scan_Inr [OF Inr] by simp
    moreover have "j \<le> ix_index (last ms) \<longleftrightarrow> (\<forall>m\<in>set ms. j \<le> ix_index m)"
      using sorted_last_le [OF assms(2)] assms(1) by (meson last_in_set order_trans)
    ultimately show ?thesis using Inr by (auto simp: committed_of_sorted_def Let_def q_def)
  qed
  then show "snd (committed_of_sorted True ms) \<longleftrightarrow> two_groups (set ms) 0"
    and "j \<le> fst (committed_of_sorted True ms) \<longleftrightarrow>
         (if two_groups (set ms) 0 then j \<le> ix_index q \<and> two_groups (set ms) j
          else if \<forall>m\<in>set ms. ix_group_id m \<noteq> 0 then j \<le> ix_index q
          else \<forall>m\<in>set ms. j \<le> ix_index m)" by auto
qed

lemma desc_sorted_unique_index:
  assumes "mset ms = mset ms'" "sorted_wrt (\<lambda>a b. ix_index b \<le> ix_index a) ms"
    "sorted_wrt (\<lambda>a b. ix_index b \<le> ix_index a) ms'" "k < length ms"
  shows "ix_index (ms ! k) = ix_index (ms' ! k)"
proof -
  have "length ms' = length ms" using assms(1) by (metis size_mset)
  then have "j \<le> ix_index (ms ! k) \<longleftrightarrow> j \<le> ix_index (ms' ! k)" for j
    using desc_nth_iff [OF assms(2,4)] desc_nth_iff [OF assms(3)] assms(4)
      length_filter_mset [OF assms(1)] by metis
  then show ?thesis by (meson order_antisym order_refl)
qed

text \<open>
  Any permutation that is sorted by descending index gives the same answer, so the unspecified
  order in which \<open>std::sort\<close> leaves equal indexes cannot be observed.
\<close>

lemma committed_of_sorted_order_free:
  assumes "mset ms = mset ms'" "sorted_wrt (\<lambda>a b. ix_index b \<le> ix_index a) ms"
    "sorted_wrt (\<lambda>a b. ix_index b \<le> ix_index a) ms'" "ms \<noteq> []"
  shows "committed_of_sorted ugc ms = committed_of_sorted ugc ms'"
proof -
  have eq: "set ms = set ms'" "length ms = length ms'" "ms' \<noteq> []"
    using assms(1,4) by (metis set_mset_mset, metis size_mset, metis assms(4) mset_zero_iff)
  have qi: "ix_index (ms ! (majority (length ms) - 1)) = ix_index (ms' ! (majority (length ms') - 1))"
    using desc_sorted_unique_index [OF assms(1-3) quorum_position [OF assms(4)]] eq(2) by simp
  show ?thesis
  proof (cases ugc)
    case True
    have "j \<le> fst (committed_of_sorted True ms) \<longleftrightarrow> j \<le> fst (committed_of_sorted True ms')" for j
      using committed_of_sorted_group(2) [OF assms(4,2)] committed_of_sorted_group(2) [OF eq(3) assms(3)]
        eq(1) qi by simp
    then have "fst (committed_of_sorted True ms) = fst (committed_of_sorted True ms')"
      by (meson order_antisym order_refl)
    then show ?thesis using True committed_of_sorted_group(1) [OF assms(4,2)]
        committed_of_sorted_group(1) [OF eq(3) assms(3)] eq(1) by (simp add: prod_eq_iff)
  qed (use qi in \<open>simp add: committed_of_sorted_def\<close>)
qed

text \<open>
  C22. Group commit: the index reported by one voter set never exceeds the quorum index; the flag is
  set exactly when two different groups are known among the voters, and then the index is the
  largest one that has both a quorum and acknowledgements from two different groups. Without two
  groups it is the quorum index if every voter has a group, and else what all voters acknowledged.
\<close>

theorem group_commit_exact:
  fixes l :: acked_indexer
  assumes "distinct cfg" "cfg \<noteq> []"
  defines "M \<equiv> acked_or_zero l ` set cfg"
  shows "(snd (MajorityConfig_CommittedIndex True l cfg) \<longleftrightarrow> two_groups M 0) \<and>
         (\<forall>j. j \<le> fst (MajorityConfig_CommittedIndex True l cfg) \<longleftrightarrow>
            (if two_groups M 0 then majority_quorum cfg (acked_at_least l j) \<and> two_groups M j
             else if \<forall>m\<in>M. ix_group_id m \<noteq> 0 then majority_quorum cfg (acked_at_least l j)
             else \<forall>m\<in>M. j \<le> ix_index m))"
proof -
  let ?ms = "sort_desc (map (acked_or_zero l) cfg)"
  have ne: "?ms \<noteq> []" using assms(2) by (metis length_0_conv length_map length_sort_desc)
  have M: "set ?ms = M" by (simp add: M_def)
  have q: "j \<le> ix_index (?ms ! (majority (length ?ms) - 1)) \<longleftrightarrow> majority_quorum cfg (acked_at_least l j)" for j
    by (rule quorum_index_iff [OF assms(1,2) sorted_sort_desc]) simp
  show ?thesis
    using committed_of_sorted_group [OF ne sorted_sort_desc] assms(2)
    unfolding MajorityConfig_CommittedIndex_def M q by simp
qed

theorem group_commit_exact_witness:
  "fst (MajorityConfig_CommittedIndex True
     (\<lambda>v. Some \<lparr>ix_index = 10 * v, ix_group_id = if v = 1 then 1 else 2\<rparr>) [1, 2, 3]) = 10 \<and>
   two_groups (acked_or_zero (\<lambda>v. Some \<lparr>ix_index = 10 * v, ix_group_id = if v = 1 then 1 else 2\<rparr>)
     ` set [1, 2, 3]) 10"
proof -
  let ?l = "\<lambda>v::u64. Some \<lparr>ix_index = 10 * v, ix_group_id = if v = 1 then 1 else 2\<rparr>"
  have c: "MajorityConfig_CommittedIndex True ?l [1, 2, 3] = (10, True)"
    by (simp add: MajorityConfig_CommittedIndex_def committed_of_sorted_def acked_or_zero_def
        sort_desc_def majority_def Let_def)
  have d: "distinct [1, 2, 3::u64]" "[1, 2, 3::u64] \<noteq> []" by simp_all
  let ?M = "acked_or_zero ?l ` set [1, 2, 3]"
  note ex = group_commit_exact [OF d, of ?l, unfolded c fst_conv snd_conv]
  have z: "two_groups ?M 0" using ex by blast
  have "two_groups ?M 10"
    using ex [THEN conjunct2, THEN spec [of _ 10], unfolded if_P [OF z]] order_refl by blast
  then show ?thesis unfolding c fst_conv by (rule conjI [OF refl])
qed

text \<open>With and without group commit, the committed index has been acknowledged by a quorum.\<close>

lemma committed_of_sorted_le_quorum:
  assumes "ms \<noteq> []" "sorted_wrt (\<lambda>a b. ix_index b \<le> ix_index a) ms"
    "j \<le> fst (committed_of_sorted ugc ms)"
  shows "j \<le> ix_index (ms ! (majority (length ms) - 1))"
proof (cases ugc)
  case True
  let ?q = "ms ! (majority (length ms) - 1)"
  have mem: "?q \<in> set ms" by (rule nth_mem [OF quorum_position [OF assms(1)]])
  from assms(3) True have "j \<le> fst (committed_of_sorted True ms)" by simp
  then show ?thesis unfolding committed_of_sorted_group(2) [OF assms(1,2)]
    using mem by (cases "two_groups (set ms) 0"; cases "\<forall>m\<in>set ms. ix_group_id m \<noteq> 0") simp_all
qed (use assms(3) in \<open>simp add: committed_of_sorted_def Let_def\<close>)

lemma maj_committed_quorum:
  assumes "distinct cfg" "j \<le> fst (MajorityConfig_CommittedIndex ugc l cfg)"
  shows "majority_quorum cfg (acked_at_least l j)"
proof (cases "cfg = []")
  case False
  let ?ms = "sort_desc (map (acked_or_zero l) cfg)"
  have ne: "?ms \<noteq> []" using False by (metis length_0_conv length_map length_sort_desc)
  have "j \<le> ix_index (?ms ! (majority (length ?ms) - 1))"
    using assms(2) False
    by (intro committed_of_sorted_le_quorum [OF ne sorted_sort_desc, of _ ugc])
      (simp add: MajorityConfig_CommittedIndex_def)
  then show ?thesis
    using quorum_index_iff [OF assms(1) False sorted_sort_desc, of "map (acked_or_zero l) cfg" l j] by simp
qed (simp add: majority_quorum_def)

lemma joint_committed_quorum:
  "joint_wf jc \<Longrightarrow> j \<le> fst (JointConfiguration_CommittedIndex ugc l jc) \<Longrightarrow>
     joint_quorum jc (acked_at_least l j)"
  by (auto simp: JointConfiguration_CommittedIndex_def joint_quorum_def joint_wf_def case_prod_beta
      intro: maj_committed_quorum)

text \<open>
  C6. What is committed meets what is elected: whichever votes win an election, one of the granting
  voters has acknowledged the committed index, with and without group commit.
\<close>

theorem commit_meets_election:
  assumes "joint_wf jc" "jc_incoming jc \<noteq> []"
    "JointConfiguration_GetVoteResult check jc = Won"
  shows "\<exists>v. JointConfiguration_Contains v jc \<and> check v = Some True \<and>
             fst (JointConfiguration_CommittedIndex ugc l jc) \<le> ix_index (acked_or_zero l v)"
proof -
  have "majority_quorum (jc_incoming jc) {v. check v = Some True}"
    "majority_quorum (jc_incoming jc) (acked_at_least l (fst (JointConfiguration_CommittedIndex ugc l jc)))"
    using assms joint_committed_quorum [OF assms(1) order_refl, of l ugc]
    by (simp_all add: joint_won_iff joint_quorum_def)
  then show ?thesis
    using majority_quorum_intersect [of "jc_incoming jc"] assms(1,2)
    by (fastforce simp: joint_wf_def JointConfiguration_Contains_def acked_at_least_def)
qed

theorem commit_meets_election_witness:
  "\<exists>v. (v = 1 \<or> v = 3) \<and> (20::u64) \<le> 10 * v"
proof -
  let ?jc = "\<lparr>jc_incoming = [1, 2, 3], jc_outgoing = []\<rparr>"
  let ?c = "\<lambda>v. if v = 1 \<or> v = 3 then Some True else None"
  let ?l = "\<lambda>v::u64. Some \<lparr>ix_index = 10 * v, ix_group_id = 0\<rparr>"
  have won: "JointConfiguration_GetVoteResult ?c ?jc = Won"
    by (simp add: JointConfiguration_GetVoteResult_def MajorityConfig_GetVoteResult_def majority_def)
  have ci: "fst (JointConfiguration_CommittedIndex False ?l ?jc) = 20"
    by (simp add: JointConfiguration_CommittedIndex_def MajorityConfig_CommittedIndex_def
        committed_of_sorted_def acked_or_zero_def sort_desc_def majority_def Let_def u64_max_def)
  obtain v where "JointConfiguration_Contains v ?jc" "?c v = Some True"
    "20 \<le> ix_index (acked_or_zero ?l v)"
    using commit_meets_election [OF _ _ won, of False ?l] ci by (auto simp: joint_wf_def)
  then have "(v = 1 \<or> v = 3) \<and> 20 \<le> 10 * v"
    by (simp add: acked_or_zero_def split: if_splits)
  then show ?thesis by blast
qed

end
