(* ===== verification/Tracker.thy ===== *)
theory Tracker
  imports Messages Progress Quorum
begin

text \<open>
  The configuration of a group (\<open>lib/core/tracker_conf.cc\<close>) and the leader's bookkeeping over all
  its members (\<open>lib/core/progress_tracker.cc\<close>): progress per member, votes received, and the
  questions asked of them.
\<close>

section \<open>Model\<close>

record TrackerConfiguration =
  tc_voters :: JointConfiguration
  tc_learners :: "u64 list"
  tc_learners_next :: "u64 list"
  tc_auto_leave :: bool

definition TrackerConfiguration_new :: TrackerConfiguration where
  "TrackerConfiguration_new =
     \<lparr>tc_voters = \<lparr>jc_incoming = [], jc_outgoing = []\<rparr>, tc_learners = [], tc_learners_next = [],
      tc_auto_leave = False\<rparr>"

definition TrackerConfiguration_Clear :: "TrackerConfiguration \<Rightarrow> TrackerConfiguration" where
  "TrackerConfiguration_Clear cfg =
     cfg\<lparr>tc_voters := JointConfiguration_Clear (tc_voters cfg), tc_learners := [],
         tc_learners_next := [], tc_auto_leave := False\<rparr>"

definition TrackerConfiguration_ToConfState :: "TrackerConfiguration \<Rightarrow> conf_state" where
  "TrackerConfiguration_ToConfState cfg =
     \<lparr>cs_voters = jc_incoming (tc_voters cfg), cs_learners = tc_learners cfg,
      cs_voters_outgoing = jc_outgoing (tc_voters cfg), cs_learners_next = tc_learners_next cfg,
      cs_auto_leave = tc_auto_leave cfg\<rparr>"

type_synonym ProgressMap = "(u64 \<times> progress) list"

definition ProgressMap_AckedIndex :: "ProgressMap \<Rightarrow> acked_indexer" where
  "ProgressMap_AckedIndex m voter =
     map_option (\<lambda>p. \<lparr>ix_index = pr_matched p, ix_group_id = pr_commit_group_id p\<rparr>) (map_of m voter)"

datatype MapChangeType = MapAdd | MapRemove

type_synonym MapChange = "(u64 \<times> MapChangeType) list"

record ProgressTracker =
  pt_progress :: ProgressMap
  pt_conf :: TrackerConfiguration
  pt_votes :: "(u64 \<times> bool) list"
  pt_max_inflight :: nat
  pt_group_commit :: bool

definition ProgressTracker_new :: "nat \<Rightarrow> ProgressTracker" where
  "ProgressTracker_new max_inflight =
     \<lparr>pt_progress = [], pt_conf = TrackerConfiguration_new, pt_votes = [],
      pt_max_inflight = max_inflight, pt_group_commit = False\<rparr>"

definition ProgressTracker_GetVoteResult :: "(u64 \<times> bool) list \<Rightarrow> ProgressTracker \<Rightarrow> VoteResult" where
  "ProgressTracker_GetVoteResult votes t =
     JointConfiguration_GetVoteResult (map_of votes) (tc_voters (pt_conf t))"

definition ProgressTracker_CountVotes :: "ProgressTracker \<Rightarrow> nat \<times> nat \<times> VoteResult" where
  "ProgressTracker_CountVotes t =
     (let counted = filter (\<lambda>(peer, vote). JointConfiguration_Contains peer (tc_voters (pt_conf t))) (pt_votes t);
          granted = length (filter snd counted);
          rejected = length (filter (\<lambda>iv. \<not> snd iv) counted)
      in (granted, rejected, ProgressTracker_GetVoteResult (pt_votes t) t))"

fun ApplyConf_change :: "nat \<Rightarrow> u64 \<Rightarrow> u64 \<times> MapChangeType \<Rightarrow> ProgressMap \<Rightarrow> ProgressMap" where
  "ApplyConf_change max_inflight next_idx (peer, MapAdd) m =
     Map_emplace peer ((Progress_new next_idx max_inflight)\<lparr>pr_recent_active := True\<rparr>) m"
| "ApplyConf_change max_inflight next_idx (peer, MapRemove) m = AList.delete peer m"

definition ProgressTracker_ApplyConf ::
  "TrackerConfiguration \<Rightarrow> MapChange \<Rightarrow> u64 \<Rightarrow> ProgressTracker \<Rightarrow> ProgressTracker" where
  "ProgressTracker_ApplyConf conf changes next_idx t =
     t\<lparr>pt_conf := conf,
       pt_progress := fold (ApplyConf_change (pt_max_inflight t) next_idx) changes (pt_progress t)\<rparr>"

definition ProgressTracker_ResetVotes :: "ProgressTracker \<Rightarrow> ProgressTracker" where
  "ProgressTracker_ResetVotes t = t\<lparr>pt_votes := []\<rparr>"

definition ProgressTracker_MaxCommittedIndex :: "ProgressTracker \<Rightarrow> u64 \<times> bool" where
  "ProgressTracker_MaxCommittedIndex t =
     JointConfiguration_CommittedIndex (pt_group_commit t) (ProgressMap_AckedIndex (pt_progress t))
       (tc_voters (pt_conf t))"

definition ProgressTracker_RecordVote :: "u64 \<Rightarrow> bool \<Rightarrow> ProgressTracker \<Rightarrow> ProgressTracker" where
  "ProgressTracker_RecordVote peer vote t = t\<lparr>pt_votes := Map_emplace peer vote (pt_votes t)\<rparr>"

definition ProgressTracker_HasQuorum :: "u64 list \<Rightarrow> ProgressTracker \<Rightarrow> bool" where
  "ProgressTracker_HasQuorum potential_quorum t \<longleftrightarrow>
     JointConfiguration_GetVoteResult (\<lambda>peer. Some (peer \<in> set potential_quorum)) (tc_voters (pt_conf t)) = Won"

definition ProgressTracker_QuorumRecentlyActive ::
  "u64 \<Rightarrow> ProgressTracker \<Rightarrow> bool \<times> ProgressTracker" where
  "ProgressTracker_QuorumRecentlyActive perspective_of t =
     (let active = map fst (filter (\<lambda>(peer, pr). peer = perspective_of \<or> pr_recent_active pr) (pt_progress t));
          t' = t\<lparr>pt_progress :=
                  Map_map_values (\<lambda>peer pr. pr\<lparr>pr_recent_active := (peer = perspective_of)\<rparr>) (pt_progress t)\<rparr>
      in (ProgressTracker_HasQuorum active t', t'))"

definition ProgressTracker_IsSingleton :: "ProgressTracker \<Rightarrow> bool" where
  "ProgressTracker_IsSingleton t = JointConfiguration_IsSingleton (tc_voters (pt_conf t))"

definition ProgressTracker_get :: "u64 \<Rightarrow> ProgressTracker \<Rightarrow> progress option" where
  "ProgressTracker_get peer t = map_of (pt_progress t) peer"

text \<open>Writing through the reference or pointer that \<open>get\<close> and \<open>at\<close> return.\<close>

definition ProgressTracker_put :: "u64 \<Rightarrow> progress \<Rightarrow> ProgressTracker \<Rightarrow> ProgressTracker" where
  "ProgressTracker_put peer pr t = t\<lparr>pt_progress := AList.update peer pr (pt_progress t)\<rparr>"

definition ProgressTracker_EnableGroupCommit :: "bool \<Rightarrow> ProgressTracker \<Rightarrow> ProgressTracker" where
  "ProgressTracker_EnableGroupCommit enable t = t\<lparr>pt_group_commit := enable\<rparr>"

section \<open>Lemmas\<close>

lemma get_put [simp]:
  "ProgressTracker_get i (ProgressTracker_put j pr t) =
     (if i = j then Some pr else ProgressTracker_get i t)"
  by (simp add: ProgressTracker_get_def ProgressTracker_put_def update_conv')

lemma put_frame [frame_simps, simp]:
  "pt_conf (ProgressTracker_put j pr t) = pt_conf t"
  "pt_votes (ProgressTracker_put j pr t) = pt_votes t"
  "pt_max_inflight (ProgressTracker_put j pr t) = pt_max_inflight t"
  "pt_group_commit (ProgressTracker_put j pr t) = pt_group_commit t"
  by (simp_all add: ProgressTracker_put_def)

definition tracked :: "ProgressTracker \<Rightarrow> u64 set" where
  "tracked t = dom (map_of (pt_progress t))"

lemma tracked_put [simp]: "tracked (ProgressTracker_put j pr t) = insert j (tracked t)"
  by (auto simp: tracked_def ProgressTracker_put_def update_conv')

lemma tracked_get: "i \<in> tracked t \<longleftrightarrow> ProgressTracker_get i t \<noteq> None"
  by (auto simp: tracked_def ProgressTracker_get_def)

lemma record_vote_first:
  "map_of (pt_votes (ProgressTracker_RecordVote peer v t)) x =
     (if x = peer \<and> map_of (pt_votes t) peer = None then Some v else map_of (pt_votes t) x)"
  by (simp add: ProgressTracker_RecordVote_def)

lemma has_quorum_iff:
  "joint_wf (tc_voters (pt_conf t)) \<Longrightarrow>
     ProgressTracker_HasQuorum q t \<longleftrightarrow> joint_quorum (tc_voters (pt_conf t)) (set q)"
  by (simp add: ProgressTracker_HasQuorum_def joint_won_iff)

text \<open>
  The leader's lease check: \<open>QuorumRecentlyActive\<close> answers whether the members heard from since
  the last check, with the leader itself, form a quorum of the (joint) configuration; the check
  starts a new period by clearing every other member's mark, and changes nothing else.
\<close>

theorem quorum_recently_active:
  assumes "joint_wf (tc_voters (pt_conf t))" "distinct (map fst (pt_progress t))"
    "ProgressTracker_QuorumRecentlyActive self t = (ok, t')"
  shows "(ok \<longleftrightarrow> joint_quorum (tc_voters (pt_conf t))
            {peer. \<exists>pr. ProgressTracker_get peer t = Some pr \<and> (peer = self \<or> pr_recent_active pr)}) \<and>
         (\<forall>peer. ProgressTracker_get peer t' =
            map_option (\<lambda>pr. pr\<lparr>pr_recent_active := (peer = self)\<rparr>) (ProgressTracker_get peer t)) \<and>
         pt_conf t' = pt_conf t \<and> pt_votes t' = pt_votes t"
proof -
  let ?active = "map fst (filter (\<lambda>(peer, pr). peer = self \<or> pr_recent_active pr) (pt_progress t))"
  have active: "set ?active =
      {peer. \<exists>pr. ProgressTracker_get peer t = Some pr \<and> (peer = self \<or> pr_recent_active pr)}"
    using assms(2) by (force simp: ProgressTracker_get_def)
  have t': "t' = t\<lparr>pt_progress :=
      Map_map_values (\<lambda>peer pr. pr\<lparr>pr_recent_active := (peer = self)\<rparr>) (pt_progress t)\<rparr>"
    and ok: "ok = ProgressTracker_HasQuorum ?active t'"
    using assms(3) by (auto simp: ProgressTracker_QuorumRecentlyActive_def Let_def)
  have "ok \<longleftrightarrow> joint_quorum (tc_voters (pt_conf t)) (set ?active)"
    using has_quorum_iff [of t' ?active] assms(1) ok t' by simp
  then show ?thesis unfolding active by (simp add: t' ProgressTracker_get_def)
qed

definition tracker_example :: ProgressTracker where
  "tracker_example =
     \<lparr>pt_progress = map (\<lambda>i. (i, (Progress_new 1 8)\<lparr>pr_recent_active := (i \<noteq> 3)\<rparr>)) [1, 2, 3],
      pt_conf = \<lparr>tc_voters = \<lparr>jc_incoming = [1, 2, 3], jc_outgoing = []\<rparr>, tc_learners = [],
                 tc_learners_next = [], tc_auto_leave = False\<rparr>,
      pt_votes = [], pt_max_inflight = 8, pt_group_commit = False\<rparr>"

theorem quorum_recently_active_witness:
  "fst (ProgressTracker_QuorumRecentlyActive 1 tracker_example) \<and>
   pt_conf (snd (ProgressTracker_QuorumRecentlyActive 1 tracker_example)) = pt_conf tracker_example"
proof -
  have wf: "joint_wf (tc_voters (pt_conf tracker_example))" "distinct (map fst (pt_progress tracker_example))"
    by (simp_all add: tracker_example_def joint_wf_def)
  obtain ok t' where r: "ProgressTracker_QuorumRecentlyActive 1 tracker_example = (ok, t')" by fastforce
  have "ok" using r
    by (auto simp: ProgressTracker_QuorumRecentlyActive_def ProgressTracker_HasQuorum_def
        tracker_example_def Progress_new_def Let_def JointConfiguration_GetVoteResult_def
        MajorityConfig_GetVoteResult_def majority_def)
  then show ?thesis using quorum_recently_active [OF wf r] r by simp
qed

lemma count_votes_bound:
  assumes "ProgressTracker_CountVotes t = (granted, rejected, res)" "joint_wf (tc_voters (pt_conf t))"
    "distinct (map fst (pt_votes t))"
  shows "granted = card {peer. JointConfiguration_Contains peer (tc_voters (pt_conf t)) \<and> map_of (pt_votes t) peer = Some True}"
    and "rejected = card {peer. JointConfiguration_Contains peer (tc_voters (pt_conf t)) \<and> map_of (pt_votes t) peer = Some False}"
proof -
  have card: "length (filter (\<lambda>x. P (fst x) \<and> snd x = b) m) = card {i. P i \<and> map_of m i = Some b}"
    if "distinct (map fst m)" for P b and m :: "(u64 \<times> bool) list"
  proof -
    have "length (filter (\<lambda>x. P (fst x) \<and> snd x = b) m) = card (set (filter (\<lambda>x. P (fst x) \<and> snd x = b) m))"
      using that by (intro distinct_card [symmetric] distinct_filter) (simp add: distinct_map)
    also have "\<dots> = card (fst ` set (filter (\<lambda>x. P (fst x) \<and> snd x = b) m))"
      using that by (intro card_image [symmetric]) (auto simp: distinct_map intro: inj_on_subset)
    also have "fst ` set (filter (\<lambda>x. P (fst x) \<and> snd x = b) m) = {i. P i \<and> map_of m i = Some b}"
      by (auto simp: map_of_eq_Some_iff [OF that] image_iff)
    finally show ?thesis .
  qed
  note c = card [OF assms(3), of "\<lambda>peer. JointConfiguration_Contains peer (tc_voters (pt_conf t))"]
  show "granted = card {peer. JointConfiguration_Contains peer (tc_voters (pt_conf t)) \<and> map_of (pt_votes t) peer = Some True}"
    using assms(1) c [of True]
    by (auto simp: ProgressTracker_CountVotes_def Let_def case_prod_beta conj_commute)
  show "rejected = card {peer. JointConfiguration_Contains peer (tc_voters (pt_conf t)) \<and> map_of (pt_votes t) peer = Some False}"
    using assms(1) c [of False]
    by (auto simp: ProgressTracker_CountVotes_def Let_def case_prod_beta conj_commute)
qed

lemma distinct_ApplyConf_change:
  "distinct (map fst m) \<Longrightarrow> distinct (map fst (ApplyConf_change mi n ch m))"
  by (cases ch; cases "snd ch") auto

lemma distinct_ApplyConf [wf_intros]:
  "distinct (map fst (pt_progress t)) \<Longrightarrow>
     distinct (map fst (pt_progress (ProgressTracker_ApplyConf c chs n t)))"
proof -
  have "distinct (map fst m) \<Longrightarrow> distinct (map fst (fold (ApplyConf_change mi n) chs m))" for m mi
    by (induction chs arbitrary: m) (auto simp del: ApplyConf_change.simps intro: distinct_ApplyConf_change)
  then show "distinct (map fst (pt_progress t)) \<Longrightarrow>
     distinct (map fst (pt_progress (ProgressTracker_ApplyConf c chs n t)))"
    by (simp add: ProgressTracker_ApplyConf_def)
qed

end
