(* ===== verification/RaftCore.thy ===== *)
theory RaftCore
  imports RaftLog Tracker ReadOnly
begin

text \<open>
  The state every role shares and the sending side of replication (\<open>lib/core/raft_core.cc\<close>), with the
  budget for uncommitted proposals (\<open>UncommittedState\<close> of \<open>lib/core/raft.cc\<close>). A function that takes a
  \<open>Progress&\<close> and the outgoing \<open>messages\<close> takes and returns both; the storage behind the log may
  change when it is read.

  Code outside the repository is the environment \<open>E\<close>: the storage a node is given, the encoded size
  of an entry and the text form of a configuration change (Cap'n Proto), the random number generator
  and the CRC-32C routine.
\<close>

section \<open>Data\<close>

record 's Env =
  env_storage :: "'s storage_ops"
  env_entry_bytes :: "entry \<Rightarrow> u64"
  env_random :: "u64 \<Rightarrow> u64 \<Rightarrow> nat \<Rightarrow> u64" \<comment> \<open>the n-th draw from a closed range\<close>
  env_crc_extend :: "u32 \<Rightarrow> bytes \<Rightarrow> u32"
  env_toString :: "conf_change_v2 \<Rightarrow> bytes"
  env_fromString :: "bytes \<Rightarrow> conf_change_v2 option" \<comment> \<open>\<open>None\<close> when parsing throws\<close>

datatype StateRole = Follower | Candidate | Leader | PreCandidate

record SoftState =
  ss_leader_id :: u64
  ss_raft_state :: StateRole

record UncommittedState =
  us_max_uncommitted_size :: u64
  us_uncommitted_size :: u64
  us_last_log_tail_index :: u64

record 's RaftCore =
  r_term :: u64
  r_vote :: u64
  r_id :: u64
  r_read_states :: "ReadState list"
  r_log :: "'s RaftLog"
  r_max_inflight :: nat
  r_max_message_size :: u64
  r_pending_request_snapshot :: u64
  r_state :: StateRole
  r_promotable :: bool
  r_leader_id :: u64
  r_lead_transferee :: "u64 option"
  r_pending_conf_index :: u64
  r_read_only :: ReadOnly
  r_election_elapsed :: u64
  r_heartbeat_elapsed :: u64
  r_check_quorum :: bool
  r_pre_vote :: bool
  r_skip_broadcast_commit :: bool
  r_batch_append :: bool
  r_disable_proposal_forwarding :: bool
  r_heartbeat_timeout :: u64
  r_election_timeout :: u64
  r_randomized_election_timeout :: u64
  r_min_election_timeout :: u64
  r_max_election_timeout :: u64
  r_priority :: i64
  r_uncommitted_state :: UncommittedState
  r_max_committed_size_per_ready :: u64

definition RaftCore_new :: "'s Env \<Rightarrow> Config \<Rightarrow> 's \<Rightarrow> 's RaftCore option" where
  "RaftCore_new E config store =
     do {
       log \<leftarrow> RaftLog_new (env_storage E) config store;
       Some \<lparr>r_term = 0, r_vote = 0, r_id = c_id config, r_read_states = [], r_log = log,
             r_max_inflight = c_max_inflight_messages config,
             r_max_message_size = c_max_size_per_message config,
             r_pending_request_snapshot = kInvalidIndex, r_state = Follower, r_promotable = False,
             r_leader_id = 0, r_lead_transferee = None, r_pending_conf_index = 0,
             r_read_only = ReadOnly_new (c_read_only_option config), r_election_elapsed = 0,
             r_heartbeat_elapsed = 0, r_check_quorum = c_check_quorum config,
             r_pre_vote = c_pre_vote config, r_skip_broadcast_commit = c_skip_broadcast_commit config,
             r_batch_append = c_batch_append config,
             r_disable_proposal_forwarding = c_disable_proposal_forwarding config,
             r_heartbeat_timeout = c_heartbeat_tick config, r_election_timeout = c_election_tick config,
             r_randomized_election_timeout = 0,
             r_min_election_timeout = Config_MinElectionTick config,
             r_max_election_timeout = Config_MaxElectionTick config, r_priority = 0,
             r_uncommitted_state = \<lparr>us_max_uncommitted_size = c_max_uncommitted_size config,
                                    us_uncommitted_size = 0, us_last_log_tail_index = 0\<rparr>,
             r_max_committed_size_per_ready = c_max_committed_size_per_ready config\<rparr>
     }"

section \<open>The budget for uncommitted proposals\<close>

definition UncommittedState_IsNoLimit :: "UncommittedState \<Rightarrow> bool" where
  "UncommittedState_IsNoLimit us \<longleftrightarrow> us_max_uncommitted_size us = u64_max"

definition data_size :: "entry list \<Rightarrow> u64" where
  "data_size es = sum_list (map (\<lambda>e. of_nat (length (e_data e))) es)"

definition UncommittedState_MaybeIncreaseUncommittedSize :: "entry list \<Rightarrow> UncommittedState \<Rightarrow> bool \<times> UncommittedState" where
  "UncommittedState_MaybeIncreaseUncommittedSize entries us =
     (if UncommittedState_IsNoLimit us then (True, us)
      else
        let size = data_size entries in
        if size = 0 \<or> us_uncommitted_size us = 0 \<or> size + us_uncommitted_size us \<le> us_max_uncommitted_size us
        then (True, us\<lparr>us_uncommitted_size := us_uncommitted_size us + size\<rparr>)
        else (False, us))"

definition UncommittedState_MaybeReduceUncommittedSize :: "entry list \<Rightarrow> UncommittedState \<Rightarrow> bool \<times> UncommittedState" where
  "UncommittedState_MaybeReduceUncommittedSize entries us =
     (if UncommittedState_IsNoLimit us \<or> entries = [] then (True, us)
      else
        let size = data_size (filter (\<lambda>e. us_last_log_tail_index us < e_index e) entries) in
        if us_uncommitted_size us < size then (False, us\<lparr>us_uncommitted_size := 0\<rparr>)
        else (True, us\<lparr>us_uncommitted_size := us_uncommitted_size us - size\<rparr>))"

section \<open>Sending\<close>

definition RaftCore_Send :: "message \<Rightarrow> message list \<Rightarrow> ('s, 'z) RaftCore_scheme \<Rightarrow> message list option" where
  "RaftCore_Send m messages r =
     do {
       let m = (if m_from m = kInvalidId then m\<lparr>m_from := r_id r\<rparr> else m);
       m \<leftarrow> (if m_type m = MSG_REQUEST_PRE_VOTE \<or> m_type m = MSG_REQUEST_PRE_VOTE_RESPONSE \<or>
                m_type m = MSG_REQUEST_VOTE \<or> m_type m = MSG_REQUEST_VOTE_RESPONSE
             then do { ASSERT (m_term m \<noteq> 0); Some m }
             else do {
               ASSERT (m_term m = 0);
               Some (if m_type m \<noteq> MSG_PROPOSE \<and> m_type m \<noteq> MSG_READ_INDEX then m\<lparr>m_term := r_term r\<rparr> else m)
             });
       let m = (if m_type m = MSG_REQUEST_VOTE \<or> m_type m = MSG_REQUEST_PRE_VOTE
                then m\<lparr>m_priority := r_priority r\<rparr> else m);
       Some (messages @ [m])
     }"

text \<open>
  Adding entries to a message to the same peer that is still in the queue; \<open>committed\<close> is the commit
  index of the log.
\<close>

fun RaftCore_TryBatching ::
  "u64 \<Rightarrow> u64 \<Rightarrow> entry list \<Rightarrow> message list \<Rightarrow> progress \<Rightarrow> (bool \<times> message list \<times> progress) option" where
  "RaftCore_TryBatching committed to entries [] pr = Some (False, [], pr)"
| "RaftCore_TryBatching committed to entries (msg # messages) pr =
     (if m_type msg = MSG_APPEND \<and> m_to msg = to then
        if entries = [] then Some (True, msg\<lparr>m_commit := committed\<rparr> # messages, pr)
        else if \<not> IsContinuousEntries msg entries then Some (False, msg # messages, pr)
        else do {
          let all_entries = m_entries msg @ entries;
          pr \<leftarrow> Progress_UpdateState (e_index (last all_entries)) pr;
          Some (True, msg\<lparr>m_entries := all_entries, m_commit := committed\<rparr> # messages, pr)
        }
      else do {
        (is_batched, messages, pr) \<leftarrow> RaftCore_TryBatching committed to entries messages pr;
        Some (is_batched, msg # messages, pr)
      })"

definition RaftCore_PrepareSendEntries ::
  "message \<Rightarrow> progress \<Rightarrow> u64 \<Rightarrow> entry list \<Rightarrow> ('s, 'z) RaftCore_scheme \<Rightarrow> (message \<times> progress) option" where
  "RaftCore_PrepareSendEntries m pr trm entries r =
     do {
       let m = m\<lparr>m_type := MSG_APPEND, m_index := pr_next_idx pr - 1, m_log_term := trm,
                 m_entries := entries, m_commit := rl_committed (r_log r)\<rparr>;
       pr \<leftarrow> (if entries \<noteq> [] then Progress_UpdateState (e_index (last entries)) pr else Some pr);
       Some (m, pr)
     }"

definition RaftCore_PrepareSendSnapshot ::
  "'s Env \<Rightarrow> message \<Rightarrow> progress \<Rightarrow> u64 \<Rightarrow> ('s, 'z) RaftCore_scheme \<Rightarrow>
     (bool \<times> message \<times> progress \<times> ('s, 'z) RaftCore_scheme) option" where
  "RaftCore_PrepareSendSnapshot E m pr to r =
     (if \<not> pr_recent_active pr then Some (False, m, pr, r)
      else do {
        let m = m\<lparr>m_type := MSG_SNAPSHOT\<rparr>;
        (snapshot_r, log) \<leftarrow> RaftLog_GetSnapshot (env_storage E) (pr_pending_request_snapshot pr) to (r_log r);
        let r = r\<lparr>r_log := log\<rparr>;
        case snapshot_r of
          Inl err \<Rightarrow>
            if err = StorageError SnapshotTemporarilyUnavailable then Some (False, m, pr, r) else None
        | Inr snapshot \<Rightarrow> do {
            ASSERT (sn_index snapshot \<noteq> 0);
            Some (True, m\<lparr>m_snapshot := snapshot\<rparr>, Progress_BecomeSnapshot (sn_index snapshot) pr, r)
          }
      })"

text \<open>The two ways \<open>MaybeSendAppend\<close> ends: with a snapshot, or with entries behind a known term.\<close>

definition RaftCore_send_snapshot ::
  "'s Env \<Rightarrow> u64 \<Rightarrow> progress \<Rightarrow> message list \<Rightarrow> ('s, 'z) RaftCore_scheme \<Rightarrow>
     (bool \<times> progress \<times> message list \<times> ('s, 'z) RaftCore_scheme) option" where
  "RaftCore_send_snapshot E to pr messages r =
     do {
       (ready, m, pr, r) \<leftarrow> RaftCore_PrepareSendSnapshot E (default_message\<lparr>m_to := to\<rparr>) pr to r;
       if \<not> ready then Some (False, pr, messages, r)
       else do { messages \<leftarrow> RaftCore_Send m messages r; Some (True, pr, messages, r) }
     }"

definition RaftCore_send_entries ::
  "u64 \<Rightarrow> u64 \<Rightarrow> entry list \<Rightarrow> progress \<Rightarrow> message list \<Rightarrow> ('s, 'z) RaftCore_scheme \<Rightarrow>
     (bool \<times> progress \<times> message list \<times> ('s, 'z) RaftCore_scheme) option" where
  "RaftCore_send_entries to trm ents pr messages r =
     do {
       (is_batched, messages, pr) \<leftarrow>
         (if r_batch_append r then RaftCore_TryBatching (rl_committed (r_log r)) to ents messages pr
          else Some (False, messages, pr));
       if is_batched then Some (True, pr, messages, r)
       else do {
         (m, pr) \<leftarrow> RaftCore_PrepareSendEntries (default_message\<lparr>m_to := to\<rparr>) pr trm ents r;
         messages \<leftarrow> RaftCore_Send m messages r;
         Some (True, pr, messages, r)
       }
     }"

definition RaftCore_MaybeSendAppend ::
  "'s Env \<Rightarrow> u64 \<Rightarrow> bool \<Rightarrow> progress \<Rightarrow> message list \<Rightarrow> ('s, 'z) RaftCore_scheme \<Rightarrow>
     (bool \<times> progress \<times> message list \<times> ('s, 'z) RaftCore_scheme) option" where
  "RaftCore_MaybeSendAppend E to allow_empty pr messages r =
     (if Progress_IsPaused pr then Some (False, pr, messages, r)
      else if pr_pending_request_snapshot pr \<noteq> kInvalidIndex then RaftCore_send_snapshot E to pr messages r
      else do {
        (ents, log) \<leftarrow> RaftLog_GetEntries (env_entry_bytes E) (env_storage E) (pr_next_idx pr)
            (Some (r_max_message_size r)) (SendAppendCtx to (r_term r) (\<not> allow_empty)) (r_log r);
        let r = r\<lparr>r_log := log\<rparr>;
        if \<not> allow_empty \<and> (case ents of Inl _ \<Rightarrow> True | Inr es \<Rightarrow> es = []) then Some (False, pr, messages, r)
        else do {
          term_r \<leftarrow> RaftLog_Term (env_storage E) (pr_next_idx pr - 1) (r_log r);
          case ents of
            Inr es \<Rightarrow>
              (case term_r of
                 Inr trm \<Rightarrow> RaftCore_send_entries to trm es pr messages r
               | Inl _ \<Rightarrow> RaftCore_send_snapshot E to pr messages r)
          | Inl err \<Rightarrow>
              if err = StorageError LogTemporarilyUnavailable then Some (False, pr, messages, r)
              else RaftCore_send_snapshot E to pr messages r
        }
      })"

definition RaftCore_SendAppend ::
  "'s Env \<Rightarrow> u64 \<Rightarrow> progress \<Rightarrow> message list \<Rightarrow> ('s, 'z) RaftCore_scheme \<Rightarrow>
     (progress \<times> message list \<times> ('s, 'z) RaftCore_scheme) option" where
  "RaftCore_SendAppend E to pr messages r =
     do { (_, pr, messages, r) \<leftarrow> RaftCore_MaybeSendAppend E to True pr messages r; Some (pr, messages, r) }"

partial_function (option) RaftCore_SendAppendAggressively ::
  "'s Env \<Rightarrow> u64 \<Rightarrow> progress \<Rightarrow> message list \<Rightarrow> ('s, 'z) RaftCore_scheme \<Rightarrow>
     (progress \<times> message list \<times> ('s, 'z) RaftCore_scheme) option" where
  "RaftCore_SendAppendAggressively E to pr messages r =
     do {
       (sent, pr, messages, r) \<leftarrow> RaftCore_MaybeSendAppend E to False pr messages r;
       if sent then RaftCore_SendAppendAggressively E to pr messages r else Some (pr, messages, r)
     }"

end
