(* ===== verification/ConfChange.thy ===== *)
theory ConfChange
  imports Tracker
begin

text \<open>
  Membership changes (\<open>lib/core/conf_changer.cc\<close>) and the reconstruction of a configuration from
  its serialized form (\<open>lib/core/conf_restore.cc\<close>).
\<close>

section \<open>Model\<close>

record IncrChangeMap =
  icm_changes :: MapChange
  icm_base :: ProgressMap

definition IncrChangeMap_Contains :: "u64 \<Rightarrow> IncrChangeMap \<Rightarrow> bool" where
  "IncrChangeMap_Contains peer prs =
     (case map_of (rev (icm_changes prs)) peer of
        Some MapAdd \<Rightarrow> True
      | Some MapRemove \<Rightarrow> False
      | None \<Rightarrow> map_of (icm_base prs) peer \<noteq> None)"

definition IncrChangeMap_push :: "u64 \<Rightarrow> MapChangeType \<Rightarrow> IncrChangeMap \<Rightarrow> IncrChangeMap" where
  "IncrChangeMap_push peer ch prs = prs\<lparr>icm_changes := icm_changes prs @ [(peer, ch)]\<rparr>"

definition Joint :: "TrackerConfiguration \<Rightarrow> bool" where
  "Joint cfg \<longleftrightarrow> jc_outgoing (tc_voters cfg) \<noteq> []"

subsection \<open>CheckInvariants\<close>

fun check_voters :: "IncrChangeMap \<Rightarrow> u64 list \<Rightarrow> unit result" where
  "check_voters prs [] = Inr ()"
| "check_voters prs (peer # rest) =
     (if \<not> IncrChangeMap_Contains peer prs
      then Inl (ConfChangeError (Fmt ''no progress for voter {}'' [peer]))
      else check_voters prs rest)"

fun check_learners :: "JointConfiguration \<Rightarrow> IncrChangeMap \<Rightarrow> u64 list \<Rightarrow> unit result" where
  "check_learners jc prs [] = Inr ()"
| "check_learners jc prs (peer # rest) =
     (if \<not> IncrChangeMap_Contains peer prs
      then Inl (ConfChangeError (Fmt ''no progress for learner {}'' [peer]))
      else if peer \<in> set (jc_outgoing jc)
      then Inl (ConfChangeError (Fmt ''{} is in learners and outgoing voters'' [peer]))
      else if peer \<in> set (jc_incoming jc)
      then Inl (ConfChangeError (Fmt ''{} is in learners and incoming voters'' [peer]))
      else check_learners jc prs rest)"

fun check_learners_next :: "JointConfiguration \<Rightarrow> IncrChangeMap \<Rightarrow> u64 list \<Rightarrow> unit result" where
  "check_learners_next jc prs [] = Inr ()"
| "check_learners_next jc prs (peer # rest) =
     (if \<not> IncrChangeMap_Contains peer prs
      then Inl (ConfChangeError (Fmt ''no progress for learner(next) {}'' [peer]))
      else if peer \<notin> set (jc_outgoing jc)
      then Inl (ConfChangeError (Fmt ''{} is in learners_next and outgoing voters'' [peer]))
      else check_learners_next jc prs rest)"

definition CheckInvariants :: "TrackerConfiguration \<Rightarrow> IncrChangeMap \<Rightarrow> unit result" where
  "CheckInvariants cfg prs =
     result_bind (check_voters prs (JointConfiguration_IDs (tc_voters cfg))) (\<lambda>_.
     result_bind (check_learners (tc_voters cfg) prs (tc_learners cfg)) (\<lambda>_.
     result_bind (check_learners_next (tc_voters cfg) prs (tc_learners_next cfg)) (\<lambda>_.
       if \<not> Joint cfg then
         if tc_learners_next cfg \<noteq> [] then Inl (ConfChangeCode LearnersNextMustBeEmpty)
         else if tc_auto_leave cfg then Inl (ConfChangeCode AutoLeaveMustBeFalse)
         else Inr ()
       else Inr ())))"

subsection \<open>Changing a configuration\<close>

definition set_incoming :: "u64 list \<Rightarrow> TrackerConfiguration \<Rightarrow> TrackerConfiguration" where
  "set_incoming xs cfg = cfg\<lparr>tc_voters := (tc_voters cfg)\<lparr>jc_incoming := xs\<rparr>\<rparr>"

definition set_outgoing :: "u64 list \<Rightarrow> TrackerConfiguration \<Rightarrow> TrackerConfiguration" where
  "set_outgoing xs cfg = cfg\<lparr>tc_voters := (tc_voters cfg)\<lparr>jc_outgoing := xs\<rparr>\<rparr>"

abbreviation incoming :: "TrackerConfiguration \<Rightarrow> u64 list" where
  "incoming cfg \<equiv> jc_incoming (tc_voters cfg)"

abbreviation outgoing :: "TrackerConfiguration \<Rightarrow> u64 list" where
  "outgoing cfg \<equiv> jc_outgoing (tc_voters cfg)"

type_synonym conf_delta = "TrackerConfiguration \<times> IncrChangeMap"

definition ConfChanger_InitProgress :: "u64 \<Rightarrow> bool \<Rightarrow> conf_delta \<Rightarrow> conf_delta" where
  "ConfChanger_InitProgress peer is_learner = (\<lambda>(cfg, prs).
     (if \<not> is_learner then set_incoming (List.insert peer (incoming cfg)) cfg
      else cfg\<lparr>tc_learners := List.insert peer (tc_learners cfg)\<rparr>,
      IncrChangeMap_push peer MapAdd prs))"

definition ConfChanger_MakeVoter :: "u64 \<Rightarrow> conf_delta \<Rightarrow> conf_delta" where
  "ConfChanger_MakeVoter peer = (\<lambda>(cfg, prs).
     if \<not> IncrChangeMap_Contains peer prs then ConfChanger_InitProgress peer False (cfg, prs)
     else ((set_incoming (List.insert peer (incoming cfg)) cfg)
             \<lparr>tc_learners := removeAll peer (tc_learners cfg),
              tc_learners_next := removeAll peer (tc_learners_next cfg)\<rparr>, prs))"

definition ConfChanger_MakeLearner :: "u64 \<Rightarrow> conf_delta \<Rightarrow> conf_delta" where
  "ConfChanger_MakeLearner peer = (\<lambda>(cfg, prs).
     if \<not> IncrChangeMap_Contains peer prs then ConfChanger_InitProgress peer True (cfg, prs)
     else if peer \<in> set (tc_learners cfg) then (cfg, prs)
     else
       let cfg1 = (set_incoming (removeAll peer (incoming cfg)) cfg)
                    \<lparr>tc_learners := removeAll peer (tc_learners cfg),
                     tc_learners_next := removeAll peer (tc_learners_next cfg)\<rparr>
       in if peer \<in> set (outgoing cfg1)
          then (cfg1\<lparr>tc_learners_next := List.insert peer (tc_learners_next cfg1)\<rparr>, prs)
          else (cfg1\<lparr>tc_learners := List.insert peer (tc_learners cfg1)\<rparr>, prs))"

definition ConfChanger_Remove :: "u64 \<Rightarrow> conf_delta \<Rightarrow> conf_delta" where
  "ConfChanger_Remove peer = (\<lambda>(cfg, prs).
     if \<not> IncrChangeMap_Contains peer prs then (cfg, prs)
     else
       let cfg1 = (set_incoming (removeAll peer (incoming cfg)) cfg)
                    \<lparr>tc_learners := removeAll peer (tc_learners cfg),
                     tc_learners_next := removeAll peer (tc_learners_next cfg)\<rparr>
       in (cfg1, if peer \<notin> set (outgoing cfg1) then IncrChangeMap_push peer MapRemove prs else prs))"

text \<open>One iteration of the loop of \<open>Apply\<close>, and the loop.\<close>

definition ConfChanger_apply_one :: "conf_change_single \<Rightarrow> conf_delta \<Rightarrow> conf_delta option" where
  "ConfChanger_apply_one cc d =
     (if ccs_node_id cc = 0 then Some d
      else case ccs_change_type cc of
        ADD_NODE \<Rightarrow> Some (ConfChanger_MakeVoter (ccs_node_id cc) d)
      | REMOVE_NODE \<Rightarrow> Some (ConfChanger_Remove (ccs_node_id cc) d)
      | ADD_LEARNER_NODE \<Rightarrow> Some (ConfChanger_MakeLearner (ccs_node_id cc) d)
      | OTHER_CHANGE_TYPE _ \<Rightarrow> None)"

fun ConfChanger_apply_loop :: "conf_change_single list \<Rightarrow> conf_delta \<Rightarrow> conf_delta option" where
  "ConfChanger_apply_loop [] d = Some d"
| "ConfChanger_apply_loop (cc # ccs) d =
     do { d' \<leftarrow> ConfChanger_apply_one cc d; ConfChanger_apply_loop ccs d' }"

definition ConfChanger_Apply ::
  "conf_change_single list \<Rightarrow> conf_delta \<Rightarrow> conf_delta result option" where
  "ConfChanger_Apply ccs d =
     do {
       d' \<leftarrow> ConfChanger_apply_loop ccs d;
       Some (if incoming (fst d') = [] then Inl (ConfChangeCode RemovedAllVoters) else Inr d')
     }"

definition ConfChanger_CheckAndCopy :: "ProgressTracker \<Rightarrow> conf_delta result" where
  "ConfChanger_CheckAndCopy tracker =
     (let prs = \<lparr>icm_changes = [], icm_base = pt_progress tracker\<rparr>
      in result_bind (CheckInvariants (pt_conf tracker) prs) (\<lambda>_. Inr (pt_conf tracker, prs)))"

definition ConfChanger_EnterJoint ::
  "bool \<Rightarrow> conf_change_single list \<Rightarrow> ProgressTracker \<Rightarrow>
     (TrackerConfiguration \<times> MapChange) result option" where
  "ConfChanger_EnterJoint auto_leave ccs tracker =
     (if Joint (pt_conf tracker) then Some (Inl (ConfChangeCode ConfigAlreadyJoint))
      else case ConfChanger_CheckAndCopy tracker of
        Inl e \<Rightarrow> Some (Inl e)
      | Inr (cfg, prs) \<Rightarrow>
          if incoming cfg = [] then Some (Inl (ConfChangeCode ZeroVoterConfigJoint))
          else do {
            r \<leftarrow> ConfChanger_Apply ccs
                   (set_outgoing (fold List.insert (incoming cfg) (outgoing cfg)) cfg, prs);
            Some (result_bind r (\<lambda>(cfg, prs).
              let cfg = cfg\<lparr>tc_auto_leave := auto_leave\<rparr>
              in result_bind (CheckInvariants cfg prs) (\<lambda>_. Inr (cfg, icm_changes prs))))
          })"

text \<open>The removals that \<open>LeaveJoint\<close> records for the members that leave the group.\<close>

fun leave_removals :: "TrackerConfiguration \<Rightarrow> u64 list \<Rightarrow> IncrChangeMap \<Rightarrow> IncrChangeMap" where
  "leave_removals cfg [] prs = prs"
| "leave_removals cfg (peer # rest) prs =
     leave_removals cfg rest
       (if peer \<notin> set (incoming cfg) \<and> peer \<notin> set (tc_learners cfg)
        then IncrChangeMap_push peer MapRemove prs else prs)"

definition ConfChanger_LeaveJoint ::
  "ProgressTracker \<Rightarrow> (TrackerConfiguration \<times> MapChange) result" where
  "ConfChanger_LeaveJoint tracker =
     (if \<not> Joint (pt_conf tracker) then Inl (ConfChangeCode LeaveNonJointConfig)
      else result_bind (ConfChanger_CheckAndCopy tracker) (\<lambda>(cfg, prs).
        if outgoing cfg = [] then Inl (ConfChangeError (Fmt ''configuration is not joint: {}'' []))
        else
          let cfg = cfg\<lparr>tc_learners := fold List.insert (tc_learners_next cfg) (tc_learners cfg),
                        tc_learners_next := []\<rparr>;
              prs = leave_removals cfg (outgoing cfg) prs;
              cfg = (set_outgoing [] cfg)\<lparr>tc_auto_leave := False\<rparr>
          in result_bind (CheckInvariants cfg prs) (\<lambda>_. Inr (cfg, icm_changes prs))))"

text \<open>\<open>std::set_symmetric_difference\<close> on sorted ranges.\<close>

fun set_symmetric_difference :: "u64 list \<Rightarrow> u64 list \<Rightarrow> u64 list" where
  "set_symmetric_difference [] ys = ys"
| "set_symmetric_difference xs [] = xs"
| "set_symmetric_difference (x # xs) (y # ys) =
     (if x < y then x # set_symmetric_difference xs (y # ys)
      else if y < x then y # set_symmetric_difference (x # xs) ys
      else set_symmetric_difference xs ys)"

definition ConfChanger_Simple ::
  "conf_change_single list \<Rightarrow> ProgressTracker \<Rightarrow> (TrackerConfiguration \<times> MapChange) result option" where
  "ConfChanger_Simple ccs tracker =
     (if Joint (pt_conf tracker) then Some (Inl (ConfChangeCode CannotApplySimpleInJointConfig))
      else case ConfChanger_CheckAndCopy tracker of
        Inl e \<Rightarrow> Some (Inl e)
      | Inr d \<Rightarrow> do {
          r \<leftarrow> ConfChanger_Apply ccs d;
          Some (result_bind r (\<lambda>(cfg, prs).
            let diff = set_symmetric_difference (sort (incoming cfg)) (sort (incoming (pt_conf tracker)))
            in if 1 < length diff then Inl (ConfChangeCode MultipleVotersChangedWithoutJoint)
               else result_bind (CheckInvariants cfg prs) (\<lambda>_. Inr (cfg, icm_changes prs))))
        })"

subsection \<open>Restoring a configuration\<close>

definition change_all :: "ConfChangeType \<Rightarrow> u64 list \<Rightarrow> conf_change_single list" where
  "change_all ty = map (\<lambda>peer. \<lparr>ccs_change_type = ty, ccs_node_id = peer\<rparr>)"

definition ToConfChangeSingle :: "conf_state \<Rightarrow> conf_change_single list \<times> conf_change_single list" where
  "ToConfChangeSingle cs =
     (change_all ADD_NODE (cs_voters_outgoing cs),
      change_all REMOVE_NODE (cs_voters_outgoing cs) @ change_all ADD_NODE (cs_voters cs) @
      change_all ADD_LEARNER_NODE (cs_learners cs) @ change_all ADD_LEARNER_NODE (cs_learners_next cs))"

text \<open>The loop of the fallback: one \<open>Apply\<close> per change.\<close>

fun restore_apply_each :: "conf_change_single list \<Rightarrow> conf_delta \<Rightarrow> conf_delta result option" where
  "restore_apply_each [] d = Some (Inr d)"
| "restore_apply_each (i # rest) d =
     do {
       r \<leftarrow> ConfChanger_Apply [i] d;
       case r of Inl e \<Rightarrow> Some (Inl e) | Inr d' \<Rightarrow> restore_apply_each rest d'
     }"

text \<open>The loop over the outgoing voters: one simple change, applied at once, per voter.\<close>

fun restore_outgoing ::
  "u64 \<Rightarrow> conf_change_single list \<Rightarrow> ProgressTracker \<Rightarrow> (unit result \<times> ProgressTracker) option" where
  "restore_outgoing next_idx [] tracker = Some (Inr (), tracker)"
| "restore_outgoing next_idx (cc # rest) tracker =
     do {
       r \<leftarrow> ConfChanger_Simple [cc] tracker;
       case r of
         Inl e \<Rightarrow> Some (Inl e, tracker)
       | Inr (cfg, changes) \<Rightarrow>
           restore_outgoing next_idx rest (ProgressTracker_ApplyConf cfg changes next_idx tracker)
     }"

definition Restore ::
  "u64 \<Rightarrow> conf_state \<Rightarrow> ProgressTracker \<Rightarrow> (unit result \<times> ProgressTracker) option" where
  "Restore next_idx cs tracker =
     (let (outg, inc) = ToConfChangeSingle cs in
      if outg = [] then do {
        result \<leftarrow> ConfChanger_EnterJoint False inc tracker;
        case result of
          Inr (cfg, changes) \<Rightarrow>
            Some (Inr (), ProgressTracker_ApplyConf cfg changes next_idx tracker)
        | Inl _ \<Rightarrow>
            (case ConfChanger_CheckAndCopy tracker of
               Inl e \<Rightarrow> Some (Inl e, tracker)
             | Inr d \<Rightarrow> do {
                 r \<leftarrow> restore_apply_each inc d;
                 case r of
                   Inl e \<Rightarrow> Some (Inl e, tracker)
                 | Inr (cfg, prs) \<Rightarrow>
                     (case CheckInvariants cfg prs of
                        Inl e \<Rightarrow> Some (Inl e, tracker)
                      | Inr _ \<Rightarrow>
                          Some (Inr (), ProgressTracker_ApplyConf cfg (icm_changes prs) next_idx tracker))
               })
      } else do {
        (r, tracker) \<leftarrow> restore_outgoing next_idx outg tracker;
        case r of
          Inl e \<Rightarrow> Some (Inl e, tracker)
        | Inr _ \<Rightarrow> do {
            r \<leftarrow> ConfChanger_EnterJoint (cs_auto_leave cs) inc tracker;
            case r of
              Inl e \<Rightarrow> Some (Inl e, tracker)
            | Inr (cfg, changes) \<Rightarrow>
                Some (Inr (), ProgressTracker_ApplyConf cfg changes next_idx tracker)
          }
      })"

section \<open>The progress map seen through pending changes\<close>

definition pending_ids :: "IncrChangeMap \<Rightarrow> u64 set" where
  "pending_ids prs = {x. IncrChangeMap_Contains x prs}"

lemma contains_iff: "IncrChangeMap_Contains x prs \<longleftrightarrow> x \<in> pending_ids prs"
  by (simp add: pending_ids_def)

lemma pending_ids_base [simp]: "pending_ids \<lparr>icm_changes = [], icm_base = m\<rparr> = dom (map_of m)"
  by (auto simp: pending_ids_def IncrChangeMap_Contains_def)

lemma pending_ids_push [simp]:
  "pending_ids (IncrChangeMap_push x MapAdd prs) = insert x (pending_ids prs)"
  "pending_ids (IncrChangeMap_push x MapRemove prs) = pending_ids prs - {x}"
  by (auto simp: pending_ids_def IncrChangeMap_Contains_def IncrChangeMap_push_def
      split: if_splits option.splits)

lemma push_base [simp]: "icm_base (IncrChangeMap_push x c prs) = icm_base prs"
  by (simp add: IncrChangeMap_push_def)

lemma dom_ApplyConf_changes:
  "dom (map_of (fold (ApplyConf_change mi n) chs m)) =
     pending_ids \<lparr>icm_changes = chs, icm_base = m\<rparr>"
proof (induction chs rule: rev_induct)
  case (snoc ch chs)
  obtain x c where ch: "ch = (x, c)" by fastforce
  have "pending_ids \<lparr>icm_changes = chs @ [ch], icm_base = m\<rparr> =
      pending_ids (IncrChangeMap_push x c \<lparr>icm_changes = chs, icm_base = m\<rparr>)"
    by (simp add: IncrChangeMap_push_def ch)
  moreover have "dom (map_of (AList.delete x m')) = dom (map_of m') - {x}" for m' :: ProgressMap
    by (auto simp: delete_conv' split: if_splits)
  moreover have "dom (map_of (Map_emplace x v m')) = insert x (dom (map_of m'))" for v and m' :: ProgressMap
    by auto
  ultimately show ?case using snoc.IH by (cases c) (simp_all add: ch del: map_of_emplace)
qed simp

text \<open>Applying the recorded changes gives exactly the members the check looked at.\<close>

lemma tracked_ApplyConf:
  "icm_base prs = pt_progress t \<Longrightarrow>
     tracked (ProgressTracker_ApplyConf cfg (icm_changes prs) n t) = pending_ids prs"
  by (cases prs) (simp add: tracked_def ProgressTracker_ApplyConf_def dom_ApplyConf_changes)

section \<open>The invariant of a configuration\<close>

text \<open>
  \<open>conf_inv cfg D\<close>: the sets of the configuration are sets, learners are no voters, the learners to
  be are voters on their way out, and \<open>D\<close>, the members with progress, are exactly its members.
\<close>

definition conf_inv :: "TrackerConfiguration \<Rightarrow> u64 set \<Rightarrow> bool" where
  "conf_inv cfg D \<longleftrightarrow>
     distinct (incoming cfg) \<and> distinct (outgoing cfg) \<and> distinct (tc_learners cfg) \<and>
     distinct (tc_learners_next cfg) \<and>
     D = set (incoming cfg) \<union> set (outgoing cfg) \<union> set (tc_learners cfg) \<union> set (tc_learners_next cfg) \<and>
     set (tc_learners cfg) \<inter> (set (incoming cfg) \<union> set (outgoing cfg)) = {} \<and>
     set (tc_learners_next cfg) \<subseteq> set (outgoing cfg) - set (incoming cfg)"

definition conf_ok :: "TrackerConfiguration \<Rightarrow> u64 set \<Rightarrow> bool" where
  "conf_ok cfg D \<longleftrightarrow> conf_inv cfg D \<and> (outgoing cfg = [] \<longrightarrow> \<not> tc_auto_leave cfg)"

definition tracker_ok :: "ProgressTracker \<Rightarrow> bool" where
  "tracker_ok t \<longleftrightarrow> conf_ok (pt_conf t) (tracked t) \<and> distinct (map fst (pt_progress t))"

lemma set_incoming_simps [simp]:
  "incoming (set_incoming xs cfg) = xs"
  "outgoing (set_incoming xs cfg) = outgoing cfg"
  "tc_learners (set_incoming xs cfg) = tc_learners cfg"
  "tc_learners_next (set_incoming xs cfg) = tc_learners_next cfg"
  "tc_auto_leave (set_incoming xs cfg) = tc_auto_leave cfg"
  by (simp_all add: set_incoming_def)

lemma set_outgoing_simps [simp]:
  "incoming (set_outgoing xs cfg) = incoming cfg"
  "outgoing (set_outgoing xs cfg) = xs"
  "tc_learners (set_outgoing xs cfg) = tc_learners cfg"
  "tc_learners_next (set_outgoing xs cfg) = tc_learners_next cfg"
  "tc_auto_leave (set_outgoing xs cfg) = tc_auto_leave cfg"
  by (simp_all add: set_outgoing_def)

lemma set_fold_insert [simp]: "set (fold List.insert xs ys) = set xs \<union> set ys"
  by (induction xs arbitrary: ys) auto

lemma distinct_fold_insert [simp]: "distinct ys \<Longrightarrow> distinct (fold List.insert xs ys)"
  by (induction xs arbitrary: ys) auto

lemma set_IDs [simp]: "set (JointConfiguration_IDs jc) = set (jc_incoming jc) \<union> set (jc_outgoing jc)"
  by (auto simp: JointConfiguration_IDs_def)

lemma check_voters_Inr: "check_voters prs xs = Inr () \<longleftrightarrow> set xs \<subseteq> pending_ids prs"
  by (induction xs) (auto simp: contains_iff)

lemma check_learners_Inr:
  "check_learners jc prs xs = Inr () \<longleftrightarrow>
     set xs \<subseteq> pending_ids prs \<and> set xs \<inter> (set (jc_incoming jc) \<union> set (jc_outgoing jc)) = {}"
  by (induction xs) (auto simp: contains_iff)

lemma check_learners_next_Inr:
  "check_learners_next jc prs xs = Inr () \<longleftrightarrow> set xs \<subseteq> pending_ids prs \<inter> set (jc_outgoing jc)"
  by (induction xs) (auto simp: contains_iff)

text \<open>What \<open>CheckInvariants\<close> checks; it does not see members that nobody refers to.\<close>

lemma CheckInvariants_Inr:
  "CheckInvariants cfg prs = Inr () \<longleftrightarrow>
     set (incoming cfg) \<union> set (outgoing cfg) \<union> set (tc_learners cfg) \<union> set (tc_learners_next cfg)
       \<subseteq> pending_ids prs \<and>
     set (tc_learners cfg) \<inter> (set (incoming cfg) \<union> set (outgoing cfg)) = {} \<and>
     set (tc_learners_next cfg) \<subseteq> set (outgoing cfg) \<and>
     (outgoing cfg = [] \<longrightarrow> \<not> tc_auto_leave cfg)"
  by (auto simp: CheckInvariants_def result_bind_Inr check_voters_Inr check_learners_Inr
      check_learners_next_Inr Joint_def)

lemma conf_ok_CheckInvariants: "conf_ok cfg (pending_ids prs) \<Longrightarrow> CheckInvariants cfg prs = Inr ()"
  by (auto simp: conf_ok_def conf_inv_def CheckInvariants_Inr)

lemma conf_inv_joint_wf: "conf_inv cfg D \<Longrightarrow> joint_wf (tc_voters cfg)"
  by (simp add: conf_inv_def joint_wf_def)

lemma conf_inv_auto_leave [simp]: "conf_inv (cfg\<lparr>tc_auto_leave := b\<rparr>) D = conf_inv cfg D"
  by (simp add: conf_inv_def)

lemma CheckAndCopy_ok:
  "tracker_ok t \<Longrightarrow> ConfChanger_CheckAndCopy t =
     Inr (pt_conf t, \<lparr>icm_changes = [], icm_base = pt_progress t\<rparr>)"
  using conf_ok_CheckInvariants [of "pt_conf t" "\<lparr>icm_changes = [], icm_base = pt_progress t\<rparr>"]
  by (simp add: ConfChanger_CheckAndCopy_def tracker_ok_def tracked_def Let_def)

section \<open>One change\<close>

text \<open>The configuration as sets: incoming, outgoing, learners, learners to be.\<close>

definition conf_view :: "TrackerConfiguration \<Rightarrow> u64 set \<times> u64 set \<times> u64 set \<times> u64 set" where
  "conf_view cfg = (set (incoming cfg), set (outgoing cfg), set (tc_learners cfg), set (tc_learners_next cfg))"

lemma conf_view_auto_leave [simp]: "conf_view (cfg\<lparr>tc_auto_leave := b\<rparr>) = conf_view cfg"
  by (simp add: conf_view_def)

text \<open>What one change does to the sets, independent of the progress map.\<close>

fun view_change :: "conf_change_single \<Rightarrow> u64 set \<times> u64 set \<times> u64 set \<times> u64 set \<Rightarrow>
    u64 set \<times> u64 set \<times> u64 set \<times> u64 set" where
  "view_change cc (I, Og, L, N) =
     (let x = ccs_node_id cc in
      if x = 0 then (I, Og, L, N)
      else case ccs_change_type cc of
        ADD_NODE \<Rightarrow> (insert x I, Og, L - {x}, N - {x})
      | REMOVE_NODE \<Rightarrow> (I - {x}, Og, L - {x}, N - {x})
      | ADD_LEARNER_NODE \<Rightarrow>
          (I - {x}, Og, if x \<in> Og then L - {x} else insert x L, if x \<in> Og then insert x N else N - {x})
      | OTHER_CHANGE_TYPE _ \<Rightarrow> (I, Og, L, N))"

abbreviation delta_inv :: "conf_delta \<Rightarrow> bool" where
  "delta_inv d \<equiv> conf_inv (fst d) (pending_ids (snd d))"

lemma conf_inv_absent:
  "conf_inv cfg D \<Longrightarrow> x \<notin> D \<Longrightarrow>
     x \<notin> set (incoming cfg) \<and> x \<notin> set (outgoing cfg) \<and> x \<notin> set (tc_learners cfg) \<and>
     x \<notin> set (tc_learners_next cfg)"
  by (simp add: conf_inv_def)

lemma MakeVoter_shape:
  assumes "delta_inv (cfg, prs)" "ConfChanger_MakeVoter x (cfg, prs) = (cfg', prs')"
  shows "incoming cfg' = List.insert x (incoming cfg)" "outgoing cfg' = outgoing cfg"
    "tc_learners cfg' = removeAll x (tc_learners cfg)"
    "tc_learners_next cfg' = removeAll x (tc_learners_next cfg)"
    "tc_auto_leave cfg' = tc_auto_leave cfg" "icm_base prs' = icm_base prs"
    "pending_ids prs' = insert x (pending_ids prs)"
  using assms conf_inv_absent [of cfg "pending_ids prs" x]
  by (auto simp: ConfChanger_MakeVoter_def ConfChanger_InitProgress_def contains_iff split: if_splits)

lemma Remove_shape:
  assumes "delta_inv (cfg, prs)" "ConfChanger_Remove x (cfg, prs) = (cfg', prs')"
  shows "incoming cfg' = removeAll x (incoming cfg)" "outgoing cfg' = outgoing cfg"
    "tc_learners cfg' = removeAll x (tc_learners cfg)"
    "tc_learners_next cfg' = removeAll x (tc_learners_next cfg)"
    "tc_auto_leave cfg' = tc_auto_leave cfg" "icm_base prs' = icm_base prs"
    "pending_ids prs' = (if x \<in> set (outgoing cfg) then pending_ids prs else pending_ids prs - {x})"
  using assms conf_inv_absent [of cfg "pending_ids prs" x]
  by (auto simp: ConfChanger_Remove_def contains_iff Let_def split: if_splits)

lemma MakeLearner_cases:
  fixes cfg :: TrackerConfiguration
  assumes "ConfChanger_MakeLearner x (cfg, prs) = (cfg', prs')"
  defines "cfg1 \<equiv> (set_incoming (removeAll x (incoming cfg)) cfg)
             \<lparr>tc_learners := removeAll x (tc_learners cfg), tc_learners_next := removeAll x (tc_learners_next cfg)\<rparr>"
  shows "x \<notin> pending_ids prs \<Longrightarrow>
           cfg' = cfg\<lparr>tc_learners := List.insert x (tc_learners cfg)\<rparr> \<and> prs' = IncrChangeMap_push x MapAdd prs"
    and "x \<in> pending_ids prs \<Longrightarrow> x \<in> set (tc_learners cfg) \<Longrightarrow> cfg' = cfg \<and> prs' = prs"
    and "x \<in> pending_ids prs \<Longrightarrow> x \<notin> set (tc_learners cfg) \<Longrightarrow> x \<in> set (outgoing cfg) \<Longrightarrow>
           cfg' = cfg1\<lparr>tc_learners_next := List.insert x (tc_learners_next cfg1)\<rparr> \<and> prs' = prs"
    and "x \<in> pending_ids prs \<Longrightarrow> x \<notin> set (tc_learners cfg) \<Longrightarrow> x \<notin> set (outgoing cfg) \<Longrightarrow>
           cfg' = cfg1\<lparr>tc_learners := List.insert x (tc_learners cfg1)\<rparr> \<and> prs' = prs"
  using assms
  by (simp_all add: ConfChanger_MakeLearner_def ConfChanger_InitProgress_def contains_iff Let_def)

lemma MakeLearner_shape:
  assumes "delta_inv (cfg, prs)" "ConfChanger_MakeLearner x (cfg, prs) = (cfg', prs')"
  shows "set (incoming cfg') = set (incoming cfg) - {x} \<and> outgoing cfg' = outgoing cfg \<and>
    set (tc_learners cfg') = (if x \<in> set (outgoing cfg) then set (tc_learners cfg) - {x}
                              else insert x (set (tc_learners cfg))) \<and>
    set (tc_learners_next cfg') = (if x \<in> set (outgoing cfg) then insert x (set (tc_learners_next cfg))
                                   else set (tc_learners_next cfg) - {x}) \<and>
    tc_auto_leave cfg' = tc_auto_leave cfg \<and> icm_base prs' = icm_base prs \<and>
    pending_ids prs' = insert x (pending_ids prs) \<and>
    distinct (incoming cfg') \<and> distinct (tc_learners cfg') \<and> distinct (tc_learners_next cfg')"
    (is ?G)
proof -
  have i: "distinct (incoming cfg)" "distinct (tc_learners cfg)" "distinct (tc_learners_next cfg)"
    "x \<in> set (tc_learners cfg) \<Longrightarrow> x \<notin> set (incoming cfg) \<and> x \<notin> set (outgoing cfg)"
    "x \<in> set (tc_learners_next cfg) \<Longrightarrow> x \<in> set (outgoing cfg)"
    using assms(1) by (auto simp: conf_inv_def)
  note c = MakeLearner_cases [OF assms(2)]
  consider "x \<notin> pending_ids prs" | "x \<in> pending_ids prs" "x \<in> set (tc_learners cfg)"
    | "x \<in> pending_ids prs" "x \<notin> set (tc_learners cfg)" "x \<in> set (outgoing cfg)"
    | "x \<in> pending_ids prs" "x \<notin> set (tc_learners cfg)" "x \<notin> set (outgoing cfg)" by blast
  then show ?G
  proof cases
    case 1
    then show ?thesis using conf_inv_absent [of cfg "pending_ids prs" x] c(1) i(1-3) assms(1) by simp
  next
    case 2
    then show ?thesis using c(2) i by (auto simp: insert_absorb)
  next
    case 3
    then show ?thesis using c(3) i(1-3) by (simp add: insert_absorb distinct_removeAll)
  next
    case 4
    then show ?thesis using c(4) i by (auto simp: insert_absorb distinct_removeAll)
  qed
qed

lemma learner_sets:
  assumes "D = I \<union> Og \<union> L \<union> N" "L \<inter> (I \<union> Og) = {}" "N \<subseteq> Og - I"
  shows "x \<in> Og \<Longrightarrow> insert x D = (I - {x}) \<union> Og \<union> (L - {x}) \<union> insert x N \<and>
           (L - {x}) \<inter> ((I - {x}) \<union> Og) = {} \<and> insert x N \<subseteq> Og - (I - {x})"
    and "x \<notin> Og \<Longrightarrow> insert x D = (I - {x}) \<union> Og \<union> insert x L \<union> (N - {x}) \<and>
           insert x L \<inter> ((I - {x}) \<union> Og) = {} \<and> N - {x} \<subseteq> Og - (I - {x})"
  using assms by blast+

lemma apply_one_step:
  assumes "delta_inv d" "ConfChanger_apply_one cc d = Some d'"
  shows "delta_inv d' \<and> conf_view (fst d') = view_change cc (conf_view (fst d)) \<and>
         icm_base (snd d') = icm_base (snd d) \<and> outgoing (fst d') = outgoing (fst d) \<and>
         tc_auto_leave (fst d') = tc_auto_leave (fst d)"
proof -
  obtain cfg prs where d: "d = (cfg, prs)" by fastforce
  obtain cfg' prs' where d': "d' = (cfg', prs')" by fastforce
  let ?x = "ccs_node_id cc"
  have inv: "delta_inv (cfg, prs)" using assms(1) d by simp
  consider "?x = 0" | "?x \<noteq> 0" "ccs_change_type cc = ADD_NODE" | "?x \<noteq> 0" "ccs_change_type cc = REMOVE_NODE"
    | "?x \<noteq> 0" "ccs_change_type cc = ADD_LEARNER_NODE"
    using assms(2) by (cases "ccs_change_type cc") (auto simp: ConfChanger_apply_one_def split: if_splits)
  then show ?thesis
  proof cases
    case 1
    then show ?thesis using assms by (simp add: ConfChanger_apply_one_def conf_view_def)
  next
    case 2
    then have "ConfChanger_MakeVoter ?x (cfg, prs) = (cfg', prs')"
      using assms(2) d d' by (simp add: ConfChanger_apply_one_def)
    note sh = MakeVoter_shape [OF inv this]
    have "conf_inv cfg' (pending_ids prs')"
      using inv unfolding conf_inv_def sh by (auto simp: distinct_removeAll)
    then show ?thesis using sh 2 d d' by (simp add: conf_view_def Let_def)
  next
    case 3
    then have "ConfChanger_Remove ?x (cfg, prs) = (cfg', prs')"
      using assms(2) d d' by (simp add: ConfChanger_apply_one_def)
    note sh = Remove_shape [OF inv this]
    have "conf_inv cfg' (pending_ids prs')"
      using inv unfolding conf_inv_def sh by (auto simp: distinct_removeAll)
    then show ?thesis using sh 3 d d' by (simp add: conf_view_def Let_def)
  next
    case 4
    then have "ConfChanger_MakeLearner ?x (cfg, prs) = (cfg', prs')"
      using assms(2) d d' by (simp add: ConfChanger_apply_one_def)
    note sh = MakeLearner_shape [OF inv this]
    have "conf_inv cfg' (pending_ids prs')"
      using inv sh learner_sets [of "pending_ids prs" "set (incoming cfg)" "set (outgoing cfg)"
          "set (tc_learners cfg)" "set (tc_learners_next cfg)" ?x]
      unfolding conf_inv_def fst_conv snd_conv by (cases "?x \<in> set (outgoing cfg)") simp_all
    then show ?thesis using sh 4 d d' by (simp add: conf_view_def Let_def)
  qed
qed

lemma apply_loop_step:
  assumes "delta_inv d" "ConfChanger_apply_loop ccs d = Some d'"
  shows "delta_inv d' \<and> conf_view (fst d') = fold view_change ccs (conf_view (fst d)) \<and>
         icm_base (snd d') = icm_base (snd d) \<and> outgoing (fst d') = outgoing (fst d) \<and>
         tc_auto_leave (fst d') = tc_auto_leave (fst d)"
  using assms
proof (induction ccs arbitrary: d)
  case (Cons cc ccs)
  then obtain d1 where "ConfChanger_apply_one cc d = Some d1" "ConfChanger_apply_loop ccs d1 = Some d'"
    by (auto elim: bind_SomeE)
  then show ?case using apply_one_step [OF Cons.prems(1)] Cons.IH [of d1] by simp
qed simp

definition known_change :: "conf_change_single \<Rightarrow> bool" where
  "known_change cc \<longleftrightarrow> ccs_node_id cc = 0 \<or> ccs_change_type cc \<in> {ADD_NODE, REMOVE_NODE, ADD_LEARNER_NODE}"

lemma apply_loop_total:
  "(\<exists>d'. ConfChanger_apply_loop ccs d = Some d') \<longleftrightarrow> list_all known_change ccs"
proof (induction ccs arbitrary: d)
  case (Cons cc ccs)
  have "ConfChanger_apply_one cc d = None \<longleftrightarrow> \<not> known_change cc"
    by (auto simp: ConfChanger_apply_one_def known_change_def split: ConfChangeType.splits)
  then show ?case using Cons.IH by (cases "ConfChanger_apply_one cc d") auto
qed simp

section \<open>Whole operations\<close>

text \<open>A result that may be applied to the tracker it was computed from.\<close>

definition conf_result :: "ProgressTracker \<Rightarrow> TrackerConfiguration \<Rightarrow> MapChange \<Rightarrow> bool" where
  "conf_result t cfg chs \<longleftrightarrow>
     (\<exists>prs. chs = icm_changes prs \<and> icm_base prs = pt_progress t \<and> conf_ok cfg (pending_ids prs))"

lemma conf_result_apply:
  "tracker_ok t \<Longrightarrow> conf_result t cfg chs \<Longrightarrow> tracker_ok (ProgressTracker_ApplyConf cfg chs n t)"
  by (auto simp: conf_result_def tracker_ok_def tracked_ApplyConf intro: distinct_ApplyConf)
    (simp add: ProgressTracker_ApplyConf_def)

lemma ApplyConf_conf [simp]: "pt_conf (ProgressTracker_ApplyConf cfg chs n t) = cfg"
  by (simp add: ProgressTracker_ApplyConf_def)

abbreviation base_delta :: "ProgressTracker \<Rightarrow> conf_delta" where
  "base_delta t \<equiv> (pt_conf t, \<lparr>icm_changes = [], icm_base = pt_progress t\<rparr>)"

abbreviation joint_delta :: "ProgressTracker \<Rightarrow> conf_delta" where
  "joint_delta t \<equiv> (set_outgoing (fold List.insert (incoming (pt_conf t)) (outgoing (pt_conf t))) (pt_conf t),
                    \<lparr>icm_changes = [], icm_base = pt_progress t\<rparr>)"

lemma base_delta_inv: "tracker_ok t \<Longrightarrow> delta_inv (base_delta t)"
  by (simp add: tracker_ok_def conf_ok_def tracked_def)

lemma joint_delta_inv: "tracker_ok t \<Longrightarrow> \<not> Joint (pt_conf t) \<Longrightarrow> delta_inv (joint_delta t)"
  by (auto simp: tracker_ok_def conf_ok_def tracked_def conf_inv_def Joint_def)

text \<open>
  On a well-formed tracker the final check never fails, so these are all the outcomes of
  \<open>EnterJoint\<close>, \<open>Simple\<close> and \<open>LeaveJoint\<close>.
\<close>

lemma EnterJoint_outcome:
  assumes "tracker_ok t"
  shows "ConfChanger_EnterJoint al ccs t =
    (if Joint (pt_conf t) then Some (Inl (ConfChangeCode ConfigAlreadyJoint))
     else if incoming (pt_conf t) = [] then Some (Inl (ConfChangeCode ZeroVoterConfigJoint))
     else case ConfChanger_apply_loop ccs (joint_delta t) of
       None \<Rightarrow> None
     | Some (cfg, prs) \<Rightarrow>
         Some (if incoming cfg = [] then Inl (ConfChangeCode RemovedAllVoters)
               else Inr (cfg\<lparr>tc_auto_leave := al\<rparr>, icm_changes prs)))"
proof (cases "Joint (pt_conf t) \<or> incoming (pt_conf t) = [] \<or> ConfChanger_apply_loop ccs (joint_delta t) = None")
  case True
  then show ?thesis using CheckAndCopy_ok [OF assms]
    by (auto simp: ConfChanger_EnterJoint_def ConfChanger_Apply_def)
next
  case False
  then obtain cfg prs where loop: "ConfChanger_apply_loop ccs (joint_delta t) = Some (cfg, prs)" by auto
  have d: "delta_inv (cfg, prs)" "outgoing cfg = outgoing (fst (joint_delta t))"
    using apply_loop_step [OF joint_delta_inv [OF assms] loop] False by auto
  have "outgoing cfg \<noteq> []" using d(2) False by (metis Un_empty fst_conv set_empty set_fold_insert set_outgoing_simps(2))
  then have "conf_ok (cfg\<lparr>tc_auto_leave := al\<rparr>) (pending_ids prs)"
    using d(1) by (simp add: conf_ok_def)
  from conf_ok_CheckInvariants [OF this] show ?thesis
    using False loop CheckAndCopy_ok [OF assms]
    by (simp add: ConfChanger_EnterJoint_def ConfChanger_Apply_def Let_def)
qed

lemma EnterJoint_result:
  assumes "tracker_ok t" "ConfChanger_EnterJoint al ccs t = Some (Inr (cfg, chs))"
  shows "conf_result t cfg chs"
    and "conf_view cfg = fold view_change ccs (conf_view (fst (joint_delta t)))"
    and "\<not> Joint (pt_conf t) \<and> incoming (pt_conf t) \<noteq> [] \<and> incoming cfg \<noteq> [] \<and>
         outgoing cfg = fold List.insert (incoming (pt_conf t)) (outgoing (pt_conf t)) \<and> tc_auto_leave cfg = al"
proof -
  have nj: "\<not> Joint (pt_conf t)" "incoming (pt_conf t) \<noteq> []"
    using assms by (auto simp: EnterJoint_outcome [OF assms(1)] split: if_splits)
  then obtain c prs where loop: "ConfChanger_apply_loop ccs (joint_delta t) = Some (c, prs)"
    and r: "incoming c \<noteq> []" "cfg = c\<lparr>tc_auto_leave := al\<rparr>" "chs = icm_changes prs"
    using assms by (auto simp: EnterJoint_outcome [OF assms(1)] split: option.splits if_splits)
  note st = apply_loop_step [OF joint_delta_inv [OF assms(1) nj(1)] loop]
  have "outgoing c \<noteq> []" using st nj(2) by (metis Un_empty fst_conv set_empty set_fold_insert set_outgoing_simps(2))
  then show "conf_result t cfg chs"
    unfolding conf_result_def using st r by (intro exI [of _ prs]) (simp add: conf_ok_def)
  show "conf_view cfg = fold view_change ccs (conf_view (fst (joint_delta t)))"
    using st r(2) by simp
  show "\<not> Joint (pt_conf t) \<and> incoming (pt_conf t) \<noteq> [] \<and> incoming cfg \<noteq> [] \<and>
         outgoing cfg = fold List.insert (incoming (pt_conf t)) (outgoing (pt_conf t)) \<and> tc_auto_leave cfg = al"
    using st r nj by simp
qed

lemma set_symmetric_difference_length:
  "sorted xs \<Longrightarrow> distinct xs \<Longrightarrow> sorted ys \<Longrightarrow> distinct ys \<Longrightarrow>
     set (set_symmetric_difference xs ys) = (set xs - set ys) \<union> (set ys - set xs) \<and>
     distinct (set_symmetric_difference xs ys)"
proof (induction xs ys rule: set_symmetric_difference.induct)
  case (3 x xs y ys)
  have nx: "x \<notin> set xs" "\<forall>z\<in>set xs. x \<le> z" and ny: "y \<notin> set ys" "\<forall>z\<in>set ys. y \<le> z"
    using 3(4-7) by auto
  consider "x < y" | "y < x" | "x = y" by force
  then show ?case
  proof cases
    case 1
    then have "x \<notin> set (y # ys)" using ny by auto
    then show ?thesis using 1 3(1) [OF 1] 3(4-7) nx by auto
  next
    case 2
    then have "y \<notin> set (x # xs)" using nx by auto
    then show ?thesis using 2 3(2) 3(4-7) ny by auto
  next
    case 3
    then show ?thesis using "3.IH"(3) "3.prems" nx ny by auto
  qed
qed auto

lemma diff_length:
  assumes "distinct a" "distinct b"
  shows "length (set_symmetric_difference (sort a) (sort b)) =
         card ((set a - set b) \<union> (set b - set a))"
  using set_symmetric_difference_length [of "sort a" "sort b"] assms
  by (metis distinct_card distinct_sort set_sort sorted_sort)

lemma Simple_outcome:
  assumes "tracker_ok t"
  shows "ConfChanger_Simple ccs t =
    (if Joint (pt_conf t) then Some (Inl (ConfChangeCode CannotApplySimpleInJointConfig))
     else case ConfChanger_apply_loop ccs (base_delta t) of
       None \<Rightarrow> None
     | Some (cfg, prs) \<Rightarrow>
         Some (if incoming cfg = [] then Inl (ConfChangeCode RemovedAllVoters)
               else if 1 < card ((set (incoming cfg) - set (incoming (pt_conf t))) \<union>
                                 (set (incoming (pt_conf t)) - set (incoming cfg)))
               then Inl (ConfChangeCode MultipleVotersChangedWithoutJoint)
               else Inr (cfg, icm_changes prs)))"
proof (cases "Joint (pt_conf t) \<or> ConfChanger_apply_loop ccs (base_delta t) = None")
  case True
  then show ?thesis using CheckAndCopy_ok [OF assms]
    by (auto simp: ConfChanger_Simple_def ConfChanger_Apply_def)
next
  case False
  then obtain cfg prs where loop: "ConfChanger_apply_loop ccs (base_delta t) = Some (cfg, prs)" by auto
  have st: "delta_inv (cfg, prs)" "outgoing cfg = outgoing (pt_conf t)" "tc_auto_leave cfg = tc_auto_leave (pt_conf t)"
    using apply_loop_step [OF base_delta_inv [OF assms] loop] by auto
  have "\<not> tc_auto_leave (pt_conf t)" using assms False by (simp add: tracker_ok_def conf_ok_def Joint_def)
  then have "conf_ok cfg (pending_ids prs)" using st by (simp add: conf_ok_def)
  note chk = conf_ok_CheckInvariants [OF this]
  have "distinct (incoming cfg)" "distinct (incoming (pt_conf t))"
    using st(1) assms by (simp_all add: conf_inv_def tracker_ok_def conf_ok_def)
  note len = diff_length [OF this]
  show ?thesis
    using False loop CheckAndCopy_ok [OF assms] chk len
    by (simp add: ConfChanger_Simple_def ConfChanger_Apply_def Let_def)
qed

lemma Simple_result:
  assumes "tracker_ok t" "ConfChanger_Simple ccs t = Some (Inr (cfg, chs))"
  shows "conf_result t cfg chs"
    and "conf_view cfg = fold view_change ccs (conf_view (pt_conf t))"
    and "\<not> Joint (pt_conf t) \<and> incoming cfg \<noteq> [] \<and> outgoing cfg = [] \<and>
         card ((set (incoming cfg) - set (incoming (pt_conf t))) \<union>
               (set (incoming (pt_conf t)) - set (incoming cfg))) \<le> 1"
proof -
  have nj: "\<not> Joint (pt_conf t)" using assms by (auto simp: Simple_outcome [OF assms(1)] split: if_splits)
  then obtain prs where loop: "ConfChanger_apply_loop ccs (base_delta t) = Some (cfg, prs)"
    and r: "incoming cfg \<noteq> []" "chs = icm_changes prs"
      "\<not> 1 < card ((set (incoming cfg) - set (incoming (pt_conf t))) \<union>
               (set (incoming (pt_conf t)) - set (incoming cfg)))"
    using assms by (auto simp: Simple_outcome [OF assms(1)] split: option.splits if_splits)
  note st = apply_loop_step [OF base_delta_inv [OF assms(1)] loop]
  have "\<not> tc_auto_leave (pt_conf t)" using assms nj by (simp add: tracker_ok_def conf_ok_def Joint_def)
  then show "conf_result t cfg chs"
    unfolding conf_result_def using st r by (intro exI [of _ prs]) (simp add: conf_ok_def)
  show "conf_view cfg = fold view_change ccs (conf_view (pt_conf t))" using st by simp
  show "\<not> Joint (pt_conf t) \<and> incoming cfg \<noteq> [] \<and> outgoing cfg = [] \<and>
         card ((set (incoming cfg) - set (incoming (pt_conf t))) \<union>
               (set (incoming (pt_conf t)) - set (incoming cfg))) \<le> 1"
    using st r nj by (simp add: Joint_def)
qed

lemma leave_removals_ids:
  "pending_ids (leave_removals cfg xs prs) =
     pending_ids prs - (set xs - set (incoming cfg) - set (tc_learners cfg))"
  by (induction xs arbitrary: prs) auto

lemma leave_removals_base [simp]: "icm_base (leave_removals cfg xs prs) = icm_base prs"
  by (induction xs arbitrary: prs) auto

definition leave_conf :: "TrackerConfiguration \<Rightarrow> TrackerConfiguration" where
  "leave_conf cfg =
     (set_outgoing [] (cfg\<lparr>tc_learners := fold List.insert (tc_learners_next cfg) (tc_learners cfg),
                           tc_learners_next := []\<rparr>))\<lparr>tc_auto_leave := False\<rparr>"

lemma LeaveJoint_outcome:
  assumes "tracker_ok t"
  shows "if Joint (pt_conf t)
         then \<exists>chs. ConfChanger_LeaveJoint t = Inr (leave_conf (pt_conf t), chs) \<and>
                    conf_result t (leave_conf (pt_conf t)) chs
         else ConfChanger_LeaveJoint t = Inl (ConfChangeCode LeaveNonJointConfig)"
proof (cases "Joint (pt_conf t)")
  case True
  let ?cfg = "pt_conf t"
  let ?mid = "?cfg\<lparr>tc_learners := fold List.insert (tc_learners_next ?cfg) (tc_learners ?cfg), tc_learners_next := []\<rparr>"
  let ?prs = "leave_removals ?mid (outgoing ?cfg) \<lparr>icm_changes = [], icm_base = pt_progress t\<rparr>"
  have inv: "conf_inv ?cfg (tracked t)" using assms by (simp add: tracker_ok_def conf_ok_def)
  have "pending_ids ?prs = set (incoming ?cfg) \<union> set (tc_learners ?cfg) \<union> set (tc_learners_next ?cfg)"
    unfolding leave_removals_ids using inv by (auto simp: conf_inv_def tracked_def)
  then have ok: "conf_ok (leave_conf ?cfg) (pending_ids ?prs)"
    using inv by (auto simp: conf_ok_def conf_inv_def leave_conf_def)
  have "ConfChanger_LeaveJoint t = Inr (leave_conf ?cfg, icm_changes ?prs)"
    using True conf_ok_CheckInvariants [OF ok]
    by (simp add: ConfChanger_LeaveJoint_def CheckAndCopy_ok [OF assms] leave_conf_def Let_def Joint_def)
  then show ?thesis using True ok unfolding conf_result_def by auto
qed (simp add: ConfChanger_LeaveJoint_def)

section \<open>Membership changes are safe\<close>

text \<open>One committed membership change, as \<open>Raft::ApplyConfChange\<close> performs it.\<close>

inductive conf_step :: "ProgressTracker \<Rightarrow> ProgressTracker \<Rightarrow> bool" where
  simple: "ConfChanger_Simple ccs t = Some (Inr (cfg, chs)) \<Longrightarrow>
     conf_step t (ProgressTracker_ApplyConf cfg chs n t)"
| enter: "ConfChanger_EnterJoint al ccs t = Some (Inr (cfg, chs)) \<Longrightarrow>
     conf_step t (ProgressTracker_ApplyConf cfg chs n t)"
| leave: "ConfChanger_LeaveJoint t = Inr (cfg, chs) \<Longrightarrow>
     conf_step t (ProgressTracker_ApplyConf cfg chs n t)"

lemma LeaveJoint_result:
  assumes "tracker_ok t" "ConfChanger_LeaveJoint t = Inr (cfg, chs)"
  shows "Joint (pt_conf t) \<and> cfg = leave_conf (pt_conf t) \<and> conf_result t cfg chs"
  using LeaveJoint_outcome [OF assms(1)] assms(2) by (auto split: if_splits)

lemma conf_step_ok: "conf_step t t' \<Longrightarrow> tracker_ok t \<Longrightarrow> tracker_ok t'"
  by (induction rule: conf_step.induct)
    (auto intro: conf_result_apply Simple_result EnterJoint_result dest: LeaveJoint_result)

text \<open>
  C23. Membership changes keep the tracker well formed: after any sequence of successful simple,
  enter-joint and leave-joint changes the voter and learner sets are disjoint as required, learners
  to be are outgoing voters, and the members with a progress are exactly the members of the group.
\<close>

theorem conf_change_invariant:
  assumes "conf_step\<^sup>*\<^sup>* (ProgressTracker_new max_inflight) t"
  shows "tracker_ok t"
proof -
  have "tracker_ok (ProgressTracker_new max_inflight)"
    by (simp add: tracker_ok_def conf_ok_def conf_inv_def ProgressTracker_new_def
        TrackerConfiguration_new_def tracked_def)
  with assms show ?thesis by (induction rule: rtranclp_induct) (auto intro: conf_step_ok)
qed

text \<open>Majorities of voter sets that differ in at most one member intersect.\<close>

lemma near_majorities_subset:
  assumes "distinct a" "distinct b" "a \<noteq> []" "set a \<subseteq> set b" "card (set b) \<le> card (set a) + 1"
    "majority_quorum a P" "majority_quorum b Q"
  shows "P \<inter> Q \<noteq> {}"
proof
  assume e: "P \<inter> Q = {}"
  have "card (set a \<inter> P) + card (set b \<inter> Q) = card ((set a \<inter> P) \<union> (set b \<inter> Q))"
    using e by (intro card_Un_disjoint [symmetric]) auto
  also have "\<dots> \<le> card (set b)" using assms(4) by (intro card_mono) auto
  finally have "card (set a \<inter> P) + card (set b \<inter> Q) \<le> card (set b)" .
  moreover have "b \<noteq> []" using assms(3,4) by auto
  ultimately show False
    using assms(1-3,5-7) by (simp add: majority_quorum_def distinct_card)
qed

lemma near_majorities:
  assumes "distinct a" "distinct b" "a \<noteq> []" "b \<noteq> []"
    "card ((set b - set a) \<union> (set a - set b)) \<le> 1" "majority_quorum a P" "majority_quorum b Q"
  shows "P \<inter> Q \<noteq> {}"
proof -
  have fin: "finite ((set b - set a) \<union> (set a - set b))" by simp
  have one: "card (set b - set a) \<le> 1" "card (set a - set b) \<le> 1"
    by (rule order_trans [OF card_mono [OF fin] assms(5)], simp)+
  consider "set b - set a = {}" | "set a - set b = {}"
  proof -
    have "\<not> (x \<in> set b - set a \<and> y \<in> set a - set b)" for x y
      using card_mono [OF fin, of "{x, y}"] assms(5) by (cases "x = y") auto
    then show ?thesis using that by blast
  qed
  then show ?thesis
  proof cases
    case 1
    then have sub: "set b \<subseteq> set a" by auto
    have "card (set a) \<le> card (set b) + card (set a - set b)"
      using sub card_Un_le [of "set b" "set a - set b"] by (simp add: Un_absorb1)
    then have "card (set a) \<le> card (set b) + 1" using one by simp
    then show ?thesis using near_majorities_subset [OF assms(2,1,4) sub _ assms(7,6)] by blast
  next
    case 2
    then have sub: "set a \<subseteq> set b" by auto
    have "card (set b) \<le> card (set a) + card (set b - set a)"
      using sub card_Un_le [of "set a" "set b - set a"] by (simp add: Un_absorb1)
    then have "card (set b) \<le> card (set a) + 1" using one by simp
    then show ?thesis using near_majorities_subset [OF assms(1,2,3) sub _ assms(6,7)] by blast
  qed
qed

lemma majority_quorum_set_cong:
  "distinct a \<Longrightarrow> distinct b \<Longrightarrow> set a = set b \<Longrightarrow> majority_quorum a P = majority_quorum b P"
  by (metis distinct_card list.set(1) majority_quorum_def set_empty2)

text \<open>
  C24. A membership change can never split the group: every quorum of the configuration before a
  change and every quorum of the configuration after it share a member. So no entry can be
  committed and no leader elected on the two sides of a change by disjoint sets of nodes.
\<close>

theorem conf_change_quorums_overlap:
  assumes "tracker_ok t" "incoming (pt_conf t) \<noteq> []" "conf_step t t'"
    "joint_quorum (tc_voters (pt_conf t)) P" "joint_quorum (tc_voters (pt_conf t')) Q"
  shows "P \<inter> Q \<noteq> {}"
  using assms(3)
proof cases
  case (simple ccs cfg chs n)
  note r = Simple_result [OF assms(1) simple(2)]
  have "distinct (incoming (pt_conf t))" "distinct (incoming cfg)"
    using assms(1) r(1) by (auto simp: tracker_ok_def conf_ok_def conf_inv_def conf_result_def)
  then show ?thesis using near_majorities [of "incoming (pt_conf t)" "incoming cfg" P Q] r(3) assms simple
    by (simp add: joint_quorum_def)
next
  case (enter al ccs cfg chs n)
  note r = EnterJoint_result [OF assms(1) enter(2)]
  have d: "distinct (incoming (pt_conf t))" "distinct (outgoing cfg)" "set (outgoing cfg) = set (incoming (pt_conf t))"
    using assms(1) r(1,3) by (auto simp: tracker_ok_def conf_ok_def conf_inv_def conf_result_def Joint_def)
  have "majority_quorum (incoming (pt_conf t)) P" "majority_quorum (incoming (pt_conf t)) Q"
    using assms(4,5) enter majority_quorum_set_cong [OF d(2,1,3)] by (simp_all add: joint_quorum_def)
  then show ?thesis using maj.quorum_intersect d(1) assms(2) by blast
next
  case (leave cfg chs n)
  note r = LeaveJoint_result [OF assms(1) leave(2)]
  have "distinct (incoming (pt_conf t))"
    using assms(1) by (simp add: tracker_ok_def conf_ok_def conf_inv_def)
  moreover have "majority_quorum (incoming (pt_conf t)) P" "majority_quorum (incoming (pt_conf t)) Q"
    using assms(4,5) leave r by (simp_all add: joint_quorum_def leave_conf_def)
  ultimately show ?thesis using maj.quorum_intersect assms(2) by blast
qed

definition conf_example :: ProgressTracker where
  "conf_example =
     (let cfg = \<lparr>tc_voters = \<lparr>jc_incoming = [1], jc_outgoing = []\<rparr>, tc_learners = [],
                 tc_learners_next = [], tc_auto_leave = False\<rparr>
      in ProgressTracker_ApplyConf cfg [(1, MapAdd)] 1 (ProgressTracker_new 8))"

lemma conf_example_ok: "tracker_ok conf_example"
  by (simp add: conf_example_def tracker_ok_def conf_ok_def conf_inv_def ProgressTracker_new_def
      TrackerConfiguration_new_def tracked_def ProgressTracker_ApplyConf_def)

lemma conf_example_step: "conf_step (ProgressTracker_new 8) conf_example"
proof -
  have "ConfChanger_Simple [\<lparr>ccs_change_type = ADD_NODE, ccs_node_id = 1\<rparr>] (ProgressTracker_new 8) =
    Some (Inr (\<lparr>tc_voters = \<lparr>jc_incoming = [1], jc_outgoing = []\<rparr>, tc_learners = [],
                 tc_learners_next = [], tc_auto_leave = False\<rparr>, [(1, MapAdd)]))"
    by code_simp
  from conf_step.simple [OF this] show ?thesis by (simp add: conf_example_def)
qed

theorem conf_change_invariant_witness:
  "conf_step (ProgressTracker_new 8) conf_example \<and> tracker_ok conf_example"
proof -
  have "conf_step\<^sup>*\<^sup>* (ProgressTracker_new 8) conf_example" using conf_example_step by (rule r_into_rtranclp)
  from conf_change_invariant [OF this] show ?thesis using conf_example_step by simp
qed

theorem conf_change_quorums_overlap_witness:
  "\<exists>t. conf_step conf_example t \<and> incoming (pt_conf t) = [2, 1] \<and> {1, 2} \<inter> {1} \<noteq> ({} :: u64 set)"
proof -
  let ?cfg = "\<lparr>tc_voters = \<lparr>jc_incoming = [2, 1], jc_outgoing = []\<rparr>, tc_learners = [],
                 tc_learners_next = [], tc_auto_leave = False\<rparr>"
  have "ConfChanger_Simple [\<lparr>ccs_change_type = ADD_NODE, ccs_node_id = 2\<rparr>] conf_example =
    Some (Inr (?cfg, [(2, MapAdd)]))"
    by code_simp
  from conf_step.simple [OF this] have st: "conf_step conf_example (ProgressTracker_ApplyConf ?cfg [(2, MapAdd)] 1 conf_example)" .
  have "{1} \<inter> {1, 2} \<noteq> ({} :: u64 set)"
    by (rule conf_change_quorums_overlap [OF conf_example_ok _ st])
      (simp_all add: conf_example_def joint_quorum_def majority_quorum_def Let_def)
  then show ?thesis using st by (intro exI) auto
qed

section \<open>Errors\<close>

text \<open>The voters after a sequence of changes depend on the voters before only.\<close>

lemma view_change_voters: "fst v = fst w \<Longrightarrow> fst (view_change cc v) = fst (view_change cc w)"
proof -
  have "fst (view_change cc (I, Og, L, N)) =
      (if ccs_node_id cc = 0 then I
       else case ccs_change_type cc of ADD_NODE \<Rightarrow> insert (ccs_node_id cc) I | OTHER_CHANGE_TYPE _ \<Rightarrow> I | _ \<Rightarrow> I - {ccs_node_id cc})"
    for I Og L N by (simp add: Let_def split: ConfChangeType.split)
  then show "fst v = fst w \<Longrightarrow> fst (view_change cc v) = fst (view_change cc w)" by (cases v; cases w) simp
qed

lemma view_changes_voters: "fst v = fst w \<Longrightarrow> fst (fold view_change ccs v) = fst (fold view_change ccs w)"
proof (induction ccs arbitrary: v w)
  case (Cons cc ccs)
  show ?case using Cons.IH [OF view_change_voters [OF Cons.prems]] by (simp only: fold_simps)
qed simp

lemma apply_loop_voters:
  assumes "delta_inv d" "ConfChanger_apply_loop ccs d = Some (cfg, prs)" "set (incoming (fst d)) = set (incoming (pt_conf t))"
  shows "set (incoming cfg) = fst (fold view_change ccs (conf_view (pt_conf t)))"
proof -
  have "fst (conf_view cfg) = fst (fold view_change ccs (conf_view (fst d)))"
    using apply_loop_step [OF assms(1,2)] by simp
  also have "\<dots> = fst (fold view_change ccs (conf_view (pt_conf t)))"
    using assms(3) by (intro view_changes_voters) (simp add: conf_view_def)
  finally show ?thesis by (simp add: conf_view_def)
qed

text \<open>
  C25. On a well-formed tracker each error of a membership change is reported exactly in the situation it names: entering a
  joint configuration needs one that is not joint and has voters, a simple change one that is not joint, leaving one that
  is; both kinds of change must leave a voter, and a simple one must add or remove at most one, counted between the voters
  before and after the changes. No other error is reported: the progress map and the configuration never fall out of
  step on the way. (A change of an unknown type aborts.)
\<close>

theorem conf_change_errors:
  fixes ccs :: "conf_change_single list"
  assumes "tracker_ok t"
  defines "before \<equiv> set (incoming (pt_conf t))"
    and "after \<equiv> fst (fold view_change ccs (conf_view (pt_conf t)))"
  shows "(ConfChanger_EnterJoint al ccs t = Some (Inl e) \<longleftrightarrow>
            (if Joint (pt_conf t) then e = ConfChangeCode ConfigAlreadyJoint
             else if before = {} then e = ConfChangeCode ZeroVoterConfigJoint
             else list_all known_change ccs \<and> after = {} \<and> e = ConfChangeCode RemovedAllVoters)) \<and>
         (ConfChanger_Simple ccs t = Some (Inl e) \<longleftrightarrow>
            (if Joint (pt_conf t) then e = ConfChangeCode CannotApplySimpleInJointConfig
             else list_all known_change ccs \<and>
               (if after = {} then e = ConfChangeCode RemovedAllVoters
                else 1 < card ((after - before) \<union> (before - after)) \<and>
                  e = ConfChangeCode MultipleVotersChangedWithoutJoint))) \<and>
         (ConfChanger_LeaveJoint t = Inl e \<longleftrightarrow>
            e = ConfChangeCode LeaveNonJointConfig \<and> \<not> Joint (pt_conf t))"
proof (intro conjI)
  show "ConfChanger_EnterJoint al ccs t = Some (Inl e) \<longleftrightarrow>
            (if Joint (pt_conf t) then e = ConfChangeCode ConfigAlreadyJoint
             else if before = {} then e = ConfChangeCode ZeroVoterConfigJoint
             else list_all known_change ccs \<and> after = {} \<and> e = ConfChangeCode RemovedAllVoters)"
  proof (cases "Joint (pt_conf t) \<or> ConfChanger_apply_loop ccs (joint_delta t) = None")
    case False
    then obtain cfg prs where l: "ConfChanger_apply_loop ccs (joint_delta t) = Some (cfg, prs)" by auto
    then have "set (incoming cfg) = after" "list_all known_change ccs"
      using apply_loop_voters [OF joint_delta_inv [OF assms(1)] l, of t] apply_loop_total [of ccs "joint_delta t"] False
      by (auto simp: after_def)
    then show ?thesis using False l by (auto simp: EnterJoint_outcome [OF assms(1)] before_def)
  qed (use apply_loop_total [of ccs "joint_delta t"] in \<open>auto simp: EnterJoint_outcome [OF assms(1)] before_def\<close>)
  show "ConfChanger_Simple ccs t = Some (Inl e) \<longleftrightarrow>
            (if Joint (pt_conf t) then e = ConfChangeCode CannotApplySimpleInJointConfig
             else list_all known_change ccs \<and>
               (if after = {} then e = ConfChangeCode RemovedAllVoters
                else 1 < card ((after - before) \<union> (before - after)) \<and>
                  e = ConfChangeCode MultipleVotersChangedWithoutJoint))"
  proof (cases "Joint (pt_conf t) \<or> ConfChanger_apply_loop ccs (base_delta t) = None")
    case False
    then obtain cfg prs where l: "ConfChanger_apply_loop ccs (base_delta t) = Some (cfg, prs)" by auto
    then have "set (incoming cfg) = after" "list_all known_change ccs"
      using apply_loop_voters [OF base_delta_inv [OF assms(1)] l, of t] apply_loop_total [of ccs "base_delta t"]
      by (auto simp: after_def)
    then show ?thesis using False l by (auto simp: Simple_outcome [OF assms(1)] before_def)
  qed (use apply_loop_total [of ccs "base_delta t"] in \<open>auto simp: Simple_outcome [OF assms(1)] before_def\<close>)
  show "ConfChanger_LeaveJoint t = Inl e \<longleftrightarrow>
            e = ConfChangeCode LeaveNonJointConfig \<and> \<not> Joint (pt_conf t)"
    using LeaveJoint_outcome [OF assms(1)] by (auto split: if_splits)
qed

theorem conf_change_errors_witness:
  "ConfChanger_Simple [\<lparr>ccs_change_type = ADD_NODE, ccs_node_id = 2\<rparr>, \<lparr>ccs_change_type = ADD_NODE, ccs_node_id = 3\<rparr>] conf_example =
     Some (Inl (ConfChangeCode MultipleVotersChangedWithoutJoint)) \<and>
   ConfChanger_EnterJoint True [\<lparr>ccs_change_type = REMOVE_NODE, ccs_node_id = 1\<rparr>] conf_example =
     Some (Inl (ConfChangeCode RemovedAllVoters))"
proof -
  have nj: "\<not> Joint (pt_conf conf_example)" by (simp add: conf_example_def Joint_def Let_def)
  have v: "conf_view (pt_conf conf_example) = ({1}, {}, {}, {})" "set (incoming (pt_conf conf_example)) = {1}"
    by (simp_all add: conf_example_def conf_view_def Let_def)
  have "{3, 2, 1} - {1} \<union> ({1} - {3, 2, 1}) = {3, 2 :: u64}" by auto
  then show ?thesis using conf_change_errors [OF conf_example_ok] nj by (simp add: v known_change_def)
qed

section \<open>Entering and leaving a joint configuration\<close>

text \<open>The sets of a configuration whose outgoing half has been dropped.\<close>

fun view_leave :: "u64 set \<times> u64 set \<times> u64 set \<times> u64 set \<Rightarrow> u64 set \<times> u64 set \<times> u64 set \<times> u64 set" where
  "view_leave (I, Og, L, N) = (I, {}, L \<union> N, {})"

lemma view_leave_change:
  "snd (snd (snd v)) \<inter> {ccs_node_id cc} \<subseteq> fst (snd v) \<Longrightarrow>
     view_leave (view_change cc v) = view_change cc (view_leave v)"
  by (cases v) (auto simp: Let_def split: ConfChangeType.splits)

lemma view_change_next: "snd (snd (snd v)) \<subseteq> fst (snd v) \<Longrightarrow>
    snd (snd (snd (view_change cc v))) \<subseteq> fst (snd (view_change cc v))"
  by (cases v) (auto simp: Let_def split: ConfChangeType.splits)

lemma view_leave_fold:
  "snd (snd (snd v)) \<subseteq> fst (snd v) \<Longrightarrow>
     view_leave (fold view_change ccs v) = fold view_change ccs (view_leave v)"
proof (induction ccs arbitrary: v)
  case (Cons cc ccs)
  show ?case using Cons.IH [OF view_change_next [OF Cons.prems]] view_leave_change [of v cc] Cons.prems
    by (simp add: Int_commute le_infI2 subset_iff)
qed simp

lemma conf_view_leave: "conf_view (leave_conf cfg) = view_leave (conf_view cfg)"
  by (auto simp: conf_view_def leave_conf_def)

text \<open>
  C26. A joint change does what was asked: entering the joint configuration with a list of changes
  and then leaving it succeeds and ends in the voters and learners that result from performing the
  changes one after the other on the original configuration, with a progress for each of them.
\<close>

theorem joint_change_reaches_target:
  assumes "tracker_ok t" "ConfChanger_EnterJoint al ccs t = Some (Inr (cfg, chs))"
  shows "\<exists>cfg' chs'. ConfChanger_LeaveJoint (ProgressTracker_ApplyConf cfg chs n t) = Inr (cfg', chs') \<and>
           conf_view cfg' = fold view_change ccs (conf_view (pt_conf t)) \<and>
           tracked (ProgressTracker_ApplyConf cfg' chs' n (ProgressTracker_ApplyConf cfg chs n t))
             = set (incoming cfg') \<union> set (tc_learners cfg')"
proof -
  let ?t = "ProgressTracker_ApplyConf cfg chs n t"
  note r = EnterJoint_result [OF assms]
  have ok: "tracker_ok ?t" by (rule conf_result_apply [OF assms(1) r(1)])
  have "outgoing cfg \<noteq> []" using r(3) by (metis Un_empty set_empty set_fold_insert)
  then have "Joint (pt_conf ?t)" by (simp add: Joint_def)
  then obtain chs' where lv: "ConfChanger_LeaveJoint ?t = Inr (leave_conf cfg, chs')"
    and res: "conf_result ?t (leave_conf cfg) chs'"
    using LeaveJoint_outcome [OF ok] by auto
  have inv: "conf_inv (pt_conf t) (tracked t)" "outgoing (pt_conf t) = []"
    using assms(1) r(3) by (simp_all add: tracker_ok_def conf_ok_def Joint_def)
  have "tc_learners_next (pt_conf t) = []" using inv by (simp add: conf_inv_def)
  then have "view_leave (conf_view (fst (joint_delta t))) = conf_view (pt_conf t)"
    using inv(2) by (simp add: conf_view_def)
  moreover have "view_leave (fold view_change ccs (conf_view (fst (joint_delta t)))) =
      fold view_change ccs (view_leave (conf_view (fst (joint_delta t))))"
    using \<open>tc_learners_next (pt_conf t) = []\<close> by (intro view_leave_fold) (simp add: conf_view_def)
  ultimately have "conf_view (leave_conf cfg) = fold view_change ccs (conf_view (pt_conf t))"
    using r(2) by (simp add: conf_view_leave)
  moreover have "tracked (ProgressTracker_ApplyConf (leave_conf cfg) chs' n ?t) =
      set (incoming (leave_conf cfg)) \<union> set (tc_learners (leave_conf cfg))"
    using conf_result_apply [OF ok res, of n]
    by (auto simp: tracker_ok_def conf_ok_def conf_inv_def leave_conf_def)
  ultimately show ?thesis using lv by blast
qed

theorem joint_change_reaches_target_witness:
  "\<exists>cfg chs cfg' chs'.
     ConfChanger_EnterJoint True [\<lparr>ccs_change_type = ADD_NODE, ccs_node_id = 2\<rparr>,
       \<lparr>ccs_change_type = REMOVE_NODE, ccs_node_id = 1\<rparr>] conf_example = Some (Inr (cfg, chs)) \<and>
     ConfChanger_LeaveJoint (ProgressTracker_ApplyConf cfg chs 1 conf_example) = Inr (cfg', chs') \<and>
     conf_view cfg' = ({2}, {}, {}, {})"
proof -
  let ?ccs = "[\<lparr>ccs_change_type = ADD_NODE, ccs_node_id = 2\<rparr>,
       \<lparr>ccs_change_type = REMOVE_NODE, ccs_node_id = 1\<rparr>]"
  let ?cfg = "\<lparr>tc_voters = \<lparr>jc_incoming = [2], jc_outgoing = [1]\<rparr>, tc_learners = [],
                 tc_learners_next = [], tc_auto_leave = True\<rparr>"
  have e: "ConfChanger_EnterJoint True ?ccs conf_example = Some (Inr (?cfg, [(2, MapAdd)]))"
    by code_simp
  have "fold view_change ?ccs (conf_view (pt_conf conf_example)) = ({2}, {}, {}, {})"
    by (auto simp: conf_example_def conf_view_def Let_def)
  then show ?thesis using joint_change_reaches_target [OF conf_example_ok e] e by metis
qed

section \<open>Restoring a configuration\<close>

lemma fold_view_add:
  "0 \<notin> set xs \<Longrightarrow> fold view_change (change_all ADD_NODE xs) (I, Og, L, N) =
     (I \<union> set xs, Og, L - set xs, N - set xs)"
  by (induction xs arbitrary: I L N) (auto simp: change_all_def Let_def)

lemma fold_view_remove:
  "0 \<notin> set xs \<Longrightarrow> fold view_change (change_all REMOVE_NODE xs) (I, Og, L, N) =
     (I - set xs, Og, L - set xs, N - set xs)"
  by (induction xs arbitrary: I L N) (auto simp: change_all_def Let_def)

lemma fold_view_learner:
  "0 \<notin> set xs \<Longrightarrow> fold view_change (change_all ADD_LEARNER_NODE xs) (I, Og, L, N) =
     (I - set xs, Og, (L - set xs) \<union> (set xs - Og), (N - set xs) \<union> (set xs \<inter> Og))"
proof (induction xs arbitrary: I L N)
  case (Cons x xs)
  then show ?case by (cases "x \<in> Og") (auto simp: change_all_def Let_def)
qed (simp add: change_all_def)

lemma known_change_all [simp]:
  "list_all known_change (change_all ADD_NODE xs)"
  "list_all known_change (change_all REMOVE_NODE xs)"
  "list_all known_change (change_all ADD_LEARNER_NODE xs)"
  by (simp_all add: change_all_def list_all_iff known_change_def)

text \<open>The changes of \<open>ToConfChangeSingle\<close> rebuild the sets of the configuration.\<close>

lemma fold_view_restore:
  assumes "conf_inv cfg D" "0 \<notin> D"
  shows "fold view_change (snd (ToConfChangeSingle (TrackerConfiguration_ToConfState cfg)))
           (set (outgoing cfg), set (outgoing cfg), {}, {}) = conf_view cfg"
proof -
  have z: "0 \<notin> set (incoming cfg)" "0 \<notin> set (outgoing cfg)" "0 \<notin> set (tc_learners cfg)" "0 \<notin> set (tc_learners_next cfg)"
    using assms by (auto simp: conf_inv_def)
  show ?thesis using assms(1) z
    by (auto simp: ToConfChangeSingle_def TrackerConfiguration_ToConfState_def fold_view_add
        fold_view_remove fold_view_learner conf_view_def conf_inv_def)
qed

lemma restore_apply_each_ok:
  assumes "delta_inv d" "list_all known_change ccs" "v \<in> set (incoming (fst d))"
    "\<forall>cc\<in>set ccs. ccs_node_id cc = v \<longrightarrow> ccs_change_type cc = ADD_NODE"
  shows "\<exists>d'. restore_apply_each ccs d = Some (Inr d') \<and> ConfChanger_apply_loop ccs d = Some d'"
  using assms
proof (induction ccs arbitrary: d)
  case (Cons cc ccs)
  obtain d1 where d1: "ConfChanger_apply_loop [cc] d = Some d1"
    using apply_loop_total [of "[cc]" d] Cons.prems(2) by auto
  note st = apply_loop_step [OF Cons.prems(1) d1]
  have "v \<in> fst (view_change cc (conf_view (fst d)))"
    using Cons.prems(2-4) by (auto simp: conf_view_def known_change_def Let_def split: ConfChangeType.splits)
  then have v: "v \<in> set (incoming (fst d1))" using st by (metis conf_view_def fold_simps fst_conv)
  then have ne: "incoming (fst d1) \<noteq> []" by auto
  have "\<exists>d'. restore_apply_each ccs d1 = Some (Inr d') \<and> ConfChanger_apply_loop ccs d1 = Some d'"
    by (rule Cons.IH) (use st v Cons.prems in auto)
  moreover have "ConfChanger_apply_one cc d = Some d1" using d1 by (auto elim: bind_SomeE)
  ultimately show ?case using ne by (auto simp: ConfChanger_Apply_def)
qed simp

lemma restore_outgoing_ok:
  assumes "tracker_ok t" "\<not> Joint (pt_conf t)" "0 \<notin> set xs"
  shows "\<exists>t'. restore_outgoing n (change_all ADD_NODE xs) t = Some (Inr (), t') \<and> tracker_ok t' \<and>
           conf_view (pt_conf t') = fold view_change (change_all ADD_NODE xs) (conf_view (pt_conf t)) \<and>
           \<not> Joint (pt_conf t')"
  using assms
proof (induction xs arbitrary: t)
  case Nil
  then show ?case by (simp add: change_all_def)
next
  case (Cons x xs)
  let ?cc = "\<lparr>ccs_change_type = ADD_NODE, ccs_node_id = x\<rparr>"
  obtain cfg prs where loop: "ConfChanger_apply_loop [?cc] (base_delta t) = Some (cfg, prs)"
    using apply_loop_total [of "[?cc]" "base_delta t"] by (auto simp: known_change_def)
  note st = apply_loop_step [OF base_delta_inv [OF Cons.prems(1)] loop]
  have inc: "set (incoming cfg) = insert x (set (incoming (pt_conf t)))"
    using st Cons.prems(3) by (auto simp: conf_view_def Let_def)
  have "(set (incoming cfg) - set (incoming (pt_conf t))) \<union> (set (incoming (pt_conf t)) - set (incoming cfg)) \<subseteq> {x}"
    using inc by auto
  from card_mono [OF _ this] have few: "card ((set (incoming cfg) - set (incoming (pt_conf t))) \<union>
      (set (incoming (pt_conf t)) - set (incoming cfg))) \<le> 1" by simp
  have "incoming cfg \<noteq> []" using inc by auto
  then have simp: "ConfChanger_Simple [?cc] t = Some (Inr (cfg, icm_changes prs))"
    using Cons.prems(2) loop few by (simp add: Simple_outcome [OF Cons.prems(1)])
  note r = Simple_result [OF Cons.prems(1) simp]
  let ?t = "ProgressTracker_ApplyConf cfg (icm_changes prs) n t"
  have "tracker_ok ?t" by (rule conf_result_apply [OF Cons.prems(1) r(1)])
  moreover have "\<not> Joint (pt_conf ?t)" using r(3) by (simp add: Joint_def)
  ultimately show ?case using Cons.IH [of ?t] Cons.prems(3) simp r(2) by (auto simp: change_all_def)
qed

lemma new_tracker:
  "tracker_ok (ProgressTracker_new mi)" "\<not> Joint (pt_conf (ProgressTracker_new mi))"
  "conf_view (pt_conf (ProgressTracker_new mi)) = ({}, {}, {}, {})"
  "incoming (pt_conf (ProgressTracker_new mi)) = []"
  "tc_auto_leave (pt_conf (ProgressTracker_new mi)) = False"
  by (simp_all add: tracker_ok_def conf_ok_def conf_inv_def ProgressTracker_new_def Joint_def
      TrackerConfiguration_new_def tracked_def conf_view_def)

lemma conf_inv_members:
  "conf_inv c D \<Longrightarrow> conf_inv c' D' \<Longrightarrow> conf_view c = conf_view c' \<Longrightarrow> D = D'"
  by (simp add: conf_inv_def conf_view_def)

text \<open>The branch for a configuration that is not joint: all changes on a copy of the empty one.\<close>

lemma Restore_simple_branch:
  assumes ok: "conf_ok cfg D" and z: "0 \<notin> D" and out: "outgoing cfg = []" and inc: "incoming cfg \<noteq> []"
  shows "\<exists>t'. Restore n (TrackerConfiguration_ToConfState cfg) (ProgressTracker_new mi) = Some (Inr (), t') \<and>
           tracker_ok t' \<and> conf_view (pt_conf t') = conf_view cfg \<and> \<not> tc_auto_leave (pt_conf t')"
proof -
  let ?t = "ProgressTracker_new mi"
  have inv: "conf_inv cfg D" using ok by (simp add: conf_ok_def)
  obtain v vs where vs: "incoming cfg = v # vs" using inc by (cases "incoming cfg") auto
  define ccs where "ccs = change_all ADD_NODE vs @ change_all ADD_LEARNER_NODE (tc_learners cfg)"
  have nxt: "tc_learners_next cfg = []" using inv out by (simp add: conf_inv_def)
  let ?c0 = "\<lparr>ccs_change_type = ADD_NODE, ccs_node_id = v\<rparr>"
  have conv: "ToConfChangeSingle (TrackerConfiguration_ToConfState cfg) = ([], ?c0 # ccs)"
    using out nxt vs by (simp add: ToConfChangeSingle_def TrackerConfiguration_ToConfState_def ccs_def change_all_def)
  obtain d0 where d0: "ConfChanger_apply_loop [?c0] (base_delta ?t) = Some d0"
    using apply_loop_total [of "[?c0]" "base_delta ?t"] by (auto simp: known_change_def)
  note st0 = apply_loop_step [OF base_delta_inv [OF new_tracker(1)] d0]
  have "v \<noteq> 0" using inv z vs by (auto simp: conf_inv_def)
  then have v: "v \<in> set (incoming (fst d0))"
    using st0 new_tracker(3) by (simp add: conf_view_def Let_def)
  have only_add: "\<forall>cc\<in>set ccs. ccs_node_id cc = v \<longrightarrow> ccs_change_type cc = ADD_NODE"
    using inv vs by (auto simp: ccs_def change_all_def conf_inv_def)
  obtain d where d: "restore_apply_each ccs d0 = Some (Inr d)" "ConfChanger_apply_loop ccs d0 = Some d"
    using restore_apply_each_ok [of d0 ccs v] st0 v only_add by (auto simp: ccs_def)
  obtain c prs where cp: "d = (c, prs)" by fastforce
  note st = apply_loop_step [OF _ d(2)]
  have view: "conf_view c = conf_view cfg"
    using fold_view_restore [OF inv z] st st0 new_tracker(3) cp conv out by simp
  have c: "delta_inv (c, prs)" "outgoing c = []" "\<not> tc_auto_leave c" "icm_base prs = pt_progress ?t"
    using st st0 cp new_tracker by (auto simp: Joint_def)
  have cok: "conf_ok c (pending_ids prs)" using c by (simp add: conf_ok_def)
  have "ConfChanger_apply_one ?c0 (base_delta ?t) = Some d0" using d0 by (auto elim: bind_SomeE)
  moreover have "incoming (fst d0) \<noteq> []" using v by auto
  ultimately have each: "restore_apply_each (?c0 # ccs) (base_delta ?t) = Some (Inr (c, prs))"
    using d(1) cp by (simp add: ConfChanger_Apply_def)
  have "Restore n (TrackerConfiguration_ToConfState cfg) ?t =
      Some (Inr (), ProgressTracker_ApplyConf c (icm_changes prs) n ?t)"
    unfolding Restore_def conv
    using new_tracker conf_ok_CheckInvariants [OF cok] each
    by (simp add: EnterJoint_outcome [OF new_tracker(1)] CheckAndCopy_ok [OF new_tracker(1)]
        del: restore_apply_each.simps)
  moreover have "tracker_ok (ProgressTracker_ApplyConf c (icm_changes prs) n ?t)"
    using cok c(4) by (intro conf_result_apply [OF new_tracker(1)]) (auto simp: conf_result_def)
  ultimately show ?thesis using view c(3) by simp
qed

text \<open>The branch for a joint configuration: outgoing voters first, then one joint change.\<close>

lemma Restore_joint_branch:
  assumes ok: "conf_ok cfg D" and z: "0 \<notin> D" and out: "outgoing cfg \<noteq> []" and inc: "incoming cfg \<noteq> []"
  shows "\<exists>t'. Restore n (TrackerConfiguration_ToConfState cfg) (ProgressTracker_new mi) = Some (Inr (), t') \<and>
           tracker_ok t' \<and> conf_view (pt_conf t') = conf_view cfg \<and>
           tc_auto_leave (pt_conf t') = tc_auto_leave cfg"
proof -
  have inv: "conf_inv cfg D" using ok by (simp add: conf_ok_def)
  have zo: "0 \<notin> set (outgoing cfg)" using inv z by (auto simp: conf_inv_def)
  obtain t1 where t1: "restore_outgoing n (change_all ADD_NODE (outgoing cfg)) (ProgressTracker_new mi) = Some (Inr (), t1)"
    "tracker_ok t1" "conf_view (pt_conf t1) = (set (outgoing cfg), {}, {}, {})" "\<not> Joint (pt_conf t1)"
    using restore_outgoing_ok [OF new_tracker(1,2) zo, of n mi] by (auto simp: new_tracker(3) fold_view_add [OF zo])
  define ccs where "ccs = snd (ToConfChangeSingle (TrackerConfiguration_ToConfState cfg))"
  have known: "list_all known_change ccs" by (simp add: ccs_def ToConfChangeSingle_def)
  then obtain c prs where loop: "ConfChanger_apply_loop ccs (joint_delta t1) = Some (c, prs)"
    using apply_loop_total [of ccs "joint_delta t1"] by auto
  note st = apply_loop_step [OF joint_delta_inv [OF t1(2,4)] loop]
  have "conf_view (fst (joint_delta t1)) = (set (outgoing cfg), set (outgoing cfg), {}, {})"
    using t1(3) by (simp add: conf_view_def)
  then have view: "conf_view c = conf_view cfg"
    using st fold_view_restore [OF inv z] by (simp add: ccs_def)
  then have "incoming c \<noteq> []" using inc by (auto simp: conf_view_def)
  moreover have "incoming (pt_conf t1) \<noteq> []" using t1(3) out by (auto simp: conf_view_def)
  ultimately have enter: "ConfChanger_EnterJoint (tc_auto_leave cfg) ccs t1 =
      Some (Inr (c\<lparr>tc_auto_leave := tc_auto_leave cfg\<rparr>, icm_changes prs))"
    using t1(4) loop by (simp add: EnterJoint_outcome [OF t1(2)])
  have conv: "ToConfChangeSingle (TrackerConfiguration_ToConfState cfg) = (change_all ADD_NODE (outgoing cfg), ccs)"
    by (simp add: ccs_def ToConfChangeSingle_def TrackerConfiguration_ToConfState_def)
  have "change_all ADD_NODE (outgoing cfg) \<noteq> []" using out by (simp add: change_all_def)
  then have "Restore n (TrackerConfiguration_ToConfState cfg) (ProgressTracker_new mi) =
      Some (Inr (), ProgressTracker_ApplyConf (c\<lparr>tc_auto_leave := tc_auto_leave cfg\<rparr>) (icm_changes prs) n t1)"
    unfolding Restore_def conv using t1(1) enter by (simp add: TrackerConfiguration_ToConfState_def)
  then show ?thesis
    using conf_result_apply [OF t1(2) EnterJoint_result(1) [OF t1(2) enter], of n] view by simp
qed

text \<open>
  C27. Restoring what was saved: serializing any well-formed configuration with voters (no member
  has the reserved id 0) and restoring it into a fresh tracker succeeds and yields the same incoming
  and outgoing voters, learners, learners to be and auto-leave flag, with a progress for exactly
  the members.
\<close>

theorem restore_round_trip:
  assumes "conf_ok cfg D" "0 \<notin> D" "incoming cfg \<noteq> []"
  shows "\<exists>t'. Restore n (TrackerConfiguration_ToConfState cfg) (ProgressTracker_new mi) = Some (Inr (), t') \<and>
           tracker_ok t' \<and> conf_view (pt_conf t') = conf_view cfg \<and>
           tc_auto_leave (pt_conf t') = tc_auto_leave cfg \<and> tracked t' = D"
proof -
  obtain t' where t': "Restore n (TrackerConfiguration_ToConfState cfg) (ProgressTracker_new mi) = Some (Inr (), t')"
    "tracker_ok t'" "conf_view (pt_conf t') = conf_view cfg" "tc_auto_leave (pt_conf t') = tc_auto_leave cfg"
  proof (cases "outgoing cfg = []")
    case True
    then have "\<not> tc_auto_leave cfg" using assms(1) by (simp add: conf_ok_def)
    then show ?thesis using Restore_simple_branch [OF assms(1,2) True assms(3), of n mi] that by auto
  next
    case False
    then show ?thesis using Restore_joint_branch [OF assms(1,2) False assms(3), of n mi] that by auto
  qed
  moreover have "tracked t' = D"
    using t'(2,3) assms(1) conf_inv_members by (auto simp: tracker_ok_def conf_ok_def)
  ultimately show ?thesis by blast
qed

theorem restore_round_trip_witness:
  "\<exists>t'. Restore 1 (TrackerConfiguration_ToConfState
          \<lparr>tc_voters = \<lparr>jc_incoming = [2, 3], jc_outgoing = [1, 2]\<rparr>, tc_learners = [4],
           tc_learners_next = [1], tc_auto_leave = True\<rparr>) (ProgressTracker_new 8) = Some (Inr (), t') \<and>
        conf_view (pt_conf t') = ({2, 3}, {1, 2}, {4}, {1}) \<and> tracked t' = {1, 2, 3, 4}"
proof -
  let ?cfg = "\<lparr>tc_voters = \<lparr>jc_incoming = [2, 3], jc_outgoing = [1, 2]\<rparr>, tc_learners = [4],
           tc_learners_next = [1], tc_auto_leave = True\<rparr>"
  have ok: "conf_ok ?cfg {1, 2, 3, 4}" by (auto simp: conf_ok_def conf_inv_def)
  have view: "conf_view ?cfg = ({2, 3}, {1, 2}, {4}, {1})" by (simp add: conf_view_def)
  show ?thesis using restore_round_trip [OF ok, of 1 8] unfolding view by auto
qed

end
