(* ===== verification/RaftRoles.thy ===== *)
theory RaftRoles
  imports RaftCore ConfChange
begin

text \<open>
  The node itself (\<open>lib/core/raft.cc\<close>), first part: sending, the roles and the transitions between
  them, elections, applying entries and changes of the configuration. A method of the class \<open>Raft\<close> is
  a function on its state; a result of its own comes first in the pair. \<open>None\<close> is an abort.

  The static generator of the election timeouts is the number of draws so far; the environment turns
  it into values.
\<close>

section \<open>State\<close>

record 's Raft = "'s RaftCore" +
  r_progress_tracker :: ProgressTracker
  r_messages :: "message list"
  r_config :: Config
  r_draws :: nat

definition kCampaignPreElection :: bytes where
  "kCampaignPreElection = ''CampaignPreElection''"

definition kCampaignElection :: bytes where
  "kCampaignElection = ''CampaignElection''"

definition kCampaignTransfer :: bytes where
  "kCampaignTransfer = ''CampaignTransfer''"

text \<open>Reading and writing the progress of a peer, and the parts of the state used all over.\<close>

abbreviation r_get :: "u64 \<Rightarrow> 's Raft \<Rightarrow> progress option" where
  "r_get peer r \<equiv> ProgressTracker_get peer (r_progress_tracker r)"

abbreviation r_put :: "u64 \<Rightarrow> progress \<Rightarrow> 's Raft \<Rightarrow> 's Raft" where
  "r_put peer pr r \<equiv> r\<lparr>r_progress_tracker := ProgressTracker_put peer pr (r_progress_tracker r)\<rparr>"

abbreviation r_conf :: "'s Raft \<Rightarrow> TrackerConfiguration" where
  "r_conf r \<equiv> pt_conf (r_progress_tracker r)"

abbreviation r_committed :: "'s Raft \<Rightarrow> u64" where
  "r_committed r \<equiv> rl_committed (r_log r)"

abbreviation r_last :: "'s Env \<Rightarrow> 's Raft \<Rightarrow> u64 option" where
  "r_last E r \<equiv> RaftLog_LastIndex (env_storage E) (r_log r)"

section \<open>Sending\<close>

definition Raft_Send :: "message \<Rightarrow> 's Raft \<Rightarrow> 's Raft option" where
  "Raft_Send m r = do { messages \<leftarrow> RaftCore_Send m (r_messages r) r; Some (r\<lparr>r_messages := messages\<rparr>) }"

definition Raft_SendAppend_to :: "'s Env \<Rightarrow> u64 \<Rightarrow> progress \<Rightarrow> 's Raft \<Rightarrow> 's Raft option" where
  "Raft_SendAppend_to E to pr r =
     do {
       (pr, messages, r) \<leftarrow> RaftCore_SendAppend E to pr (r_messages r) r;
       Some (r_put to pr (r\<lparr>r_messages := messages\<rparr>))
     }"

definition Raft_MaybeSendAppend_to :: "'s Env \<Rightarrow> u64 \<Rightarrow> bool \<Rightarrow> progress \<Rightarrow> 's Raft \<Rightarrow> 's Raft option" where
  "Raft_MaybeSendAppend_to E to allow_empty pr r =
     do {
       (_, pr, messages, r) \<leftarrow> RaftCore_MaybeSendAppend E to allow_empty pr (r_messages r) r;
       Some (r_put to pr (r\<lparr>r_messages := messages\<rparr>))
     }"

definition Raft_SendAppend :: "'s Env \<Rightarrow> u64 \<Rightarrow> 's Raft \<Rightarrow> 's Raft option" where
  "Raft_SendAppend E to r = do { pr \<leftarrow> r_get to r; Raft_SendAppend_to E to pr r }"

definition Raft_SendAppendAggressively :: "'s Env \<Rightarrow> u64 \<Rightarrow> 's Raft \<Rightarrow> 's Raft option" where
  "Raft_SendAppendAggressively E to r =
     do {
       pr \<leftarrow> r_get to r;
       (pr, messages, r) \<leftarrow> RaftCore_SendAppendAggressively E to pr (r_messages r) r;
       Some (r_put to pr (r\<lparr>r_messages := messages\<rparr>))
     }"

text \<open>The loops over the progress map that skip the node itself.\<close>

fun each_peer :: "(u64 \<Rightarrow> progress \<Rightarrow> 's Raft \<Rightarrow> 's Raft option) \<Rightarrow> u64 list \<Rightarrow> 's Raft \<Rightarrow> 's Raft option" where
  "each_peer f [] r = Some r"
| "each_peer f (peer # peers) r =
     (if peer = r_id r then each_peer f peers r
      else do { pr \<leftarrow> r_get peer r; r \<leftarrow> f peer pr r; each_peer f peers r })"

definition Raft_peers :: "'s Raft \<Rightarrow> u64 list" where
  "Raft_peers r = map fst (pt_progress (r_progress_tracker r))"

definition Raft_BroadcastAppend :: "'s Env \<Rightarrow> 's Raft \<Rightarrow> 's Raft option" where
  "Raft_BroadcastAppend E r = each_peer (Raft_SendAppend_to E) (Raft_peers r) r"

definition Raft_SendHeartbeat :: "u64 \<Rightarrow> progress \<Rightarrow> bytes option \<Rightarrow> 's Raft \<Rightarrow> 's Raft option" where
  "Raft_SendHeartbeat to pr ctx r =
     Raft_Send (default_message\<lparr>m_to := to, m_type := MSG_HEARTBEAT,
                  m_commit := min (pr_matched pr) (r_committed r),
                  m_context := (case ctx of Some c \<Rightarrow> c | None \<Rightarrow> [])\<rparr>) r"

definition Raft_BroadcastHeartbeat_ctx :: "bytes option \<Rightarrow> 's Raft \<Rightarrow> 's Raft option" where
  "Raft_BroadcastHeartbeat_ctx ctx r = each_peer (\<lambda>to pr. Raft_SendHeartbeat to pr ctx) (Raft_peers r) r"

definition Raft_BroadcastHeartbeat :: "'s Raft \<Rightarrow> 's Raft option" where
  "Raft_BroadcastHeartbeat r = Raft_BroadcastHeartbeat_ctx (ReadOnly_LastPendingRequestCtx (r_read_only r)) r"

definition Raft_SendTimeoutNow :: "u64 \<Rightarrow> 's Raft \<Rightarrow> 's Raft option" where
  "Raft_SendTimeoutNow to r = Raft_Send (default_message\<lparr>m_to := to, m_type := MSG_TIMEOUT_NOW\<rparr>) r"

definition Raft_SendRequestSnapshot :: "'s Env \<Rightarrow> 's Raft \<Rightarrow> 's Raft option" where
  "Raft_SendRequestSnapshot E r =
     do {
       last_index \<leftarrow> r_last E r;
       trm \<leftarrow> RaftLog_Term (env_storage E) last_index (r_log r);
       Raft_Send (default_message\<lparr>m_type := MSG_APPEND_RESPONSE, m_index := r_committed r, m_reject := True,
                    m_reject_hint := last_index, m_to := r_leader_id r,
                    m_request_snapshot := r_pending_request_snapshot r,
                    m_log_term := (case trm of Inr t \<Rightarrow> t | Inl _ \<Rightarrow> 0)\<rparr>) r
     }"

section \<open>Roles\<close>

definition Raft_ResetRandomizedElectionTimeout :: "'s Env \<Rightarrow> 's Raft \<Rightarrow> 's Raft option" where
  "Raft_ResetRandomizedElectionTimeout E r =
     do {
       ASSERT (r_min_election_timeout r \<le> r_max_election_timeout r - 1);
       Some (r\<lparr>r_randomized_election_timeout :=
                 env_random E (r_min_election_timeout r) (r_max_election_timeout r - 1) (r_draws r),
               r_draws := Suc (r_draws r)\<rparr>)
     }"

definition Raft_AbortLeaderTransfer :: "'s Raft \<Rightarrow> 's Raft" where
  "Raft_AbortLeaderTransfer r = r\<lparr>r_lead_transferee := None\<rparr>"

text \<open>The loop of \<open>Reset\<close> over the progress map.\<close>

definition reset_progress :: "u64 \<Rightarrow> u64 \<Rightarrow> u64 \<Rightarrow> u64 \<Rightarrow> u64 \<Rightarrow> progress \<Rightarrow> progress" where
  "reset_progress last_index committed persisted self_id peer pr =
     (let pr = Progress_Reset (last_index + 1) pr in
      if peer = self_id then pr\<lparr>pr_matched := persisted, pr_committed_index := committed\<rparr> else pr)"

definition Raft_Reset :: "'s Env \<Rightarrow> u64 \<Rightarrow> 's Raft \<Rightarrow> 's Raft option" where
  "Raft_Reset E trm r =
     do {
       let r = (if r_term r \<noteq> trm then r\<lparr>r_term := trm, r_vote := kInvalidId\<rparr> else r);
       r \<leftarrow> Raft_ResetRandomizedElectionTimeout E (r\<lparr>r_leader_id := kInvalidId\<rparr>);
       let r = Raft_AbortLeaderTransfer (r\<lparr>r_election_elapsed := 0, r_heartbeat_elapsed := 0\<rparr>);
       let tracker = ProgressTracker_ResetVotes (r_progress_tracker r);
       last_index \<leftarrow> r_last E r;
       Some (r\<lparr>r_pending_conf_index := 0, r_read_only := ReadOnly_new (ro_option (r_read_only r)),
               r_pending_request_snapshot := kInvalidIndex,
               r_progress_tracker := tracker\<lparr>pt_progress :=
                 Map_map_values (reset_progress last_index (r_committed r) (rl_persisted (r_log r)) (r_id r))
                   (pt_progress tracker)\<rparr>\<rparr>)
     }"

definition Raft_BecomeFollower :: "'s Env \<Rightarrow> u64 \<Rightarrow> u64 \<Rightarrow> 's Raft \<Rightarrow> 's Raft option" where
  "Raft_BecomeFollower E trm leader_id r =
     do {
       let pending_request_snapshot = r_pending_request_snapshot r;
       r \<leftarrow> Raft_Reset E trm r;
       Some (r\<lparr>r_leader_id := leader_id, r_state := Follower,
               r_pending_request_snapshot := pending_request_snapshot,
               r_log := (r_log r)\<lparr>rl_max_apply_unpersisted_log_limit := 0\<rparr>\<rparr>)
     }"

definition Raft_BecomePreCandidate :: "'s Raft \<Rightarrow> 's Raft option" where
  "Raft_BecomePreCandidate r =
     do {
       ASSERT (r_state r \<noteq> Leader);
       Some (r\<lparr>r_state := PreCandidate, r_progress_tracker := ProgressTracker_ResetVotes (r_progress_tracker r),
               r_leader_id := kInvalidId\<rparr>)
     }"

definition Raft_BecomeCandidate :: "'s Env \<Rightarrow> 's Raft \<Rightarrow> 's Raft option" where
  "Raft_BecomeCandidate E r =
     do {
       ASSERT (r_state r \<noteq> Leader);
       r \<leftarrow> Raft_Reset E (r_term r + 1) r;
       Some (r\<lparr>r_vote := r_id r, r_state := Candidate,
               r_promotable := JointConfiguration_Contains (r_id r) (tc_voters (r_conf r))\<rparr>)
     }"

text \<open>The entries of a leader get its term and the next indexes.\<close>

fun stamp_entries :: "u64 \<Rightarrow> u64 \<Rightarrow> entry list \<Rightarrow> entry list" where
  "stamp_entries trm last_index [] = []"
| "stamp_entries trm last_index (e # es) =
     e\<lparr>e_term := trm, e_index := last_index + 1\<rparr> # stamp_entries trm (last_index + 1) es"

definition Raft_AppendEntry :: "'s Env \<Rightarrow> entry list \<Rightarrow> 's Raft \<Rightarrow> (bool \<times> 's Raft) option" where
  "Raft_AppendEntry E entries r =
     do {
       let (fits, us) = UncommittedState_MaybeIncreaseUncommittedSize entries (r_uncommitted_state r);
       let r = r\<lparr>r_uncommitted_state := us\<rparr>;
       if \<not> fits then Some (False, r)
       else do {
         last_index \<leftarrow> r_last E r;
         (_, log) \<leftarrow> RaftLog_Append (env_storage E) (stamp_entries (r_term r) last_index entries) (r_log r);
         Some (True, r\<lparr>r_log := log\<rparr>)
       }
     }"

definition Raft_BecomeLeader :: "'s Env \<Rightarrow> 's Raft \<Rightarrow> 's Raft option" where
  "Raft_BecomeLeader E r =
     do {
       ASSERT (r_state r \<noteq> Follower);
       r \<leftarrow> Raft_Reset E (r_term r) r;
       let r = r\<lparr>r_leader_id := r_id r, r_state := Leader\<rparr>;
       last_index \<leftarrow> r_last E r;
       let r = r\<lparr>r_uncommitted_state := (r_uncommitted_state r)\<lparr>us_uncommitted_size := 0,
                                           us_last_log_tail_index := last_index\<rparr>\<rparr>;
       pr \<leftarrow> r_get (r_id r) r;
       let r = r_put (r_id r) (Progress_BecomeReplicate pr) r;
       let r = r\<lparr>r_pending_conf_index := last_index\<rparr>;
       (appended, r) \<leftarrow> Raft_AppendEntry E [default_entry] r;
       ASSERT appended;
       Some r
     }"

section \<open>Committing\<close>

definition Raft_MaybeCommit :: "'s Env \<Rightarrow> 's Raft \<Rightarrow> (bool \<times> 's Raft) option" where
  "Raft_MaybeCommit E r =
     do {
       let max_commit_index = fst (ProgressTracker_MaxCommittedIndex (r_progress_tracker r));
       (committed, log) \<leftarrow> RaftLog_MaybeCommit (env_storage E) max_commit_index (r_term r) (r_log r);
       let r = r\<lparr>r_log := log\<rparr>;
       if committed then do {
         pr \<leftarrow> r_get (r_id r) r;
         Some (True, r_put (r_id r) (Progress_UpdateCommitted (r_committed r) pr) r)
       } else Some (False, r)
     }"

definition Raft_HasPendingConf :: "'s Raft \<Rightarrow> bool" where
  "Raft_HasPendingConf r \<longleftrightarrow> rl_applied (r_log r) < r_pending_conf_index r"

definition Raft_ShouldBroadcastCommit :: "'s Raft \<Rightarrow> bool" where
  "Raft_ShouldBroadcastCommit r \<longleftrightarrow> \<not> r_skip_broadcast_commit r \<or> Raft_HasPendingConf r"

definition Raft_OnPersistEntries :: "'s Env \<Rightarrow> u64 \<Rightarrow> u64 \<Rightarrow> 's Raft \<Rightarrow> 's Raft option" where
  "Raft_OnPersistEntries E index trm r =
     do {
       (update, log) \<leftarrow> RaftLog_MaybePersist (env_storage E) index trm (r_log r);
       let r = r\<lparr>r_log := log\<rparr>;
       if update \<and> r_state r = Leader then do {
         pr \<leftarrow> r_get (r_id r) r;
         let (updated, pr) = Progress_MaybeUpdate index pr;
         let r = r_put (r_id r) pr r;
         if updated then do {
           (committed, r) \<leftarrow> Raft_MaybeCommit E r;
           if committed \<and> Raft_ShouldBroadcastCommit r then Raft_BroadcastAppend E r else Some r
         } else Some r
       } else Some r
     }"

definition Raft_OnPersistSnapshot :: "u64 \<Rightarrow> 's Raft \<Rightarrow> 's Raft option" where
  "Raft_OnPersistSnapshot index r =
     do { (_, log) \<leftarrow> RaftLog_MaybePersistSnapshot index (r_log r); Some (r\<lparr>r_log := log\<rparr>) }"

text \<open>The callback that looks for a configuration change in a batch.\<close>

definition scan_conf_change :: "entry list \<Rightarrow> bool \<Rightarrow> bool \<times> bool" where
  "scan_conf_change ents found =
     (if list_ex (\<lambda>e. e_type e = ENTRY_CONF_CHANGE_V2) ents then (False, True) else (True, found))"

definition Raft_HasUnappliedConfChanges ::
  "'s Env \<Rightarrow> u64 \<Rightarrow> u64 \<Rightarrow> GetEntriesContext \<Rightarrow> 's Raft \<Rightarrow> (bool \<times> 's Raft) option" where
  "Raft_HasUnappliedConfChanges E low high ctx r =
     (if r_committed r \<le> rl_applied (r_log r) then Some (False, r)
      else do {
        (res, log, found) \<leftarrow> RaftLog_Scan (env_entry_bytes E) (env_storage E) low high
           (r_max_committed_size_per_ready r) ctx scan_conf_change (r_log r, False);
        unwrap res;
        Some (found, r\<lparr>r_log := log\<rparr>)
      })"

section \<open>Elections\<close>

text \<open>The loop of \<open>Campaign\<close> over the voters.\<close>

definition vote_request ::
  "'s Env \<Rightarrow> MessageType \<Rightarrow> u64 \<Rightarrow> bytes \<Rightarrow> u64 \<Rightarrow> u64 \<Rightarrow> u64 \<Rightarrow> 's Raft \<Rightarrow> message option" where
  "vote_request E vote_msg trm campaign_type commit commit_term to r =
     do {
       last_index \<leftarrow> r_last E r;
       last_term \<leftarrow> RaftLog_LastTerm (env_storage E) (r_log r);
       Some (default_message\<lparr>m_to := to, m_type := vote_msg, m_term := trm, m_index := last_index,
               m_log_term := last_term, m_commit := commit, m_commit_term := commit_term,
               m_context := (if campaign_type = kCampaignTransfer then campaign_type else [])\<rparr>)
     }"

fun request_votes :: "(u64 \<Rightarrow> 's Raft \<Rightarrow> message option) \<Rightarrow> u64 list \<Rightarrow> 's Raft \<Rightarrow> 's Raft option" where
  "request_votes request [] r = Some r"
| "request_votes request (peer # peers) r =
     (if peer = r_id r then request_votes request peers r
      else do { m \<leftarrow> request peer r; r \<leftarrow> Raft_Send m r; request_votes request peers r })"

lemma BecomeCandidate_state: "Raft_BecomeCandidate E r = Some r' \<Longrightarrow> r_state r' = Candidate"
  by (auto simp: Raft_BecomeCandidate_def elim!: bind_SomeE)

lemma BecomePreCandidate_state: "Raft_BecomePreCandidate r = Some r' \<Longrightarrow> r_state r' = PreCandidate"
  by (auto simp: Raft_BecomePreCandidate_def elim!: bind_SomeE)

function Raft_Poll :: "'s Env \<Rightarrow> u64 \<Rightarrow> bool \<Rightarrow> 's Raft \<Rightarrow> (VoteResult \<times> 's Raft) option"
  and Raft_Campaign :: "'s Env \<Rightarrow> bytes \<Rightarrow> 's Raft \<Rightarrow> 's Raft option" where
  "Raft_Poll E from vote r =
     (let r = r\<lparr>r_progress_tracker := ProgressTracker_RecordVote from vote (r_progress_tracker r)\<rparr>;
          result = snd (snd (ProgressTracker_CountVotes (r_progress_tracker r)))
      in do {
       r \<leftarrow> (case result of
               Pending \<Rightarrow> Some r
             | Lost \<Rightarrow> Raft_BecomeFollower E (r_term r) kInvalidId r
             | Won \<Rightarrow>
                 if r_state r = PreCandidate then Raft_Campaign E kCampaignElection r
                 else do { r \<leftarrow> Raft_BecomeLeader E r; Raft_BroadcastAppend E r });
       Some (result, r)
     })"
| "Raft_Campaign E campaign_type r =
     do {
       (vote_msg, trm, r) \<leftarrow>
         (if campaign_type = kCampaignPreElection then do {
            r \<leftarrow> Raft_BecomePreCandidate r;
            Some (MSG_REQUEST_PRE_VOTE, r_term r + 1, r)
          } else do {
            r \<leftarrow> Raft_BecomeCandidate E r;
            Some (MSG_REQUEST_VOTE, r_term r, r)
          });
       (result, r) \<leftarrow> Raft_Poll E (r_id r) True r;
       if result = Won then Some r
       else do {
         (commit, commit_term) \<leftarrow> RaftLog_CommitInfo (env_storage E) (r_log r);
         request_votes (vote_request E vote_msg trm campaign_type commit commit_term)
           (JointConfiguration_IDs (tc_voters (r_conf r))) r
       }
     }"
  by pat_completeness auto

termination
  by (relation "measure (case_sum (\<lambda>(E, from, vote, r). if r_state r = PreCandidate then 2 else (0::nat))
                                  (\<lambda>(E, ct, r). if ct = kCampaignPreElection then 3 else 1))")
    (auto simp: kCampaignPreElection_def kCampaignElection_def BecomeCandidate_state BecomePreCandidate_state
      split: if_splits elim!: bind_SomeE)

definition Raft_Hup :: "'s Env \<Rightarrow> bool \<Rightarrow> 's Raft \<Rightarrow> 's Raft option" where
  "Raft_Hup E transfer_leader r =
     (if r_state r = Leader then Some r
      else do {
        let low = (case Unstable_MaybeFirstIndex (rl_unstable (r_log r)) of
                     Some idx \<Rightarrow> idx | None \<Rightarrow> rl_applied (r_log r) + 1);
        let high = r_committed r + 1;
        (pending, r) \<leftarrow> Raft_HasUnappliedConfChanges E low high TransferLeaderCtx r;
        if pending then Some r
        else if transfer_leader then Raft_Campaign E kCampaignTransfer r
        else if r_pre_vote r then Raft_Campaign E kCampaignPreElection r
        else Raft_Campaign E kCampaignElection r
      })"

end
