(* ===== verification/RaftStep.thy ===== *)
theory RaftStep
  imports RaftRoles
begin

text \<open>
  The node (\<open>lib/core/raft.cc\<close>), second part: configuration changes, the handler of every message,
  the dispatch by role and term (\<open>Step\<close>), the clock and the calls of the application.
\<close>

section \<open>Reads\<close>

definition Raft_HandleReadyReadIndex :: "message \<Rightarrow> u64 \<Rightarrow> 's Raft \<Rightarrow> message option \<times> 's Raft" where
  "Raft_HandleReadyReadIndex req index r =
     (if m_from req = kInvalidId \<or> m_from req = r_id r then
        let rs = \<lparr>rst_index = index,
                  rst_request_ctx = (case m_entries req of [] \<Rightarrow> [] | e # _ \<Rightarrow> e_data e)\<rparr>
        in (None, r\<lparr>r_read_states := r_read_states r @ [rs]\<rparr>)
      else
        (Some (default_message\<lparr>m_to := m_from req, m_type := MSG_READ_INDEX_RESP, m_index := index,
                 m_entries := map (\<lambda>src. default_entry\<lparr>e_data := e_data src, e_context := e_context src\<rparr>)
                                (m_entries req)\<rparr>), r))"

definition Raft_answer_read :: "message \<Rightarrow> u64 \<Rightarrow> 's Raft \<Rightarrow> 's Raft option" where
  "Raft_answer_read req index r =
     (let (resp, r) = Raft_HandleReadyReadIndex req index r
      in case resp of Some m \<Rightarrow> Raft_Send m r | None \<Rightarrow> Some r)"

fun Raft_answer_reads :: "ReadIndexStatus list \<Rightarrow> 's Raft \<Rightarrow> 's Raft option" where
  "Raft_answer_reads [] r = Some r"
| "Raft_answer_reads (rs # rss) r =
     do { r \<leftarrow> Raft_answer_read (ris_req rs) (ris_index rs) r; Raft_answer_reads rss r }"

text \<open>An acknowledgement of a read context, and the release of the reads once a quorum has it.\<close>

definition Raft_recv_read_ack :: "u64 \<Rightarrow> bytes \<Rightarrow> 's Raft \<Rightarrow> 's Raft option" where
  "Raft_recv_read_ack peer ctx r =
     (let (acks, ro) = ReadOnly_RecvACK peer ctx (r_read_only r); r = r\<lparr>r_read_only := ro\<rparr>
      in case acks of
           None \<Rightarrow> Some r
         | Some acks \<Rightarrow>
             if ProgressTracker_HasQuorum acks (r_progress_tracker r) then do {
               (rss, ro) \<leftarrow> ReadOnly_Advance ctx (r_read_only r);
               Raft_answer_reads rss (r\<lparr>r_read_only := ro\<rparr>)
             } else Some r)"

section \<open>Configuration\<close>

definition Raft_PostConfChange :: "'s Env \<Rightarrow> 's Raft \<Rightarrow> (conf_state \<times> 's Raft) option" where
  "Raft_PostConfChange E r =
     do {
       let cs = TrackerConfiguration_ToConfState (r_conf r);
       let is_voter = JointConfiguration_Contains (r_id r) (tc_voters (r_conf r));
       let r = r\<lparr>r_promotable := is_voter\<rparr>;
       if \<not> is_voter \<and> r_state r = Leader then Some (cs, r)
       else if r_state r \<noteq> Leader \<or> cs_voters cs = [] then Some (cs, r)
       else do {
         (committed, r) \<leftarrow> Raft_MaybeCommit E r;
         r \<leftarrow> (if committed then Raft_BroadcastAppend E r
               else each_peer (\<lambda>to. Raft_MaybeSendAppend_to E to False) (Raft_peers r) r);
         r \<leftarrow> (case ReadOnly_LastPendingRequestCtx (r_read_only r) of
                 Some ctx \<Rightarrow> Raft_recv_read_ack (r_id r) ctx r
               | None \<Rightarrow> Some r);
         Some (cs, case r_lead_transferee r of
                     Some transferee \<Rightarrow>
                       if JointConfiguration_Contains transferee (tc_voters (r_conf r)) then r
                       else Raft_AbortLeaderTransfer r
                   | None \<Rightarrow> r)
       }
     }"

definition LeaveJoint :: "conf_change_v2 \<Rightarrow> bool" where
  "LeaveJoint cc \<longleftrightarrow> cc2_transition cc = AUTO \<and> cc2_changes cc = []"

definition EnterJoint :: "conf_change_v2 \<Rightarrow> bool option" where
  "EnterJoint cc =
     (if cc2_transition cc \<noteq> AUTO \<or> 1 < length (cc2_changes cc)
      then Some (case cc2_transition cc of AUTO \<Rightarrow> True | IMPLICIT \<Rightarrow> True | EXPLICIT \<Rightarrow> False)
      else None)"

definition Raft_ApplyConfChange :: "'s Env \<Rightarrow> conf_change_v2 \<Rightarrow> 's Raft \<Rightarrow> (conf_state result \<times> 's Raft) option" where
  "Raft_ApplyConfChange E cc r =
     do {
       res \<leftarrow> (if LeaveJoint cc then Some (ConfChanger_LeaveJoint (r_progress_tracker r))
               else case EnterJoint cc of
                 Some auto_leave \<Rightarrow> ConfChanger_EnterJoint auto_leave (cc2_changes cc) (r_progress_tracker r)
               | None \<Rightarrow> ConfChanger_Simple (cc2_changes cc) (r_progress_tracker r));
       case res of
         Inl e \<Rightarrow> Some (Inl e, r)
       | Inr (cfg, changes) \<Rightarrow> do {
           last_index \<leftarrow> r_last E r;
           (cs, r) \<leftarrow> Raft_PostConfChange E
              (r\<lparr>r_progress_tracker := ProgressTracker_ApplyConf cfg changes last_index (r_progress_tracker r)\<rparr>);
           Some (Inr cs, r)
         }
     }"

definition ConfStatesEqualIgnoringOrder :: "conf_state \<Rightarrow> conf_state \<Rightarrow> bool" where
  "ConfStatesEqualIgnoringOrder a b \<longleftrightarrow>
     length (cs_voters a) = length (cs_voters b) \<and> sort (cs_voters a) = sort (cs_voters b) \<and>
     length (cs_learners a) = length (cs_learners b) \<and> sort (cs_learners a) = sort (cs_learners b) \<and>
     length (cs_voters_outgoing a) = length (cs_voters_outgoing b) \<and>
     sort (cs_voters_outgoing a) = sort (cs_voters_outgoing b)"

section \<open>Applying entries\<close>

definition EntryType_code :: "EntryType \<Rightarrow> nat" where
  "EntryType_code ty = (case ty of ENTRY_NORMAL \<Rightarrow> 0 | ENTRY_CONF_CHANGE \<Rightarrow> 1 | ENTRY_CONF_CHANGE_V2 \<Rightarrow> 2)"

text \<open>The four bytes of the type, in the byte order of the machine (little endian).\<close>

definition ComputeEntryChecksum :: "'s Env \<Rightarrow> entry \<Rightarrow> u32" where
  "ComputeEntryChecksum E e =
     (let entry_type = char_of (EntryType_code (e_type e)) # replicate 3 (char_of (0::nat));
          crc = env_crc_extend E 0 entry_type;
          crc = env_crc_extend E crc (e_context e)
      in env_crc_extend E crc (e_data e))"

definition SetEntryChecksum :: "'s Env \<Rightarrow> entry \<Rightarrow> entry" where
  "SetEntryChecksum E e = e\<lparr>e_checksum := ComputeEntryChecksum E e\<rparr>"

definition default_conf_change_v2 :: conf_change_v2 where
  "default_conf_change_v2 = \<lparr>cc2_transition = AUTO, cc2_changes = [], cc2_context = []\<rparr>"

definition Raft_CommitApplyInternal :: "'s Env \<Rightarrow> u64 \<Rightarrow> bool \<Rightarrow> 's Raft \<Rightarrow> 's Raft option" where
  "Raft_CommitApplyInternal E applied skip_check r =
     do {
       let old_applied = rl_applied (r_log r);
       log \<leftarrow> (if \<not> skip_check then RaftLog_AppliedTo applied (r_log r)
               else do { ASSERT (0 < applied); Some (RaftLog_AppliedToUnchecked applied (r_log r)) });
       let r = r\<lparr>r_log := log\<rparr>;
       if tc_auto_leave (r_conf r) \<and> old_applied \<le> r_pending_conf_index r \<and>
          r_pending_conf_index r \<le> applied \<and> r_state r = Leader
       then do {
         let ent = SetEntryChecksum E (default_entry\<lparr>e_type := ENTRY_CONF_CHANGE_V2,
                                         e_data := env_toString E default_conf_change_v2\<rparr>);
         (appended, r) \<leftarrow> Raft_AppendEntry E [ent] r;
         ASSERT appended;
         last_index \<leftarrow> r_last E r;
         Some (r\<lparr>r_pending_conf_index := last_index\<rparr>)
       } else Some r
     }"

definition Raft_CommitApply :: "'s Env \<Rightarrow> u64 \<Rightarrow> 's Raft \<Rightarrow> 's Raft option" where
  "Raft_CommitApply E applied r = Raft_CommitApplyInternal E applied False r"

definition Raft_ReduceUncommittedSize :: "entry list \<Rightarrow> 's Raft \<Rightarrow> 's Raft" where
  "Raft_ReduceUncommittedSize ents r =
     (if r_state r \<noteq> Leader then r
      else r\<lparr>r_uncommitted_state :=
               snd (UncommittedState_MaybeReduceUncommittedSize ents (r_uncommitted_state r))\<rparr>)"

section \<open>Construction\<close>

definition Raft_LoadState :: "'s Env \<Rightarrow> hard_state \<Rightarrow> 's Raft \<Rightarrow> 's Raft option" where
  "Raft_LoadState E hs r =
     do {
       last_index \<leftarrow> r_last E r;
       ASSERT (\<not> (hs_commit hs < r_committed r \<or> last_index < hs_commit hs));
       Some (r\<lparr>r_log := (r_log r)\<lparr>rl_committed := hs_commit hs\<rparr>, r_term := hs_term hs, r_vote := hs_vote hs\<rparr>)
     }"

definition Raft_new :: "'s Env \<Rightarrow> Config \<Rightarrow> 's \<Rightarrow> nat \<Rightarrow> 's Raft option" where
  "Raft_new E config store draws =
     do {
       core \<leftarrow> RaftCore_new E config store;
       let r = RaftCore.extend core
          (Raft.fields (ProgressTracker_new (c_max_inflight_messages config)) [] config draws);
       unwrap (Config_Validate config);
       raft_state \<leftarrow> unwrap (RaftLog_GetInitialState (env_storage E) (r_log r));
       let conf_state = rs_conf_state raft_state;
       last_index \<leftarrow> r_last E r;
       (res, tracker) \<leftarrow> Restore last_index conf_state (r_progress_tracker r);
       unwrap res;
       (new_cs, r) \<leftarrow> Raft_PostConfChange E (r\<lparr>r_progress_tracker := tracker\<rparr>);
       ASSERT (ConfStatesEqualIgnoringOrder conf_state new_cs);
       r \<leftarrow> (if c_load_state_on_startup config \<and> rs_hard_state raft_state \<noteq> MakeHardState 0 0 0
             then Raft_LoadState E (rs_hard_state raft_state) r else Some r);
       r \<leftarrow> (if 0 < c_applied config then Raft_CommitApplyInternal E (c_applied config) True r else Some r);
       Raft_BecomeFollower E (r_term r) kInvalidId r
     }"

section \<open>Handlers of a follower\<close>

definition Raft_MaybeCommitByVote :: "'s Env \<Rightarrow> message \<Rightarrow> 's Raft \<Rightarrow> 's Raft option" where
  "Raft_MaybeCommitByVote E m r =
     (if m_commit m = 0 \<or> m_commit_term m = 0 then Some r
      else
        let last_commit = r_committed r in
        if m_commit m \<le> last_commit \<or> r_state r = Leader then Some r
        else do {
          (committed, log) \<leftarrow> RaftLog_MaybeCommit (env_storage E) (m_commit m) (m_commit_term m) (r_log r);
          let r = r\<lparr>r_log := log\<rparr>;
          if \<not> committed then Some r
          else if r_state r \<noteq> Candidate \<and> r_state r \<noteq> PreCandidate then Some r
          else do {
            (found, r) \<leftarrow> Raft_HasUnappliedConfChanges E (last_commit + 1) (r_committed r + 1) (EmptyCtx False) r;
            if found then Raft_BecomeFollower E (r_term r) kInvalidId r else Some r
          }
        })"

definition Raft_HandleAppendEntries :: "'s Env \<Rightarrow> message \<Rightarrow> 's Raft \<Rightarrow> 's Raft option" where
  "Raft_HandleAppendEntries E m r =
     (let to_send = default_message\<lparr>m_to := m_from m, m_type := MSG_APPEND_RESPONSE\<rparr> in
      if r_pending_request_snapshot r \<noteq> kInvalidIndex then Raft_SendRequestSnapshot E r
      else if m_index m < r_committed r
      then Raft_Send (to_send\<lparr>m_index := r_committed r, m_commit := r_committed r\<rparr>) r
      else do {
        (res, log) \<leftarrow> RaftLog_MaybeAppend (env_storage E) (m_index m) (m_log_term m) (m_commit m) (m_entries m) (r_log r);
        let r = r\<lparr>r_log := log\<rparr>;
        ok \<leftarrow> unwrap res;
        to_send \<leftarrow>
          (if mar_term_matched ok then Some (to_send\<lparr>m_index := mar_last_index ok\<rparr>)
           else do {
             last_index \<leftarrow> r_last E r;
             (hint_index, hint_term) \<leftarrow>
               RaftLog_FindConflictByTerm (env_storage E) (min (m_index m) last_index) (m_log_term m) (r_log r);
             hint_term \<leftarrow> hint_term;
             Some (to_send\<lparr>m_index := m_index m, m_reject := True, m_reject_hint := hint_index,
                           m_log_term := hint_term\<rparr>)
           });
        Raft_Send (to_send\<lparr>m_commit := r_committed r\<rparr>) r
      })"

definition Raft_HandleHeartbeat :: "'s Env \<Rightarrow> message \<Rightarrow> 's Raft \<Rightarrow> 's Raft option" where
  "Raft_HandleHeartbeat E m r =
     do {
       (_, log) \<leftarrow> RaftLog_CommitTo (env_storage E) (m_commit m) (r_log r);
       let r = r\<lparr>r_log := log\<rparr>;
       if r_pending_request_snapshot r \<noteq> kInvalidIndex then Raft_SendRequestSnapshot E r
       else Raft_Send (default_message\<lparr>m_to := m_from m, m_type := MSG_HEARTBEAT_RESPONSE,
                         m_context := m_context m, m_commit := r_committed r\<rparr>) r
     }"

definition Raft_Restore :: "'s Env \<Rightarrow> snapshot \<Rightarrow> 's Raft \<Rightarrow> (bool \<times> 's Raft) option" where
  "Raft_Restore E sn r =
     (let cs = sm_conf_state (sn_metadata sn) in
      if sn_index sn < r_committed r then Some (False, r)
      else if r_state r \<noteq> Follower then do {
        r \<leftarrow> Raft_BecomeFollower E (r_term r + 1) kInvalidId r;
        Some (False, r)
      }
      else if r_id r \<notin> set (cs_voters cs) \<union> set (cs_learners cs) \<union> set (cs_voters_outgoing cs)
      then Some (False, r)
      else do {
        fast_forward \<leftarrow> (if r_pending_request_snapshot r = kInvalidIndex
                          then RaftLog_MatchTerm (env_storage E) (sn_index sn) (sn_term sn) (r_log r)
                          else Some False);
        if fast_forward then do {
          (_, log) \<leftarrow> RaftLog_CommitTo (env_storage E) (sn_index sn) (r_log r);
          Some (False, r\<lparr>r_log := log\<rparr>)
        } else do {
          (res, restored_tracker) \<leftarrow>
            Restore (sn_index sn + 1) cs (ProgressTracker_new (c_max_inflight_messages (r_config r)));
          case res of
            Inl _ \<Rightarrow> Some (False, r)
          | Inr _ \<Rightarrow>
              (case RaftLog_Restore sn (r_log r) of
                 (Inl _, log) \<Rightarrow> Some (False, r\<lparr>r_log := log\<rparr>)
               | (Inr _, log) \<Rightarrow> do {
                   (_, r) \<leftarrow> Raft_PostConfChange E
                      (r\<lparr>r_log := log, r_progress_tracker := restored_tracker\<rparr>);
                   Some (True, r\<lparr>r_pending_request_snapshot := kInvalidIndex\<rparr>)
                 })
        }
      })"

definition Raft_HandleSnapshot :: "'s Env \<Rightarrow> message \<Rightarrow> 's Raft \<Rightarrow> 's Raft option" where
  "Raft_HandleSnapshot E m r =
     do {
       (restored, r) \<leftarrow> Raft_Restore E (m_snapshot m) r;
       index \<leftarrow> (if restored then r_last E r else Some (r_committed r));
       Raft_Send (default_message\<lparr>m_type := MSG_APPEND_RESPONSE, m_to := m_from m, m_index := index\<rparr>) r
     }"

section \<open>Handlers of a leader\<close>

definition Raft_HandleAppendResponse :: "'s Env \<Rightarrow> message \<Rightarrow> 's Raft \<Rightarrow> 's Raft option" where
  "Raft_HandleAppendResponse E m r =
     do {
       next_probe_index \<leftarrow>
         (if m_reject m \<and> 0 < m_log_term m then do {
            (index, _) \<leftarrow> RaftLog_FindConflictByTerm (env_storage E) (m_reject_hint m) (m_log_term m) (r_log r);
            Some index
          } else Some (m_reject_hint m));
       case r_get (m_from m) r of
         None \<Rightarrow> Some r
       | Some pr \<Rightarrow>
           let pr = Progress_UpdateCommitted (m_commit m) (pr\<lparr>pr_recent_active := True\<rparr>) in
           if m_reject m then
             let (changed, pr) = Progress_on_reject (m_index m) next_probe_index (m_request_snapshot m) pr;
                 r = r_put (m_from m) pr r
             in if changed then Raft_SendAppend E (m_from m) r else Some r
           else do {
             let old_paused = Progress_IsPaused pr;
             (updated, pr) \<leftarrow> Progress_on_ack (m_index m) pr;
             let r = r_put (m_from m) pr r;
             if \<not> updated then Some r
             else do {
               (committed, r) \<leftarrow> Raft_MaybeCommit E r;
               r \<leftarrow> (if committed
                     then (if Raft_ShouldBroadcastCommit r then Raft_BroadcastAppend E r else Some r)
                     else if old_paused then Raft_SendAppend E (m_from m) r else Some r);
               r \<leftarrow> Raft_SendAppendAggressively E (m_from m) r;
               if r_lead_transferee r = Some (m_from m) then do {
                 pr \<leftarrow> r_get (m_from m) r;
                 last_index \<leftarrow> r_last E r;
                 if pr_matched pr = last_index then Raft_SendTimeoutNow (m_from m) r else Some r
               } else Some r
             }
           }
     }"

definition Raft_HandleHeartbeatResponse :: "'s Env \<Rightarrow> message \<Rightarrow> 's Raft \<Rightarrow> 's Raft option" where
  "Raft_HandleHeartbeatResponse E m r =
     (case r_get (m_from m) r of
        None \<Rightarrow> Some r
      | Some pr \<Rightarrow> do {
          pr \<leftarrow> Progress_on_heartbeat_resp (m_commit m) pr;
          let r = r_put (m_from m) pr r;
          last_index \<leftarrow> r_last E r;
          r \<leftarrow> (if pr_matched pr < last_index \<or> pr_pending_request_snapshot pr \<noteq> kInvalidIndex
                then Raft_SendAppend_to E (m_from m) pr r else Some r);
          if ro_option (r_read_only r) \<noteq> Safe \<or> m_context m = [] then Some r
          else Raft_recv_read_ack (m_from m) (m_context m) r
        })"

definition Raft_HandleSnapshotStatus :: "message \<Rightarrow> 's Raft \<Rightarrow> 's Raft" where
  "Raft_HandleSnapshotStatus m r =
     (case r_get (m_from m) r of
        None \<Rightarrow> r
      | Some pr \<Rightarrow> r_put (m_from m) (Progress_on_snap_status (m_reject m) pr) r)"

definition Raft_HandleUnreachable :: "message \<Rightarrow> 's Raft \<Rightarrow> 's Raft" where
  "Raft_HandleUnreachable m r =
     (case r_get (m_from m) r of
        None \<Rightarrow> r
      | Some pr \<Rightarrow> if pr_state pr = Replicate then r_put (m_from m) (Progress_BecomeProbe pr) r else r)"

definition Raft_HandleTransferLeader :: "'s Env \<Rightarrow> message \<Rightarrow> 's Raft \<Rightarrow> 's Raft option" where
  "Raft_HandleTransferLeader E m r =
     (let from = m_from m in
      case r_get from r of
        None \<Rightarrow> Some r
      | Some pr \<Rightarrow>
          if from \<in> set (tc_learners (r_conf r)) then Some r
          else if r_lead_transferee r = Some from then Some r
          else
            let r = (if r_lead_transferee r \<noteq> None then Raft_AbortLeaderTransfer r else r) in
            if from = r_id r then Some r
            else do {
              let r = r\<lparr>r_election_elapsed := 0, r_lead_transferee := Some from\<rparr>;
              last_index \<leftarrow> r_last E r;
              if pr_matched pr = last_index then Raft_SendTimeoutNow from r
              else Raft_SendAppend_to E from pr r
            })"

definition Raft_CheckQuorumActive :: "'s Raft \<Rightarrow> bool \<times> 's Raft" where
  "Raft_CheckQuorumActive r =
     (let (active, tracker) = ProgressTracker_QuorumRecentlyActive (r_id r) (r_progress_tracker r)
      in (active, r\<lparr>r_progress_tracker := tracker\<rparr>))"

definition Raft_CommitToCurrentTerm :: "'s Env \<Rightarrow> 's Raft \<Rightarrow> bool option" where
  "Raft_CommitToCurrentTerm E r =
     do {
       term_result \<leftarrow> RaftLog_Term (env_storage E) (r_committed r) (r_log r);
       Some (term_result = Inr (r_term r))
     }"

text \<open>
  The checks on a proposal, entry by entry: the position of the configuration change it contains, or
  \<open>None\<close> when it is dropped.
\<close>

fun check_proposal :: "'s Env \<Rightarrow> bool \<Rightarrow> nat \<Rightarrow> nat option \<Rightarrow> entry list \<Rightarrow> nat option option" where
  "check_proposal E pending i pos [] = Some pos"
| "check_proposal E pending i pos (ent # ents) =
     (if e_type ent = ENTRY_CONF_CHANGE_V2 then
        if pending then None
        else if pos \<noteq> None then None
        else if e_data ent = [] then None
        else if env_fromString E (e_data ent) = None then None
        else check_proposal E pending (i + 1) (Some i) ents
      else check_proposal E pending (i + 1) pos ents)"

definition Raft_propose :: "'s Env \<Rightarrow> entry list \<Rightarrow> 's Raft \<Rightarrow> (unit result \<times> 's Raft) option" where
  "Raft_propose E entries r =
     (if entries = [] then None
      else if r_get (r_id r) r = None then Some (Inl (RaftError ProposalDropped), r)
      else if r_lead_transferee r \<noteq> None then Some (Inl (RaftError ProposalDropped), r)
      else case check_proposal E (Raft_HasPendingConf r) 0 None entries of
        None \<Rightarrow> Some (Inl (RaftError ProposalDropped), r)
      | Some conf_change_position \<Rightarrow> do {
          old_last_index \<leftarrow> r_last E r;
          (appended, r) \<leftarrow> Raft_AppendEntry E entries r;
          if \<not> appended then Some (Inl (RaftError ProposalDropped), r)
          else do {
            let r = (case conf_change_position of
                       Some i \<Rightarrow> r\<lparr>r_pending_conf_index := old_last_index + of_nat i + 1\<rparr>
                     | None \<Rightarrow> r);
            r \<leftarrow> Raft_BroadcastAppend E r;
            Some (Inr (), r)
          }
        })"

definition Raft_read_index :: "'s Env \<Rightarrow> message \<Rightarrow> 's Raft \<Rightarrow> 's Raft option" where
  "Raft_read_index E m r =
     do {
       committed_in_term \<leftarrow> Raft_CommitToCurrentTerm E r;
       if \<not> committed_in_term then Some r
       else if ProgressTracker_IsSingleton (r_progress_tracker r) then Raft_answer_read m (r_committed r) r
       else case ro_option (r_read_only r) of
         Safe \<Rightarrow>
           (case m_entries m of
              [] \<Rightarrow> Some r
            | e # _ \<Rightarrow>
                Raft_BroadcastHeartbeat_ctx (Some (e_data e))
                  (r\<lparr>r_read_only := ReadOnly_AddRequest (r_committed r) m (r_id r) (r_read_only r)\<rparr>))
       | LeaseBased \<Rightarrow> Raft_answer_read m (r_committed r) r
     }"

section \<open>Dispatch\<close>

definition Raft_StepLeader :: "'s Env \<Rightarrow> message \<Rightarrow> 's Raft \<Rightarrow> (unit result \<times> 's Raft) option" where
  "Raft_StepLeader E m r =
     (let finish = (\<lambda>c. do { r \<leftarrow> c; Some (Inr (), r) }) in
      case m_type m of
        MSG_BEAT \<Rightarrow> finish (Raft_BroadcastHeartbeat r)
      | MSG_CHECK_QUORUM \<Rightarrow>
          (let (active, r) = Raft_CheckQuorumActive r
           in if \<not> active then finish (Raft_BecomeFollower E (r_term r) kInvalidId r) else Some (Inr (), r))
      | MSG_PROPOSE \<Rightarrow> Raft_propose E (m_entries m) r
      | MSG_READ_INDEX \<Rightarrow> finish (Raft_read_index E m r)
      | MSG_APPEND_RESPONSE \<Rightarrow> finish (Raft_HandleAppendResponse E m r)
      | MSG_HEARTBEAT_RESPONSE \<Rightarrow> finish (Raft_HandleHeartbeatResponse E m r)
      | MSG_SNAP_STATUS \<Rightarrow> Some (Inr (), Raft_HandleSnapshotStatus m r)
      | MSG_UNREACHABLE \<Rightarrow> Some (Inr (), Raft_HandleUnreachable m r)
      | MSG_TRANSFER_LEADER \<Rightarrow> finish (Raft_HandleTransferLeader E m r)
      | _ \<Rightarrow> Some (Inr (), r))"

definition Raft_StepCandidate :: "'s Env \<Rightarrow> message \<Rightarrow> 's Raft \<Rightarrow> (unit result \<times> 's Raft) option" where
  "Raft_StepCandidate E m r =
     (let as_follower = (\<lambda>handle. do {
            r \<leftarrow> Raft_BecomeFollower E (m_term m) (m_from m) r;
            r \<leftarrow> handle E m r;
            Some (Inr (), r)
          });
          vote_response = (
            if r_state r = PreCandidate \<and> m_type m \<noteq> MSG_REQUEST_PRE_VOTE_RESPONSE \<or>
               r_state r = Candidate \<and> m_type m \<noteq> MSG_REQUEST_VOTE_RESPONSE
            then Some (Inr (), r)
            else do {
              (_, r) \<leftarrow> Raft_Poll E (m_from m) (\<not> m_reject m) r;
              r \<leftarrow> Raft_MaybeCommitByVote E m r;
              Some (Inr (), r)
            })
      in case m_type m of
           MSG_PROPOSE \<Rightarrow> Some (Inl (RaftError ProposalDropped), r)
         | MSG_APPEND \<Rightarrow> as_follower Raft_HandleAppendEntries
         | MSG_HEARTBEAT \<Rightarrow> as_follower Raft_HandleHeartbeat
         | MSG_SNAPSHOT \<Rightarrow> as_follower Raft_HandleSnapshot
         | MSG_REQUEST_PRE_VOTE_RESPONSE \<Rightarrow> vote_response
         | MSG_REQUEST_VOTE_RESPONSE \<Rightarrow> vote_response
         | _ \<Rightarrow> Some (Inr (), r))"

definition Raft_forward :: "message \<Rightarrow> 's Raft \<Rightarrow> (unit result \<times> 's Raft) option" where
  "Raft_forward m r = do { r \<leftarrow> Raft_Send (m\<lparr>m_to := r_leader_id r\<rparr>) r; Some (Inr (), r) }"

definition Raft_StepFollower :: "'s Env \<Rightarrow> message \<Rightarrow> 's Raft \<Rightarrow> (unit result \<times> 's Raft) option" where
  "Raft_StepFollower E m r =
     (let from_leader = (\<lambda>handle. do {
            r \<leftarrow> handle E m (r\<lparr>r_election_elapsed := 0, r_leader_id := m_from m\<rparr>);
            Some (Inr (), r)
          })
      in case m_type m of
           MSG_PROPOSE \<Rightarrow>
             if r_leader_id r = kInvalidId then Some (Inl (RaftError ProposalDropped), r)
             else if r_disable_proposal_forwarding r then Some (Inl (RaftError ProposalDropped), r)
             else Raft_forward m r
         | MSG_APPEND \<Rightarrow> from_leader Raft_HandleAppendEntries
         | MSG_HEARTBEAT \<Rightarrow> from_leader Raft_HandleHeartbeat
         | MSG_SNAPSHOT \<Rightarrow> from_leader Raft_HandleSnapshot
         | MSG_TRANSFER_LEADER \<Rightarrow>
             if r_leader_id r = kInvalidId then Some (Inr (), r) else Raft_forward m r
         | MSG_TIMEOUT_NOW \<Rightarrow>
             if r_promotable r then do { r \<leftarrow> Raft_Hup E True r; Some (Inr (), r) } else Some (Inr (), r)
         | MSG_READ_INDEX \<Rightarrow>
             if r_leader_id r = kInvalidId then Some (Inr (), r) else Raft_forward m r
         | MSG_READ_INDEX_RESP \<Rightarrow>
             if r_leader_id r = kInvalidId \<or> m_from m \<noteq> r_leader_id r then Some (Inr (), r)
             else (case m_entries m of
                     [e] \<Rightarrow> do {
                       let rs = \<lparr>rst_index = m_index m, rst_request_ctx = e_data e\<rparr>;
                       let r = r\<lparr>r_read_states := r_read_states r @ [rs]\<rparr>;
                       (_, log) \<leftarrow> RaftLog_MaybeCommit (env_storage E) (m_index m) (m_term m) (r_log r);
                       Some (Inr (), r\<lparr>r_log := log\<rparr>)
                     }
                   | _ \<Rightarrow> Some (Inr (), r))
         | _ \<Rightarrow> Some (Inr (), r))"

definition VoteRespMsgType :: "MessageType \<Rightarrow> MessageType option" where
  "VoteRespMsgType mt =
     (case mt of
        MSG_REQUEST_VOTE \<Rightarrow> Some MSG_REQUEST_VOTE_RESPONSE
      | MSG_REQUEST_PRE_VOTE \<Rightarrow> Some MSG_REQUEST_PRE_VOTE_RESPONSE
      | _ \<Rightarrow> None)"

text \<open>The branch of \<open>Step\<close> for the two kinds of vote requests.\<close>

definition Raft_can_vote :: "message \<Rightarrow> 's Raft \<Rightarrow> bool" where
  "Raft_can_vote m r \<longleftrightarrow>
     r_vote r = m_from m \<or> (r_vote r = kInvalidId \<and> r_leader_id r = kInvalidId) \<or>
     (m_type m = MSG_REQUEST_PRE_VOTE \<and> r_term r < m_term m)"

definition Raft_grants_vote :: "'s Env \<Rightarrow> message \<Rightarrow> 's Raft \<Rightarrow> bool option" where
  "Raft_grants_vote E m r =
     (if Raft_can_vote m r then do {
        up_to_date \<leftarrow> RaftLog_IsUpToDate (env_storage E) (m_index m) (m_log_term m) (r_log r);
        if \<not> up_to_date then Some False
        else do {
          last_index \<leftarrow> r_last E r;
          Some (last_index < m_index m \<or> sint (r_priority r) \<le> sint (m_priority m))
        }
      } else Some False)"

definition Raft_vote :: "'s Env \<Rightarrow> message \<Rightarrow> 's Raft \<Rightarrow> 's Raft option" where
  "Raft_vote E m r =
     do {
       grant \<leftarrow> Raft_grants_vote E m r;
       resp_type \<leftarrow> VoteRespMsgType (m_type m);
       let to_send = default_message\<lparr>m_to := m_from m, m_type := resp_type\<rparr>;
       if grant then do {
         r \<leftarrow> Raft_Send (to_send\<lparr>m_reject := False, m_term := m_term m\<rparr>) r;
         Some (if m_type m = MSG_REQUEST_VOTE then r\<lparr>r_election_elapsed := 0, r_vote := m_from m\<rparr> else r)
       } else do {
         (commit, commit_term) \<leftarrow> RaftLog_CommitInfo (env_storage E) (r_log r);
         r \<leftarrow> Raft_Send (to_send\<lparr>m_reject := True, m_term := r_term r, m_commit := commit,
                                 m_commit_term := commit_term\<rparr>) r;
         Raft_MaybeCommitByVote E m r
       }
     }"

definition Raft_Step_current :: "'s Env \<Rightarrow> message \<Rightarrow> 's Raft \<Rightarrow> (unit result \<times> 's Raft) option" where
  "Raft_Step_current E m r =
     (if m_type m = MSG_HUP then
        if r_promotable r then do { r \<leftarrow> Raft_Hup E False r; Some (Inr (), r) } else Some (Inr (), r)
      else if m_type m = MSG_REQUEST_VOTE \<or> m_type m = MSG_REQUEST_PRE_VOTE
      then do { r \<leftarrow> Raft_vote E m r; Some (Inr (), r) }
      else case r_state r of
        PreCandidate \<Rightarrow> Raft_StepCandidate E m r
      | Candidate \<Rightarrow> Raft_StepCandidate E m r
      | Follower \<Rightarrow> Raft_StepFollower E m r
      | Leader \<Rightarrow> Raft_StepLeader E m r)"

definition Raft_in_lease :: "'s Raft \<Rightarrow> bool" where
  "Raft_in_lease r \<longleftrightarrow>
     r_check_quorum r \<and> r_leader_id r \<noteq> kInvalidId \<and> r_election_elapsed r < r_election_timeout r"

definition Raft_Step :: "'s Env \<Rightarrow> message \<Rightarrow> 's Raft \<Rightarrow> (unit result \<times> 's Raft) option" where
  "Raft_Step E m r =
     (if m_term m = 0 then Raft_Step_current E m r
      else if r_term r < m_term m then
        if (m_type m = MSG_REQUEST_VOTE \<or> m_type m = MSG_REQUEST_PRE_VOTE) \<and>
           m_context m \<noteq> kCampaignTransfer \<and> Raft_in_lease r
        then Some (Inr (), r)
        else if m_type m = MSG_REQUEST_PRE_VOTE \<or>
                (m_type m = MSG_REQUEST_PRE_VOTE_RESPONSE \<and> \<not> m_reject m)
        then Raft_Step_current E m r
        else do {
          let leader_id = (if m_type m = MSG_APPEND \<or> m_type m = MSG_HEARTBEAT \<or> m_type m = MSG_SNAPSHOT
                           then m_from m else kInvalidId);
          r \<leftarrow> Raft_BecomeFollower E (m_term m) leader_id r;
          Raft_Step_current E m r
        }
      else if m_term m < r_term r then
        if (r_check_quorum r \<or> r_pre_vote r) \<and> (m_type m = MSG_HEARTBEAT \<or> m_type m = MSG_APPEND)
        then do {
          r \<leftarrow> Raft_Send (default_message\<lparr>m_to := m_from m, m_type := MSG_APPEND_RESPONSE\<rparr>) r;
          Some (Inr (), r)
        }
        else if m_type m = MSG_REQUEST_PRE_VOTE
        then do {
          r \<leftarrow> Raft_Send (default_message\<lparr>m_to := m_from m, m_type := MSG_REQUEST_PRE_VOTE_RESPONSE,
                            m_reject := True, m_term := r_term r\<rparr>) r;
          Some (Inr (), r)
        }
        else Some (Inr (), r)
      else Raft_Step_current E m r)"

section \<open>The clock\<close>

definition local_message :: "MessageType \<Rightarrow> 's Raft \<Rightarrow> message" where
  "local_message ty r = default_message\<lparr>m_to := kInvalidId, m_type := ty, m_from := r_id r\<rparr>"

text \<open>The second half of both tick functions.\<close>

definition Raft_tick_beat :: "'s Env \<Rightarrow> bool \<Rightarrow> 's Raft \<Rightarrow> (bool \<times> 's Raft) option" where
  "Raft_tick_beat E has_ready r =
     (if r_state r \<noteq> Leader then Some (has_ready, r)
      else if r_heartbeat_timeout r \<le> r_heartbeat_elapsed r then do {
        let r = r\<lparr>r_heartbeat_elapsed := 0\<rparr>;
        (_, r) \<leftarrow> Raft_Step E (local_message MSG_BEAT r) r;
        Some (True, r)
      } else Some (has_ready, r))"

definition Raft_TickElection :: "'s Env \<Rightarrow> 's Raft \<Rightarrow> (bool \<times> 's Raft) option" where
  "Raft_TickElection E r =
     do {
       let r = r\<lparr>r_heartbeat_elapsed := r_heartbeat_elapsed r + 1, r_election_elapsed := r_election_elapsed r + 1\<rparr>;
       (has_ready, r) \<leftarrow>
         (if r_randomized_election_timeout r \<le> r_election_elapsed r then do {
            let r = r\<lparr>r_election_elapsed := 0\<rparr>;
            (_, r) \<leftarrow> Raft_Step E (local_message MSG_HUP r) r;
            Some (True, r)
          } else Some (False, r));
       Raft_tick_beat E has_ready r
     }"

definition Raft_TickHeartbeat :: "'s Env \<Rightarrow> 's Raft \<Rightarrow> (bool \<times> 's Raft) option" where
  "Raft_TickHeartbeat E r =
     do {
       let r = r\<lparr>r_heartbeat_elapsed := r_heartbeat_elapsed r + 1, r_election_elapsed := r_election_elapsed r + 1\<rparr>;
       (has_ready, r) \<leftarrow>
         (if r_randomized_election_timeout r \<le> r_election_elapsed r then do {
            let r = r\<lparr>r_election_elapsed := 0\<rparr>;
            (has_ready, r) \<leftarrow>
              (if r_check_quorum r then do {
                 (_, r) \<leftarrow> Raft_Step E (local_message MSG_CHECK_QUORUM r) r;
                 Some (True, r)
               } else Some (False, r));
            Some (has_ready,
                  if r_state r = Leader \<and> r_lead_transferee r \<noteq> None then Raft_AbortLeaderTransfer r else r)
          } else Some (False, r));
       Raft_tick_beat E has_ready r
     }"

definition Raft_Tick :: "'s Env \<Rightarrow> 's Raft \<Rightarrow> (bool \<times> 's Raft) option" where
  "Raft_Tick E r =
     (case r_state r of
        Follower \<Rightarrow> Raft_TickElection E r
      | Candidate \<Rightarrow> Raft_TickElection E r
      | PreCandidate \<Rightarrow> Raft_TickElection E r
      | Leader \<Rightarrow> Raft_TickHeartbeat E r)"

section \<open>Calls of the application\<close>

definition Raft_SetPriority :: "u64 \<Rightarrow> 's Raft \<Rightarrow> 's Raft" where
  "Raft_SetPriority priority r = r\<lparr>r_priority := priority\<rparr>"

definition Raft_RequestSnapshot :: "'s Env \<Rightarrow> 's Raft \<Rightarrow> (unit result \<times> 's Raft) option" where
  "Raft_RequestSnapshot E r =
     (let dropped = Some (Inl (RaftError RequestSnapshotDropped), r) in
      if r_state r = Leader then dropped
      else if r_leader_id r = kInvalidId then dropped
      else if un_snapshot (rl_unstable (r_log r)) \<noteq> None \<or> r_pending_request_snapshot r \<noteq> kInvalidIndex then dropped
      else do {
        request_index \<leftarrow> r_last E r;
        t \<leftarrow> RaftLog_Term (env_storage E) request_index (r_log r);
        request_index_term \<leftarrow> unwrap t;
        if r_term r = request_index_term then do {
          r \<leftarrow> Raft_SendRequestSnapshot E (r\<lparr>r_pending_request_snapshot := request_index\<rparr>);
          Some (Inr (), r)
        } else dropped
      })"

definition Raft_hard_state :: "'s Raft \<Rightarrow> hard_state" where
  "Raft_hard_state r = \<lparr>hs_term = r_term r, hs_vote = r_vote r, hs_commit = r_committed r\<rparr>"

definition Raft_soft_state :: "'s Raft \<Rightarrow> SoftState" where
  "Raft_soft_state r = \<lparr>ss_leader_id = r_leader_id r, ss_raft_state = r_state r\<rparr>"

definition Raft_Ping :: "'s Raft \<Rightarrow> 's Raft option" where
  "Raft_Ping r = (if r_state r = Leader then Raft_BroadcastHeartbeat r else Some r)"

definition Raft_inflight_buffers_size :: "'s Raft \<Rightarrow> nat" where
  "Raft_inflight_buffers_size r =
     sum_list (map (\<lambda>(_, pr). if Inflights_buffer_is_allocated (pr_inflights pr)
                              then Inflights_BufferSize (pr_inflights pr) * 8 else 0)
       (pt_progress (r_progress_tracker r)))"

definition Raft_MaybeFreeInflightBuffers :: "'s Raft \<Rightarrow> 's Raft" where
  "Raft_MaybeFreeInflightBuffers r =
     (let t = r_progress_tracker r in
      r\<lparr>r_progress_tracker := t\<lparr>pt_progress := Map_map_values
          (\<lambda>_ pr. if Inflights_Count (pr_inflights pr) = 0 \<and> Inflights_buffer_is_allocated (pr_inflights pr)
                  then pr\<lparr>pr_inflights := Inflights_Reset (pr_inflights pr)\<rparr> else pr) (pt_progress t)\<rparr>\<rparr>)"

definition Raft_AdjustMaxInflightMsgs :: "u64 \<Rightarrow> nat \<Rightarrow> 's Raft \<Rightarrow> 's Raft option" where
  "Raft_AdjustMaxInflightMsgs peer max_inflight r =
     (case r_get peer r of
        None \<Rightarrow> Some r
      | Some pr \<Rightarrow> do {
          ifl \<leftarrow> Inflights_SetCapacity max_inflight (pr_inflights pr);
          Some (r_put peer (pr\<lparr>pr_inflights := ifl\<rparr>) r)
        })"

definition Raft_EnableGroupCommit :: "'s Env \<Rightarrow> bool \<Rightarrow> 's Raft \<Rightarrow> 's Raft option" where
  "Raft_EnableGroupCommit E enable r =
     do {
       let r = r\<lparr>r_progress_tracker := ProgressTracker_EnableGroupCommit enable (r_progress_tracker r)\<rparr>;
       if r_state r = Leader \<and> \<not> enable then do {
         (committed, r) \<leftarrow> Raft_MaybeCommit E r;
         if committed then Raft_BroadcastAppend E r else Some r
       } else Some r
     }"

fun assign_groups :: "(u64 \<times> u64) list \<Rightarrow> 's Raft \<Rightarrow> 's Raft option" where
  "assign_groups [] r = Some r"
| "assign_groups ((peer_id, group_id) # ids) r =
     do {
       ASSERT (0 < group_id);
       assign_groups ids
         (case r_get peer_id r of
            Some pr \<Rightarrow> r_put peer_id (Progress_SetCommitGroupID group_id pr) r
          | None \<Rightarrow> r)
     }"

definition Raft_AssignCommitGroups :: "'s Env \<Rightarrow> (u64 \<times> u64) list \<Rightarrow> 's Raft \<Rightarrow> 's Raft option" where
  "Raft_AssignCommitGroups E ids r =
     do {
       r \<leftarrow> assign_groups ids r;
       if r_state r = Leader \<and> pt_group_commit (r_progress_tracker r) then do {
         (committed, r) \<leftarrow> Raft_MaybeCommit E r;
         if committed then Raft_BroadcastAppend E r else Some r
       } else Some r
     }"

definition Raft_CheckGroupCommitConsistent :: "'s Env \<Rightarrow> 's Raft \<Rightarrow> bool option option" where
  "Raft_CheckGroupCommitConsistent E r =
     (if r_state r \<noteq> Leader then Some None
      else do {
        term_result \<leftarrow> RaftLog_Term (env_storage E) (rl_applied (r_log r)) (r_log r);
        Some (if term_result \<noteq> Inr (r_term r) then None
              else
                let (index, use_group_commit) = ProgressTracker_MaxCommittedIndex (r_progress_tracker r)
                in Some (use_group_commit \<and> index = r_committed r))
      })"

end
