(* ===== verification/Scenario.thy ===== *)
theory Scenario
  imports RaftStep
begin

text \<open>
  A concrete group of three voters on \<open>MemoryStorage\<close>, shared by the examples of the theorems about
  nodes: the environment, the configuration of a node, and the nodes as their constructor makes them.
\<close>

definition ex_env :: "MemoryStorage Env" where
  "ex_env = \<lparr>env_storage = memory_ops (\<lambda>_. 1), env_entry_bytes = (\<lambda>_. 1), env_random = (\<lambda>lo hi n. lo),
     env_crc_extend = (\<lambda>c _. c), env_toString = (\<lambda>_. ''c''), env_fromString = (\<lambda>_. None)\<rparr>"

definition ex_config :: "u64 \<Rightarrow> Config" where
  "ex_config i = DefaultConfig\<lparr>c_id := i, c_election_tick := 10, c_heartbeat_tick := 1\<rparr>"

definition ex_store :: MemoryStorage where
  "ex_store = MemoryStorage_SetConfState (default_conf_state\<lparr>cs_voters := [1, 2, 3]\<rparr>) MemoryStorage_new"

definition ex_node :: "u64 \<Rightarrow> MemoryStorage Raft" where
  "ex_node i = the (Raft_new ex_env (ex_config i) ex_store 0)"

definition ex_jc :: JointConfiguration where
  "ex_jc = \<lparr>jc_incoming = [3, 2, 1], jc_outgoing = []\<rparr>"

text \<open>Node 1 campaigns, node 2 votes for it, and node 1 leads.\<close>

definition ex_hup :: message where
  "ex_hup = default_message\<lparr>m_type := MSG_HUP, m_from := 1\<rparr>"

definition ex_request :: message where
  "ex_request = default_message\<lparr>m_type := MSG_REQUEST_VOTE, m_from := 1, m_to := 2, m_term := 1\<rparr>"

definition ex_response :: message where
  "ex_response = default_message\<lparr>m_type := MSG_REQUEST_VOTE_RESPONSE, m_from := 2, m_to := 1, m_term := 1\<rparr>"

definition ex_candidate :: "MemoryStorage Raft" where
  "ex_candidate = snd (the (Raft_Step ex_env ex_hup (ex_node 1)))"

definition ex_voter :: "MemoryStorage Raft" where
  "ex_voter = snd (the (Raft_Step ex_env ex_request (ex_node 2)))"

definition ex_leader :: "MemoryStorage Raft" where
  "ex_leader = snd (the (Raft_Step ex_env ex_response ex_candidate))"

lemma ex_node_eval:
  "list_all (\<lambda>i. Raft_new ex_env (ex_config i) ex_store 0 \<noteq> None \<and> tc_voters (r_conf (ex_node i)) = ex_jc \<and>
     r_term (ex_node i) = 0) [1, 2, 3]"
  by code_simp

lemma ex_candidate_eval:
  "Raft_Step ex_env ex_hup (ex_node 1) = Some (Inr (), ex_candidate) \<and> tc_voters (r_conf ex_candidate) = ex_jc \<and>
     r_term ex_candidate = 1 \<and> ex_request \<in> set (r_messages ex_candidate)"
  by code_simp

lemma ex_voter_eval:
  "Raft_Step ex_env ex_request (ex_node 2) = Some (Inr (), ex_voter) \<and> tc_voters (r_conf ex_voter) = ex_jc \<and>
     r_term ex_voter = 1 \<and> ex_response \<in> set (r_messages ex_voter)"
  by code_simp

lemma ex_leader_eval:
  "Raft_Step ex_env ex_response ex_candidate = Some (Inr (), ex_leader) \<and> tc_voters (r_conf ex_leader) = ex_jc \<and>
     r_term ex_leader = 1 \<and> r_state ex_leader = Leader"
  by code_simp

end
