(* ===== verification/Sending.thy ===== *)
theory Sending
  imports RaftStep
begin

text \<open>
  What the sending side of replication touches: the storage behind the log is only read, and the only
  messages queued or changed are appends and snapshots.
\<close>

section \<open>Reading the log\<close>

inductive log_read :: "'s storage_ops \<Rightarrow> 's RaftLog \<Rightarrow> 's RaftLog \<Rightarrow> bool" for ops l where
  read_entries: "so_Entries ops low high mx ctx (rl_store l) = Some (r, st) \<Longrightarrow> log_read ops l (l\<lparr>rl_store := st\<rparr>)"
| read_snapshot: "so_GetSnapshot ops i to (rl_store l) = Some (r, st) \<Longrightarrow> log_read ops l (l\<lparr>rl_store := st\<rparr>)"

abbreviation log_reads :: "'s storage_ops \<Rightarrow> 's RaftLog \<Rightarrow> 's RaftLog \<Rightarrow> bool" where
  "log_reads ops \<equiv> (log_read ops)\<^sup>*\<^sup>*"

lemma read_once:
  "so_Entries ops low high mx ctx (rl_store l) = Some (r, st) \<Longrightarrow> log_reads ops l (l\<lparr>rl_store := st\<rparr>)"
  "so_GetSnapshot ops i to (rl_store l) = Some (r', st) \<Longrightarrow> log_reads ops l (l\<lparr>rl_store := st\<rparr>)"
  by (blast intro: log_read.intros)+

lemma Slice_reads: "RaftLog_Slice sz ops low high mx ctx l = Some (res, l') \<Longrightarrow> log_reads ops l l'"
  by (auto simp: RaftLog_Slice_def Let_def split: if_splits sum.splits elim!: bind_SomeE
      dest!: read_once)

lemma GetEntries_reads: "RaftLog_GetEntries sz ops idx mx ctx l = Some (res, l') \<Longrightarrow> log_reads ops l l'"
  by (auto simp: RaftLog_GetEntries_def split: if_splits elim!: bind_SomeE dest: Slice_reads)

lemma GetSnapshot_reads: "RaftLog_GetSnapshot ops i to l = Some (res, l') \<Longrightarrow> log_reads ops l l'"
  by (auto simp: RaftLog_GetSnapshot_def Let_def split: if_splits option.splits elim!: bind_SomeE
      dest!: read_once)

lemma Scan_reads:
  assumes "RaftLog_Scan sz ops low high page ctx f (l, a) = Some (res, l', a')"
  shows "log_reads ops l l'"
proof -
  have "(\<lambda>sz ops low high page ctx f la res. log_reads ops (fst la) (fst (snd res))) sz ops low high page ctx f (l, a) (res, l', a')"
  proof (rule RaftLog_Scan.raw_induct [OF _ assms], goal_cases)
    case (1 scan sz ops low high page ctx f la res)
    show ?case
    proof (cases "low < high")
      case True
      then obtain r l1 where s: "RaftLog_Slice sz ops low high (Some page) ctx (fst la) = Some (r, l1)"
        and k: "(case r of Inl err \<Rightarrow> Some (Inl err, l1, snd la)
          | Inr ents \<Rightarrow> if ents = [] then Some (Inl (StorageErrorOther (Fmt ''got 0 entries in [{}, {})'' [low, high])), l1, snd la)
             else let (go, a) = f ents (snd la)
                  in if go then scan sz ops (low + of_nat (length ents)) high page ctx f (l1, a) else Some (Inr (), l1, a)) = Some res"
        using 1(2) unfolding if_P [OF True] by (elim bind_SomeE) auto
      have "log_reads ops l1 (fst (snd res))"
      proof (cases r)
        case (Inr ents)
        obtain go a where g: "f ents (snd la) = (go, a)" by (cases "f ents (snd la)")
        show ?thesis
        proof (cases "ents \<noteq> [] \<and> go")
          case True
          then have "scan sz ops (low + of_nat (length ents)) high page ctx f (l1, a) = Some res" using k Inr g by simp
          then show ?thesis using 1(1) by fastforce
        qed (use k Inr g in \<open>auto split: if_splits\<close>)
      qed (use k in auto)
      then show ?thesis using Slice_reads [OF s] by simp
    qed (use 1(2) in auto)
  qed
  then show ?thesis by simp
qed

section \<open>Messages other than appends and snapshots\<close>

definition other_messages :: "message list \<Rightarrow> message list" where
  "other_messages = filter (\<lambda>m. m_type m \<noteq> MSG_APPEND \<and> m_type m \<noteq> MSG_SNAPSHOT)"

lemma other_messages_simps [simp]:
  "other_messages [] = []" "other_messages (xs @ ys) = other_messages xs @ other_messages ys"
  "other_messages (m # ms) =
     (if m_type m \<noteq> MSG_APPEND \<and> m_type m \<noteq> MSG_SNAPSHOT then m # other_messages ms else other_messages ms)"
  by (simp_all add: other_messages_def)

lemma Core_Send_type: "RaftCore_Send m ms r = Some ms' \<Longrightarrow> \<exists>x. ms' = ms @ [x] \<and> m_type x = m_type m"
  by (auto simp: RaftCore_Send_def Let_def split: if_splits elim!: bind_SomeE)

lemma TryBatching_other:
  "RaftCore_TryBatching c to es ms pr = Some (b, ms', pr') \<Longrightarrow> other_messages ms' = other_messages ms"
  by (induction c to es ms pr arbitrary: b ms' pr' rule: RaftCore_TryBatching.induct)
    (auto simp: Let_def split: if_splits elim!: bind_SomeE)

section \<open>Sending entries or a snapshot\<close>

lemma PrepareSendSnapshot_shape:
  assumes "RaftCore_PrepareSendSnapshot E m pr to r = Some (b, m', pr', r')"
  shows "(\<exists>l. log_reads (env_storage E) (r_log r) l \<and> r' = r\<lparr>r_log := l\<rparr>) \<and> (b \<longrightarrow> m_type m' = MSG_SNAPSHOT)"
proof (cases "pr_recent_active pr")
  case False
  then show ?thesis using assms by (auto simp: RaftCore_PrepareSendSnapshot_def Let_def intro!: exI [of _ "r_log r"])
next
  case True
  then obtain res log where g: "RaftLog_GetSnapshot (env_storage E) (pr_pending_request_snapshot pr) to (r_log r) = Some (res, log)"
    and r': "r' = r\<lparr>r_log := log\<rparr>" "b \<Longrightarrow> m_type m' = MSG_SNAPSHOT"
    using assms by (auto simp: RaftCore_PrepareSendSnapshot_def Let_def split: sum.splits if_splits elim!: bind_SomeE)
  from GetSnapshot_reads [OF g] r' show ?thesis by blast
qed

lemma send_snapshot_shape:
  assumes "RaftCore_send_snapshot E to pr ms r = Some (b, pr', ms', r')"
  shows "(\<exists>l. log_reads (env_storage E) (r_log r) l \<and> r' = r\<lparr>r_log := l\<rparr>) \<and> other_messages ms' = other_messages ms"
  using assms
  by (auto simp: RaftCore_send_snapshot_def split: if_splits elim!: bind_SomeE
      dest!: PrepareSendSnapshot_shape Core_Send_type)

lemma send_entries_shape:
  assumes "RaftCore_send_entries to trm es pr ms r = Some (b, pr', ms', r')"
  shows "r' = r \<and> other_messages ms' = other_messages ms"
proof -
  obtain is_batched ms1 pr1 where bt: "(if r_batch_append r
      then RaftCore_TryBatching (rl_committed (r_log r)) to es ms pr else Some (False, ms, pr)) = Some (is_batched, ms1, pr1)"
    and rest: "(if is_batched then Some (True, pr1, ms1, r)
       else do { (m, pr) \<leftarrow> RaftCore_PrepareSendEntries (default_message\<lparr>m_to := to\<rparr>) pr1 trm es r;
                 messages \<leftarrow> RaftCore_Send m ms1 r; Some (True, pr, messages, r) }) = Some (b, pr', ms', r')"
    using assms unfolding RaftCore_send_entries_def by (elim bind_SomeE) auto
  have v: "other_messages ms1 = other_messages ms" using bt by (auto split: if_splits dest: TryBatching_other)
  show ?thesis
  proof (cases is_batched)
    case False
    then obtain m pr2 where m: "RaftCore_PrepareSendEntries (default_message\<lparr>m_to := to\<rparr>) pr1 trm es r = Some (m, pr2)"
      and s: "RaftCore_Send m ms1 r = Some ms'" "r' = r" using rest by (auto elim!: bind_SomeE)
    have "m_type m = MSG_APPEND" using m by (auto simp: RaftCore_PrepareSendEntries_def Let_def elim!: bind_SomeE)
    then show ?thesis using Core_Send_type [OF s(1)] s(2) v by auto
  qed (use rest v in simp)
qed

lemma MaybeSendAppend_cases [consumes 1, case_names paused snapshot keep entries late_snapshot]:
  assumes "RaftCore_MaybeSendAppend E to allow pr ms r = Some (b, pr', ms', r')"
  obtains "r' = r" "ms' = ms" "pr' = pr" "\<not> b"
    | "RaftCore_send_snapshot E to pr ms r = Some (b, pr', ms', r')"
    | l where "log_reads (env_storage E) (r_log r) l" "r' = r\<lparr>r_log := l\<rparr>" "ms' = ms" "pr' = pr" "\<not> b"
    | l trm es where "log_reads (env_storage E) (r_log r) l" "RaftCore_send_entries to trm es pr ms (r\<lparr>r_log := l\<rparr>) = Some (b, pr', ms', r')"
    | l where "log_reads (env_storage E) (r_log r) l" "RaftCore_send_snapshot E to pr ms (r\<lparr>r_log := l\<rparr>) = Some (b, pr', ms', r')"
proof -
  note eq = assms [unfolded RaftCore_MaybeSendAppend_def]
  consider (p) "Progress_IsPaused pr" | (q) "\<not> Progress_IsPaused pr" "pr_pending_request_snapshot pr \<noteq> kInvalidIndex"
    | (n) "\<not> Progress_IsPaused pr" "pr_pending_request_snapshot pr = kInvalidIndex" by blast
  then show ?thesis
  proof cases
    case p
    then have "Some (False, pr, ms, r) = Some (b, pr', ms', r')" using eq by simp
    then show ?thesis by (intro that(1)) simp_all
  next
    case q
    then have "RaftCore_send_snapshot E to pr ms r = Some (b, pr', ms', r')" using eq by simp
    then show ?thesis by (rule that(2))
  next
    case n
    note eq = eq [unfolded if_not_P [OF n(1)] n(2), simplified]
    obtain res log where g: "RaftLog_GetEntries (env_entry_bytes E) (env_storage E) (pr_next_idx pr)
           (Some (r_max_message_size r)) (SendAppendCtx to (r_term r) (\<not> allow)) (r_log r) = Some (res, log)"
      using eq by (elim bind_SomeE) auto
    note rd = GetEntries_reads [OF g]
    let ?r = "r\<lparr>r_log := log\<rparr>"
    show ?thesis
    proof (cases "\<not> allow \<and> (case res of Inl _ \<Rightarrow> True | Inr es \<Rightarrow> es = [])")
      case True
      then have "Some (False, pr, ms, ?r) = Some (b, pr', ms', r')" using eq g by simp
      then show ?thesis by (intro that(3) [OF rd]) simp_all
    next
      case sent: False
      have eq: "do { term_r \<leftarrow> RaftLog_Term (env_storage E) (pr_next_idx pr - 1) (r_log ?r);
          case res of
            Inr es \<Rightarrow> (case term_r of Inr trm \<Rightarrow> RaftCore_send_entries to trm es pr ms ?r
                       | Inl _ \<Rightarrow> RaftCore_send_snapshot E to pr ms ?r)
          | Inl err \<Rightarrow> if err = StorageError LogTemporarilyUnavailable then Some (False, pr, ms, ?r)
              else RaftCore_send_snapshot E to pr ms ?r } = Some (b, pr', ms', r')"
        using eq [unfolded g] sent by (simp add: Let_def)
      then obtain term_r :: "u64 result" where r: "(case res of
            Inr es \<Rightarrow> (case term_r of Inr trm \<Rightarrow> RaftCore_send_entries to trm es pr ms ?r
                       | Inl _ \<Rightarrow> RaftCore_send_snapshot E to pr ms ?r)
          | Inl err \<Rightarrow> if err = StorageError LogTemporarilyUnavailable then Some (False, pr, ms, ?r)
              else RaftCore_send_snapshot E to pr ms ?r) = Some (b, pr', ms', r')"
        by (elim bind_SomeE) blast
      show ?thesis
      proof (cases res)
        case (Inl err)
        show ?thesis
        proof (cases "err = StorageError LogTemporarilyUnavailable")
          case True
          with r Inl have "Some (False, pr, ms, ?r) = Some (b, pr', ms', r')" by simp
          then show ?thesis by (intro that(3) [OF rd]) simp_all
        next
          case False
          with r Inl have "RaftCore_send_snapshot E to pr ms ?r = Some (b, pr', ms', r')" by simp
          then show ?thesis by (rule that(5) [OF rd])
        qed
      next
        case (Inr es)
        show ?thesis
        proof (cases term_r)
          case (Inl x)
          with r Inr have "RaftCore_send_snapshot E to pr ms ?r = Some (b, pr', ms', r')" by simp
          then show ?thesis by (rule that(5) [OF rd])
        next
          case (Inr trm)
          with r \<open>res = Inr es\<close> have "RaftCore_send_entries to trm es pr ms ?r = Some (b, pr', ms', r')" by simp
          then show ?thesis by (rule that(4) [OF rd])
        qed
      qed
    qed
  qed
qed

lemma MaybeSendAppend_shape:
  assumes "RaftCore_MaybeSendAppend E to allow pr ms r = Some (b, pr', ms', r')"
  shows "(\<exists>l. log_reads (env_storage E) (r_log r) l \<and> r' = r\<lparr>r_log := l\<rparr>) \<and> other_messages ms' = other_messages ms"
  using assms
proof (cases rule: MaybeSendAppend_cases)
  case paused
  then show ?thesis by (auto intro!: exI [of _ "r_log r"])
next
  case (late_snapshot l)
  then show ?thesis using send_snapshot_shape [OF late_snapshot(2)] by (auto intro: rtranclp_trans)
qed (auto dest!: send_entries_shape send_snapshot_shape)

lemma Aggressively_shape:
  assumes "RaftCore_SendAppendAggressively E to pr ms r = Some (pr', ms', r')"
  shows "(\<exists>l. log_reads (env_storage E) (r_log r) l \<and> r' = r\<lparr>r_log := l\<rparr>) \<and> other_messages ms' = other_messages ms"
proof -
  have "(\<lambda>E to pr ms r res. (\<exists>l. log_reads (env_storage E) (r_log r) l \<and> snd (snd res) = r\<lparr>r_log := l\<rparr>) \<and>
           other_messages (fst (snd res)) = other_messages ms) E to pr ms r (pr', ms', r')"
  proof (rule RaftCore_SendAppendAggressively.raw_induct [OF _ assms])
    fix f E to pr ms r res
    assume IH: "\<And>E to pr ms r res. f E to pr ms r = Some res \<Longrightarrow>
        (\<exists>l. log_reads (env_storage E) (r_log r) l \<and> snd (snd res) = r\<lparr>r_log := l\<rparr>) \<and> other_messages (fst (snd res)) = other_messages ms"
      and eq: "RaftCore_MaybeSendAppend E to False pr ms r \<bind>
          (\<lambda>(sent, pr, messages, r). if sent then f E to pr messages r else Some (pr, messages, r)) = Some res"
    from eq obtain sent pr1 ms1 r1 where m: "RaftCore_MaybeSendAppend E to False pr ms r = Some (sent, pr1, ms1, r1)"
      and k: "(if sent then f E to pr1 ms1 r1 else Some (pr1, ms1, r1)) = Some res"
      by (elim bind_SomeE) auto
    show "(\<exists>l. log_reads (env_storage E) (r_log r) l \<and> snd (snd res) = r\<lparr>r_log := l\<rparr>) \<and> other_messages (fst (snd res)) = other_messages ms"
    proof (cases sent)
      case True
      obtain l where l: "log_reads (env_storage E) (r_log r) l" "r1 = r\<lparr>r_log := l\<rparr>" and o: "other_messages ms1 = other_messages ms"
        using MaybeSendAppend_shape [OF m] by blast
      obtain l' where "log_reads (env_storage E) l l'" "snd (snd res) = r\<lparr>r_log := l'\<rparr>" "other_messages (fst (snd res)) = other_messages ms"
        using IH [of E to pr1 ms1 r1 res] k True l(2) o by auto
      then show ?thesis using rtranclp_trans [OF l(1)] by blast
    next
      case False
      then have "res = (pr1, ms1, r1)" using k by simp
      then show ?thesis using MaybeSendAppend_shape [OF m] by simp
    qed
  qed
  then show ?thesis by simp
qed

end
