(* ===== verification/Election.thy ===== *)
theory Election
  imports Scenario Sending
begin

text \<open>
  What a node contributes to the elections of its group, as an abstract machine. The view keeps the
  term, the vote, the role, the votes received, the voters and the vote responses sent; the machine
  has one step per thing that can happen to it while a message is handled. The theory shows the two
  facts the machine is built for: a node votes at most once per term, and nobody becomes leader
  without a winning set of votes.
\<close>

section \<open>The abstract machine\<close>

record election =
  ev_term :: u64
  ev_vote :: u64
  ev_id :: u64
  ev_state :: StateRole
  ev_votes :: "(u64 \<times> bool) list"
  ev_voters :: JointConfiguration
  ev_out :: "message list"

definition vote_responses :: "message list \<Rightarrow> message list" where
  "vote_responses = filter (\<lambda>m. m_type m = MSG_REQUEST_VOTE_RESPONSE)"

inductive election_step :: "message \<Rightarrow> JointConfiguration set \<Rightarrow> election \<Rightarrow> election \<Rightarrow> bool" for m J where
  follow: "ev_term s \<le> t \<Longrightarrow>
     election_step m J s (s\<lparr>ev_term := t, ev_vote := (if t = ev_term s then ev_vote s else kInvalidId),
                          ev_state := Follower, ev_votes := []\<rparr>)"
| pre_candidate: "ev_state s \<noteq> Leader \<Longrightarrow> election_step m J s (s\<lparr>ev_state := PreCandidate, ev_votes := []\<rparr>)"
| candidate: "ev_state s \<noteq> Leader \<Longrightarrow> ev_term s < u64_max \<Longrightarrow>
     election_step m J s (s\<lparr>ev_term := ev_term s + 1, ev_vote := ev_id s, ev_state := Candidate, ev_votes := []\<rparr>)"
| own_vote: "ev_state s = Candidate \<Longrightarrow> ev_vote s = ev_id s \<Longrightarrow>
     election_step m J s (s\<lparr>ev_votes := Map_emplace (ev_id s) True (ev_votes s)\<rparr>)"
| count_vote: "ev_state s = Candidate \<Longrightarrow> m_type m = MSG_REQUEST_VOTE_RESPONSE \<Longrightarrow>
     m_term m = 0 \<or> m_term m = ev_term s \<Longrightarrow>
     election_step m J s (s\<lparr>ev_votes := Map_emplace (m_from m) (\<not> m_reject m) (ev_votes s)\<rparr>)"
| other_votes: "ev_state s \<noteq> Candidate \<Longrightarrow> election_step m J s (s\<lparr>ev_votes := vs\<rparr>)"
| win: "ev_state s = Candidate \<Longrightarrow> JointConfiguration_GetVoteResult (map_of (ev_votes s)) (ev_voters s) = Won \<Longrightarrow>
     election_step m J s (s\<lparr>ev_state := Leader, ev_votes := []\<rparr>)"
| grant: "m_type m = MSG_REQUEST_VOTE \<Longrightarrow> m_type x = MSG_REQUEST_VOTE_RESPONSE \<Longrightarrow> m_term x = ev_term s \<Longrightarrow>
     m_term x \<noteq> 0 \<Longrightarrow> m_from x = ev_id s \<Longrightarrow> m_to x = m_from m \<Longrightarrow> ev_vote s = m_from m \<or> ev_vote s = kInvalidId \<Longrightarrow>
     election_step m J s (s\<lparr>ev_vote := m_from m, ev_out := ev_out s @ [x]\<rparr>)"
| refuse: "m_type x = MSG_REQUEST_VOTE_RESPONSE \<Longrightarrow> m_reject x \<Longrightarrow>
     election_step m J s (s\<lparr>ev_out := ev_out s @ [x]\<rparr>)"
| reconfigure: "vs \<in> J \<Longrightarrow> election_step m J s (s\<lparr>ev_voters := vs\<rparr>)"

inductive_cases election_stepE: "election_step m J s s'"

text \<open>The view of a node.\<close>

definition election_view :: "'s Raft \<Rightarrow> election" where
  "election_view r =
     \<lparr>ev_term = r_term r, ev_vote = r_vote r, ev_id = r_id r, ev_state = r_state r,
      ev_votes = pt_votes (r_progress_tracker r), ev_voters = tc_voters (r_conf r),
      ev_out = vote_responses (r_messages r)\<rparr>"

lemma election_view_sel [simp]:
  "ev_term (election_view r) = r_term r" "ev_vote (election_view r) = r_vote r"
  "ev_id (election_view r) = r_id r" "ev_state (election_view r) = r_state r"
  "ev_votes (election_view r) = pt_votes (r_progress_tracker r)"
  "ev_voters (election_view r) = tc_voters (r_conf r)"
  "ev_out (election_view r) = vote_responses (r_messages r)"
  by (simp_all add: election_view_def)

lemma election_view_frame [simp]:
  "election_view (r\<lparr>r_log := x1\<rparr>) = election_view r"
  "election_view (r\<lparr>r_read_states := x2\<rparr>) = election_view r"
  "election_view (r\<lparr>r_pending_request_snapshot := x3\<rparr>) = election_view r"
  "election_view (r\<lparr>r_promotable := x4\<rparr>) = election_view r"
  "election_view (r\<lparr>r_leader_id := x5\<rparr>) = election_view r"
  "election_view (r\<lparr>r_lead_transferee := x6\<rparr>) = election_view r"
  "election_view (r\<lparr>r_pending_conf_index := x7\<rparr>) = election_view r"
  "election_view (r\<lparr>r_read_only := x8\<rparr>) = election_view r"
  "election_view (r\<lparr>r_election_elapsed := x9\<rparr>) = election_view r"
  "election_view (r\<lparr>r_heartbeat_elapsed := x10\<rparr>) = election_view r"
  "election_view (r\<lparr>r_randomized_election_timeout := x11\<rparr>) = election_view r"
  "election_view (r\<lparr>r_uncommitted_state := x12\<rparr>) = election_view r"
  "election_view (r\<lparr>r_draws := x13\<rparr>) = election_view r"
  "election_view (r\<lparr>r_priority := x14\<rparr>) = election_view r"
  "election_view (r_put peer pr r) = election_view r"
  by (simp_all add: election_view_def)

text \<open>Steps of the machine that carry a node from one state to another.\<close>

abbreviation elects :: "message \<Rightarrow> JointConfiguration set \<Rightarrow> 's Raft \<Rightarrow> 's Raft \<Rightarrow> bool" where
  "elects m J r r' \<equiv> (election_step m J)\<^sup>*\<^sup>* (election_view r) (election_view r')"

lemma elects_same: "election_view r' = election_view r \<Longrightarrow> elects m J r r'"
  by simp

lemma elects_trans: "elects m J r r' \<Longrightarrow> elects m J r' r'' \<Longrightarrow> elects m J r r''"
  by (rule rtranclp_trans)

section \<open>Operations that do not take part in elections\<close>

lemma vote_responses_simps [simp]:
  "vote_responses [] = []" "vote_responses (xs @ ys) = vote_responses xs @ vote_responses ys"
  "vote_responses (m # ms) =
     (if m_type m = MSG_REQUEST_VOTE_RESPONSE then m # vote_responses ms else vote_responses ms)"
  by (simp_all add: vote_responses_def)

lemma Core_Send_votes:
  assumes "RaftCore_Send m ms r = Some ms'"
  shows "\<exists>x. ms' = ms @ [x] \<and> m_type x = m_type m \<and> m_to x = m_to m \<and> m_reject x = m_reject m \<and>
    m_from x = (if m_from m = kInvalidId then r_id r else m_from m) \<and>
    (m_type m \<in> {MSG_REQUEST_VOTE_RESPONSE, MSG_REQUEST_PRE_VOTE_RESPONSE, MSG_REQUEST_VOTE, MSG_REQUEST_PRE_VOTE} \<longrightarrow>
       m_term x = m_term m \<and> m_term m \<noteq> 0)"
  using assms by (auto simp: RaftCore_Send_def Let_def split: if_splits elim!: bind_SomeE)

lemma Core_Send_other:
  "RaftCore_Send m ms r = Some ms' \<Longrightarrow> m_type m \<noteq> MSG_REQUEST_VOTE_RESPONSE \<Longrightarrow>
     vote_responses ms' = vote_responses ms"
  by (auto dest!: Core_Send_votes)

lemma Send_quiet:
  assumes "Raft_Send m r = Some r'" "m_type m \<noteq> MSG_REQUEST_VOTE_RESPONSE"
  shows "election_view r' = election_view r"
  using assms by (auto simp: Raft_Send_def election_view_def elim!: bind_SomeE dest!: Core_Send_votes)

lemma other_votes:
  assumes "other_messages ms' = other_messages ms"
  shows "vote_responses ms' = vote_responses ms"
proof -
  have "vote_responses xs = filter (\<lambda>m. m_type m = MSG_REQUEST_VOTE_RESPONSE) (other_messages xs)" for xs
    by (auto simp: vote_responses_def other_messages_def intro!: filter_cong)
  then show ?thesis using assms by simp
qed

text \<open>An operation that leaves the view of the node as it is.\<close>

abbreviation quiet :: "'s Raft \<Rightarrow> 's Raft \<Rightarrow> bool" where
  "quiet r r' \<equiv> election_view r' = election_view r"

lemma quiet_parts:
  assumes "quiet r r'"
  shows "r_term r' = r_term r" "r_vote r' = r_vote r" "r_id r' = r_id r" "r_state r' = r_state r"
    "pt_votes (r_progress_tracker r') = pt_votes (r_progress_tracker r)" "tc_voters (r_conf r') = tc_voters (r_conf r)"
  using assms by (simp_all add: election_view_def)

lemma quiet_put_messages:
  "vote_responses ms = vote_responses (r_messages r) \<Longrightarrow> quiet r (r_put to pr (r\<lparr>r_log := l, r_messages := ms\<rparr>))"
  by (simp add: election_view_def)

lemma SendAppend_to_quiet: "Raft_SendAppend_to E to pr r = Some r' \<Longrightarrow> quiet r r'"
  by (auto simp: Raft_SendAppend_to_def RaftCore_SendAppend_def election_view_def
      elim!: bind_SomeE
      dest!: MaybeSendAppend_shape other_votes)

lemma MaybeSendAppend_to_quiet: "Raft_MaybeSendAppend_to E to allow pr r = Some r' \<Longrightarrow> quiet r r'"
  by (auto simp: Raft_MaybeSendAppend_to_def election_view_def elim!: bind_SomeE
      dest!: MaybeSendAppend_shape other_votes)

lemma SendAppend_quiet: "Raft_SendAppend E to r = Some r' \<Longrightarrow> quiet r r'"
  by (auto simp: Raft_SendAppend_def elim!: bind_SomeE dest: SendAppend_to_quiet)

lemma SendAppendAggressively_quiet: "Raft_SendAppendAggressively E to r = Some r' \<Longrightarrow> quiet r r'"
  by (auto simp: Raft_SendAppendAggressively_def election_view_def elim!: bind_SomeE
      dest!: Aggressively_shape other_votes)

lemma each_peer_quiet:
  assumes "\<And>peer pr r r'. f peer pr r = Some r' \<Longrightarrow> quiet r r'"
  shows "each_peer f peers r = Some r' \<Longrightarrow> quiet r r'"
  by (induction peers arbitrary: r) (auto split: if_splits elim!: bind_SomeE dest!: assms)

lemma BroadcastAppend_quiet: "Raft_BroadcastAppend E r = Some r' \<Longrightarrow> quiet r r'"
  unfolding Raft_BroadcastAppend_def by (rule each_peer_quiet) (rule SendAppend_to_quiet)

lemma SendHeartbeat_quiet: "Raft_SendHeartbeat to pr ctx r = Some r' \<Longrightarrow> quiet r r'"
  unfolding Raft_SendHeartbeat_def by (erule Send_quiet) simp

lemma BroadcastHeartbeat_ctx_quiet: "Raft_BroadcastHeartbeat_ctx ctx r = Some r' \<Longrightarrow> quiet r r'"
  unfolding Raft_BroadcastHeartbeat_ctx_def by (rule each_peer_quiet) (rule SendHeartbeat_quiet)

lemma BroadcastHeartbeat_quiet: "Raft_BroadcastHeartbeat r = Some r' \<Longrightarrow> quiet r r'"
  unfolding Raft_BroadcastHeartbeat_def by (rule BroadcastHeartbeat_ctx_quiet)

lemma SendTimeoutNow_quiet: "Raft_SendTimeoutNow to r = Some r' \<Longrightarrow> quiet r r'"
  unfolding Raft_SendTimeoutNow_def by (erule Send_quiet) simp

lemma SendRequestSnapshot_quiet: "Raft_SendRequestSnapshot E r = Some r' \<Longrightarrow> quiet r r'"
  by (auto simp: Raft_SendRequestSnapshot_def elim!: bind_SomeE dest!: Send_quiet)

lemma AppendEntry_quiet: "Raft_AppendEntry E es r = Some (b, r') \<Longrightarrow> quiet r r'"
  by (auto simp: Raft_AppendEntry_def Let_def split: prod.splits if_splits elim!: bind_SomeE)

lemma MaybeCommit_quiet: "Raft_MaybeCommit E r = Some (b, r') \<Longrightarrow> quiet r r'"
  by (auto simp: Raft_MaybeCommit_def Let_def split: prod.splits if_splits elim!: bind_SomeE)

lemma HasUnapplied_quiet: "Raft_HasUnappliedConfChanges E low high ctx r = Some (b, r') \<Longrightarrow> quiet r r'"
  by (auto simp: Raft_HasUnappliedConfChanges_def split: if_splits elim!: bind_SomeE)

lemma request_votes_quiet:
  assumes "\<And>peer r m. request peer r = Some m \<Longrightarrow> m_type m \<noteq> MSG_REQUEST_VOTE_RESPONSE"
  shows "request_votes request peers r = Some r' \<Longrightarrow> quiet r r'"
  by (induction peers arbitrary: r) (auto split: if_splits elim!: bind_SomeE dest!: Send_quiet dest: assms)

lemma answer_read_quiet: "Raft_answer_read req index r = Some r' \<Longrightarrow> quiet r r'"
  by (auto simp: Raft_answer_read_def Raft_HandleReadyReadIndex_def Let_def split: if_splits dest!: Send_quiet)

lemma answer_reads_quiet: "Raft_answer_reads rss r = Some r' \<Longrightarrow> quiet r r'"
  by (induction rss arbitrary: r) (auto elim!: bind_SomeE dest!: answer_read_quiet)

lemma recv_read_ack_quiet: "Raft_recv_read_ack peer ctx r = Some r' \<Longrightarrow> quiet r r'"
  by (auto simp: Raft_recv_read_ack_def Let_def split: prod.splits option.splits if_splits
      elim!: bind_SomeE dest!: answer_reads_quiet)

lemmas send_quiet = SendAppend_to_quiet MaybeSendAppend_to_quiet SendAppend_quiet SendAppendAggressively_quiet
  BroadcastAppend_quiet BroadcastHeartbeat_ctx_quiet BroadcastHeartbeat_quiet SendTimeoutNow_quiet
  SendRequestSnapshot_quiet AppendEntry_quiet MaybeCommit_quiet HasUnapplied_quiet answer_read_quiet
  recv_read_ack_quiet

lemma each_MaybeSendAppend_quiet:
  "each_peer (\<lambda>to. Raft_MaybeSendAppend_to E to allow) peers r = Some r' \<Longrightarrow> quiet r r'"
  by (rule each_peer_quiet) (rule MaybeSendAppend_to_quiet)

lemma PostConfChange_quiet:
  assumes "Raft_PostConfChange E r = Some (cs, r')"
  shows "quiet r r'"
proof (cases "r_state r \<noteq> Leader \<or> cs_voters (TrackerConfiguration_ToConfState (r_conf r)) = [] \<or>
    \<not> JointConfiguration_Contains (r_id r) (tc_voters (r_conf r))")
  case True
  then show ?thesis using assms by (auto simp: Raft_PostConfChange_def Let_def split: if_splits)
next
  case False
  then obtain c r1 r2 r3 where "Raft_MaybeCommit E (r\<lparr>r_promotable := True\<rparr>) = Some (c, r1)"
    and "(if c then Raft_BroadcastAppend E r1
          else each_peer (\<lambda>to. Raft_MaybeSendAppend_to E to False) (Raft_peers r1) r1) = Some r2"
    and "(case ReadOnly_LastPendingRequestCtx (r_read_only r2) of
            Some ctx \<Rightarrow> Raft_recv_read_ack (r_id r2) ctx r2 | None \<Rightarrow> Some r2) = Some r3"
    and r': "r' = (case r_lead_transferee r3 of
                 Some transferee \<Rightarrow>
                   if JointConfiguration_Contains transferee (tc_voters (r_conf r3)) then r3
                   else Raft_AbortLeaderTransfer r3
               | None \<Rightarrow> r3)"
    using assms by (auto simp: Raft_PostConfChange_def Let_def elim!: bind_SomeE)
  then have "quiet (r\<lparr>r_promotable := True\<rparr>) r1" "quiet r1 r2" "quiet r2 r3"
    by (auto split: if_splits option.splits dest: send_quiet each_MaybeSendAppend_quiet)
  moreover have "quiet r3 r'" by (simp add: r' Raft_AbortLeaderTransfer_def split: option.split)
  ultimately show ?thesis by simp
qed

lemma ApplyConf_elects:
  assumes "tc_voters cfg \<in> J"
  shows "elects m J r (r\<lparr>r_progress_tracker := ProgressTracker_ApplyConf cfg ch i (r_progress_tracker r)\<rparr>)"
proof -
  let ?r = "r\<lparr>r_progress_tracker := ProgressTracker_ApplyConf cfg ch i (r_progress_tracker r)\<rparr>"
  have "election_view ?r = (election_view r)\<lparr>ev_voters := tc_voters cfg\<rparr>"
    by (simp add: election_view_def ProgressTracker_ApplyConf_def)
  then show ?thesis by (simp only: election_step.reconfigure [OF assms] r_into_rtranclp)
qed

lemma ApplyConf_voters:
  "quiet (r\<lparr>r_progress_tracker := ProgressTracker_ApplyConf cfg ch i (r_progress_tracker r)\<rparr>) r' \<Longrightarrow>
     tc_voters cfg = tc_voters (r_conf r')"
  by (drule quiet_parts(6)) (simp add: ProgressTracker_ApplyConf_def)

lemma ApplyConfChange_elects:
  assumes "Raft_ApplyConfChange E cc r = Some (res, r')" "tc_voters (r_conf r') \<in> J"
  shows "elects m J r r'"
proof -
  consider "r' = r" | cfg ch i cs where
    "Raft_PostConfChange E (r\<lparr>r_progress_tracker := ProgressTracker_ApplyConf cfg ch i (r_progress_tracker r)\<rparr>) = Some (cs, r')"
    using assms(1) by (auto simp: Raft_ApplyConfChange_def split: sum.splits prod.splits elim!: bind_SomeE)
  then show ?thesis
  proof cases
    case 2
    note q = PostConfChange_quiet [OF 2]
    have "tc_voters cfg \<in> J" using assms(2) by (simp only: ApplyConf_voters [OF q])
    then show ?thesis unfolding q by (rule ApplyConf_elects)
  qed simp
qed

lemma CommitApply_quiet: "Raft_CommitApplyInternal E a skip r = Some r' \<Longrightarrow> quiet r r'"
  by (auto simp: Raft_CommitApplyInternal_def Let_def split: if_splits elim!: bind_SomeE dest!: AppendEntry_quiet)

lemma OnPersistEntries_quiet:
  assumes "Raft_OnPersistEntries E i t r = Some r'"
  shows "quiet r r'"
proof -
  obtain u log where p: "RaftLog_MaybePersist (env_storage E) i t (r_log r) = Some (u, log)"
    using assms by (auto simp: Raft_OnPersistEntries_def elim!: bind_SomeE)
  show ?thesis
    using assms p by (auto simp: Raft_OnPersistEntries_def Let_def split: if_splits prod.splits
        elim!: bind_SomeE dest!: MaybeCommit_quiet BroadcastAppend_quiet)
qed

lemma OnPersistSnapshot_quiet: "Raft_OnPersistSnapshot i r = Some r' \<Longrightarrow> quiet r r'"
  by (auto simp: Raft_OnPersistSnapshot_def elim!: bind_SomeE)

lemma HandleAppendEntries_quiet: "Raft_HandleAppendEntries E m r = Some r' \<Longrightarrow> quiet r r'"
  by (auto simp: Raft_HandleAppendEntries_def Let_def split: if_splits elim!: bind_SomeE
      dest!: Send_quiet SendRequestSnapshot_quiet)

lemma HandleHeartbeat_quiet: "Raft_HandleHeartbeat E m r = Some r' \<Longrightarrow> quiet r r'"
  by (auto simp: Raft_HandleHeartbeat_def Let_def split: if_splits elim!: bind_SomeE
      dest!: Send_quiet SendRequestSnapshot_quiet)

lemma HandleHeartbeatResponse_quiet: "Raft_HandleHeartbeatResponse E m r = Some r' \<Longrightarrow> quiet r r'"
  by (auto simp: Raft_HandleHeartbeatResponse_def Let_def split: if_splits option.splits elim!: bind_SomeE
      dest!: SendAppend_to_quiet recv_read_ack_quiet)

lemma HandleSnapshotStatus_quiet: "quiet r (Raft_HandleSnapshotStatus m r)"
  by (simp add: Raft_HandleSnapshotStatus_def split: option.split)

lemma HandleUnreachable_quiet: "quiet r (Raft_HandleUnreachable m r)"
  by (simp add: Raft_HandleUnreachable_def split: option.split)

lemma HandleTransferLeader_quiet: "Raft_HandleTransferLeader E m r = Some r' \<Longrightarrow> quiet r r'"
  by (auto simp: Raft_HandleTransferLeader_def Let_def Raft_AbortLeaderTransfer_def split: if_splits option.splits
      elim!: bind_SomeE dest!: SendAppend_to_quiet SendTimeoutNow_quiet)

lemma CheckQuorumActive_quiet: "Raft_CheckQuorumActive r = (b, r') \<Longrightarrow> quiet r r'"
  by (auto simp: Raft_CheckQuorumActive_def ProgressTracker_QuorumRecentlyActive_def election_view_def Let_def
      split: prod.splits)

lemma propose_quiet: "Raft_propose E es r = Some (res, r') \<Longrightarrow> quiet r r'"
  by (auto simp: Raft_propose_def Let_def split: if_splits option.splits elim!: bind_SomeE
      dest!: AppendEntry_quiet BroadcastAppend_quiet)

lemma read_index_quiet: "Raft_read_index E m r = Some r' \<Longrightarrow> quiet r r'"
  by (auto simp: Raft_read_index_def split: if_splits list.splits ReadOnlyOption.splits elim!: bind_SomeE
      dest!: answer_read_quiet BroadcastHeartbeat_ctx_quiet)

lemma HandleAppendResponse_quiet: "Raft_HandleAppendResponse E m r = Some r' \<Longrightarrow> quiet r r'"
  by (auto simp: Raft_HandleAppendResponse_def Let_def split: if_splits option.splits prod.splits
      elim!: bind_SomeE dest!: MaybeCommit_quiet BroadcastAppend_quiet SendAppend_quiet
        SendAppendAggressively_quiet SendTimeoutNow_quiet)

section \<open>Changes of role\<close>

lemma u64_max_pos [simp]: "0 < u64_max" "1 < u64_max"
  by (simp_all add: u64_max_def word_gt_0) code_simp

lemma term_succ: "t < u64_max \<Longrightarrow> t < t + 1"
proof -
  assume "t < u64_max"
  moreover have "unat u64_max = 2 ^ 64 - 1" by (simp add: u64_max_def unsigned_minus_1_eq_mask mask_eq_exp_minus_1)
  ultimately show ?thesis by (simp add: word_less_nat_alt unat_word_ariths)
qed

lemma Reset_view:
  "Raft_Reset E t r = Some r' \<Longrightarrow> election_view r' =
     (election_view r)\<lparr>ev_term := t, ev_vote := (if t = r_term r then r_vote r else kInvalidId), ev_votes := []\<rparr>"
  by (auto simp: Raft_Reset_def Let_def Raft_ResetRandomizedElectionTimeout_def Raft_AbortLeaderTransfer_def
      ProgressTracker_ResetVotes_def election_view_def elim!: bind_SomeE)

lemma BecomeFollower_view:
  "Raft_BecomeFollower E t l r = Some r' \<Longrightarrow> election_view r' =
     (election_view r)\<lparr>ev_term := t, ev_vote := (if t = r_term r then r_vote r else kInvalidId),
        ev_state := Follower, ev_votes := []\<rparr>"
  by (auto simp: Raft_BecomeFollower_def Let_def election_view_def elim!: bind_SomeE dest!: Reset_view)

lemma BecomeFollower_elects:
  assumes "Raft_BecomeFollower E t l r = Some r'" "r_term r \<le> t"
  shows "elects m J r r'"
  using election_step.follow [of "election_view r" t m] assms(2)
  by (simp add: BecomeFollower_view [OF assms(1)] r_into_rtranclp cong: if_cong split del: if_split)

lemma BecomePreCandidate_elects:
  assumes "Raft_BecomePreCandidate r = Some r'"
  shows "elects m J r r'"
proof -
  have "r_state r \<noteq> Leader" and "election_view r' = (election_view r)\<lparr>ev_state := PreCandidate, ev_votes := []\<rparr>"
    using assms by (auto simp: Raft_BecomePreCandidate_def election_view_def ProgressTracker_ResetVotes_def
        elim!: bind_SomeE)
  then show ?thesis using election_step.pre_candidate [of "election_view r" m] by (simp add: r_into_rtranclp)
qed

lemma BecomeCandidate_view:
  "Raft_BecomeCandidate E r = Some r' \<Longrightarrow> r_state r \<noteq> Leader \<and> election_view r' =
     (election_view r)\<lparr>ev_term := r_term r + 1, ev_vote := r_id r, ev_state := Candidate, ev_votes := []\<rparr>"
  by (auto simp: Raft_BecomeCandidate_def election_view_def elim!: bind_SomeE dest!: Reset_view)

lemma BecomeCandidate_elects:
  assumes "Raft_BecomeCandidate E r = Some r'" "r_term r < u64_max"
  shows "elects m J r r'"
  using election_step.candidate [of "election_view r" m] BecomeCandidate_view [OF assms(1)] assms(2)
  by (simp add: r_into_rtranclp)

lemma BecomeLeader_view:
  "Raft_BecomeLeader E r = Some r' \<Longrightarrow> election_view r' = (election_view r)\<lparr>ev_state := Leader, ev_votes := []\<rparr>"
  by (auto simp: Raft_BecomeLeader_def Let_def election_view_def elim!: bind_SomeE dest!: Reset_view AppendEntry_quiet)

lemma CountVotes_result:
  "snd (snd (ProgressTracker_CountVotes t)) = JointConfiguration_GetVoteResult (map_of (pt_votes t)) (tc_voters (pt_conf t))"
  by (simp add: ProgressTracker_CountVotes_def ProgressTracker_GetVoteResult_def Let_def)

lemma BecomeLeader_elects:
  assumes "Raft_BecomeLeader E r = Some r'" "r_state r = Candidate"
    "snd (snd (ProgressTracker_CountVotes (r_progress_tracker r))) = Won"
  shows "elects m J r r'"
  using election_step.win [of "election_view r" m] assms(2,3)
  by (simp add: BecomeLeader_view [OF assms(1)] CountVotes_result r_into_rtranclp)

abbreviation poll_record :: "u64 \<Rightarrow> bool \<Rightarrow> 's Raft \<Rightarrow> 's Raft" where
  "poll_record from vote r \<equiv> r\<lparr>r_progress_tracker := ProgressTracker_RecordVote from vote (r_progress_tracker r)\<rparr>"

lemma poll_record_view:
  "election_view (poll_record from vote r) =
     (election_view r)\<lparr>ev_votes := Map_emplace from vote (pt_votes (r_progress_tracker r))\<rparr>"
  by (simp add: election_view_def ProgressTracker_RecordVote_def)

declare Raft_Poll.simps [simp del] Raft_Campaign.simps [simp del]

lemma Poll_candidate:
  assumes "Raft_Poll E from vote r = Some (res, r')" "r_state r = Candidate" "elects m J r (poll_record from vote r)"
  shows "elects m J r r'"
proof -
  let ?r = "poll_record from vote r"
  consider "r' = ?r" | "Raft_BecomeFollower E (r_term r) kInvalidId ?r = Some r'"
    | r1 where "Raft_BecomeLeader E ?r = Some r1" "Raft_BroadcastAppend E r1 = Some r'"
      "snd (snd (ProgressTracker_CountVotes (r_progress_tracker ?r))) = Won"
    using assms(1,2) by (auto simp: Raft_Poll.simps Let_def split: VoteResult.splits elim!: bind_SomeE)
  then have "elects m J ?r r'"
  proof cases
    case 2
    then show ?thesis by (rule BecomeFollower_elects) simp
  next
    case 3
    have "elects m J ?r r1" using 3(1) _ 3(3) by (rule BecomeLeader_elects) (simp add: assms(2))
    then show ?thesis using BroadcastAppend_quiet [OF 3(2)] by simp
  qed simp
  then show ?thesis using assms(3) by (rule elects_trans [rotated])
qed

text \<open>What follows the own vote of a campaign.\<close>

lemma campaign_requests_quiet:
  assumes "do { (commit, commit_term) \<leftarrow> RaftLog_CommitInfo (env_storage E) (r_log r);
      request_votes (vote_request E vote_msg trm ct commit commit_term) peers r } = Some r'"
    "vote_msg \<noteq> MSG_REQUEST_VOTE_RESPONSE"
  shows "quiet r r'"
proof -
  obtain c ct' where "request_votes (vote_request E vote_msg trm ct c ct') peers r = Some r'"
    using assms(1) by (elim bind_SomeE) auto
  moreover have "m_type m = vote_msg" if "vote_request E vote_msg trm ct c ct' peer r = Some m" for peer r m
    using that by (auto simp: vote_request_def elim!: bind_SomeE)
  ultimately show ?thesis using assms(2) by (metis request_votes_quiet)
qed

lemma Campaign_election:
  assumes "Raft_Campaign E ct r = Some r'" "ct \<noteq> kCampaignPreElection" "r_term r < u64_max"
  shows "elects m J r r'"
proof -
  obtain r1 res r2 where c: "Raft_BecomeCandidate E r = Some r1" and p: "Raft_Poll E (r_id r1) True r1 = Some (res, r2)"
    and t: "(if res = Won then Some r2 else do { (commit, commit_term) \<leftarrow> RaftLog_CommitInfo (env_storage E) (r_log r2);
         request_votes (vote_request E MSG_REQUEST_VOTE (r_term r1) ct commit commit_term)
           (JointConfiguration_IDs (tc_voters (r_conf r2))) r2 }) = Some r'"
    using assms(1,2) by (auto simp: Raft_Campaign.simps elim!: bind_SomeE split: if_splits)
  have v: "r_state r1 = Candidate" "r_vote r1 = r_id r1"
    using BecomeCandidate_view [OF c] by (auto simp: election_view_def)
  have "elects m J r r1" using c assms(3) by (rule BecomeCandidate_elects)
  moreover have "elects m J r1 r2"
    using p v(1) by (rule Poll_candidate)
      (use election_step.own_vote [of "election_view r1" m] v in \<open>simp add: poll_record_view r_into_rtranclp\<close>)
  moreover have "quiet r2 r'" using t by (auto split: if_splits dest: campaign_requests_quiet)
  ultimately show ?thesis by (metis elects_trans)
qed

lemma other_votes_elects: "r_state r \<noteq> Candidate \<Longrightarrow> elects m J r (poll_record from vote r)"
  using election_step.other_votes [of "election_view r" m] by (simp add: poll_record_view r_into_rtranclp)

lemma Poll_pre_candidate:
  assumes "Raft_Poll E from vote r = Some (res, r')" "r_state r = PreCandidate" "r_term r < u64_max"
  shows "elects m J r r'"
proof -
  let ?r = "poll_record from vote r"
  consider "r' = ?r" | "Raft_BecomeFollower E (r_term r) kInvalidId ?r = Some r'"
    | "Raft_Campaign E kCampaignElection ?r = Some r'"
    using assms(1,2) by (auto simp: Raft_Poll.simps Let_def split: VoteResult.splits elim!: bind_SomeE)
  then have "elects m J ?r r'"
  proof cases
    case 2
    then show ?thesis by (rule BecomeFollower_elects) simp
  next
    case 3
    then show ?thesis by (rule Campaign_election) (simp_all add: kCampaignPreElection_def kCampaignElection_def assms(3))
  qed simp
  moreover have "elects m J r ?r" by (rule other_votes_elects) (simp add: assms(2))
  ultimately show ?thesis by (rule elects_trans [rotated])
qed

lemma Campaign_elects:
  assumes "Raft_Campaign E ct r = Some r'" "r_term r < u64_max"
  shows "elects m J r r'"
proof (cases "ct = kCampaignPreElection")
  case True
  then obtain r1 res r2 where c: "Raft_BecomePreCandidate r = Some r1" and p: "Raft_Poll E (r_id r1) True r1 = Some (res, r2)"
    and t: "(if res = Won then Some r2 else do { (commit, commit_term) \<leftarrow> RaftLog_CommitInfo (env_storage E) (r_log r2);
         request_votes (vote_request E MSG_REQUEST_PRE_VOTE (r_term r1 + 1) ct commit commit_term)
           (JointConfiguration_IDs (tc_voters (r_conf r2))) r2 }) = Some r'"
    using assms(1) by (auto simp: Raft_Campaign.simps elim!: bind_SomeE split: if_splits)
  have "r_term r1 = r_term r"
    using c by (auto simp: Raft_BecomePreCandidate_def elim!: bind_SomeE)
  then have "elects m J r1 r2" using Poll_pre_candidate [OF p] BecomePreCandidate_state [OF c] assms(2) by simp
  moreover have "elects m J r r1" using c by (rule BecomePreCandidate_elects)
  moreover have "quiet r2 r'" using t by (auto split: if_splits dest: campaign_requests_quiet)
  ultimately show ?thesis by (metis elects_trans)
qed (use assms Campaign_election in blast)

lemma Hup_elects:
  assumes "Raft_Hup E transfer r = Some r'" "r_term r < u64_max"
  shows "elects m J r r'"
proof -
  consider "quiet r r'" | r1 ct where "quiet r r1" "Raft_Campaign E ct r1 = Some r'"
    using assms(1) by (auto simp: Raft_Hup_def Let_def split: if_splits elim!: bind_SomeE dest!: HasUnapplied_quiet)
  then show ?thesis
  proof cases
    case 2
    then show ?thesis using Campaign_elects [OF 2(2)] assms(2) quiet_parts(1) [OF 2(1)] by metis
  qed (rule elects_same)
qed

lemma MaybeCommitByVote_elects:
  "Raft_MaybeCommitByVote E m r = Some r' \<Longrightarrow> elects x J r r'"
proof -
  assume a: "Raft_MaybeCommitByVote E m r = Some r'"
  consider "quiet r r'" | r1 where "quiet r r1" "Raft_BecomeFollower E (r_term r1) kInvalidId r1 = Some r'"
    using a by (auto simp: Raft_MaybeCommitByVote_def Let_def split: if_splits elim!: bind_SomeE dest!: HasUnapplied_quiet)
  then show ?thesis
  proof cases
    case 2
    then show ?thesis using BecomeFollower_elects [OF 2(2)] by simp
  qed simp
qed

lemma Restore_cases:
  assumes "Raft_Restore E sn r = Some (b, r')"
  obtains "quiet r r'" | "Raft_BecomeFollower E (r_term r + 1) kInvalidId r = Some r'"
    | r1 cs r2 where "r_state r = Follower" "\<exists>vs jc. election_view r1 = (election_view r)\<lparr>ev_votes := vs, ev_voters := jc\<rparr>"
        "Raft_PostConfChange E r1 = Some (cs, r2)" "quiet r2 r'"
proof -
  have restored: "\<exists>vs jc. election_view (r\<lparr>r_log := log, r_progress_tracker := t\<rparr>) =
     (election_view r)\<lparr>ev_votes := vs, ev_voters := jc\<rparr>" for log t
    by (simp add: election_view_def)
  show ?thesis
    using assms that(1) that(2) that(3) [OF _ restored]
    by (auto simp: Raft_Restore_def Let_def split: if_splits sum.splits prod.splits elim!: bind_SomeE)
qed

lemma Restore_elects:
  assumes "Raft_Restore E sn r = Some (b, r')" "r_term r < u64_max" "tc_voters (r_conf r') \<in> J"
  shows "elects m J r r'"
  using assms(1)
proof (cases rule: Restore_cases)
  case 2
  have "r_term r \<le> r_term r + 1" using term_succ [OF assms(2)] by simp
  with 2 show ?thesis by (rule BecomeFollower_elects)
next
  case (3 r1 cs r2)
  then obtain vs jc where v: "election_view r1 = (election_view r)\<lparr>ev_votes := vs, ev_voters := jc\<rparr>" by blast
  have J: "tc_voters (r_conf r1) \<in> J"
    using PostConfChange_quiet [OF 3(3)] 3(4) assms(3) by (metis quiet_parts(6))
  have "election_step m J (election_view r) ((election_view r)\<lparr>ev_votes := vs\<rparr>)"
    by (rule election_step.other_votes) (simp add: 3(1))
  moreover have "election_step m J ((election_view r)\<lparr>ev_votes := vs\<rparr>) (election_view r1)"
    unfolding v by (rule election_step.reconfigure) (use J v in \<open>simp add: election_view_def\<close>)
  ultimately have "elects m J r r1" by (meson r_into_rtranclp rtranclp.rtrancl_into_rtrancl)
  then show ?thesis using PostConfChange_quiet [OF 3(3)] 3(4) by simp
qed simp

lemma HandleSnapshot_elects:
  assumes "Raft_HandleSnapshot E m r = Some r'" "r_term r < u64_max" "tc_voters (r_conf r') \<in> J"
  shows "elects x J r r'"
proof -
  obtain b r1 i where "Raft_Restore E (m_snapshot m) r = Some (b, r1)"
    "Raft_Send (default_message\<lparr>m_type := MSG_APPEND_RESPONSE, m_to := m_from m, m_index := i\<rparr>) r1 = Some r'"
    using assms(1) by (auto simp: Raft_HandleSnapshot_def elim!: bind_SomeE)
  moreover from this(2) have "quiet r1 r'" by (rule Send_quiet) simp
  ultimately show ?thesis
    using Restore_elects [of E "m_snapshot m" r b r1 J x] assms(2,3) quiet_parts(6) [of r1 r'] by simp
qed

lemma StepLeader_elects:
  assumes "Raft_StepLeader E m r = Some (res, r')"
  shows "elects m J r r'"
proof -
  consider "quiet r r'" | r1 where "quiet r r1" "Raft_BecomeFollower E (r_term r1) kInvalidId r1 = Some r'"
    using assms by (auto simp: Raft_StepLeader_def Let_def HandleSnapshotStatus_quiet HandleUnreachable_quiet
        split: MessageType.splits prod.splits if_splits elim!: bind_SomeE
        dest!: CheckQuorumActive_quiet
        dest: BroadcastHeartbeat_quiet propose_quiet read_index_quiet HandleAppendResponse_quiet
          HandleHeartbeatResponse_quiet HandleTransferLeader_quiet)
  then show ?thesis
  proof cases
    case 2
    then show ?thesis using BecomeFollower_elects [OF 2(2)] by simp
  qed simp
qed

text \<open>A follower that hears from the leader of its term: the three handlers.\<close>

lemma leader_message_elects:
  assumes "handle E m r = Some r'" "r_term r < u64_max"
    "handle = Raft_HandleAppendEntries \<or> handle = Raft_HandleHeartbeat \<or>
     handle = Raft_HandleSnapshot \<and> tc_voters (r_conf r') \<in> J"
  shows "elects m J r r'"
  using assms by (auto dest!: HandleAppendEntries_quiet HandleHeartbeat_quiet intro: HandleSnapshot_elects)

lemma forward_quiet:
  "Raft_forward m r = Some (res, r') \<Longrightarrow> m_type m \<noteq> MSG_REQUEST_VOTE_RESPONSE \<Longrightarrow> quiet r r'"
  by (auto simp: Raft_forward_def elim!: bind_SomeE dest!: Send_quiet)

lemma StepFollower_elects:
  assumes "Raft_StepFollower E m r = Some (res, r')" "r_term r < u64_max" "m_type m = MSG_SNAPSHOT \<Longrightarrow> tc_voters (r_conf r') \<in> J"
  shows "elects m J r r'"
proof -
  let ?r = "r\<lparr>r_election_elapsed := 0, r_leader_id := m_from m\<rparr>"
  consider "quiet r r'" | "Raft_HandleAppendEntries E m ?r = Some r'" | "Raft_HandleHeartbeat E m ?r = Some r'"
    | "Raft_HandleSnapshot E m ?r = Some r'" "m_type m = MSG_SNAPSHOT" | "Raft_Hup E True r = Some r'"
    using assms(1) by (auto simp: Raft_StepFollower_def Let_def
        split: MessageType.splits if_splits list.splits elim!: bind_SomeE dest!: forward_quiet)
  then show ?thesis
  proof cases
    case 5
    then show ?thesis using assms(2) by (rule Hup_elects)
  next
    case 4
    then show ?thesis using HandleSnapshot_elects [OF 4(1), of J m] assms(2) assms(3) [OF 4(2)] by simp
  qed (auto dest: HandleAppendEntries_quiet HandleHeartbeat_quiet)
qed

lemma StepCandidate_elects:
  assumes "Raft_StepCandidate E m r = Some (res, r')" "r_state r = Candidate \<or> r_state r = PreCandidate"
    "r_term r < u64_max" "m_term m < u64_max" "m_type m = MSG_SNAPSHOT \<Longrightarrow> tc_voters (r_conf r') \<in> J"
    "m_type m \<in> {MSG_APPEND, MSG_HEARTBEAT, MSG_SNAPSHOT} \<Longrightarrow> r_term r \<le> m_term m"
    "m_type m = MSG_REQUEST_VOTE_RESPONSE \<Longrightarrow> m_term m = 0 \<or> m_term m = r_term r"
  shows "elects m J r r'"
proof -
  consider (same) "quiet r r'"
    | (lead) r1 handle where "m_type m \<in> {MSG_APPEND, MSG_HEARTBEAT, MSG_SNAPSHOT}"
        "Raft_BecomeFollower E (m_term m) (m_from m) r = Some r1" "handle E m r1 = Some r'"
        "handle = Raft_HandleAppendEntries \<or> handle = Raft_HandleHeartbeat \<or>
         handle = Raft_HandleSnapshot \<and> m_type m = MSG_SNAPSHOT"
    | (resp) v r1 where "m_type m = (if r_state r = Candidate then MSG_REQUEST_VOTE_RESPONSE else MSG_REQUEST_PRE_VOTE_RESPONSE)"
        "Raft_Poll E (m_from m) (\<not> m_reject m) r = Some (v, r1)" "Raft_MaybeCommitByVote E m r1 = Some r'"
    using assms(1,2) by (auto simp: Raft_StepCandidate_def Let_def split: MessageType.splits if_splits elim!: bind_SomeE)
  then show ?thesis
  proof cases
    case lead
    have "elects m J r r1" using lead(2) assms(6) [OF lead(1)] by (rule BecomeFollower_elects)
    moreover have "r_term r1 = m_term m" using BecomeFollower_view [OF lead(2)] by (simp add: election_view_def)
    then have "elects m J r1 r'" using leader_message_elects [of handle E m r1 r' J] lead(3,4) assms(4,5) by auto
    ultimately show ?thesis by (rule elects_trans)
  next
    case resp
    have "elects m J r r1"
    proof (cases "r_state r = Candidate")
      case True
      then have "elects m J r (poll_record (m_from m) (\<not> m_reject m) r)"
        using election_step.count_vote [of "election_view r" m] resp(1) assms(7)
        by (simp add: poll_record_view r_into_rtranclp)
      with resp(2) True show ?thesis by (rule Poll_candidate)
    qed (use resp(2) assms(2,3) Poll_pre_candidate in blast)
    then show ?thesis using MaybeCommitByVote_elects [OF resp(3)] by (rule elects_trans)
  qed simp
qed

lemma Send_view:
  assumes "Raft_Send x r = Some r'" "m_type x = MSG_REQUEST_VOTE_RESPONSE" "m_from x = kInvalidId"
  shows "\<exists>y. election_view r' = (election_view r)\<lparr>ev_out := vote_responses (r_messages r) @ [y]\<rparr> \<and>
    m_type y = MSG_REQUEST_VOTE_RESPONSE \<and> m_to y = m_to x \<and> m_from y = r_id r \<and> m_reject y = m_reject x \<and>
    m_term y = m_term x \<and> m_term x \<noteq> 0"
  using assms by (auto simp: Raft_Send_def election_view_def elim!: bind_SomeE dest!: Core_Send_votes)

lemma grants_vote_can: "Raft_grants_vote E m r = Some True \<Longrightarrow> Raft_can_vote m r"
  by (simp add: Raft_grants_vote_def split: if_splits)

lemma vote_elects:
  assumes "Raft_vote E m r = Some r'" "m_type m = MSG_REQUEST_VOTE" "m_term m = 0 \<or> m_term m = r_term r"
  shows "elects m J r r'"
proof -
  let ?x = "default_message\<lparr>m_to := m_from m, m_type := MSG_REQUEST_VOTE_RESPONSE\<rparr>"
  consider (grant) r1 where "Raft_can_vote m r" "Raft_Send (?x\<lparr>m_reject := False, m_term := m_term m\<rparr>) r = Some r1"
      "r' = r1\<lparr>r_election_elapsed := 0, r_vote := m_from m\<rparr>"
    | (refuse) c ct r1 where "Raft_Send (?x\<lparr>m_reject := True, m_term := r_term r, m_commit := c, m_commit_term := ct\<rparr>) r = Some r1"
      "Raft_MaybeCommitByVote E m r1 = Some r'"
    using assms(1,2) by (auto simp: Raft_vote_def VoteRespMsgType_def Let_def split: if_splits elim!: bind_SomeE
        dest!: grants_vote_can)
  then show ?thesis
  proof cases
    case grant
    obtain y where y: "election_view r1 = (election_view r)\<lparr>ev_out := vote_responses (r_messages r) @ [y]\<rparr>"
      "m_type y = MSG_REQUEST_VOTE_RESPONSE" "m_to y = m_from m" "m_from y = r_id r" "m_term y = m_term m" "m_term m \<noteq> 0"
      using Send_view [OF grant(2)] by (auto simp: default_message_def kInvalidId_def)
    have "election_step m J (election_view r) ((election_view r)\<lparr>ev_vote := m_from m, ev_out := ev_out (election_view r) @ [y]\<rparr>)"
      using y grant(1) assms(2,3) by (intro election_step.grant) (auto simp: Raft_can_vote_def)
    moreover have "election_view r' = (election_view r1)\<lparr>ev_vote := m_from m\<rparr>"
      by (simp add: grant(3) election_view_def)
    then have "election_view r' = (election_view r)\<lparr>ev_vote := m_from m, ev_out := ev_out (election_view r) @ [y]\<rparr>"
      using y(1) by (simp add: election_view_def)
    ultimately show ?thesis by (simp only: r_into_rtranclp)
  next
    case refuse
    obtain y where y: "election_view r1 = (election_view r)\<lparr>ev_out := vote_responses (r_messages r) @ [y]\<rparr>"
      "m_type y = MSG_REQUEST_VOTE_RESPONSE" "m_reject y"
      using Send_view [OF refuse(1)] by (auto simp: default_message_def kInvalidId_def)
    have "elects m J r r1" using election_step.refuse [OF y(2,3), of m J "election_view r"] by (simp add: y(1) r_into_rtranclp)
    then show ?thesis using MaybeCommitByVote_elects [OF refuse(2)] by (rule elects_trans)
  qed
qed

lemma pre_vote_elects:
  assumes "Raft_vote E m r = Some r'" "m_type m = MSG_REQUEST_PRE_VOTE"
  shows "elects m J r r'"
proof -
  consider "quiet r r'" | r1 where "quiet r r1" "Raft_MaybeCommitByVote E m r1 = Some r'"
    using assms by (auto simp: Raft_vote_def VoteRespMsgType_def Let_def split: if_splits elim!: bind_SomeE dest!: Send_quiet)
  then show ?thesis
  proof cases
    case 2
    then show ?thesis using MaybeCommitByVote_elects [OF 2(2), of m] by simp
  qed simp
qed

text \<open>A message that a peer can send: appends, heartbeats and snapshots carry the term of their leader.\<close>

definition peer_message :: "message \<Rightarrow> bool" where
  "peer_message m \<longleftrightarrow>
     m_term m < u64_max \<and> (m_type m \<in> {MSG_APPEND, MSG_HEARTBEAT, MSG_SNAPSHOT} \<longrightarrow> m_term m \<noteq> 0)"

lemma Step_current_elects:
  assumes "Raft_Step_current E m r = Some (res, r')" "r_term r < u64_max" "m_term m < u64_max" "m_type m = MSG_SNAPSHOT \<Longrightarrow> tc_voters (r_conf r') \<in> J"
    "m_type m \<in> {MSG_APPEND, MSG_HEARTBEAT, MSG_SNAPSHOT} \<Longrightarrow> r_term r \<le> m_term m"
    "m_type m \<in> {MSG_REQUEST_VOTE, MSG_REQUEST_VOTE_RESPONSE} \<Longrightarrow> m_term m = 0 \<or> m_term m = r_term r"
  shows "elects m J r r'"
proof -
  consider (same) "r' = r" | (hup) "Raft_Hup E False r = Some r'"
    | (vote) "m_type m = MSG_REQUEST_VOTE" "Raft_vote E m r = Some r'"
    | (pre_vote) "m_type m = MSG_REQUEST_PRE_VOTE" "Raft_vote E m r = Some r'"
    | (cand) "r_state r = Candidate \<or> r_state r = PreCandidate" "Raft_StepCandidate E m r = Some (res, r')"
    | (foll) "Raft_StepFollower E m r = Some (res, r')" | (lead) "Raft_StepLeader E m r = Some (res, r')"
    using assms(1) by (auto simp: Raft_Step_current_def split: if_splits StateRole.splits elim!: bind_SomeE)
  then show ?thesis
  proof cases
    case hup
    then show ?thesis using assms(2) by (rule Hup_elects)
  next
    case vote
    then show ?thesis using assms(6) by (intro vote_elects) auto
  next
    case pre_vote
    then show ?thesis by (intro pre_vote_elects)
  next
    case cand
    then show ?thesis using assms by (intro StepCandidate_elects) auto
  next
    case foll
    then show ?thesis using assms(2,4) by (rule StepFollower_elects)
  next
    case lead
    then show ?thesis by (rule StepLeader_elects)
  qed simp
qed

lemma Step_elects:
  assumes "Raft_Step E m r = Some (res, r')" "r_term r < u64_max" "peer_message m" "m_type m = MSG_SNAPSHOT \<Longrightarrow> tc_voters (r_conf r') \<in> J"
  shows "elects m J r r'"
proof -
  consider (same) "quiet r r'"
    | (zero) "m_term m = 0" "Raft_Step_current E m r = Some (res, r')"
    | (pre) "r_term r < m_term m" "m_type m \<in> {MSG_REQUEST_PRE_VOTE, MSG_REQUEST_PRE_VOTE_RESPONSE}"
        "Raft_Step_current E m r = Some (res, r')"
    | (newer) l r1 where "r_term r < m_term m" "Raft_BecomeFollower E (m_term m) l r = Some r1"
        "Raft_Step_current E m r1 = Some (res, r')"
    | (equal) "m_term m = r_term r" "Raft_Step_current E m r = Some (res, r')"
    using assms(1) by (auto simp: Raft_Step_def Let_def split: if_splits elim!: bind_SomeE dest!: Send_quiet)
  then show ?thesis
  proof cases
    case newer
    have "r_term r1 = m_term m" using BecomeFollower_view [OF newer(2)] by (simp add: election_view_def)
    then have "elects m J r1 r'" using newer(3) assms(3,4) by (intro Step_current_elects) (auto simp: peer_message_def)
    moreover have "elects m J r r1" using newer(1,2) by (intro BecomeFollower_elects) auto
    ultimately show ?thesis by (rule elects_trans [rotated])
  next
    case zero
    then show ?thesis using assms(2,3,4) by (intro Step_current_elects) (auto simp: peer_message_def)
  next
    case pre
    then show ?thesis using assms(2,3,4) by (intro Step_current_elects) (auto simp: peer_message_def)
  next
    case equal
    then show ?thesis using assms(2,3,4) by (intro Step_current_elects) (auto simp: peer_message_def)
  qed simp
qed

text \<open>A local message takes part only through its role change, so the machine needs not know it.\<close>

lemma election_step_local:
  "election_step m {} s s' \<Longrightarrow> m_type m \<notin> {MSG_REQUEST_VOTE, MSG_REQUEST_VOTE_RESPONSE} \<Longrightarrow> election_step m' J s s'"
proof (induction rule: election_step.induct)
  case (follow s t)
  then show ?case by (intro election_step.follow)
qed (auto intro: election_step.intros)

lemma Step_local:
  assumes "Raft_Step E m r = Some (res, r')" "r_term r < u64_max" "m_term m = 0"
    "m_type m \<in> {MSG_HUP, MSG_BEAT, MSG_CHECK_QUORUM, MSG_PROPOSE, MSG_READ_INDEX, MSG_UNREACHABLE, MSG_SNAP_STATUS,
       MSG_TRANSFER_LEADER}"
  shows "elects m' J r r'"
proof -
  have "elects m {} r r'"
    using assms by (intro Step_elects) (auto simp: peer_message_def)
  then show ?thesis
    by (rule rtranclp_mono [THEN predicate2D, rotated]) (use assms(4) in \<open>auto intro: election_step_local\<close>)
qed

lemma tick_beat_quiet: "Raft_tick_beat E b r = Some (b', r') \<Longrightarrow> quiet r r'"
  by (auto simp: Raft_tick_beat_def Let_def Raft_Step_def Raft_Step_current_def Raft_StepLeader_def local_message_def
      default_message_def split: if_splits elim!: bind_SomeE dest!: BroadcastHeartbeat_quiet)

lemma Tick_cases:
  assumes "Raft_Tick E r = Some (b, r')"
  obtains (idle) b1 r1 where "quiet r r1" "Raft_tick_beat E b1 r1 = Some (b, r')"
    | (step) b1 r1 r2 r3 ty res where "quiet r r1" "ty \<in> {MSG_HUP, MSG_CHECK_QUORUM}"
        "Raft_Step E (local_message ty r1) r1 = Some (res, r2)" "quiet r2 r3" "Raft_tick_beat E b1 r3 = Some (b, r')"
proof -
  let ?r = "r\<lparr>r_heartbeat_elapsed := r_heartbeat_elapsed r + 1, r_election_elapsed := 0\<rparr>"
  have q: "quiet r ?r" by simp
  have s: thesis if "Raft_Step E (local_message ty ?r) ?r = Some (res, r2)" "Raft_tick_beat E b1 r3 = Some (b, r')"
      "quiet r2 r3" "ty \<in> {MSG_HUP, MSG_CHECK_QUORUM}" for ty res r2 r3 b1
    using step [OF q] that by blast
  show ?thesis
  proof (cases "r_state r = Leader")
    case False
    then have "Raft_TickElection E r = Some (b, r')" using assms(1) by (simp add: Raft_Tick_def split: StateRole.splits)
    then show ?thesis unfolding Raft_TickElection_def Let_def
      by (elim bind_SomeE)
        (auto split: if_splits elim!: bind_SomeE intro: idle [rotated] s)
  next
    case True
    then have "Raft_TickHeartbeat E r = Some (b, r')" using assms(1) by (simp add: Raft_Tick_def)
    then show ?thesis unfolding Raft_TickHeartbeat_def Let_def
      by (elim bind_SomeE)
        (auto simp: Raft_AbortLeaderTransfer_def split: if_splits elim!: bind_SomeE
          intro: idle [rotated] s)
  qed
qed

lemma Tick_elects:
  assumes "Raft_Tick E r = Some (b, r')" "r_term r < u64_max"
  shows "elects m J r r'"
  using assms(1)
proof (cases rule: Tick_cases)
  case (idle b1 r1)
  then show ?thesis using tick_beat_quiet [OF idle(2)] by simp
next
  case (step b1 r1 r2 r3 ty res)
  have "elects m J r1 r2"
    using step(3) by (rule Step_local)
      (use step(1,2) assms(2) quiet_parts(1) [OF step(1)] in \<open>auto simp: local_message_def default_message_def\<close>)
  then show ?thesis using step(1,4) tick_beat_quiet [OF step(5)] by simp
qed

lemma GroupCommit_quiet: "Raft_EnableGroupCommit E b r = Some r' \<Longrightarrow> quiet r r'"
proof -
  assume a: "Raft_EnableGroupCommit E b r = Some r'"
  have "quiet r (r\<lparr>r_progress_tracker := ProgressTracker_EnableGroupCommit b (r_progress_tracker r)\<rparr>)"
    by (simp add: election_view_def ProgressTracker_EnableGroupCommit_def)
  with a show ?thesis
    by (auto simp: Raft_EnableGroupCommit_def Let_def split: if_splits elim!: bind_SomeE
        dest!: MaybeCommit_quiet BroadcastAppend_quiet)
qed

lemma assign_groups_quiet: "assign_groups ids r = Some r' \<Longrightarrow> quiet r r'"
  by (induction ids r rule: assign_groups.induct) (auto split: option.splits elim!: bind_SomeE)

lemma AssignCommitGroups_quiet: "Raft_AssignCommitGroups E ids r = Some r' \<Longrightarrow> quiet r r'"
  by (auto simp: Raft_AssignCommitGroups_def split: if_splits elim!: bind_SomeE
      dest!: assign_groups_quiet MaybeCommit_quiet BroadcastAppend_quiet)

lemma RequestSnapshot_quiet: "Raft_RequestSnapshot E r = Some (res, r') \<Longrightarrow> quiet r r'"
  by (auto simp: Raft_RequestSnapshot_def Let_def split: if_splits elim!: bind_SomeE dest!: SendRequestSnapshot_quiet)

lemma Ping_quiet: "Raft_Ping r = Some r' \<Longrightarrow> quiet r r'"
  by (auto simp: Raft_Ping_def split: if_splits dest: BroadcastHeartbeat_quiet)

lemma AdjustMaxInflight_quiet: "Raft_AdjustMaxInflightMsgs peer k r = Some r' \<Longrightarrow> quiet r r'"
  by (auto simp: Raft_AdjustMaxInflightMsgs_def split: option.splits elim!: bind_SomeE)

lemma settings_quiet:
  "quiet r (Raft_SetPriority p r)" "quiet r (Raft_MaybeFreeInflightBuffers r)" "quiet r (Raft_ReduceUncommittedSize es r)"
  by (simp_all add: Raft_SetPriority_def Raft_MaybeFreeInflightBuffers_def Raft_ReduceUncommittedSize_def
      election_view_def Let_def)

section \<open>A new node\<close>

lemma LoadState_view:
  "Raft_LoadState E hs r = Some r' \<Longrightarrow> election_view r' = (election_view r)\<lparr>ev_term := hs_term hs, ev_vote := hs_vote hs\<rparr>"
  by (auto simp: Raft_LoadState_def election_view_def elim!: bind_SomeE)

lemma Raft_new_view:
  assumes "Raft_new E config store draws = Some r"
  shows "r_id r = c_id config \<and> c_id config \<noteq> kInvalidId \<and> r_state r = Follower \<and>
    pt_votes (r_progress_tracker r) = [] \<and> vote_responses (r_messages r) = []"
  using assms [unfolded Raft_new_def Let_def case_prod_unfold]
proof (elim bind_SomeE, goal_cases)
  case (1 core u st last res u' post u'' r2 r3)
  let ?r0 = "(RaftCore.extend core
      (Raft.fields (ProgressTracker_new (c_max_inflight_messages config)) [] config draws))\<lparr>r_progress_tracker := snd res\<rparr>"
  have "r_id ?r0 = c_id config" "r_messages ?r0 = []"
    using 1(1) by (auto simp: RaftCore_new_def RaftCore.extend_def Raft.fields_def elim!: bind_SomeE)
  moreover have "quiet ?r0 (snd post)" using 1(7) PostConfChange_quiet by (metis prod.collapse)
  ultimately have "r_id (snd post) = c_id config" "vote_responses (r_messages (snd post)) = []"
    by (auto simp: election_view_def)
  moreover have "r_id r2 = r_id (snd post)" "vote_responses (r_messages r2) = vote_responses (r_messages (snd post))"
    using 1(9) by (auto simp: election_view_def split: if_splits dest!: LoadState_view)
  moreover have "quiet r2 r3" using 1(10) by (auto split: if_splits dest: CommitApply_quiet)
  moreover have "c_id config \<noteq> kInvalidId"
    using 1(2) by (auto simp: Config_Validate_def Let_def split: if_splits)
  ultimately show ?case using BecomeFollower_view [OF 1(11)] by (auto simp: election_view_def)
qed

section \<open>Properties of a node\<close>

lemma election_step_votes:
  "election_step m J s s' \<Longrightarrow> ev_term s \<le> ev_term s' \<and>
     (ev_term s' = ev_term s \<and> ev_vote s \<noteq> kInvalidId \<longrightarrow> ev_vote s' = ev_vote s)"
  by (induction rule: election_step.induct) (auto dest: term_succ)

lemma elects_votes:
  "(election_step m J)\<^sup>*\<^sup>* s s' \<Longrightarrow> ev_term s \<le> ev_term s' \<and>
     (ev_term s' = ev_term s \<and> ev_vote s \<noteq> kInvalidId \<longrightarrow> ev_vote s' = ev_vote s)"
proof (induction rule: rtranclp_induct)
  case (step t u)
  then show ?case using election_step_votes [OF step(2)] by (metis order_antisym order_trans)
qed simp

text \<open>
  C2. Handling a message refines the election machine: whatever the message, the node's term, vote,
  role, counted votes and vote responses change by steps of the machine only. So a node follows a
  newer term, starts a candidacy with a vote for itself in the next term, grants at most what its vote
  allows, counts only responses of its own term, and leads only after the votes it counted win.
\<close>

theorem step_refines_election:
  assumes "Raft_Step E m r = Some (res, r')" "r_term r < u64_max" "peer_message m"
  shows "(election_step m {tc_voters (r_conf r')})\<^sup>*\<^sup>* (election_view r) (election_view r')"
  using Step_elects [OF assms, of "{tc_voters (r_conf r')}"] by simp

theorem step_refines_election_witness:
  "(election_step ex_response {ex_jc})\<^sup>*\<^sup>* (election_view ex_candidate) (election_view ex_leader) \<and> r_state ex_leader = Leader"
proof -
  have "peer_message ex_response" by (simp add: peer_message_def ex_response_def default_message_def)
  then show ?thesis
    using step_refines_election [of ex_env ex_response ex_candidate "Inr ()" ex_leader] ex_candidate_eval ex_leader_eval
    by simp
qed

text \<open>
  C3. The term of a node never decreases, and within a term it never changes a vote it has cast.
\<close>

theorem vote_once_per_term:
  assumes "Raft_Step E m r = Some (res, r')" "r_term r < u64_max" "peer_message m"
  shows "r_term r \<le> r_term r' \<and> (r_term r' = r_term r \<and> r_vote r \<noteq> kInvalidId \<longrightarrow> r_vote r' = r_vote r)"
  using elects_votes [OF Step_elects [OF assms, of UNIV]] by simp

theorem vote_once_per_term_witness:
  "r_term ex_candidate \<le> r_term ex_leader \<and> r_vote ex_leader = 1"
proof -
  have "peer_message ex_response" by (simp add: peer_message_def ex_response_def default_message_def)
  moreover have "r_vote ex_candidate = 1" by code_simp
  ultimately show ?thesis
    using vote_once_per_term [of ex_env ex_response ex_candidate "Inr ()" ex_leader] ex_candidate_eval ex_leader_eval
    by (simp add: kInvalidId_def)
qed

end
