(* ===== verification/Cluster.thy ===== *)
theory Cluster
  imports Election
begin

text \<open>
  A group of nodes and the messages between them. Any message may reach any node at any time, lost,
  duplicated, reordered or invented, except that a response to a vote request reaches the node it is
  addressed to and was sent before. The application may call the node in any order. A node may stop at any
  time and start again from a storage that has kept its term and its vote; the rest may differ. The configurations
  in force are those of a set \<open>J\<close>.

  The safety argument of elections follows: the votes cast are a partial function of voter and term, a
  leader has a winning set of them, and two winning sets of overlapping configurations meet.
\<close>

section \<open>Steps of a group\<close>

record 's cluster =
  cl_nodes :: "u64 \<Rightarrow> 's Raft option"
  cl_net :: "message set"

text \<open>The calls of the application that take no part in elections.\<close>

inductive app_call :: "'s Env \<Rightarrow> 's Raft \<Rightarrow> 's Raft \<Rightarrow> bool" for E r where
  persist_entries: "Raft_OnPersistEntries E i t r = Some r' \<Longrightarrow> app_call E r r'"
| persist_snapshot: "Raft_OnPersistSnapshot i r = Some r' \<Longrightarrow> app_call E r r'"
| commit_apply: "Raft_CommitApply E i r = Some r' \<Longrightarrow> app_call E r r'"
| request_snapshot: "Raft_RequestSnapshot E r = Some (res, r') \<Longrightarrow> app_call E r r'"
| ping: "Raft_Ping r = Some r' \<Longrightarrow> app_call E r r'"
| group_commit: "Raft_EnableGroupCommit E b r = Some r' \<Longrightarrow> app_call E r r'"
| commit_groups: "Raft_AssignCommitGroups E ids r = Some r' \<Longrightarrow> app_call E r r'"
| inflight: "Raft_AdjustMaxInflightMsgs peer k r = Some r' \<Longrightarrow> app_call E r r'"
| free_buffers: "app_call E r (Raft_MaybeFreeInflightBuffers r)"
| set_priority: "app_call E r (Raft_SetPriority p r)"
| uncommitted: "app_call E r (Raft_ReduceUncommittedSize es r)"

inductive cluster_step ::
  "(u64 \<Rightarrow> 's Env) \<Rightarrow> JointConfiguration set \<Rightarrow> 's cluster \<Rightarrow> 's cluster \<Rightarrow> bool" for E J where
  deliver: "cl_nodes c n = Some r \<Longrightarrow> r_term r < u64_max \<Longrightarrow> peer_message m \<Longrightarrow>
     (m_type m = MSG_REQUEST_VOTE_RESPONSE \<longrightarrow> m \<in> cl_net c \<and> m_to m = n) \<Longrightarrow>
     Raft_Step (E n) m r = Some (res, r') \<Longrightarrow> tc_voters (r_conf r') \<in> J \<Longrightarrow>
     cluster_step E J c (c\<lparr>cl_nodes := (cl_nodes c)(n \<mapsto> r')\<rparr>)"
| tick: "cl_nodes c n = Some r \<Longrightarrow> r_term r < u64_max \<Longrightarrow> Raft_Tick (E n) r = Some (b, r') \<Longrightarrow>
     cluster_step E J c (c\<lparr>cl_nodes := (cl_nodes c)(n \<mapsto> r')\<rparr>)"
| call: "cl_nodes c n = Some r \<Longrightarrow> app_call (E n) r r' \<Longrightarrow>
     cluster_step E J c (c\<lparr>cl_nodes := (cl_nodes c)(n \<mapsto> r')\<rparr>)"
| conf_change: "cl_nodes c n = Some r \<Longrightarrow> Raft_ApplyConfChange (E n) cc r = Some (res, r') \<Longrightarrow>
     tc_voters (r_conf r') \<in> J \<Longrightarrow> cluster_step E J c (c\<lparr>cl_nodes := (cl_nodes c)(n \<mapsto> r')\<rparr>)"
| send: "cl_nodes c n = Some r \<Longrightarrow>
     cluster_step E J c (c\<lparr>cl_nodes := (cl_nodes c)(n \<mapsto> r\<lparr>r_messages := []\<rparr>), cl_net := cl_net c \<union> set (r_messages r)\<rparr>)"
| restart: "cl_nodes c n = Some r \<Longrightarrow> c_id config = n \<Longrightarrow> Raft_new (E n) config store draws = Some r' \<Longrightarrow>
     r_term r' = r_term r \<Longrightarrow> r_vote r' = r_vote r \<Longrightarrow> tc_voters (r_conf r') \<in> J \<Longrightarrow>
     cluster_step E J c (c\<lparr>cl_nodes := (cl_nodes c)(n \<mapsto> r')\<rparr>)"

text \<open>A group at its start: every node as the constructor made it.\<close>

definition cluster_start :: "(u64 \<Rightarrow> 's Env) \<Rightarrow> JointConfiguration set \<Rightarrow> 's cluster \<Rightarrow> bool" where
  "cluster_start E J c \<longleftrightarrow> cl_net c = {} \<and>
     (\<forall>n r. cl_nodes c n = Some r \<longrightarrow> tc_voters (r_conf r) \<in> J \<and>
        (\<exists>config store draws. c_id config = n \<and> Raft_new (E n) config store draws = Some r))"

text \<open>Any two winning sets of votes under configurations of \<open>J\<close> share a voter.\<close>

definition overlapping :: "JointConfiguration set \<Rightarrow> bool" where
  "overlapping J \<longleftrightarrow> (\<forall>a \<in> J. \<forall>b \<in> J. \<forall>check1 check2.
     JointConfiguration_GetVoteResult check1 a = Won \<and> JointConfiguration_GetVoteResult check2 b = Won \<longrightarrow>
       (\<exists>v. check1 v = Some True \<and> check2 v = Some True))"

section \<open>The votes cast\<close>

text \<open>A vote: who cast it, in which term, for whom.\<close>

type_synonym votes = "(u64 \<times> u64 \<times> u64) set"

definition votes_ok :: "votes \<Rightarrow> bool" where
  "votes_ok V \<longleftrightarrow> (\<forall>v t c. (v, t, c) \<in> V \<longrightarrow> t \<noteq> 0 \<and> c \<noteq> kInvalidId) \<and>
     (\<forall>v t c c'. (v, t, c) \<in> V \<longrightarrow> (v, t, c') \<in> V \<longrightarrow> c = c')"

definition elected :: "JointConfiguration set \<Rightarrow> votes \<Rightarrow> u64 \<Rightarrow> u64 \<Rightarrow> bool" where
  "elected J V n t \<longleftrightarrow> (\<exists>jc \<in> J. \<exists>check. JointConfiguration_GetVoteResult check jc = Won \<and>
     (\<forall>p. check p = Some True \<longrightarrow> (p, t, n) \<in> V))"

definition granted :: "message \<Rightarrow> bool" where
  "granted x \<longleftrightarrow> m_type x = MSG_REQUEST_VOTE_RESPONSE \<and> \<not> m_reject x \<and> m_to x \<noteq> kInvalidId"

definition node_inv :: "JointConfiguration set \<Rightarrow> votes \<Rightarrow> u64 \<Rightarrow> election \<Rightarrow> bool" where
  "node_inv J V n s \<longleftrightarrow> ev_id s = n \<and> n \<noteq> kInvalidId \<and> ev_voters s \<in> J \<and>
     (\<forall>t c. (n, t, c) \<in> V \<longrightarrow> t \<le> ev_term s \<and> (t = ev_term s \<longrightarrow> c = ev_vote s)) \<and>
     (\<forall>x \<in> set (ev_out s). granted x \<longrightarrow> (m_from x, m_term x, m_to x) \<in> V) \<and>
     (ev_state s = Candidate \<longrightarrow> ev_vote s = n \<and> (n, ev_term s, n) \<in> V \<and>
        (\<forall>p. map_of (ev_votes s) p = Some True \<longrightarrow> (p, ev_term s, n) \<in> V)) \<and>
     (ev_state s = Leader \<longrightarrow> elected J V n (ev_term s))"

lemma elected_mono: "elected J V n t \<Longrightarrow> V \<subseteq> V' \<Longrightarrow> elected J V' n t"
  unfolding elected_def by blast

lemma elected_unique:
  assumes "overlapping J" "votes_ok V" "elected J V a t" "elected J V b t"
  shows "a = b"
  using assms unfolding overlapping_def elected_def votes_ok_def by metis

text \<open>A vote of node \<open>n\<close> in its term, for whom it votes, keeps the invariant of every other node.\<close>

lemma node_inv_other:
  "node_inv J V k s \<Longrightarrow> k \<noteq> n \<Longrightarrow> node_inv J (V \<union> {n} \<times> X) k s"
  unfolding node_inv_def by (auto intro: elected_mono)

lemma votes_ok_insert:
  assumes "votes_ok V" "t \<noteq> 0" "c \<noteq> kInvalidId" "\<And>c'. (n, t, c') \<in> V \<Longrightarrow> c' = c"
  shows "votes_ok (insert (n, t, c) V)"
  using assms unfolding votes_ok_def by blast

lemma node_inv_mono:
  "node_inv J V n s \<Longrightarrow> (\<And>t c. (n, t, c) \<in> V' \<Longrightarrow> t \<le> ev_term s \<and> (t = ev_term s \<longrightarrow> c = ev_vote s)) \<Longrightarrow> V \<subseteq> V' \<Longrightarrow>
     node_inv J V' n s"
  unfolding node_inv_def by (auto intro: elected_mono)

lemma node_inv_step:
  assumes "election_step m J s s'" "node_inv J V n s" "votes_ok V"
    "m_type m = MSG_REQUEST_VOTE_RESPONSE \<longrightarrow> m_to m = n \<and> (granted m \<longrightarrow> (m_from m, m_term m, n) \<in> V)"
  shows "\<exists>X. votes_ok (V \<union> {n} \<times> X) \<and> node_inv J (V \<union> {n} \<times> X) n s'"
  using assms(1)
proof cases
  case (follow t)
  have "u \<le> t \<and> (u = t \<longrightarrow> c = (if t = ev_term s then ev_vote s else kInvalidId))" if "(n, u, c) \<in> V" for u c
  proof -
    have "u \<le> ev_term s" "u = ev_term s \<longrightarrow> c = ev_vote s" using assms(2) that by (auto simp: node_inv_def)
    then show ?thesis using follow(2) by auto
  qed
  then have "node_inv J V n s'" using assms(2) unfolding follow(1) node_inv_def by simp
  then show ?thesis using assms(3) by (intro exI [of _ "{}"]) simp
next
  case candidate
  have lt: "ev_term s < ev_term s + 1" using candidate(3) by (rule term_succ)
  let ?V = "V \<union> {n} \<times> {(ev_term s + 1, n)}"
  have old: "t < ev_term s + 1" if "(n, t, c) \<in> V" for t c
    using assms(2) that lt unfolding node_inv_def by (meson order_le_less_trans)
  have "ev_term s + 1 \<noteq> 0" "n \<noteq> kInvalidId" using lt assms(2) by (auto simp: node_inv_def)
  then have "votes_ok (insert (n, ev_term s + 1, n) V)" using old by (intro votes_ok_insert assms(3)) auto
  then have "votes_ok ?V" by simp
  moreover have "u \<le> ev_term s + 1 \<and> (u = ev_term s + 1 \<longrightarrow> c = ev_id s)" if "(n, u, c) \<in> ?V" for u c
    using that old [of u c] assms(2) by (auto simp: node_inv_def)
  then have "node_inv J ?V n s'" using assms(2) unfolding candidate(1) node_inv_def by simp metis
  ultimately show ?thesis by blast
next
  case own_vote
  have "node_inv J V n s'" using assms(2) own_vote(2,3) unfolding own_vote(1) node_inv_def
    by (auto simp: Map_emplace_def split: if_splits)
  then show ?thesis using assms(3) by (intro exI [of _ "{}"]) simp
next
  case count_vote
  have "(m_from m, ev_term s, n) \<in> V" if "\<not> m_reject m"
  proof -
    have "granted m" using that count_vote(3) assms(2,4) by (auto simp: granted_def node_inv_def)
    then have "(m_from m, m_term m, n) \<in> V" using assms(4) count_vote(3) by simp
    moreover from this have "m_term m \<noteq> 0" using assms(3) by (auto simp: votes_ok_def)
    ultimately show ?thesis using count_vote(4) by simp
  qed
  then have "node_inv J V n s'" using assms(2) count_vote(2) unfolding count_vote(1) node_inv_def
    by (auto simp: Map_emplace_def split: if_splits)
  then show ?thesis using assms(3) by (intro exI [of _ "{}"]) simp
next
  case win
  have "elected J V n (ev_term s)"
    unfolding elected_def using assms(2) win(2,3) by (auto simp: node_inv_def)
  then have "node_inv J V n s'" using assms(2) unfolding win(1) node_inv_def by auto
  then show ?thesis using assms(3) by (intro exI [of _ "{}"]) simp
next
  case (grant x)
  show ?thesis
  proof (cases "m_from m = kInvalidId")
    case True
    then have "node_inv J V n s'" using assms(2) grant unfolding grant(1) node_inv_def
      by (auto simp: granted_def)
    then show ?thesis using assms(3) by (intro exI [of _ "{}"]) simp
  next
    case False
    let ?V = "V \<union> {n} \<times> {(ev_term s, m_from m)}"
    have old: "c = m_from m" if "(n, ev_term s, c) \<in> V" for c
      using assms(2,3) that grant(8) unfolding node_inv_def votes_ok_def by metis
    have "votes_ok ?V"
      using votes_ok_insert [OF assms(3), of "ev_term s" "m_from m" n] old False grant(4,5) by auto
    moreover have "node_inv J ?V n s'"
      using assms(2) grant old unfolding grant(1) node_inv_def by (auto intro: elected_mono)
    ultimately show ?thesis by blast
  qed
next
  case (refuse x)
  then have "node_inv J V n s'" using assms(2) unfolding refuse(1) node_inv_def by (auto simp: granted_def)
  then show ?thesis using assms(3) by (intro exI [of _ "{}"]) simp
qed (use assms(2,3) in \<open>auto simp: node_inv_def intro!: exI [of _ "{}"]\<close>)

lemma node_inv_steps:
  assumes "(election_step m J)\<^sup>*\<^sup>* s s'" "node_inv J V n s" "votes_ok V"
    "m_type m = MSG_REQUEST_VOTE_RESPONSE \<longrightarrow> m_to m = n \<and> (granted m \<longrightarrow> (m_from m, m_term m, n) \<in> V)"
  shows "\<exists>X. votes_ok (V \<union> {n} \<times> X) \<and> node_inv J (V \<union> {n} \<times> X) n s'"
  using assms(1)
proof induction
  case base
  then show ?case using assms(2,3) by (intro exI [of _ "{}"]) simp
next
  case (step t u)
  then obtain X where "votes_ok (V \<union> {n} \<times> X)" "node_inv J (V \<union> {n} \<times> X) n t" by blast
  from node_inv_step [OF step(2) this(2,1)] assms(4) obtain Y where
    "votes_ok (V \<union> {n} \<times> X \<union> {n} \<times> Y)" "node_inv J (V \<union> {n} \<times> X \<union> {n} \<times> Y) n u" by blast
  then show ?case by (intro exI [of _ "X \<union> Y"]) (simp add: Sigma_Un_distrib2 Un_assoc)
qed

section \<open>The invariant of a group\<close>

definition cluster_inv :: "JointConfiguration set \<Rightarrow> votes \<Rightarrow> 's cluster \<Rightarrow> bool" where
  "cluster_inv J V c \<longleftrightarrow> votes_ok V \<and>
     (\<forall>n r. cl_nodes c n = Some r \<longrightarrow> node_inv J V n (election_view r)) \<and>
     (\<forall>x \<in> cl_net c. granted x \<longrightarrow> (m_from x, m_term x, m_to x) \<in> V)"

lemma cluster_inv_node:
  assumes "cluster_inv J V c" "cl_nodes c n = Some r" "elects m J r r'"
    "m_type m = MSG_REQUEST_VOTE_RESPONSE \<longrightarrow> m \<in> cl_net c \<and> m_to m = n"
  shows "\<exists>V'. V \<subseteq> V' \<and> cluster_inv J V' (c\<lparr>cl_nodes := (cl_nodes c)(n \<mapsto> r')\<rparr>)"
proof -
  have "node_inv J V n (election_view r)" "votes_ok V" using assms(1,2) by (auto simp: cluster_inv_def)
  moreover have "m_type m = MSG_REQUEST_VOTE_RESPONSE \<longrightarrow> m_to m = n \<and> (granted m \<longrightarrow> (m_from m, m_term m, n) \<in> V)"
    using assms(1,4) unfolding cluster_inv_def by blast
  ultimately obtain X where "votes_ok (V \<union> {n} \<times> X)" "node_inv J (V \<union> {n} \<times> X) n (election_view r')"
    using node_inv_steps [OF assms(3)] by blast
  then have "cluster_inv J (V \<union> {n} \<times> X) (c\<lparr>cl_nodes := (cl_nodes c)(n \<mapsto> r')\<rparr>)"
    using assms(1) by (auto simp: cluster_inv_def intro!: node_inv_other)
  then show ?thesis by blast
qed

lemma app_call_quiet: "app_call E r r' \<Longrightarrow> quiet r r'"
  by (induction rule: app_call.induct)
    (auto simp: settings_quiet Raft_CommitApply_def dest: OnPersistEntries_quiet OnPersistSnapshot_quiet CommitApply_quiet
      RequestSnapshot_quiet Ping_quiet GroupCommit_quiet AssignCommitGroups_quiet AdjustMaxInflight_quiet)

lemma cluster_inv_step:
  assumes "cluster_step E J c c'" "cluster_inv J V c"
  shows "\<exists>V'. V \<subseteq> V' \<and> cluster_inv J V' c'"
  using assms(1)
proof cases
  case (deliver n r m res r')
  have "elects m J r r'" using deliver(6,3,4,7) by (rule Step_elects)
  with assms(2) deliver(2) show ?thesis unfolding deliver(1) using deliver(5) by (rule cluster_inv_node)
next
  case (tick n r b r')
  have "elects ex_hup J r r'" using tick(4,3) by (rule Tick_elects)
  with assms(2) tick(2) show ?thesis unfolding tick(1) by (rule cluster_inv_node) (simp add: ex_hup_def)
next
  case (call n r r')
  have "elects ex_hup J r r'" using app_call_quiet [OF call(3)] by simp
  with assms(2) call(2) show ?thesis unfolding call(1) by (rule cluster_inv_node) (simp add: ex_hup_def)
next
  case (conf_change n r cc res r')
  have "elects ex_hup J r r'" using conf_change(3,4) by (rule ApplyConfChange_elects)
  with assms(2) conf_change(2) show ?thesis unfolding conf_change(1)
    by (rule cluster_inv_node) (simp add: ex_hup_def)
next
  case (send n r)
  have inv: "node_inv J V n (election_view r)" using assms(2) send(2) by (simp add: cluster_inv_def)
  have "node_inv J V n (election_view (r\<lparr>r_messages := []\<rparr>))"
    using inv by (simp add: node_inv_def election_view_def)
  moreover have "(m_from x, m_term x, m_to x) \<in> V" if "x \<in> set (r_messages r)" "granted x" for x
    using inv that by (auto simp: node_inv_def vote_responses_def granted_def)
  ultimately have "cluster_inv J V c'" using assms(2) unfolding send(1) cluster_inv_def by auto
  then show ?thesis by blast
next
  case (restart n r config store draws r')
  have "node_inv J V n (election_view r)" using assms(2) restart(2) by (simp add: cluster_inv_def)
  then have "node_inv J V n (election_view r')"
    using Raft_new_view [OF restart(4)] restart(3,5-7) by (simp add: node_inv_def)
  then have "cluster_inv J V c'" using assms(2) unfolding restart(1) cluster_inv_def by auto
  then show ?thesis by blast
qed

lemma cluster_inv_steps:
  "(cluster_step E J)\<^sup>*\<^sup>* c c' \<Longrightarrow> cluster_inv J V c \<Longrightarrow> \<exists>V'. V \<subseteq> V' \<and> cluster_inv J V' c'"
  by (induction rule: rtranclp_induct) (blast, meson cluster_inv_step order_trans)

lemma cluster_start_inv:
  assumes "cluster_start E J c"
  shows "cluster_inv J {} c"
proof -
  have "node_inv J {} n (election_view r)" if n: "cl_nodes c n = Some r" for n r
  proof -
    obtain config store draws where "c_id config = n" "Raft_new (E n) config store draws = Some r"
      and "tc_voters (r_conf r) \<in> J" using assms n unfolding cluster_start_def by blast
    then show ?thesis using Raft_new_view [of "E n" config store draws r] by (simp add: node_inv_def)
  qed
  then show ?thesis using assms by (simp add: cluster_inv_def cluster_start_def votes_ok_def)
qed

lemma leader_elected:
  "cluster_inv J V c \<Longrightarrow> cl_nodes c n = Some r \<Longrightarrow> r_state r = Leader \<Longrightarrow> elected J V n (r_term r)"
  unfolding cluster_inv_def node_inv_def by (metis election_view_sel(1,4))

section \<open>Election safety\<close>

text \<open>
  C1. There is at most one leader per term: in every run of a group whose configurations have
  overlapping quorums, a node that leads a term and a node that leads the same term then or later are
  the same node, whatever messages are lost, repeated, reordered or forged, votes apart, and whichever nodes stop and
  start again with the term and the vote they had.
\<close>

theorem election_safety:
  assumes "cluster_start E J c0" "overlapping J" "(cluster_step E J)\<^sup>*\<^sup>* c0 c1" "(cluster_step E J)\<^sup>*\<^sup>* c1 c2"
    "cl_nodes c1 a = Some ra" "r_state ra = Leader" "cl_nodes c2 b = Some rb" "r_state rb = Leader"
    "r_term ra = r_term rb"
  shows "a = b"
proof -
  obtain V1 where v1: "cluster_inv J V1 c1" using cluster_inv_steps [OF assms(3) cluster_start_inv [OF assms(1)]] by blast
  then obtain V2 where v2: "V1 \<subseteq> V2" "cluster_inv J V2 c2" using cluster_inv_steps [OF assms(4)] by blast
  have "elected J V2 a (r_term ra)" using leader_elected [OF v1 assms(5,6)] v2(1) by (rule elected_mono)
  moreover have "elected J V2 b (r_term ra)" using leader_elected [OF v2(2) assms(7,8)] assms(9) by simp
  ultimately show ?thesis using assms(2) v2(2) elected_unique by (auto simp: cluster_inv_def)
qed

lemma overlapping_singleton:
  assumes "joint_wf jc" "jc_incoming jc \<noteq> []"
  shows "overlapping {jc}"
proof -
  have "\<exists>v. c1 v = Some True \<and> c2 v = Some True"
    if "JointConfiguration_GetVoteResult c1 jc = Won" "JointConfiguration_GetVoteResult c2 jc = Won" for c1 c2
    using joint.quorum_intersect [of jc "{v. c1 v = Some True}" "{v. c2 v = Some True}"] assms that
    by (auto simp: joint_won_iff)
  then show ?thesis by (simp add: overlapping_def)
qed

text \<open>The run in which node 1 campaigns and wins.\<close>

definition ex_start :: "MemoryStorage cluster" where
  "ex_start = \<lparr>cl_nodes = (\<lambda>n. if n \<in> {1, 2, 3} then Some (ex_node n) else None), cl_net = {}\<rparr>"

definition ex_won :: "MemoryStorage cluster" where
  "ex_won = \<lparr>cl_nodes = (cl_nodes ex_start)(1 \<mapsto> ex_leader, 2 \<mapsto> ex_voter\<lparr>r_messages := []\<rparr>), cl_net = set (r_messages ex_voter)\<rparr>"

lemma ex_start_ok: "cluster_start (\<lambda>_. ex_env) {ex_jc} ex_start"
proof -
  have "tc_voters (r_conf (ex_node n)) = ex_jc \<and> Raft_new ex_env (ex_config n) ex_store 0 = Some (ex_node n)"
    if "n \<in> {1, 2, 3}" for n
    using that ex_node_eval by (auto simp: ex_node_def)
  moreover have "c_id (ex_config n) = n" for n by (simp add: ex_config_def)
  ultimately show ?thesis by (auto simp: cluster_start_def ex_start_def split: if_splits)
qed

lemma ex_run: "(cluster_step (\<lambda>_. ex_env) {ex_jc})\<^sup>*\<^sup>* ex_start ex_won"
proof -
  let ?c1 = "ex_start\<lparr>cl_nodes := (cl_nodes ex_start)(1 \<mapsto> ex_candidate)\<rparr>"
  let ?c2 = "?c1\<lparr>cl_nodes := (cl_nodes ?c1)(2 \<mapsto> ex_voter)\<rparr>"
  let ?c3 = "?c2\<lparr>cl_nodes := (cl_nodes ?c2)(2 \<mapsto> ex_voter\<lparr>r_messages := []\<rparr>),
                cl_net := cl_net ?c2 \<union> set (r_messages ex_voter)\<rparr>"
  let ?step = "cluster_step (\<lambda>_. ex_env) {ex_jc}"
  note evals = ex_node_eval ex_candidate_eval ex_voter_eval ex_leader_eval
  have p: "peer_message ex_hup" "peer_message ex_request" "peer_message ex_response"
    by (simp_all add: peer_message_def ex_hup_def ex_request_def ex_response_def default_message_def)
  have "?step ex_start ?c1"
    by (rule cluster_step.deliver [where m = ex_hup and r = "ex_node 1"])
      (use evals p in \<open>auto simp: ex_start_def ex_hup_def\<close>)
  moreover have "?step ?c1 ?c2"
    by (rule cluster_step.deliver [where m = ex_request and r = "ex_node 2"])
      (use evals p in \<open>auto simp: ex_start_def ex_request_def\<close>)
  moreover have "?step ?c2 ?c3" by (rule cluster_step.send) simp
  moreover have "?step ?c3 (?c3\<lparr>cl_nodes := (cl_nodes ?c3)(1 \<mapsto> ex_leader)\<rparr>)"
    by (rule cluster_step.deliver [where m = ex_response and r = ex_candidate])
      (use evals p in \<open>auto simp: ex_start_def ex_response_def\<close>)
  moreover have "?c3\<lparr>cl_nodes := (cl_nodes ?c3)(1 \<mapsto> ex_leader)\<rparr> = ex_won"
    by (auto simp: ex_won_def ex_start_def)
  ultimately show ?thesis by (metis (no_types, lifting) rtranclp.simps)
qed

theorem election_safety_witness:
  "{n. \<exists>r. cl_nodes ex_won n = Some r \<and> r_state r = Leader \<and> r_term r = 1} = {1}"
proof -
  have "overlapping {ex_jc}" by (rule overlapping_singleton) (simp_all add: ex_jc_def joint_wf_def)
  moreover have "cl_nodes ex_won 1 = Some ex_leader" by (simp add: ex_won_def)
  ultimately show ?thesis
    using election_safety [OF ex_start_ok _ ex_run rtranclp.rtrancl_refl, of 1 ex_leader] ex_leader_eval by auto
qed

end
