(* ===== verification/NodeLog.thy ===== *)
theory NodeLog
  imports Election "HOL-Library.Sublist"
begin

text \<open>
  What handling messages does to the log of a node, over any storage that keeps the contract of
  \<open>log_storage\<close>: nothing committed is lost or replaced, and a leader only appends.
\<close>

section \<open>The log behind a node\<close>

text \<open>What the log of a node says: the stored part as the contract sees it, and the cursors.\<close>

definition log_view :: "('s \<Rightarrow> bool) \<Rightarrow> ('s \<Rightarrow> u64) \<Rightarrow> ('s \<Rightarrow> entry list) \<Rightarrow> 's RaftLog \<Rightarrow>
    bool \<times> u64 \<times> entry list \<times> Unstable \<times> u64 \<times> u64 \<times> u64" where
  "log_view ok first ents l =
     (ok (rl_store l), first (rl_store l), ents (rl_store l), rl_unstable l, rl_committed l, rl_persisted l, rl_applied l)"

lemma log_view_cong:
  assumes "log_view ok first ents l' = log_view ok first ents l"
  shows "log_first first l' = log_first first l" "log_ents first ents l' = log_ents first ents l"
    "log_wf ok first ents l' = log_wf ok first ents l" "rl_committed l' = rl_committed l"
proof -
  have eq: "ok (rl_store l') = ok (rl_store l)" "first (rl_store l') = first (rl_store l)"
    "ents (rl_store l') = ents (rl_store l)" "rl_unstable l' = rl_unstable l" "rl_committed l' = rl_committed l"
    "rl_persisted l' = rl_persisted l" "rl_applied l' = rl_applied l"
    using assms by (simp_all add: log_view_def)
  show f: "log_first first l' = log_first first l" by (simp add: log_first_def eq cong: option.case_cong)
  show e: "log_ents first ents l' = log_ents first ents l" by (simp add: log_ents_def eq cong: option.case_cong)
  show "log_wf ok first ents l' = log_wf ok first ents l" unfolding log_wf_def f e by (simp add: eq)
  show "rl_committed l' = rl_committed l" by (rule eq)
qed

lemma log_extends_cong:
  assumes "log_view ok first ents k' = log_view ok first ents k" "log_view ok first ents l' = log_view ok first ents l"
  shows "log_extends ok first ents k' l' = log_extends ok first ents k l"
  unfolding log_extends_def using log_view_cong [OF assms(1)] log_view_cong [OF assms(2)] by simp

text \<open>The log as one list depends on the view only.\<close>

definition view_ents :: "bool \<times> u64 \<times> entry list \<times> Unstable \<times> u64 \<times> u64 \<times> u64 \<Rightarrow> u64 \<times> entry list" where
  "view_ents v = (case v of (_, f, es, u, _) \<Rightarrow>
     (case un_snapshot u of
        Some sn \<Rightarrow> (sn_index sn + 1, un_entries u)
      | None \<Rightarrow> (f, take (unat (un_offset u) - unat f) es @ un_entries u)))"

lemma view_ents_log: "view_ents (log_view ok first ents l) = (log_first first l, log_ents first ents l)"
  by (simp add: view_ents_def log_view_def log_first_def log_ents_def split: option.split)

lemma stamp_entries_contig: "contig (i + 1) (stamp_entries t i es)"
  by (induction t i es rule: stamp_entries.induct) simp_all

lemma length_stamp_entries [simp]: "length (stamp_entries t i es) = length es"
  by (induction t i es rule: stamp_entries.induct) simp_all

text \<open>
  A message that a node of a group can send: the entries of an append follow the index before them and
  carry terms, and so does that index unless it is the beginning of the log.
\<close>

definition log_message :: "message \<Rightarrow> bool" where
  "log_message m \<longleftrightarrow>
     (m_type m = MSG_APPEND \<longrightarrow> (m_log_term m \<noteq> 0 \<or> m_index m = 0) \<and> contig (m_index m + 1) (m_entries m) \<and>
        Suc (unat (m_index m)) + length (m_entries m) < 2 ^ 64 \<and> (\<forall>e \<in> set (m_entries m). e_term e \<noteq> 0)) \<and>
     (m_type m = MSG_SNAPSHOT \<longrightarrow> sn_index (m_snapshot m) < u64_max)"

text \<open>A node and the storage it is given.\<close>

locale node_storage = log_storage +
  fixes E :: "'a Env"
  assumes env_ops: "env_storage E = ops"
begin

abbreviation lv :: "'a Raft \<Rightarrow> bool \<times> u64 \<times> entry list \<times> Unstable \<times> u64 \<times> u64 \<times> u64" where
  "lv r \<equiv> log_view inv first ents (r_log r)"

text \<open>From one view to another without losing anything committed.\<close>

definition keeps_view :: "bool \<times> u64 \<times> entry list \<times> Unstable \<times> u64 \<times> u64 \<times> u64 \<Rightarrow>
    bool \<times> u64 \<times> entry list \<times> Unstable \<times> u64 \<times> u64 \<times> u64 \<Rightarrow> bool" where
  "keeps_view v v' \<longleftrightarrow> (\<forall>l l'. log_view inv first ents l = v \<longrightarrow> log_view inv first ents l' = v' \<longrightarrow> lwf l \<longrightarrow> ext l l')"

abbreviation keeps :: "'a Raft \<Rightarrow> 'a Raft \<Rightarrow> bool" where
  "keeps r r' \<equiv> keeps_view (lv r) (lv r')"

lemma keepsI: "(lwf (r_log r) \<Longrightarrow> ext (r_log r) (r_log r')) \<Longrightarrow> keeps r r'"
  unfolding keeps_view_def using log_extends_cong log_view_cong(3) by metis

lemma keepsD: "keeps r r' \<Longrightarrow> lwf (r_log r) \<Longrightarrow> ext (r_log r) (r_log r')"
  unfolding keeps_view_def by blast

lemma keeps_refl [simp]: "keeps r r"
  by (rule keepsI) (rule log_extends_refl)

lemma keeps_trans: "keeps r r1 \<Longrightarrow> keeps r1 r2 \<Longrightarrow> keeps r r2"
  by (rule keepsI) (meson keepsD log_extends_def log_extends_trans)

lemma lv_log: "r_log r' = r_log r \<Longrightarrow> lv r' = lv r"
  by simp

lemma reads_view: "log_reads ops l l' \<Longrightarrow> log_view inv first ents l' = log_view inv first ents l"
proof (induction rule: rtranclp_induct)
  case (step l1 l2)
  from step.hyps(2) have "log_view inv first ents l2 = log_view inv first ents l1"
    by cases (auto simp: log_view_def dest: st_Entries_frame st_GetSnapshot_frame)
  then show ?case using step.IH by simp
qed simp

lemma limit_view [simp]:
  "log_view inv first ents (l\<lparr>rl_max_apply_unpersisted_log_limit := x\<rparr>) = log_view inv first ents l"
  by (simp add: log_view_def)

section \<open>Operations that only read the log\<close>

lemma Send_same: "Raft_Send m r = Some r' \<Longrightarrow> lv r' = lv r"
  by (auto simp: Raft_Send_def elim!: bind_SomeE)

lemma SendAppend_to_same: "Raft_SendAppend_to E to pr r = Some r' \<Longrightarrow> lv r' = lv r"
  by (auto simp: Raft_SendAppend_to_def RaftCore_SendAppend_def env_ops elim!: bind_SomeE
      dest!: MaybeSendAppend_shape reads_view)

lemma MaybeSendAppend_to_same: "Raft_MaybeSendAppend_to E to allow pr r = Some r' \<Longrightarrow> lv r' = lv r"
  by (auto simp: Raft_MaybeSendAppend_to_def env_ops elim!: bind_SomeE dest!: MaybeSendAppend_shape reads_view)

lemma SendAppend_same: "Raft_SendAppend E to r = Some r' \<Longrightarrow> lv r' = lv r"
  by (auto simp: Raft_SendAppend_def elim!: bind_SomeE dest: SendAppend_to_same)

lemma SendAppendAggressively_same: "Raft_SendAppendAggressively E to r = Some r' \<Longrightarrow> lv r' = lv r"
  by (auto simp: Raft_SendAppendAggressively_def env_ops elim!: bind_SomeE dest!: Aggressively_shape reads_view)

lemma each_peer_same:
  assumes "\<And>peer pr r r'. f peer pr r = Some r' \<Longrightarrow> lv r' = lv r"
  shows "each_peer f peers r = Some r' \<Longrightarrow> lv r' = lv r"
  by (induction peers arbitrary: r) (auto split: if_splits elim!: bind_SomeE dest!: assms)

lemma BroadcastAppend_same: "Raft_BroadcastAppend E r = Some r' \<Longrightarrow> lv r' = lv r"
  unfolding Raft_BroadcastAppend_def by (rule each_peer_same) (rule SendAppend_to_same)

lemma each_MaybeSendAppend_same:
  "each_peer (\<lambda>to. Raft_MaybeSendAppend_to E to allow) peers r = Some r' \<Longrightarrow> lv r' = lv r"
  by (rule each_peer_same) (rule MaybeSendAppend_to_same)

lemma BroadcastHeartbeat_ctx_same: "Raft_BroadcastHeartbeat_ctx ctx r = Some r' \<Longrightarrow> lv r' = lv r"
  unfolding Raft_BroadcastHeartbeat_ctx_def Raft_SendHeartbeat_def by (rule each_peer_same) (rule Send_same)

lemma BroadcastHeartbeat_same: "Raft_BroadcastHeartbeat r = Some r' \<Longrightarrow> lv r' = lv r"
  unfolding Raft_BroadcastHeartbeat_def by (rule BroadcastHeartbeat_ctx_same)

lemma SendTimeoutNow_same: "Raft_SendTimeoutNow to r = Some r' \<Longrightarrow> lv r' = lv r"
  unfolding Raft_SendTimeoutNow_def by (rule Send_same)

lemma SendRequestSnapshot_same: "Raft_SendRequestSnapshot E r = Some r' \<Longrightarrow> lv r' = lv r"
  by (auto simp: Raft_SendRequestSnapshot_def elim!: bind_SomeE dest!: Send_same)

lemma HasUnapplied_same: "Raft_HasUnappliedConfChanges E low high ctx r = Some (b, r') \<Longrightarrow> lv r' = lv r"
  by (auto simp: Raft_HasUnappliedConfChanges_def env_ops split: if_splits elim!: bind_SomeE dest!: Scan_reads reads_view)

lemma request_votes_same: "request_votes request peers r = Some r' \<Longrightarrow> lv r' = lv r"
  by (induction peers arbitrary: r) (auto split: if_splits elim!: bind_SomeE dest!: Send_same)

lemma answer_read_same: "Raft_answer_read req index r = Some r' \<Longrightarrow> lv r' = lv r"
  by (auto simp: Raft_answer_read_def Raft_HandleReadyReadIndex_def Let_def split: if_splits dest!: Send_same)

lemma answer_reads_same: "Raft_answer_reads rss r = Some r' \<Longrightarrow> lv r' = lv r"
  by (induction rss arbitrary: r) (auto elim!: bind_SomeE dest!: answer_read_same)

lemma recv_read_ack_same: "Raft_recv_read_ack peer ctx r = Some r' \<Longrightarrow> lv r' = lv r"
  by (auto simp: Raft_recv_read_ack_def Let_def split: prod.splits option.splits if_splits
      elim!: bind_SomeE dest!: answer_reads_same)

lemma Reset_same: "Raft_Reset E t r = Some r' \<Longrightarrow> lv r' = lv r"
  by (auto simp: Raft_Reset_def Let_def Raft_ResetRandomizedElectionTimeout_def Raft_AbortLeaderTransfer_def
      elim!: bind_SomeE)

lemma BecomeFollower_same: "Raft_BecomeFollower E t lead r = Some r' \<Longrightarrow> lv r' = lv r"
  by (auto simp: Raft_BecomeFollower_def Let_def elim!: bind_SomeE dest!: Reset_same)

lemma BecomePreCandidate_same: "Raft_BecomePreCandidate r = Some r' \<Longrightarrow> lv r' = lv r"
  by (auto simp: Raft_BecomePreCandidate_def elim!: bind_SomeE)

lemma BecomeCandidate_same: "Raft_BecomeCandidate E r = Some r' \<Longrightarrow> lv r' = lv r"
  by (auto simp: Raft_BecomeCandidate_def elim!: bind_SomeE dest!: Reset_same)


section \<open>Operations that change the log\<close>

definition room :: "nat \<Rightarrow> 'a Raft \<Rightarrow> bool" where
  "room k r \<longleftrightarrow> unat (lf (r_log r)) + length (le (r_log r)) + k < 2 ^ 64"

lemma room_cong: "lv r' = lv r \<Longrightarrow> room k r' = room k r"
  using log_view_cong(1,2) [of inv first ents "r_log r'" "r_log r"] by (simp add: room_def)

lemma AppendEntry_ext:
  assumes "Raft_AppendEntry E es r = Some (b, r')" "lwf (r_log r)" "room (length es) r"
  shows "ext (r_log r) (r_log r') \<and> lf (r_log r') = lf (r_log r) \<and> (\<exists>xs. le (r_log r') = le (r_log r) @ xs)"
proof (cases b)
  case True
  then obtain i j log where a: "RaftLog_LastIndex ops (r_log r) = Some i"
    "RaftLog_Append ops (stamp_entries (r_term r) i es) (r_log r) = Some (j, log)" "r_log r' = log"
    using assms(1) by (auto simp: Raft_AppendEntry_def Let_def env_ops split: prod.splits if_splits elim!: bind_SomeE)
  have i: "i = lf (r_log r) + of_nat (length (le (r_log r))) - 1" using LastIndex_eq [OF assms(2)] a(1) by simp
  have "Suc (unat i) + length es < 2 ^ 64"
    using last_unat [OF assms(2)] lwf_offset(4) [OF assms(2)] assms(3) unfolding i room_def by linarith
  then show ?thesis
    using Append_ext [OF assms(2) a(1) stamp_entries_contig _ a(2)] a(3) by auto
next
  case False
  then have "r_log r' = r_log r"
    using assms(1) by (auto simp: Raft_AppendEntry_def Let_def split: prod.splits if_splits elim!: bind_SomeE)
  then show ?thesis using assms(2) by (auto simp: log_extends_refl)
qed

lemma AppendEntry_keeps: "Raft_AppendEntry E es r = Some (b, r') \<Longrightarrow> room (length es) r \<Longrightarrow> keeps r r'"
  by (rule keepsI) (blast dest: AppendEntry_ext)

lemma log_update_keeps: "(lwf (r_log r) \<Longrightarrow> ext (r_log r) l) \<Longrightarrow> r_log r' = l \<Longrightarrow> keeps r r'"
  by (rule keepsI) simp

lemma MaybeCommit_keeps: "Raft_MaybeCommit E r = Some (b, r') \<Longrightarrow> keeps r r'"
  by (rule keepsI) (auto simp: Raft_MaybeCommit_def Let_def env_ops split: prod.splits if_splits elim!: bind_SomeE
      dest!: MaybeCommit_ext [rotated])

lemma BecomeLeader_keeps:
  assumes "Raft_BecomeLeader E r = Some r'" "room 1 r"
  shows "keeps r r'"
proof -
  obtain r1 where a: "Raft_AppendEntry E [default_entry] r1 = Some (True, r')" "lv r1 = lv r"
  proof -
    obtain r0 where r0: "Raft_Reset E (r_term r) r = Some r0" and
      "\<exists>r1. Raft_AppendEntry E [default_entry] r1 = Some (True, r') \<and> r_log r1 = r_log r0"
      using assms(1) unfolding Raft_BecomeLeader_def Let_def
      by (elim bind_SomeE) (clarsimp elim!: bind_SomeE, rule that, assumption, rule exI, rule conjI, assumption, simp)
    then show ?thesis using that Reset_same [OF r0] by auto
  qed
  then show ?thesis using AppendEntry_keeps [OF a(1)] assms(2) room_cong [OF a(2), of 1] by simp
qed

lemma Poll_plain_keeps:
  assumes "Raft_Poll E from vote r = Some (res, r')" "r_state r \<noteq> PreCandidate" "room 1 r"
  shows "keeps r r'"
proof -
  let ?r = "poll_record from vote r"
  consider "r' = ?r" | "Raft_BecomeFollower E (r_term r) kInvalidId ?r = Some r'"
    | r1 where "Raft_BecomeLeader E ?r = Some r1" "Raft_BroadcastAppend E r1 = Some r'"
    using assms(1,2) by (auto simp: Raft_Poll.simps Let_def split: VoteResult.splits elim!: bind_SomeE)
  then show ?thesis
  proof cases
    case 1
    then show ?thesis by simp
  next
    case 2
    then show ?thesis using BecomeFollower_same [OF 2] by simp
  next
    case 3
    have "keeps ?r r1" using 3(1) by (rule BecomeLeader_keeps) (use assms(3) room_cong [of ?r r] in simp)
    then show ?thesis using BroadcastAppend_same [OF 3(2)] by simp
  qed
qed

lemma campaign_requests_same:
  "do { (commit, commit_term) \<leftarrow> RaftLog_CommitInfo (env_storage E) (r_log r);
      request_votes (vote_request E vote_msg trm ct commit commit_term) peers r } = Some r' \<Longrightarrow> lv r' = lv r"
  by (elim bind_SomeE) (auto dest: request_votes_same)

lemma Campaign_plain_keeps:
  assumes "Raft_Campaign E ct r = Some r'" "ct \<noteq> kCampaignPreElection" "room 1 r"
  shows "keeps r r'"
proof -
  obtain r1 res r2 where c: "Raft_BecomeCandidate E r = Some r1" and p: "Raft_Poll E (r_id r1) True r1 = Some (res, r2)"
    and t: "(if res = Won then Some r2 else do { (commit, commit_term) \<leftarrow> RaftLog_CommitInfo (env_storage E) (r_log r2);
         request_votes (vote_request E MSG_REQUEST_VOTE (r_term r1) ct commit commit_term)
           (JointConfiguration_IDs (tc_voters (r_conf r2))) r2 }) = Some r'"
    using assms(1,2) by (auto simp: Raft_Campaign.simps elim!: bind_SomeE split: if_splits)
  have same: "lv r1 = lv r" using c by (rule BecomeCandidate_same)
  have "keeps r1 r2" using p
    by (rule Poll_plain_keeps) (use BecomeCandidate_state [OF c] assms(3) room_cong [OF same] in simp_all)
  moreover have "lv r' = lv r2" using t by (auto split: if_splits dest: campaign_requests_same)
  ultimately show ?thesis using same by simp
qed

lemma Poll_keeps:
  assumes "Raft_Poll E from vote r = Some (res, r')" "room 1 r"
  shows "keeps r r'"
proof (cases "r_state r = PreCandidate")
  case True
  let ?r = "poll_record from vote r"
  consider "r' = ?r" | "Raft_BecomeFollower E (r_term r) kInvalidId ?r = Some r'"
    | "Raft_Campaign E kCampaignElection ?r = Some r'"
    using assms(1) True by (auto simp: Raft_Poll.simps Let_def split: VoteResult.splits elim!: bind_SomeE)
  then show ?thesis
  proof cases
    case 1
    then show ?thesis by simp
  next
    case 2
    then show ?thesis using BecomeFollower_same [OF 2] by simp
  next
    case 3
    have "keeps ?r r'" using 3 by (rule Campaign_plain_keeps)
        (use assms(2) room_cong [of ?r r] in \<open>simp_all add: kCampaignPreElection_def kCampaignElection_def\<close>)
    then show ?thesis by simp
  qed
qed (use assms Poll_plain_keeps in blast)

lemma Campaign_keeps:
  assumes "Raft_Campaign E ct r = Some r'" "room 1 r"
  shows "keeps r r'"
proof (cases "ct = kCampaignPreElection")
  case True
  then obtain r1 res r2 where c: "Raft_BecomePreCandidate r = Some r1" and p: "Raft_Poll E (r_id r1) True r1 = Some (res, r2)"
    and t: "(if res = Won then Some r2 else do { (commit, commit_term) \<leftarrow> RaftLog_CommitInfo (env_storage E) (r_log r2);
         request_votes (vote_request E MSG_REQUEST_PRE_VOTE (r_term r1 + 1) ct commit commit_term)
           (JointConfiguration_IDs (tc_voters (r_conf r2))) r2 }) = Some r'"
    using assms(1) by (auto simp: Raft_Campaign.simps elim!: bind_SomeE split: if_splits)
  have same: "lv r1 = lv r" using c by (rule BecomePreCandidate_same)
  have "keeps r1 r2" using p by (rule Poll_keeps) (use assms(2) room_cong [OF same] in simp)
  moreover have "lv r' = lv r2" using t by (auto split: if_splits dest: campaign_requests_same)
  ultimately show ?thesis using same by simp
qed (use assms Campaign_plain_keeps in blast)

lemma Hup_keeps:
  assumes "Raft_Hup E transfer r = Some r'" "room 1 r"
  shows "keeps r r'"
proof -
  consider "lv r' = lv r" | r1 ct where "lv r1 = lv r" "Raft_Campaign E ct r1 = Some r'"
    using assms(1) by (auto simp: Raft_Hup_def Let_def split: if_splits elim!: bind_SomeE dest!: HasUnapplied_same)
  then show ?thesis
  proof cases
    case 2
    then show ?thesis using Campaign_keeps [OF 2(2)] room_cong [OF 2(1)] assms(2) by simp
  qed simp
qed


lemma PostConfChange_keeps:
  assumes "Raft_PostConfChange E r = Some (cs, r')"
  shows "keeps r r'"
proof (cases "r_state r \<noteq> Leader \<or> cs_voters (TrackerConfiguration_ToConfState (r_conf r)) = [] \<or>
    \<not> JointConfiguration_Contains (r_id r) (tc_voters (r_conf r))")
  case True
  then show ?thesis using assms by (auto simp: Raft_PostConfChange_def Let_def split: if_splits)
next
  case False
  then obtain c r1 r2 r3 where a: "Raft_MaybeCommit E (r\<lparr>r_promotable := True\<rparr>) = Some (c, r1)"
    and b: "(if c then Raft_BroadcastAppend E r1
          else each_peer (\<lambda>to. Raft_MaybeSendAppend_to E to False) (Raft_peers r1) r1) = Some r2"
    and d: "(case ReadOnly_LastPendingRequestCtx (r_read_only r2) of
            Some ctx \<Rightarrow> Raft_recv_read_ack (r_id r2) ctx r2 | None \<Rightarrow> Some r2) = Some r3"
    and r': "r' = (case r_lead_transferee r3 of
                 Some transferee \<Rightarrow>
                   if JointConfiguration_Contains transferee (tc_voters (r_conf r3)) then r3
                   else Raft_AbortLeaderTransfer r3
               | None \<Rightarrow> r3)"
    using assms by (auto simp: Raft_PostConfChange_def Let_def elim!: bind_SomeE)
  have "lv r2 = lv r1" "lv r3 = lv r2"
    using b d by (auto split: if_splits option.splits dest: BroadcastAppend_same recv_read_ack_same each_MaybeSendAppend_same)
  moreover have "lv r' = lv r3" by (simp add: r' Raft_AbortLeaderTransfer_def split: option.split)
  ultimately show ?thesis using MaybeCommit_keeps [OF a] by simp
qed

lemma CommitApply_keeps:
  assumes "Raft_CommitApply E a r = Some r'" "room 1 r"
  shows "keeps r r'"
proof -
  obtain log where log: "RaftLog_AppliedTo a (r_log r) = Some log"
    using assms(1) by (auto simp: Raft_CommitApply_def Raft_CommitApplyInternal_def Let_def elim!: bind_SomeE)
  have "lf log = lf (r_log r)" "le log = le (r_log r)"
    using log by (auto simp: RaftLog_AppliedTo_def RaftLog_AppliedToUnchecked_def split: if_splits)
  then have room: "room 1 (r\<lparr>r_log := log\<rparr>)" using assms(2) by (simp add: room_def)
  have k: "keeps r (r\<lparr>r_log := log\<rparr>)" by (rule keepsI) (use AppliedTo_ext [OF _ log] in simp)
  consider "r' = r\<lparr>r_log := log\<rparr>"
    | ent b r1 x where "Raft_AppendEntry E [ent] (r\<lparr>r_log := log\<rparr>) = Some (b, r1)" "r' = r1\<lparr>r_pending_conf_index := x\<rparr>"
    using assms(1) log
    by (auto simp: Raft_CommitApply_def Raft_CommitApplyInternal_def Let_def split: if_splits elim!: bind_SomeE)
  then show ?thesis
  proof cases
    case (2 ent b r1 x)
    have "keeps (r\<lparr>r_log := log\<rparr>) r1" using 2(1) by (rule AppendEntry_keeps) (use room in simp)
    then show ?thesis using keeps_trans [OF k] 2(2) by simp
  qed (use k in simp)
qed

lemma OnPersistEntries_keeps:
  assumes "Raft_OnPersistEntries E i t r = Some r'"
  shows "keeps r r'"
proof -
  obtain u log where p: "RaftLog_MaybePersist ops i t (r_log r) = Some (u, log)"
    using assms by (auto simp: Raft_OnPersistEntries_def env_ops elim!: bind_SomeE)
  have k: "keeps r (r\<lparr>r_log := log\<rparr>)" by (rule keepsI) (use MaybePersist_ext [OF _ p] in simp)
  consider "lv r' = lv (r\<lparr>r_log := log\<rparr>)"
    | pr c r2 where "Raft_MaybeCommit E (r_put (r_id r) pr (r\<lparr>r_log := log\<rparr>)) = Some (c, r2)" "lv r' = lv r2"
    using assms p by (auto simp: Raft_OnPersistEntries_def Let_def env_ops split: if_splits prod.splits
        elim!: bind_SomeE dest!: BroadcastAppend_same)
  then show ?thesis
  proof cases
    case (2 pr c r2)
    then have "keeps (r\<lparr>r_log := log\<rparr>) r2" using MaybeCommit_keeps [OF 2(1)] by simp
    then show ?thesis using keeps_trans [OF k] 2(2) by simp
  qed (use k in simp)
qed

lemma OnPersistSnapshot_keeps: "Raft_OnPersistSnapshot i r = Some r' \<Longrightarrow> keeps r r'"
  by (rule keepsI) (auto simp: Raft_OnPersistSnapshot_def elim!: bind_SomeE dest!: MaybePersistSnapshot_ext [rotated])


section \<open>Handlers\<close>

lemma HandleAppendEntries_keeps:
  assumes "Raft_HandleAppendEntries E m r = Some r'" "log_message m" "m_type m = MSG_APPEND"
  shows "keeps r r'"
proof -
  consider "lv r' = lv r" | res log where "r_committed r \<le> m_index m"
      "RaftLog_MaybeAppend ops (m_index m) (m_log_term m) (m_commit m) (m_entries m) (r_log r) = Some (res, log)"
      "lv r' = log_view inv first ents log"
    using assms(1) by (auto simp: Raft_HandleAppendEntries_def Let_def env_ops not_less split: if_splits elim!: bind_SomeE
        dest!: Send_same SendRequestSnapshot_same)
  then show ?thesis
  proof cases
    case (2 res log)
    have "keeps r (r\<lparr>r_log := log\<rparr>)"
      by (rule keepsI) (use MaybeAppend_ext [OF _ 2(1) _ _ _ _ 2(2)] assms(2,3) in \<open>simp add: log_message_def\<close>)
    then show ?thesis using 2(3) by simp
  qed simp
qed

lemma CommitTo_keeps:
  assumes "RaftLog_CommitTo ops i (r_log r) = Some (res, log)" "lv r' = log_view inv first ents log"
  shows "keeps r r'"
proof -
  have "keeps r (r\<lparr>r_log := log\<rparr>)" by (rule keepsI) (use CommitTo_ext [OF _ assms(1)] in simp)
  then show ?thesis using assms(2) by simp
qed

lemma log_MaybeCommit_keeps:
  assumes "RaftLog_MaybeCommit ops i t (r_log r) = Some (b, log)" "lv r' = log_view inv first ents log"
  shows "keeps r r'"
proof -
  have "keeps r (r\<lparr>r_log := log\<rparr>)" by (rule keepsI) (use MaybeCommit_ext [OF _ assms(1)] in simp)
  then show ?thesis using assms(2) by simp
qed

lemma HandleHeartbeat_keeps:
  assumes "Raft_HandleHeartbeat E m r = Some r'"
  shows "keeps r r'"
proof -
  obtain res log where "RaftLog_CommitTo ops (m_commit m) (r_log r) = Some (res, log)" "lv r' = log_view inv first ents log"
    using assms by (auto simp: Raft_HandleHeartbeat_def Let_def env_ops split: if_splits elim!: bind_SomeE
        dest!: Send_same SendRequestSnapshot_same)
  then show ?thesis by (rule CommitTo_keeps)
qed

lemma MaybeCommitByVote_keeps:
  assumes "Raft_MaybeCommitByVote E m r = Some r'"
  shows "keeps r r'"
proof -
  consider "r' = r" | b log where "RaftLog_MaybeCommit ops (m_commit m) (m_commit_term m) (r_log r) = Some (b, log)"
      "lv r' = log_view inv first ents log"
    using assms by (auto simp: Raft_MaybeCommitByVote_def Let_def env_ops split: if_splits elim!: bind_SomeE
        dest!: HasUnapplied_same BecomeFollower_same)
  then show ?thesis by cases (auto dest: log_MaybeCommit_keeps)
qed

lemma Restore_keeps:
  assumes "Raft_Restore E sn r = Some (b, r')" "sn_index sn < u64_max"
  shows "keeps r r'"
proof -
  have log: "keeps r (r\<lparr>r_log := log, r_progress_tracker := t\<rparr>)" if "RaftLog_Restore sn (r_log r) = (res, log)" for res log t
    by (rule keepsI) (use Restore_ext [OF _ assms(2) that] in simp)
  consider "r' = r" | "Raft_BecomeFollower E (r_term r + 1) kInvalidId r = Some r'"
    | res log where "RaftLog_CommitTo ops (sn_index sn) (r_log r) = Some (res, log)" "lv r' = log_view inv first ents log"
    | res log where "RaftLog_Restore sn (r_log r) = (res, log)" "lv r' = log_view inv first ents log"
    | res log t cs r1 where "RaftLog_Restore sn (r_log r) = (res, log)"
        "Raft_PostConfChange E (r\<lparr>r_log := log, r_progress_tracker := t\<rparr>) = Some (cs, r1)" "lv r' = lv r1"
    using assms(1) by (auto simp: Raft_Restore_def Let_def env_ops split: if_splits sum.splits prod.splits elim!: bind_SomeE)
  then show ?thesis
  proof cases
    case 2
    then show ?thesis using BecomeFollower_same [OF 2] by simp
  next
    case (3 res log)
    then show ?thesis by (rule CommitTo_keeps)
  next
    case (4 res log)
    then show ?thesis using log [OF 4(1), of "r_progress_tracker r"] by simp
  next
    case (5 res log t cs r1)
    then show ?thesis using keeps_trans [OF log [OF 5(1)] PostConfChange_keeps [OF 5(2)]] by simp
  qed simp
qed

lemma HandleSnapshot_keeps:
  assumes "Raft_HandleSnapshot E m r = Some r'" "sn_index (m_snapshot m) < u64_max"
  shows "keeps r r'"
proof -
  obtain b r1 where "Raft_Restore E (m_snapshot m) r = Some (b, r1)" "lv r' = lv r1"
    using assms(1) by (auto simp: Raft_HandleSnapshot_def elim!: bind_SomeE dest!: Send_same)
  then show ?thesis using Restore_keeps [OF _ assms(2), of r b r1] by simp
qed


text \<open>What a leader does to its log: an append, or at most moving the commit index.\<close>

lemma committed_only: "\<exists>c. l = l\<lparr>rl_committed := c\<rparr>" "\<exists>c. l\<lparr>rl_committed := i\<rparr> = l\<lparr>rl_committed := c\<rparr>"
  by (rule exI [of _ "rl_committed l"], simp) blast

lemma log_MaybeCommit_shape: "RaftLog_MaybeCommit os i t l = Some (b, l') \<Longrightarrow> \<exists>c. l' = l\<lparr>rl_committed := c\<rparr>"
  by (auto simp: RaftLog_MaybeCommit_def RaftLog_CommitTo_def split: if_splits elim!: bind_SomeE intro!: committed_only)

lemma MaybeCommit_only:
  assumes "Raft_MaybeCommit E r = Some (b, r')"
  shows "keeps r r' \<and> view_ents (lv r') = view_ents (lv r)"
proof
  show "view_ents (lv r') = view_ents (lv r)"
    using assms unfolding view_ents_log
    by (auto simp: Raft_MaybeCommit_def Let_def split: prod.splits if_splits elim!: bind_SomeE
        dest!: log_MaybeCommit_shape)
qed (rule MaybeCommit_keeps [OF assms])

lemma HandleAppendResponse_only:
  "Raft_HandleAppendResponse E m r = Some r' \<Longrightarrow> keeps r r' \<and> view_ents (lv r') = view_ents (lv r)"
  by (auto simp: Raft_HandleAppendResponse_def Let_def split: if_splits option.splits prod.splits
      elim!: bind_SomeE dest!: BroadcastAppend_same SendAppend_same SendAppendAggressively_same SendTimeoutNow_same
        MaybeCommit_only)

lemma propose_cases:
  assumes "Raft_propose E es r = Some (res, r')"
  shows "lv r' = lv r \<or> (\<exists>b r1. Raft_AppendEntry E es r = Some (b, r1) \<and> lv r' = lv r1)"
proof (cases "es = [] \<or> r_get (r_id r) r = None \<or> r_lead_transferee r \<noteq> None \<or>
    check_proposal E (Raft_HasPendingConf r) 0 None es = None")
  case True
  then show ?thesis using assms by (auto simp: Raft_propose_def split: if_splits)
next
  case False
  then obtain pos where pos: "check_proposal E (Raft_HasPendingConf r) 0 None es = Some pos" by blast
  then obtain b r1 where "Raft_AppendEntry E es r = Some (b, r1)" "lv r' = lv r1"
    using False assms by (auto simp: Raft_propose_def Let_def split: if_splits option.splits elim!: bind_SomeE
        dest!: BroadcastAppend_same)
  then show ?thesis by blast
qed

lemma leader_reads_same:
  "Raft_read_index E m r = Some r' \<Longrightarrow> lv r' = lv r"
  "Raft_HandleHeartbeatResponse E m r = Some r' \<Longrightarrow> lv r' = lv r"
  "Raft_HandleTransferLeader E m r = Some r' \<Longrightarrow> lv r' = lv r"
  "Raft_CheckQuorumActive r = (b, r') \<Longrightarrow> lv r' = lv r"
  "lv (Raft_HandleSnapshotStatus m r) = lv r" "lv (Raft_HandleUnreachable m r) = lv r"
  by (auto simp: Raft_read_index_def Raft_HandleHeartbeatResponse_def Raft_HandleTransferLeader_def Let_def
      Raft_AbortLeaderTransfer_def Raft_CheckQuorumActive_def Raft_HandleSnapshotStatus_def Raft_HandleUnreachable_def
      split: if_splits list.splits ReadOnlyOption.splits option.splits prod.splits elim!: bind_SomeE
      dest!: answer_read_same BroadcastHeartbeat_ctx_same SendAppend_to_same recv_read_ack_same SendTimeoutNow_same)

lemma StepLeader_cases:
  assumes "Raft_StepLeader E m r = Some (res, r')"
  shows "keeps r r' \<and> view_ents (lv r') = view_ents (lv r) \<or>
    m_type m = MSG_PROPOSE \<and> (\<exists>b r1. Raft_AppendEntry E (m_entries m) r = Some (b, r1) \<and> lv r' = lv r1)"
proof (cases "m_type m = MSG_PROPOSE")
  case True
  then show ?thesis using assms propose_cases [of "m_entries m" r res r'] by (auto simp: Raft_StepLeader_def)
next
  case False
  then show ?thesis using assms
    by (auto simp: Raft_StepLeader_def Let_def leader_reads_same(5,6) split: MessageType.splits prod.splits if_splits
        elim!: bind_SomeE dest!: BroadcastHeartbeat_same leader_reads_same(1-4) BecomeFollower_same HandleAppendResponse_only)
qed

lemma StepLeader_keeps:
  assumes "Raft_StepLeader E m r = Some (res, r')" "room (length (m_entries m)) r"
  shows "keeps r r'"
  using StepLeader_cases [OF assms(1)] AppendEntry_keeps [OF _ assms(2)] by auto


section \<open>Any message\<close>

lemma leader_message_keeps:
  assumes "handle E m r = Some r'" "log_message m"
    "m_type m = MSG_APPEND \<and> handle = Raft_HandleAppendEntries \<or> handle = Raft_HandleHeartbeat \<or>
     m_type m = MSG_SNAPSHOT \<and> handle = Raft_HandleSnapshot"
  shows "keeps r r'"
  using assms(3)
proof (elim disjE conjE)
  assume "m_type m = MSG_APPEND" "handle = Raft_HandleAppendEntries"
  then show ?thesis using assms(1,2) HandleAppendEntries_keeps by simp
next
  assume "handle = Raft_HandleHeartbeat"
  then show ?thesis using assms(1) HandleHeartbeat_keeps by simp
next
  assume "m_type m = MSG_SNAPSHOT" "handle = Raft_HandleSnapshot"
  then show ?thesis using assms(1,2) HandleSnapshot_keeps [of m r r'] by (simp add: log_message_def)
qed

lemma StepCandidate_keeps:
  assumes "Raft_StepCandidate E m r = Some (res, r')" "log_message m" "room 1 r"
  shows "keeps r r'"
proof -
  consider (same) "r' = r"
    | (lead) r1 handle where "Raft_BecomeFollower E (m_term m) (m_from m) r = Some r1" "handle E m r1 = Some r'"
        "m_type m = MSG_APPEND \<and> handle = Raft_HandleAppendEntries \<or> handle = Raft_HandleHeartbeat \<or>
         m_type m = MSG_SNAPSHOT \<and> handle = Raft_HandleSnapshot"
    | (resp) v r1 where "Raft_Poll E (m_from m) (\<not> m_reject m) r = Some (v, r1)" "Raft_MaybeCommitByVote E m r1 = Some r'"
    using assms(1) by (auto simp: Raft_StepCandidate_def Let_def split: MessageType.splits if_splits elim!: bind_SomeE)
  then show ?thesis
  proof cases
    case (lead r1 handle)
    have "keeps r1 r'" using leader_message_keeps [of handle m r1 r'] lead(2,3) assms(2) by blast
    then show ?thesis using BecomeFollower_same [OF lead(1)] by simp
  next
    case (resp v r1)
    then show ?thesis using keeps_trans [OF Poll_keeps [OF resp(1) assms(3)] MaybeCommitByVote_keeps [OF resp(2)]] by simp
  qed simp
qed

lemma StepFollower_keeps:
  assumes "Raft_StepFollower E m r = Some (res, r')" "log_message m" "room 1 r"
  shows "keeps r r'"
proof -
  let ?r = "r\<lparr>r_election_elapsed := 0, r_leader_id := m_from m\<rparr>"
  consider (same) "lv r' = lv r"
    | (lead) handle where "handle E m ?r = Some r'"
        "m_type m = MSG_APPEND \<and> handle = Raft_HandleAppendEntries \<or> handle = Raft_HandleHeartbeat \<or>
         m_type m = MSG_SNAPSHOT \<and> handle = Raft_HandleSnapshot"
    | (hup) "Raft_Hup E True r = Some r'"
    | (read) b log where "RaftLog_MaybeCommit ops (m_index m) (m_term m) (r_log r) = Some (b, log)" "lv r' = log_view inv first ents log"
    using assms(1) by (auto simp: Raft_StepFollower_def Raft_forward_def Let_def env_ops
        split: MessageType.splits if_splits list.splits elim!: bind_SomeE dest!: Send_same)
  then show ?thesis
  proof cases
    case (lead handle)
    have "keeps ?r r'" using leader_message_keeps [of handle m ?r r'] lead assms(2) by blast
    then show ?thesis by simp
  next
    case hup
    then show ?thesis using assms(3) by (rule Hup_keeps)
  next
    case (read b log)
    then show ?thesis by (rule log_MaybeCommit_keeps)
  qed simp
qed

lemma vote_keeps:
  assumes "Raft_vote E m r = Some r'"
  shows "keeps r r'"
proof -
  consider "lv r' = lv r" | r1 where "lv r1 = lv r" "Raft_MaybeCommitByVote E m r1 = Some r'"
    using assms by (auto simp: Raft_vote_def Let_def split: if_splits elim!: bind_SomeE dest!: Send_same)
  then show ?thesis
  proof cases
    case (2 r1)
    then show ?thesis using MaybeCommitByVote_keeps [OF 2(2)] by simp
  qed simp
qed

lemma Step_current_keeps:
  assumes "Raft_Step_current E m r = Some (res, r')" "log_message m" "room (Suc (length (m_entries m))) r"
  shows "keeps r r'"
proof -
  have room: "room 1 r" "room (length (m_entries m)) r" using assms(3) by (auto simp: room_def)
  consider "r' = r" | "Raft_Hup E False r = Some r'" | "Raft_vote E m r = Some r'"
    | "Raft_StepCandidate E m r = Some (res, r')" | "Raft_StepFollower E m r = Some (res, r')"
    | "Raft_StepLeader E m r = Some (res, r')"
    using assms(1) by (auto simp: Raft_Step_current_def split: if_splits StateRole.splits elim!: bind_SomeE)
  then show ?thesis
    using room assms(2) Hup_keeps vote_keeps StepCandidate_keeps StepFollower_keeps StepLeader_keeps by cases auto
qed

lemma Step_keeps:
  assumes "Raft_Step E m r = Some (res, r')" "log_message m" "room (Suc (length (m_entries m))) r"
  shows "keeps r r'"
proof -
  consider "lv r' = lv r" | r1 where "lv r1 = lv r" "Raft_Step_current E m r1 = Some (res, r')"
    using assms(1) by (auto simp: Raft_Step_def Let_def split: if_splits elim!: bind_SomeE
        dest!: Send_same BecomeFollower_same)
  then show ?thesis
  proof cases
    case (2 r1)
    then show ?thesis using Step_current_keeps [OF 2(2) assms(2)] room_cong [OF 2(1)] assms(3) by simp
  qed simp
qed

text \<open>A node that stays the leader of its term.\<close>

lemma Send_role: "Raft_Send m r = Some r' \<Longrightarrow> lv r' = lv r \<and> r_state r' = r_state r"
  by (auto simp: Raft_Send_def elim!: bind_SomeE)

lemma Step_current_leader:
  assumes "Raft_Step_current E m r = Some (res, r')" "r_state r = Leader"
  shows "lv r' = lv r \<or> Raft_StepLeader E m r = Some (res, r')"
proof -
  have "lv r1 = lv r" if "Raft_vote E m r = Some r1" for r1
    using that assms(2)
    by (auto simp: Raft_vote_def Let_def Raft_MaybeCommitByVote_def split: if_splits elim!: bind_SomeE dest!: Send_role)
  then show ?thesis
    using assms by (auto simp: Raft_Step_current_def Raft_Hup_def split: if_splits elim!: bind_SomeE)
qed

lemma Step_leader_appends:
  assumes "Raft_Step E m r = Some (res, r')" "room (length (m_entries m)) r" "lwf (r_log r)"
    "r_state r = Leader" "r_term r' = r_term r" "r_term r < u64_max" "peer_message m"
  shows "lf (r_log r') = lf (r_log r) \<and> (\<exists>xs. le (r_log r') = le (r_log r) @ xs)"
proof -
  consider (same) "lv r' = lv r" | (cur) "Raft_Step_current E m r = Some (res, r')"
    | (newer) lead r1 where "r_term r < m_term m" "Raft_BecomeFollower E (m_term m) lead r = Some r1"
        "Raft_Step_current E m r1 = Some (res, r')"
    using assms(1) by (auto simp: Raft_Step_def Let_def split: if_splits elim!: bind_SomeE dest!: Send_same)
  then show ?thesis
  proof cases
    case same
    then show ?thesis using log_view_cong(1,2) [OF same] by simp
  next
    case cur
    consider "lv r' = lv r" | "keeps r r'" "view_ents (lv r') = view_ents (lv r)"
      | b r1 where "Raft_AppendEntry E (m_entries m) r = Some (b, r1)" "lv r' = lv r1"
      using Step_current_leader [OF cur assms(4)] StepLeader_cases by blast
    then show ?thesis
    proof cases
      case 1
      then show ?thesis using log_view_cong(1,2) [OF 1] by simp
    next
      case 2
      then show ?thesis by (simp add: view_ents_log)
    next
      case (3 b r1)
      then show ?thesis using AppendEntry_ext [OF 3(1) assms(3,2)] log_view_cong(1,2) [OF 3(2)] by simp
    qed
  next
    case (newer lead r1)
    have t: "r_term r1 = m_term m" using BecomeFollower_view [OF newer(2)] by (simp add: election_view_def)
    have "elects m UNIV r1 r'" using newer(3) by (rule Step_current_elects) (use t assms(7) in \<open>auto simp: peer_message_def\<close>)
    then have "r_term r1 \<le> r_term r'" using elects_votes by fastforce
    then show ?thesis using t newer(1) assms(5) by simp
  qed
qed

end

section \<open>Nodes on MemoryStorage\<close>

definition memory_env :: "(entry \<Rightarrow> u64) \<Rightarrow> (u64 \<Rightarrow> u64 \<Rightarrow> nat \<Rightarrow> u64) \<Rightarrow> (u32 \<Rightarrow> bytes \<Rightarrow> u32) \<Rightarrow>
    (conf_change_v2 \<Rightarrow> bytes) \<Rightarrow> (bytes \<Rightarrow> conf_change_v2 option) \<Rightarrow> MemoryStorage Env" where
  "memory_env sz random crc encode decode =
     \<lparr>env_storage = memory_ops sz, env_entry_bytes = sz, env_random = random, env_crc_extend = crc,
      env_toString = encode, env_fromString = decode\<rparr>"

interpretation node: node_storage "memory_ops sz" mem_wf MemoryStorage_first_index ms_entries sz
    "memory_env sz random crc encode decode" for sz random crc encode decode
  by unfold_locales (simp add: memory_env_def)

lemma ex_env_memory: "ex_env = memory_env (\<lambda>_. 1) (\<lambda>lo hi n. lo) (\<lambda>c _. c) (\<lambda>_. ''c'') (\<lambda>_. None)"
  by (simp add: ex_env_def memory_env_def)

text \<open>Index bounds are evaluated on integers.\<close>

lemma below_limit_code: "unat (a :: u64) + n < 2 ^ 64 \<longleftrightarrow> uint a + int n < 2 ^ 64"
  by (simp flip: of_nat_less_iff [where ?'a = int])

lemma unstable_wf_code [code]:
  "unstable_wf u \<longleftrightarrow> contig (un_offset u) (un_entries u) \<and> 0 < un_offset u \<and>
     uint (un_offset u) + int (length (un_entries u)) < 2 ^ 64 \<and> un_entries_size u = approx_size (un_entries u) \<and>
     (case un_snapshot u of None \<Rightarrow> True | Some sn \<Rightarrow> sn_index sn < un_offset u \<and> un_offset u = sn_index sn + 1)"
  unfolding unstable_wf_def below_limit_code by (cases "un_snapshot u") simp_all

lemma mem_wf_code [code]:
  "mem_wf s \<longleftrightarrow> contig (MemoryStorage_first_index s) (ms_entries s) \<and>
     uint (MemoryStorage_first_index s) + int (length (ms_entries s)) < 2 ^ 64 \<and>
     sm_index (ms_snapshot_metadata s) < MemoryStorage_first_index s"
  unfolding mem_wf_def below_limit_code ..

text \<open>A leader of term 1 replicates its first entry to node 2.\<close>

definition ex_append :: message where
  "ex_append = default_message\<lparr>m_type := MSG_APPEND, m_from := 1, m_to := 2, m_term := 1,
     m_entries := [MakeEntry 1 1 ENTRY_NORMAL], m_commit := 1\<rparr>"

definition ex_follower :: "MemoryStorage Raft" where
  "ex_follower = snd (the (Raft_Step ex_env ex_append (ex_node 2)))"

lemma ex_follower_eval:
  "Raft_Step ex_env ex_append (ex_node 2) = Some (Inr (), ex_follower) \<and> mlog_wf (r_log (ex_node 2)) \<and>
     mlog_first (r_log (ex_node 2)) = 1 \<and> mlog_ents (r_log (ex_node 2)) = [] \<and>
     mlog_ents (r_log ex_follower) = [MakeEntry 1 1 ENTRY_NORMAL] \<and> r_committed ex_follower = 1"
  by code_simp

text \<open>A client proposes an entry to the leader.\<close>

definition ex_propose :: message where
  "ex_propose = default_message\<lparr>m_type := MSG_PROPOSE, m_from := 1, m_entries := [default_entry\<lparr>e_data := ''x''\<rparr>]\<rparr>"

definition ex_proposed :: "MemoryStorage Raft" where
  "ex_proposed = snd (the (Raft_Step ex_env ex_propose ex_leader))"

lemma ex_proposed_eval:
  "Raft_Step ex_env ex_propose ex_leader = Some (Inr (), ex_proposed) \<and> mlog_wf (r_log ex_leader) \<and>
     mlog_first (r_log ex_leader) = 1 \<and> mlog_ents (r_log ex_leader) = [MakeEntry 1 1 ENTRY_NORMAL] \<and>
     mlog_ents (r_log ex_proposed) = [MakeEntry 1 1 ENTRY_NORMAL, (MakeEntry 2 1 ENTRY_NORMAL)\<lparr>e_data := ''x''\<rparr>] \<and>
     r_term ex_proposed = 1"
  by code_simp

text \<open>
  C4. A node on the memory storage keeps its log well formed whatever message it handles, and every
  entry it has committed stays where it is: neither the commit index nor the first index moves back,
  and the entry at an index that was committed is the same before and after.
\<close>

theorem committed_entries_durable:
  assumes "Raft_Step (memory_env sz random crc encode decode) m r = Some (res, r')" "log_message m" "mlog_wf (r_log r)"
    "unat (mlog_first (r_log r)) + length (mlog_ents (r_log r)) + Suc (length (m_entries m)) < 2 ^ 64"
  shows "mlog_wf (r_log r') \<and> r_committed r \<le> r_committed r' \<and> mlog_first (r_log r) \<le> mlog_first (r_log r') \<and>
    (unat (mlog_first (r_log r')) \<le> i \<and> i \<le> unat (r_committed r) \<longrightarrow>
       mlog_ents (r_log r') ! (i - unat (mlog_first (r_log r'))) = mlog_ents (r_log r) ! (i - unat (mlog_first (r_log r))))"
  using node.keepsD [OF node.Step_keeps [OF assms(1,2)] assms(3)] assms(4)
  by (simp add: node.room_def log_extends_def word_le_nat_alt)

lemma ex_append_message: "log_message ex_append"
  by (simp add: log_message_def ex_append_def default_message_def MakeEntry_def u64_max_def)

theorem committed_entries_durable_witness:
  "mlog_wf (r_log ex_follower) \<and> r_committed (ex_node 2) \<le> r_committed ex_follower"
proof -
  have "length (m_entries ex_append) = 1" by (simp add: ex_append_def)
  then show ?thesis
    using committed_entries_durable [OF ex_follower_eval [THEN conjunct1, unfolded ex_env_memory] ex_append_message]
      ex_follower_eval by simp
qed

text \<open>
  C5. A leader that handles a message and stays in its term only appends to its log: no entry is
  removed, replaced or moved, whatever the message was.
\<close>

theorem leader_append_only:
  assumes "Raft_Step (memory_env sz random crc encode decode) m r = Some (res, r')" "mlog_wf (r_log r)"
    "unat (mlog_first (r_log r)) + length (mlog_ents (r_log r)) + length (m_entries m) < 2 ^ 64"
    "r_state r = Leader" "r_term r' = r_term r" "r_term r < u64_max" "peer_message m"
  shows "mlog_first (r_log r') = mlog_first (r_log r) \<and> prefix (mlog_ents (r_log r)) (mlog_ents (r_log r'))"
  using node.Step_leader_appends [OF assms(1) _ assms(2,4-7)] assms(3) by (auto simp: node.room_def prefix_def)

theorem leader_append_only_witness:
  "prefix (mlog_ents (r_log ex_leader)) (mlog_ents (r_log ex_proposed))"
proof -
  have "peer_message ex_propose" "length (m_entries ex_propose) = 1"
    by (simp_all add: peer_message_def ex_propose_def default_message_def)
  moreover have "r_state ex_leader = Leader" "r_term ex_leader = 1" by code_simp+
  ultimately show ?thesis
    using leader_append_only [OF ex_proposed_eval [THEN conjunct1, unfolded ex_env_memory]]
      ex_proposed_eval by (simp add: u64_max_def)
qed

end
