(* ===== verification/RawNode.thy ===== *)
theory RawNode
  imports RaftStep
begin

text \<open>
  The interface of a node to its application (\<open>lib/core/raw_node.cc\<close>): what is to be persisted, sent
  and applied is handed out as a \<open>Ready\<close>, and the application reports back with the \<open>Advance\<close> family.
\<close>

section \<open>Data\<close>

datatype SnapshotStatus = Finish | Failure

record LightReady =
  lrd_commit_index :: "u64 option"
  lrd_committed_entries :: "entry list"
  lrd_messages :: "message list"

record Ready =
  rd_number :: u64
  rd_ss :: "SoftState option"
  rd_hs :: "hard_state option"
  rd_read_states :: "ReadState list"
  rd_entries :: "entry list"
  rd_snapshot :: "snapshot option"
  rd_is_persisted_msg :: bool
  rd_light :: LightReady
  rd_must_sync :: bool

record ReadyRecord =
  rr_number :: u64
  rr_last_entry :: "(u64 \<times> u64) option"
  rr_snapshot :: "(u64 \<times> u64) option"

record 's RawNode =
  rn_raft :: "'s Raft"
  rn_prev_ss :: SoftState
  rn_prev_hs :: hard_state
  rn_max_number :: u64
  rn_records :: "ReadyRecord list"
  rn_commit_since_index :: u64

record Status =
  st_id :: u64
  st_hs :: hard_state
  st_ss :: SoftState
  st_applied :: u64
  st_progress :: "ProgressTracker option"

definition IsLocalMessage :: "MessageType \<Rightarrow> bool" where
  "IsLocalMessage t =
     (case t of
        MSG_HUP \<Rightarrow> True | MSG_BEAT \<Rightarrow> True | MSG_UNREACHABLE \<Rightarrow> True | MSG_SNAP_STATUS \<Rightarrow> True
      | MSG_CHECK_QUORUM \<Rightarrow> True | _ \<Rightarrow> False)"

definition IsResponseMessage :: "MessageType \<Rightarrow> bool" where
  "IsResponseMessage t =
     (case t of
        MSG_APPEND_RESPONSE \<Rightarrow> True | MSG_REQUEST_VOTE_RESPONSE \<Rightarrow> True | MSG_HEARTBEAT_RESPONSE \<Rightarrow> True
      | MSG_UNREACHABLE \<Rightarrow> True | MSG_REQUEST_PRE_VOTE_RESPONSE \<Rightarrow> True | _ \<Rightarrow> False)"

definition Ready_Messages :: "Ready \<Rightarrow> message list" where
  "Ready_Messages rd = (if \<not> rd_is_persisted_msg rd then lrd_messages (rd_light rd) else [])"

section \<open>Construction and forwarding\<close>

definition RawNode_new :: "'s Env \<Rightarrow> Config \<Rightarrow> 's \<Rightarrow> nat \<Rightarrow> 's RawNode option" where
  "RawNode_new E config store draws =
     do {
       raft \<leftarrow> Raft_new E config store draws;
       ASSERT (c_id config \<noteq> 0);
       Some \<lparr>rn_raft = raft, rn_prev_ss = Raft_soft_state raft, rn_prev_hs = Raft_hard_state raft,
             rn_max_number = 0, rn_records = [], rn_commit_since_index = c_applied config\<rparr>
     }"

text \<open>Running a method of the node that has a result of its own, and one that has none.\<close>

definition with_raft :: "('s Raft \<Rightarrow> ('a \<times> 's Raft) option) \<Rightarrow> 's RawNode \<Rightarrow> ('a \<times> 's RawNode) option" where
  "with_raft f n = do { (x, raft) \<leftarrow> f (rn_raft n); Some (x, n\<lparr>rn_raft := raft\<rparr>) }"

definition on_raft :: "('s Raft \<Rightarrow> 's Raft option) \<Rightarrow> 's RawNode \<Rightarrow> 's RawNode option" where
  "on_raft f n = do { raft \<leftarrow> f (rn_raft n); Some (n\<lparr>rn_raft := raft\<rparr>) }"

definition RawNode_SetPriority :: "u64 \<Rightarrow> 's RawNode \<Rightarrow> 's RawNode" where
  "RawNode_SetPriority priority n = n\<lparr>rn_raft := Raft_SetPriority priority (rn_raft n)\<rparr>"

definition RawNode_RequestSnapshot :: "'s Env \<Rightarrow> 's RawNode \<Rightarrow> (unit result \<times> 's RawNode) option" where
  "RawNode_RequestSnapshot E = with_raft (Raft_RequestSnapshot E)"

definition step_ignored :: "'s Env \<Rightarrow> message \<Rightarrow> 's RawNode \<Rightarrow> 's RawNode option" where
  "step_ignored E m n = do { (_, n) \<leftarrow> with_raft (Raft_Step E m) n; Some n }"

definition RawNode_TransferLeader :: "'s Env \<Rightarrow> u64 \<Rightarrow> 's RawNode \<Rightarrow> 's RawNode option" where
  "RawNode_TransferLeader E transferee =
     step_ignored E (default_message\<lparr>m_type := MSG_TRANSFER_LEADER, m_from := transferee\<rparr>)"

definition RawNode_ReadIndex :: "'s Env \<Rightarrow> bytes \<Rightarrow> 's RawNode \<Rightarrow> 's RawNode option" where
  "RawNode_ReadIndex E ctx =
     step_ignored E (default_message\<lparr>m_type := MSG_READ_INDEX, m_entries := [default_entry\<lparr>e_data := ctx\<rparr>]\<rparr>)"

definition RawNode_GetStatus :: "'s RawNode \<Rightarrow> Status" where
  "RawNode_GetStatus n =
     (let r = rn_raft n; ss = Raft_soft_state r in
      \<lparr>st_id = r_id r, st_hs = Raft_hard_state r, st_ss = ss, st_applied = rl_applied (r_log r),
       st_progress = (if ss_raft_state ss = Leader then Some (r_progress_tracker r) else None)\<rparr>)"

definition RawNode_ReportUnreachable :: "'s Env \<Rightarrow> u64 \<Rightarrow> 's RawNode \<Rightarrow> 's RawNode option" where
  "RawNode_ReportUnreachable E peer =
     step_ignored E (default_message\<lparr>m_type := MSG_UNREACHABLE, m_from := peer\<rparr>)"

definition RawNode_ReportSnapshot :: "'s Env \<Rightarrow> u64 \<Rightarrow> SnapshotStatus \<Rightarrow> 's RawNode \<Rightarrow> 's RawNode option" where
  "RawNode_ReportSnapshot E peer status =
     step_ignored E (default_message\<lparr>m_type := MSG_SNAP_STATUS, m_from := peer, m_reject := (status = Failure)\<rparr>)"

definition RawNode_Tick :: "'s Env \<Rightarrow> 's RawNode \<Rightarrow> (bool \<times> 's RawNode) option" where
  "RawNode_Tick E = with_raft (Raft_Tick E)"

definition RawNode_Campaign :: "'s Env \<Rightarrow> 's RawNode \<Rightarrow> (unit result \<times> 's RawNode) option" where
  "RawNode_Campaign E = with_raft (Raft_Step E (default_message\<lparr>m_type := MSG_HUP\<rparr>))"

definition RawNode_Propose :: "'s Env \<Rightarrow> bytes \<Rightarrow> bytes \<Rightarrow> 's RawNode \<Rightarrow> (unit result \<times> 's RawNode) option" where
  "RawNode_Propose E ctx data n =
     with_raft (Raft_Step E (default_message\<lparr>m_type := MSG_PROPOSE, m_from := r_id (rn_raft n),
       m_entries := [SetEntryChecksum E (default_entry\<lparr>e_data := data, e_context := ctx\<rparr>)]\<rparr>)) n"

definition RawNode_ProposeConfChange ::
  "'s Env \<Rightarrow> bytes \<Rightarrow> conf_change_v2 \<Rightarrow> 's RawNode \<Rightarrow> (unit result \<times> 's RawNode) option" where
  "RawNode_ProposeConfChange E ctx cc =
     with_raft (Raft_Step E (default_message\<lparr>m_type := MSG_PROPOSE,
       m_entries := [SetEntryChecksum E (default_entry\<lparr>e_type := ENTRY_CONF_CHANGE_V2,
                       e_data := env_toString E cc, e_context := ctx\<rparr>)]\<rparr>))"

definition RawNode_Ping :: "'s RawNode \<Rightarrow> 's RawNode option" where
  "RawNode_Ping = on_raft Raft_Ping"

definition RawNode_ApplyConfChange :: "'s Env \<Rightarrow> conf_change_v2 \<Rightarrow> 's RawNode \<Rightarrow> (conf_state result \<times> 's RawNode) option" where
  "RawNode_ApplyConfChange E cc = with_raft (Raft_ApplyConfChange E cc)"

definition RawNode_Step :: "'s Env \<Rightarrow> message \<Rightarrow> 's RawNode \<Rightarrow> (unit result \<times> 's RawNode) option" where
  "RawNode_Step E m n =
     (if IsLocalMessage (m_type m) then Some (Inl (RaftError StepLocalMsg), n)
      else if r_get (m_from m) (rn_raft n) \<noteq> None \<or> \<not> IsResponseMessage (m_type m)
      then with_raft (Raft_Step E m) n
      else Some (Inl (RaftError StepPeerNotFound), n))"

definition RawNode_OnEntriesFetched :: "'s Env \<Rightarrow> GetEntriesContext \<Rightarrow> 's RawNode \<Rightarrow> 's RawNode option" where
  "RawNode_OnEntriesFetched E ctx n =
     (case ctx of
        SendAppendCtx to trm aggressively \<Rightarrow>
          if r_term (rn_raft n) \<noteq> trm \<or> r_state (rn_raft n) \<noteq> Leader then Some n
          else if r_get to (rn_raft n) = None then Some n
          else if aggressively then on_raft (Raft_SendAppendAggressively E to) n
          else on_raft (Raft_SendAppend E to) n
      | EmptyCtx _ \<Rightarrow> Some n
      | _ \<Rightarrow> None)"

section \<open>Ready\<close>

definition RawNode_GetLightReady :: "'s Env \<Rightarrow> 's RawNode \<Rightarrow> (LightReady \<times> 's RawNode) option" where
  "RawNode_GetLightReady E n =
     do {
       let r = rn_raft n;
       (next_ents, log) \<leftarrow> RaftLog_NextEntriesSince (env_entry_bytes E) (env_storage E)
          (rn_commit_since_index n) (Some (r_max_committed_size_per_ready r)) (r_log r);
       let committed_entries = (case next_ents of Some es \<Rightarrow> es | None \<Rightarrow> []);
       let r = Raft_ReduceUncommittedSize committed_entries (r\<lparr>r_log := log\<rparr>);
       since \<leftarrow> (if committed_entries = [] then Some (rn_commit_since_index n)
                  else do {
                    let e = last committed_entries;
                    ASSERT (rn_commit_since_index n < e_index e);
                    Some (e_index e)
                  });
       Some (\<lparr>lrd_commit_index = None, lrd_committed_entries = committed_entries, lrd_messages = r_messages r\<rparr>,
             n\<lparr>rn_raft := r\<lparr>r_messages := []\<rparr>, rn_commit_since_index := since\<rparr>)
     }"

definition RawNode_GetReady :: "'s Env \<Rightarrow> 's RawNode \<Rightarrow> (Ready \<times> 's RawNode) option" where
  "RawNode_GetReady E n =
     do {
       let number = rn_max_number n + 1;
       let n = n\<lparr>rn_max_number := number\<rparr>;
       let r = rn_raft n;
       n \<leftarrow> (if ss_raft_state (rn_prev_ss n) \<noteq> Leader \<and> r_state r = Leader
             then do {
               ASSERT (list_all (\<lambda>rec. rr_last_entry rec = None \<and> rr_snapshot rec = None) (rn_records n));
               Some (n\<lparr>rn_records := []\<rparr>)
             } else Some n);
       let ss = Raft_soft_state r;
       let rd_ss = (if ss \<noteq> rn_prev_ss n then Some ss else None);
       let hs = Raft_hard_state r;
       let hs_changed = (hs \<noteq> rn_prev_hs n);
       let hs_sync = (hs_changed \<and> (hs_vote hs \<noteq> hs_vote (rn_prev_hs n) \<or> hs_term hs \<noteq> hs_term (rn_prev_hs n)));
       let read_states = r_read_states r;
       let r = r\<lparr>r_read_states := []\<rparr>;
       let snapshot = un_snapshot (rl_unstable (r_log r));
       since \<leftarrow> (case snapshot of
                   None \<Rightarrow> Some (rn_commit_since_index n)
                 | Some sn \<Rightarrow> do {
                     ASSERT (rn_commit_since_index n \<le> sn_index sn);
                     has_next \<leftarrow> RaftLog_HasNextEntriesSince (env_storage E) (sn_index sn) (r_log r);
                     ASSERT (\<not> has_next);
                     Some (sn_index sn)
                   });
       let entries = un_entries (rl_unstable (r_log r));
       let rec = \<lparr>rr_number = number,
                  rr_last_entry = (if entries = [] then None else Some (e_index (last entries), e_term (last entries))),
                  rr_snapshot = map_option (\<lambda>sn. (sn_index sn, sn_term sn)) snapshot\<rparr>;
       (light, n) \<leftarrow> RawNode_GetLightReady E (n\<lparr>rn_raft := r, rn_commit_since_index := since\<rparr>);
       Some (\<lparr>rd_number = number, rd_ss = rd_ss, rd_hs = (if hs_changed then Some hs else None),
              rd_read_states = read_states, rd_entries = entries, rd_snapshot = snapshot,
              rd_is_persisted_msg = (r_state r \<noteq> Leader), rd_light = light,
              rd_must_sync = (hs_sync \<or> snapshot \<noteq> None \<or> entries \<noteq> [])\<rparr>,
             n\<lparr>rn_records := rn_records n @ [rec]\<rparr>)
     }"

definition RawNode_HasReady :: "'s Env \<Rightarrow> 's RawNode \<Rightarrow> bool option" where
  "RawNode_HasReady E n =
     (let r = rn_raft n in
      if r_messages r \<noteq> [] then Some True
      else if Raft_soft_state r \<noteq> rn_prev_ss n then Some True
      else if Raft_hard_state r \<noteq> rn_prev_hs n then Some True
      else if r_read_states r \<noteq> [] then Some True
      else if un_entries (rl_unstable (r_log r)) \<noteq> [] then Some True
      else if (case un_snapshot (rl_unstable (r_log r)) of Some sn \<Rightarrow> 0 < sn_index sn | None \<Rightarrow> False) then Some True
      else RaftLog_HasNextEntriesSince (env_storage E) (rn_commit_since_index n) (r_log r))"

text \<open>
  The loop of \<open>OnPersistReady\<close>: the last entry and snapshot of the records up to \<open>number\<close>, and the
  records behind them.
\<close>

fun persist_records ::
  "u64 \<Rightarrow> u64 \<Rightarrow> u64 \<Rightarrow> u64 \<Rightarrow> ReadyRecord list \<Rightarrow> (u64 \<times> u64 \<times> u64) \<times> ReadyRecord list" where
  "persist_records number index trm snap_index [] = ((index, trm, snap_index), [])"
| "persist_records number index trm snap_index (rec # recs) =
     (if number < rr_number rec then ((index, trm, snap_index), rec # recs)
      else
        let (index, trm, snap_index) =
              (case rr_snapshot rec of Some (i, _) \<Rightarrow> (0, 0, i) | None \<Rightarrow> (index, trm, snap_index));
            (index, trm) = (case rr_last_entry rec of Some (i, t) \<Rightarrow> (i, t) | None \<Rightarrow> (index, trm))
        in persist_records number index trm snap_index recs)"

definition RawNode_OnPersistReady :: "'s Env \<Rightarrow> u64 \<Rightarrow> 's RawNode \<Rightarrow> 's RawNode option" where
  "RawNode_OnPersistReady E number n =
     do {
       let ((index, trm, snap_index), recs) = persist_records number 0 0 0 (rn_records n);
       let n = n\<lparr>rn_records := recs\<rparr>;
       n \<leftarrow> (if snap_index \<noteq> 0 then on_raft (Raft_OnPersistSnapshot snap_index) n else Some n);
       if index \<noteq> 0 then on_raft (Raft_OnPersistEntries E index trm) n else Some n
     }"

definition RawNode_CommitReady :: "Ready \<Rightarrow> 's RawNode \<Rightarrow> 's RawNode option" where
  "RawNode_CommitReady rd n =
     do {
       let n = (case rd_ss rd of Some ss \<Rightarrow> n\<lparr>rn_prev_ss := ss\<rparr> | None \<Rightarrow> n);
       let n = (case rd_hs rd of Some hs \<Rightarrow> n\<lparr>rn_prev_hs := hs\<rparr> | None \<Rightarrow> n);
       ASSERT (rn_records n \<noteq> []);
       let rec = last (rn_records n);
       ASSERT (rr_number rec = rd_number rd);
       let r = rn_raft n;
       log \<leftarrow> (case rr_snapshot rec of
                 Some (index, _) \<Rightarrow> RaftLog_StableSnapshot index (r_log r)
               | None \<Rightarrow> Some (r_log r));
       log \<leftarrow> (case rr_last_entry rec of
                 Some (index, trm) \<Rightarrow> RaftLog_StableEntries index trm log
               | None \<Rightarrow> Some log);
       Some (n\<lparr>rn_raft := r\<lparr>r_log := log\<rparr>\<rparr>)
     }"

definition RawNode_AdvanceAppend :: "'s Env \<Rightarrow> Ready \<Rightarrow> 's RawNode \<Rightarrow> (LightReady \<times> 's RawNode) option" where
  "RawNode_AdvanceAppend E rd n =
     do {
       n \<leftarrow> RawNode_CommitReady rd n;
       n \<leftarrow> RawNode_OnPersistReady E (rn_max_number n) n;
       (light_rd, n) \<leftarrow> RawNode_GetLightReady E n;
       ASSERT (\<not> (r_state (rn_raft n) \<noteq> Leader \<and> lrd_messages light_rd \<noteq> []));
       let hs = Raft_hard_state (rn_raft n);
       (light_rd, n) \<leftarrow>
         (if hs_commit (rn_prev_hs n) < hs_commit hs
          then Some (light_rd\<lparr>lrd_commit_index := Some (hs_commit hs)\<rparr>,
                     n\<lparr>rn_prev_hs := (rn_prev_hs n)\<lparr>hs_commit := hs_commit hs\<rparr>\<rparr>)
          else do {
            ASSERT (hs_commit hs = hs_commit (rn_prev_hs n));
            Some (light_rd\<lparr>lrd_commit_index := None\<rparr>, n)
          });
       ASSERT (hs = rn_prev_hs n);
       Some (light_rd, n)
     }"

definition RawNode_AdvanceApplyTo :: "'s Env \<Rightarrow> u64 \<Rightarrow> 's RawNode \<Rightarrow> 's RawNode option" where
  "RawNode_AdvanceApplyTo E applied = on_raft (Raft_CommitApply E applied)"

definition RawNode_AdvanceApply :: "'s Env \<Rightarrow> 's RawNode \<Rightarrow> 's RawNode option" where
  "RawNode_AdvanceApply E n = on_raft (Raft_CommitApply E (rn_commit_since_index n)) n"

definition RawNode_AdvanceAppendAsync :: "Ready \<Rightarrow> 's RawNode \<Rightarrow> 's RawNode option" where
  "RawNode_AdvanceAppendAsync rd n = RawNode_CommitReady rd n"

definition RawNode_Advance :: "'s Env \<Rightarrow> Ready \<Rightarrow> 's RawNode \<Rightarrow> (LightReady \<times> 's RawNode) option" where
  "RawNode_Advance E rd n =
     do {
       let applied = rn_commit_since_index n;
       (light_rd, n) \<leftarrow> RawNode_AdvanceAppend E rd n;
       n \<leftarrow> RawNode_AdvanceApplyTo E applied n;
       Some (light_rd, n)
     }"

end
