(* ===== verification/Proposals.thy ===== *)
theory Proposals
  imports Raft_Prelude
begin

text \<open>
  Pending requests and the queues they wait in (\<open>lib/raftor/proposal_tracker.cc\<close>).

  A \<open>std::function\<close> is known by a number; the empty function is \<open>None\<close>. Every operation returns the calls it
  makes to these functions, in their order. Points in time and durations are integers in nanoseconds, and
  \<open>time_point::max()\<close> is \<open>None\<close>. The mutex of each object is held while its containers change.
\<close>

section \<open>Calls of the application\<close>

type_synonym callback = "nat option"

datatype call =
    ProposalDone nat "bytes result"
  | ReadDone nat "unit result"

definition call_proposal :: "callback \<Rightarrow> bytes result \<Rightarrow> call list" where
  "call_proposal callback r = (case callback of None \<Rightarrow> [] | Some c \<Rightarrow> [ProposalDone c r])"

definition call_read :: "callback \<Rightarrow> unit result \<Rightarrow> call list" where
  "call_read callback r = (case callback of None \<Rightarrow> [] | Some c \<Rightarrow> [ReadDone c r])"

section \<open>The tracker\<close>

record Pending =
  pd_callback :: callback
  pd_deadline :: "int option"

record ProposalTracker =
  tr_proposals :: "(bytes \<times> Pending) list"
  tr_reads :: "(bytes \<times> Pending) list"

definition ProposalTracker_new :: ProposalTracker where
  "ProposalTracker_new = \<lparr>tr_proposals = [], tr_reads = []\<rparr>"

definition DeadlineFromTimeout :: "int \<Rightarrow> int \<Rightarrow> int option" where
  "DeadlineFromTimeout now timeout = (if timeout \<le> 0 then None else Some (now + timeout))"

definition ProposalTracker_Track :: "int \<Rightarrow> bytes \<Rightarrow> callback \<Rightarrow> int \<Rightarrow> ProposalTracker \<Rightarrow> ProposalTracker" where
  "ProposalTracker_Track now ctx callback timeout t =
     t\<lparr>tr_proposals := AList.update ctx \<lparr>pd_callback = callback, pd_deadline = DeadlineFromTimeout now timeout\<rparr> (tr_proposals t)\<rparr>"

definition ProposalTracker_Complete :: "bytes \<Rightarrow> bytes \<Rightarrow> ProposalTracker \<Rightarrow> call list \<times> ProposalTracker" where
  "ProposalTracker_Complete ctx response t =
     (case map_of (tr_proposals t) ctx of
        None \<Rightarrow> ([], t)
      | Some p \<Rightarrow> (call_proposal (pd_callback p) (Inr response), t\<lparr>tr_proposals := AList.delete ctx (tr_proposals t)\<rparr>))"

definition ProposalTracker_Fail :: "bytes \<Rightarrow> raft_error \<Rightarrow> ProposalTracker \<Rightarrow> call list \<times> ProposalTracker" where
  "ProposalTracker_Fail ctx error t =
     (case map_of (tr_proposals t) ctx of
        None \<Rightarrow> ([], t)
      | Some p \<Rightarrow> (call_proposal (pd_callback p) (Inl error), t\<lparr>tr_proposals := AList.delete ctx (tr_proposals t)\<rparr>))"

definition ProposalTracker_FailAll :: "raft_error \<Rightarrow> ProposalTracker \<Rightarrow> call list \<times> ProposalTracker" where
  "ProposalTracker_FailAll error t =
     (concat (map (\<lambda>(_, p). call_proposal (pd_callback p) (Inl error)) (tr_proposals t)), t\<lparr>tr_proposals := []\<rparr>)"

definition ProposalTracker_FailAllReads :: "raft_error \<Rightarrow> ProposalTracker \<Rightarrow> call list \<times> ProposalTracker" where
  "ProposalTracker_FailAllReads error t =
     (concat (map (\<lambda>(_, p). call_read (pd_callback p) (Inl error)) (tr_reads t)), t\<lparr>tr_reads := []\<rparr>)"

definition ProposalTracker_TrackRead :: "int \<Rightarrow> bytes \<Rightarrow> callback \<Rightarrow> int \<Rightarrow> ProposalTracker \<Rightarrow> ProposalTracker option" where
  "ProposalTracker_TrackRead now ctx callback timeout t = do {
     ASSERT (map_of (tr_reads t) ctx = None);
     Some (t\<lparr>tr_reads := tr_reads t @ [(ctx, \<lparr>pd_callback = callback, pd_deadline = DeadlineFromTimeout now timeout\<rparr>)]\<rparr>)
   }"

definition ProposalTracker_CompleteRead :: "bytes \<Rightarrow> ProposalTracker \<Rightarrow> call list \<times> ProposalTracker" where
  "ProposalTracker_CompleteRead ctx t =
     (case map_of (tr_reads t) ctx of
        None \<Rightarrow> ([], t)
      | Some p \<Rightarrow> (call_read (pd_callback p) (Inr ()), t\<lparr>tr_reads := AList.delete ctx (tr_reads t)\<rparr>))"

definition ProposalTracker_FailRead :: "bytes \<Rightarrow> raft_error \<Rightarrow> ProposalTracker \<Rightarrow> call list \<times> ProposalTracker" where
  "ProposalTracker_FailRead ctx error t =
     (case map_of (tr_reads t) ctx of
        None \<Rightarrow> ([], t)
      | Some p \<Rightarrow> (call_read (pd_callback p) (Inl error), t\<lparr>tr_reads := AList.delete ctx (tr_reads t)\<rparr>))"

definition ProposalTracker_PendingCount :: "ProposalTracker \<Rightarrow> nat" where
  "ProposalTracker_PendingCount t = length (tr_proposals t)"

definition ProposalTracker_PendingReadCount :: "ProposalTracker \<Rightarrow> nat" where
  "ProposalTracker_PendingReadCount t = length (tr_reads t)"

definition ProposalTracker_IsReadPending :: "bytes \<Rightarrow> ProposalTracker \<Rightarrow> bool" where
  "ProposalTracker_IsReadPending ctx t \<longleftrightarrow> map_of (tr_reads t) ctx \<noteq> None"

definition expired :: "int \<Rightarrow> bytes \<times> Pending \<Rightarrow> bool" where
  "expired now = (\<lambda>(_, p). case pd_deadline p of None \<Rightarrow> False | Some deadline \<Rightarrow> deadline \<le> now)"

definition ProposalTracker_ExpireTimeouts :: "int \<Rightarrow> ProposalTracker \<Rightarrow> call list \<times> ProposalTracker" where
  "ProposalTracker_ExpireTimeouts now t =
     (concat (map (\<lambda>(_, p). call_proposal (pd_callback p) (Inl (RpcError Timeout))) (filter (expired now) (tr_proposals t))) @
      concat (map (\<lambda>(_, p). call_read (pd_callback p) (Inl (RpcError Timeout))) (filter (expired now) (tr_reads t))),
      t\<lparr>tr_proposals := filter (\<lambda>x. \<not> expired now x) (tr_proposals t), tr_reads := filter (\<lambda>x. \<not> expired now x) (tr_reads t)\<rparr>)"

section \<open>The queues\<close>

record QueueItem =
  qi_data :: bytes
  qi_callback :: callback
  qi_timeout :: "int option"

type_synonym ProposalQueue = "QueueItem list"
type_synonym ReadIndexQueue = "QueueItem list"

definition ProposalQueue_Push :: "bytes \<Rightarrow> callback \<Rightarrow> int option \<Rightarrow> ProposalQueue \<Rightarrow> ProposalQueue" where
  "ProposalQueue_Push data callback timeout q = q @ [\<lparr>qi_data = data, qi_callback = callback, qi_timeout = timeout\<rparr>]"

definition ProposalQueue_TryPop :: "ProposalQueue \<Rightarrow> (QueueItem \<times> ProposalQueue) option" where
  "ProposalQueue_TryPop q = (case q of [] \<Rightarrow> None | item # q \<Rightarrow> Some (item, q))"

definition ReadIndexQueue_Push :: "bytes \<Rightarrow> callback \<Rightarrow> int option \<Rightarrow> ReadIndexQueue \<Rightarrow> ReadIndexQueue" where
  "ReadIndexQueue_Push ctx callback timeout q = q @ [\<lparr>qi_data = ctx, qi_callback = callback, qi_timeout = timeout\<rparr>]"

definition ReadIndexQueue_TryPop :: "ReadIndexQueue \<Rightarrow> (QueueItem \<times> ReadIndexQueue) option" where
  "ReadIndexQueue_TryPop q = (case q of [] \<Rightarrow> None | item # q \<Rightarrow> Some (item, q))"

section \<open>No callback is lost and none is called twice\<close>

text \<open>The functions that wait in a tracker, and those that a list of calls has served.\<close>

definition holds_of :: "callback \<Rightarrow> nat multiset" where
  "holds_of callback = (case callback of None \<Rightarrow> {#} | Some c \<Rightarrow> {#c#})"

definition waiting :: "(bytes \<times> Pending) list \<Rightarrow> nat multiset" where
  "waiting m = \<Sum>\<^sub># (mset (map (\<lambda>(_, p). holds_of (pd_callback p)) m))"

definition outstanding :: "ProposalTracker \<Rightarrow> (nat + nat) multiset" where
  "outstanding t = image_mset Inl (waiting (tr_proposals t)) + image_mset Inr (waiting (tr_reads t))"

definition queued :: "QueueItem list \<Rightarrow> nat multiset" where
  "queued q = \<Sum>\<^sub># (mset (map (\<lambda>item. holds_of (qi_callback item)) q))"

fun target :: "call \<Rightarrow> nat + nat" where
  "target (ProposalDone c _) = Inl c"
| "target (ReadDone c _) = Inr c"

definition called :: "call list \<Rightarrow> (nat + nat) multiset" where
  "called cs = mset (map target cs)"

definition tracker_wf :: "ProposalTracker \<Rightarrow> bool" where
  "tracker_wf t \<longleftrightarrow> distinct (map fst (tr_proposals t)) \<and> distinct (map fst (tr_reads t))"

text \<open>What an operation that only finishes requests does: every function that waited still waits or was called.\<close>

definition settles :: "ProposalTracker \<Rightarrow> call list \<times> ProposalTracker \<Rightarrow> bool" where
  "settles t = (\<lambda>(cs, t'). outstanding t = called cs + outstanding t' \<and> tracker_wf t' \<and>
     set (map fst (tr_proposals t')) \<subseteq> set (map fst (tr_proposals t)) \<and> set (map fst (tr_reads t')) \<subseteq> set (map fst (tr_reads t)))"

lemma waiting_simps [simp]:
  "waiting [] = {#}" "waiting ((k, p) # m) = holds_of (pd_callback p) + waiting m" "waiting (m @ m') = waiting m + waiting m'"
  by (simp_all add: waiting_def)

lemma queued_simps [simp]:
  "queued [] = {#}" "queued (item # q) = holds_of (qi_callback item) + queued q" "queued (q @ q') = queued q + queued q'"
  by (simp_all add: queued_def)

lemma called_simps [simp]:
  "called [] = {#}" "called (c # cs) = add_mset (target c) (called cs)" "called (cs @ cs') = called cs + called cs'"
  by (simp_all add: called_def)

lemma called_call [simp]:
  "called (call_proposal cb r) = image_mset Inl (holds_of cb)" "called (call_read cb u) = image_mset Inr (holds_of cb)"
  by (simp_all add: call_proposal_def call_read_def holds_of_def split: option.splits)

lemma called_all:
  "called (concat (map (\<lambda>(_, p). call_proposal (pd_callback p) r) m)) = image_mset Inl (waiting m)"
  "called (concat (map (\<lambda>(_, p). call_read (pd_callback p) u) m)) = image_mset Inr (waiting m)"
  by (induction m) auto

lemma delete_fresh: "k \<notin> set (map fst m) \<Longrightarrow> AList.delete k m = m"
  by (induction m) auto

lemma waiting_delete:
  "distinct (map fst m) \<Longrightarrow> map_of m k = Some p \<Longrightarrow> waiting m = holds_of (pd_callback p) + waiting (AList.delete k m)"
  by (induction m) (auto simp: delete_fresh split: if_splits)

lemma waiting_update: "k \<notin> set (map fst m) \<Longrightarrow> waiting (AList.update k p m) = holds_of (pd_callback p) + waiting m"
  by (induction m) auto

lemma waiting_filter: "waiting m = waiting (filter P m) + waiting (filter (\<lambda>x. \<not> P x) m)"
  by (induction m) auto

lemma keys_delete: "set (map fst (AList.delete k m)) \<subseteq> set (map fst m)"
  by (auto simp: AList.delete_eq)

lemma settles_refl [simp]: "settles t ([], t) = tracker_wf t"
  by (simp add: settles_def)

lemma settles_trans:
  "settles t (cs, t1) \<Longrightarrow> settles t1 (cs', t2) \<Longrightarrow> settles t (cs @ cs', t2)"
  unfolding settles_def by (simp add: add.assoc) blast

lemma tracker_settles:
  assumes "tracker_wf t"
  shows "settles t (ProposalTracker_Complete ctx response t)" "settles t (ProposalTracker_Fail ctx e t)" "settles t (ProposalTracker_FailAll e t)"
    "settles t (ProposalTracker_FailAllReads e t)" "settles t (ProposalTracker_CompleteRead ctx t)" "settles t (ProposalTracker_FailRead ctx e t)"
    "settles t (ProposalTracker_ExpireTimeouts now t)"
proof -
  have keys: "distinct (map fst (tr_proposals t))" "distinct (map fst (tr_reads t))" using assms by (auto simp: tracker_wf_def)
  note wd = waiting_delete [OF keys(1)] waiting_delete [OF keys(2)]
  note facts = settles_def outstanding_def tracker_wf_def called_all
  show "settles t (ProposalTracker_Complete ctx response t)" "settles t (ProposalTracker_Fail ctx e t)"
    using assms keys wd(1) keys_delete [of ctx "tr_proposals t"] by (auto simp: ProposalTracker_Complete_def ProposalTracker_Fail_def facts distinct_delete split: option.splits)
  show "settles t (ProposalTracker_CompleteRead ctx t)" "settles t (ProposalTracker_FailRead ctx e t)"
    using assms keys wd(2) keys_delete [of ctx "tr_reads t"] by (auto simp: ProposalTracker_CompleteRead_def ProposalTracker_FailRead_def facts distinct_delete split: option.splits)
  show "settles t (ProposalTracker_FailAll e t)" "settles t (ProposalTracker_FailAllReads e t)"
    using keys by (auto simp: ProposalTracker_FailAll_def ProposalTracker_FailAllReads_def facts)
  show "settles t (ProposalTracker_ExpireTimeouts now t)"
    using keys waiting_filter [of "tr_proposals t" "expired now"] waiting_filter [of "tr_reads t" "expired now"]
    by (auto simp: ProposalTracker_ExpireTimeouts_def facts distinct_map_filter ac_simps)
qed

lemma Track_outstanding:
  assumes "tracker_wf t" "ctx \<notin> set (map fst (tr_proposals t))"
  shows "outstanding (ProposalTracker_Track now ctx cb timeout t) = image_mset Inl (holds_of cb) + outstanding t"
    "tracker_wf (ProposalTracker_Track now ctx cb timeout t)"
  using assms by (simp_all add: ProposalTracker_Track_def outstanding_def waiting_update tracker_wf_def distinct_update)

lemma TrackRead_outstanding:
  assumes "tracker_wf t" "ProposalTracker_TrackRead now ctx cb timeout t = Some t'"
  shows "outstanding t' = image_mset Inr (holds_of cb) + outstanding t" "tracker_wf t'"
  using assms by (auto simp: ProposalTracker_TrackRead_def ASSERT_def outstanding_def tracker_wf_def map_of_eq_None_iff split: if_splits)

end
