(* ===== verification/StateMachine.thy ===== *)
theory StateMachine
  imports Messages
begin

text \<open>
  The state machine of the application (\<open>include/raftpp/raftor/state_machine.h\<close>) as a record of its operations over a
  state of type \<open>'m\<close>, the streams a snapshot passes through, and the machine used for wiring and tests
  (\<open>lib/raftor/mock_state_machine.cc\<close>).
\<close>

section \<open>Snapshot streams\<close>

record SnapshotDataReader =
  sr_data :: bytes
  sr_offset :: nat

definition SnapshotDataReader_new :: "bytes \<Rightarrow> SnapshotDataReader" where
  "SnapshotDataReader_new data = \<lparr>sr_data = data, sr_offset = 0\<rparr>"

definition SnapshotDataReader_Read :: "nat \<Rightarrow> SnapshotDataReader \<Rightarrow> bytes \<times> SnapshotDataReader" where
  "SnapshotDataReader_Read out_size r =
     (if sr_offset r \<ge> length (sr_data r) \<or> out_size = 0 then ([], r)
      else
        let remaining = length (sr_data r) - sr_offset r;
            bytes_to_copy = min out_size remaining
        in (take bytes_to_copy (drop (sr_offset r) (sr_data r)), r\<lparr>sr_offset := sr_offset r + bytes_to_copy\<rparr>))"

text \<open>
  The temporary file that a snapshot is written to. The number of bytes that the \<open>n\<close>-th \<open>fwrite\<close> takes is up to the
  system.
\<close>

record TempFileSnapshotWriter =
  tw_file :: bytes
  tw_total_bytes_written :: u64
  tw_writes :: nat

definition TempFileSnapshotWriter_new :: TempFileSnapshotWriter where
  "TempFileSnapshotWriter_new = \<lparr>tw_file = [], tw_total_bytes_written = 0, tw_writes = 0\<rparr>"

definition TempFileSnapshotWriter_Write ::
    "(nat \<Rightarrow> nat \<Rightarrow> nat) \<Rightarrow> bytes \<Rightarrow> TempFileSnapshotWriter \<Rightarrow> unit result \<times> TempFileSnapshotWriter" where
  "TempFileSnapshotWriter_Write fwrite chunk w =
     (let bytes_written = min (fwrite (tw_writes w) (length chunk)) (length chunk);
          w = w\<lparr>tw_file := tw_file w @ take bytes_written chunk, tw_writes := Suc (tw_writes w)\<rparr>
      in if bytes_written \<noteq> length chunk then (Inl (StorageErrorOther (Fmt ''snapshot temp write failed: {}'' [])), w)
         else (Inr (), w\<lparr>tw_total_bytes_written := tw_total_bytes_written w + of_nat bytes_written\<rparr>))"

section \<open>The interface\<close>

record 'm state_machine =
  ma_Apply :: "entry \<Rightarrow> 'm \<Rightarrow> bytes option result \<times> 'm"
  ma_TakeSnapshot :: "(bytes \<Rightarrow> TempFileSnapshotWriter \<Rightarrow> unit result \<times> TempFileSnapshotWriter) \<Rightarrow> u64 \<Rightarrow> u64 \<Rightarrow> conf_state \<Rightarrow>
    'm \<times> TempFileSnapshotWriter \<Rightarrow> snapshot_metadata result \<times> 'm \<times> TempFileSnapshotWriter"
  ma_RestoreSnapshot :: "snapshot_metadata \<Rightarrow> SnapshotDataReader \<Rightarrow> 'm \<Rightarrow> unit result \<times> 'm"
  ma_OnLeadershipChange :: "bool \<Rightarrow> u64 \<Rightarrow> u64 \<Rightarrow> 'm \<Rightarrow> 'm"
  ma_OnPeerUnreachable :: "u64 \<Rightarrow> 'm \<Rightarrow> 'm"

section \<open>MockStateMachine\<close>

record MockStateMachine =
  mk_apply_count :: nat
  mk_snapshot_count :: nat
  mk_restore_count :: nat
  mk_leadership_change_count :: nat
  mk_apply_success_count :: nat
  mk_apply_failure_count :: nat
  mk_snapshot_success_count :: nat
  mk_snapshot_failure_count :: nat
  mk_restore_success_count :: nat
  mk_restore_failure_count :: nat
  mk_is_leader :: bool
  mk_current_term :: u64
  mk_current_leader :: u64
  mk_last_snapshot_index :: u64
  mk_last_snapshot_term :: u64
  mk_last_restored_index :: u64
  mk_last_restored_term :: u64
  mk_should_fail_apply :: bool
  mk_should_fail_snapshot :: bool
  mk_should_fail_restore :: bool
  mk_applied_entries :: "bytes list"
  mk_unreachable_peers :: "u64 list"
  mk_snapshot_payload :: bytes
  mk_last_restored_data :: bytes

definition MockStateMachine_new :: MockStateMachine where
  "MockStateMachine_new = \<lparr>mk_apply_count = 0, mk_snapshot_count = 0, mk_restore_count = 0, mk_leadership_change_count = 0,
     mk_apply_success_count = 0, mk_apply_failure_count = 0, mk_snapshot_success_count = 0, mk_snapshot_failure_count = 0,
     mk_restore_success_count = 0, mk_restore_failure_count = 0, mk_is_leader = False, mk_current_term = 0, mk_current_leader = 0,
     mk_last_snapshot_index = 0, mk_last_snapshot_term = 0, mk_last_restored_index = 0, mk_last_restored_term = 0,
     mk_should_fail_apply = False, mk_should_fail_snapshot = False, mk_should_fail_restore = False, mk_applied_entries = [],
     mk_unreachable_peers = [], mk_snapshot_payload = ''snap'', mk_last_restored_data = []\<rparr>"

definition MockStateMachine_Apply :: "entry \<Rightarrow> MockStateMachine \<Rightarrow> bytes option result \<times> MockStateMachine" where
  "MockStateMachine_Apply e m =
     (let m = m\<lparr>mk_apply_count := Suc (mk_apply_count m)\<rparr>
      in if mk_should_fail_apply m
         then (Inl (RaftError ProposalDropped), m\<lparr>mk_apply_failure_count := Suc (mk_apply_failure_count m)\<rparr>)
         else (Inr (Some (''OK:'' @ e_data e)),
               m\<lparr>mk_applied_entries := mk_applied_entries m @ [e_data e],
                 mk_apply_success_count := Suc (mk_apply_success_count m)\<rparr>))"

definition MockStateMachine_TakeSnapshot ::
    "(bytes \<Rightarrow> TempFileSnapshotWriter \<Rightarrow> unit result \<times> TempFileSnapshotWriter) \<Rightarrow> u64 \<Rightarrow> u64 \<Rightarrow> conf_state \<Rightarrow>
     MockStateMachine \<times> TempFileSnapshotWriter \<Rightarrow> snapshot_metadata result \<times> MockStateMachine \<times> TempFileSnapshotWriter" where
  "MockStateMachine_TakeSnapshot Write applied_index applied_term cs = (\<lambda>(m, w).
     let m = m\<lparr>mk_snapshot_count := Suc (mk_snapshot_count m)\<rparr>
     in if mk_should_fail_snapshot m
        then (Inl (StorageError SnapshotTemporarilyUnavailable), m\<lparr>mk_snapshot_failure_count := Suc (mk_snapshot_failure_count m)\<rparr>, w)
        else case Write (mk_snapshot_payload m) w of
               (Inl e, w) \<Rightarrow> (Inl e, m\<lparr>mk_snapshot_failure_count := Suc (mk_snapshot_failure_count m)\<rparr>, w)
             | (Inr _, w) \<Rightarrow>
                 (Inr \<lparr>sm_conf_state = cs, sm_index = applied_index, sm_term = applied_term\<rparr>,
                  m\<lparr>mk_last_snapshot_index := applied_index, mk_last_snapshot_term := applied_term,
                    mk_snapshot_success_count := Suc (mk_snapshot_success_count m)\<rparr>, w))"

text \<open>The reader in memory never fails, so the loop ends when it returns no bytes.\<close>

function read_snapshot :: "SnapshotDataReader \<Rightarrow> bytes \<Rightarrow> bytes" where
  "read_snapshot r acc =
     (case SnapshotDataReader_Read 4096 r of (chunk, r) \<Rightarrow> if chunk = [] then acc else read_snapshot r (acc @ chunk))"
  by pat_completeness auto
termination
  by (relation "measure (\<lambda>(r, _). length (sr_data r) - sr_offset r)")
    (auto simp: SnapshotDataReader_Read_def Let_def split: if_splits)

declare read_snapshot.simps [simp del]

definition MockStateMachine_RestoreSnapshot ::
    "snapshot_metadata \<Rightarrow> SnapshotDataReader \<Rightarrow> MockStateMachine \<Rightarrow> unit result \<times> MockStateMachine" where
  "MockStateMachine_RestoreSnapshot metadata reader m =
     (let m = m\<lparr>mk_restore_count := Suc (mk_restore_count m)\<rparr>
      in if mk_should_fail_restore m
         then (Inl (StorageError Unavailable), m\<lparr>mk_restore_failure_count := Suc (mk_restore_failure_count m)\<rparr>)
         else (Inr (), m\<lparr>mk_last_restored_index := sm_index metadata, mk_last_restored_term := sm_term metadata,
                         mk_last_restored_data := read_snapshot reader [],
                         mk_restore_success_count := Suc (mk_restore_success_count m)\<rparr>))"

definition MockStateMachine_OnLeadershipChange :: "bool \<Rightarrow> u64 \<Rightarrow> u64 \<Rightarrow> MockStateMachine \<Rightarrow> MockStateMachine" where
  "MockStateMachine_OnLeadershipChange is_leader trm leader_id m =
     m\<lparr>mk_is_leader := is_leader, mk_current_term := trm, mk_current_leader := leader_id,
       mk_leadership_change_count := Suc (mk_leadership_change_count m)\<rparr>"

definition MockStateMachine_OnPeerUnreachable :: "u64 \<Rightarrow> MockStateMachine \<Rightarrow> MockStateMachine" where
  "MockStateMachine_OnPeerUnreachable peer_id m = m\<lparr>mk_unreachable_peers := mk_unreachable_peers m @ [peer_id]\<rparr>"

definition MockStateMachine_SetShouldFailApply :: "bool \<Rightarrow> MockStateMachine \<Rightarrow> MockStateMachine" where
  "MockStateMachine_SetShouldFailApply fail m = m\<lparr>mk_should_fail_apply := fail\<rparr>"

definition MockStateMachine_SetShouldFailSnapshot :: "bool \<Rightarrow> MockStateMachine \<Rightarrow> MockStateMachine" where
  "MockStateMachine_SetShouldFailSnapshot fail m = m\<lparr>mk_should_fail_snapshot := fail\<rparr>"

definition MockStateMachine_SetShouldFailRestore :: "bool \<Rightarrow> MockStateMachine \<Rightarrow> MockStateMachine" where
  "MockStateMachine_SetShouldFailRestore fail m = m\<lparr>mk_should_fail_restore := fail\<rparr>"

definition MockStateMachine_SetSnapshotData :: "bytes \<Rightarrow> MockStateMachine \<Rightarrow> MockStateMachine" where
  "MockStateMachine_SetSnapshotData data m = m\<lparr>mk_snapshot_payload := data\<rparr>"

definition MockStateMachine_Reset :: "MockStateMachine \<Rightarrow> MockStateMachine" where
  "MockStateMachine_Reset m = MockStateMachine_new\<lparr>mk_should_fail_apply := mk_should_fail_apply m,
     mk_should_fail_snapshot := mk_should_fail_snapshot m, mk_should_fail_restore := mk_should_fail_restore m,
     mk_snapshot_payload := mk_snapshot_payload m\<rparr>"

definition mock_machine :: "MockStateMachine state_machine" where
  "mock_machine = \<lparr>ma_Apply = MockStateMachine_Apply, ma_TakeSnapshot = MockStateMachine_TakeSnapshot,
     ma_RestoreSnapshot = MockStateMachine_RestoreSnapshot, ma_OnLeadershipChange = MockStateMachine_OnLeadershipChange,
     ma_OnPeerUnreachable = MockStateMachine_OnPeerUnreachable\<rparr>"

section \<open>A snapshot passes through the streams unchanged\<close>

lemma read_snapshot_all: "read_snapshot r acc = acc @ drop (sr_offset r) (sr_data r)"
proof (induction r acc rule: read_snapshot.induct)
  case (1 r acc)
  show ?case
  proof (cases "sr_offset r \<ge> length (sr_data r)")
    case True
    then show ?thesis by (subst read_snapshot.simps) (simp add: SnapshotDataReader_Read_def)
  next
    case False
    define k where "k = min 4096 (length (sr_data r) - sr_offset r)"
    have rd: "SnapshotDataReader_Read 4096 r = (take k (drop (sr_offset r) (sr_data r)), r\<lparr>sr_offset := sr_offset r + k\<rparr>)"
      using False by (simp add: SnapshotDataReader_Read_def k_def Let_def)
    have ne: "take k (drop (sr_offset r) (sr_data r)) \<noteq> []" using False by (simp add: k_def)
    have "read_snapshot r acc = read_snapshot (r\<lparr>sr_offset := sr_offset r + k\<rparr>) (acc @ take k (drop (sr_offset r) (sr_data r)))"
      using rd ne by (subst read_snapshot.simps) simp
    also have "\<dots> = acc @ take k (drop (sr_offset r) (sr_data r)) @ drop (sr_offset r + k) (sr_data r)"
      using "1.IH" [OF rd [symmetric] ne] by simp
    also have "\<dots> = acc @ drop (sr_offset r) (sr_data r)" by (metis add.commute append_take_drop_id drop_drop)
    finally show ?thesis .
  qed
qed

section \<open>Snapshots in several chunks\<close>

text \<open>A machine that writes its snapshot as a list of chunks and stops at the first error of the writer.\<close>

fun write_chunks :: "(bytes \<Rightarrow> 'w \<Rightarrow> unit result \<times> 'w) \<Rightarrow> bytes list \<Rightarrow> 'w \<Rightarrow> unit result \<times> 'w" where
  "write_chunks Write [] w = (Inr (), w)"
| "write_chunks Write (chunk # chunks) w =
     (case Write chunk w of
        (Inl e, w) \<Rightarrow> (Inl e, w)
      | (Inr _, w) \<Rightarrow> write_chunks Write chunks w)"

definition takes_snapshot :: "'m state_machine \<Rightarrow> u64 \<Rightarrow> u64 \<Rightarrow> conf_state \<Rightarrow> 'm \<Rightarrow> bytes list \<Rightarrow> snapshot_metadata \<Rightarrow> bool" where
  "takes_snapshot M i t cs m chunks meta \<longleftrightarrow>
     (\<forall>Write w. \<exists>m1. ma_TakeSnapshot M Write i t cs (m, w) =
        (case write_chunks Write chunks w of
           (Inl e, w) \<Rightarrow> (Inl e, m1, w)
         | (Inr _, w) \<Rightarrow> (Inr meta, m1, w)))"

lemma mock_takes_snapshot:
  "\<not> mk_should_fail_snapshot m \<Longrightarrow>
     takes_snapshot mock_machine i t cs m [mk_snapshot_payload m] \<lparr>sm_conf_state = cs, sm_index = i, sm_term = t\<rparr>"
  by (auto simp: takes_snapshot_def mock_machine_def MockStateMachine_TakeSnapshot_def Let_def split: prod.splits sum.splits)

lemma Write_done:
  assumes "TempFileSnapshotWriter_Write fwrite chunk w = (Inr u, w')"
  shows "tw_file w' = tw_file w @ chunk \<and> tw_total_bytes_written w' = tw_total_bytes_written w + of_nat (length chunk)"
  using assms by (auto simp: TempFileSnapshotWriter_Write_def Let_def split: if_splits)

lemma write_chunks_done:
  assumes "write_chunks (TempFileSnapshotWriter_Write fwrite) chunks w = (Inr u, w')"
  shows "tw_file w' = tw_file w @ concat chunks \<and>
    tw_total_bytes_written w' = tw_total_bytes_written w + of_nat (length (concat chunks))"
  using assms by (induction chunks arbitrary: w) (auto split: prod.splits sum.splits dest!: Write_done)

lemma write_chunks_succeeds:
  assumes "\<And>k n. n \<le> fwrite k n"
  shows "\<exists>w'. write_chunks (TempFileSnapshotWriter_Write fwrite) chunks w = (Inr (), w')"
proof (induction chunks arbitrary: w)
  case (Cons chunk chunks)
  have "min (fwrite (tw_writes w) (length chunk)) (length chunk) = length chunk" using assms by (simp add: min_absorb2)
  then show ?case using Cons by (simp add: TempFileSnapshotWriter_Write_def)
qed simp

text \<open>A machine that reads a snapshot in pieces of the given sizes.\<close>

fun read_pieces :: "nat list \<Rightarrow> SnapshotDataReader \<Rightarrow> bytes list \<times> SnapshotDataReader" where
  "read_pieces [] r = ([], r)"
| "read_pieces (n # ns) r =
     (case SnapshotDataReader_Read n r of (piece, r) \<Rightarrow> case read_pieces ns r of (pieces, r) \<Rightarrow> (piece # pieces, r))"

lemma Read_piece:
  assumes "SnapshotDataReader_Read n r = (piece, r')"
  shows "piece = take n (drop (sr_offset r) (sr_data r)) \<and> drop (sr_offset r') (sr_data r') = drop n (drop (sr_offset r) (sr_data r))"
  using assms by (auto simp: SnapshotDataReader_Read_def Let_def min_def add.commute split: if_splits)

lemma read_pieces_concat: "concat (fst (read_pieces ns r)) = take (sum_list ns) (drop (sr_offset r) (sr_data r))"
proof (induction ns arbitrary: r)
  case (Cons n ns)
  obtain piece r' where p: "SnapshotDataReader_Read n r = (piece, r')" by fastforce
  note q = Read_piece [OF p]
  obtain pieces r'' where ps: "read_pieces ns r' = (pieces, r'')" by fastforce
  show ?case using p q ps Cons.IH [of r'] by (simp add: take_add)
qed simp

end
