(* ===== verification/WalRecord.thy ===== *)
theory WalRecord
  imports Messages
begin

text \<open>
  The on-disk format of the write-ahead log (\<open>include/raftpp/raftor/wal/record.h\<close>,
  \<open>lib/raftor/wal/record.cc\<close>, \<open>lib/raftor/wal/crc32c.cc\<close>). A file is a list of 8-bit words. The structs are
  copied to and from memory with \<open>memcpy\<close>, on a little-endian machine: a field of \<open>n\<close> bytes is its \<open>n\<close>
  bytes from the lowest. The checksum routine \<open>crc32c::Extend\<close> is a third-party function and a
  parameter \<open>crc_ext\<close> here.
\<close>

type_synonym u8 = "8 word"
type_synonym u16 = "16 word"

section \<open>Integers in memory\<close>

primrec le_bytes :: "nat \<Rightarrow> 'a::len word \<Rightarrow> u8 list" where
  "le_bytes 0 w = []"
| "le_bytes (Suc n) w = ucast w # le_bytes n (drop_bit 8 w)"

primrec le_word :: "u8 list \<Rightarrow> 'a::len word" where
  "le_word [] = 0"
| "le_word (b # bs) = ucast b + push_bit 8 (le_word bs)"

lemma length_le_bytes [simp]: "length (le_bytes n w) = n"
  by (induction n arbitrary: w) simp_all

lemma ucast_plus_push_bit:
  "ucast (b :: u8) + push_bit 8 w = or (ucast b) (push_bit 8 (w :: 'a::len word))"
proof (rule disjunctive_add)
  show "\<not> bit (ucast b :: 'a word) n \<or> \<not> bit (push_bit 8 w) n" for n
    using bit_imp_le_length [of b n] by (auto simp: bit_simps)
qed

lemma bit_le_word_le_bytes:
  "bit (le_word (le_bytes n w) :: 'a::len word) i \<longleftrightarrow> i < 8 * n \<and> i < LENGTH('a) \<and> bit (w :: 'a word) i"
proof (induction n arbitrary: w i)
  case (Suc n)
  have *: "bit (le_word (le_bytes n (drop_bit 8 w)) :: 'a word) (i - 8) \<longleftrightarrow>
      i - 8 < 8 * n \<and> i - 8 < LENGTH('a) \<and> bit w (8 + (i - 8))"
    using Suc.IH [of "drop_bit 8 w" "i - 8"] by (simp add: bit_simps)
  show ?case
  proof (cases "i < 8")
    case True
    then show ?thesis by (auto simp: ucast_plus_push_bit bit_simps dest!: bit_imp_le_length [where ?'a = 8])
  next
    case False
    then show ?thesis using * by (auto simp: ucast_plus_push_bit bit_simps dest!: bit_imp_le_length [where ?'a = 8])
  qed
qed simp

lemma le_word_le_bytes [simp]: "LENGTH('a) \<le> 8 * n \<Longrightarrow> le_word (le_bytes n w) = (w :: 'a::len word)"
  by (rule bit_word_eqI) (simp add: bit_le_word_le_bytes)

text \<open>The bytes of a field inside a struct: \<open>k\<close> bytes from offset \<open>i\<close>.\<close>

definition subspan :: "nat \<Rightarrow> nat \<Rightarrow> 'a list \<Rightarrow> 'a list" where
  "subspan i k xs = take k (drop i xs)"

definition field :: "nat \<Rightarrow> nat \<Rightarrow> u8 list \<Rightarrow> 'a::len word" where
  "field i k bs = le_word (subspan i k bs)"

lemma length_subspan [simp]: "i + k \<le> length xs \<Longrightarrow> length (subspan i k xs) = k"
  by (simp add: subspan_def)

lemma subspan_append1 [simp]: "length xs \<le> i \<Longrightarrow> subspan i k (xs @ ys) = subspan (i - length xs) k ys"
  by (simp add: subspan_def)

lemma subspan_append2: "i + k \<le> length xs \<Longrightarrow> subspan i k (xs @ ys) = subspan i k xs"
  by (simp add: subspan_def)

lemma subspan_0 [simp]: "subspan 0 (length xs) (xs @ ys) = xs"
  by (simp add: subspan_def)

lemma subspan_Cons [simp]: "0 < i \<Longrightarrow> subspan i k (x # xs) = subspan (i - 1) k xs"
  by (cases i) (simp_all add: subspan_def)

lemma subspan_one [simp]: "subspan 0 (Suc 0) (x # xs) = [x]"
  by (simp add: subspan_def)

section \<open>Headers\<close>

definition kSegmentMagic :: u32 where
  "kSegmentMagic = 0x57414C31"

definition kMetadataMagic :: u32 where
  "kMetadataMagic = 0x4D455441"

definition kFormatVersion :: u32 where
  "kFormatVersion = 1"

text \<open>A type byte that is none of the enumerators is a value of the C++ type as well.\<close>

datatype RecordType = Record_Entry | Record_EntryBatch | Record_HardState | Record_unknown u8

definition RecordType_of :: "u8 \<Rightarrow> RecordType" where
  "RecordType_of b =
     (if b = 1 then Record_Entry else if b = 2 then Record_EntryBatch else if b = 3 then Record_HardState
      else Record_unknown b)"

primrec RecordType_byte :: "RecordType \<Rightarrow> u8" where
  "RecordType_byte Record_Entry = 1"
| "RecordType_byte Record_EntryBatch = 2"
| "RecordType_byte Record_HardState = 3"
| "RecordType_byte (Record_unknown b) = b"

record SegmentHeader =
  sh_magic :: u32
  sh_version :: u32
  sh_segment_id :: u64
  sh_first_index :: u64
  sh_reserved :: u64

definition SegmentHeader_new :: SegmentHeader where
  "SegmentHeader_new = \<lparr>sh_magic = kSegmentMagic, sh_version = kFormatVersion, sh_segment_id = 0,
     sh_first_index = 0, sh_reserved = 0\<rparr>"

definition SegmentHeader_IsValid :: "SegmentHeader \<Rightarrow> bool" where
  "SegmentHeader_IsValid h \<longleftrightarrow> sh_magic h = kSegmentMagic \<and> sh_version h = kFormatVersion"

definition SegmentHeader_Serialize :: "SegmentHeader \<Rightarrow> u8 list" where
  "SegmentHeader_Serialize h = le_bytes 4 (sh_magic h) @ le_bytes 4 (sh_version h) @
     le_bytes 8 (sh_segment_id h) @ le_bytes 8 (sh_first_index h) @ le_bytes 8 (sh_reserved h)"

definition SegmentHeader_Deserialize :: "u8 list \<Rightarrow> SegmentHeader" where
  "SegmentHeader_Deserialize bs = \<lparr>sh_magic = field 0 4 bs, sh_version = field 4 4 bs,
     sh_segment_id = field 8 8 bs, sh_first_index = field 16 8 bs, sh_reserved = field 24 8 bs\<rparr>"

record RecordHeader =
  rh_crc :: u32
  rh_type :: u8
  rh_flags :: u8
  rh_reserved :: u16
  rh_length :: u32
  rh_padding :: u32

definition RecordHeader_new :: RecordHeader where
  "RecordHeader_new = \<lparr>rh_crc = 0, rh_type = 0, rh_flags = 0, rh_reserved = 0, rh_length = 0, rh_padding = 0\<rparr>"

definition RecordHeader_Serialize :: "RecordHeader \<Rightarrow> u8 list" where
  "RecordHeader_Serialize h = le_bytes 4 (rh_crc h) @ le_bytes 1 (rh_type h) @ le_bytes 1 (rh_flags h) @
     le_bytes 2 (rh_reserved h) @ le_bytes 4 (rh_length h) @ le_bytes 4 (rh_padding h)"

definition RecordHeader_Deserialize :: "u8 list \<Rightarrow> RecordHeader" where
  "RecordHeader_Deserialize bs = \<lparr>rh_crc = field 0 4 bs, rh_type = field 4 1 bs, rh_flags = field 5 1 bs,
     rh_reserved = field 6 2 bs, rh_length = field 8 4 bs, rh_padding = field 12 4 bs\<rparr>"

definition RecordHeader_CalculatePadding :: "u32 \<Rightarrow> u32" where
  "RecordHeader_CalculatePadding len =
     (let total = 16 + len; remainder = total mod 8 in if remainder = 0 then 0 else 8 - remainder)"

text \<open>The sum is computed in 64 bits and narrowed to the 32-bit result.\<close>

definition RecordHeader_TotalSize :: "RecordHeader \<Rightarrow> u32" where
  "RecordHeader_TotalSize h = 16 + rh_length h + rh_padding h"

record MetadataHeader =
  mh_magic :: u32
  mh_version :: u32
  mh_crc :: u32
  mh_reserved :: u32

definition MetadataHeader_new :: MetadataHeader where
  "MetadataHeader_new = \<lparr>mh_magic = kMetadataMagic, mh_version = kFormatVersion, mh_crc = 0, mh_reserved = 0\<rparr>"

definition MetadataHeader_IsValid :: "MetadataHeader \<Rightarrow> bool" where
  "MetadataHeader_IsValid h \<longleftrightarrow> mh_magic h = kMetadataMagic \<and> mh_version h = kFormatVersion"

definition MetadataHeader_bytes :: "MetadataHeader \<Rightarrow> u8 list" where
  "MetadataHeader_bytes h =
     le_bytes 4 (mh_magic h) @ le_bytes 4 (mh_version h) @ le_bytes 4 (mh_crc h) @ le_bytes 4 (mh_reserved h)"

definition MetadataHeader_of :: "u8 list \<Rightarrow> MetadataHeader" where
  "MetadataHeader_of bs = \<lparr>mh_magic = field 0 4 bs, mh_version = field 4 4 bs, mh_crc = field 8 4 bs,
     mh_reserved = field 12 4 bs\<rparr>"

record MetadataContent =
  mc_first_index :: u64
  mc_snapshot_index :: u64
  mc_snapshot_term :: u64

definition MetadataContent_bytes :: "MetadataContent \<Rightarrow> u8 list" where
  "MetadataContent_bytes c =
     le_bytes 8 (mc_first_index c) @ le_bytes 8 (mc_snapshot_index c) @ le_bytes 8 (mc_snapshot_term c)"

definition MetadataContent_of :: "u8 list \<Rightarrow> MetadataContent" where
  "MetadataContent_of bs = \<lparr>mc_first_index = field 0 8 bs, mc_snapshot_index = field 8 8 bs,
     mc_snapshot_term = field 16 8 bs\<rparr>"

section \<open>Checksums\<close>

definition CRC32C_new :: u32 where
  "CRC32C_new = 0"

definition CRC32C_Update :: "(u32 \<Rightarrow> u8 list \<Rightarrow> u32) \<Rightarrow> u8 list \<Rightarrow> u32 \<Rightarrow> u32" where
  "CRC32C_Update crc_ext data c = crc_ext c data"

definition CRC32C_Finalize :: "u32 \<Rightarrow> u32" where
  "CRC32C_Finalize c = c"

definition CRC32C_Reset :: "u32 \<Rightarrow> u32" where
  "CRC32C_Reset c = 0"

definition CRC32C_Compute :: "(u32 \<Rightarrow> u8 list \<Rightarrow> u32) \<Rightarrow> u8 list \<Rightarrow> u32" where
  "CRC32C_Compute crc_ext data = CRC32C_Finalize (CRC32C_Update crc_ext data CRC32C_new)"

section \<open>Records\<close>

record RecordBuilder =
  rb_type :: RecordType
  rb_payload :: "u8 list"

definition RecordBuilder_new :: RecordBuilder where
  "RecordBuilder_new = \<lparr>rb_type = Record_Entry, rb_payload = []\<rparr>"

definition RecordBuilder_SetType :: "RecordType \<Rightarrow> RecordBuilder \<Rightarrow> RecordBuilder" where
  "RecordBuilder_SetType t b = b\<lparr>rb_type := t\<rparr>"

definition RecordBuilder_SetPayload :: "u8 list \<Rightarrow> RecordBuilder \<Rightarrow> RecordBuilder" where
  "RecordBuilder_SetPayload p b = b\<lparr>rb_payload := p\<rparr>"

text \<open>The checksum covers the header behind its own field, and the payload.\<close>

definition header_crc :: "(u32 \<Rightarrow> u8 list \<Rightarrow> u32) \<Rightarrow> RecordHeader \<Rightarrow> u8 list \<Rightarrow> u32" where
  "header_crc crc_ext h payload =
     CRC32C_Finalize (CRC32C_Update crc_ext payload
       (CRC32C_Update crc_ext (drop 4 (RecordHeader_Serialize h)) CRC32C_new))"

definition RecordBuilder_Build :: "(u32 \<Rightarrow> u8 list \<Rightarrow> u32) \<Rightarrow> RecordBuilder \<Rightarrow> u8 list" where
  "RecordBuilder_Build crc_ext b =
     (let len = of_nat (length (rb_payload b));
          h = RecordHeader_new\<lparr>rh_type := RecordType_byte (rb_type b), rh_length := len,
                rh_padding := RecordHeader_CalculatePadding len\<rparr>;
          h = h\<lparr>rh_crc := header_crc crc_ext h (rb_payload b)\<rparr>
      in RecordHeader_Serialize h @ rb_payload b @ replicate (unat (rh_padding h)) 0)"

record RecordParser =
  rp_header :: RecordHeader
  rp_payload :: "u8 list"
  rp_valid :: bool

definition RecordParser_new :: "(u32 \<Rightarrow> u8 list \<Rightarrow> u32) \<Rightarrow> u8 list \<Rightarrow> RecordParser" where
  "RecordParser_new crc_ext data =
     (if length data < 16 then \<lparr>rp_header = RecordHeader_new, rp_payload = [], rp_valid = False\<rparr>
      else
        let h = RecordHeader_Deserialize (take 16 data);
            expected_size = 16 + unat (rh_length h) + unat (rh_padding h)
        in if length data < expected_size then \<lparr>rp_header = h, rp_payload = [], rp_valid = False\<rparr>
           else if header_crc crc_ext h (subspan 16 (unat (rh_length h)) data) \<noteq> rh_crc h
             then \<lparr>rp_header = h, rp_payload = [], rp_valid = False\<rparr>
             else \<lparr>rp_header = h, rp_payload = subspan 16 (unat (rh_length h)) data, rp_valid = True\<rparr>)"

definition RecordParser_Type :: "RecordParser \<Rightarrow> RecordType" where
  "RecordParser_Type p = RecordType_of (rh_type (rp_header p))"

section \<open>Reading back what was written\<close>

lemma subspan_all [simp]: "length xs = k \<Longrightarrow> subspan 0 k (xs @ ys) = xs" "length xs \<le> k \<Longrightarrow> subspan 0 k xs = xs"
  by (auto simp: subspan_def)

lemma take_serialized [simp]:
  "take 16 (RecordHeader_Serialize h @ xs) = RecordHeader_Serialize h"
  "length (RecordHeader_Serialize h) = 16"
  "length (SegmentHeader_Serialize sh) = 32"
  "length (MetadataHeader_bytes mh) = 16"
  "length (MetadataContent_bytes mc) = 24"
  by (simp_all add: RecordHeader_Serialize_def SegmentHeader_Serialize_def MetadataHeader_bytes_def MetadataContent_bytes_def)

lemma header_round_trips [simp]:
  "RecordHeader_Deserialize (RecordHeader_Serialize h) = h"
  "SegmentHeader_Deserialize (SegmentHeader_Serialize sh) = sh"
  "MetadataHeader_of (MetadataHeader_bytes mh) = mh"
  "MetadataContent_of (MetadataContent_bytes mc) = mc"
  by (simp_all add: RecordHeader_Serialize_def RecordHeader_Deserialize_def SegmentHeader_Serialize_def
      SegmentHeader_Deserialize_def MetadataHeader_bytes_def MetadataHeader_of_def MetadataContent_bytes_def
      MetadataContent_of_def field_def)

lemma RecordType_round_trip [simp]: "t \<in> {Record_Entry, Record_EntryBatch, Record_HardState} \<Longrightarrow> RecordType_of (RecordType_byte t) = t"
  by (auto simp: RecordType_of_def)

lemma padding_bounds: "unat (RecordHeader_CalculatePadding len) < 8"
proof -
  have "unat ((16 + len) mod 8 :: u32) < 8" using unat_mod [of "16 + len" 8] by simp
  moreover have "(16 + len) mod 8 \<noteq> 0 \<Longrightarrow> unat (8 - (16 + len) mod 8 :: u32) = 8 - unat ((16 + len) mod 8)"
    using calculation by (subst unat_sub) (auto simp: word_le_nat_alt)
  moreover have "(16 + len) mod 8 \<noteq> 0 \<Longrightarrow> unat ((16 + len) mod 8 :: u32) \<noteq> 0" by (simp add: unat_eq_0)
  ultimately show ?thesis by (auto simp: RecordHeader_CalculatePadding_def Let_def)
qed

text \<open>The header that \<open>Build\<close> writes.\<close>

definition built_header :: "(u32 \<Rightarrow> u8 list \<Rightarrow> u32) \<Rightarrow> RecordType \<Rightarrow> u8 list \<Rightarrow> RecordHeader" where
  "built_header crc_ext t p =
     (let h = RecordHeader_new\<lparr>rh_type := RecordType_byte t, rh_length := of_nat (length p),
            rh_padding := RecordHeader_CalculatePadding (of_nat (length p))\<rparr>
      in h\<lparr>rh_crc := header_crc crc_ext h p\<rparr>)"

lemma drop_crc [simp]: "drop 4 (RecordHeader_Serialize (h\<lparr>rh_crc := c\<rparr>)) = drop 4 (RecordHeader_Serialize h)"
  by (simp add: RecordHeader_Serialize_def)

lemma header_crc_update [simp]: "header_crc crc_ext (h\<lparr>rh_crc := c\<rparr>) p = header_crc crc_ext h p"
  by (simp add: header_crc_def)

lemma Build_eq: "RecordBuilder_Build crc_ext \<lparr>rb_type = t, rb_payload = p\<rparr> =
    RecordHeader_Serialize (built_header crc_ext t p) @ p @ replicate (unat (rh_padding (built_header crc_ext t p))) 0"
  by (simp add: RecordBuilder_Build_def built_header_def Let_def)

lemma built_header_fields [simp]:
  "rh_type (built_header crc_ext t p) = RecordType_byte t"
  "rh_length (built_header crc_ext t p) = of_nat (length p)"
  "rh_padding (built_header crc_ext t p) = RecordHeader_CalculatePadding (of_nat (length p))"
  by (simp_all add: built_header_def Let_def)

lemma built_header_crc: "rh_crc (built_header crc_ext t p) = header_crc crc_ext (built_header crc_ext t p) p"
  by (simp add: built_header_def Let_def)

lemma length_Build: "length (RecordBuilder_Build crc_ext \<lparr>rb_type = t, rb_payload = p\<rparr>) =
    16 + length p + unat (RecordHeader_CalculatePadding (of_nat (length p)))"
  by (simp add: Build_eq)

lemma unat_of_nat_u32: "n < 2 ^ 32 \<Longrightarrow> unat (of_nat n :: u32) = n"
  by (simp add: unat_of_nat take_bit_nat_eq_self)

lemma unat_TotalSize:
  assumes "length p + 24 \<le> 2 ^ 32"
  shows "unat (RecordHeader_TotalSize (built_header crc_ext t p)) =
    length (RecordBuilder_Build crc_ext \<lparr>rb_type = t, rb_payload = p\<rparr>)"
proof -
  let ?k = "unat (RecordHeader_CalculatePadding (of_nat (length p)))"
  have n: "16 + length p + ?k < 2 ^ 32" using padding_bounds [of "of_nat (length p)"] assms by simp
  have "RecordHeader_TotalSize (built_header crc_ext t p) = of_nat (16 + length p + ?k)"
    by (simp add: RecordHeader_TotalSize_def)
  then show ?thesis unfolding length_Build using unat_of_nat_u32 [OF n] by simp
qed

text \<open>
  What the parser makes of a record in which the payload may have been overwritten by other bytes of
  the same length.
\<close>

lemma parse_overwritten:
  assumes "length q = length p" "length p < 2 ^ 32"
  shows "RecordParser_new crc_ext (RecordHeader_Serialize (built_header crc_ext t p) @ q @
      replicate (unat (RecordHeader_CalculatePadding (of_nat (length p)))) 0 @ rest) =
    (let h = built_header crc_ext t p in
      if header_crc crc_ext h q = header_crc crc_ext h p then \<lparr>rp_header = h, rp_payload = q, rp_valid = True\<rparr>
      else \<lparr>rp_header = h, rp_payload = [], rp_valid = False\<rparr>)"
proof -
  have "unat (of_nat (length p) :: u32) = length p" using assms(2) by (rule unat_of_nat_u32)
  then show ?thesis using assms(1) by (simp add: RecordParser_new_def Let_def built_header_crc)
qed

lemma parse_Build:
  assumes "length p < 2 ^ 32"
  shows "RecordParser_new crc_ext (RecordBuilder_Build crc_ext \<lparr>rb_type = t, rb_payload = p\<rparr> @ rest) =
    \<lparr>rp_header = built_header crc_ext t p, rp_payload = p, rp_valid = True\<rparr>"
  using parse_overwritten [OF refl assms, of crc_ext t rest] by (simp add: Build_eq Let_def)

text \<open>
  C38. A record that \<open>RecordBuilder\<close> builds is read back by \<open>RecordParser\<close> from any bytes that begin
  with it, with its type and its payload; and when the payload on disk has been replaced by other bytes
  of the same length, the record is accepted only if the checksum routine cannot tell the two apart.
\<close>

theorem record_round_trip:
  assumes "t \<in> {Record_Entry, Record_EntryBatch, Record_HardState}" "length p < 2 ^ 32" "length q = length p"
  shows "let record = RecordBuilder_Build crc_ext (RecordBuilder_SetPayload p (RecordBuilder_SetType t RecordBuilder_new));
        parse = RecordParser_new crc_ext
    in rp_valid (parse (record @ rest)) \<and> RecordParser_Type (parse (record @ rest)) = t \<and>
       rp_payload (parse (record @ rest)) = p \<and>
       (rp_valid (parse (take 16 record @ q @ drop (16 + length q) record @ rest)) \<longleftrightarrow>
          crc_ext (crc_ext 0 (subspan 4 12 record)) q = crc_ext (crc_ext 0 (subspan 4 12 record)) p)"
proof -
  let ?h = "built_header crc_ext t p"
  let ?r = "RecordBuilder_Build crc_ext \<lparr>rb_type = t, rb_payload = p\<rparr>"
  let ?pad = "replicate (unat (RecordHeader_CalculatePadding (of_nat (length p)))) (0 :: u8)"
  have r: "RecordBuilder_SetPayload p (RecordBuilder_SetType t RecordBuilder_new) = \<lparr>rb_type = t, rb_payload = p\<rparr>"
    by (simp add: RecordBuilder_SetPayload_def RecordBuilder_SetType_def RecordBuilder_new_def)
  have parts: "take 16 ?r = RecordHeader_Serialize ?h" "drop (16 + length q) ?r = ?pad"
    "subspan 4 12 ?r = drop 4 (RecordHeader_Serialize ?h)"
    using assms(3) by (simp_all add: Build_eq subspan_def)
  show ?thesis
    unfolding Let_def r parts using parse_Build [OF assms(2), of crc_ext t rest] parse_overwritten [OF assms(3,2), of crc_ext t rest] assms(1)
    by (simp add: RecordParser_Type_def Let_def header_crc_def CRC32C_Finalize_def CRC32C_Update_def CRC32C_new_def)
qed

theorem record_round_trip_witness:
  "(let crc_ext = (\<lambda>c bs. c + sum_list (map ucast bs));
        record = RecordBuilder_Build crc_ext (RecordBuilder_SetPayload [1, 2, 3] (RecordBuilder_SetType Record_HardState RecordBuilder_new))
    in rp_payload (RecordParser_new crc_ext (record @ [9])) = [1, 2, 3] \<and>
       \<not> rp_valid (RecordParser_new crc_ext (take 16 record @ [1, 7, 3] @ drop 19 record)))"
  using record_round_trip [of Record_HardState "[1, 2, 3]" "[1, 2, 3]" "\<lambda>c bs. c + sum_list (map ucast bs)" "[9]"]
    record_round_trip [of Record_HardState "[1, 2, 3]" "[1, 7, 3]" "\<lambda>c bs. c + sum_list (map ucast bs)" "[]"]
  by (simp add: Let_def)

end
