(* ===== verification/WalDisk.thy ===== *)
theory WalDisk
  imports WalRecord
begin

text \<open>
  The operating system behind the write-ahead log, as POSIX documents it. A \<open>disk\<close> holds the files of
  the log's directory; a file is a list of bytes. The parameter \<open>os\<close> decides how each system call ends,
  by the number of calls made before it: it is carried out, it fails, it transfers only some of
  the bytes, or a signal interrupts it. Nothing is assumed of \<open>os\<close>, so what is proved of a
  call that reports success holds whatever other calls have failed. A call whose result the code ignores and
  which changes no file (\<open>close\<close>, \<open>fsync\<close> of the directory) has no counterpart; neither has \<open>errno\<close>, whose text
  only ends up in messages. The queries of \<open>std::filesystem\<close> for the existence and the size of a file are answered.
\<close>

datatype outcome = Done | Failed | Partial nat | Interrupted

type_synonym os = "nat \<Rightarrow> outcome"

record disk =
  d_dir :: bool
  d_files :: "(string \<times> u8 list) list"
  d_clock :: nat

definition sys_outcome :: "os \<Rightarrow> disk \<Rightarrow> outcome \<times> disk" where
  "sys_outcome os d = (os (d_clock d), d\<lparr>d_clock := Suc (d_clock d)\<rparr>)"

text \<open>A call that takes effect as a whole or not at all.\<close>

definition sys_call :: "os \<Rightarrow> (disk \<Rightarrow> disk) \<Rightarrow> disk \<Rightarrow> bool \<times> disk" where
  "sys_call os eff d =
     (case sys_outcome os d of
        (Failed, d) \<Rightarrow> (False, d)
      | (Interrupted, d) \<Rightarrow> (False, d)
      | (_, d) \<Rightarrow> (True, eff d))"

section \<open>Files\<close>

definition file_of :: "disk \<Rightarrow> string \<Rightarrow> u8 list" where
  "file_of d name = (case map_of (d_files d) name of None \<Rightarrow> [] | Some bs \<Rightarrow> bs)"

definition file_exists :: "disk \<Rightarrow> string \<Rightarrow> bool" where
  "file_exists d name \<longleftrightarrow> map_of (d_files d) name \<noteq> None"

definition set_file :: "string \<Rightarrow> u8 list \<Rightarrow> disk \<Rightarrow> disk" where
  "set_file name bs d = d\<lparr>d_files := AList.update name bs (d_files d)\<rparr>"

definition remove_file :: "string \<Rightarrow> disk \<Rightarrow> disk" where
  "remove_file name d = d\<lparr>d_files := AList.delete name (d_files d)\<rparr>"

text \<open>Writing beyond the end of a file and extending it fill the gap with zeros.\<close>

definition extend_to :: "nat \<Rightarrow> u8 list \<Rightarrow> u8 list" where
  "extend_to n bs = bs @ replicate (n - length bs) 0"

definition put_at :: "nat \<Rightarrow> u8 list \<Rightarrow> u8 list \<Rightarrow> u8 list" where
  "put_at off data bs = take off (extend_to off bs) @ data @ drop (off + length data) bs"

definition set_size :: "nat \<Rightarrow> u8 list \<Rightarrow> u8 list" where
  "set_size n bs = take n (extend_to n bs)"

text \<open>
  \<open>pwrite\<close> and \<open>pread\<close>: the number of bytes written and the bytes read, \<open>None\<close> for a negative result. An
  offset that is negative as an \<open>off_t\<close> is refused.
\<close>

definition sys_pwrite :: "os \<Rightarrow> string \<Rightarrow> u64 \<Rightarrow> u8 list \<Rightarrow> disk \<Rightarrow> nat option \<times> disk" where
  "sys_pwrite os name off data d =
     (let write = (\<lambda>bs d. (Some (length bs), set_file name (put_at (unat off) bs (file_of d name)) d)) in
      case sys_outcome os d of
        (Failed, d) \<Rightarrow> (None, d)
      | (Interrupted, d) \<Rightarrow> (None, d)
      | (Done, d) \<Rightarrow> if sint off < 0 then (None, d) else write data d
      | (Partial k, d) \<Rightarrow> if sint off < 0 then (None, d) else write (take k data) d)"

definition sys_pread :: "os \<Rightarrow> string \<Rightarrow> u64 \<Rightarrow> nat \<Rightarrow> disk \<Rightarrow> u8 list option \<times> disk" where
  "sys_pread os name off len d =
     (let read = subspan (unat off) len (file_of d name) in
      case sys_outcome os d of
        (Failed, d) \<Rightarrow> (None, d)
      | (Interrupted, d) \<Rightarrow> (None, d)
      | (Done, d) \<Rightarrow> if sint off < 0 then (None, d) else (Some read, d)
      | (Partial k, d) \<Rightarrow> if sint off < 0 then (None, d) else (Some (take k read), d))"

definition sys_ftruncate :: "os \<Rightarrow> string \<Rightarrow> u64 \<Rightarrow> disk \<Rightarrow> bool \<times> disk" where
  "sys_ftruncate os name off d =
     (if sint off < 0 then (False, snd (sys_outcome os d))
      else sys_call os (\<lambda>d. set_file name (set_size (unat off) (file_of d name)) d) d)"

section \<open>Calls that may return an error\<close>

text \<open>A sequence of calls on a state, left at the first error.\<close>

definition io_bind :: "('s \<Rightarrow> 'a result \<times> 's) \<Rightarrow> ('a \<Rightarrow> 's \<Rightarrow> 'b result \<times> 's) \<Rightarrow> 's \<Rightarrow> 'b result \<times> 's" where
  "io_bind m f s = (case m s of (Inl e, s) \<Rightarrow> (Inl e, s) | (Inr x, s) \<Rightarrow> f x s)"

definition io_return :: "'a \<Rightarrow> 's \<Rightarrow> 'a result \<times> 's" where
  "io_return x s = (Inr x, s)"

definition io_fail :: "raft_error \<Rightarrow> 's \<Rightarrow> 'a result \<times> 's" where
  "io_fail e s = (Inl e, s)"

lemma io_bind_InrE:
  assumes "io_bind m f s = (Inr y, s')"
  obtains x s1 where "m s = (Inr x, s1)" "f x s1 = (Inr y, s')"
  using assms by (auto simp: io_bind_def split: prod.splits sum.splits)

lemma io_bind_Inr [simp]: "m s = (Inr x, s1) \<Longrightarrow> io_bind m f s = f x s1"
  by (simp add: io_bind_def)

lemma io_return_simp [simp]: "io_return x s = (Inr x, s)" "io_fail e s = (Inl e, s)"
  by (simp_all add: io_return_def io_fail_def)

section \<open>Reading and writing\<close>

lemma file_set_file [simp]:
  "file_of (set_file name bs d) n = (if n = name then bs else file_of d n)"
  "file_exists (set_file name bs d) n \<longleftrightarrow> n = name \<or> file_exists d n"
  "d_clock (set_file name bs d) = d_clock d" "d_dir (set_file name bs d) = d_dir d"
  by (auto simp: file_of_def file_exists_def set_file_def update_conv)

lemma file_remove_file [simp]:
  "file_of (remove_file name d) n = (if n = name then [] else file_of d n)"
  "file_exists (remove_file name d) n \<longleftrightarrow> n \<noteq> name \<and> file_exists d n"
  "d_clock (remove_file name d) = d_clock d" "d_dir (remove_file name d) = d_dir d"
  by (auto simp: file_of_def file_exists_def remove_file_def delete_conv)

lemma file_clock [simp]:
  "file_of (d\<lparr>d_clock := c\<rparr>) n = file_of d n" "file_exists (d\<lparr>d_clock := c\<rparr>) n = file_exists d n"
  by (simp_all add: file_of_def file_exists_def)

lemma length_put_at [simp]: "length (put_at off data bs) = max (length bs) (off + length data)"
  by (simp add: put_at_def extend_to_def)

lemma put_at_end: "off = length bs \<Longrightarrow> put_at off data bs = bs @ data"
  by (simp add: put_at_def extend_to_def)

lemma put_at_middle: "off = length xs \<Longrightarrow> put_at off data (xs @ ys) = xs @ data @ drop (length data) ys"
  by (simp add: put_at_def extend_to_def)

lemma subspan_put_at [simp]: "k = length data \<Longrightarrow> subspan off k (put_at off data bs) = data"
  by (simp add: put_at_def extend_to_def subspan_def)

lemma subspan_put_at_before: "off + k \<le> off' \<Longrightarrow> off + k \<le> length bs \<Longrightarrow> subspan off k (put_at off' data bs) = subspan off k bs"
  by (simp add: put_at_def extend_to_def subspan_def take_drop)

lemma set_size_take: "n \<le> length bs \<Longrightarrow> set_size n bs = take n bs"
  by (simp add: set_size_def extend_to_def)

text \<open>A write that reports the whole length has stored the data, and a read that does has returned it.\<close>

lemma sys_pwrite_all:
  assumes "sys_pwrite os name off data d = (Some n, d')" "n = length data"
  shows "d' = set_file name (put_at (unat off) data (file_of d name)) (d\<lparr>d_clock := Suc (d_clock d)\<rparr>)"
  using assms by (auto simp: sys_pwrite_def sys_outcome_def Let_def min_def split: outcome.splits if_splits)

lemma sys_pread_all:
  assumes "sys_pread os name off len d = (Some bs, d')" "length bs = len"
  shows "bs = subspan (unat off) len (file_of d name) \<and> d' = d\<lparr>d_clock := Suc (d_clock d)\<rparr>"
  using assms by (auto simp: sys_pread_def sys_outcome_def subspan_def Let_def min_def split: outcome.splits if_splits)

lemma sys_call_True: "sys_call os eff d = (True, d') \<Longrightarrow> d' = eff (d\<lparr>d_clock := Suc (d_clock d)\<rparr>)"
  by (auto simp: sys_call_def sys_outcome_def split: outcome.splits)

lemma sys_call_False: "sys_call os eff d = (False, d') \<Longrightarrow> d' = d\<lparr>d_clock := Suc (d_clock d)\<rparr>"
  by (auto simp: sys_call_def sys_outcome_def split: outcome.splits)

end
