(* ===== verification/MetadataStore.thy ===== *)
theory MetadataStore
  imports WalDisk
begin

text \<open>
  The metadata file of the write-ahead log (\<open>lib/raftor/wal/metadata_store.cc\<close>): hard state, configuration,
  peer addresses and the boundaries of the log, replaced as a whole through a temporary file. The
  Cap'n Proto encodings are third-party code: a record of encoders, and of decoders whose \<open>None\<close> is a
  thrown exception.
\<close>

section \<open>Encodings\<close>

record PeerAddress =
  pa_id :: u64
  pa_addr :: bytes

record codec =
  c_crc :: "u32 \<Rightarrow> u8 list \<Rightarrow> u32"
  c_entry :: "entry \<Rightarrow> u8 list"
  c_entry_of :: "u8 list \<Rightarrow> entry option"
  c_hard_state :: "hard_state \<Rightarrow> u8 list"
  c_hard_state_of :: "u8 list \<Rightarrow> hard_state option"
  c_conf_state :: "conf_state \<Rightarrow> u8 list"
  c_conf_state_of :: "u8 list \<Rightarrow> conf_state option"
  c_snapshot :: "snapshot \<Rightarrow> u8 list"
  c_snapshot_of :: "u8 list \<Rightarrow> snapshot option"
  c_peers :: "PeerAddress list \<Rightarrow> u8 list"
  c_peers_of :: "u8 list \<Rightarrow> PeerAddress list option"

text \<open>\<open>fromWords\<close> is given the whole words of a buffer, \<open>fromBytes\<close> throws when there is a rest.\<close>

definition from_words :: "(u8 list \<Rightarrow> 'a option) \<Rightarrow> u8 list \<Rightarrow> 'a option" where
  "from_words dec bs = dec (take (8 * (length bs div 8)) bs)"

definition from_bytes :: "(u8 list \<Rightarrow> 'a option) \<Rightarrow> u8 list \<Rightarrow> 'a option" where
  "from_bytes dec bs = (if length bs mod 8 \<noteq> 0 then None else dec bs)"

section \<open>Metadata\<close>

record WALMetadata =
  wm_hard_state :: "hard_state option"
  wm_conf_state :: "conf_state option"
  wm_peer_addresses :: "PeerAddress list"
  wm_first_index :: u64
  wm_snapshot_index :: u64
  wm_snapshot_term :: u64

definition WALMetadata_new :: WALMetadata where
  "WALMetadata_new = \<lparr>wm_hard_state = None, wm_conf_state = None, wm_peer_addresses = [], wm_first_index = 1,
     wm_snapshot_index = 0, wm_snapshot_term = 0\<rparr>"

definition with_length :: "u8 list \<Rightarrow> u8 list" where
  "with_length bs = le_bytes 4 (of_nat (length bs) :: u32) @ bs"

definition MetadataStore_Serialize :: "codec \<Rightarrow> WALMetadata \<Rightarrow> u8 list" where
  "MetadataStore_Serialize C meta =
     (let hard_state_bytes = (case wm_hard_state meta of None \<Rightarrow> [] | Some hs \<Rightarrow> c_hard_state C hs);
          conf_state_bytes = (case wm_conf_state meta of None \<Rightarrow> [] | Some cs \<Rightarrow> c_conf_state C cs);
          peer_address_book_bytes = (if wm_peer_addresses meta = [] then [] else c_peers C (wm_peer_addresses meta));
          content = \<lparr>mc_first_index = wm_first_index meta, mc_snapshot_index = wm_snapshot_index meta,
                     mc_snapshot_term = wm_snapshot_term meta\<rparr>;
          body = MetadataContent_bytes content @ with_length hard_state_bytes @ with_length conf_state_bytes @
                 with_length peer_address_book_bytes;
          crc = CRC32C_Finalize (CRC32C_Update (c_crc C) (replicate 4 0 @ body) CRC32C_new)
      in MetadataHeader_bytes (MetadataHeader_new\<lparr>mh_crc := crc\<rparr>) @ body)"

text \<open>A length field and what it announces, at an offset of the file.\<close>

definition read_block :: "raft_error \<Rightarrow> (u8 list \<Rightarrow> 'a option) \<Rightarrow> nat \<Rightarrow> u8 list \<Rightarrow> ('a option \<times> nat) result" where
  "read_block parse_error dec offset data =
     (if offset + 4 > length data then Inl (StorageError MetadataFileTooSmall)
      else
        let len = unat (field offset 4 data :: u32); offset = offset + 4
        in if len = 0 then Inr (None, offset)
           else if offset + len > length data then Inl (StorageError MetadataFileTooSmall)
           else case dec (subspan offset len data) of
                  None \<Rightarrow> Inl parse_error
                | Some x \<Rightarrow> Inr (Some x, offset + len))"

definition read_peers :: "codec \<Rightarrow> nat \<Rightarrow> u8 list \<Rightarrow> PeerAddress list result" where
  "read_peers C offset data =
     (if offset < length data then
        if length data - offset < 4 then Inl (StorageError MetadataFileTooSmall)
        else
          let len = unat (field offset 4 data :: u32); offset = offset + 4
          in if length data - offset < len then Inl (StorageError MetadataFileTooSmall)
             else if len = 0 then
               (if offset \<noteq> length data then Inl (StorageError MetadataFileTooSmall) else Inr [])
             else case from_bytes (c_peers_of C) (subspan offset len data) of
                    None \<Rightarrow> Inl (StorageError PeerAddressBookParseError)
                  | Some peers \<Rightarrow>
                      if offset + len \<noteq> length data then Inl (StorageError MetadataFileTooSmall) else Inr peers
      else Inr [])"

definition default_hard_state :: hard_state where
  "default_hard_state = MakeHardState 0 0 0"

definition MetadataStore_Deserialize :: "codec \<Rightarrow> u8 list \<Rightarrow> WALMetadata result" where
  "MetadataStore_Deserialize C data =
     (if length data < 16 + 24 then Inl (StorageError MetadataFileTooSmall)
      else
        let header = MetadataHeader_of (take 16 data)
        in if \<not> MetadataHeader_IsValid header then Inl (StorageError InvalidMetadataHeader)
           else if CRC32C_Finalize (CRC32C_Update (c_crc C) (drop 12 data) CRC32C_new) \<noteq> mh_crc header
           then Inl (StorageError MetadataCrcMismatch)
           else
             let content = MetadataContent_of (subspan 16 24 data)
             in result_bind (read_block (StorageError HardStateParseError) (from_words (c_hard_state_of C)) 40 data)
               (\<lambda>(hard_state, offset).
                result_bind (read_block (StorageError ConfStateParseError) (from_words (c_conf_state_of C)) offset data)
               (\<lambda>(conf_state, offset).
                result_bind (read_peers C offset data)
               (\<lambda>peers.
                  Inr \<lparr>wm_hard_state = Some (case hard_state of None \<Rightarrow> default_hard_state | Some hs \<Rightarrow> hs),
                       wm_conf_state = Some (case conf_state of None \<Rightarrow> default_conf_state | Some cs \<Rightarrow> cs),
                       wm_peer_addresses = peers, wm_first_index = mc_first_index content,
                       wm_snapshot_index = mc_snapshot_index content, wm_snapshot_term = mc_snapshot_term content\<rparr>))))"

section \<open>The store\<close>

definition metadata_path :: string where
  "metadata_path = ''metadata''"

definition metadata_tmp_path :: string where
  "metadata_tmp_path = ''metadata.tmp''"

definition unlink_tmp :: "os \<Rightarrow> disk \<Rightarrow> disk" where
  "unlink_tmp os d = snd (sys_call os (remove_file metadata_tmp_path) d)"

definition rename_file :: "string \<Rightarrow> string \<Rightarrow> disk \<Rightarrow> disk" where
  "rename_file src dst d = set_file dst (file_of d src) (remove_file src d)"

definition MetadataStore_AtomicWrite :: "os \<Rightarrow> u8 list \<Rightarrow> disk \<Rightarrow> unit result \<times> disk" where
  "MetadataStore_AtomicWrite os data d =
     (case sys_call os (set_file metadata_tmp_path []) d of
        (False, d) \<Rightarrow> (Inl (StorageErrorOther (Fmt ''failed to create temp metadata: {}'' [])), d)
      | (True, d) \<Rightarrow>
          (case sys_pwrite os metadata_tmp_path 0 data d of
             (written, d) \<Rightarrow>
               if written \<noteq> Some (length data)
               then (Inl (StorageErrorOther (Fmt ''failed to write temp metadata: {}'' [])), unlink_tmp os d)
               else case sys_call os id d of
                      (False, d) \<Rightarrow> (Inl (StorageErrorOther (Fmt ''failed to sync temp metadata: {}'' [])), unlink_tmp os d)
                    | (True, d) \<Rightarrow>
                        (case sys_call os (rename_file metadata_tmp_path metadata_path) d of
                           (False, d) \<Rightarrow> (Inl (StorageErrorOther (Fmt ''failed to rename metadata: {}'' [])), unlink_tmp os d)
                         | (True, d) \<Rightarrow> (Inr (), d))))"

definition MetadataStore_Save :: "os \<Rightarrow> codec \<Rightarrow> WALMetadata \<Rightarrow> disk \<Rightarrow> unit result \<times> disk" where
  "MetadataStore_Save os C meta d = MetadataStore_AtomicWrite os (MetadataStore_Serialize C meta) d"

definition MetadataStore_Exists :: "disk \<Rightarrow> bool" where
  "MetadataStore_Exists d = file_exists d metadata_path"

definition MetadataStore_Initialize :: "os \<Rightarrow> codec \<Rightarrow> disk \<Rightarrow> unit result \<times> disk" where
  "MetadataStore_Initialize os C d =
     (case (if d_dir d then (True, d) else sys_call os (\<lambda>d. d\<lparr>d_dir := True\<rparr>) d) of
        (False, d) \<Rightarrow> (Inl (StorageErrorOther (Fmt ''failed to create directory: {}'' [])), d)
      | (True, d) \<Rightarrow>
          if \<not> MetadataStore_Exists d then MetadataStore_Save os C WALMetadata_new d else (Inr (), d))"

definition MetadataStore_Load :: "os \<Rightarrow> codec \<Rightarrow> disk \<Rightarrow> WALMetadata result \<times> disk" where
  "MetadataStore_Load os C d =
     (if \<not> MetadataStore_Exists d then (Inr WALMetadata_new, d)
      else case sys_call os id d of
             (False, d) \<Rightarrow> (Inl (StorageErrorOther (Fmt ''failed to open metadata: {}'' [])), d)
           | (True, d) \<Rightarrow>
               (case sys_call os id d of
                  (False, d) \<Rightarrow> (Inl (StorageErrorOther (Fmt ''failed to get metadata size: {}'' [])), d)
                | (True, d) \<Rightarrow>
                    let size = length (file_of d metadata_path)
                    in case sys_pread os metadata_path 0 size d of
                         (None, d) \<Rightarrow> (Inl (StorageErrorOther (Fmt ''failed to read metadata: {}'' [])), d)
                       | (Some data, d) \<Rightarrow>
                           if length data \<noteq> size
                           then (Inl (StorageErrorOther (Fmt ''failed to read metadata: {}'' [])), d)
                           else (MetadataStore_Deserialize C data, d)))"

definition MetadataStore_SizeBytes :: "disk \<Rightarrow> u64" where
  "MetadataStore_SizeBytes d =
     (if file_exists d metadata_path then of_nat (length (file_of d metadata_path)) else 0) +
     (if file_exists d metadata_tmp_path then of_nat (length (file_of d metadata_tmp_path)) else 0)"

section \<open>Round trip\<close>

text \<open>
  What the code relies on of the Cap'n Proto library: a message has a flat encoding of whole words, at least
  one, which is decoded to the same message.
\<close>

definition encodes :: "('a \<Rightarrow> u8 list) \<Rightarrow> (u8 list \<Rightarrow> 'a option) \<Rightarrow> 'a \<Rightarrow> bool" where
  "encodes enc dec x \<longleftrightarrow> enc x \<noteq> [] \<and> length (enc x) mod 8 = 0 \<and> length (enc x) + 24 \<le> 2 ^ 32 \<and> dec (enc x) = Some x"

lemma encodes_words [simp]: "encodes enc dec x \<Longrightarrow> from_words dec (enc x) = Some x"
  by (auto simp: encodes_def from_words_def)

lemma encodes_bytes [simp]: "encodes enc dec x \<Longrightarrow> from_bytes dec (enc x) = Some x"
  by (auto simp: encodes_def from_bytes_def)

lemma length_with_length [simp]: "length (with_length bs) = 4 + length bs"
  by (simp add: with_length_def)

lemma with_length_field:
  assumes "length bs < 2 ^ 32" "off = length pre"
  shows "unat (field off 4 (pre @ with_length bs @ rest) :: u32) = length bs"
  using assms unat_of_nat_u32 [OF assms(1)] by (simp add: field_def with_length_def)

lemma with_length_block:
  "off = length pre + 4 \<Longrightarrow> subspan off (length bs) (pre @ with_length bs @ rest) = bs"
  by (simp add: with_length_def)

lemma read_block_written:
  assumes "off = length pre" "length bs < 2 ^ 32" "bs = [] \<or> dec bs = Some x"
  shows "read_block e dec off (pre @ with_length bs @ rest) =
    Inr (if bs = [] then None else Some x, off + 4 + length bs)"
  using assms with_length_field [OF assms(2,1)] with_length_block [of "off + 4" pre bs]
  by (auto simp: read_block_def Let_def)

lemma read_peers_written:
  assumes "off = length pre" "length bs < 2 ^ 32" "bs = [] \<or> from_bytes (c_peers_of C) bs = Some ps"
  shows "read_peers C off (pre @ with_length bs) = Inr (if bs = [] then [] else ps)"
  using assms with_length_field [OF assms(2,1), of "[]"] with_length_block [of "off + 4" pre bs "[]"]
  by (auto simp: read_peers_def Let_def)

definition metadata_encodes :: "codec \<Rightarrow> WALMetadata \<Rightarrow> bool" where
  "metadata_encodes C meta \<longleftrightarrow>
     (\<forall>hs. wm_hard_state meta = Some hs \<longrightarrow> encodes (c_hard_state C) (c_hard_state_of C) hs) \<and>
     (\<forall>cs. wm_conf_state meta = Some cs \<longrightarrow> encodes (c_conf_state C) (c_conf_state_of C) cs) \<and>
     (wm_peer_addresses meta \<noteq> [] \<longrightarrow> encodes (c_peers C) (c_peers_of C) (wm_peer_addresses meta))"

text \<open>The metadata as they are read: what was never set has its default.\<close>

definition metadata_read :: "WALMetadata \<Rightarrow> WALMetadata" where
  "metadata_read meta = meta\<lparr>
     wm_hard_state := Some (case wm_hard_state meta of None \<Rightarrow> default_hard_state | Some hs \<Rightarrow> hs),
     wm_conf_state := Some (case wm_conf_state meta of None \<Rightarrow> default_conf_state | Some cs \<Rightarrow> cs)\<rparr>"

lemma Deserialize_Serialize:
  assumes "metadata_encodes C meta"
  shows "MetadataStore_Deserialize C (MetadataStore_Serialize C meta) = Inr (metadata_read meta)"
proof -
  define hb where "hb = (case wm_hard_state meta of None \<Rightarrow> [] | Some hs \<Rightarrow> c_hard_state C hs)"
  define cb where "cb = (case wm_conf_state meta of None \<Rightarrow> [] | Some cs \<Rightarrow> c_conf_state C cs)"
  define pb where "pb = (if wm_peer_addresses meta = [] then [] else c_peers C (wm_peer_addresses meta))"
  define mc where "mc = \<lparr>mc_first_index = wm_first_index meta, mc_snapshot_index = wm_snapshot_index meta,
    mc_snapshot_term = wm_snapshot_term meta\<rparr>"
  define body where "body = MetadataContent_bytes mc @ with_length hb @ with_length cb @ with_length pb"
  define mh where "mh = MetadataHeader_new\<lparr>mh_crc :=
    CRC32C_Finalize (CRC32C_Update (c_crc C) (replicate 4 0 @ body) CRC32C_new)\<rparr>"
  let ?f = "MetadataHeader_bytes mh @ body"
  have ser: "MetadataStore_Serialize C meta = ?f"
    by (simp add: MetadataStore_Serialize_def Let_def hb_def cb_def pb_def mc_def body_def mh_def)
  have b: "length hb < 2 ^ 32 \<and> (hb = [] \<or> from_words (c_hard_state_of C) hb = wm_hard_state meta) \<and> (hb = [] \<longleftrightarrow> wm_hard_state meta = None)"
    "length cb < 2 ^ 32 \<and> (cb = [] \<or> from_words (c_conf_state_of C) cb = wm_conf_state meta) \<and> (cb = [] \<longleftrightarrow> wm_conf_state meta = None)"
    "length pb < 2 ^ 32 \<and> (pb = [] \<or> from_bytes (c_peers_of C) pb = Some (wm_peer_addresses meta)) \<and> (pb = [] \<longleftrightarrow> wm_peer_addresses meta = [])"
    using assms by (auto simp: hb_def cb_def pb_def metadata_encodes_def split: option.splits) (auto simp: encodes_def)
  have hdr: "take 16 ?f = MetadataHeader_bytes mh" "subspan 16 24 ?f = MetadataContent_bytes mc"
    "drop 12 ?f = replicate 4 0 @ body" "MetadataHeader_IsValid mh" "\<not> length ?f < 16 + 24"
    by (simp_all add: body_def mh_def MetadataHeader_new_def MetadataHeader_bytes_def MetadataHeader_IsValid_def
        eval_nat_numeral)
  have crc: "mh_crc mh = CRC32C_Finalize (CRC32C_Update (c_crc C) (replicate 4 0 @ body) CRC32C_new)"
    by (simp add: mh_def)
  let ?pre = "MetadataHeader_bytes mh @ MetadataContent_bytes mc"
  have l: "40 = length ?pre" by simp
  have r1: "read_block (StorageError HardStateParseError) (from_words (c_hard_state_of C)) 40 ?f =
      Inr (wm_hard_state meta, 40 + 4 + length hb)"
    using read_block_written [OF l, of hb "from_words (c_hard_state_of C)" "the (wm_hard_state meta)" _ "with_length cb @ with_length pb"] b(1)
    by (auto simp: body_def)
  have l2: "40 + 4 + length hb = length (?pre @ with_length hb)" by simp
  have r2: "read_block (StorageError ConfStateParseError) (from_words (c_conf_state_of C)) (40 + 4 + length hb) ?f =
      Inr (wm_conf_state meta, 40 + 4 + length hb + 4 + length cb)"
    using read_block_written [OF l2, of cb "from_words (c_conf_state_of C)" "the (wm_conf_state meta)" _ "with_length pb"] b(2)
    by (auto simp: body_def)
  have l3: "40 + 4 + length hb + 4 + length cb = length (?pre @ with_length hb @ with_length cb)" by simp
  have r3: "read_peers C (40 + 4 + length hb + 4 + length cb) ?f = Inr (wm_peer_addresses meta)"
    using read_peers_written [OF l3, of pb C "wm_peer_addresses meta"] b(3) by (auto simp: body_def)
  show ?thesis
    unfolding ser MetadataStore_Deserialize_def hdr Let_def
    using hdr(4,5) r1 r2 r3 by (simp add: crc mc_def metadata_read_def)
qed

section \<open>Atomic replacement\<close>

lemma paths_differ [simp]: "metadata_tmp_path \<noteq> metadata_path" "metadata_path \<noteq> metadata_tmp_path"
  by (simp_all add: metadata_path_def metadata_tmp_path_def)

text \<open>Whatever happens to the temporary file, the others stay as they are.\<close>

definition same_but :: "string set \<Rightarrow> disk \<Rightarrow> disk \<Rightarrow> bool" where
  "same_but N d d' \<longleftrightarrow> d_dir d' = d_dir d \<and>
     (\<forall>n. n \<notin> N \<longrightarrow> file_of d' n = file_of d n \<and> file_exists d' n = file_exists d n)"

lemma same_but_refl [simp]: "same_but N d d"
  by (simp add: same_but_def)

lemma same_but_trans: "same_but N d d1 \<Longrightarrow> same_but N d1 d2 \<Longrightarrow> same_but N d d2"
  by (simp add: same_but_def)

lemma same_but_clock [simp]: "same_but N d (d1\<lparr>d_clock := c\<rparr>) = same_but N d d1" "same_but N (d\<lparr>d_clock := c\<rparr>) d1 = same_but N d d1"
  by (simp_all add: same_but_def)

lemma same_but_files [simp]:
  "n \<in> N \<Longrightarrow> same_but N d (set_file n bs d1) = same_but N d d1"
  "n \<in> N \<Longrightarrow> same_but N d (remove_file n d1) = same_but N d d1"
  by (auto simp: same_but_def)

lemma sys_call_same_but: "(\<And>d. same_but N d (eff d)) \<Longrightarrow> sys_call os eff d = (b, d') \<Longrightarrow> same_but N d d'"
  by (cases b) (auto dest!: sys_call_True sys_call_False simp: same_but_def)

lemma sys_pwrite_same_but: "sys_pwrite os n off data d = (r, d') \<Longrightarrow> n \<in> N \<Longrightarrow> same_but N d d'"
  by (auto simp: sys_pwrite_def sys_outcome_def Let_def split: outcome.splits if_splits)

lemma unlink_tmp_same_but: "same_but {metadata_tmp_path} d (unlink_tmp os d)"
  by (cases "sys_call os (remove_file metadata_tmp_path) d")
    (auto simp: unlink_tmp_def intro: sys_call_same_but [rotated])

lemma AtomicWrite_effect:
  assumes "MetadataStore_AtomicWrite os data d = (r, d')"
  shows "case r of Inl _ \<Rightarrow> same_but {metadata_tmp_path} d d'
    | Inr _ \<Rightarrow> same_but {metadata_tmp_path, metadata_path} d d' \<and> file_exists d' metadata_path \<and> file_of d' metadata_path = data"
proof -
  let ?T = "{metadata_tmp_path}"
  obtain b1 d1 where c1: "sys_call os (set_file metadata_tmp_path []) d = (b1, d1)" by (cases "sys_call os (set_file metadata_tmp_path []) d")
  have s1: "same_but ?T d d1" using c1 by (rule sys_call_same_but [rotated]) simp
  obtain w d2 where c2: "sys_pwrite os metadata_tmp_path 0 data d1 = (w, d2)" by (cases "sys_pwrite os metadata_tmp_path 0 data d1")
  have s2: "same_but ?T d d2" using same_but_trans [OF s1 sys_pwrite_same_but [OF c2]] by simp
  obtain b3 d3 where c3: "sys_call os id d2 = (b3, d3)" by (cases "sys_call os id d2")
  have s3: "same_but ?T d d3" using same_but_trans [OF s2 sys_call_same_but [OF _ c3]] by simp
  obtain b4 d4 where c4: "sys_call os (rename_file metadata_tmp_path metadata_path) d3 = (b4, d4)"
    by (cases "sys_call os (rename_file metadata_tmp_path metadata_path) d3")
  consider "\<not> b1" "r = Inl (StorageErrorOther (Fmt ''failed to create temp metadata: {}'' []))" "d' = d1"
    | e where "b1" "w \<noteq> Some (length data)" "r = Inl e" "d' = unlink_tmp os d2"
    | e where "b1" "w = Some (length data)" "\<not> b3" "r = Inl e" "d' = unlink_tmp os d3"
    | e where "b1" "w = Some (length data)" "b3" "\<not> b4" "r = Inl e" "d' = unlink_tmp os d4"
    | "b1" "w = Some (length data)" "b3" "b4" "r = Inr ()" "d' = d4"
    using assms c1 c2 c3 c4 by (auto simp: MetadataStore_AtomicWrite_def split: bool.splits if_splits)
  then show ?thesis
  proof cases
    case 1
    then show ?thesis using s1 by simp
  next
    case 2
    then show ?thesis using same_but_trans [OF s2 unlink_tmp_same_but] by simp
  next
    case 3
    then show ?thesis using same_but_trans [OF s3 unlink_tmp_same_but] by simp
  next
    case 4
    have "same_but ?T d d4" using s3 sys_call_False [of os "rename_file metadata_tmp_path metadata_path" d3 d4] c4 4 by simp
    then show ?thesis using same_but_trans [OF _ unlink_tmp_same_but] 4 by simp
  next
    case 5
    have d3: "file_of d3 metadata_tmp_path = data"
      using sys_pwrite_all [OF c2 [unfolded 5]] sys_call_True [OF c3 [unfolded 5(3) [THEN eqTrueI]]] c1 5(1)
      by (auto dest!: sys_call_True simp: put_at_end)
    show ?thesis
      using s3 sys_call_True [of os "rename_file metadata_tmp_path metadata_path" d3 d4] c4 5 d3 by (auto simp: rename_file_def same_but_def)
  qed
qed

lemma Load_written:
  assumes "MetadataStore_Load os C d = (r, d')" "file_exists d metadata_path"
  shows "(\<exists>t. r = Inl (StorageErrorOther t)) \<or> r = MetadataStore_Deserialize C (file_of d metadata_path)"
proof -
  have id: "d'' = d1\<lparr>d_clock := Suc (d_clock d1)\<rparr>" if "sys_call os id d1 = (True, d'')" for d1 d''
    using sys_call_True [OF that] by simp
  show ?thesis
    using assms by (auto simp: MetadataStore_Load_def MetadataStore_Exists_def Let_def
        split: prod.splits bool.splits option.splits if_splits dest!: id sys_pread_all)
qed

text \<open>
  C40. The metadata file is replaced as a whole. Once \<open>Save\<close> has reported success, every later \<open>Load\<close> that
  the operating system lets read the file returns exactly the metadata saved; when \<open>Save\<close> reports an error,
  whatever step failed, the metadata file is what it was before.
\<close>

theorem metadata_save_atomic:
  assumes "metadata_encodes C meta" "MetadataStore_Save os C meta d = (r, d')"
  shows "case r of
      Inl _ \<Rightarrow> file_of d' metadata_path = file_of d metadata_path \<and> file_exists d' metadata_path = file_exists d metadata_path
    | Inr _ \<Rightarrow> fst (MetadataStore_Load os' C d') = Inr (metadata_read meta) \<or>
        (\<exists>t. fst (MetadataStore_Load os' C d') = Inl (StorageErrorOther t))"
proof (cases r)
  case (Inl e)
  then show ?thesis using AtomicWrite_effect [OF assms(2) [unfolded MetadataStore_Save_def]] by (simp add: same_but_def)
next
  case (Inr u)
  then show ?thesis
    using AtomicWrite_effect [OF assms(2) [unfolded MetadataStore_Save_def]]
      Load_written [of os' C d' "fst (MetadataStore_Load os' C d')" "snd (MetadataStore_Load os' C d')"]
      Deserialize_Serialize [OF assms(1)] by auto
qed

text \<open>A small codec: a hard state is the bytes of its three numbers.\<close>

definition ex_codec :: codec where
  "ex_codec = \<lparr>c_crc = (\<lambda>c bs. c + sum_list (map ucast bs)),
     c_entry = (\<lambda>e. le_bytes 8 (e_term e) @ le_bytes 8 (e_index e)),
     c_entry_of = (\<lambda>bs. if length bs = 16 then Some (MakeEntry (field 8 8 bs) (field 0 8 bs) ENTRY_NORMAL) else None),
     c_hard_state = (\<lambda>hs. le_bytes 8 (hs_term hs) @ le_bytes 8 (hs_vote hs) @ le_bytes 8 (hs_commit hs)),
     c_hard_state_of = (\<lambda>bs. if length bs = 24 then Some (MakeHardState (field 0 8 bs) (field 8 8 bs) (field 16 8 bs)) else None),
     c_conf_state = (\<lambda>cs. replicate 8 0), c_conf_state_of = (\<lambda>_. Some default_conf_state),
     c_snapshot = (\<lambda>sn. replicate 8 0), c_snapshot_of = (\<lambda>_. Some default_snapshot),
     c_peers = (\<lambda>_. replicate 8 0), c_peers_of = (\<lambda>_. Some [])\<rparr>"

lemma ex_codec_hard_state: "encodes (c_hard_state ex_codec) (c_hard_state_of ex_codec) hs"
  by (cases hs) (simp add: encodes_def ex_codec_def field_def MakeHardState_def, simp flip: length_0_conv)

lemma ex_codec_entry: "encodes (c_entry ex_codec) (c_entry_of ex_codec) (MakeEntry i t ENTRY_NORMAL)"
  by (simp add: encodes_def ex_codec_def field_def MakeEntry_def default_entry_def, simp flip: length_0_conv)

definition ex_metadata :: WALMetadata where
  "ex_metadata = WALMetadata_new\<lparr>wm_hard_state := Some (MakeHardState 5 2 9)\<rparr>"

theorem metadata_save_atomic_witness:
  "let d = \<lparr>d_dir = True, d_files = [(metadata_path, [1])], d_clock = 0\<rparr>;
       (r, d') = MetadataStore_Save (\<lambda>n. if n = 3 then Failed else Done) ex_codec ex_metadata d
   in r \<noteq> Inr () \<and> file_of d' metadata_path = [1]"
proof -
  define d where "d = \<lparr>d_dir = True, d_files = [(metadata_path, [1 :: u8])], d_clock = 0\<rparr>"
  define s where "s = MetadataStore_Save (\<lambda>n. if n = 3 then Failed else Done) ex_codec ex_metadata d"
  have enc: "metadata_encodes ex_codec ex_metadata"
    by (simp add: metadata_encodes_def ex_metadata_def WALMetadata_new_def ex_codec_hard_state)
  obtain e where e: "fst s = Inl e"
    by (simp add: s_def d_def MetadataStore_Save_def MetadataStore_AtomicWrite_def sys_call_def sys_outcome_def sys_pwrite_def
        set_file_def)
  have "file_of (snd s) metadata_path = [1]"
    using metadata_save_atomic [OF enc, of _ d "fst s" "snd s"] e unfolding s_def by (simp add: d_def file_of_def)
  then show ?thesis using e unfolding s_def d_def by (auto split: prod.splits)
qed

end
