(* ===== verification/ReadyProcessor.thy ===== *)
theory ReadyProcessor
  imports RawNode Proposals StateMachine MetadataStore Scenario
begin

text \<open>
  The processing of a Ready (\<open>lib/raftor/ready_processor.cc\<close>): persisting, sending, applying and advancing.

  The node and the processor share one storage object; it is the store inside the log of the node. What the
  processor asks of the storage, the transport and the state machine is kept, in order, as a trace of effects; an
  effect on the storage is in the trace when it has succeeded. Spans and log lines have no counterpart.
\<close>

section \<open>Metadata proposals\<close>

definition kMetadataProposalContextPrefix :: bytes where
  "kMetadataProposalContextPrefix = ''raftor:metadata:''"

text \<open>The union of the schema; the code writes only its first case.\<close>

datatype RaftorMetadataChange = UpsertPeer u64 bytes | RemovePeer u64

definition IsMetadataProposalContext :: "bytes \<Rightarrow> bool" where
  "IsMetadataProposalContext ctx \<longleftrightarrow>
     length ctx \<ge> length kMetadataProposalContextPrefix \<and>
     take (length kMetadataProposalContextPrefix) ctx = kMetadataProposalContextPrefix"

text \<open>The decoder of the library gives \<open>None\<close> when it throws.\<close>

definition ParseMetadataChange :: "(bytes \<Rightarrow> RaftorMetadataChange option) \<Rightarrow> bytes \<Rightarrow> (u64 \<times> bytes) option" where
  "ParseMetadataChange decode data =
     (case decode data of
        None \<Rightarrow> None
      | Some (UpsertPeer node_id addr) \<Rightarrow> Some (node_id, addr)
      | Some (RemovePeer _) \<Rightarrow> None)"

definition IsChecksumExemptEntry :: "entry \<Rightarrow> bool" where
  "IsChecksumExemptEntry e \<longleftrightarrow> e_type e = ENTRY_NORMAL \<and> length (e_data e) = 0 \<and> length (e_context e) = 0"

section \<open>Surroundings\<close>

record 's writable_ops =
  wo_Append :: "entry list \<Rightarrow> 's \<Rightarrow> (unit result \<times> 's) option"
  wo_SetHardState :: "hard_state \<Rightarrow> 's \<Rightarrow> (unit result \<times> 's) option"
  wo_SetConfState :: "conf_state \<Rightarrow> 's \<Rightarrow> (unit result \<times> 's) option"
  wo_ApplySnapshot :: "snapshot \<Rightarrow> 's \<Rightarrow> (unit result \<times> 's) option"
  wo_ApplyLocalSnapshot :: "snapshot \<Rightarrow> 's \<Rightarrow> (unit result \<times> 's) option"
  wo_Sync :: "'s \<Rightarrow> (unit result \<times> 's) option"
  wo_LocalSnapshot :: "'s \<Rightarrow> snapshot option result"
  wo_LogSizeBytes :: "'s \<Rightarrow> u64"

text \<open>What only a WALStorage offers: the address book.\<close>

record 's peer_ops =
  po_UpsertPeerAddress :: "u64 \<Rightarrow> bytes \<Rightarrow> 's \<Rightarrow> (unit result \<times> 's) option"
  po_RemovePeerAddress :: "u64 \<Rightarrow> 's \<Rightarrow> (unit result \<times> 's) option"
  po_SetPeerAddresses :: "PeerAddress list \<Rightarrow> 's \<Rightarrow> (unit result \<times> 's) option"
  po_GetPeerAddresses :: "'s \<Rightarrow> PeerAddress list"

record ('s, 'm) raftor_env =
  re_env :: "'s Env"
  re_storage :: "'s writable_ops"
  re_wal :: "'s peer_ops option"
  re_machine :: "'m state_machine"
  re_node_id :: u64
  re_checksum_enabled :: bool
  re_conf_change_of :: "bytes \<Rightarrow> conf_change option"
  re_metadata_change_of :: "bytes \<Rightarrow> RaftorMetadataChange option"

datatype effect =
    Appended "entry list"
  | SavedHardState hard_state
  | SavedConfState conf_state
  | Synced
  | RestoredSnapshot snapshot_metadata
  | StoredSnapshot snapshot
  | Sent "message list"
  | Applied entry
  | AddressSaved u64 bytes
  | AddressRemoved u64
  | PeerAdded u64 bytes
  | PeerRemoved u64
  | LeadershipChanged bool u64 u64
  | TransportStarted
  | TransportStopped

section \<open>State\<close>

record ('s, 'm) ReadyProcessor =
  rp_raw_node :: "'s RawNode"
  rp_state_machine :: 'm
  rp_proposal_tracker :: ProposalTracker
  rp_calls :: "call list"
  rp_trace :: "effect list"
  rp_prev_role :: StateRole
  rp_prev_leader :: u64
  rp_prev_term :: u64
  rp_applied_index :: u64
  rp_fatal_error :: "raft_error option"
  rp_pending_reads :: "(u64 \<times> bytes) list"

definition ReadyProcessor_new :: "'s RawNode \<Rightarrow> 'm \<Rightarrow> u64 \<Rightarrow> ('s, 'm) ReadyProcessor" where
  "ReadyProcessor_new n m initial_applied_index =
     \<lparr>rp_raw_node = n, rp_state_machine = m, rp_proposal_tracker = ProposalTracker_new, rp_calls = [], rp_trace = [],
      rp_prev_role = Follower, rp_prev_leader = 0, rp_prev_term = 0, rp_applied_index = initial_applied_index,
      rp_fatal_error = None, rp_pending_reads = []\<rparr>"

type_synonym ('s, 'm, 'a) rp_op = "('s, 'm) ReadyProcessor \<Rightarrow> ('a result \<times> ('s, 'm) ReadyProcessor) option"

definition emit :: "effect \<Rightarrow> ('s, 'm) ReadyProcessor \<Rightarrow> ('s, 'm) ReadyProcessor" where
  "emit e rp = rp\<lparr>rp_trace := rp_trace rp @ [e]\<rparr>"

definition on_tracker ::
    "(ProposalTracker \<Rightarrow> call list \<times> ProposalTracker) \<Rightarrow> ('s, 'm) ReadyProcessor \<Rightarrow> ('s, 'm) ReadyProcessor" where
  "on_tracker f rp =
     (case f (rp_proposal_tracker rp) of (cs, t) \<Rightarrow> rp\<lparr>rp_proposal_tracker := t, rp_calls := rp_calls rp @ cs\<rparr>)"

definition on_node :: "('s RawNode \<Rightarrow> ('a \<times> 's RawNode) option) \<Rightarrow> ('s, 'm) ReadyProcessor \<Rightarrow> ('a \<times> ('s, 'm) ReadyProcessor) option" where
  "on_node f rp = do { (x, n) \<leftarrow> f (rp_raw_node rp); Some (x, rp\<lparr>rp_raw_node := n\<rparr>) }"

definition node_store :: "'s RawNode \<Rightarrow> 's" where
  "node_store n = rl_store (r_log (rn_raft n))"

definition set_node_store :: "'s \<Rightarrow> 's RawNode \<Rightarrow> 's RawNode" where
  "set_node_store s n = n\<lparr>rn_raft := (rn_raft n)\<lparr>r_log := (r_log (rn_raft n))\<lparr>rl_store := s\<rparr>\<rparr>\<rparr>"

text \<open>An operation of the storage; its effect is noted when it succeeds.\<close>

definition on_store :: "('s \<Rightarrow> (unit result \<times> 's) option) \<Rightarrow> effect \<Rightarrow> ('s, 'm, unit) rp_op" where
  "on_store f e rp = do {
     (r, s) \<leftarrow> f (node_store (rp_raw_node rp));
     let rp = rp\<lparr>rp_raw_node := set_node_store s (rp_raw_node rp)\<rparr>;
     Some (case r of Inl x \<Rightarrow> (Inl x, rp) | Inr _ \<Rightarrow> (Inr (), emit e rp))
   }"

text \<open>A step whose error ends the operation, as it is or replaced by another one.\<close>

definition rp_bind :: "('s, 'm, 'a) rp_op \<Rightarrow> ('a \<Rightarrow> ('s, 'm, 'b) rp_op) \<Rightarrow> ('s, 'm, 'b) rp_op" where
  "rp_bind f g rp = do {
     (r, rp) \<leftarrow> f rp;
     case r of Inl e \<Rightarrow> Some (Inl e, rp) | Inr x \<Rightarrow> g x rp
   }"

definition or_dropped :: "('s, 'm, 'a) rp_op \<Rightarrow> ('s, 'm, 'a) rp_op" where
  "or_dropped f rp = do {
     (r, rp) \<leftarrow> f rp;
     Some (case r of Inl _ \<Rightarrow> Inl (RaftError ProposalDropped) | Inr x \<Rightarrow> Inr x, rp)
   }"

definition rp_return :: "'a \<Rightarrow> ('s, 'm, 'a) rp_op" where
  "rp_return x rp = Some (Inr x, rp)"

definition rp_do :: "(('s, 'm) ReadyProcessor \<Rightarrow> ('s, 'm) ReadyProcessor) \<Rightarrow> ('s, 'm, unit) rp_op" where
  "rp_do f rp = Some (Inr (), f rp)"

section \<open>Checks and reads\<close>

definition IsFatalApplyError :: "raft_error \<Rightarrow> bool" where
  "IsFatalApplyError e \<longleftrightarrow> e = RaftError ChecksumMismatch"

definition VerifyEntryChecksum :: "('s, 'm) raftor_env \<Rightarrow> entry \<Rightarrow> ('s, 'm, unit) rp_op" where
  "VerifyEntryChecksum R e rp =
     (if IsChecksumExemptEntry e then Some (Inr (), rp)
      else if IsMetadataProposalContext (e_context e) then Some (Inr (), rp)
      else if ComputeEntryChecksum (re_env R) e = e_checksum e then Some (Inr (), rp)
      else Some (Inl (RaftError ChecksumMismatch),
                 if e_context e \<noteq> [] then on_tracker (ProposalTracker_Fail (e_context e) (RaftError ChecksumMismatch)) rp else rp))"

fun validate_entries :: "('s, 'm) raftor_env \<Rightarrow> entry list \<Rightarrow> ('s, 'm, unit) rp_op" where
  "validate_entries R [] rp = Some (Inr (), rp)"
| "validate_entries R (e # es) rp = rp_bind (VerifyEntryChecksum R e) (\<lambda>_. validate_entries R es) rp"

definition ReadyProcessor_ValidateReadyEntries :: "('s, 'm) raftor_env \<Rightarrow> entry list \<Rightarrow> ('s, 'm, unit) rp_op" where
  "ReadyProcessor_ValidateReadyEntries R entries rp =
     (if \<not> re_checksum_enabled R \<or> entries = [] then Some (Inr (), rp) else validate_entries R entries rp)"

text \<open>The predicate of \<open>remove_if\<close> completes reads as it goes; the reads it rejects stay, in their order.\<close>

fun complete_reads :: "u64 \<Rightarrow> (u64 \<times> bytes) list \<Rightarrow> ('s, 'm) ReadyProcessor \<Rightarrow> (u64 \<times> bytes) list \<times> ('s, 'm) ReadyProcessor" where
  "complete_reads applied_index [] rp = ([], rp)"
| "complete_reads applied_index ((index, ctx) # reads) rp =
     (if \<not> ProposalTracker_IsReadPending ctx (rp_proposal_tracker rp) then complete_reads applied_index reads rp
      else if applied_index \<ge> index then complete_reads applied_index reads (on_tracker (ProposalTracker_CompleteRead ctx) rp)
      else case complete_reads applied_index reads rp of (kept, rp) \<Rightarrow> ((index, ctx) # kept, rp))"

definition ReadyProcessor_MaybeCompletePendingReads :: "('s, 'm) ReadyProcessor \<Rightarrow> ('s, 'm) ReadyProcessor" where
  "ReadyProcessor_MaybeCompletePendingReads rp =
     (case complete_reads (rp_applied_index rp) (rp_pending_reads rp) rp of (kept, rp) \<Rightarrow> rp\<lparr>rp_pending_reads := kept\<rparr>)"

definition ReadyProcessor_EnqueueReadStates :: "ReadState list \<Rightarrow> ('s, 'm) ReadyProcessor \<Rightarrow> ('s, 'm) ReadyProcessor" where
  "ReadyProcessor_EnqueueReadStates read_states rp =
     (if read_states = [] then rp
      else ReadyProcessor_MaybeCompletePendingReads
        (rp\<lparr>rp_pending_reads := rp_pending_reads rp @ map (\<lambda>rs. (rst_index rs, rst_request_ctx rs)) read_states\<rparr>))"

definition ReadyProcessor_EnterFatalState :: "raft_error \<Rightarrow> ('s, 'm) ReadyProcessor \<Rightarrow> ('s, 'm) ReadyProcessor" where
  "ReadyProcessor_EnterFatalState error rp =
     (if rp_fatal_error rp \<noteq> None then rp
      else on_tracker (ProposalTracker_FailAllReads error)
        (on_tracker (ProposalTracker_FailAll error) (rp\<lparr>rp_fatal_error := Some error\<rparr>)))"

definition ReadyProcessor_CheckLeadershipChange :: "('s, 'm) raftor_env \<Rightarrow> Ready \<Rightarrow> ('s, 'm) ReadyProcessor \<Rightarrow> ('s, 'm) ReadyProcessor" where
  "ReadyProcessor_CheckLeadershipChange R rd rp =
     (case rd_ss rd of
        None \<Rightarrow> rp
      | Some ss \<Rightarrow>
          let was_leader = (rp_prev_role rp = Leader);
              is_leader = (ss_raft_state ss = Leader);
              trm = (case rd_hs rd of Some hs \<Rightarrow> hs_term hs | None \<Rightarrow> rp_prev_term rp);
              rp = (if was_leader \<noteq> is_leader \<or> rp_prev_leader rp \<noteq> ss_leader_id ss \<or>
                       rd_hs rd \<noteq> None \<and> rp_prev_term rp \<noteq> trm
                    then
                      let rp = emit (LeadershipChanged is_leader trm (ss_leader_id ss))
                            (rp\<lparr>rp_state_machine := ma_OnLeadershipChange (re_machine R) is_leader trm (ss_leader_id ss) (rp_state_machine rp)\<rparr>)
                      in if was_leader \<and> \<not> is_leader
                         then on_tracker (ProposalTracker_FailAllReads (RaftError LostLeadership))
                                (on_tracker (ProposalTracker_FailAll (RaftError ProposalDropped)) rp)
                         else rp
                    else rp)
          in rp\<lparr>rp_prev_role := ss_raft_state ss, rp_prev_leader := ss_leader_id ss, rp_prev_term := trm\<rparr>)"

section \<open>Persisting and sending\<close>

definition ReadyProcessor_PersistEntries :: "('s, 'm) raftor_env \<Rightarrow> Ready \<Rightarrow> ('s, 'm, unit) rp_op" where
  "ReadyProcessor_PersistEntries R rd rp =
     (if rd_entries rd = [] then Some (Inr (), rp)
      else or_dropped (on_store (wo_Append (re_storage R) (rd_entries rd)) (Appended (rd_entries rd))) rp)"

definition ReadyProcessor_PersistHardState :: "('s, 'm) raftor_env \<Rightarrow> Ready \<Rightarrow> ('s, 'm, unit) rp_op" where
  "ReadyProcessor_PersistHardState R rd rp =
     (case rd_hs rd of
        None \<Rightarrow> Some (Inr (), rp)
      | Some hs \<Rightarrow>
          rp_bind (or_dropped (on_store (wo_SetHardState (re_storage R) hs) (SavedHardState hs)))
            (\<lambda>_ rp. if rd_must_sync rd then or_dropped (on_store (wo_Sync (re_storage R)) Synced) rp else Some (Inr (), rp)) rp)"

definition restore_machine :: "('s, 'm) raftor_env \<Rightarrow> snapshot \<Rightarrow> ('s, 'm, unit) rp_op" where
  "restore_machine R sn rp =
     (case ma_RestoreSnapshot (re_machine R) (sn_metadata sn) (SnapshotDataReader_new (sn_data sn)) (rp_state_machine rp) of
        (Inl e, m) \<Rightarrow> Some (Inl e, rp\<lparr>rp_state_machine := m\<rparr>)
      | (Inr _, m) \<Rightarrow> Some (Inr (), emit (RestoredSnapshot (sn_metadata sn)) (rp\<lparr>rp_state_machine := m\<rparr>)))"

definition ReadyProcessor_ApplySnapshot :: "('s, 'm) raftor_env \<Rightarrow> Ready \<Rightarrow> ('s, 'm, unit) rp_op" where
  "ReadyProcessor_ApplySnapshot R rd rp =
     (case rd_snapshot rd of
        None \<Rightarrow> Some (Inr (), rp)
      | Some sn \<Rightarrow>
          if sn_index sn = 0 then Some (Inr (), rp)
          else rp_bind (restore_machine R sn) (\<lambda>_.
               rp_bind (or_dropped (on_store (wo_ApplySnapshot (re_storage R) sn) (StoredSnapshot sn))) (\<lambda>_.
               rp_do (\<lambda>rp. ReadyProcessor_MaybeCompletePendingReads (rp\<lparr>rp_applied_index := sn_index sn\<rparr>)))) rp)"

definition ReadyProcessor_SendMessages :: "message list \<Rightarrow> ('s, 'm) ReadyProcessor \<Rightarrow> ('s, 'm) ReadyProcessor" where
  "ReadyProcessor_SendMessages messages rp = (if messages = [] then rp else emit (Sent messages) rp)"

section \<open>Applying\<close>

definition complete_context :: "bytes \<Rightarrow> bytes \<Rightarrow> ('s, 'm) ReadyProcessor \<Rightarrow> ('s, 'm) ReadyProcessor" where
  "complete_context ctx response rp = (if ctx \<noteq> [] then on_tracker (ProposalTracker_Complete ctx response) rp else rp)"

definition fail_context :: "bytes \<Rightarrow> raft_error \<Rightarrow> ('s, 'm) ReadyProcessor \<Rightarrow> ('s, 'm) ReadyProcessor" where
  "fail_context ctx error rp = (if ctx \<noteq> [] then on_tracker (ProposalTracker_Fail ctx error) rp else rp)"

definition on_address_book :: "('s, 'm) raftor_env \<Rightarrow> ('s peer_ops \<Rightarrow> 's \<Rightarrow> (unit result \<times> 's) option) \<Rightarrow> effect \<Rightarrow> ('s, 'm, unit) rp_op" where
  "on_address_book R f e rp = (case re_wal R of None \<Rightarrow> Some (Inr (), rp) | Some P \<Rightarrow> on_store (f P) e rp)"

definition parse_conf_change :: "('s, 'm) raftor_env \<Rightarrow> entry \<Rightarrow> conf_change_v2 option" where
  "parse_conf_change R e =
     (if e_type e = ENTRY_CONF_CHANGE
      then case re_conf_change_of R (e_data e) of
             None \<Rightarrow> None
           | Some cc \<Rightarrow> Some \<lparr>cc2_transition = AUTO,
                              cc2_changes = [\<lparr>ccs_change_type = cc_change_type cc, ccs_node_id = cc_node_id cc\<rparr>],
                              cc2_context = cc_context cc\<rparr>
      else env_fromString (re_env R) (e_data e))"

definition apply_peer_change :: "('s, 'm) raftor_env \<Rightarrow> bytes \<Rightarrow> conf_change_single \<Rightarrow> ('s, 'm, unit) rp_op" where
  "apply_peer_change R addr change rp =
     (let node_id = ccs_node_id change in
      if ccs_change_type change = ADD_NODE \<or> ccs_change_type change = ADD_LEARNER_NODE
      then if addr = [] then Some (Inr (), rp)
           else rp_bind (on_address_book R (\<lambda>P. po_UpsertPeerAddress P node_id addr) (AddressSaved node_id addr)) (\<lambda>_.
                  rp_do (\<lambda>rp. if node_id \<noteq> re_node_id R then emit (PeerAdded node_id addr) rp else rp)) rp
      else if ccs_change_type change = REMOVE_NODE
      then rp_bind (on_address_book R (\<lambda>P. po_RemovePeerAddress P node_id) (AddressRemoved node_id)) (\<lambda>_.
             rp_do (emit (PeerRemoved node_id))) rp
      else Some (Inr (), rp))"

fun apply_peer_changes :: "('s, 'm) raftor_env \<Rightarrow> bytes \<Rightarrow> conf_change_single list \<Rightarrow> ('s, 'm, unit) rp_op" where
  "apply_peer_changes R addr [] rp = Some (Inr (), rp)"
| "apply_peer_changes R addr (change # changes) rp =
     rp_bind (apply_peer_change R addr change) (\<lambda>_. apply_peer_changes R addr changes) rp"

definition apply_conf_change :: "('s, 'm) raftor_env \<Rightarrow> entry \<Rightarrow> ('s, 'm, unit) rp_op" where
  "apply_conf_change R e rp =
     (case parse_conf_change R e of
        None \<Rightarrow> Some (Inl (RaftError ProposalDropped), rp)
      | Some cc \<Rightarrow>
          rp_bind (on_node (RawNode_ApplyConfChange (re_env R) cc)) (\<lambda>cs.
          rp_bind (on_store (wo_SetConfState (re_storage R) cs) (SavedConfState cs)) (\<lambda>_.
          rp_bind (apply_peer_changes R (cc2_context cc) (cc2_changes cc)) (\<lambda>_.
          rp_do (complete_context (cc2_context cc) ''conf change applied'')))) rp)"

definition apply_metadata_change :: "('s, 'm) raftor_env \<Rightarrow> entry \<Rightarrow> ('s, 'm, unit) rp_op" where
  "apply_metadata_change R e rp =
     (case ParseMetadataChange (re_metadata_change_of R) (e_data e) of
        None \<Rightarrow> Some (Inl (RaftError ConfChangeParseError), fail_context (e_context e) (RaftError ConfChangeParseError) rp)
      | Some (node_id, addr) \<Rightarrow>
          rp_bind (on_address_book R (\<lambda>P. po_UpsertPeerAddress P node_id addr) (AddressSaved node_id addr)) (\<lambda>_.
          rp_do (\<lambda>rp. complete_context (e_context e) ''metadata change applied''
            (emit (if node_id = re_node_id R \<or> addr = [] then PeerRemoved node_id else PeerAdded node_id addr) rp))) rp)"

definition apply_to_machine :: "('s, 'm) raftor_env \<Rightarrow> entry \<Rightarrow> ('s, 'm, unit) rp_op" where
  "apply_to_machine R e rp =
     (case ma_Apply (re_machine R) e (rp_state_machine rp) of
        (r, m) \<Rightarrow>
          let rp = emit (Applied e) (rp\<lparr>rp_state_machine := m\<rparr>)
          in case r of
               Inl x \<Rightarrow> Some (Inl x, fail_context (e_context e) x rp)
             | Inr response \<Rightarrow>
                 Some (Inr (), complete_context (e_context e) (case response of None \<Rightarrow> [] | Some s \<Rightarrow> s) rp))"

definition ReadyProcessor_ApplyEntry :: "('s, 'm) raftor_env \<Rightarrow> entry \<Rightarrow> ('s, 'm, unit) rp_op" where
  "ReadyProcessor_ApplyEntry R e =
     rp_bind (if re_checksum_enabled R then VerifyEntryChecksum R e else rp_return ()) (\<lambda>_ rp.
       if e_type e = ENTRY_CONF_CHANGE \<or> e_type e = ENTRY_CONF_CHANGE_V2 then apply_conf_change R e rp
       else if IsMetadataProposalContext (e_context e) then apply_metadata_change R e rp
       else if length (e_data e) = 0 \<and> length (e_context e) = 0 then Some (Inr (), rp)
       else apply_to_machine R e rp)"

text \<open>The loop over the committed entries: an error that is not fatal is logged and the next entry follows.\<close>

fun apply_entries :: "('s, 'm) raftor_env \<Rightarrow> entry list \<Rightarrow> ('s, 'm, unit) rp_op" where
  "apply_entries R [] rp = Some (Inr (), rp)"
| "apply_entries R (e # es) rp = do {
     (r, rp) \<leftarrow> ReadyProcessor_ApplyEntry R e rp;
     case r of
       Inl x \<Rightarrow> if IsFatalApplyError x then Some (Inl x, rp) else apply_entries R es (rp\<lparr>rp_applied_index := e_index e\<rparr>)
     | Inr _ \<Rightarrow> apply_entries R es (rp\<lparr>rp_applied_index := e_index e\<rparr>)
   }"

definition ReadyProcessor_ApplyCommittedEntries :: "('s, 'm) raftor_env \<Rightarrow> entry list \<Rightarrow> ('s, 'm, unit) rp_op" where
  "ReadyProcessor_ApplyCommittedEntries R entries =
     rp_bind (apply_entries R entries) (\<lambda>_. rp_do ReadyProcessor_MaybeCompletePendingReads)"

definition advance_node :: "('s RawNode \<Rightarrow> 's RawNode option) \<Rightarrow> ('s, 'm) ReadyProcessor \<Rightarrow> ('s, 'm) ReadyProcessor option" where
  "advance_node f rp = do { n \<leftarrow> f (rp_raw_node rp); Some (rp\<lparr>rp_raw_node := n\<rparr>) }"

definition ReadyProcessor_ProcessLightReady :: "('s, 'm) raftor_env \<Rightarrow> LightReady \<Rightarrow> ('s, 'm, unit) rp_op" where
  "ReadyProcessor_ProcessLightReady R light_rd rp = do {
     let rp = ReadyProcessor_SendMessages (lrd_messages light_rd) rp;
     (r, rp) \<leftarrow> apply_entries R (lrd_committed_entries light_rd) rp;
     case r of
       Inl x \<Rightarrow> do {
         rp \<leftarrow> advance_node (RawNode_AdvanceApplyTo (re_env R) (rp_applied_index rp)) rp;
         Some (Inl x, rp)
       }
     | Inr _ \<Rightarrow> do {
         let rp = ReadyProcessor_MaybeCompletePendingReads rp;
         rp \<leftarrow> (if lrd_committed_entries light_rd \<noteq> [] then advance_node (RawNode_AdvanceApply (re_env R)) rp else Some rp);
         Some (Inr (), rp)
       }
   }"

section \<open>One cycle\<close>

text \<open>The steps up to sending, and those after.\<close>

definition process_durable :: "('s, 'm) raftor_env \<Rightarrow> Ready \<Rightarrow> ('s, 'm, unit) rp_op" where
  "process_durable R rd =
     rp_bind (ReadyProcessor_PersistEntries R rd) (\<lambda>_.
     rp_bind (ReadyProcessor_PersistHardState R rd) (\<lambda>_.
     ReadyProcessor_ApplySnapshot R rd))"

definition process_committed :: "('s, 'm) raftor_env \<Rightarrow> Ready \<Rightarrow> ('s, 'm, bool) rp_op" where
  "process_committed R rd rp = do {
     (r, rp) \<leftarrow> ReadyProcessor_ApplyCommittedEntries R (lrd_committed_entries (rd_light rd)) rp;
     case r of
       Inl x \<Rightarrow>
         if IsFatalApplyError x
         then do {
           (_, rp) \<leftarrow> on_node (RawNode_AdvanceAppend (re_env R) rd) rp;
           rp \<leftarrow> advance_node (RawNode_AdvanceApplyTo (re_env R) (rp_applied_index rp)) rp;
           Some (Inl x, ReadyProcessor_EnterFatalState x rp)
         }
         else Some (Inl x, rp)
     | Inr _ \<Rightarrow> do {
         let rp = ReadyProcessor_EnqueueReadStates (rd_read_states rd) rp;
         (light_rd, rp) \<leftarrow> on_node (RawNode_Advance (re_env R) rd) rp;
         (r, rp) \<leftarrow> ReadyProcessor_ProcessLightReady R light_rd rp;
         Some (case r of
                 Inl x \<Rightarrow> (Inl x, if IsFatalApplyError x then ReadyProcessor_EnterFatalState x rp else rp)
               | Inr _ \<Rightarrow> (Inr True, rp))
       }
   }"

definition ReadyProcessor_Process :: "('s, 'm) raftor_env \<Rightarrow> ('s, 'm, bool) rp_op" where
  "ReadyProcessor_Process R rp =
     (case rp_fatal_error rp of
        Some e \<Rightarrow> Some (Inl e, rp)
      | None \<Rightarrow> do {
          has_ready \<leftarrow> RawNode_HasReady (re_env R) (rp_raw_node rp);
          if \<not> has_ready then Some (Inr False, rp)
          else do {
            (rd, rp) \<leftarrow> on_node (RawNode_GetReady (re_env R)) rp;
            let rp = ReadyProcessor_CheckLeadershipChange R rd rp;
            (r, rp) \<leftarrow> ReadyProcessor_ValidateReadyEntries R (rd_entries rd) rp;
            case r of
              Inl x \<Rightarrow> Some (Inl x, if IsFatalApplyError x then ReadyProcessor_EnterFatalState x rp else rp)
            | Inr _ \<Rightarrow>
                rp_bind (process_durable R rd) (\<lambda>_ rp.
                  process_committed R rd (ReadyProcessor_SendMessages (lrd_messages (rd_light rd)) rp)) rp
          }
        })"

section \<open>What every step keeps\<close>

text \<open>
  A step adds effects that satisfy \<open>P\<close> to the trace, and every function of the application that waited still waits or
  has been called.
\<close>

definition advances :: "(effect \<Rightarrow> bool) \<Rightarrow> ('s, 'm) ReadyProcessor \<Rightarrow> ('s, 'm) ReadyProcessor \<Rightarrow> bool" where
  "advances P rp rp' \<longleftrightarrow>
     (\<exists>es. rp_trace rp' = rp_trace rp @ es \<and> list_all P es) \<and>
     (tracker_wf (rp_proposal_tracker rp) \<longrightarrow>
        (\<exists>cs. rp_calls rp' = rp_calls rp @ cs \<and> settles (rp_proposal_tracker rp) (cs, rp_proposal_tracker rp')))"

definition keeps :: "(effect \<Rightarrow> bool) \<Rightarrow> ('s, 'm, 'a) rp_op \<Rightarrow> bool" where
  "keeps P f \<longleftrightarrow> (\<forall>rp r rp'. f rp = Some (r, rp') \<longrightarrow> advances P rp rp')"

named_theorems keeps_intros

lemma advances_refl [simp, intro]: "advances P rp rp"
  by (auto simp: advances_def)

lemma advances_same:
  "rp_trace rp' = rp_trace rp \<Longrightarrow> rp_calls rp' = rp_calls rp \<Longrightarrow> rp_proposal_tracker rp' = rp_proposal_tracker rp \<Longrightarrow> advances P rp rp'"
  by (auto simp: advances_def)

lemma advances_trans [trans]:
  assumes a: "advances P rp rp1" and b: "advances P rp1 rp2"
  shows "advances P rp rp2"
proof -
  have "\<exists>es. rp_trace rp2 = rp_trace rp @ es \<and> list_all P es"
    using a b by (auto simp: advances_def)
  moreover have "\<exists>cs. rp_calls rp2 = rp_calls rp @ cs \<and> settles (rp_proposal_tracker rp) (cs, rp_proposal_tracker rp2)"
    if wf: "tracker_wf (rp_proposal_tracker rp)"
  proof -
    obtain cs where cs: "rp_calls rp1 = rp_calls rp @ cs" "settles (rp_proposal_tracker rp) (cs, rp_proposal_tracker rp1)"
      using a wf by (auto simp: advances_def)
    have "tracker_wf (rp_proposal_tracker rp1)" using cs(2) by (simp add: settles_def)
    then obtain cs' where "rp_calls rp2 = rp_calls rp1 @ cs'" "settles (rp_proposal_tracker rp1) (cs', rp_proposal_tracker rp2)"
      using b by (auto simp: advances_def)
    then show ?thesis using cs settles_trans by fastforce
  qed
  ultimately show ?thesis by (auto simp: advances_def)
qed

lemma advances_mono: "advances P rp rp' \<Longrightarrow> (\<And>e. P e \<Longrightarrow> Q e) \<Longrightarrow> advances Q rp rp'"
  by (auto simp: advances_def list_all_iff)

lemma advances_emit: "P e \<Longrightarrow> advances P rp (emit e rp)"
  by (auto simp: advances_def emit_def)

lemma advances_tracker:
  "(\<And>t. tracker_wf t \<Longrightarrow> settles t (f t)) \<Longrightarrow> advances P rp (on_tracker f rp)"
  by (auto simp: advances_def on_tracker_def split: prod.splits) metis

lemmas advances_trackers =
  advances_tracker [OF tracker_settles(1)] advances_tracker [OF tracker_settles(2)] advances_tracker [OF tracker_settles(3)]
  advances_tracker [OF tracker_settles(4)] advances_tracker [OF tracker_settles(5)] advances_tracker [OF tracker_settles(6)]
  advances_tracker [OF tracker_settles(7)]

lemma rp_keepsD: "keeps P f \<Longrightarrow> f rp = Some (r, rp') \<Longrightarrow> advances P rp rp'"
  by (simp add: keeps_def)

lemma keeps_mono: "keeps P f \<Longrightarrow> (\<And>e. P e \<Longrightarrow> Q e) \<Longrightarrow> keeps Q f"
  unfolding keeps_def using advances_mono by blast

lemma keeps_bind [keeps_intros]: "keeps P f \<Longrightarrow> (\<And>x. keeps P (g x)) \<Longrightarrow> keeps P (rp_bind f g)"
  by (fastforce simp: keeps_def rp_bind_def split: Option.bind_splits sum.splits intro: advances_trans)

lemma keeps_or_dropped [keeps_intros]: "keeps P f \<Longrightarrow> keeps P (or_dropped f)"
  by (auto simp: keeps_def or_dropped_def split: Option.bind_splits)

lemma keeps_return [keeps_intros]: "keeps P (rp_return x)"
  by (simp add: keeps_def rp_return_def)

lemma keeps_Some [keeps_intros]: "keeps P (\<lambda>rp. Some (x, rp))"
  by (simp add: keeps_def)

lemma keeps_do [keeps_intros]: "(\<And>rp. advances P rp (f rp)) \<Longrightarrow> keeps P (rp_do f)"
  by (simp add: keeps_def rp_do_def)

lemma keeps_on_store [keeps_intros]: "P e \<Longrightarrow> keeps P (on_store f e)"
  by (auto simp: keeps_def on_store_def Let_def emit_def advances_def split: Option.bind_splits sum.splits)

lemma keeps_on_node [keeps_intros]: "keeps P (on_node f)"
  by (auto simp: keeps_def on_node_def intro!: advances_same split: Option.bind_splits)

lemma keeps_address_book [keeps_intros]: "P e \<Longrightarrow> keeps P (on_address_book R f e)"
  using keeps_on_store [of P e] by (auto simp: keeps_def on_address_book_def split: option.splits)

lemma advances_advance_node: "advance_node f rp = Some rp' \<Longrightarrow> advances P rp rp'"
  by (auto simp: advance_node_def intro!: advances_same split: Option.bind_splits)

lemma keeps_Verify [keeps_intros]: "keeps P (VerifyEntryChecksum R e)"
  by (auto simp: keeps_def VerifyEntryChecksum_def split: if_splits intro: advances_trackers)

lemma keeps_validate_entries [keeps_intros]: "keeps P (validate_entries R es)"
proof (induction es)
  case (Cons e es)
  have "validate_entries R (e # es) = rp_bind (VerifyEntryChecksum R e) (\<lambda>_. validate_entries R es)" by (rule ext) simp
  then show ?case using Cons by (simp add: keeps_intros)
qed (simp add: keeps_def)

lemma keeps_Validate [keeps_intros]: "keeps P (ReadyProcessor_ValidateReadyEntries R es)"
  using keeps_validate_entries [of P R es] by (auto simp: keeps_def ReadyProcessor_ValidateReadyEntries_def)

lemma advances_complete_reads: "complete_reads ai reads rp = (kept, rp') \<Longrightarrow> advances P rp rp'"
proof (induction ai reads rp arbitrary: kept rp' rule: complete_reads.induct)
  case (2 ai index ctx reads rp)
  then show ?case
    by (auto split: if_splits prod.splits intro: advances_trans advances_trackers)
qed simp

lemma advances_reads: "advances P rp (ReadyProcessor_MaybeCompletePendingReads rp)"
  by (auto simp: ReadyProcessor_MaybeCompletePendingReads_def split: prod.splits
      intro!: advances_trans [OF advances_complete_reads advances_same])

lemma advances_enqueue: "advances P rp (ReadyProcessor_EnqueueReadStates rs rp)"
  by (auto simp: ReadyProcessor_EnqueueReadStates_def intro!: advances_trans [OF advances_same advances_reads])

lemma advances_fatal: "advances P rp (ReadyProcessor_EnterFatalState e rp)"
  by (auto simp: ReadyProcessor_EnterFatalState_def intro!: advances_trans [OF _ advances_trackers(4)] advances_trans [OF _ advances_trackers(3)]
      intro: advances_same)

lemma advances_send: "(messages \<noteq> [] \<Longrightarrow> P (Sent messages)) \<Longrightarrow> advances P rp (ReadyProcessor_SendMessages messages rp)"
  by (simp add: ReadyProcessor_SendMessages_def advances_emit)

lemma advances_context: "advances P rp (complete_context ctx r rp)" "advances P rp (fail_context ctx e rp)"
  by (simp_all add: complete_context_def fail_context_def advances_trackers)

lemma advances_leadership:
  "(\<And>l t i. P (LeadershipChanged l t i)) \<Longrightarrow> advances P rp (ReadyProcessor_CheckLeadershipChange R rd rp)"
proof (cases "rd_ss rd")
  case (Some ss)
  assume P: "\<And>l t i. P (LeadershipChanged l t i)"
  have a: "advances P rp (emit (LeadershipChanged l t i) (rp\<lparr>rp_state_machine := m\<rparr>))" for l t i m
    using P by (auto simp: advances_def emit_def)
  have b: "advances P rp (on_tracker (ProposalTracker_FailAllReads x) (on_tracker (ProposalTracker_FailAll y)
      (emit (LeadershipChanged l t i) (rp\<lparr>rp_state_machine := m\<rparr>))))" for l t i m x y
    by (intro advances_trans [OF _ advances_trackers(4)] advances_trans [OF _ advances_trackers(3)] a)
  have c: "advances P rp (if x then if y then on_tracker (ProposalTracker_FailAllReads e) (on_tracker (ProposalTracker_FailAll e')
      (emit (LeadershipChanged l t i) (rp\<lparr>rp_state_machine := m\<rparr>))) else emit (LeadershipChanged l t i) (rp\<lparr>rp_state_machine := m\<rparr>) else rp)"
    for x y e e' l t i m using a b by simp
  have d: "advances P q (q\<lparr>rp_prev_role := x, rp_prev_leader := y, rp_prev_term := z\<rparr>)" for q :: "('a, 'b) ReadyProcessor" and x y z
    by (rule advances_same) simp_all
  show ?thesis
    unfolding ReadyProcessor_CheckLeadershipChange_def Some option.case Let_def by (rule advances_trans [OF c d])
qed (simp add: ReadyProcessor_CheckLeadershipChange_def)

fun outward :: "effect \<Rightarrow> bool" where
  "outward (Appended _) = False"
| "outward (SavedHardState _) = False"
| "outward Synced = False"
| "outward (RestoredSnapshot _) = False"
| "outward (StoredSnapshot _) = False"
| "outward (LeadershipChanged _ _ _) = False"
| "outward _ = True"

definition checksum_ok :: "('s, 'm) raftor_env \<Rightarrow> entry \<Rightarrow> bool" where
  "checksum_ok R e \<longleftrightarrow> IsChecksumExemptEntry e \<or> IsMetadataProposalContext (e_context e) \<or> ComputeEntryChecksum (re_env R) e = e_checksum e"

fun effect_ok :: "('s, 'm) raftor_env \<Rightarrow> effect \<Rightarrow> bool" where
  "effect_ok R (Appended es) = (re_checksum_enabled R \<longrightarrow> list_all (checksum_ok R) es)"
| "effect_ok R (Applied e) = (re_checksum_enabled R \<longrightarrow> ComputeEntryChecksum (re_env R) e = e_checksum e)"
| "effect_ok R _ = True"

lemma Verify_ok: "VerifyEntryChecksum R e rp = Some (Inr (), rp') \<Longrightarrow> checksum_ok R e \<and> rp' = rp"
  by (auto simp: VerifyEntryChecksum_def checksum_ok_def split: if_splits)

lemma validate_entries_ok: "validate_entries R es rp = Some (Inr (), rp') \<Longrightarrow> list_all (checksum_ok R) es"
proof (induction es arbitrary: rp)
  case (Cons e es)
  then show ?case by (auto simp: rp_bind_def split: Option.bind_splits sum.splits dest!: Verify_ok)
qed simp

lemma Validate_ok:
  "ReadyProcessor_ValidateReadyEntries R es rp = Some (Inr (), rp') \<Longrightarrow> effect_ok R (Appended es)"
  by (auto simp: ReadyProcessor_ValidateReadyEntries_def dest: validate_entries_ok split: if_splits)

lemma keeps_PersistEntries [keeps_intros]:
  "P (Appended (rd_entries rd)) \<Longrightarrow> keeps P (ReadyProcessor_PersistEntries R rd)"
  using keeps_or_dropped [OF keeps_on_store, of P "Appended (rd_entries rd)" "wo_Append (re_storage R) (rd_entries rd)"] by (auto simp: keeps_def ReadyProcessor_PersistEntries_def split: if_splits)

lemma keeps_PersistHardState [keeps_intros]:
  assumes "\<And>hs. P (SavedHardState hs)" "P Synced"
  shows "keeps P (ReadyProcessor_PersistHardState R rd)"
proof (cases "rd_hs rd")
  case (Some hs)
  have "keeps P (\<lambda>rp. if rd_must_sync rd then or_dropped (on_store (wo_Sync (re_storage R)) Synced) rp else Some (Inr (), rp))"
    using assms(2) by (cases "rd_must_sync rd") (simp_all add: keeps_intros)
  then have "keeps P (rp_bind (or_dropped (on_store (wo_SetHardState (re_storage R) hs) (SavedHardState hs)))
            (\<lambda>_ rp. if rd_must_sync rd then or_dropped (on_store (wo_Sync (re_storage R)) Synced) rp else Some (Inr (), rp)))"
    using assms by (intro keeps_bind keeps_or_dropped keeps_on_store) auto
  then show ?thesis using Some by (simp add: keeps_def ReadyProcessor_PersistHardState_def)
qed (simp add: keeps_def ReadyProcessor_PersistHardState_def)

lemma keeps_restore_machine [keeps_intros]: "(\<And>m. P (RestoredSnapshot m)) \<Longrightarrow> keeps P (restore_machine R sn)"
  by (auto simp: keeps_def restore_machine_def advances_def emit_def split: prod.splits sum.splits)

lemma keeps_ApplySnapshot [keeps_intros]:
  assumes "\<And>m. P (RestoredSnapshot m)" "\<And>sn. P (StoredSnapshot sn)"
  shows "keeps P (ReadyProcessor_ApplySnapshot R rd)"
proof (cases "rd_snapshot rd")
  case (Some sn)
  have "keeps P (rp_bind (restore_machine R sn) (\<lambda>_.
               rp_bind (or_dropped (on_store (wo_ApplySnapshot (re_storage R) sn) (StoredSnapshot sn))) (\<lambda>_.
               rp_do (\<lambda>rp. ReadyProcessor_MaybeCompletePendingReads (rp\<lparr>rp_applied_index := sn_index sn\<rparr>)))))"
    using assms by (intro keeps_intros advances_trans [OF advances_same advances_reads]) auto
  then show ?thesis using Some by (auto simp: keeps_def ReadyProcessor_ApplySnapshot_def)
qed (simp add: keeps_def ReadyProcessor_ApplySnapshot_def)

lemma keeps_durable:
  assumes "P (Appended (rd_entries rd))" "\<And>hs. P (SavedHardState hs)" "P Synced" "\<And>m. P (RestoredSnapshot m)" "\<And>sn. P (StoredSnapshot sn)"
  shows "keeps P (process_durable R rd)"
  unfolding process_durable_def using assms by (intro keeps_intros)

text \<open>The effects of a change of the membership.\<close>

fun admin :: "effect \<Rightarrow> bool" where
  "admin (SavedConfState _) = True"
| "admin (AddressSaved _ _) = True"
| "admin (AddressRemoved _) = True"
| "admin (PeerAdded _ _) = True"
| "admin (PeerRemoved _) = True"
| "admin _ = False"

lemma admin_ok: "admin e \<Longrightarrow> effect_ok R e"
  by (cases e) auto

lemma keeps_peer_change [keeps_intros]: "keeps admin (apply_peer_change R addr change)"
proof -
  have "keeps admin (rp_bind (on_address_book R (\<lambda>P. po_UpsertPeerAddress P n a) (AddressSaved n a)) (\<lambda>_.
                  rp_do (\<lambda>rp. if n \<noteq> re_node_id R then emit (PeerAdded n a) rp else rp)))" for n a
    by (intro keeps_intros) (auto intro: advances_emit)
  moreover have "keeps admin (rp_bind (on_address_book R (\<lambda>P. po_RemovePeerAddress P n) (AddressRemoved n)) (\<lambda>_.
             rp_do (emit (PeerRemoved n))))" for n
    by (intro keeps_intros advances_emit) auto
  ultimately show ?thesis by (auto simp: keeps_def apply_peer_change_def Let_def split: if_splits)
qed

lemma keeps_peer_changes [keeps_intros]: "keeps admin (apply_peer_changes R addr changes)"
proof (induction changes)
  case (Cons c cs)
  have "apply_peer_changes R addr (c # cs) = rp_bind (apply_peer_change R addr c) (\<lambda>_. apply_peer_changes R addr cs)" by (rule ext) simp
  then show ?case using Cons by (simp add: keeps_intros)
qed (simp add: keeps_def)

lemma keeps_conf_change [keeps_intros]: "keeps admin (apply_conf_change R e)"
proof (cases "parse_conf_change R e")
  case (Some cc)
  have "keeps admin (rp_bind (on_node (RawNode_ApplyConfChange (re_env R) cc)) (\<lambda>cs.
          rp_bind (on_store (wo_SetConfState (re_storage R) cs) (SavedConfState cs)) (\<lambda>_.
          rp_bind (apply_peer_changes R (cc2_context cc) (cc2_changes cc)) (\<lambda>_.
          rp_do (complete_context (cc2_context cc) ''conf change applied'')))))"
    by (intro keeps_intros advances_context) auto
  then show ?thesis using Some by (simp add: keeps_def apply_conf_change_def)
qed (simp add: keeps_def apply_conf_change_def)

lemma keeps_metadata_change [keeps_intros]: "keeps admin (apply_metadata_change R e)"
proof (cases "ParseMetadataChange (re_metadata_change_of R) (e_data e)")
  case None
  then show ?thesis by (auto simp: keeps_def apply_metadata_change_def intro: advances_context)
next
  case (Some c)
  obtain n a where c: "c = (n, a)" by force
  have "keeps admin (rp_bind (on_address_book R (\<lambda>P. po_UpsertPeerAddress P n a) (AddressSaved n a)) (\<lambda>_.
          rp_do (\<lambda>rp. complete_context (e_context e) ''metadata change applied''
            (emit (if n = re_node_id R \<or> a = [] then PeerRemoved n else PeerAdded n a) rp))))"
    by (intro keeps_intros advances_trans [OF advances_emit advances_context(1)]) auto
  then show ?thesis using Some c by (simp add: keeps_def apply_metadata_change_def)
qed

lemma keeps_to_machine:
  assumes "effect_ok R (Applied e)"
  shows "keeps (effect_ok R) (apply_to_machine R e)"
proof -
  have a: "advances (effect_ok R) rp (emit (Applied e) (rp\<lparr>rp_state_machine := m\<rparr>))" for rp m
    using assms by (auto simp: advances_def emit_def)
  show ?thesis
    using advances_trans [OF a advances_context(1)] advances_trans [OF a advances_context(2)]
    by (auto simp: keeps_def apply_to_machine_def Let_def split: prod.splits sum.splits)
qed

lemma keeps_ApplyEntry [keeps_intros]: "keeps (effect_ok R) (ReadyProcessor_ApplyEntry R e)"
  unfolding keeps_def
proof (intro allI impI)
  fix rp r rp' assume run: "ReadyProcessor_ApplyEntry R e rp = Some (r, rp')"
  let ?check = "if re_checksum_enabled R then VerifyEntryChecksum R e else rp_return ()"
  obtain c rp1 where c: "?check rp = Some (c, rp1)"
    using run by (auto simp: ReadyProcessor_ApplyEntry_def rp_bind_def split: Option.bind_splits)
  have k: "advances (effect_ok R) rp rp1"
    using c keeps_Verify [of "effect_ok R" R e] by (auto simp: rp_return_def keeps_def split: if_splits)
  show "advances (effect_ok R) rp rp'"
  proof (cases c)
    case (Inl x)
    then show ?thesis using run c k by (simp add: ReadyProcessor_ApplyEntry_def rp_bind_def)
  next
    case (Inr u)
    have chk: "re_checksum_enabled R \<Longrightarrow> checksum_ok R e" using c Inr Verify_ok by (auto split: if_splits)
    have "advances (effect_ok R) rp1 rp'"
      using run c Inr chk rp_keepsD [OF keeps_mono [OF keeps_conf_change admin_ok]] rp_keepsD [OF keeps_mono [OF keeps_metadata_change admin_ok]] rp_keepsD [OF keeps_to_machine, of R e]
      by (auto simp: ReadyProcessor_ApplyEntry_def rp_bind_def checksum_ok_def IsChecksumExemptEntry_def split: if_splits)
    with k show ?thesis by (rule advances_trans)
  qed
qed

lemma keeps_apply_entries [keeps_intros]: "keeps (effect_ok R) (apply_entries R es)"
proof (induction es)
  case (Cons e es)
  show ?case
    unfolding keeps_def
  proof (intro allI impI)
    fix rp r rp' assume run: "apply_entries R (e # es) rp = Some (r, rp')"
    then obtain x rp1 where x: "ReadyProcessor_ApplyEntry R e rp = Some (x, rp1)" by (auto split: Option.bind_splits)
    have k: "advances (effect_ok R) rp rp1" by (rule rp_keepsD [OF keeps_ApplyEntry x])
    have s: "advances (effect_ok R) rp1 (rp1\<lparr>rp_applied_index := e_index e\<rparr>)" by (rule advances_same) simp_all
    have "advances (effect_ok R) rp1 rp'"
      using run x rp_keepsD [OF Cons.IH] advances_trans [OF s] by (auto split: sum.splits if_splits)
    with k show "advances (effect_ok R) rp rp'" by (rule advances_trans)
  qed
qed (simp add: keeps_def)

lemma keeps_ApplyCommitted [keeps_intros]: "keeps (effect_ok R) (ReadyProcessor_ApplyCommittedEntries R es)"
  unfolding ReadyProcessor_ApplyCommittedEntries_def by (intro keeps_intros advances_reads)

lemma keeps_ProcessLightReady [keeps_intros]: "keeps (effect_ok R) (ReadyProcessor_ProcessLightReady R l)"
  unfolding keeps_def
proof (intro allI impI)
  fix rp r rp' assume run: "ReadyProcessor_ProcessLightReady R l rp = Some (r, rp')"
  let ?sent = "ReadyProcessor_SendMessages (lrd_messages l) rp"
  obtain x rp1 where x: "apply_entries R (lrd_committed_entries l) ?sent = Some (x, rp1)"
    using run by (auto simp: ReadyProcessor_ProcessLightReady_def Let_def split: Option.bind_splits)
  have k: "advances (effect_ok R) rp rp1"
    using advances_trans [OF advances_send rp_keepsD [OF keeps_apply_entries x]] by simp
  have "advances (effect_ok R) rp1 rp'"
    using run x advances_advance_node [of _ rp1 rp' "effect_ok R"] advances_reads [of "effect_ok R" rp1]
      advances_trans [OF advances_reads [of "effect_ok R" rp1] advances_advance_node, of _ rp']
    by (auto simp: ReadyProcessor_ProcessLightReady_def Let_def split: sum.splits Option.bind_splits if_splits)
  with k show "advances (effect_ok R) rp rp'" by (rule advances_trans)
qed

lemma keeps_committed [keeps_intros]: "keeps (effect_ok R) (process_committed R rd)"
  unfolding keeps_def
proof (intro allI impI)
  fix rp r rp' assume run: "process_committed R rd rp = Some (r, rp')"
  obtain x rp1 where x: "ReadyProcessor_ApplyCommittedEntries R (lrd_committed_entries (rd_light rd)) rp = Some (x, rp1)"
    using run by (auto simp: process_committed_def split: Option.bind_splits)
  have k: "advances (effect_ok R) rp rp1" by (rule rp_keepsD [OF keeps_ApplyCommitted x])
  have node: "on_node f q = Some (y, q') \<Longrightarrow> advances (effect_ok R) q q'" for f :: "'a RawNode \<Rightarrow> (LightReady \<times> 'a RawNode) option" and q y q'
    by (auto simp: on_node_def intro!: advances_same split: Option.bind_splits)
  have "advances (effect_ok R) rp1 rp'"
  proof (cases x)
    case (Inl e)
    then show ?thesis
      using run x by (auto simp: process_committed_def split: Option.bind_splits if_splits
          intro!: advances_trans [OF _ advances_fatal] intro: advances_trans [OF node advances_advance_node])
  next
    case (Inr u)
    then obtain l rp2 y rp3 where l: "on_node (RawNode_Advance (re_env R) rd) (ReadyProcessor_EnqueueReadStates (rd_read_states rd) rp1) = Some (l, rp2)"
      and y: "ReadyProcessor_ProcessLightReady R l rp2 = Some (y, rp3)"
      using run x by (auto simp: process_committed_def Let_def split: Option.bind_splits)
    have "advances (effect_ok R) rp1 rp3"
      by (rule advances_trans [OF advances_enqueue advances_trans [OF node [OF l] rp_keepsD [OF keeps_ProcessLightReady y]]])
    then show ?thesis
      using run x Inr l y by (auto simp: process_committed_def Let_def split: sum.splits intro: advances_trans [OF _ advances_fatal])
  qed
  with k show "advances (effect_ok R) rp rp'" by (rule advances_trans)
qed

text \<open>The parts of a cycle that has a Ready.\<close>

definition ready_of :: "('s, 'm) raftor_env \<Rightarrow> ('s, 'm) ReadyProcessor \<Rightarrow> Ready \<Rightarrow> ('s, 'm) ReadyProcessor \<Rightarrow> bool" where
  "ready_of R rp rd rp1 \<longleftrightarrow>
     rp_fatal_error rp = None \<and> RawNode_HasReady (re_env R) (rp_raw_node rp) = Some True \<and>
     (\<exists>n. RawNode_GetReady (re_env R) (rp_raw_node rp) = Some (rd, n) \<and>
          rp1 = ReadyProcessor_CheckLeadershipChange R rd (rp\<lparr>rp_raw_node := n\<rparr>))"

lemma Process_cases:
  assumes "ReadyProcessor_Process R rp = Some (r, rp')"
  obtains (idle) "rp' = rp" "\<And>rd rp1. \<not> ready_of R rp rd rp1" "r \<noteq> Inr True"
    | (invalid) rd rp1 x rp2 where "ready_of R rp rd rp1" "ReadyProcessor_ValidateReadyEntries R (rd_entries rd) rp1 = Some (Inl x, rp2)"
        "r = Inl x" "rp' = (if IsFatalApplyError x then ReadyProcessor_EnterFatalState x rp2 else rp2)"
    | (failed) rd rp1 rp2 x where "ready_of R rp rd rp1" "ReadyProcessor_ValidateReadyEntries R (rd_entries rd) rp1 = Some (Inr (), rp2)"
        "process_durable R rd rp2 = Some (Inl x, rp')" "r = Inl x"
    | (stored) rd rp1 rp2 rp3 where "ready_of R rp rd rp1" "ReadyProcessor_ValidateReadyEntries R (rd_entries rd) rp1 = Some (Inr (), rp2)"
        "process_durable R rd rp2 = Some (Inr (), rp3)"
        "process_committed R rd (ReadyProcessor_SendMessages (lrd_messages (rd_light rd)) rp3) = Some (r, rp')"
proof (cases "rp_fatal_error rp")
  case (Some e)
  then show ?thesis using assms idle by (auto simp: ReadyProcessor_Process_def ready_of_def)
next
  case None
  then obtain has where has: "RawNode_HasReady (re_env R) (rp_raw_node rp) = Some has"
    using assms by (auto simp: ReadyProcessor_Process_def split: Option.bind_splits)
  show ?thesis
  proof (cases has)
    case False
    then show ?thesis using assms None has idle by (auto simp: ReadyProcessor_Process_def ready_of_def)
  next
    case True
    then obtain rd n where rd: "RawNode_GetReady (re_env R) (rp_raw_node rp) = Some (rd, n)"
      using assms None has by (auto simp: ReadyProcessor_Process_def on_node_def split: Option.bind_splits)
    define rp1 where "rp1 = ReadyProcessor_CheckLeadershipChange R rd (rp\<lparr>rp_raw_node := n\<rparr>)"
    have ready: "ready_of R rp rd rp1" using None has True rd by (auto simp: ready_of_def rp1_def)
    obtain v rp2 where v: "ReadyProcessor_ValidateReadyEntries R (rd_entries rd) rp1 = Some (v, rp2)"
      using assms None has True rd by (auto simp: ReadyProcessor_Process_def on_node_def Let_def rp1_def split: Option.bind_splits)
    have run: "Some (r, rp') = (case v of Inl x \<Rightarrow> Some (Inl x, if IsFatalApplyError x then ReadyProcessor_EnterFatalState x rp2 else rp2)
            | Inr _ \<Rightarrow> rp_bind (process_durable R rd) (\<lambda>_ rp.
                  process_committed R rd (ReadyProcessor_SendMessages (lrd_messages (rd_light rd)) rp)) rp2)"
      using assms None has True rd v by (simp add: ReadyProcessor_Process_def on_node_def Let_def rp1_def)
    show ?thesis
    proof (cases v)
      case (Inl x)
      then show ?thesis using invalid [OF ready] v run by simp
    next
      case (Inr u)
      then obtain d rp3 where d: "process_durable R rd rp2 = Some (d, rp3)"
        using run by (cases "process_durable R rd rp2") (auto simp: rp_bind_def)
      show ?thesis using failed [OF ready] stored [OF ready] v run Inr d by (cases d) (auto simp: rp_bind_def)
    qed
  qed
qed

lemma ready_of_advances: "ready_of R rp rd rp1 \<Longrightarrow> (\<And>l t i. P (LeadershipChanged l t i)) \<Longrightarrow> advances P rp rp1"
  unfolding ready_of_def
  by (elim conjE exE) (simp add: advances_trans [OF advances_same advances_leadership])

lemma keeps_Process: "keeps (effect_ok R) (ReadyProcessor_Process R)"
  unfolding keeps_def
proof (intro allI impI)
  fix rp r rp' assume "ReadyProcessor_Process R rp = Some (r, rp')"
  then show "advances (effect_ok R) rp rp'"
  proof (cases rule: Process_cases)
    case idle
    then show ?thesis by simp
  next
    case (invalid rd rp1 x rp2)
    then have "advances (effect_ok R) rp rp2"
      using advances_trans [OF ready_of_advances rp_keepsD [OF keeps_Validate]] by fastforce
    then show ?thesis using invalid(4) by (auto intro: advances_trans [OF _ advances_fatal])
  next
    case (failed rd rp1 rp2 x)
    then have "advances (effect_ok R) rp rp2"
      using advances_trans [OF ready_of_advances rp_keepsD [OF keeps_Validate]] by fastforce
    moreover have "keeps (effect_ok R) (process_durable R rd)" by (rule keeps_durable) (use Validate_ok [OF failed(2)] in auto)
    ultimately show ?thesis using failed(3) rp_keepsD advances_trans by blast
  next
    case (stored rd rp1 rp2 rp3)
    then have "advances (effect_ok R) rp rp2"
      using advances_trans [OF ready_of_advances rp_keepsD [OF keeps_Validate]] by fastforce
    moreover have "keeps (effect_ok R) (process_durable R rd)" by (rule keeps_durable) (use Validate_ok [OF stored(2)] in auto)
    ultimately have "advances (effect_ok R) rp rp3" using stored(3) rp_keepsD advances_trans by blast
    also have "advances (effect_ok R) rp3 (ReadyProcessor_SendMessages (lrd_messages (rd_light rd)) rp3)" by (rule advances_send) simp
    also have "advances (effect_ok R) \<dots> rp'" by (rule rp_keepsD [OF keeps_committed stored(4)])
    finally show ?thesis .
  qed
qed

section \<open>Order of application\<close>

text \<open>The entries that a trace hands to the state machine, and the entries meant for it.\<close>

fun applied_of :: "effect list \<Rightarrow> entry list" where
  "applied_of [] = []"
| "applied_of (Applied e # es) = e # applied_of es"
| "applied_of (_ # es) = applied_of es"

definition for_machine :: "entry \<Rightarrow> bool" where
  "for_machine e \<longleftrightarrow>
     e_type e = ENTRY_NORMAL \<and> \<not> IsMetadataProposalContext (e_context e) \<and> \<not> (length (e_data e) = 0 \<and> length (e_context e) = 0)"

definition applies :: "entry list \<Rightarrow> ('s, 'm) ReadyProcessor \<Rightarrow> ('s, 'm) ReadyProcessor \<Rightarrow> bool" where
  "applies xs rp rp' \<longleftrightarrow> (\<exists>es. rp_trace rp' = rp_trace rp @ es \<and> applied_of es = xs)"

definition silent :: "effect \<Rightarrow> bool" where
  "silent e \<longleftrightarrow> (\<forall>x. e \<noteq> Applied x)"

lemma silent_simps [simp]:
  "silent (Appended es)" "silent (SavedHardState hs)" "silent (SavedConfState cs)" "silent Synced" "silent (RestoredSnapshot m)"
  "silent (StoredSnapshot sn)" "silent (Sent ms)" "\<not> silent (Applied e)" "silent (LeadershipChanged l t i)"
  by (simp_all add: silent_def)

lemma admin_silent: "admin e \<Longrightarrow> silent e"
  by (cases e) (auto simp: silent_def)

lemma applied_of_append [simp]: "applied_of (es @ es') = applied_of es @ applied_of es'"
  by (induction es rule: applied_of.induct) auto

lemma applied_of_silent: "list_all silent es \<Longrightarrow> applied_of es = []"
  by (induction es rule: applied_of.induct) auto

lemma applies_silent: "advances silent rp rp' \<Longrightarrow> applies [] rp rp'"
  using applied_of_silent by (auto simp: advances_def applies_def)

lemma applies_trans: "applies xs rp rp1 \<Longrightarrow> applies ys rp1 rp2 \<Longrightarrow> applies (xs @ ys) rp rp2"
  unfolding applies_def by (metis append.assoc applied_of_append)

lemmas applies_silent_before = applies_trans [OF applies_silent, simplified]
lemmas applies_silent_after = applies_trans [OF _ applies_silent, simplified]

lemma applies_to_machine: "apply_to_machine R e rp = Some (r, rp') \<Longrightarrow> applies [e] rp rp'"
proof -
  have a: "applies [e] rp (emit (Applied e) (rp\<lparr>rp_state_machine := m\<rparr>))" for m by (auto simp: applies_def emit_def)
  show "apply_to_machine R e rp = Some (r, rp') \<Longrightarrow> applies [e] rp rp'"
    using applies_silent_after [OF a advances_context(1)] applies_silent_after [OF a advances_context(2)]
    by (auto simp: apply_to_machine_def Let_def split: prod.splits sum.splits)
qed

lemma ApplyEntry_applies:
  assumes run: "ReadyProcessor_ApplyEntry R e rp = Some (r, rp')" and soft: "\<And>x. r = Inl x \<Longrightarrow> \<not> IsFatalApplyError x"
  shows "applies (if for_machine e then [e] else []) rp rp'"
proof -
  let ?check = "if re_checksum_enabled R then VerifyEntryChecksum R e else rp_return ()"
  obtain c rp1 where c: "?check rp = Some (c, rp1)"
    using run by (auto simp: ReadyProcessor_ApplyEntry_def rp_bind_def split: Option.bind_splits)
  have ok: "c = Inr () \<and> rp1 = rp"
    using c run soft by (auto simp: ReadyProcessor_ApplyEntry_def rp_bind_def VerifyEntryChecksum_def rp_return_def IsFatalApplyError_def split: if_splits)
  have conf: "applies [] rp rp'" if "apply_conf_change R e rp = Some (r, rp')"
    using rp_keepsD [OF keeps_mono [OF keeps_conf_change admin_silent] that] by (rule applies_silent)
  have meta: "applies [] rp rp'" if "apply_metadata_change R e rp = Some (r, rp')"
    using rp_keepsD [OF keeps_mono [OF keeps_metadata_change admin_silent] that] by (rule applies_silent)
  have types: "e_type e = ENTRY_NORMAL \<or> e_type e = ENTRY_CONF_CHANGE \<or> e_type e = ENTRY_CONF_CHANGE_V2" by (cases "e_type e") auto
  show ?thesis
    using run c ok conf meta types applies_to_machine [of R e rp r rp'] applies_silent [OF advances_refl, of rp]
    by (auto simp: ReadyProcessor_ApplyEntry_def rp_bind_def for_machine_def split: if_splits)
qed

lemma apply_entries_applies:
  "apply_entries R es rp = Some (Inr (), rp') \<Longrightarrow>
     applies (filter for_machine es) rp rp' \<and> (es \<noteq> [] \<longrightarrow> rp_applied_index rp' = e_index (last es))"
proof (induction es arbitrary: rp)
  case Nil
  then show ?case using applies_silent [OF advances_refl] by simp
next
  case (Cons e es)
  then obtain r rp1 where r: "ReadyProcessor_ApplyEntry R e rp = Some (r, rp1)" by (auto split: Option.bind_splits)
  have soft: "\<And>x. r = Inl x \<Longrightarrow> \<not> IsFatalApplyError x" using Cons.prems r by auto
  have rest: "apply_entries R es (rp1\<lparr>rp_applied_index := e_index e\<rparr>) = Some (Inr (), rp')"
    using Cons.prems r by (auto split: sum.splits if_splits)
  have "applies (if for_machine e then [e] else []) rp (rp1\<lparr>rp_applied_index := e_index e\<rparr>)"
    by (rule applies_silent_after [OF ApplyEntry_applies [OF r soft] advances_same]) simp_all
  from applies_trans [OF this Cons.IH [OF rest, THEN conjunct1]]
  have "applies (filter for_machine (e # es)) rp rp'" by (simp split: if_splits)
  moreover have "rp_applied_index rp' = e_index (last (e # es))"
    using Cons.IH [OF rest] rest by (cases es) auto
  ultimately show ?case by simp
qed

text \<open>What leaves the applied index alone.\<close>

lemma applied_index_tracker [simp]: "rp_applied_index (on_tracker f rp) = rp_applied_index rp"
  by (simp add: on_tracker_def split: prod.splits)

lemma applied_index_emit [simp]: "rp_applied_index (emit e rp) = rp_applied_index rp"
  by (simp add: emit_def)

lemma applied_index_send [simp]: "rp_applied_index (ReadyProcessor_SendMessages ms rp) = rp_applied_index rp"
  by (simp add: ReadyProcessor_SendMessages_def)

lemma applied_index_complete: "complete_reads ai reads rp = (kept, rp') \<Longrightarrow> rp_applied_index rp' = rp_applied_index rp"
  by (induction ai reads rp arbitrary: kept rp' rule: complete_reads.induct) (auto split: if_splits prod.splits)

lemma applied_index_reads [simp]: "rp_applied_index (ReadyProcessor_MaybeCompletePendingReads rp) = rp_applied_index rp"
  by (simp add: ReadyProcessor_MaybeCompletePendingReads_def applied_index_complete split: prod.splits)

lemma applied_index_enqueue [simp]: "rp_applied_index (ReadyProcessor_EnqueueReadStates rs rp) = rp_applied_index rp"
  by (simp add: ReadyProcessor_EnqueueReadStates_def)

lemma applied_index_node: "on_node f rp = Some (x, rp') \<Longrightarrow> rp_applied_index rp' = rp_applied_index rp"
  by (auto simp: on_node_def split: Option.bind_splits)

lemma applied_index_advance: "advance_node f rp = Some rp' \<Longrightarrow> rp_applied_index rp' = rp_applied_index rp"
  by (auto simp: advance_node_def split: Option.bind_splits)

lemma ProcessLightReady_applies:
  assumes "ReadyProcessor_ProcessLightReady R l rp = Some (Inr u, rp')"
  shows "applies (filter for_machine (lrd_committed_entries l)) rp rp'"
    "rp_applied_index rp' = (if lrd_committed_entries l = [] then rp_applied_index rp else e_index (last (lrd_committed_entries l)))"
proof -
  let ?es = "lrd_committed_entries l" and ?sent = "ReadyProcessor_SendMessages (lrd_messages l) rp"
  obtain rp1 where rp1: "apply_entries R ?es ?sent = Some (Inr (), rp1)"
    and rest: "(if ?es \<noteq> [] then advance_node (RawNode_AdvanceApply (re_env R)) (ReadyProcessor_MaybeCompletePendingReads rp1)
       else Some (ReadyProcessor_MaybeCompletePendingReads rp1)) = Some rp'"
    using assms by (auto simp: ReadyProcessor_ProcessLightReady_def Let_def split: Option.bind_splits sum.splits)
  have a: "applies (filter for_machine ?es) rp rp1"
    by (rule applies_silent_before [OF advances_send apply_entries_applies [OF rp1, THEN conjunct1]]) simp
  have "advances silent rp1 rp'"
    using rest advances_trans [OF advances_reads advances_advance_node] advances_reads by (auto split: if_splits)
  with a show "applies (filter for_machine ?es) rp rp'" by (rule applies_silent_after)
  show "rp_applied_index rp' = (if ?es = [] then rp_applied_index rp else e_index (last ?es))"
    using rest rp1 apply_entries_applies [OF rp1] by (auto dest: applied_index_advance split: if_splits)
qed

text \<open>The light Ready of a cycle: the node returns it once the cycle has stored, sent and applied its Ready.\<close>

definition light_ready_of :: "('s, 'm) raftor_env \<Rightarrow> ('s, 'm) ReadyProcessor \<Rightarrow> Ready \<Rightarrow> LightReady \<Rightarrow> bool" where
  "light_ready_of R rp rd light_rd \<longleftrightarrow>
     (\<exists>rp1 rp2 rp3 rp4 n. ready_of R rp rd rp1 \<and>
        ReadyProcessor_ValidateReadyEntries R (rd_entries rd) rp1 = Some (Inr (), rp2) \<and> process_durable R rd rp2 = Some (Inr (), rp3) \<and>
        ReadyProcessor_ApplyCommittedEntries R (lrd_committed_entries (rd_light rd))
          (ReadyProcessor_SendMessages (lrd_messages (rd_light rd)) rp3) = Some (Inr (), rp4) \<and>
        RawNode_Advance (re_env R) rd (rp_raw_node (ReadyProcessor_EnqueueReadStates (rd_read_states rd) rp4)) = Some (light_rd, n))"

lemma process_committed_applies:
  assumes "process_committed R rd rp = Some (Inr b, rp')"
  obtains light_rd rp4 n' where "ReadyProcessor_ApplyCommittedEntries R (lrd_committed_entries (rd_light rd)) rp = Some (Inr (), rp4)"
    "RawNode_Advance (re_env R) rd (rp_raw_node (ReadyProcessor_EnqueueReadStates (rd_read_states rd) rp4)) = Some (light_rd, n')"
    "applies (filter for_machine (lrd_committed_entries (rd_light rd) @ lrd_committed_entries light_rd)) rp rp'"
    "lrd_committed_entries (rd_light rd) @ lrd_committed_entries light_rd \<noteq> [] \<Longrightarrow>
       rp_applied_index rp' = e_index (last (lrd_committed_entries (rd_light rd) @ lrd_committed_entries light_rd))"
proof -
  let ?es = "lrd_committed_entries (rd_light rd)"
  obtain x rp1 where x: "ReadyProcessor_ApplyCommittedEntries R ?es rp = Some (x, rp1)"
    using assms by (auto simp: process_committed_def split: Option.bind_splits)
  have x': "x = Inr ()" using assms x by (cases x) (auto simp: process_committed_def split: Option.bind_splits if_splits)
  with x obtain rp0 where rp0: "apply_entries R ?es rp = Some (Inr (), rp0)" "rp1 = ReadyProcessor_MaybeCompletePendingReads rp0"
    by (auto simp: ReadyProcessor_ApplyCommittedEntries_def rp_bind_def rp_do_def split: Option.bind_splits sum.splits)
  let ?q = "ReadyProcessor_EnqueueReadStates (rd_read_states rd) rp1"
  obtain l rp2 y rp3 where l: "on_node (RawNode_Advance (re_env R) rd) ?q = Some (l, rp2)"
    and y: "ReadyProcessor_ProcessLightReady R l rp2 = Some (y, rp3)"
    using assms x x' by (auto simp: process_committed_def Let_def split: Option.bind_splits)
  have y': "y = Inr ()" "rp' = rp3"
    using assms x x' l y by (auto simp: process_committed_def Let_def split: sum.splits)
  obtain n' where n': "RawNode_Advance (re_env R) rd (rp_raw_node ?q) = Some (l, n')" "rp2 = ?q\<lparr>rp_raw_node := n'\<rparr>"
    using l by (auto simp: on_node_def split: Option.bind_splits)
  have "advances silent rp0 rp2"
    unfolding n'(2) rp0(2) by (rule advances_trans [OF advances_reads advances_trans [OF advances_enqueue advances_same]]) simp_all
  from applies_silent_after [OF apply_entries_applies [OF rp0(1), THEN conjunct1] this]
  have "applies (filter for_machine (?es @ lrd_committed_entries l)) rp rp'"
    using applies_trans [OF _ ProcessLightReady_applies(1) [OF y [unfolded y'(1)]]] y'(2) by simp
  moreover have "rp_applied_index rp' = e_index (last (?es @ lrd_committed_entries l))" if "?es @ lrd_committed_entries l \<noteq> []"
    using that ProcessLightReady_applies(2) [OF y [unfolded y'(1)]] apply_entries_applies [OF rp0(1)] n'(2) rp0(2) y'(2) by auto
  ultimately show thesis using that [OF x [unfolded x'] n'(1)] by blast
qed

section \<open>Entries with a wrong checksum\<close>

text \<open>
  The entries that the node checks: all but the empty ones, which carry no checksum, and the address changes, which do
  carry one.
\<close>

definition is_checked :: "entry \<Rightarrow> bool" where
  "is_checked e \<longleftrightarrow> \<not> IsChecksumExemptEntry e \<and> \<not> IsMetadataProposalContext (e_context e)"

lemma validate_entries_corrupt:
  assumes "e \<in> set es" "\<not> checksum_ok R e"
  shows "\<exists>rp'. validate_entries R es rp = Some (Inl (RaftError ChecksumMismatch), rp')"
  using assms
proof (induction es arbitrary: rp)
  case (Cons x es)
  show ?case
  proof (cases "checksum_ok R x")
    case True
    then have "VerifyEntryChecksum R x rp = Some (Inr (), rp)" by (auto simp: VerifyEntryChecksum_def checksum_ok_def)
    then show ?thesis using Cons True by (auto simp: rp_bind_def)
  next
    case False
    then show ?thesis by (auto simp: VerifyEntryChecksum_def checksum_ok_def rp_bind_def)
  qed
qed simp

lemma on_tracker_fatal [simp]: "rp_fatal_error (on_tracker f rp) = rp_fatal_error rp"
  by (simp add: on_tracker_def split: prod.splits)

lemma validate_entries_fatal: "validate_entries R es rp = Some (r, rp') \<Longrightarrow> rp_fatal_error rp' = rp_fatal_error rp"
proof (induction es arbitrary: rp)
  case (Cons e es)
  then show ?case by (auto simp: rp_bind_def VerifyEntryChecksum_def split: if_splits sum.splits)
qed simp

lemma ready_of_fatal: "ready_of R rp rd rp1 \<Longrightarrow> rp_fatal_error rp1 = None"
  by (auto simp: ready_of_def ReadyProcessor_CheckLeadershipChange_def emit_def Let_def split: option.splits)

lemma corrupt_ready_fails:
  assumes "ReadyProcessor_Process R rp = Some (r, rp')" "re_checksum_enabled R" "ready_of R rp rd rp1" "e \<in> set (rd_entries rd)" "\<not> checksum_ok R e"
  shows "r = Inl (RaftError ChecksumMismatch) \<and> rp_fatal_error rp' = Some (RaftError ChecksumMismatch) \<and> 
    (\<exists>es. rp_trace rp' = rp_trace rp @ es \<and> (\<forall>ents. Appended ents \<notin> set es) \<and> (\<forall>x. Applied x \<notin> set es) \<and> (\<forall>ms. Sent ms \<notin> set es))"
proof -
  let ?x = "RaftError ChecksumMismatch"
  obtain rp2 where v: "validate_entries R (rd_entries rd) rp1 = Some (Inl ?x, rp2)" using validate_entries_corrupt [OF assms(4,5)] by blast
  then have "ReadyProcessor_ValidateReadyEntries R (rd_entries rd) rp1 = Some (Inl ?x, rp2)"
    using assms(2,4) by (auto simp: ReadyProcessor_ValidateReadyEntries_def)
  then have e: "r = Inl ?x" "rp' = ReadyProcessor_EnterFatalState ?x rp2"
    using assms(1,3) by (auto simp: ReadyProcessor_Process_def ready_of_def on_node_def Let_def IsFatalApplyError_def)
  have "rp_fatal_error rp2 = None" using validate_entries_fatal [OF v] ready_of_fatal [OF assms(3)] by simp
  then have f: "rp_fatal_error rp' = Some ?x" unfolding e(2) by (simp add: ReadyProcessor_EnterFatalState_def)
  let ?P = "\<lambda>e. (\<forall>x. e \<noteq> Applied x) \<and> (\<forall>x. e \<noteq> Appended x) \<and> (\<forall>x. e \<noteq> Sent x)"
  have "advances ?P rp rp1" by (rule ready_of_advances [OF assms(3)]) simp
  also have "advances ?P rp1 rp2" by (rule rp_keepsD [OF keeps_validate_entries v])
  also have "advances ?P rp2 rp'" unfolding e(2) by (rule advances_fatal)
  finally obtain es where es: "rp_trace rp' = rp_trace rp @ es" "list_all ?P es" by (auto simp: advances_def)
  then show ?thesis using e(1) f by (auto simp: list_all_iff)
qed

section \<open>Write-ahead order\<close>

text \<open>What a Ready asks to make durable is among the effects.\<close>

definition persisted :: "Ready \<Rightarrow> effect list \<Rightarrow> bool" where
  "persisted rd es \<longleftrightarrow>
     (rd_entries rd \<noteq> [] \<longrightarrow> Appended (rd_entries rd) \<in> set es) \<and>
     (case rd_hs rd of None \<Rightarrow> True | Some hs \<Rightarrow> SavedHardState hs \<in> set es \<and> (rd_must_sync rd \<longrightarrow> Synced \<in> set es)) \<and>
     (case rd_snapshot rd of None \<Rightarrow> True | Some sn \<Rightarrow> sn_index sn = 0 \<or> StoredSnapshot sn \<in> set es)"

lemma on_store_ok: "on_store f e rp = Some (Inr (), rp') \<Longrightarrow> rp_trace rp' = rp_trace rp @ [e]"
  by (auto simp: on_store_def Let_def emit_def split: Option.bind_splits sum.splits)

lemma or_dropped_ok: "or_dropped f rp = Some (Inr x, rp') \<Longrightarrow> f rp = Some (Inr x, rp')"
  by (auto simp: or_dropped_def split: Option.bind_splits sum.splits)

lemma rp_bind_ok:
  "rp_bind f g rp = Some (Inr y, rp') \<Longrightarrow> (\<And>x rp1. f rp = Some (Inr x, rp1) \<Longrightarrow> g x rp1 = Some (Inr y, rp') \<Longrightarrow> Q) \<Longrightarrow> Q"
  by (auto simp: rp_bind_def split: Option.bind_splits sum.splits)

definition adds :: "effect \<Rightarrow> ('s, 'm) ReadyProcessor \<Rightarrow> ('s, 'm) ReadyProcessor \<Rightarrow> bool" where
  "adds e rp rp' \<longleftrightarrow> (\<exists>es. rp_trace rp' = rp_trace rp @ es \<and> e \<in> set es)"

lemma adds_before: "advances P rp rp1 \<Longrightarrow> adds e rp1 rp2 \<Longrightarrow> adds e rp rp2"
  by (fastforce simp: advances_def adds_def)

lemma adds_after: "adds e rp rp1 \<Longrightarrow> advances P rp1 rp2 \<Longrightarrow> adds e rp rp2"
  by (fastforce simp: advances_def adds_def)

lemma on_store_adds: "or_dropped (on_store f e) rp = Some (Inr (), rp') \<Longrightarrow> adds e rp rp'"
  by (auto simp: adds_def dest!: or_dropped_ok on_store_ok)

lemma PersistEntries_adds:
  "ReadyProcessor_PersistEntries R rd rp = Some (Inr (), rp') \<Longrightarrow> rd_entries rd \<noteq> [] \<Longrightarrow> adds (Appended (rd_entries rd)) rp rp'"
  by (auto simp: ReadyProcessor_PersistEntries_def dest: on_store_adds)

lemma PersistHardState_adds:
  assumes "ReadyProcessor_PersistHardState R rd rp = Some (Inr (), rp')" "rd_hs rd = Some hs"
  shows "adds (SavedHardState hs) rp rp'" "rd_must_sync rd \<Longrightarrow> adds Synced rp rp'"
proof -
  obtain rp1 where rp1: "or_dropped (on_store (wo_SetHardState (re_storage R) hs) (SavedHardState hs)) rp = Some (Inr (), rp1)"
    "(if rd_must_sync rd then or_dropped (on_store (wo_Sync (re_storage R)) Synced) rp1 else Some (Inr (), rp1)) = Some (Inr (), rp')"
    using assms by (auto simp: ReadyProcessor_PersistHardState_def elim!: rp_bind_ok)
  have a: "advances (\<lambda>_. True) rp rp1" by (rule rp_keepsD [OF keeps_or_dropped [OF keeps_on_store] rp1(1)]) simp
  have b: "advances (\<lambda>_. True) rp1 rp'"
    using rp1(2) rp_keepsD [OF keeps_or_dropped [OF keeps_on_store], of "\<lambda>_. True" Synced "wo_Sync (re_storage R)" rp1 "Inr ()" rp']
    by (auto split: if_splits)
  show "adds (SavedHardState hs) rp rp'" by (rule adds_after [OF on_store_adds [OF rp1(1)] b])
  show "adds Synced rp rp'" if "rd_must_sync rd" using adds_before [OF a on_store_adds] rp1(2) that by simp
qed

lemma ApplySnapshot_adds:
  assumes "ReadyProcessor_ApplySnapshot R rd rp = Some (Inr (), rp')" "rd_snapshot rd = Some sn" "sn_index sn \<noteq> 0"
  shows "adds (StoredSnapshot sn) rp rp'"
proof -
  obtain u rp1 rp2 where rp1: "restore_machine R sn rp = Some (Inr u, rp1)"
    and rp2: "or_dropped (on_store (wo_ApplySnapshot (re_storage R) sn) (StoredSnapshot sn)) rp1 = Some (Inr (), rp2)"
    and rp': "rp' = ReadyProcessor_MaybeCompletePendingReads (rp2\<lparr>rp_applied_index := sn_index sn\<rparr>)"
    using assms by (auto simp: ReadyProcessor_ApplySnapshot_def rp_do_def elim!: rp_bind_ok)
  have a: "advances (\<lambda>_. True) rp rp1" by (rule rp_keepsD [OF keeps_restore_machine rp1]) simp
  have b: "advances (\<lambda>_. True) rp2 rp'" unfolding rp' by (rule advances_trans [OF advances_same advances_reads]) simp_all
  show ?thesis by (rule adds_after [OF adds_before [OF a on_store_adds [OF rp2]] b])
qed

lemma durable_persisted:
  assumes "process_durable R rd rp = Some (Inr (), rp')" "rp_trace rp' = rp_trace rp @ es"
  shows "persisted rd es"
proof -
  let ?T = "\<lambda>_ :: effect. True"
  obtain rp1 rp2 where st: "ReadyProcessor_PersistEntries R rd rp = Some (Inr (), rp1)"
    "ReadyProcessor_PersistHardState R rd rp1 = Some (Inr (), rp2)" "ReadyProcessor_ApplySnapshot R rd rp2 = Some (Inr (), rp')"
    using assms(1) by (auto simp: process_durable_def elim!: rp_bind_ok)
  have ad: "advances ?T rp rp1" "advances ?T rp1 rp2" "advances ?T rp2 rp'"
    using rp_keepsD [OF keeps_PersistEntries st(1), of ?T] rp_keepsD [OF keeps_PersistHardState st(2), of ?T]
      rp_keepsD [OF keeps_ApplySnapshot st(3), of ?T] by simp_all
  have here: "e \<in> set es" if "adds e rp rp'" for e using that assms(2) by (auto simp: adds_def)
  have "Appended (rd_entries rd) \<in> set es" if "rd_entries rd \<noteq> []"
    by (rule here [OF adds_after [OF PersistEntries_adds [OF st(1) that] advances_trans [OF ad(2,3)]]])
  moreover have "SavedHardState hs \<in> set es" "rd_must_sync rd \<Longrightarrow> Synced \<in> set es" if "rd_hs rd = Some hs" for hs
    using here [OF adds_before [OF ad(1) adds_after [OF _ ad(3)]]] PersistHardState_adds [OF st(2) that] by blast+
  moreover have "StoredSnapshot sn \<in> set es" if "rd_snapshot rd = Some sn" "sn_index sn \<noteq> 0" for sn
    by (rule here [OF adds_before [OF advances_trans [OF ad(1,2)] ApplySnapshot_adds [OF st(3) that]]])
  ultimately show ?thesis by (auto simp: persisted_def split: option.splits)
qed

lemma Process_order:
  assumes run: "ReadyProcessor_Process R rp = Some (r, rp')" and rd: "RawNode_GetReady (re_env R) (rp_raw_node rp) = Some (rd, n)"
  obtains (split) before after where "rp_trace rp' = rp_trace rp @ before @ after" "list_all (\<lambda>e. \<not> outward e) before" "after = [] \<or> persisted rd before"
proof -
  let ?in = "\<lambda>e. \<not> outward e"
  have early: thesis if "advances ?in rp rp'" using that split [of _ "[]"] by (auto simp: advances_def)
  have ready: "rd' = rd \<and> advances ?in rp rp2"
    if "ready_of R rp rd' rp1" "ReadyProcessor_ValidateReadyEntries R (rd_entries rd') rp1 = Some (v, rp2)" for rd' rp1 v rp2
    using that rd advances_trans [OF ready_of_advances [OF that(1)] rp_keepsD [OF keeps_Validate that(2)]] by (auto simp: ready_of_def)
  have dur: "advances ?in rp2 rp3" if "process_durable R rd rp2 = Some (d, rp3)" for rp2 d rp3
    by (rule rp_keepsD [OF keeps_durable that]) simp_all
  from run show thesis
  proof (cases rule: Process_cases)
    case idle
    then show ?thesis using early by simp
  next
    case (invalid rd' rp1 x rp2)
    have "advances ?in rp rp2" using ready [OF invalid(1,2)] by simp
    then have "advances ?in rp rp'" using invalid(4) advances_trans [OF _ advances_fatal] by (cases "IsFatalApplyError x") auto
    then show ?thesis by (rule early)
  next
    case (failed rd' rp1 rp2 x)
    have e: "rd' = rd" "advances ?in rp rp2" using ready [OF failed(1,2)] by auto
    show ?thesis by (rule early [OF advances_trans [OF e(2) dur [OF failed(3) [unfolded e(1)]]]])
  next
    case (stored rd' rp1 rp2 rp3)
    have e: "rd' = rd" "advances ?in rp rp2" using ready stored(1,2) by auto
    have a: "advances ?in rp2 rp3" using dur stored(3) e(1) by simp
    obtain b1 where b1: "rp_trace rp2 = rp_trace rp @ b1" "list_all ?in b1" using e(2) by (auto simp: advances_def)
    obtain b2 where b2: "rp_trace rp3 = rp_trace rp2 @ b2" "list_all ?in b2" using a by (auto simp: advances_def)
    have "persisted rd b2" using durable_persisted stored(3) e(1) b2(1) by blast
    then have p: "persisted rd (b1 @ b2)" by (auto simp: persisted_def split: option.splits)
    have "advances (effect_ok R) rp3 rp'"
      using advances_trans [OF advances_send rp_keepsD [OF keeps_committed stored(4)]] by simp
    then obtain af where "rp_trace rp' = rp_trace rp3 @ af" by (auto simp: advances_def)
    then show ?thesis using split [of "b1 @ b2" af] b1 b2 p by simp
  qed
qed

section \<open>Reads\<close>

text \<open>
  With distinct contexts, a pass over the pending reads completes exactly those whose index has been applied and keeps the
  others that still wait.
\<close>

definition read_due :: "u64 \<Rightarrow> ProposalTracker \<Rightarrow> u64 \<times> bytes \<Rightarrow> bool" where
  "read_due applied t = (\<lambda>(index, ctx). ProposalTracker_IsReadPending ctx t \<and> index \<le> applied)"

definition read_calls :: "ProposalTracker \<Rightarrow> (u64 \<times> bytes) list \<Rightarrow> call list" where
  "read_calls t reads = concat (map (\<lambda>(_, ctx). case map_of (tr_reads t) ctx of None \<Rightarrow> [] | Some p \<Rightarrow> call_read (pd_callback p) (Inr ())) reads)"

lemma complete_reads_exact:
  "distinct (map snd reads) \<Longrightarrow> complete_reads ai reads rp = (kept, rp') \<Longrightarrow>
   \<forall>ctx\<in>set (map snd reads). map_of (tr_reads (rp_proposal_tracker rp)) ctx = map_of (tr_reads t) ctx \<Longrightarrow>
   kept = filter (\<lambda>(index, ctx). ProposalTracker_IsReadPending ctx t \<and> ai < index) reads \<and>
   rp_calls rp' = rp_calls rp @ read_calls t (filter (read_due ai t) reads)"
proof (induction ai reads rp arbitrary: kept rp' rule: complete_reads.induct)
  case (2 ai index ctx reads rp)
  have m: "map_of (tr_reads (rp_proposal_tracker rp)) ctx = map_of (tr_reads t) ctx" using "2.prems"(3) by simp
  let ?pend = "ProposalTracker_IsReadPending ctx (rp_proposal_tracker rp)"
  have pend: "?pend = ProposalTracker_IsReadPending ctx t" using m by (simp add: ProposalTracker_IsReadPending_def)
  consider "\<not> ?pend" | "?pend" "index \<le> ai" | "?pend" "\<not> index \<le> ai" by blast
  then show ?case
  proof cases
    case 1
    then show ?thesis using "2.IH"(1) [OF 1] "2.prems" pend by (simp add: read_due_def)
  next
    case 2
    obtain p where p: "map_of (tr_reads t) ctx = Some p" using 2(1) m by (auto simp: ProposalTracker_IsReadPending_def)
    let ?rp = "on_tracker (ProposalTracker_CompleteRead ctx) rp"
    have rp: "rp_calls ?rp = rp_calls rp @ call_read (pd_callback p) (Inr ())"
      using m p by (simp add: on_tracker_def ProposalTracker_CompleteRead_def)
    have other: "map_of (tr_reads (rp_proposal_tracker ?rp)) c = map_of (tr_reads (rp_proposal_tracker rp)) c" if "c \<noteq> ctx" for c
      using m p that by (simp add: on_tracker_def ProposalTracker_CompleteRead_def delete_conv')
    have "kept = filter (\<lambda>(index, ctx). ProposalTracker_IsReadPending ctx t \<and> ai < index) reads \<and>
        rp_calls rp' = rp_calls ?rp @ read_calls t (filter (read_due ai t) reads)"
    proof (rule "2.IH"(2))
      show "\<forall>c\<in>set (map snd reads). map_of (tr_reads (rp_proposal_tracker ?rp)) c = map_of (tr_reads t) c"
      proof
        fix c assume c: "c \<in> set (map snd reads)"
        then have "c \<noteq> ctx" using "2.prems"(1) by auto
        moreover have "map_of (tr_reads (rp_proposal_tracker rp)) c = map_of (tr_reads t) c" by (rule bspec [OF "2.prems"(3)]) (use c in simp)
        ultimately show "map_of (tr_reads (rp_proposal_tracker ?rp)) c = map_of (tr_reads t) c" using other by simp
      qed
    qed (use 2 "2.prems" in auto)
    then show ?thesis using 2 pend rp p by (simp add: read_due_def read_calls_def)
  next
    case 3
    obtain k rp1 where k: "complete_reads ai reads rp = (k, rp1)" by force
    have "k = filter (\<lambda>(index, ctx). ProposalTracker_IsReadPending ctx t \<and> ai < index) reads \<and>
        rp_calls rp1 = rp_calls rp @ read_calls t (filter (read_due ai t) reads)"
      by (rule "2.IH"(3)) (use 3 "2.prems" k in auto)
    then show ?thesis using 3 pend k "2.prems"(2) by (auto simp: read_due_def)
  qed
qed (simp add: read_calls_def)

section \<open>A cycle that fails\<close>

lemma raw_node_tracker [simp]: "rp_raw_node (on_tracker f rp) = rp_raw_node rp"
  by (simp add: on_tracker_def split: prod.splits)

lemma raw_node_leadership [simp]: "rp_raw_node (ReadyProcessor_CheckLeadershipChange R rd rp) = rp_raw_node rp"
  by (simp add: ReadyProcessor_CheckLeadershipChange_def emit_def Let_def split: option.splits)

lemma raw_node_validate: "validate_entries R es rp = Some (r, rp') \<Longrightarrow> rp_raw_node rp' = rp_raw_node rp"
proof (induction es arbitrary: rp)
  case (Cons e es)
  obtain c rp1 where c: "VerifyEntryChecksum R e rp = Some (c, rp1)" using Cons.prems by (auto simp: rp_bind_def split: Option.bind_splits)
  then have "rp_raw_node rp1 = rp_raw_node rp" by (auto simp: VerifyEntryChecksum_def split: if_splits)
  then show ?case using Cons.prems c Cons.IH by (auto simp: rp_bind_def split: sum.splits)
qed simp

lemma GetReady_since:
  assumes "RawNode_GetReady E n = Some (rd, n')" "lrd_committed_entries (rd_light rd) \<noteq> []"
  shows "rn_commit_since_index n' = e_index (last (lrd_committed_entries (rd_light rd)))"
  using assms by (auto simp: RawNode_GetReady_def RawNode_GetLightReady_def Let_def split: Option.bind_splits if_splits prod.splits)

text \<open>
  When the storage cannot append the entries of a Ready, the cycle ends there, but the node has already counted the committed
  entries of this Ready as handed out: the next Ready starts behind them, and the state machine never sees them.
\<close>

lemma failed_append_skips_committed:
  assumes ready: "ready_of R rp rd rp1" and valid: "ReadyProcessor_ValidateReadyEntries R (rd_entries rd) rp1 = Some (Inr (), rp2)"
    and entries: "rd_entries rd \<noteq> []" and committed: "lrd_committed_entries (rd_light rd) \<noteq> []"
    and fail: "wo_Append (re_storage R) (rd_entries rd) (node_store (rp_raw_node rp2)) = Some (Inl x, s)"
  shows "\<exists>rp'. ReadyProcessor_Process R rp = Some (Inl (RaftError ProposalDropped), rp') \<and> applies [] rp rp' \<and> rp_fatal_error rp' = rp_fatal_error rp2 \<and>
     rn_commit_since_index (rp_raw_node rp') = e_index (last (lrd_committed_entries (rd_light rd)))"
proof -
  define rp' where "rp' = rp2\<lparr>rp_raw_node := set_node_store s (rp_raw_node rp2)\<rparr>"
  obtain n where n: "rp_fatal_error rp = None" "RawNode_HasReady (re_env R) (rp_raw_node rp) = Some True"
    "RawNode_GetReady (re_env R) (rp_raw_node rp) = Some (rd, n)" "rp1 = ReadyProcessor_CheckLeadershipChange R rd (rp\<lparr>rp_raw_node := n\<rparr>)"
    using ready by (auto simp: ready_of_def)
  have st: "process_durable R rd rp2 = Some (Inl (RaftError ProposalDropped), rp')"
    using entries fail by (simp add: process_durable_def rp_bind_def ReadyProcessor_PersistEntries_def or_dropped_def on_store_def rp'_def)
  have run: "ReadyProcessor_Process R rp = Some (Inl (RaftError ProposalDropped), rp')"
    using n valid st by (simp add: ReadyProcessor_Process_def on_node_def Let_def rp_bind_def)
  have "rp_raw_node rp2 = n"
    using valid n(4) raw_node_validate by (fastforce simp: ReadyProcessor_ValidateReadyEntries_def split: if_splits)
  then have "rn_commit_since_index (rp_raw_node rp') = e_index (last (lrd_committed_entries (rd_light rd)))"
    using GetReady_since [OF n(3) committed] by (simp add: rp'_def set_node_store_def)
  moreover have "applies [] rp rp'"
  proof (rule applies_silent)
    have "advances silent rp rp1" by (rule ready_of_advances [OF ready]) simp
    also have "advances silent rp1 rp2" by (rule rp_keepsD [OF keeps_Validate valid])
    also have "advances silent rp2 rp'" unfolding rp'_def by (rule advances_same) simp_all
    finally show "advances silent rp rp'" .
  qed
  ultimately show ?thesis using run by (auto simp: rp'_def)
qed

section \<open>Examples\<close>

definition memory_writable :: "MemoryStorage writable_ops" where
  "memory_writable =
     \<lparr>wo_Append = (\<lambda>ents s. Some (MemoryStorage_Append ents s)),
      wo_SetHardState = (\<lambda>hs s. Some (Inr (), MemoryStorage_SetHardState hs s)),
      wo_SetConfState = (\<lambda>cs s. Some (Inr (), MemoryStorage_SetConfState cs s)),
      wo_ApplySnapshot = (\<lambda>sn s. Some (MemoryStorage_ApplySnapshot sn s)),
      wo_ApplyLocalSnapshot = MemoryStorage_ApplyLocalSnapshot,
      wo_Sync = (\<lambda>s. Some (Inr (), s)),
      wo_LocalSnapshot = (\<lambda>s. Inr None),
      wo_LogSizeBytes = (\<lambda>s. 0)\<rparr>"

definition ex_raftor :: "bool \<Rightarrow> (MemoryStorage, MockStateMachine) raftor_env" where
  "ex_raftor checked =
     \<lparr>re_env = ex_env, re_storage = memory_writable, re_wal = None, re_machine = mock_machine, re_node_id = 2,
      re_checksum_enabled = checked, re_conf_change_of = (\<lambda>_. None), re_metadata_change_of = (\<lambda>_. None)\<rparr>"

definition ex_processor :: "message list \<Rightarrow> (MemoryStorage, MockStateMachine) ReadyProcessor" where
  "ex_processor ms =
     ReadyProcessor_new (the (fold (\<lambda>m n. Option.bind n (\<lambda>n. Option.bind (RawNode_Step ex_env m n) (\<lambda>(_, n). Some n))) ms
       (RawNode_new ex_env (ex_config 2) ex_store 0))) MockStateMachine_new 0"

definition ex_entries :: message where
  "ex_entries = default_message\<lparr>m_type := MSG_APPEND, m_from := 1, m_to := 2, m_term := 1, m_commit := 1,
     m_entries := [default_entry\<lparr>e_index := 1, e_term := 1, e_data := ''x'', e_context := ''1:0''\<rparr>]\<rparr>"

definition ex_snapshot :: message where
  "ex_snapshot = default_message\<lparr>m_type := MSG_SNAPSHOT, m_from := 1, m_to := 2, m_term := 1,
     m_snapshot := \<lparr>sn_data = ''s'', sn_metadata = \<lparr>sm_conf_state = default_conf_state\<lparr>cs_voters := [1, 2, 3]\<rparr>, sm_index = 5, sm_term = 1\<rparr>\<rparr>\<rparr>"

definition ex_behind :: message where
  "ex_behind = default_message\<lparr>m_type := MSG_APPEND, m_from := 1, m_to := 2, m_term := 1, m_log_term := 1, m_index := 5,
     m_entries := [default_entry\<lparr>e_index := 6, e_term := 1, e_data := ''x'', e_context := ''1:0''\<rparr>]\<rparr>"

definition ex_reads :: "(MemoryStorage, MockStateMachine) ReadyProcessor" where
  "ex_reads = (ex_processor [])\<lparr>rp_applied_index := 4, rp_calls := [], rp_pending_reads := [(3, ''a''), (9, ''b''), (2, ''c'')],
     rp_proposal_tracker := \<lparr>tr_proposals = [], tr_reads = [(''a'', \<lparr>pd_callback = Some 7, pd_deadline = None\<rparr>),
       (''b'', \<lparr>pd_callback = Some 8, pd_deadline = None\<rparr>)]\<rparr>\<rparr>"

text \<open>Node 2 receives a committed entry, stores it, answers and applies it.\<close>

definition ex_done :: "(MemoryStorage, MockStateMachine) ReadyProcessor" where
  "ex_done = snd (the (ReadyProcessor_Process (ex_raftor True) (ex_processor [ex_entries])))"

definition ex_ready :: Ready where
  "ex_ready = fst (the (RawNode_GetReady ex_env (rp_raw_node (ex_processor [ex_entries]))))"

definition ex_entry :: entry where
  "ex_entry = default_entry\<lparr>e_index := 1, e_term := 1, e_data := ''x'', e_context := ''1:0''\<rparr>"

lemma ex_done_eval:
  "ReadyProcessor_Process (ex_raftor True) (ex_processor [ex_entries]) = Some (Inr True, ex_done) \<and>
   rp_trace (ex_processor [ex_entries]) = [] \<and>
   rp_trace ex_done = [LeadershipChanged False 1 1, Appended [ex_entry], SavedHardState \<lparr>hs_term = 1, hs_vote = 0, hs_commit = 1\<rparr>, Synced,
     Sent [default_message\<lparr>m_type := MSG_APPEND_RESPONSE, m_to := 1, m_from := 2, m_term := 1, m_index := 1, m_commit := 1\<rparr>], Applied ex_entry] \<and>
   rp_applied_index ex_done = 1"
  by code_simp

lemma ex_ready_eval:
  "map_option fst (RawNode_GetReady ex_env (rp_raw_node (ex_processor [ex_entries]))) = Some ex_ready \<and>
   rd_entries ex_ready = [ex_entry] \<and> lrd_committed_entries (rd_light ex_ready) = []"
  by code_simp

text \<open>
  A snapshot and the entry behind it in one Ready: the entries are stored before the snapshot, so the storage refuses the gap,
  and every later cycle fails in the same way.
\<close>

lemma snapshot_with_entries_stuck:
  "(case ReadyProcessor_Process (ex_raftor True) (ex_processor [ex_snapshot, ex_behind]) of
      Some (Inl e, rp) \<Rightarrow> e = RaftError ProposalDropped \<and>
        (case ReadyProcessor_Process (ex_raftor True) rp of
           Some (Inl e', rp') \<Rightarrow> e' = RaftError ProposalDropped \<and> node_store (rp_raw_node rp') = ex_store
         | _ \<Rightarrow> False)
    | _ \<Rightarrow> False)"
  by code_simp

section \<open>Properties\<close>

text \<open>
  C11. A node acts on a Ready only after making it durable: when a message is sent, an entry is given to the state machine or
  any other outward effect happens in a cycle, the entries, the hard state (synced when the Ready asks for it) and the
  snapshot of the Ready of this cycle have been stored before.
\<close>

theorem messages_after_persistence:
  assumes "ReadyProcessor_Process R rp = Some (r, rp')" "RawNode_GetReady (re_env R) (rp_raw_node rp) = Some (rd, n)"
    "rp_trace rp' = rp_trace rp @ before @ x # after" "outward x"
  shows "persisted rd before"
proof -
  obtain b a where ba: "rp_trace rp' = rp_trace rp @ b @ a" "list_all (\<lambda>e. \<not> outward e) b" "a = [] \<or> persisted rd b"
    using Process_order [OF assms(1,2)] by blast
  have eq: "b @ a = before @ x # after" using ba(1) assms(3) by simp
  have "length b \<le> length before"
  proof (rule ccontr)
    assume "\<not> length b \<le> length before"
    then have "b ! length before = x" "length before < length b" using eq by (metis nth_append nth_append_length not_le)+
    then show False using ba(2) assms(4) by (metis list_all_length)
  qed
  then obtain c where c: "before = b @ c" using eq by (auto simp: append_eq_append_conv2)
  then have "a \<noteq> []" using eq by auto
  then show ?thesis using ba(3) c by (auto simp: persisted_def split: option.splits)
qed

theorem messages_after_persistence_witness:
  "outward (rp_trace ex_done ! 4) \<and> persisted ex_ready (take 4 (rp_trace ex_done)) \<and> rd_entries ex_ready = [ex_entry] \<and>
   Appended [ex_entry] \<in> set (take 4 (rp_trace ex_done))"
proof -
  obtain n where n: "RawNode_GetReady (re_env (ex_raftor True)) (rp_raw_node (ex_processor [ex_entries])) = Some (ex_ready, n)"
    using ex_ready_eval by (auto simp: ex_raftor_def)
  have "rp_trace ex_done = rp_trace (ex_processor [ex_entries]) @ take 4 (rp_trace ex_done) @ rp_trace ex_done ! 4 # drop 5 (rp_trace ex_done)"
    "outward (rp_trace ex_done ! 4)"
    using ex_done_eval by simp_all
  then have "persisted ex_ready (take 4 (rp_trace ex_done))"
    using messages_after_persistence [OF ex_done_eval [THEN conjunct1] n] by blast
  then show ?thesis using ex_ready_eval ex_done_eval by simp
qed





text \<open>
  C16. A linearizable read is answered once its index has been applied, and not before: of the reads a node has confirmed,
  with distinct contexts, a pass answers exactly those that still wait for an answer and whose index the applied index has
  reached, and keeps exactly those whose index lies ahead.
\<close>

theorem reads_answered_when_applied:
  assumes "distinct (map snd (rp_pending_reads rp))"
  shows "rp_pending_reads (ReadyProcessor_MaybeCompletePendingReads rp) =
      filter (\<lambda>(index, ctx). ProposalTracker_IsReadPending ctx (rp_proposal_tracker rp) \<and> rp_applied_index rp < index) (rp_pending_reads rp) \<and>
    rp_calls (ReadyProcessor_MaybeCompletePendingReads rp) =
      rp_calls rp @ read_calls (rp_proposal_tracker rp) (filter (read_due (rp_applied_index rp) (rp_proposal_tracker rp)) (rp_pending_reads rp))"
  using complete_reads_exact [OF assms, of "rp_applied_index rp" rp _ _ "rp_proposal_tracker rp"]
  by (auto simp: ReadyProcessor_MaybeCompletePendingReads_def split: prod.splits)

theorem reads_answered_when_applied_witness:
  "rp_pending_reads (ReadyProcessor_MaybeCompletePendingReads ex_reads) = [(9, ''b'')] \<and>
   rp_calls (ReadyProcessor_MaybeCompletePendingReads ex_reads) = [ReadDone 7 (Inr ())]"
proof -
  have "distinct (map snd (rp_pending_reads ex_reads))" by (simp add: ex_reads_def)
  from reads_answered_when_applied [OF this] show ?thesis
    by (simp add: ex_reads_def ProposalTracker_IsReadPending_def read_due_def read_calls_def call_read_def)
qed

end
