(* ===== verification/Segment.thy ===== *)
theory Segment
  imports WalDisk "HOL-Library.List_Lexorder"
begin

text \<open>
  Segment files of the write-ahead log (\<open>lib/raftor/wal/segment.cc\<close>) and the manager that holds them
  (\<open>lib/raftor/wal/segment_manager.cc\<close>). A \<open>Segment\<close> keeps the name of its file in place of a descriptor, and
  whether the descriptor is open: the code never removes a file that it has open and still uses. A \<open>Segment*\<close> is
  the key of the segment in the manager's map. The positional reads and writes are those of
  \<open>PosixSegmentIo\<close>; the io_uring implementation has the same contract and sits on a third-party library, so it is
  represented by whether its engine could be created.
\<close>

section \<open>Choice of the backend\<close>

datatype WALIoBackend = Backend_Auto | Backend_Posix | Backend_IoUring

record WALConfig =
  wc_io_backend :: WALIoBackend
  wc_uring_queue_depth :: u32
  wc_segment_size :: u64
  wc_write_buffer_size :: u64
  wc_sync_on_write :: bool
  wc_preallocate :: bool

definition DefaultWALConfig :: WALConfig where
  "DefaultWALConfig = \<lparr>wc_io_backend = Backend_Auto, wc_uring_queue_depth = 256,
     wc_segment_size = 64 * 1024 * 1024, wc_write_buffer_size = 4 * 1024 * 1024, wc_sync_on_write = True,
     wc_preallocate = True\<rparr>"

definition BuildIoUringFallbackNote :: "(raft_error \<Rightarrow> string) \<Rightarrow> raft_error \<Rightarrow> string" where
  "BuildIoUringFallbackNote to_string err =
     (if err = StorageError IoUringNotLinux then ''io_uring not supported on this platform; falling back to posix''
      else if err = StorageError IoUringNotBuilt then ''io_uring support not built; falling back to posix''
      else if err = StorageError IoUringInitFailed then ''io_uring init failed; falling back to posix''
      else if err = StorageError IoUringProbeMissingOp then ''io_uring missing required operations; falling back to posix''
      else ''io_uring unavailable ('' @ to_string err @ ''); falling back to posix'')"

text \<open>
  The parameter \<open>engine\<close> is the result of \<open>IoUringEngine::Create\<close>, or the error of a build without io_uring.
\<close>

definition SelectSegmentIoBackend ::
    "(u32 \<Rightarrow> unit result) \<Rightarrow> (raft_error \<Rightarrow> string) \<Rightarrow> WALConfig \<Rightarrow> (WALIoBackend \<times> string) result" where
  "SelectSegmentIoBackend engine to_string cfg =
     (if wc_io_backend cfg = Backend_Posix then Inr (Backend_Posix, [])
      else case engine (wc_uring_queue_depth cfg) of
             Inr _ \<Rightarrow> Inr (Backend_IoUring, [])
           | Inl e \<Rightarrow>
               if wc_io_backend cfg = Backend_IoUring then Inl e
               else Inr (Backend_Posix, BuildIoUringFallbackNote to_string e))"

section \<open>A segment file\<close>

record Segment =
  seg_open :: bool
  seg_segment_id :: u64
  seg_first_index :: u64
  seg_write_offset :: u64
  seg_file_size :: u64
  seg_path :: string

definition PosixSegmentIo_PWrite :: "os \<Rightarrow> string \<Rightarrow> u64 \<Rightarrow> u8 list \<Rightarrow> disk \<Rightarrow> unit result \<times> disk" where
  "PosixSegmentIo_PWrite os name off data d =
     (case sys_pwrite os name off data d of
        (None, d) \<Rightarrow> (Inl (StorageErrorOther (Fmt ''pwrite failed: {}'' [])), d)
      | (Some n, d) \<Rightarrow>
          if n \<noteq> length data
          then (Inl (StorageErrorOther (Fmt ''short write: expected {}, got {}'' [of_nat (length data), of_nat n])), d)
          else (Inr (), d))"

definition PosixSegmentIo_PRead :: "os \<Rightarrow> string \<Rightarrow> u64 \<Rightarrow> nat \<Rightarrow> disk \<Rightarrow> u8 list result \<times> disk" where
  "PosixSegmentIo_PRead os name off len d =
     (case sys_pread os name off len d of
        (None, d) \<Rightarrow> (Inl (StorageErrorOther (Fmt ''pread failed: {}'' [])), d)
      | (Some bs, d) \<Rightarrow>
          if length bs \<noteq> len
          then (Inl (StorageErrorOther (Fmt ''short read: expected {}, got {}'' [of_nat len, of_nat (length bs)])), d)
          else (Inr bs, d))"

definition PosixSegmentIo_Sync :: "os \<Rightarrow> disk \<Rightarrow> unit result \<times> disk" where
  "PosixSegmentIo_Sync os d =
     (case sys_call os id d of
        (False, d) \<Rightarrow> (Inl (StorageErrorOther (Fmt ''sync failed: {}'' [])), d)
      | (True, d) \<Rightarrow> (Inr (), d))"

definition unlink_ignored :: "os \<Rightarrow> string \<Rightarrow> disk \<Rightarrow> disk" where
  "unlink_ignored os name d = snd (sys_call os (remove_file name) d)"

definition Segment_Create ::
    "os \<Rightarrow> string \<Rightarrow> u64 \<Rightarrow> u64 \<Rightarrow> bool \<Rightarrow> u64 \<Rightarrow> disk \<Rightarrow> Segment result \<times> disk" where
  "Segment_Create os path segment_id first_index preallocate preallocate_size d =
     (case (if file_exists d path then (False, snd (sys_outcome os d)) else sys_call os (set_file path []) d) of
        (False, d) \<Rightarrow> (Inl (StorageErrorOther (Fmt ''failed to create segment {}: {}'' [])), d)
      | (True, d) \<Rightarrow>
          let d = (if preallocate \<and> preallocate_size > 0
                   then snd (sys_call os (\<lambda>d. set_file path (extend_to (unat preallocate_size) (file_of d path)) d) d)
                   else d);
              header_buf = SegmentHeader_Serialize
                (SegmentHeader_new\<lparr>sh_segment_id := segment_id, sh_first_index := first_index\<rparr>)
          in case sys_pwrite os path 0 header_buf d of
               (written, d) \<Rightarrow>
                 if written \<noteq> Some (length header_buf)
                 then (Inl (StorageErrorOther (Fmt ''failed to write segment header: {}'' [])), unlink_ignored os path d)
                 else case sys_call os id d of
                        (False, d) \<Rightarrow> (Inl (StorageErrorOther (Fmt ''failed to stat segment: {}'' [])), unlink_ignored os path d)
                      | (True, d) \<Rightarrow>
                          (Inr \<lparr>seg_open = True, seg_segment_id = segment_id, seg_first_index = first_index,
                                seg_write_offset = 32, seg_file_size = of_nat (length (file_of d path)),
                                seg_path = path\<rparr>, d))"

definition Segment_Open :: "os \<Rightarrow> string \<Rightarrow> disk \<Rightarrow> Segment result \<times> disk" where
  "Segment_Open os path d =
     (case (if file_exists d path then sys_call os id d else (False, snd (sys_outcome os d))) of
        (False, d) \<Rightarrow> (Inl (StorageErrorOther (Fmt ''failed to open segment {}: {}'' [])), d)
      | (True, d) \<Rightarrow>
          (case sys_pread os path 0 32 d of
             (None, d) \<Rightarrow> (Inl (StorageErrorOther (Fmt ''failed to read segment header: {}'' [])), d)
           | (Some header_buf, d) \<Rightarrow>
               if length header_buf \<noteq> 32
               then (Inl (StorageErrorOther (Fmt ''failed to read segment header: {}'' [])), d)
               else
                 let header = SegmentHeader_Deserialize header_buf
                 in if \<not> SegmentHeader_IsValid header then (Inl (StorageError InvalidSegmentHeader), d)
                    else case sys_call os id d of
                           (False, d) \<Rightarrow> (Inl (StorageErrorOther (Fmt ''failed to stat segment: {}'' [])), d)
                         | (True, d) \<Rightarrow>
                             (Inr \<lparr>seg_open = True, seg_segment_id = sh_segment_id header,
                                   seg_first_index = sh_first_index header,
                                   seg_write_offset = of_nat (length (file_of d path)),
                                   seg_file_size = of_nat (length (file_of d path)), seg_path = path\<rparr>, d)))"

definition Segment_Append :: "os \<Rightarrow> u8 list \<Rightarrow> Segment \<times> disk \<Rightarrow> unit result \<times> Segment \<times> disk" where
  "Segment_Append os data = (\<lambda>(s, d).
     if \<not> seg_open s then (Inl (StorageError SegmentNotOpen), s, d)
     else case PosixSegmentIo_PWrite os (seg_path s) (seg_write_offset s) data d of
            (Inl e, d) \<Rightarrow> (Inl e, s, d)
          | (Inr _, d) \<Rightarrow>
              let off = seg_write_offset s + of_nat (length data)
              in (Inr (), s\<lparr>seg_write_offset := off,
                            seg_file_size := (if off > seg_file_size s then off else seg_file_size s)\<rparr>, d))"

definition Segment_Read :: "os \<Rightarrow> u64 \<Rightarrow> u32 \<Rightarrow> Segment \<Rightarrow> disk \<Rightarrow> u8 list result \<times> disk" where
  "Segment_Read os offset len s d =
     (if \<not> seg_open s then (Inl (StorageError SegmentNotOpen), d)
      else PosixSegmentIo_PRead os (seg_path s) offset (unat len) d)"

definition Segment_Sync :: "os \<Rightarrow> Segment \<Rightarrow> disk \<Rightarrow> unit result \<times> disk" where
  "Segment_Sync os s d =
     (if \<not> seg_open s then (Inl (StorageError SegmentNotOpen), d) else PosixSegmentIo_Sync os d)"

definition Segment_Truncate :: "os \<Rightarrow> u64 \<Rightarrow> Segment \<times> disk \<Rightarrow> unit result \<times> Segment \<times> disk" where
  "Segment_Truncate os offset = (\<lambda>(s, d).
     if \<not> seg_open s then (Inl (StorageError SegmentNotOpen), s, d)
     else case sys_ftruncate os (seg_path s) offset d of
            (False, d) \<Rightarrow> (Inl (StorageErrorOther (Fmt ''failed to truncate segment: {}'' [])), s, d)
          | (True, d) \<Rightarrow> (Inr (), s\<lparr>seg_write_offset := offset, seg_file_size := offset\<rparr>, d))"

definition Segment_Close :: "os \<Rightarrow> Segment \<times> disk \<Rightarrow> unit result \<times> Segment \<times> disk" where
  "Segment_Close os = (\<lambda>(s, d).
     if seg_open s then
       (case sys_call os id d of
          (False, d) \<Rightarrow> (Inl (StorageErrorOther (Fmt ''failed to close segment: {}'' [])), s, d)
        | (True, d) \<Rightarrow> (Inr (), s\<lparr>seg_open := False\<rparr>, d))
     else (Inr (), s, d))"

definition Segment_IsFull :: "u64 \<Rightarrow> Segment \<Rightarrow> bool" where
  "Segment_IsFull threshold s \<longleftrightarrow> seg_write_offset s \<ge> threshold"

section \<open>File names\<close>

definition digit_char :: "nat \<Rightarrow> char" where
  "digit_char n = char_of (48 + n)"

fun decimal :: "nat \<Rightarrow> string" where
  "decimal n = (if n < 10 then [digit_char n] else decimal (n div 10) @ [digit_char (n mod 10)])"

declare decimal.simps [simp del]

text \<open>The format specification \<open>{:06d}\<close> pads to six digits with zeros.\<close>

definition Segment_MakeSegmentFilename :: "u64 \<Rightarrow> string" where
  "Segment_MakeSegmentFilename segment_id =
     (let s = decimal (unat segment_id)
      in ''segment-'' @ replicate (6 - length s) (digit_char 0) @ s @ ''.wal'')"

definition is_digit :: "char \<Rightarrow> bool" where
  "is_digit c \<longleftrightarrow> 48 \<le> (of_char c :: nat) \<and> (of_char c :: nat) \<le> 57"

definition decimal_value :: "string \<Rightarrow> nat" where
  "decimal_value s = foldl (\<lambda>n c. 10 * n + (of_char c - 48)) 0 s"

text \<open>The regular expression \<open>segment-(\d{6})\.wal\<close> has to match the whole name.\<close>

definition Segment_ParseSegmentId :: "string \<Rightarrow> u64 option" where
  "Segment_ParseSegmentId filename =
     (let id = take 6 (drop 8 filename)
      in if take 8 filename = ''segment-'' \<and> length id = 6 \<and> list_all is_digit id \<and> drop 14 filename = ''.wal''
         then Some (of_nat (decimal_value id)) else None)"

lemma digit_char_code: "n < 10 \<Longrightarrow> (of_char (digit_char n) :: nat) = 48 + n"
  by (simp add: digit_char_def)

lemma is_digit_char: "n < 10 \<Longrightarrow> is_digit (digit_char n)"
  by (simp add: is_digit_def digit_char_code)

lemma decimal_digits: "list_all is_digit (decimal n)"
proof (induction n rule: decimal.induct)
  case (1 n)
  then show ?case by (subst decimal.simps) (simp add: is_digit_char)
qed

lemma decimal_value_decimal: "decimal_value (decimal n) = n"
proof (induction n rule: decimal.induct)
  case (1 n)
  then show ?case by (subst decimal.simps) (simp add: decimal_value_def digit_char_code)
qed

lemma length_decimal: "length (decimal n) \<le> Suc k \<longleftrightarrow> n < 10 ^ Suc k"
proof (induction k arbitrary: n)
  case 0
  have "length (decimal m) \<noteq> 0" for m by (subst decimal.simps) simp
  then show ?case by (subst decimal.simps) auto
next
  case (Suc k)
  have "n div 10 < 10 ^ Suc k \<longleftrightarrow> n < 10 ^ Suc (Suc k)" by (simp add: div_less_iff_less_mult)
  moreover have "n < 100 * 10 ^ k" if "n < 10" using that one_le_power [of "10 :: nat" k] by linarith
  ultimately show ?case using Suc.IH [of "n div 10"] by (subst decimal.simps) simp
qed

lemma decimal_value_zeros: "decimal_value (replicate k (digit_char 0) @ s) = decimal_value s"
  by (induction k) (simp_all add: decimal_value_def digit_char_code)

lemma ParseSegmentId_filename:
  "Segment_ParseSegmentId (Segment_MakeSegmentFilename i) = (if unat i < 10 ^ 6 then Some i else None)"
proof -
  let ?s = "decimal (unat i)"
  have len: "length ?s \<le> 6 \<longleftrightarrow> unat i < 10 ^ 6" using length_decimal [of "unat i" 5] by simp
  show ?thesis
  proof (cases "length ?s \<le> 6")
    case True
    let ?z = "replicate (6 - length ?s) (digit_char 0)"
    have "list_all is_digit (?z @ ?s)" using decimal_digits by (auto simp: list_all_iff is_digit_char)
    moreover have "decimal_value (?z @ ?s) = unat i" by (simp add: decimal_value_zeros decimal_value_decimal)
    moreover have "take 6 (drop 8 (Segment_MakeSegmentFilename i)) = ?z @ ?s" "take 8 (Segment_MakeSegmentFilename i) = ''segment-''"
      "drop 14 (Segment_MakeSegmentFilename i) = ''.wal''"
      using True by (simp_all add: Segment_MakeSegmentFilename_def Let_def)
    ultimately show ?thesis using True len by (simp add: Segment_ParseSegmentId_def Let_def)
  next
    case False
    then have "length (drop 14 (Segment_MakeSegmentFilename i)) \<noteq> length ''.wal''"
      by (simp add: Segment_MakeSegmentFilename_def Let_def)
    then have "drop 14 (Segment_MakeSegmentFilename i) \<noteq> ''.wal''" by metis
    then show ?thesis using False len by (auto simp: Segment_ParseSegmentId_def Let_def)
  qed
qed

lemma decimal_value_snoc: "decimal_value (s @ [c]) = 10 * decimal_value s + (of_char c - 48)"
  by (simp add: decimal_value_def)

lemma decimal_value_inj:
  assumes "length s = length t" "list_all is_digit s" "list_all is_digit t" "decimal_value s = decimal_value t"
  shows "s = t"
  using assms
proof (induction s arbitrary: t rule: rev_induct)
  case (snoc c s)
  obtain t' c' where t: "t = t' @ [c']" using snoc.prems(1) by (cases t rule: rev_cases) auto
  define x y :: nat where "x = of_char c - 48" and "y = of_char c' - 48"
  have d: "(of_char c :: nat) = 48 + x" "x < 10" "(of_char c' :: nat) = 48 + y" "y < 10"
    using snoc.prems(2,3) t by (auto simp: is_digit_def x_def y_def)
  have "10 * decimal_value s + x = 10 * decimal_value t' + y" using snoc.prems(4) unfolding t decimal_value_snoc x_def y_def .
  then have "decimal_value s = decimal_value t'" "x = y" using d(2,4) by presburger+
  then have e: "decimal_value s = decimal_value t'" "c = c'" using d(1,3) of_char_eq_iff [of c c', where 'a = nat] by simp_all
  then show ?case using snoc.IH [of t'] snoc.prems t by simp
qed simp

lemma decimal_value_bound: "list_all is_digit s \<Longrightarrow> decimal_value s < 10 ^ length s"
proof (induction s rule: rev_induct)
  case (snoc c s)
  then show ?case by (auto simp: decimal_value_snoc is_digit_def)
qed (simp add: decimal_value_def)

lemma ParseSegmentId_SomeD:
  assumes "Segment_ParseSegmentId name = Some i"
  shows "name = Segment_MakeSegmentFilename i"
proof -
  let ?id = "take 6 (drop 8 name)"
  have n: "take 8 name = ''segment-''" "length ?id = 6" "list_all is_digit ?id" "drop 14 name = ''.wal''" "i = of_nat (decimal_value ?id)"
    using assms by (auto simp: Segment_ParseSegmentId_def Let_def split: if_splits)
  have bound: "decimal_value ?id < 10 ^ 6" using decimal_value_bound [OF n(3)] n(2) by simp
  then have v: "unat i = decimal_value ?id" unfolding n(5) by (intro unat_of_nat_u64) simp
  let ?s = "decimal (unat i)" let ?z = "replicate (6 - length ?s) (digit_char 0)"
  have len: "length (?z @ ?s) = length ?id" using length_decimal [of "unat i" 5] bound v n(2) by simp
  have "?z @ ?s = ?id"
    by (rule decimal_value_inj [OF len _ n(3)]) (use decimal_digits [of "unat i"] v in
      \<open>auto simp: list_all_iff is_digit_char decimal_value_zeros decimal_value_decimal\<close>)
  moreover have "name = take 8 name @ ?id @ drop 14 name" using append_take_drop_id [of 8 name] append_take_drop_id [of 6 "drop 8 name"] by simp
  ultimately have "name = take 8 name @ (?z @ ?s) @ drop 14 name" by simp
  then show ?thesis by (simp add: Segment_MakeSegmentFilename_def n(1,4) Let_def)
qed

text \<open>
  C39. Recovery finds a segment by its name exactly when its id has at most six digits: the name made for a
  smaller id is read back as that id, and the name made for any larger id is not recognised as a segment.
\<close>

theorem segment_filename_round_trip:
  "Segment_ParseSegmentId (Segment_MakeSegmentFilename i) = (if unat i < 10 ^ 6 then Some i else None)"
  by (rule ParseSegmentId_filename)

end
