(* ===== verification/SegmentManager.thy ===== *)
theory SegmentManager
  imports Segment
begin

text \<open>
  The set of segment files of a log (\<open>lib/raftor/wal/segment_manager.cc\<close>). The map from segment ids to
  segments is an association list in the order of the ids, as \<open>std::map\<close> iterates.
\<close>

section \<open>Ordered maps\<close>

fun omap_put :: "u64 \<Rightarrow> 'a \<Rightarrow> (u64 \<times> 'a) list \<Rightarrow> (u64 \<times> 'a) list" where
  "omap_put k v [] = [(k, v)]"
| "omap_put k v ((k', v') # m) =
     (if k < k' then (k, v) # (k', v') # m else if k = k' then (k, v) # m else (k', v') # omap_put k v m)"

abbreviation omap_wf :: "(u64 \<times> 'a) list \<Rightarrow> bool" where
  "omap_wf m \<equiv> sorted_wrt (<) (map fst m)"

lemma omap_put_keys: "set (map fst (omap_put k v m)) = insert k (set (map fst m))"
  by (induction k v m rule: omap_put.induct) auto

lemma omap_put_wf: "omap_wf m \<Longrightarrow> omap_wf (omap_put k v m)"
proof (induction k v m rule: omap_put.induct)
  case (2 k v k' v' m)
  then show ?case using omap_put_keys [of k v m] by (auto simp del: set_map)
qed simp

lemma map_of_omap_put: "map_of (omap_put k v m) = (map_of m)(k \<mapsto> v)"
  by (induction k v m rule: omap_put.induct) auto

lemma omap_put_end: "(\<And>k' v'. (k', v') \<in> set m \<Longrightarrow> k' < k) \<Longrightarrow> omap_put k v m = m @ [(k, v)]"
proof (induction m)
  case (Cons p m)
  obtain k' v' where p: "p = (k', v')" by (cases p)
  have "k' < k" using Cons.prems [of k' v'] p by simp
  moreover have "omap_put k v m = m @ [(k, v)]" using Cons by auto
  ultimately show ?case using p by auto
qed simp

section \<open>Operations\<close>

record SegmentManager =
  sm_segments :: "(u64 \<times> Segment) list"
  sm_current_segment_id :: u64

definition SegmentManager_new :: SegmentManager where
  "SegmentManager_new = \<lparr>sm_segments = [], sm_current_segment_id = 0\<rparr>"

text \<open>The segment behind a \<open>Segment*\<close>, and an operation on it.\<close>

definition segment_at :: "u64 \<Rightarrow> SegmentManager \<Rightarrow> Segment" where
  "segment_at sid sm = the (map_of (sm_segments sm) sid)"

definition on_segment :: "u64 \<Rightarrow> (Segment \<times> disk \<Rightarrow> 'a result \<times> Segment \<times> disk) \<Rightarrow>
    SegmentManager \<times> disk \<Rightarrow> 'a result \<times> SegmentManager \<times> disk" where
  "on_segment sid f = (\<lambda>(sm, d).
     case f (segment_at sid sm, d) of
       (r, s, d) \<Rightarrow> (r, sm\<lparr>sm_segments := AList.update sid s (sm_segments sm)\<rparr>, d))"

text \<open>The loop that opens the files found; a file that cannot be opened is skipped.\<close>

fun open_segments :: "os \<Rightarrow> string list \<Rightarrow> SegmentManager \<times> disk \<Rightarrow> SegmentManager \<times> disk" where
  "open_segments os [] (sm, d) = (sm, d)"
| "open_segments os (path # paths) (sm, d) =
     (case Segment_Open os path d of
        (Inl _, d) \<Rightarrow> open_segments os paths (sm, d)
      | (Inr s, d) \<Rightarrow>
          let seg_id = seg_segment_id s
          in open_segments os paths
               (sm\<lparr>sm_segments := omap_put seg_id s (sm_segments sm),
                   sm_current_segment_id :=
                     (if seg_id > sm_current_segment_id sm then seg_id else sm_current_segment_id sm)\<rparr>, d))"

text \<open>
  A directory that cannot be listed gives an iterator that is at its end at once: the test of the
  error code inside the loop is then never reached.
\<close>

definition SegmentManager_Initialize :: "os \<Rightarrow> SegmentManager \<times> disk \<Rightarrow> unit result \<times> SegmentManager \<times> disk" where
  "SegmentManager_Initialize os = (\<lambda>(sm, d).
     case (if d_dir d then (True, d) else sys_call os (\<lambda>d. d\<lparr>d_dir := True\<rparr>) d) of
       (False, d) \<Rightarrow> (Inl (StorageErrorOther (Fmt ''failed to create WAL directory: {}'' [])), sm, d)
     | (True, d) \<Rightarrow>
         (case sys_call os id d of
            (listed, d) \<Rightarrow>
              let names = (if listed then map fst (d_files d) else []);
                  segment_paths = sort_key (map (of_char :: char \<Rightarrow> nat)) (filter (\<lambda>n. Segment_ParseSegmentId n \<noteq> None) names)
              in (Inr (), open_segments os segment_paths (sm, d))))"

definition SegmentManager_RollToNewSegment ::
    "os \<Rightarrow> WALConfig \<Rightarrow> u64 \<Rightarrow> SegmentManager \<times> disk \<Rightarrow> u64 result \<times> SegmentManager \<times> disk" where
  "SegmentManager_RollToNewSegment os cfg first_index = (\<lambda>(sm, d).
     let d = (case map_of (sm_segments sm) (sm_current_segment_id sm) of
                None \<Rightarrow> d
              | Some s \<Rightarrow> snd (Segment_Sync os s d));
         new_segment_id = sm_current_segment_id sm + 1;
         path = Segment_MakeSegmentFilename new_segment_id
     in case Segment_Create os path new_segment_id first_index (wc_preallocate cfg) (wc_segment_size cfg) d of
          (Inl e, d) \<Rightarrow> (Inl e, sm, d)
        | (Inr s, d) \<Rightarrow>
            (Inr new_segment_id,
             sm\<lparr>sm_segments := omap_put new_segment_id s (sm_segments sm), sm_current_segment_id := new_segment_id\<rparr>, d))"

definition SegmentManager_GetCurrentSegment ::
    "os \<Rightarrow> WALConfig \<Rightarrow> u64 \<Rightarrow> SegmentManager \<times> disk \<Rightarrow> u64 result \<times> SegmentManager \<times> disk" where
  "SegmentManager_GetCurrentSegment os cfg first_index_hint = (\<lambda>(sm, d).
     if sm_segments sm = [] then SegmentManager_RollToNewSegment os cfg first_index_hint (sm, d)
     else case map_of (sm_segments sm) (sm_current_segment_id sm) of
            None \<Rightarrow> (Inl (StorageError CurrentSegmentNotFound), sm, d)
          | Some _ \<Rightarrow> (Inr (sm_current_segment_id sm), sm, d))"

fun segment_for_index :: "u64 \<Rightarrow> (u64 \<times> Segment) list \<Rightarrow> u64 option \<Rightarrow> u64 option" where
  "segment_for_index index [] result = result"
| "segment_for_index index ((seg_id, s) # m) result =
     (if seg_first_index s \<le> index then segment_for_index index m (Some seg_id) else result)"

definition SegmentManager_GetSegmentForIndex :: "u64 \<Rightarrow> SegmentManager \<Rightarrow> u64 option" where
  "SegmentManager_GetSegmentForIndex index sm = segment_for_index index (sm_segments sm) None"

definition SegmentManager_RemoveSegment :: "os \<Rightarrow> u64 \<Rightarrow> SegmentManager \<times> disk \<Rightarrow> unit result \<times> SegmentManager \<times> disk" where
  "SegmentManager_RemoveSegment os segment_id = (\<lambda>(sm, d).
     case map_of (sm_segments sm) segment_id of
       None \<Rightarrow> (Inr (), sm, d)
     | Some s \<Rightarrow>
         (case Segment_Close os (s, d) of
            (_, _, d) \<Rightarrow>
              let segments = AList.delete segment_id (sm_segments sm);
                  sm = sm\<lparr>sm_segments := segments,
                         sm_current_segment_id :=
                           (if sm_current_segment_id sm = segment_id
                            then (if segments = [] then 0 else fst (last segments))
                            else sm_current_segment_id sm)\<rparr>
              in case sys_call os (remove_file (seg_path s)) d of
                   (False, d) \<Rightarrow> (Inl (StorageErrorOther (Fmt ''failed to remove segment file: {}'' [])), sm, d)
                 | (True, d) \<Rightarrow> (Inr (), sm, d)))"

fun remove_segments :: "os \<Rightarrow> u64 list \<Rightarrow> SegmentManager \<times> disk \<Rightarrow> unit result \<times> SegmentManager \<times> disk" where
  "remove_segments os [] s = (Inr (), s)"
| "remove_segments os (sid # ids) s = io_bind (SegmentManager_RemoveSegment os sid) (\<lambda>_. remove_segments os ids) s"

definition SegmentManager_RemoveSegmentsBefore ::
    "os \<Rightarrow> u64 \<Rightarrow> SegmentManager \<times> disk \<Rightarrow> unit result \<times> SegmentManager \<times> disk" where
  "SegmentManager_RemoveSegmentsBefore os segment_id = (\<lambda>(sm, d).
     remove_segments os (filter (\<lambda>sid. sid < segment_id) (map fst (sm_segments sm))) (sm, d))"

definition SegmentManager_RemoveAllSegments :: "os \<Rightarrow> SegmentManager \<times> disk \<Rightarrow> unit result \<times> SegmentManager \<times> disk" where
  "SegmentManager_RemoveAllSegments os = (\<lambda>(sm, d). remove_segments os (map fst (sm_segments sm)) (sm, d))"

record SegmentInfo =
  si_segment_id :: u64
  si_first_index :: u64
  si_path :: string

definition SegmentManager_ListSegments :: "SegmentManager \<Rightarrow> SegmentInfo list" where
  "SegmentManager_ListSegments sm =
     map (\<lambda>(seg_id, s). \<lparr>si_segment_id = seg_id, si_first_index = seg_first_index s, si_path = seg_path s\<rparr>) (sm_segments sm)"

definition SegmentManager_TotalSizeBytes :: "SegmentManager \<Rightarrow> u64" where
  "SegmentManager_TotalSizeBytes sm = foldl (\<lambda>total (_, s). total + seg_file_size s) 0 (sm_segments sm)"

fun sync_segments :: "os \<Rightarrow> (u64 \<times> Segment) list \<Rightarrow> disk \<Rightarrow> unit result \<times> disk" where
  "sync_segments os [] d = (Inr (), d)"
| "sync_segments os ((_, s) # m) d = io_bind (Segment_Sync os s) (\<lambda>_. sync_segments os m) d"

definition SegmentManager_SyncAll :: "os \<Rightarrow> SegmentManager \<times> disk \<Rightarrow> unit result \<times> SegmentManager \<times> disk" where
  "SegmentManager_SyncAll os = (\<lambda>(sm, d). case sync_segments os (sm_segments sm) d of (r, d) \<Rightarrow> (r, sm, d))"

fun close_segments :: "os \<Rightarrow> u64 list \<Rightarrow> SegmentManager \<times> disk \<Rightarrow> unit result \<times> SegmentManager \<times> disk" where
  "close_segments os [] s = (Inr (), s)"
| "close_segments os (sid # ids) s = io_bind (on_segment sid (Segment_Close os)) (\<lambda>_. close_segments os ids) s"

definition SegmentManager_CloseAll :: "os \<Rightarrow> SegmentManager \<times> disk \<Rightarrow> unit result \<times> SegmentManager \<times> disk" where
  "SegmentManager_CloseAll os = (\<lambda>(sm, d).
     io_bind (close_segments os (map fst (sm_segments sm)))
       (\<lambda>_ (sm, d). (Inr (), sm\<lparr>sm_segments := []\<rparr>, d)) (sm, d))"

definition SegmentManager_NextSegmentId :: "SegmentManager \<Rightarrow> u64" where
  "SegmentManager_NextSegmentId sm = sm_current_segment_id sm + 1"

section \<open>The type of the segment map\<close>

text \<open>
  The map is ordered, every segment stands under its own id, no id is above the current one, and the current
  segment is in the map unless the map is empty.
\<close>

definition sm_wf :: "SegmentManager \<Rightarrow> bool" where
  "sm_wf sm \<longleftrightarrow> omap_wf (sm_segments sm) \<and>
     (\<forall>p \<in> set (sm_segments sm). seg_segment_id (snd p) = fst p) \<and>
     (\<forall>k \<in> fst ` set (sm_segments sm). k \<le> sm_current_segment_id sm) \<and>
     (sm_segments sm \<noteq> [] \<longrightarrow> sm_current_segment_id sm \<in> fst ` set (sm_segments sm))"

text \<open>The operations that the log performs on its segments after start.\<close>

datatype sm_op =
    RollSegment WALConfig u64
  | CurrentSegment WALConfig u64
  | AppendTo u64 "u8 list"
  | TruncateTo u64 u64
  | RemoveOne u64
  | RemoveBefore u64
  | RemoveEvery
  | SyncEvery
  | CloseEvery

definition sm_do :: "os \<Rightarrow> sm_op \<Rightarrow> SegmentManager \<times> disk \<Rightarrow> SegmentManager \<times> disk" where
  "sm_do os oper s = (case oper of
     RollSegment cfg i \<Rightarrow> snd (SegmentManager_RollToNewSegment os cfg i s)
   | CurrentSegment cfg i \<Rightarrow> snd (SegmentManager_GetCurrentSegment os cfg i s)
   | AppendTo k data \<Rightarrow> (if map_of (sm_segments (fst s)) k = None then s else snd (on_segment k (Segment_Append os data) s))
   | TruncateTo k off \<Rightarrow> (if map_of (sm_segments (fst s)) k = None then s else snd (on_segment k (Segment_Truncate os off) s))
   | RemoveOne k \<Rightarrow> snd (SegmentManager_RemoveSegment os k s)
   | RemoveBefore k \<Rightarrow> snd (SegmentManager_RemoveSegmentsBefore os k s)
   | RemoveEvery \<Rightarrow> snd (SegmentManager_RemoveAllSegments os s)
   | SyncEvery \<Rightarrow> snd (SegmentManager_SyncAll os s)
   | CloseEvery \<Rightarrow> snd (SegmentManager_CloseAll os s))"

lemma omap_put_set: "set (omap_put k v m) \<subseteq> insert (k, v) (set m)"
  by (induction k v m rule: omap_put.induct) auto

lemma sm_wf_put:
  assumes "sm_wf sm" "seg_segment_id s = k" "k \<le> c" "sm_current_segment_id sm \<le> c" "c = k \<or> c = sm_current_segment_id sm \<and> sm_segments sm \<noteq> []"
  shows "sm_wf (sm\<lparr>sm_segments := omap_put k s (sm_segments sm), sm_current_segment_id := c\<rparr>)"
proof -
  let ?m = "omap_put k s (sm_segments sm)"
  have keys: "fst ` set ?m = insert k (fst ` set (sm_segments sm))" using omap_put_keys [of k s "sm_segments sm"] by simp
  have "omap_wf ?m" using assms(1) by (simp add: sm_wf_def omap_put_wf)
  moreover have "\<forall>p \<in> set ?m. seg_segment_id (snd p) = fst p"
    using assms(1,2) omap_put_set [of k s "sm_segments sm"] by (force simp: sm_wf_def)
  moreover have "\<forall>k \<in> fst ` set ?m. k \<le> c" unfolding keys using assms(1,3,4) by (auto simp: sm_wf_def intro: order_trans)
  moreover have "c \<in> fst ` set ?m" unfolding keys using assms(1,5) by (auto simp: sm_wf_def)
  ultimately show ?thesis by (simp add: sm_wf_def)
qed

lemma open_segments_wf:
  "sm_wf sm \<Longrightarrow> sm_segments sm = [] \<longrightarrow> sm_current_segment_id sm = 0 \<Longrightarrow> sm_wf (fst (open_segments os paths (sm, d)))"
proof (induction paths arbitrary: sm d)
  case (Cons path paths)
  show ?case
  proof (cases "Segment_Open os path d")
    case (Pair r d')
    show ?thesis
    proof (cases r)
      case (Inr s)
      let ?k = "seg_segment_id s"
      have ne: "omap_put ?k s (sm_segments sm) \<noteq> []" using omap_put_keys [of ?k s "sm_segments sm"] by auto
      define c where "c = (if ?k > sm_current_segment_id sm then ?k else sm_current_segment_id sm)"
      have "sm_wf (sm\<lparr>sm_segments := omap_put ?k s (sm_segments sm), sm_current_segment_id := c\<rparr>)"
        by (rule sm_wf_put [OF Cons.prems(1) refl]) (use Cons.prems(2) in \<open>auto simp: c_def word_gt_0\<close>)
      then show ?thesis
        using Cons.IH [of "sm\<lparr>sm_segments := omap_put ?k s (sm_segments sm), sm_current_segment_id := c\<rparr>" d'] Pair Inr ne
        by (simp add: Let_def c_def)
    qed (use Cons Pair in simp)
  qed
qed simp

lemma Initialize_wf:
  assumes "SegmentManager_Initialize os (SegmentManager_new, d) = (r, sm, d')"
  shows "sm_wf sm"
proof -
  have new: "sm_wf SegmentManager_new" by (simp add: sm_wf_def SegmentManager_new_def)
  consider "sm = SegmentManager_new" | paths d0 where "open_segments os paths (SegmentManager_new, d0) = (sm, d')"
    using assms by (auto simp: SegmentManager_Initialize_def Let_def split: prod.splits bool.splits if_splits)
  then show ?thesis
  proof cases
    case 2
    then show ?thesis using open_segments_wf [OF new, of os paths d0] by (simp add: SegmentManager_new_def)
  qed (simp add: new)
qed

lemma Roll_wf:
  assumes "sm_wf sm" "unat (sm_current_segment_id sm) + 1 < 2 ^ 64"
  shows "sm_wf (fst (snd (SegmentManager_RollToNewSegment os cfg i (sm, d)))) \<and>
    unat (sm_current_segment_id (fst (snd (SegmentManager_RollToNewSegment os cfg i (sm, d))))) \<le> unat (sm_current_segment_id sm) + 1"
proof -
  let ?k = "sm_current_segment_id sm + 1"
  have k: "unat ?k = Suc (unat (sm_current_segment_id sm))" using assms(2) by (intro unat_Suc_bound_u64) simp
  have id: "seg_segment_id s = k" if "Segment_Create os path k i p n d0 = (Inr s, d1)" for s k path p n d0 d1
    using that by (auto simp: Segment_Create_def Let_def split: prod.splits bool.splits if_splits)
  show ?thesis
    using sm_wf_put [OF assms(1), of _ ?k ?k] id k assms(1)
    by (auto simp: SegmentManager_RollToNewSegment_def Let_def word_le_nat_alt split: prod.splits sum.splits)
qed

lemma update_present: "k \<in> fst ` set m \<Longrightarrow> map fst (AList.update k v m) = map fst m"
  by (induction m) auto

lemma update_set: "set (AList.update k v m) \<subseteq> insert (k, v) (set m)"
  by (induction m) auto

definition keeps_id :: "(Segment \<times> disk \<Rightarrow> 'a result \<times> Segment \<times> disk) \<Rightarrow> bool" where
  "keeps_id f \<longleftrightarrow> (\<forall>s d. seg_segment_id (fst (snd (f (s, d)))) = seg_segment_id s)"

lemma segment_keeps_id: "keeps_id (Segment_Append os data)" "keeps_id (Segment_Truncate os off)" "keeps_id (Segment_Close os)"
  by (auto simp: keeps_id_def Segment_Append_def Segment_Truncate_def Segment_Close_def Let_def split: prod.splits sum.splits bool.splits)

lemma on_segment_wf:
  assumes "sm_wf sm" "map_of (sm_segments sm) k \<noteq> None" "keeps_id f"
  shows "sm_wf (fst (snd (on_segment k f (sm, d)))) \<and> sm_current_segment_id (fst (snd (on_segment k f (sm, d)))) = sm_current_segment_id sm"
proof -
  obtain r s' d' where f: "f (segment_at k sm, d) = (r, s', d')" by (cases "f (segment_at k sm, d)") auto
  obtain s where s: "map_of (sm_segments sm) k = Some s" using assms(2) by auto
  have k: "k \<in> fst ` set (sm_segments sm)" and "seg_segment_id s = k" using assms(1) map_of_SomeD [OF s] by (force simp: sm_wf_def)+
  moreover have "seg_segment_id s' = seg_segment_id (segment_at k sm)" using assms(3) f by (metis fst_conv keeps_id_def snd_conv)
  ultimately have id: "seg_segment_id s' = k" using s by (simp add: segment_at_def)
  let ?m = "AList.update k s' (sm_segments sm)"
  have keys: "map fst ?m = map fst (sm_segments sm)" using update_present [OF k] .
  have "set ?m = {} \<longleftrightarrow> sm_segments sm = []" "fst ` set ?m = fst ` set (sm_segments sm)" using keys by (metis map_is_Nil_conv set_empty, metis list.set_map)
  moreover have "\<forall>p \<in> set ?m. seg_segment_id (snd p) = fst p"
    using assms(1) id update_set [of k s' "sm_segments sm"] by (force simp: sm_wf_def)
  ultimately have "sm_wf (sm\<lparr>sm_segments := ?m\<rparr>)" using assms(1) keys by (simp add: sm_wf_def)
  then show ?thesis using f by (simp add: on_segment_def)
qed

lemma RemoveSegment_wf:
  assumes "sm_wf sm"
  shows "sm_wf (fst (snd (SegmentManager_RemoveSegment os k (sm, d)))) \<and>
    sm_current_segment_id (fst (snd (SegmentManager_RemoveSegment os k (sm, d)))) \<le> sm_current_segment_id sm"
proof -
  let ?m = "AList.delete k (sm_segments sm)"
  define c where "c = (if sm_current_segment_id sm = k then (if ?m = [] then 0 else fst (last ?m)) else sm_current_segment_id sm)"
  have sub: "set ?m \<subseteq> set (sm_segments sm)" and keys: "fst ` set ?m = fst ` set (sm_segments sm) - {k}" by (auto simp: AList.delete_eq)
  have ord: "omap_wf ?m" using assms by (simp add: sm_wf_def AList.delete_eq sorted_wrt_map sorted_wrt_filter)
  have top: "k' \<le> fst (last ?m)" if "k' \<in> fst ` set ?m" for k'
    using ord that by (cases ?m rule: rev_cases) (auto simp: sorted_wrt_append less_imp_le)
  have bound: "\<forall>k' \<in> fst ` set ?m. k' \<le> sm_current_segment_id sm" using assms sub by (auto simp: sm_wf_def)
  have last: "fst (last ?m) \<in> fst ` set ?m" if "?m \<noteq> []" using last_in_set [OF that] by (rule imageI)
  have "\<forall>k' \<in> fst ` set ?m. k' \<le> c" using top bound by (auto simp: c_def)
  moreover have "?m \<noteq> [] \<longrightarrow> c \<in> fst ` set ?m"
  proof (cases "sm_current_segment_id sm = k")
    case False
    have "sm_current_segment_id sm \<in> fst ` set ?m" if "?m \<noteq> []" unfolding keys using assms that sub False by (auto simp: sm_wf_def)
    then show ?thesis using False by (simp add: c_def)
  qed (use last in \<open>simp add: c_def\<close>)
  moreover have "c \<le> sm_current_segment_id sm" using bound last by (auto simp: c_def)
  ultimately have "\<forall>k' \<in> fst ` set ?m. k' \<le> c" "c \<le> sm_current_segment_id sm" "?m \<noteq> [] \<longrightarrow> c \<in> fst ` set ?m" by blast+
  then have "sm_wf (sm\<lparr>sm_segments := ?m, sm_current_segment_id := c\<rparr>)" "c \<le> sm_current_segment_id sm"
    using assms ord sub by (auto simp: sm_wf_def)
  then show ?thesis
    using assms by (auto simp: SegmentManager_RemoveSegment_def c_def Let_def split: option.splits prod.splits bool.splits)
qed

lemma remove_segments_wf:
  assumes "sm_wf sm"
  shows "sm_wf (fst (snd (remove_segments os ids (sm, d)))) \<and> sm_current_segment_id (fst (snd (remove_segments os ids (sm, d)))) \<le> sm_current_segment_id sm"
  using assms
proof (induction ids arbitrary: sm d)
  case (Cons k ids)
  obtain r sm1 d1 where r: "SegmentManager_RemoveSegment os k (sm, d) = (r, sm1, d1)" by (cases "SegmentManager_RemoveSegment os k (sm, d)") auto
  then have "sm_wf sm1" "sm_current_segment_id sm1 \<le> sm_current_segment_id sm" using RemoveSegment_wf [OF Cons.prems, of os k d] by auto
  then show ?case using Cons.IH [of sm1 d1] r by (auto simp: io_bind_def split: sum.splits intro: order_trans)
qed simp

lemma close_segments_wf:
  assumes "sm_wf sm" "set ids \<subseteq> fst ` set (sm_segments sm)"
  shows "sm_wf (fst (snd (close_segments os ids (sm, d)))) \<and> sm_current_segment_id (fst (snd (close_segments os ids (sm, d)))) = sm_current_segment_id sm"
  using assms
proof (induction ids arbitrary: sm d)
  case (Cons k ids)
  obtain r sm1 d1 where r: "on_segment k (Segment_Close os) (sm, d) = (r, sm1, d1)" by (cases "on_segment k (Segment_Close os) (sm, d)") auto
  have "map_of (sm_segments sm) k \<noteq> None" using Cons.prems(2) by (simp add: map_of_eq_None_iff)
  then have w: "sm_wf sm1" "sm_current_segment_id sm1 = sm_current_segment_id sm"
    using on_segment_wf [OF Cons.prems(1) _ segment_keeps_id(3), of k os d] r by auto
  obtain s' where "sm_segments sm1 = AList.update k s' (sm_segments sm)" using r by (auto simp: on_segment_def split: prod.splits)
  then have "map fst (sm_segments sm1) = map fst (sm_segments sm)" using Cons.prems(2) by (simp add: update_present)
  then have "fst ` set (sm_segments sm1) = fst ` set (sm_segments sm)" by (metis list.set_map)
  then show ?case using Cons.IH [of sm1 d1] Cons.prems(2) r w by (auto simp: io_bind_def split: sum.splits)
qed simp

lemma sm_do_wf:
  assumes "sm_wf sm" "unat (sm_current_segment_id sm) + 1 < 2 ^ 64"
  shows "sm_wf (fst (sm_do os oper (sm, d))) \<and> unat (sm_current_segment_id (fst (sm_do os oper (sm, d)))) \<le> unat (sm_current_segment_id sm) + 1"
proof (cases oper)
  case (RollSegment cfg i)
  then show ?thesis using Roll_wf [OF assms] by (simp add: sm_do_def)
next
  case (CurrentSegment cfg i)
  then show ?thesis using Roll_wf [OF assms] assms(1) by (auto simp: sm_do_def SegmentManager_GetCurrentSegment_def split: option.splits)
next
  case (AppendTo k data)
  then show ?thesis using assms(1) on_segment_wf [OF assms(1) _ segment_keeps_id(1), of k os data d] by (auto simp: sm_do_def)
next
  case (TruncateTo k off)
  then show ?thesis using assms(1) on_segment_wf [OF assms(1) _ segment_keeps_id(2), of k os off d] by (auto simp: sm_do_def)
next
  case (RemoveOne k)
  then show ?thesis using RemoveSegment_wf [OF assms(1), of os k d] by (simp add: sm_do_def word_le_nat_alt)
next
  case (RemoveBefore k)
  then show ?thesis using remove_segments_wf [OF assms(1), of os] by (auto simp: sm_do_def word_le_nat_alt SegmentManager_RemoveSegmentsBefore_def intro: le_SucI)
next
  case RemoveEvery
  then show ?thesis using remove_segments_wf [OF assms(1), of os] by (auto simp: sm_do_def word_le_nat_alt SegmentManager_RemoveAllSegments_def intro: le_SucI)
next
  case SyncEvery
  then show ?thesis using assms(1) by (simp add: sm_do_def SegmentManager_SyncAll_def split: prod.splits)
next
  case CloseEvery
  obtain r sm1 d1 where r: "close_segments os (map fst (sm_segments sm)) (sm, d) = (r, sm1, d1)" by (cases "close_segments os (map fst (sm_segments sm)) (sm, d)") auto
  then have "sm_wf sm1" "sm_current_segment_id sm1 = sm_current_segment_id sm"
    using close_segments_wf [OF assms(1), of "map fst (sm_segments sm)" os d] by auto
  moreover have "sm_wf (sm1\<lparr>sm_segments := []\<rparr>)" by (simp add: sm_wf_def)
  ultimately show ?thesis using CloseEvery r by (auto simp: sm_do_def SegmentManager_CloseAll_def io_bind_def split: sum.splits)
qed

lemma sm_run_wf:
  assumes "sm_wf (fst s)" "unat (sm_current_segment_id (fst s)) + length ops < 2 ^ 64"
  shows "sm_wf (fst (fold (sm_do os) ops s))"
  using assms
proof (induction ops arbitrary: s)
  case (Cons oper ops)
  obtain sm d where s: "s = (sm, d)" by (cases s)
  have "sm_wf (fst (sm_do os oper s))" "unat (sm_current_segment_id (fst (sm_do os oper s))) \<le> unat (sm_current_segment_id sm) + 1"
    using sm_do_wf [of sm os oper d] Cons.prems s by auto
  then show ?case using Cons.IH [of "sm_do os oper s"] Cons.prems s by auto
qed simp

lemma GetCurrent_found:
  assumes "sm_wf sm" "SegmentManager_GetCurrentSegment os cfg i (sm, d) = (Inl e, s')"
  shows "sm_segments sm = [] \<and> (\<exists>t. e = StorageErrorOther t)"
proof -
  have err: "\<exists>t. e = StorageErrorOther t" if "Segment_Create os path k i p n d0 = (Inl e, d1)" for path k p n d0 d1
    using that by (auto simp: Segment_Create_def Let_def split: prod.splits bool.splits if_splits)
  have "map_of (sm_segments sm) (sm_current_segment_id sm) \<noteq> None" if "sm_segments sm \<noteq> []"
    using assms(1) that by (auto simp: sm_wf_def map_of_eq_None_iff)
  then show ?thesis using assms(2) err
    by (auto simp: SegmentManager_GetCurrentSegment_def SegmentManager_RollToNewSegment_def Let_def
        split: if_splits option.splits prod.splits sum.splits)
qed

text \<open>
  C17. Whatever the operating system answers to any call, the segments found at start and every sequence of operations
  keep the segment map well typed: ordered, every segment under its own id, no id above the current one. The current
  segment is therefore always found: asking for it fails only when the first segment of an empty log cannot be created.
\<close>

theorem segment_manager_type:
  assumes "SegmentManager_Initialize os (SegmentManager_new, d) = (r, sm, d1)"
    "unat (sm_current_segment_id sm) + length ops < 2 ^ 64" "fold (sm_do os) ops (sm, d1) = (sm', d2)"
  shows "sm_wf sm' \<and> (case SegmentManager_GetCurrentSegment os cfg i (sm', d2) of
      (Inl e, _) \<Rightarrow> sm_segments sm' = [] \<and> (\<exists>t. e = StorageErrorOther t)
    | (Inr k, sm'', _) \<Rightarrow> map_of (sm_segments sm'') k \<noteq> None)"
proof -
  have wf: "sm_wf sm'" using sm_run_wf [of "(sm, d1)" ops os] Initialize_wf [OF assms(1)] assms(2,3) by simp
  have "map_of (sm_segments sm'') k \<noteq> None" if "SegmentManager_GetCurrentSegment os cfg i (sm', d2) = (Inr k, sm'', d3)" for k sm'' d3
    using that by (auto simp: SegmentManager_GetCurrentSegment_def SegmentManager_RollToNewSegment_def Let_def map_of_omap_put
        split: if_splits option.splits prod.splits sum.splits)
  then show ?thesis using wf GetCurrent_found [OF wf] by (auto split: prod.splits sum.splits)
qed

definition ex_sm_os :: os where
  "ex_sm_os n = (if n = 7 then Failed else Done)"

definition ex_sm_ops :: "sm_op list" where
  "ex_sm_ops = [CurrentSegment DefaultWALConfig 1, RollSegment DefaultWALConfig 5, RemoveOne 2, CloseEvery]"

theorem segment_manager_type_witness:
  "let s = snd (SegmentManager_Initialize ex_sm_os (SegmentManager_new, \<lparr>d_dir = True, d_files = [], d_clock = 0\<rparr>));
       (sm', d') = fold (sm_do ex_sm_os) ex_sm_ops s
   in sm_wf sm'"
proof -
  let ?d = "\<lparr>d_dir = True, d_files = [], d_clock = 0\<rparr>"
  have i: "SegmentManager_Initialize ex_sm_os (SegmentManager_new, ?d) = (Inr (), SegmentManager_new, ?d\<lparr>d_clock := 1\<rparr>)"
    by (simp add: SegmentManager_Initialize_def sys_call_def sys_outcome_def ex_sm_os_def)
  obtain sm' d' where f: "fold (sm_do ex_sm_os) ex_sm_ops (SegmentManager_new, ?d\<lparr>d_clock := 1\<rparr>) = (sm', d')" by (cases "fold (sm_do ex_sm_os) ex_sm_ops (SegmentManager_new, ?d\<lparr>d_clock := 1\<rparr>)")
  have "unat (sm_current_segment_id SegmentManager_new) + length ex_sm_ops < 2 ^ 64" by (simp add: SegmentManager_new_def ex_sm_ops_def)
  then show ?thesis using segment_manager_type [OF i _ f] i f by simp
qed

end
