(* ===== verification/WalIndex.thy ===== *)
theory WalIndex
  imports Raft_Prelude
begin

text \<open>
  The in-memory index of the write-ahead log (\<open>lib/raftor/wal/wal_index.cc\<close>): where the record of each
  log index lies. The contract that the log relies on is the locale \<open>dense_index\<close>, a run of consecutive
  indices that grows at its end and is cut at either side.
\<close>

section \<open>Model\<close>

record IndexEntry =
  ie_segment_id :: u64
  ie_offset :: u64
  ie_length :: u32
  ie_term :: u64

record WALIndex =
  wi_first_index :: u64
  wi_entries :: "IndexEntry list"

definition WALIndex_new :: WALIndex where
  "WALIndex_new = \<lparr>wi_first_index = 1, wi_entries = []\<rparr>"

definition WALIndex_empty :: "WALIndex \<Rightarrow> bool" where
  "WALIndex_empty ix \<longleftrightarrow> wi_entries ix = []"

definition WALIndex_last_index :: "WALIndex \<Rightarrow> u64" where
  "WALIndex_last_index ix =
     (if wi_entries ix = [] then wi_first_index ix - 1
      else wi_first_index ix + of_nat (length (wi_entries ix)) - 1)"

definition WALIndex_Insert :: "u64 \<Rightarrow> IndexEntry \<Rightarrow> WALIndex \<Rightarrow> WALIndex" where
  "WALIndex_Insert index e ix =
     (let ix = (if wi_entries ix = [] then ix\<lparr>wi_first_index := index\<rparr> else ix);
          expected_index = wi_first_index ix + of_nat (length (wi_entries ix))
      in if index \<noteq> expected_index \<and> (index < wi_first_index ix \<or> expected_index < index) then ix
         else ix\<lparr>wi_entries := wi_entries ix @ [e]\<rparr>)"

text \<open>\<open>entries_[index - first_index_]\<close>, guarded by the range test before it.\<close>

definition WALIndex_Lookup :: "u64 \<Rightarrow> WALIndex \<Rightarrow> IndexEntry option" where
  "WALIndex_Lookup index ix =
     (if wi_entries ix = [] \<or> index < wi_first_index ix \<or> WALIndex_last_index ix < index then None
      else vec_get (wi_entries ix) (unat (index - wi_first_index ix)))"

definition WALIndex_Term :: "u64 \<Rightarrow> WALIndex \<Rightarrow> u64 option" where
  "WALIndex_Term index ix = map_option ie_term (WALIndex_Lookup index ix)"

definition WALIndex_TruncateFrom :: "u64 \<Rightarrow> WALIndex \<Rightarrow> WALIndex" where
  "WALIndex_TruncateFrom index ix =
     (if wi_entries ix = [] \<or> WALIndex_last_index ix < index then ix
      else if index \<le> wi_first_index ix then ix\<lparr>wi_entries := []\<rparr>
      else ix\<lparr>wi_entries := take (unat (index - wi_first_index ix)) (wi_entries ix)\<rparr>)"

definition WALIndex_TruncateBefore :: "u64 \<Rightarrow> WALIndex \<Rightarrow> WALIndex" where
  "WALIndex_TruncateBefore index ix =
     (if wi_entries ix = [] \<or> index \<le> wi_first_index ix then ix
      else if WALIndex_last_index ix + 1 < index then ix\<lparr>wi_entries := [], wi_first_index := index\<rparr>
      else ix\<lparr>wi_entries := drop (unat (index - wi_first_index ix)) (wi_entries ix), wi_first_index := index\<rparr>)"

definition WALIndex_Clear :: "WALIndex \<Rightarrow> WALIndex" where
  "WALIndex_Clear ix = ix\<lparr>wi_entries := [], wi_first_index := 1\<rparr>"

definition WALIndex_SetFirstIndex :: "u64 \<Rightarrow> WALIndex \<Rightarrow> WALIndex" where
  "WALIndex_SetFirstIndex i ix = ix\<lparr>wi_first_index := i\<rparr>"

section \<open>Contract\<close>

lemma nth_take_append:
  fixes l i j :: nat
  assumes "l \<le> j" "l \<le> i" "i \<le> l + length xs"
  shows "(take (i - l) xs @ ys) ! (j - l) = (if j < i then xs ! (j - l) else ys ! (j - i))"
  using assms by (auto simp: nth_append)

text \<open>
  An index of consecutive positions: \<open>lo\<close> is the first of them and \<open>items\<close> what it stores, in order.
\<close>

locale dense_index =
  fixes lo :: "'i \<Rightarrow> u64" and items :: "'i \<Rightarrow> 'e list"
    and insert_at :: "u64 \<Rightarrow> 'e \<Rightarrow> 'i \<Rightarrow> 'i" and lookup :: "u64 \<Rightarrow> 'i \<Rightarrow> 'e option"
    and cut_from :: "u64 \<Rightarrow> 'i \<Rightarrow> 'i" and cut_before :: "u64 \<Rightarrow> 'i \<Rightarrow> 'i"
  assumes insert_next: "unat (lo ix) + length (items ix) < 2 ^ 64 \<Longrightarrow> unat i = unat (lo ix) + length (items ix) \<Longrightarrow>
      lo (insert_at i e ix) = lo ix \<and> items (insert_at i e ix) = items ix @ [e]"
    and lookup_items: "0 < unat (lo ix) \<Longrightarrow> unat (lo ix) + length (items ix) < 2 ^ 64 \<Longrightarrow>
      lookup i ix = (if unat (lo ix) \<le> unat i \<and> unat i < unat (lo ix) + length (items ix)
        then Some (items ix ! (unat i - unat (lo ix))) else None)"
    and cut_from_items: "0 < unat (lo ix) \<Longrightarrow> unat (lo ix) + length (items ix) < 2 ^ 64 \<Longrightarrow>
      lo (cut_from i ix) = lo ix \<and> items (cut_from i ix) = take (unat i - unat (lo ix)) (items ix)"
    and cut_before_items: "0 < unat (lo ix) \<Longrightarrow> unat (lo ix) + length (items ix) < 2 ^ 64 \<Longrightarrow> items ix \<noteq> [] \<Longrightarrow>
      unat i \<le> unat (lo ix) + length (items ix) \<Longrightarrow>
      unat (lo (cut_before i ix)) = max (unat (lo ix)) (unat i) \<and>
      items (cut_before i ix) = drop (unat i - unat (lo ix)) (items ix)"
begin

definition ok :: "'i \<Rightarrow> bool" where
  "ok ix \<longleftrightarrow> 0 < unat (lo ix) \<and> unat (lo ix) + length (items ix) < 2 ^ 64"

text \<open>A run of insertions at the end.\<close>

primrec insert_run :: "u64 \<Rightarrow> 'e list \<Rightarrow> 'i \<Rightarrow> 'i" where
  "insert_run i [] ix = ix"
| "insert_run i (e # es) ix = insert_run (i + 1) es (insert_at i e ix)"

lemma insert_run_items:
  assumes "unat (lo ix) + length (items ix) + length es < 2 ^ 64" "unat i = unat (lo ix) + length (items ix)"
  shows "lo (insert_run i es ix) = lo ix \<and> items (insert_run i es ix) = items ix @ es"
  using assms
proof (induction es arbitrary: i ix)
  case (Cons e es)
  have step: "lo (insert_at i e ix) = lo ix" "items (insert_at i e ix) = items ix @ [e]"
    using insert_next [of ix i e] Cons.prems by simp_all
  have "unat (i + 1) = Suc (unat i)" using Cons.prems by (intro unat_Suc_bound_u64) simp
  then show ?case using Cons.IH [of "insert_at i e ix" "i + 1"] Cons.prems step by simp
qed simp

text \<open>Inserting over a cut: the positions before the cut keep their entries, the others are the new ones.\<close>

lemma lookup_replace:
  assumes "ok ix" "unat (lo ix) \<le> unat i" "unat i \<le> unat (lo ix) + length (items ix)" "unat i + length es < 2 ^ 64"
  shows "lookup j (insert_run i es (cut_from i ix)) =
    (if unat j < unat i then lookup j ix
     else if unat j < unat i + length es then Some (es ! (unat j - unat i)) else None)"
proof -
  let ?c = "cut_from i ix" let ?r = "insert_run i es ?c"
  have c: "lo ?c = lo ix" "items ?c = take (unat i - unat (lo ix)) (items ix)"
    using cut_from_items [of ix i] assms(1) by (auto simp: ok_def)
  have len: "unat (lo ?c) + length (items ?c) = unat i" using assms(2,3) c by simp
  have r: "lo ?r = lo ix" "items ?r = take (unat i - unat (lo ix)) (items ix) @ es"
    using insert_run_items [OF _ len [symmetric], of es, unfolded len, OF assms(4)] unfolding c by blast+
  have len': "length (items ?r) = unat i - unat (lo ix) + length es" using r(2) assms(3) by simp
  have "lookup j ?r = (if unat (lo ?r) \<le> unat j \<and> unat j < unat (lo ?r) + length (items ?r)
      then Some (items ?r ! (unat j - unat (lo ?r))) else None)"
  proof (rule lookup_items)
    show "0 < unat (lo ?r)" using r(1) assms(1) by (simp add: ok_def)
    show "unat (lo ?r) + length (items ?r) < 2 ^ 64" unfolding len' r(1) using assms(2,4) by linarith
  qed
  moreover have "lookup j ix = (if unat (lo ix) \<le> unat j \<and> unat j < unat (lo ix) + length (items ix)
      then Some (items ix ! (unat j - unat (lo ix))) else None)"
    using assms(1) by (intro lookup_items) (auto simp: ok_def)
  moreover have "items ?r ! (unat j - unat (lo ix)) =
      (if unat j < unat i then items ix ! (unat j - unat (lo ix)) else es ! (unat j - unat i))" if "unat (lo ix) \<le> unat j"
    unfolding r(2) using that assms(2,3) by (rule nth_take_append)
  ultimately show ?thesis using assms(2,3) unfolding len' r(1) by (auto simp del: unat_eq_zero)
qed

end

section \<open>The index keeps its contract\<close>

lemma WALIndex_last_unat:
  assumes "0 < unat (wi_first_index ix)" "unat (wi_first_index ix) + length (wi_entries ix) < 2 ^ 64"
  shows "unat (WALIndex_last_index ix) = unat (wi_first_index ix) + length (wi_entries ix) - 1"
proof -
  have "wi_first_index ix + of_nat (length (wi_entries ix)) \<noteq> 0" if "wi_entries ix \<noteq> []"
    using unat_add_of_nat_u64 [OF assms(2)] assms(1) by (metis add_is_0 less_irrefl unat_eq_zero)
  moreover have "wi_first_index ix \<noteq> 0" using assms(1) by auto
  ultimately show ?thesis
    using unat_add_of_nat_u64 [OF assms(2)] by (simp add: WALIndex_last_index_def unat_sub_one_u64)
qed

interpretation wi: dense_index wi_first_index wi_entries WALIndex_Insert WALIndex_Lookup
    WALIndex_TruncateFrom WALIndex_TruncateBefore
proof unfold_locales
  fix ix :: WALIndex and i :: u64 and e :: IndexEntry
  assume "unat (wi_first_index ix) + length (wi_entries ix) < 2 ^ 64" "unat i = unat (wi_first_index ix) + length (wi_entries ix)"
  moreover from this have "i = wi_first_index ix + of_nat (length (wi_entries ix))"
    by (simp add: u64_eq_iff unat_add_of_nat_u64)
  ultimately show "wi_first_index (WALIndex_Insert i e ix) = wi_first_index ix \<and> wi_entries (WALIndex_Insert i e ix) = wi_entries ix @ [e]"
    by (auto simp: WALIndex_Insert_def Let_def)
next
  fix ix :: WALIndex and i :: u64
  assume ok: "0 < unat (wi_first_index ix)" "unat (wi_first_index ix) + length (wi_entries ix) < 2 ^ 64"
  note last = WALIndex_last_unat [OF ok]
  show "WALIndex_Lookup i ix = (if unat (wi_first_index ix) \<le> unat i \<and> unat i < unat (wi_first_index ix) + length (wi_entries ix)
      then Some (wi_entries ix ! (unat i - unat (wi_first_index ix))) else None)"
    using ok last by (auto simp: WALIndex_Lookup_def word_less_nat_alt word_le_nat_alt unat_sub_u64)
  show "wi_first_index (WALIndex_TruncateFrom i ix) = wi_first_index ix \<and>
      wi_entries (WALIndex_TruncateFrom i ix) = take (unat i - unat (wi_first_index ix)) (wi_entries ix)"
    using ok last by (auto simp: WALIndex_TruncateFrom_def word_less_nat_alt word_le_nat_alt unat_sub_u64)
  assume "wi_entries ix \<noteq> []" "unat i \<le> unat (wi_first_index ix) + length (wi_entries ix)"
  moreover have "unat (WALIndex_last_index ix + 1) = Suc (unat (WALIndex_last_index ix))" using ok last by (intro unat_Suc_bound_u64) auto
  ultimately show "unat (wi_first_index (WALIndex_TruncateBefore i ix)) = max (unat (wi_first_index ix)) (unat i) \<and>
      wi_entries (WALIndex_TruncateBefore i ix) = drop (unat i - unat (wi_first_index ix)) (wi_entries ix)"
    using ok last by (auto simp: WALIndex_TruncateBefore_def word_less_nat_alt word_le_nat_alt unat_sub_u64)
qed

end
