(* ===== verification/Wal.thy ===== *)
theory Wal
  imports SegmentManager MetadataStore WalIndex
begin

text \<open>
  The write-ahead log (\<open>lib/raftor/wal/wal.cc\<close>): entries and hard states appended to segment files, the index of
  where they lie, recovery by replaying the segments, and the snapshot file. Every operation is a function on the
  log object and the disk, which returns the \<open>Result\<close> of the C++ method. The mutex serialises the operations and has
  no counterpart, nor has logging. The parameter \<open>X\<close> collects the operating system, the encodings and the
  configuration. The snapshot file goes through \<open>WALEnv\<close>, whose default implementation makes
  the same system calls; its loops retry a call that a signal interrupts, so they need not end, and an operation
  that runs them has an option result.
\<close>

section \<open>State\<close>

record wal_env =
  x_os :: os
  x_codec :: codec
  x_config :: WALConfig
  x_engine :: "u32 \<Rightarrow> unit result"
  x_to_string :: "raft_error \<Rightarrow> string"

record PendingEntry =
  pe_index :: u64
  pe_term :: u64
  pe_offset_in_buffer :: u32
  pe_record_length :: u32

text \<open>The buffer field is the used part of \<open>write_buffer_\<close>.\<close>

record WAL =
  w_segments :: SegmentManager
  w_index :: WALIndex
  w_hard_state :: hard_state
  w_conf_state :: conf_state
  w_peer_addresses :: "PeerAddress list"
  w_first_index :: u64
  w_snapshot_index :: u64
  w_snapshot_term :: u64
  w_buffer :: "u8 list"
  w_pending_entries :: "PendingEntry list"
  w_effective_io_backend :: WALIoBackend
  w_io_backend_note :: string

type_synonym 'a wal_op = "WAL \<times> disk \<Rightarrow> 'a result \<times> WAL \<times> disk"

definition on_segments :: "(SegmentManager \<times> disk \<Rightarrow> 'a result \<times> SegmentManager \<times> disk) \<Rightarrow> 'a wal_op" where
  "on_segments f = (\<lambda>(w, d). case f (w_segments w, d) of (r, sm, d) \<Rightarrow> (r, w\<lparr>w_segments := sm\<rparr>, d))"

definition WAL_LastIndex :: "WAL \<Rightarrow> u64" where
  "WAL_LastIndex w = (if WALIndex_empty (w_index w) then w_snapshot_index w else WALIndex_last_index (w_index w))"

definition WAL_CreateMetadata :: "WAL \<Rightarrow> WALMetadata" where
  "WAL_CreateMetadata w = \<lparr>wm_hard_state = Some (w_hard_state w), wm_conf_state = Some (w_conf_state w),
     wm_peer_addresses = w_peer_addresses w, wm_first_index = w_first_index w,
     wm_snapshot_index = w_snapshot_index w, wm_snapshot_term = w_snapshot_term w\<rparr>"

definition save_metadata :: "wal_env \<Rightarrow> WALMetadata \<Rightarrow> unit wal_op" where
  "save_metadata X meta = (\<lambda>(w, d). case MetadataStore_Save (x_os X) (x_codec X) meta d of (r, d) \<Rightarrow> (r, w, d))"

section \<open>Appending\<close>

definition entry_record :: "wal_env \<Rightarrow> entry \<Rightarrow> u8 list" where
  "entry_record X e = RecordBuilder_Build (c_crc (x_codec X))
     (RecordBuilder_SetPayload (c_entry (x_codec X) e) (RecordBuilder_SetType Record_Entry RecordBuilder_new))"

fun insert_pending :: "u64 \<Rightarrow> u64 \<Rightarrow> PendingEntry list \<Rightarrow> WALIndex \<Rightarrow> WALIndex" where
  "insert_pending sid start [] ix = ix"
| "insert_pending sid start (p # ps) ix =
     insert_pending sid start ps
       (WALIndex_Insert (pe_index p)
          \<lparr>ie_segment_id = sid, ie_offset = start + ucast (pe_offset_in_buffer p), ie_length = pe_record_length p,
           ie_term = pe_term p\<rparr> ix)"

definition WAL_FlushWriteBuffer :: "wal_env \<Rightarrow> unit wal_op" where
  "WAL_FlushWriteBuffer X = (\<lambda>(w, d).
     if w_buffer w = [] then (Inr (), w, d)
     else io_bind (on_segments (SegmentManager_GetCurrentSegment (x_os X) (x_config X) (w_first_index w)))
       (\<lambda>segment (w, d).
          let flush_start_offset = seg_write_offset (segment_at segment (w_segments w))
          in io_bind (on_segments (on_segment segment (Segment_Append (x_os X) (w_buffer w))))
               (\<lambda>_ (w, d).
                  (Inr (), w\<lparr>w_index := insert_pending segment flush_start_offset (w_pending_entries w) (w_index w),
                             w_pending_entries := [], w_buffer := []\<rparr>, d)) (w, d)) (w, d))"

definition WAL_MaybeRollSegmentForAppend :: "wal_env \<Rightarrow> u64 \<Rightarrow> u64 \<Rightarrow> u64 wal_op" where
  "WAL_MaybeRollSegmentForAppend X first_index segment = (\<lambda>(w, d).
     if \<not> Segment_IsFull (wc_segment_size (x_config X)) (segment_at segment (w_segments w)) then (Inr segment, w, d)
     else io_bind (WAL_FlushWriteBuffer X)
       (\<lambda>_. on_segments (SegmentManager_RollToNewSegment (x_os X) (x_config X) first_index)) (w, d))"

definition WAL_GetCurrentSegmentForAppend :: "wal_env \<Rightarrow> u64 \<Rightarrow> u64 wal_op" where
  "WAL_GetCurrentSegmentForAppend X first_index_hint =
     io_bind (on_segments (SegmentManager_GetCurrentSegment (x_os X) (x_config X) first_index_hint))
       (WAL_MaybeRollSegmentForAppend X first_index_hint)"

definition WAL_ShouldFlushBuffer :: "wal_env \<Rightarrow> u64 \<Rightarrow> WAL \<Rightarrow> bool" where
  "WAL_ShouldFlushBuffer X segment w =
     (if unat (wc_write_buffer_size (x_config X)) \<le> length (w_buffer w) then True
      else
        let off = seg_write_offset (segment_at segment (w_segments w));
            available = (if off < wc_segment_size (x_config X) then wc_segment_size (x_config X) - off else 0)
        in unat available \<le> length (w_buffer w))"

definition WAL_FlushWriteBufferIfNeeded :: "wal_env \<Rightarrow> unit wal_op" where
  "WAL_FlushWriteBufferIfNeeded X = (\<lambda>(w, d).
     io_bind (on_segments (SegmentManager_GetCurrentSegment (x_os X) (x_config X) (w_first_index w)))
       (\<lambda>segment (w, d). if WAL_ShouldFlushBuffer X segment w then WAL_FlushWriteBuffer X (w, d) else (Inr (), w, d)) (w, d))"

text \<open>The record that does not fit into the write buffer goes to the segment directly.\<close>

definition append_direct :: "wal_env \<Rightarrow> entry \<Rightarrow> u64 wal_op" where
  "append_direct X e =
     io_bind (WAL_FlushWriteBuffer X) (\<lambda>_.
     io_bind (WAL_GetCurrentSegmentForAppend X (e_index e)) (\<lambda>segment (w, d).
       let record_offset = seg_write_offset (segment_at segment (w_segments w)); rec = entry_record X e
       in io_bind (on_segments (on_segment segment (Segment_Append (x_os X) rec))) (\<lambda>_ (w, d).
            (Inr segment, w\<lparr>w_index := WALIndex_Insert (e_index e)
               \<lparr>ie_segment_id = segment, ie_offset = record_offset, ie_length = of_nat (length rec), ie_term = e_term e\<rparr>
               (w_index w)\<rparr>, d)) (w, d)))"

definition buffer_record :: "wal_env \<Rightarrow> entry \<Rightarrow> WAL \<Rightarrow> WAL" where
  "buffer_record X e w =
     (let rec = entry_record X e
      in w\<lparr>w_buffer := w_buffer w @ rec,
           w_pending_entries := w_pending_entries w @
             [\<lparr>pe_index = e_index e, pe_term = e_term e, pe_offset_in_buffer = of_nat (length (w_buffer w)),
               pe_record_length = of_nat (length rec)\<rparr>]\<rparr>)"

definition append_buffered :: "wal_env \<Rightarrow> entry \<Rightarrow> unit wal_op" where
  "append_buffered X e = (\<lambda>(w, d).
     io_bind (if length (w_buffer w) + length (entry_record X e) > unat (wc_write_buffer_size (x_config X))
              then WAL_FlushWriteBuffer X else io_return ())
       (\<lambda>_ (w, d). WAL_FlushWriteBufferIfNeeded X (buffer_record X e w, d)) (w, d))"

fun append_entries :: "wal_env \<Rightarrow> entry list \<Rightarrow> u64 \<Rightarrow> unit wal_op" where
  "append_entries X [] segment s = (Inr (), s)"
| "append_entries X (e # es) segment s =
     io_bind (WAL_MaybeRollSegmentForAppend X (e_index e) segment) (\<lambda>segment.
       if length (entry_record X e) > unat (wc_write_buffer_size (x_config X))
       then io_bind (append_direct X e) (\<lambda>segment. append_entries X es segment)
       else io_bind (append_buffered X e) (\<lambda>_. append_entries X es segment)) s"

fun remove_later :: "wal_env \<Rightarrow> u64 \<Rightarrow> SegmentInfo list \<Rightarrow> unit wal_op" where
  "remove_later X segment [] s = (Inr (), s)"
| "remove_later X segment (info # infos) s =
     (if si_segment_id info \<le> segment then remove_later X segment infos s
      else io_bind (on_segments (SegmentManager_RemoveSegment (x_os X) (si_segment_id info)))
        (\<lambda>_. remove_later X segment infos) s)"

definition sync_segment :: "wal_env \<Rightarrow> u64 \<Rightarrow> unit wal_op" where
  "sync_segment X segment = (\<lambda>(w, d).
     case Segment_Sync (x_os X) (segment_at segment (w_segments w)) d of (r, d) \<Rightarrow> (r, w, d))"

definition WAL_TruncateSuffixFrom :: "wal_env \<Rightarrow> u64 \<Rightarrow> unit wal_op" where
  "WAL_TruncateSuffixFrom X index = (\<lambda>(w, d).
     case WALIndex_Lookup index (w_index w) of
       None \<Rightarrow> (Inl (FatalError (Fmt ''cannot truncate WAL suffix at missing index {}'' [index])), w, d)
     | Some entry_info \<Rightarrow>
         (case SegmentManager_GetSegmentForIndex index (w_segments w) of
            None \<Rightarrow> (Inl (FatalError (Fmt ''cannot truncate WAL suffix at index {}: segment not found'' [index])), w, d)
          | Some segment \<Rightarrow>
              if seg_segment_id (segment_at segment (w_segments w)) \<noteq> ie_segment_id entry_info
              then (Inl (FatalError (Fmt ''cannot truncate WAL suffix at index {}: segment not found'' [index])), w, d)
              else
                io_bind (on_segments (on_segment segment (Segment_Truncate (x_os X) (ie_offset entry_info)))) (\<lambda>_.
                io_bind (sync_segment X segment) (\<lambda>_ (w, d).
                io_bind (remove_later X (seg_segment_id (segment_at segment (w_segments w)))
                           (SegmentManager_ListSegments (w_segments w))) (\<lambda>_ (w, d).
                  (Inr (), w\<lparr>w_index := WALIndex_TruncateFrom index (w_index w)\<rparr>, d)) (w, d))) (w, d)))"

definition sync_if_configured :: "wal_env \<Rightarrow> unit wal_op" where
  "sync_if_configured X =
     (if wc_sync_on_write (x_config X) then on_segments (SegmentManager_SyncAll (x_os X)) else io_return ())"

definition WAL_Append :: "wal_env \<Rightarrow> entry list \<Rightarrow> unit wal_op" where
  "WAL_Append X entries = (\<lambda>(w, d).
     if entries = [] then (Inr (), w, d)
     else
       let expected_index = WAL_LastIndex w + 1; first = e_index (hd entries)
       in io_bind
            (if first = expected_index then io_return ()
             else if first < expected_index \<and> first \<ge> w_first_index w then WAL_TruncateSuffixFrom X first
             else io_fail (FatalError (Fmt ''non-continuous entries: expected {}, got {}'' [expected_index, first])))
            (\<lambda>_. io_bind (WAL_GetCurrentSegmentForAppend X first)
            (\<lambda>segment. io_bind (append_entries X entries segment)
            (\<lambda>_. io_bind (WAL_FlushWriteBuffer X)
            (\<lambda>_. sync_if_configured X)))) (w, d))"

section \<open>State records and metadata\<close>

definition hard_state_record :: "wal_env \<Rightarrow> hard_state \<Rightarrow> u8 list" where
  "hard_state_record X hs = RecordBuilder_Build (c_crc (x_codec X))
     (RecordBuilder_SetPayload (c_hard_state (x_codec X) hs) (RecordBuilder_SetType Record_HardState RecordBuilder_new))"

definition WAL_SaveHardState :: "wal_env \<Rightarrow> hard_state \<Rightarrow> unit wal_op" where
  "WAL_SaveHardState X hs = (\<lambda>(w, d).
     io_bind (WAL_FlushWriteBuffer X) (\<lambda>_ (w, d).
     io_bind (WAL_GetCurrentSegmentForAppend X (w_first_index w)) (\<lambda>segment.
     io_bind (on_segments (on_segment segment (Segment_Append (x_os X) (hard_state_record X hs)))) (\<lambda>_ (w, d).
     io_bind (save_metadata X (WAL_CreateMetadata w)) (\<lambda>_.
     sync_if_configured X) (w, d))) (w, d)) (w\<lparr>w_hard_state := hs\<rparr>, d))"

definition WAL_SaveConfState :: "wal_env \<Rightarrow> conf_state \<Rightarrow> unit wal_op" where
  "WAL_SaveConfState X cs = (\<lambda>(w, d).
     let w = w\<lparr>w_conf_state := cs\<rparr> in save_metadata X (WAL_CreateMetadata w) (w, d))"

definition WAL_SavePeerAddresses :: "wal_env \<Rightarrow> PeerAddress list \<Rightarrow> unit wal_op" where
  "WAL_SavePeerAddresses X peers = (\<lambda>(w, d).
     let w = w\<lparr>w_peer_addresses := peers\<rparr> in save_metadata X (WAL_CreateMetadata w) (w, d))"

fun upsert_peer :: "u64 \<Rightarrow> bytes \<Rightarrow> PeerAddress list \<Rightarrow> PeerAddress list" where
  "upsert_peer i addr [] = [\<lparr>pa_id = i, pa_addr = addr\<rparr>]"
| "upsert_peer i addr (p # ps) = (if pa_id p = i then p\<lparr>pa_addr := addr\<rparr> # ps else p # upsert_peer i addr ps)"

definition WAL_UpsertPeerAddress :: "wal_env \<Rightarrow> u64 \<Rightarrow> bytes \<Rightarrow> unit wal_op" where
  "WAL_UpsertPeerAddress X i addr = (\<lambda>(w, d).
     let w = w\<lparr>w_peer_addresses := upsert_peer i addr (w_peer_addresses w)\<rparr>
     in save_metadata X (WAL_CreateMetadata w) (w, d))"

definition WAL_RemovePeerAddress :: "wal_env \<Rightarrow> u64 \<Rightarrow> unit wal_op" where
  "WAL_RemovePeerAddress X i = (\<lambda>(w, d).
     let w = w\<lparr>w_peer_addresses := filter (\<lambda>p. pa_id p \<noteq> i) (w_peer_addresses w)\<rparr>
     in save_metadata X (WAL_CreateMetadata w) (w, d))"

section \<open>Reading\<close>

definition read_entry :: "wal_env \<Rightarrow> u64 \<Rightarrow> WAL \<Rightarrow> disk \<Rightarrow> (entry \<times> u64) result \<times> disk" where
  "read_entry X idx w d =
     (case WALIndex_Lookup idx (w_index w) of
        None \<Rightarrow> (Inl (StorageError Unavailable), d)
      | Some entry_info \<Rightarrow>
          (case SegmentManager_GetSegmentForIndex idx (w_segments w) of
             None \<Rightarrow> (Inl (StorageError Unavailable), d)
           | Some segment \<Rightarrow>
               io_bind (Segment_Read (x_os X) (ie_offset entry_info) (ie_length entry_info) (segment_at segment (w_segments w)))
                 (\<lambda>record_data.
                    let parser = RecordParser_new (c_crc (x_codec X)) record_data
                    in if \<not> rp_valid parser then io_fail (StorageError CorruptEntryRecord)
                       else case from_words (c_entry_of (x_codec X)) (rp_payload parser) of
                              None \<Rightarrow> io_fail (StorageError EntryParseError)
                            | Some e \<Rightarrow> io_return (e, of_nat (length (rp_payload parser)))) d))"

fun read_loop :: "wal_env \<Rightarrow> nat \<Rightarrow> u64 \<Rightarrow> u64 option \<Rightarrow> u64 \<Rightarrow> entry list \<Rightarrow> WAL \<Rightarrow> disk \<Rightarrow> entry list result \<times> disk" where
  "read_loop X 0 idx max_size total_size result w d = (Inr result, d)"
| "read_loop X (Suc n) idx max_size total_size result w d =
     io_bind (read_entry X idx w)
       (\<lambda>(e, entry_size).
          let result = result @ [e]; total_size = total_size + entry_size
          in if (case max_size of None \<Rightarrow> False | Some m \<Rightarrow> m \<le> total_size) then io_return result
             else read_loop X n (idx + 1) max_size total_size result w) d"

definition WAL_ReadEntries :: "wal_env \<Rightarrow> u64 \<Rightarrow> u64 \<Rightarrow> u64 option \<Rightarrow> WAL \<Rightarrow> disk \<Rightarrow> entry list result \<times> disk" where
  "WAL_ReadEntries X low high max_size w d =
     (if low < w_first_index w then (Inl (StorageError Compacted), d)
      else
        let last_idx = WAL_LastIndex w
        in if low > last_idx + 1 then (Inl (StorageError Unavailable), d)
           else
             let high = (if high > last_idx + 1 then last_idx + 1 else high)
             in if low \<ge> high then (Inr [], d)
                else read_loop X (unat (high - low)) low max_size 0 [] w d)"

definition WAL_Term :: "u64 \<Rightarrow> WAL \<Rightarrow> u64 result" where
  "WAL_Term index w =
     (if index = w_snapshot_index w \<and> w_snapshot_index w > 0 then Inr (w_snapshot_term w)
      else if index < w_first_index w then Inl (StorageError Compacted)
      else case WALIndex_Term index (w_index w) of
             None \<Rightarrow> Inl (StorageError Unavailable)
           | Some t \<Rightarrow> Inr t)"

definition WAL_LogSizeBytes :: "WAL \<times> disk \<Rightarrow> u64" where
  "WAL_LogSizeBytes = (\<lambda>(w, d). SegmentManager_TotalSizeBytes (w_segments w) + MetadataStore_SizeBytes d)"

section \<open>Compaction\<close>

text \<open>Does the index still point into a segment, for any index from \<open>first\<close> to \<open>last_idx\<close>?\<close>

definition has_entries :: "u64 \<Rightarrow> u64 \<Rightarrow> u64 \<Rightarrow> WALIndex \<Rightarrow> bool" where
  "has_entries first last_idx seg_id ix \<longleftrightarrow>
     list_ex (\<lambda>k. case WALIndex_Lookup (first + of_nat k) ix of
                    None \<Rightarrow> False | Some info \<Rightarrow> ie_segment_id info = seg_id)
       [0..<Suc (unat last_idx) - unat first]"

text \<open>Removal of segments where a failure is only logged.\<close>

fun remove_logged :: "wal_env \<Rightarrow> u64 list \<Rightarrow> WAL \<times> disk \<Rightarrow> WAL \<times> disk" where
  "remove_logged X [] s = s"
| "remove_logged X (sid # ids) s =
     remove_logged X ids (snd (on_segments (SegmentManager_RemoveSegment (x_os X) sid) s))"

definition WAL_Compact :: "wal_env \<Rightarrow> u64 \<Rightarrow> unit wal_op" where
  "WAL_Compact X compact_index = (\<lambda>(w, d).
     if compact_index \<le> w_first_index w then (Inr (), w, d)
     else
       let last_idx = WAL_LastIndex w
       in if compact_index > last_idx
          then (Inl (FatalError (Fmt ''compact index {} > last index {}'' [compact_index, last_idx])), w, d)
          else
            let w = w\<lparr>w_first_index := compact_index, w_index := WALIndex_TruncateBefore compact_index (w_index w)\<rparr>;
                segments_to_remove = map fst (filter (\<lambda>(seg_id, s). seg_first_index s < compact_index \<and>
                  \<not> has_entries (w_first_index w) last_idx seg_id (w_index w)) (sm_segments (w_segments w)))
            in io_bind (save_metadata X (WAL_CreateMetadata w)) (\<lambda>_ s. (Inr (), remove_logged X segments_to_remove s)) (w, d))"

section \<open>The snapshot file\<close>

definition snapshot_path :: string where
  "snapshot_path = ''snapshot''"

definition snapshot_tmp_path :: string where
  "snapshot_tmp_path = ''snapshot.tmp''"

definition SyncDirectory :: "os \<Rightarrow> disk \<Rightarrow> unit result \<times> disk" where
  "SyncDirectory os d =
     (case sys_call os id d of
        (False, d) \<Rightarrow> (Inl (StorageErrorOther (Fmt ''failed to open snapshot directory for sync: {}'' [])), d)
      | (True, d) \<Rightarrow>
          (case sys_call os id d of
             (False, d) \<Rightarrow> (Inl (StorageErrorOther (Fmt ''failed to sync snapshot directory: {}'' [])), d)
           | (True, d) \<Rightarrow> (Inr (), d)))"

text \<open>The number of bytes that a transfer of \<open>n\<close> bytes moves.\<close>

definition transferred :: "outcome \<Rightarrow> nat \<Rightarrow> nat" where
  "transferred out n = (case out of Partial k \<Rightarrow> min k n | _ \<Rightarrow> n)"

partial_function (option) WriteAll :: "os \<Rightarrow> string \<Rightarrow> u8 list \<Rightarrow> nat \<Rightarrow> disk \<Rightarrow> (unit result \<times> disk) option" where
  "WriteAll os name data written d =
     (if written < length data then
        let out = fst (sys_outcome os d); d = snd (sys_outcome os d)
        in if out = Interrupted then WriteAll os name data written d
           else if out = Failed then Some (Inl (StorageErrorOther (Fmt ''failed to write snapshot: {}'' [])), d)
           else
             let n = transferred out (length data - written)
             in if n = 0 then Some (Inl (StorageErrorOther (Fmt ''failed to write snapshot: zero-byte write'' [])), d)
                else WriteAll os name data (written + n)
                       (set_file name (put_at written (subspan written n data) (file_of d name)) d)
      else Some (Inr (), d))"

partial_function (option) read_all :: "os \<Rightarrow> string \<Rightarrow> nat \<Rightarrow> u8 list \<Rightarrow> disk \<Rightarrow> (u8 list result \<times> disk) option" where
  "read_all os name nbytes data d =
     (if length data < nbytes then
        let out = fst (sys_outcome os d); d = snd (sys_outcome os d)
        in if out = Interrupted then read_all os name nbytes data d
           else if out = Failed then Some (Inl (StorageErrorOther (Fmt ''failed to read snapshot: {}'' [])), d)
           else
             let got = subspan (length data) (transferred out (nbytes - length data)) (file_of d name)
             in if got = [] then Some (Inl (StorageErrorOther (Fmt ''failed to read snapshot: unexpected EOF'' [])), d)
                else read_all os name nbytes (data @ got) d
      else Some (Inr data, d))"

definition ReadFile :: "os \<Rightarrow> string \<Rightarrow> disk \<Rightarrow> (u8 list result \<times> disk) option" where
  "ReadFile os name d =
     (case (if file_exists d name then sys_call os id d else (False, snd (sys_outcome os d))) of
        (False, d) \<Rightarrow> Some (Inl (StorageErrorOther (Fmt ''failed to open snapshot: {}'' [])), d)
      | (True, d) \<Rightarrow>
          (case sys_call os id d of
             (False, d) \<Rightarrow> Some (Inl (StorageErrorOther (Fmt ''failed to get snapshot size: {}'' [])), d)
           | (True, d) \<Rightarrow>
               let size = length (file_of d name)
               in if int size > 2 ^ 32 - 1
                  then Some (Inl (StorageErrorOther (Fmt ''failed to read snapshot: file size exceeds maximum limit'' [])), d)
                  else case sys_call os id d of
                         (False, d) \<Rightarrow> Some (Inl (StorageErrorOther (Fmt ''failed to rewind snapshot: {}'' [])), d)
                       | (True, d) \<Rightarrow> read_all os name size [] d))"

definition cleanup_tmp :: "os \<Rightarrow> disk \<Rightarrow> disk" where
  "cleanup_tmp os d = snd (sys_call os (remove_file snapshot_tmp_path) d)"

definition PersistSnapshotFile :: "os \<Rightarrow> codec \<Rightarrow> snapshot \<Rightarrow> disk \<Rightarrow> (unit result \<times> disk) option" where
  "PersistSnapshotFile os C snap d =
     (case sys_call os (\<lambda>d. d\<lparr>d_dir := True\<rparr>) d of
        (False, d) \<Rightarrow> Some (Inl (StorageErrorOther (Fmt ''failed to create snapshot directory: {}'' [])), d)
      | (True, d) \<Rightarrow>
          (case sys_call os (set_file snapshot_tmp_path []) d of
             (False, d) \<Rightarrow> Some (Inl (StorageErrorOther (Fmt ''failed to create snapshot temp file: {}'' [])), d)
           | (True, d) \<Rightarrow> do {
               (r, d) \<leftarrow> WriteAll os snapshot_tmp_path (c_snapshot C snap) 0 d;
               case r of
                 Inl e \<Rightarrow> Some (Inl e, cleanup_tmp os d)
               | Inr _ \<Rightarrow>
                   (case sys_call os id d of
                      (False, d) \<Rightarrow> Some (Inl (StorageErrorOther (Fmt ''failed to sync snapshot temp file: {}'' [])), cleanup_tmp os d)
                    | (True, d) \<Rightarrow>
                        (case sys_call os id d of
                           (False, d) \<Rightarrow> Some (Inl (StorageErrorOther (Fmt ''failed to close snapshot temp file: {}'' [])), cleanup_tmp os d)
                         | (True, d) \<Rightarrow>
                             (case sys_call os (rename_file snapshot_tmp_path snapshot_path) d of
                                (False, d) \<Rightarrow> Some (Inl (StorageErrorOther (Fmt ''failed to install snapshot file: {}'' [])), cleanup_tmp os d)
                              | (True, d) \<Rightarrow> Some (SyncDirectory os d))))
             }))"

definition WAL_LoadSnapshot :: "wal_env \<Rightarrow> WAL \<Rightarrow> disk \<Rightarrow> (snapshot result \<times> disk) option" where
  "WAL_LoadSnapshot X w d =
     (if w_snapshot_index w = 0 then Some (Inl (StorageError SnapshotTemporarilyUnavailable), d)
      else do {
        (data, d) \<leftarrow> ReadFile (x_os X) snapshot_path d;
        case data of
          Inl e \<Rightarrow> Some (Inl e, d)
        | Inr data \<Rightarrow>
            (case from_bytes (c_snapshot_of (x_codec X)) data of
               None \<Rightarrow> Some (Inl (StorageErrorOther (Fmt ''failed to parse snapshot file'' [])), d)
             | Some snap \<Rightarrow>
                 let meta = sn_metadata snap
                 in if sm_index meta \<noteq> w_snapshot_index w \<or> sm_term meta \<noteq> w_snapshot_term w
                    then Some (Inl (StorageErrorOther (Fmt ''snapshot file metadata mismatch: file=({},{}) wal=({},{})''
                           [sm_index meta, sm_term meta, w_snapshot_index w, w_snapshot_term w])), d)
                    else Some (Inr snap, d))
      })"

text \<open>The hard state after a snapshot: its term and its commit index reach at least the snapshot's.\<close>

definition raise_hard_state :: "u64 \<Rightarrow> u64 \<Rightarrow> hard_state \<Rightarrow> hard_state" where
  "raise_hard_state index trm hs =
     hs\<lparr>hs_term := max (hs_term hs) trm, hs_commit := (if hs_commit hs < index then index else hs_commit hs)\<rparr>"

definition snapshot_metadata_record :: "snapshot_metadata \<Rightarrow> WAL \<Rightarrow> WALMetadata" where
  "snapshot_metadata_record meta w =
     \<lparr>wm_hard_state = Some (raise_hard_state (sm_index meta) (sm_term meta) (w_hard_state w)),
      wm_conf_state = Some (sm_conf_state meta), wm_peer_addresses = w_peer_addresses w,
      wm_first_index = sm_index meta + 1, wm_snapshot_index = sm_index meta, wm_snapshot_term = sm_term meta\<rparr>"

definition WAL_ApplySnapshot :: "wal_env \<Rightarrow> snapshot \<Rightarrow> WAL \<times> disk \<Rightarrow> (unit result \<times> WAL \<times> disk) option" where
  "WAL_ApplySnapshot X snap = (\<lambda>(w, d).
     let meta = sn_metadata snap
     in if sm_index meta \<le> w_snapshot_index w then Some (Inl (StorageError SnapshotOutOfDate), w, d)
        else do {
          (r, d) \<leftarrow> PersistSnapshotFile (x_os X) (x_codec X) snap d;
          case r of
            Inl e \<Rightarrow> Some (Inl e, w, d)
          | Inr _ \<Rightarrow> Some (
              io_bind (save_metadata X (snapshot_metadata_record meta w)) (\<lambda>_ (w, d).
                let w = w\<lparr>w_snapshot_index := sm_index meta, w_snapshot_term := sm_term meta,
                          w_hard_state := raise_hard_state (sm_index meta) (sm_term meta) (w_hard_state w),
                          w_conf_state := sm_conf_state meta, w_first_index := sm_index meta + 1,
                          w_index := WALIndex_SetFirstIndex (sm_index meta + 1) (WALIndex_Clear (w_index w))\<rparr>;
                    (_, w, d) = on_segments (SegmentManager_RemoveAllSegments (x_os X)) (w, d)
                in on_segments (SegmentManager_Initialize (x_os X)) (w, d)) (w, d))
        })"

definition WAL_ApplyLocalSnapshot :: "wal_env \<Rightarrow> snapshot \<Rightarrow> WAL \<times> disk \<Rightarrow> (unit result \<times> WAL \<times> disk) option" where
  "WAL_ApplyLocalSnapshot X snap = (\<lambda>(w, d).
     let meta = sn_metadata snap; last_idx = WAL_LastIndex w
     in if sm_index meta \<le> w_snapshot_index w then Some (Inl (StorageError SnapshotOutOfDate), w, d)
        else if sm_index meta > last_idx
        then Some (Inl (FatalError (Fmt ''local snapshot index {} > last index {}'' [sm_index meta, last_idx])), w, d)
        else do {
          (r, d) \<leftarrow> PersistSnapshotFile (x_os X) (x_codec X) snap d;
          case r of
            Inl e \<Rightarrow> Some (Inl e, w, d)
          | Inr _ \<Rightarrow> Some (
              io_bind (save_metadata X (snapshot_metadata_record meta w)) (\<lambda>_ (w, d).
                let first_index = sm_index meta + 1;
                    w = w\<lparr>w_snapshot_index := sm_index meta, w_snapshot_term := sm_term meta,
                          w_hard_state := raise_hard_state (sm_index meta) (sm_term meta) (w_hard_state w),
                          w_conf_state := sm_conf_state meta, w_first_index := first_index,
                          w_index := WALIndex_SetFirstIndex first_index (WALIndex_TruncateBefore first_index (w_index w))\<rparr>;
                    segments_to_remove = filter (\<lambda>seg_id. \<not> has_entries first_index last_idx seg_id (w_index w))
                      (map fst (sm_segments (w_segments w)))
                in (Inr (), remove_logged X segments_to_remove (w, d))) (w, d))
        })"

section \<open>Recovery\<close>

text \<open>An entry found on disk continues the index, or it is before the first index, or the log is broken.\<close>

definition replay_entry :: "u64 \<Rightarrow> u64 \<Rightarrow> u32 \<Rightarrow> string \<Rightarrow> entry \<Rightarrow> WAL \<Rightarrow> unit result \<times> WAL" where
  "replay_entry segment offset total_size msg e w =
     (if e_index e \<ge> w_first_index w then
        let expected_index = (if WALIndex_empty (w_index w) then w_first_index w else WALIndex_last_index (w_index w) + 1)
        in if e_index e \<noteq> expected_index then (Inl (FatalError (Fmt msg [expected_index, e_index e])), w)
           else (Inr (), w\<lparr>w_index := WALIndex_Insert (e_index e)
                   \<lparr>ie_segment_id = segment, ie_offset = offset, ie_length = total_size, ie_term = e_term e\<rparr> (w_index w)\<rparr>)
      else (Inr (), w))"

function replay_batch :: "codec \<Rightarrow> u64 \<Rightarrow> u64 \<Rightarrow> u32 \<Rightarrow> u8 list \<Rightarrow> nat \<Rightarrow> WAL \<Rightarrow> unit result \<times> WAL" where
  "replay_batch C segment offset total_size payload pos w =
     (if pos < length payload then
        if pos + 4 > length payload then (Inr (), w)
        else
          let entry_len = unat (field pos 4 payload :: u32); pos = pos + 4
          in if pos + entry_len > length payload then (Inr (), w)
             else
               (case from_words (c_entry_of C) (subspan pos entry_len payload) of
                  None \<Rightarrow> replay_batch C segment offset total_size payload (pos + entry_len) w
                | Some e \<Rightarrow>
                    io_bind (replay_entry segment offset total_size
                        ''WAL recovery found non-continuous batch entry: expected {}, got {}'' e)
                      (\<lambda>_. replay_batch C segment offset total_size payload (pos + entry_len)) w)
      else (Inr (), w))"
  by pat_completeness auto
termination
  by (relation "measure (\<lambda>(C, segment, offset, total_size, payload, pos, w). length payload - pos)") auto

declare replay_batch.simps [simp del]

definition replay_record :: "codec \<Rightarrow> u64 \<Rightarrow> u64 \<Rightarrow> u32 \<Rightarrow> RecordParser \<Rightarrow> WAL \<Rightarrow> unit result \<times> WAL" where
  "replay_record C segment offset total_size parser w =
     (case RecordParser_Type parser of
        Record_Entry \<Rightarrow>
          (case from_words (c_entry_of C) (rp_payload parser) of
             None \<Rightarrow> (Inr (), w)
           | Some e \<Rightarrow> replay_entry segment offset total_size
               ''WAL recovery found non-continuous entry: expected {}, got {}'' e w)
      | Record_EntryBatch \<Rightarrow> replay_batch C segment offset total_size (rp_payload parser) 0 w
      | Record_HardState \<Rightarrow>
          (case from_words (c_hard_state_of C) (rp_payload parser) of
             None \<Rightarrow> (Inr (), w)
           | Some hs \<Rightarrow> (Inr (), if hs_term hs \<ge> hs_term (w_hard_state w) then w\<lparr>w_hard_state := hs\<rparr> else w))
      | Record_unknown _ \<Rightarrow> (Inr (), w))"

text \<open>One round of the loop: \<open>Inl\<close> leaves it with a result, \<open>Inr\<close> goes on at an offset.\<close>

definition replay_step :: "wal_env \<Rightarrow> u64 \<Rightarrow> u64 \<Rightarrow> u64 \<Rightarrow> WAL \<times> disk \<Rightarrow> (unit result + u64) \<times> WAL \<times> disk" where
  "replay_step X segment offset segment_size = (\<lambda>(w, d).
     let truncate = (\<lambda>s. case on_segments (on_segment segment (Segment_Truncate (x_os X) offset)) s of (r, s) \<Rightarrow> (Inl r, s))
     in if offset + 16 > segment_size then truncate (w, d)
        else case Segment_Read (x_os X) offset 16 (segment_at segment (w_segments w)) d of
               (Inl e, d) \<Rightarrow> (Inl (Inl e), w, d)
             | (Inr header_data, d) \<Rightarrow>
                 let header = RecordHeader_Deserialize header_data; total_size = RecordHeader_TotalSize header
                 in if rh_length header = 0 \<and> rh_type header = 0 then truncate (w, d)
                    else if offset + ucast total_size > segment_size then truncate (w, d)
                    else case Segment_Read (x_os X) offset total_size (segment_at segment (w_segments w)) d of
                           (Inl e, d) \<Rightarrow> (Inl (Inl e), w, d)
                         | (Inr record_data, d) \<Rightarrow>
                             let parser = RecordParser_new (c_crc (x_codec X)) record_data
                             in if \<not> rp_valid parser then truncate (w, d)
                                else case replay_record (x_codec X) segment offset total_size parser w of
                                       (Inl e, w) \<Rightarrow> (Inl (Inl e), w, d)
                                     | (Inr _, w) \<Rightarrow> (Inr (offset + ucast total_size), w, d))"

lemma Segment_Read_Inr:
  assumes "Segment_Read os off len s d = (Inr bs, d')"
  shows "bs = subspan (unat off) (unat len) (file_of d (seg_path s)) \<and> length bs = unat len \<and> \<not> sint off < 0 \<and>
    d' = d\<lparr>d_clock := Suc (d_clock d)\<rparr> \<and> seg_open s"
proof -
  have open': "seg_open s" and r: "PosixSegmentIo_PRead os (seg_path s) off (unat len) d = (Inr bs, d')"
    using assms by (auto simp: Segment_Read_def split: if_splits)
  obtain bs' d1 where p: "sys_pread os (seg_path s) off (unat len) d = (Some bs', d1)" "length bs' = unat len" "bs = bs'" "d' = d1"
    using r by (auto simp: PosixSegmentIo_PRead_def split: prod.splits option.splits if_splits)
  have "\<not> sint off < 0" using p(1) by (auto simp: sys_pread_def sys_outcome_def Let_def split: outcome.splits if_splits)
  then show ?thesis using sys_pread_all [OF p(1,2)] p open' by simp
qed

lemma sint_nonneg_unat: "\<not> sint (x :: u64) < 0 \<Longrightarrow> unat x < 2 ^ 63"
proof -
  assume "\<not> sint x < 0"
  then have "\<not> bit x 63" using bit_last_iff [of x] by simp
  then have "bit x n \<Longrightarrow> n < 63" for n using bit_imp_le_length [of x n] by (cases "n = 63") auto
  then have "take_bit 63 x = x" by (intro bit_word_eqI) (auto simp: bit_simps)
  then have "unat x = take_bit 63 (unat x)" using unsigned_take_bit_eq [of 63 x] by (metis)
  then show ?thesis using take_bit_nat_less_exp [of 63 "unat x"] by simp
qed

lemma unat_add_u32: "\<not> sint (x :: u64) < 0 \<Longrightarrow> unat (x + ucast (k :: u32)) = unat x + unat k"
proof -
  assume "\<not> sint x < 0"
  moreover have k: "unat k < 2 ^ 32" using unsigned_less [of k] by simp
  moreover have "unat (ucast k :: u64) = unat k" using k by (simp add: unsigned_ucast_eq take_bit_nat_eq_self)
  ultimately show ?thesis using sint_nonneg_unat [of x] unat_add_u64 [of x "ucast k"] by simp
qed

lemma replay_step_progress:
  assumes "replay_step X segment offset segment_size s = (Inr offset', s')"
  shows "offset < offset'"
proof -
  obtain len d1 bs d2 where read: "Segment_Read (x_os X) offset len (segment_at segment (w_segments (fst s))) d1 = (Inr bs, d2)"
    "rp_valid (RecordParser_new (c_crc (x_codec X)) bs)" "offset' = offset + ucast len"
    using assms by (cases s) (auto simp: replay_step_def Let_def split: if_splits sum.splits prod.splits)
  have "16 \<le> unat len" using read(2) Segment_Read_Inr [OF read(1)] by (auto simp: RecordParser_new_def split: if_splits)
  then show ?thesis
    using unat_add_u32 [of offset len] Segment_Read_Inr [OF read(1)] read(3) by (simp add: word_less_nat_alt)
qed

function replay_loop :: "wal_env \<Rightarrow> u64 \<Rightarrow> u64 \<Rightarrow> u64 \<Rightarrow> unit wal_op" where
  "replay_loop X segment offset segment_size s =
     (if offset < segment_size then
        (case replay_step X segment offset segment_size s of
           (Inl r, s) \<Rightarrow> (r, s)
         | (Inr offset, s) \<Rightarrow> replay_loop X segment offset segment_size s)
      else (Inr (), s))"
  by pat_completeness auto
termination
proof (relation "measure (\<lambda>(X, segment, offset, segment_size, s). unat segment_size - unat offset)", goal_cases)
  case (2 X segment offset segment_size s a b offset')
  then show ?case using replay_step_progress [of X segment offset segment_size s offset' b]
    by (auto simp: word_less_nat_alt intro!: diff_less_mono2)
qed simp

declare replay_loop.simps [simp del]

definition WAL_ReplaySegment :: "wal_env \<Rightarrow> u64 \<Rightarrow> unit wal_op" where
  "WAL_ReplaySegment X segment = (\<lambda>(w, d).
     replay_loop X segment 32 (seg_write_offset (segment_at segment (w_segments w))) (w, d))"

fun replay_all :: "wal_env \<Rightarrow> SegmentInfo list \<Rightarrow> unit wal_op" where
  "replay_all X [] s = (Inr (), s)"
| "replay_all X (info # infos) s =
     (case SegmentManager_GetSegmentForIndex (si_first_index info) (w_segments (fst s)) of
        None \<Rightarrow> replay_all X infos s
      | Some segment \<Rightarrow> io_bind (WAL_ReplaySegment X segment) (\<lambda>_. replay_all X infos) s)"

definition check_consistent :: "unit wal_op" where
  "check_consistent = (\<lambda>(w, d).
     if WAL_LastIndex w < hs_commit (w_hard_state w)
     then (Inl (FatalError (Fmt ''WAL inconsistent: last_index {} < committed {}'' [WAL_LastIndex w, hs_commit (w_hard_state w)])), w, d)
     else (Inr (), w, d))"

text \<open>
  Recovery reads the hard state through the pointer of the metadata loaded; it is null only when the metadata file does
  not exist, and then the access aborts.
\<close>

definition WAL_Recover :: "wal_env \<Rightarrow> WAL \<times> disk \<Rightarrow> (unit result \<times> WAL \<times> disk) option" where
  "WAL_Recover X = (\<lambda>(w, d).
     case MetadataStore_Load (x_os X) (x_codec X) d of
       (Inl e, d) \<Rightarrow> Some (Inl e, w, d)
     | (Inr meta, d) \<Rightarrow> do {
         hs \<leftarrow> wm_hard_state meta;
         cs \<leftarrow> wm_conf_state meta;
         let w = w\<lparr>w_hard_state := (if wm_snapshot_index meta > 0
                                    then raise_hard_state (wm_snapshot_index meta) (wm_snapshot_term meta) hs else hs),
                   w_conf_state := cs, w_peer_addresses := wm_peer_addresses meta,
                   w_first_index := wm_first_index meta, w_snapshot_index := wm_snapshot_index meta,
                   w_snapshot_term := wm_snapshot_term meta,
                   w_index := WALIndex_SetFirstIndex (wm_first_index meta) (w_index w)\<rparr>;
         Some (io_bind (replay_all X (SegmentManager_ListSegments (w_segments w))) (\<lambda>_. check_consistent) (w, d))
       })"

definition WAL_new :: WAL where
  "WAL_new = \<lparr>w_segments = SegmentManager_new, w_index = WALIndex_new, w_hard_state = default_hard_state,
     w_conf_state = default_conf_state, w_peer_addresses = [], w_first_index = 1, w_snapshot_index = 0,
     w_snapshot_term = 0, w_buffer = [], w_pending_entries = [], w_effective_io_backend = Backend_Auto,
     w_io_backend_note = []\<rparr>"

definition WAL_Initialize :: "wal_env \<Rightarrow> WAL \<times> disk \<Rightarrow> (unit result \<times> WAL \<times> disk) option" where
  "WAL_Initialize X = (\<lambda>(w, d).
     case SelectSegmentIoBackend (x_engine X) (x_to_string X) (x_config X) of
       Inl e \<Rightarrow> Some (Inl e, w, d)
     | Inr (backend, note) \<Rightarrow>
         let w = w\<lparr>w_effective_io_backend := backend, w_io_backend_note := note, w_buffer := []\<rparr>
         in case MetadataStore_Initialize (x_os X) (x_codec X) d of
              (Inl e, d) \<Rightarrow> Some (Inl e, w, d)
            | (Inr _, d) \<Rightarrow>
                (case on_segments (SegmentManager_Initialize (x_os X)) (w, d) of
                   (Inl e, s) \<Rightarrow> Some (Inl e, s)
                 | (Inr _, s) \<Rightarrow> WAL_Recover X s))"

definition WAL_Open :: "wal_env \<Rightarrow> disk \<Rightarrow> (WAL result \<times> disk) option" where
  "WAL_Open X d = do {
     (r, w, d) \<leftarrow> WAL_Initialize X (WAL_new, d);
     Some (case r of Inl e \<Rightarrow> Inl e | Inr _ \<Rightarrow> Inr w, d)
   }"

section \<open>Synchronising and closing\<close>

definition WAL_Sync :: "wal_env \<Rightarrow> unit wal_op" where
  "WAL_Sync X = io_bind (WAL_FlushWriteBuffer X) (\<lambda>_. on_segments (SegmentManager_SyncAll (x_os X)))"

definition WAL_Close :: "wal_env \<Rightarrow> unit wal_op" where
  "WAL_Close X s =
     on_segments (SegmentManager_CloseAll (x_os X))
       (snd (on_segments (SegmentManager_SyncAll (x_os X)) (snd (WAL_FlushWriteBuffer X s))))"

text \<open>
  Two private helpers that no operation calls. \<open>WriteRecord\<close> copies the record behind the used part of the buffer
  without testing that it fits, so a record larger than the whole buffer is written out of bounds: an abort.
\<close>

definition WAL_WriteRecord :: "wal_env \<Rightarrow> RecordType \<Rightarrow> u8 list \<Rightarrow> WAL \<times> disk \<Rightarrow> (unit result \<times> WAL \<times> disk) option" where
  "WAL_WriteRecord X type data = (\<lambda>(w, d).
     let rec = RecordBuilder_Build (c_crc (x_codec X))
           (RecordBuilder_SetPayload data (RecordBuilder_SetType type RecordBuilder_new));
         cap = unat (wc_write_buffer_size (x_config X))
     in case (if length (w_buffer w) + length rec > cap then WAL_FlushWriteBuffer X else io_return ()) (w, d) of
          (Inl e, s) \<Rightarrow> Some (Inl e, s)
        | (Inr _, w, d) \<Rightarrow>
            if length (w_buffer w) + length rec > cap then None
            else Some (Inr (), w\<lparr>w_buffer := w_buffer w @ rec\<rparr>, d))"

definition WAL_MaybeRollSegment :: "wal_env \<Rightarrow> unit wal_op" where
  "WAL_MaybeRollSegment X = (\<lambda>(w, d).
     io_bind (on_segments (SegmentManager_GetCurrentSegment (x_os X) (x_config X) (w_first_index w)))
       (\<lambda>segment (w, d).
          if Segment_IsFull (wc_segment_size (x_config X)) (segment_at segment (w_segments w))
          then io_bind (WAL_FlushWriteBuffer X) (\<lambda>_ (w, d).
               io_bind (on_segments (SegmentManager_RollToNewSegment (x_os X) (x_config X) (WAL_LastIndex w + 1)))
                 (\<lambda>_. io_return ()) (w, d)) (w, d)
          else (Inr (), w, d)) (w, d))"

end
