(* ===== verification/WalLayout.thy ===== *)
theory WalLayout
  imports Wal Storage
begin

text \<open>
  What lies on disk behind a write-ahead log, and that the operations of the log keep it so. A segment file is its
  header, the records of its items and possibly zeros that were allocated ahead; the index points at the records
  of the entries, in order. From this follow what reading returns after appending, and that recovery rebuilds
  the log.
\<close>

section \<open>Items\<close>

datatype item = Entry_item entry | State_item hard_state

definition item_record :: "wal_env \<Rightarrow> item \<Rightarrow> u8 list" where
  "item_record X it = (case it of Entry_item e \<Rightarrow> entry_record X e | State_item hs \<Rightarrow> hard_state_record X hs)"

definition records :: "wal_env \<Rightarrow> item list \<Rightarrow> u8 list" where
  "records X is = concat (map (item_record X) is)"

definition item_ok :: "wal_env \<Rightarrow> item \<Rightarrow> bool" where
  "item_ok X it = (case it of
     Entry_item e \<Rightarrow> encodes (c_entry (x_codec X)) (c_entry_of (x_codec X)) e
   | State_item hs \<Rightarrow> encodes (c_hard_state (x_codec X)) (c_hard_state_of (x_codec X)) hs)"

lemma records_simps [simp]:
  "records X [] = []" "records X (it # is) = item_record X it @ records X is"
  "records X (is @ js) = records X is @ records X js"
  by (simp_all add: records_def)

lemma records_entries: "records X (map Entry_item es) = concat (map (entry_record X) es)"
  by (simp add: records_def item_record_def comp_def)

text \<open>Where the entries of a segment lie.\<close>

fun positions :: "wal_env \<Rightarrow> u64 \<Rightarrow> nat \<Rightarrow> item list \<Rightarrow> (entry \<times> IndexEntry) list" where
  "positions X sid off [] = []"
| "positions X sid off (it # is) =
     (case it of
        Entry_item e \<Rightarrow> [(e, \<lparr>ie_segment_id = sid, ie_offset = of_nat off,
          ie_length = of_nat (length (entry_record X e)), ie_term = e_term e\<rparr>)]
      | State_item _ \<Rightarrow> []) @ positions X sid (off + length (item_record X it)) is"

lemma positions_append:
  "positions X sid off (is @ js) = positions X sid off is @ positions X sid (off + length (records X is)) js"
  by (induction "is" arbitrary: off) (auto simp: add.assoc)

fun item_entries :: "item list \<Rightarrow> entry list" where
  "item_entries [] = []"
| "item_entries (Entry_item e # is) = e # item_entries is"
| "item_entries (State_item _ # is) = item_entries is"

fun item_states :: "item list \<Rightarrow> hard_state list" where
  "item_states [] = []"
| "item_states (Entry_item e # is) = item_states is"
| "item_states (State_item hs # is) = hs # item_states is"

lemma positions_entries: "map fst (positions X sid off is) = item_entries is"
  by (induction "is" arbitrary: off rule: item_entries.induct) auto

lemma item_entries_append [simp]: "item_entries (is @ js) = item_entries is @ item_entries js"
  by (induction "is" rule: item_entries.induct) auto

lemma item_states_append [simp]: "item_states (is @ js) = item_states is @ item_states js"
  by (induction "is" rule: item_states.induct) auto

lemma item_entries_map [simp]: "item_entries (map Entry_item es) = es"
  by (induction es) auto

lemma item_states_map [simp]: "item_states (map Entry_item es) = []"
  by (induction es) auto

text \<open>Splitting a segment at an entry.\<close>

lemma positions_split:
  assumes "positions X sid off is = ps @ (e, ie) # qs"
  obtains is1 is2 where "is = is1 @ Entry_item e # is2" "ps = positions X sid off is1"
    "qs = positions X sid (off + length (records X is1) + length (entry_record X e)) is2"
    "ie = \<lparr>ie_segment_id = sid, ie_offset = of_nat (off + length (records X is1)),
      ie_length = of_nat (length (entry_record X e)), ie_term = e_term e\<rparr>"
  using assms
proof (induction "is" arbitrary: off ps thesis)
  case (Cons it "is")
  show ?case
  proof (cases "\<exists>e'. it = Entry_item e' \<and> ps = []")
    case True
    then have "it = Entry_item e" "ps = []" "qs = positions X sid (off + length (entry_record X e)) is"
      "ie = \<lparr>ie_segment_id = sid, ie_offset = of_nat off, ie_length = of_nat (length (entry_record X e)), ie_term = e_term e\<rparr>"
      using Cons.prems(2) by (auto simp: item_record_def)
    then show ?thesis using Cons.prems(1) [of "[]" "is"] by simp
  next
    case False
    obtain ps' where ps: "positions X sid (off + length (item_record X it)) is = ps' @ (e, ie) # qs"
      "ps = positions X sid off [it] @ ps'"
      using False Cons.prems(2) by (cases it; cases ps) auto
    obtain is1 is2 where sp: "is = is1 @ Entry_item e # is2" "ps' = positions X sid (off + length (item_record X it)) is1"
      "qs = positions X sid (off + length (item_record X it) + length (records X is1) + length (entry_record X e)) is2"
      "ie = \<lparr>ie_segment_id = sid, ie_offset = of_nat (off + length (item_record X it) + length (records X is1)),
        ie_length = of_nat (length (entry_record X e)), ie_term = e_term e\<rparr>"
      using Cons.IH [OF _ ps(1)] by metis
    show ?thesis
    proof (rule Cons.prems(1))
      show "it # is = (it # is1) @ Entry_item e # is2" using sp(1) by simp
      show "ps = positions X sid off (it # is1)" using ps(2) sp(2) by simp
      show "qs = positions X sid (off + length (records X (it # is1)) + length (entry_record X e)) is2"
        using sp(3) by (simp add: add.assoc)
      show "ie = \<lparr>ie_segment_id = sid, ie_offset = of_nat (off + length (records X (it # is1))),
          ie_length = of_nat (length (entry_record X e)), ie_term = e_term e\<rparr>" using sp(4) by (simp add: add.assoc)
    qed
  qed
qed simp

section \<open>Records of items\<close>

definition item_payload :: "wal_env \<Rightarrow> item \<Rightarrow> u8 list" where
  "item_payload X it = (case it of Entry_item e \<Rightarrow> c_entry (x_codec X) e | State_item hs \<Rightarrow> c_hard_state (x_codec X) hs)"

definition item_type :: "item \<Rightarrow> RecordType" where
  "item_type it = (case it of Entry_item _ \<Rightarrow> Record_Entry | State_item _ \<Rightarrow> Record_HardState)"

abbreviation item_header :: "wal_env \<Rightarrow> item \<Rightarrow> RecordHeader" where
  "item_header X it \<equiv> built_header (c_crc (x_codec X)) (item_type it) (item_payload X it)"

lemma item_record_Build:
  "item_record X it = RecordBuilder_Build (c_crc (x_codec X)) \<lparr>rb_type = item_type it, rb_payload = item_payload X it\<rparr>"
  by (cases it) (simp_all add: item_record_def entry_record_def hard_state_record_def item_type_def item_payload_def
      RecordBuilder_SetPayload_def RecordBuilder_SetType_def RecordBuilder_new_def)

lemma item_ok_payload:
  assumes "item_ok X it"
  shows "item_payload X it \<noteq> []" "length (item_payload X it) + 24 \<le> 2 ^ 32"
  using assms by (cases it; auto simp: item_ok_def item_payload_def encodes_def)+

lemma parse_item:
  assumes "item_ok X it"
  shows "RecordParser_new (c_crc (x_codec X)) (item_record X it @ rest) =
    \<lparr>rp_header = item_header X it, rp_payload = item_payload X it, rp_valid = True\<rparr>"
  unfolding item_record_Build using item_ok_payload(2) [OF assms] by (intro parse_Build) simp

lemma total_size_item: "item_ok X it \<Longrightarrow> unat (RecordHeader_TotalSize (item_header X it)) = length (item_record X it)"
  unfolding item_record_Build using item_ok_payload(2) by (rule unat_TotalSize)

lemma unat_lt_u32: "unat (x :: u32) < 2 ^ 32"
  using unsigned_less [of x] by simp

lemma item_record_length:
  assumes "item_ok X it"
  shows "16 < length (item_record X it)" "length (item_record X it) < 2 ^ 32"
proof -
  show "length (item_record X it) < 2 ^ 32"
    using total_size_item [OF assms] unat_lt_u32 [of "RecordHeader_TotalSize (item_header X it)"] by simp
  show "16 < length (item_record X it)" using item_ok_payload(1) [OF assms] by (simp add: item_record_Build length_Build)
qed

lemma take_item_header: "take 16 (item_record X it @ rest) = RecordHeader_Serialize (item_header X it)"
  by (simp add: item_record_Build Build_eq)

lemma item_header_type: "rh_type (item_header X it) \<noteq> 0"
  by (cases it) (simp_all add: item_type_def)

section \<open>Segments\<close>

definition seg_head :: "Segment \<Rightarrow> u8 list" where
  "seg_head s = SegmentHeader_Serialize
     (SegmentHeader_new\<lparr>sh_segment_id := seg_segment_id s, sh_first_index := seg_first_index s\<rparr>)"

lemma length_seg_head [simp]: "length (seg_head s) = 32"
  by (simp add: seg_head_def)

text \<open>An open segment whose file holds the given items up to the write offset.\<close>

definition seg_holds :: "wal_env \<Rightarrow> disk \<Rightarrow> Segment \<Rightarrow> item list \<Rightarrow> bool" where
  "seg_holds X d s is \<longleftrightarrow> seg_open s \<and> file_exists d (seg_path s) \<and>
     unat (seg_write_offset s) = 32 + length (records X is) \<and>
     (\<exists>z. file_of d (seg_path s) = seg_head s @ records X is @ replicate z 0)"

text \<open>What an operation on a segment leaves alone.\<close>

definition seg_frame :: "Segment \<times> disk \<Rightarrow> Segment \<times> disk \<Rightarrow> bool" where
  "seg_frame = (\<lambda>(s, d) (s', d'). seg_segment_id s' = seg_segment_id s \<and> seg_first_index s' = seg_first_index s \<and>
     seg_path s' = seg_path s \<and> same_but {seg_path s} d d')"

lemma seg_holds_cong: "file_of d' (seg_path s) = file_of d (seg_path s) \<Longrightarrow> file_exists d' (seg_path s) = file_exists d (seg_path s) \<Longrightarrow>
    seg_holds X d' s is = seg_holds X d s is"
  by (simp add: seg_holds_def)

lemma seg_holds_clock [simp]: "seg_holds X (d\<lparr>d_clock := c\<rparr>) s is = seg_holds X d s is"
  by (simp add: seg_holds_def)

lemma seg_holds_same_but: "same_but N d d' \<Longrightarrow> seg_path s \<notin> N \<Longrightarrow> seg_holds X d' s is = seg_holds X d s is"
  by (rule seg_holds_cong) (auto simp: same_but_def)

lemma PWrite_Inr:
  assumes "PosixSegmentIo_PWrite os name off data d = (Inr u, d')"
  shows "\<not> sint off < 0 \<and> d' = set_file name (put_at (unat off) data (file_of d name)) (d\<lparr>d_clock := Suc (d_clock d)\<rparr>)"
proof -
  obtain n d1 where n: "sys_pwrite os name off data d = (Some n, d1)" "n = length data" "d' = d1"
    using assms by (auto simp: PosixSegmentIo_PWrite_def split: prod.splits option.splits if_splits)
  have "\<not> sint off < 0" using n(1) by (auto simp: sys_pwrite_def sys_outcome_def Let_def split: outcome.splits if_splits)
  then show ?thesis using sys_pwrite_all [OF n(1,2)] n(3) by simp
qed

lemma seg_head_update [simp]:
  "seg_head (s\<lparr>seg_write_offset := a\<rparr>) = seg_head s" "seg_head (s\<lparr>seg_file_size := b\<rparr>) = seg_head s"
  by (simp_all add: seg_head_def)

lemma Segment_Append_holds:
  assumes "seg_holds X d s is" "Segment_Append os (records X js) (s, d) = (Inr u, s', d')" "length (records X js) < 2 ^ 33"
  shows "seg_holds X d' s' (is @ js) \<and> seg_frame (s, d) (s', d')"
proof -
  obtain d1 where pw: "PosixSegmentIo_PWrite os (seg_path s) (seg_write_offset s) (records X js) d = (Inr (), d1)"
    and s': "s' = s\<lparr>seg_write_offset := seg_write_offset s + of_nat (length (records X js)),
      seg_file_size := seg_file_size s'\<rparr>" and d': "d' = d1"
    using assms(1,2) by (auto simp: Segment_Append_def seg_holds_def Let_def split: prod.splits sum.splits if_splits)
  obtain z where "file": "file_of d (seg_path s) = (seg_head s @ records X is) @ replicate z 0"
    and off: "unat (seg_write_offset s) = length (seg_head s @ records X is)" and ex: "seg_open s" "file_exists d (seg_path s)"
    using assms(1) by (auto simp: seg_holds_def)
  note pw' = PWrite_Inr [OF pw]
  have "file_of d1 (seg_path s) = seg_head s @ records X (is @ js) @ replicate (z - length (records X js)) 0"
    using pw' "file" put_at_middle [OF off, of "records X js" "replicate z 0"] by simp
  moreover have "unat (seg_write_offset s + of_nat (length (records X js))) = 32 + length (records X (is @ js))"
    using off sint_nonneg_unat [of "seg_write_offset s"] pw' assms(3)
    by (subst unat_add_of_nat_u64) simp_all
  moreover have "seg_open s'" "seg_path s' = seg_path s" "seg_head s' = seg_head s" "seg_segment_id s' = seg_segment_id s"
    "seg_first_index s' = seg_first_index s" "seg_write_offset s' = seg_write_offset s + of_nat (length (records X js))"
    by (subst s', simp add: ex)+
  ultimately show ?thesis
    using pw' ex d' by (auto simp: seg_holds_def seg_frame_def)
qed

lemma seg_bound:
  assumes "seg_holds X d s (is @ js)"
  shows "unat (of_nat (32 + length (records X is)) :: u64) = 32 + length (records X is)"
    "32 + length (records X (is @ js)) < 2 ^ 64"
proof -
  show b: "32 + length (records X (is @ js)) < 2 ^ 64"
    using assms unat_lt_max [of "seg_write_offset s"] by (simp add: seg_holds_def)
  show "unat (of_nat (32 + length (records X is)) :: u64) = 32 + length (records X is)"
    by (rule unat_of_nat_u64) (use b in simp)
qed

lemma Segment_Truncate_holds:
  assumes "seg_holds X d s (is @ js)" "Segment_Truncate os (of_nat (32 + length (records X is))) (s, d) = (Inr u, s', d')"
  shows "seg_holds X d' s' is \<and> seg_frame (s, d) (s', d')"
proof -
  let ?off = "of_nat (32 + length (records X is)) :: u64"
  have off: "unat ?off = 32 + length (records X is)" using seg_bound(1) [OF assms(1)] .
  obtain d1 where tr: "sys_ftruncate os (seg_path s) ?off d = (True, d1)"
    and s': "s' = s\<lparr>seg_write_offset := ?off, seg_file_size := ?off\<rparr>" and d': "d' = d1"
    using assms by (auto simp: Segment_Truncate_def seg_holds_def Let_def split: prod.splits bool.splits if_splits)
  obtain z where "file": "file_of d (seg_path s) = seg_head s @ records X is @ records X js @ replicate z 0"
    using assms(1) by (auto simp: seg_holds_def)
  have d1: "d1 = set_file (seg_path s) (set_size (unat ?off) (file_of d (seg_path s))) (d\<lparr>d_clock := Suc (d_clock d)\<rparr>)"
    using tr by (auto simp: sys_ftruncate_def dest!: sys_call_True split: if_splits)
  have "set_size (unat ?off) (file_of d (seg_path s)) = seg_head s @ records X is"
    unfolding off "file" by (subst set_size_take) simp_all
  then show ?thesis
    using d1 s' d' off assms(1) by (auto simp: seg_holds_def seg_frame_def intro: exI [of _ 0])
qed

lemma seg_read_item:
  assumes "seg_holds X d s (is @ it # js)"
  shows "subspan (unat (of_nat (32 + length (records X is)) :: u64)) (length (item_record X it)) (file_of d (seg_path s)) = item_record X it"
  using assms seg_bound(1) [OF assms] by (auto simp: seg_holds_def)

lemma Segment_Create_holds:
  assumes "Segment_Create os path sid fi pre n d = (Inr s, d')"
  shows "seg_holds X d' s [] \<and> seg_segment_id s = sid \<and> seg_first_index s = fi \<and> seg_path s = path \<and>
    seg_write_offset s = 32 \<and> \<not> file_exists d path \<and> same_but {path} d d'"
proof -
  let ?h = "SegmentHeader_Serialize (SegmentHeader_new\<lparr>sh_segment_id := sid, sh_first_index := fi\<rparr>)"
  obtain d1 d2 d3 where c: "\<not> file_exists d path" "sys_call os (set_file path []) d = (True, d1)"
      "d2 = (if pre \<and> n > 0 then snd (sys_call os (\<lambda>d. set_file path (extend_to (unat n) (file_of d path)) d) d1) else d1)"
      "sys_pwrite os path 0 ?h d2 = (Some (length ?h), d3)" "sys_call os id d3 = (True, d')"
      "s = \<lparr>seg_open = True, seg_segment_id = sid, seg_first_index = fi, seg_write_offset = 32,
        seg_file_size = of_nat (length (file_of d' path)), seg_path = path\<rparr>"
    using assms by (auto simp: Segment_Create_def Let_def split: prod.splits bool.splits if_splits)
  have d1: "d1 = set_file path [] (d\<lparr>d_clock := Suc (d_clock d)\<rparr>)" using sys_call_True [OF c(2)] .
  have "\<exists>z. file_of d2 path = replicate z 0 \<and> same_but {path} d d2"
  proof (cases "pre \<and> n > 0")
    case True
    obtain b d2' where f: "sys_call os (\<lambda>d. set_file path (extend_to (unat n) (file_of d path)) d) d1 = (b, d2')"
      by (cases "sys_call os (\<lambda>d. set_file path (extend_to (unat n) (file_of d path)) d) d1")
    then have "file_of d2' path = (if b then replicate (unat n) 0 else [])" "same_but {path} d d2'"
      by (cases b; auto dest!: sys_call_True sys_call_False simp: d1 extend_to_def)+
    then have "file_of d2' path = replicate (if b then unat n else 0) 0" by simp
    then show ?thesis using c(3) f True \<open>same_but {path} d d2'\<close> by auto
  next
    case False
    then show ?thesis using c(3) d1 by (auto intro: exI [of _ 0])
  qed
  then obtain z where z: "file_of d2 path = replicate z 0" "same_but {path} d d2" by blast
  have d3: "d3 = set_file path (put_at 0 ?h (file_of d2 path)) (d2\<lparr>d_clock := Suc (d_clock d2)\<rparr>)"
    using sys_pwrite_all [OF c(4) refl] by simp
  have "put_at 0 ?h (file_of d2 path) = ?h @ replicate (z - 32) 0"
    using put_at_middle [of 0 "[]" ?h "replicate z 0"] z by simp
  then show ?thesis
    using d3 sys_call_True [OF c(5)] c(1,6) z(2) by (auto simp: seg_holds_def seg_head_def)
qed

section \<open>The set of segments\<close>

lemma filename_inj: "Segment_MakeSegmentFilename i = Segment_MakeSegmentFilename j \<longleftrightarrow> i = j"
proof
  define mid where "mid n = replicate (6 - length (decimal n)) (digit_char 0) @ decimal n" for n
  have val: "decimal_value (mid n) = n" for n by (simp add: mid_def decimal_value_zeros decimal_value_decimal)
  assume "Segment_MakeSegmentFilename i = Segment_MakeSegmentFilename j"
  then have "mid (unat i) = mid (unat j)" by (simp add: Segment_MakeSegmentFilename_def mid_def Let_def)
  then have "unat i = unat j" by (metis val)
  then show "i = j" by (simp add: u64_eq_iff)
qed simp

definition is_state :: "item \<Rightarrow> bool" where
  "is_state it = (case it of State_item _ \<Rightarrow> True | Entry_item _ \<Rightarrow> False)"

text \<open>The hard states in front of the first entry of a segment do not fill it.\<close>

definition unclogged :: "wal_env \<Rightarrow> item list \<Rightarrow> bool" where
  "unclogged X is \<longleftrightarrow> 32 + length (records X (takeWhile is_state is)) < unat (wc_segment_size (x_config X))"

lemma unclogged_entries: "unclogged X is \<Longrightarrow> unclogged X (is @ map Entry_item es)"
proof (cases "\<forall>it \<in> set is. is_state it")
  case True
  assume "unclogged X is"
  moreover have "takeWhile is_state (map Entry_item es) = []" by (cases es) (simp_all add: is_state_def)
  moreover have tw: "takeWhile is_state is = is" using True by (simp add: takeWhile_eq_all_conv)
  ultimately show ?thesis using True by (simp add: unclogged_def tw)
next
  case False
  assume "unclogged X is"
  moreover have "takeWhile is_state (is @ js) = takeWhile is_state is" for js using False by (auto simp: takeWhile_append1)
  ultimately show ?thesis by (simp add: unclogged_def)
qed

lemma unclogged_prefix: "unclogged X (is @ js) \<Longrightarrow> unclogged X is"
proof (cases "\<forall>it \<in> set is. is_state it")
  case True
  assume "unclogged X (is @ js)"
  moreover have tw: "takeWhile is_state is = is" using True by (simp add: takeWhile_eq_all_conv)
  ultimately show ?thesis using True by (simp add: unclogged_def tw)
next
  case False
  assume "unclogged X (is @ js)"
  then show ?thesis using False by (auto simp: unclogged_def takeWhile_append1)
qed

definition seg_ok :: "wal_env \<Rightarrow> disk \<Rightarrow> u64 \<times> Segment \<Rightarrow> item list \<Rightarrow> bool" where
  "seg_ok X d p is \<longleftrightarrow> seg_segment_id (snd p) = fst p \<and> seg_path (snd p) = Segment_MakeSegmentFilename (fst p) \<and>
     seg_holds X d (snd p) is \<and> list_all (item_ok X) is \<and> unclogged X is"

definition mgr_ok :: "wal_env \<Rightarrow> SegmentManager \<Rightarrow> disk \<Rightarrow> item list list \<Rightarrow> bool" where
  "mgr_ok X sm d L \<longleftrightarrow> list_all2 (seg_ok X d) (sm_segments sm) L \<and> omap_wf (sm_segments sm) \<and>
     (sm_segments sm \<noteq> [] \<longrightarrow> sm_current_segment_id sm = fst (last (sm_segments sm)))"

lemma seg_ok_other:
  assumes "seg_ok X d p is" "same_but {Segment_MakeSegmentFilename k} d d'" "fst p \<noteq> k"
  shows "seg_ok X d' p is"
proof -
  have "seg_path (snd p) \<notin> {Segment_MakeSegmentFilename k}" using assms(1,3) by (simp add: seg_ok_def filename_inj)
  then have "seg_holds X d' (snd p) is = seg_holds X d (snd p) is" by (rule seg_holds_same_but [OF assms(2)])
  then show ?thesis using assms(1) unfolding seg_ok_def by simp
qed

lemma segs_ok_other:
  assumes "list_all2 (seg_ok X d) ss L" "same_but {Segment_MakeSegmentFilename k} d d'" "k \<notin> fst ` set ss"
  shows "list_all2 (seg_ok X d') ss L"
  using assms(1,3)
proof (induction rule: list_all2_induct)
  case (Cons p ss "is" L)
  then show ?case using seg_ok_other [OF Cons.hyps(1) assms(2)] by auto
qed simp

lemma omap_wf_append: "omap_wf (m @ (k, v) # m') \<Longrightarrow> k \<notin> fst ` set m \<and> k \<notin> fst ` set m' \<and> map_of (m @ (k, v) # m') k = Some v"
proof -
  assume "omap_wf (m @ (k, v) # m')"
  then have "distinct (map fst (m @ (k, v) # m'))" by (simp only: strict_sorted_iff)
  then have "k \<notin> fst ` set m" "k \<notin> fst ` set m'" by auto
  moreover from this have "map_of m k = None" by (simp add: map_of_eq_None_iff)
  ultimately show ?thesis by (simp add: map_add_def)
qed

lemma update_middle: "k \<notin> fst ` set m \<Longrightarrow> AList.update k v' (m @ (k, v) # m') = m @ (k, v') # m'"
  by (induction m) auto

lemma delete_middle:
  "k \<notin> fst ` set m \<Longrightarrow> k \<notin> fst ` set m' \<Longrightarrow> AList.delete k (m @ (k, v) # m') = m @ m'"
proof -
  have "filter (\<lambda>(k', _). k \<noteq> k') xs = xs" if "k \<notin> fst ` set xs" for xs :: "('a \<times> 'b) list"
    using that by (force simp: filter_id_conv)
  moreover assume "k \<notin> fst ` set m" "k \<notin> fst ` set m'"
  ultimately show ?thesis by (simp add: AList.delete_eq)
qed

text \<open>One segment in its place among the others.\<close>

lemma mgr_at:
  assumes "mgr_ok X sm d L" "sm_segments sm = ss @ (k, s) # ss'"
  obtains Ls "is" Ls' where "L = Ls @ is # Ls'" "list_all2 (seg_ok X d) ss Ls" "list_all2 (seg_ok X d) ss' Ls'"
    "seg_ok X d (k, s) is" "k \<notin> fst ` set ss" "k \<notin> fst ` set ss'" "segment_at k sm = s"
  using assms omap_wf_append [of ss k s ss']
  by (auto simp: mgr_ok_def segment_at_def list_all2_append1 list_all2_Cons1)

lemma mgr_current:
  assumes "mgr_ok X sm d L" "sm_segments sm \<noteq> []"
  obtains ss s where "sm_segments sm = ss @ [(sm_current_segment_id sm, s)]"
  using assms by (cases "sm_segments sm" rule: rev_cases) (auto simp: mgr_ok_def)

lemma mgr_replace:
  assumes "mgr_ok X sm d (Ls @ is # Ls')" "sm_segments sm = ss @ (k, s) # ss'" "length ss = length Ls"
    "seg_ok X d' (k, s') is'" "same_but {Segment_MakeSegmentFilename k} d d'"
  shows "mgr_ok X (sm\<lparr>sm_segments := ss @ (k, s') # ss'\<rparr>) d' (Ls @ is' # Ls')"
proof -
  have parts: "list_all2 (seg_ok X d) ss Ls" "list_all2 (seg_ok X d) ss' Ls'"
    using assms(1-3) by (auto simp: mgr_ok_def list_all2_append list_all2_lengthD)
  have k: "k \<notin> fst ` set ss" "k \<notin> fst ` set ss'"
    using assms(1,2) omap_wf_append [of ss k s ss'] by (auto simp: mgr_ok_def)
  have "list_all2 (seg_ok X d') ss Ls" "list_all2 (seg_ok X d') ss' Ls'"
    using segs_ok_other [OF parts(1) assms(5) k(1)] segs_ok_other [OF parts(2) assms(5) k(2)] by blast+
  then show ?thesis
    using assms(1,2,4) by (auto simp: mgr_ok_def list_all2_append list_all2_lengthD last_append)
qed

lemma on_segment_middle:
  assumes "mgr_ok X sm d (Ls @ is # Ls')" "sm_segments sm = ss @ (k, s) # ss'" "length ss = length Ls"
    "on_segment k f (sm, d) = (r, sm', d')" "f (s, d) = (r, s', d') \<Longrightarrow> seg_ok X d' (k, s') is' \<and> seg_frame (s, d) (s', d')"
    "s' = segment_at k sm'"
  shows "mgr_ok X sm' d' (Ls @ is' # Ls') \<and> sm_segments sm' = ss @ (k, s') # ss' \<and>
    sm_current_segment_id sm' = sm_current_segment_id sm \<and> seg_first_index s' = seg_first_index s \<and> f (s, d) = (r, s', d')"
proof -
  have k: "k \<notin> fst ` set ss" "segment_at k sm = s" "seg_path s = Segment_MakeSegmentFilename k"
    using assms(1-3) omap_wf_append [of ss k s ss']
    by (auto simp: mgr_ok_def segment_at_def seg_ok_def list_all2_append)
  obtain s1 where f: "f (s, d) = (r, s1, d')" and sm': "sm' = sm\<lparr>sm_segments := ss @ (k, s1) # ss'\<rparr>"
    using assms(2,4) k by (auto simp: on_segment_def update_middle split: prod.splits)
  have "map_of ss k = None" using k(1) by (simp add: map_of_eq_None_iff)
  then have s': "s' = s1" using assms(6) sm' by (simp add: segment_at_def map_add_def)
  then have "seg_ok X d' (k, s') is'" "seg_frame (s, d) (s', d')" using assms(5) f by blast+
  then show ?thesis
    using mgr_replace [OF assms(1-3), of d' s' is'] sm' s' k(3) f by (auto simp: seg_frame_def)
qed

text \<open>Changes of other files.\<close>

lemma mgr_ok_same_but:
  assumes "mgr_ok X sm d L" "same_but N d d'" "\<And>k. Segment_MakeSegmentFilename k \<notin> N"
  shows "mgr_ok X sm d' L"
proof -
  have "seg_ok X d' p is" if "seg_ok X d p is" for p "is"
  proof -
    have "seg_path (snd p) \<notin> N" using that assms(3) by (simp add: seg_ok_def)
    then show ?thesis using that seg_holds_same_but [OF assms(2)] by (simp add: seg_ok_def)
  qed
  then have "list_all2 (seg_ok X d') (sm_segments sm) L"
    using assms(1) unfolding mgr_ok_def by (meson list_all2_mono)
  then show ?thesis using assms(1) by (simp add: mgr_ok_def)
qed

lemma same_but_mono: "same_but M d d' \<Longrightarrow> M \<subseteq> N \<Longrightarrow> same_but N d d'"
  by (auto simp: same_but_def)

lemma Segment_Sync_same: "Segment_Sync os s d = (r, d') \<Longrightarrow> same_but {} d d'"
  by (auto simp: Segment_Sync_def PosixSegmentIo_Sync_def sys_call_def sys_outcome_def same_but_def
      split: if_splits outcome.splits)

lemma sync_segments_same: "sync_segments os m d = (r, d') \<Longrightarrow> same_but {} d d'"
proof (induction m arbitrary: d)
  case (Cons p m)
  obtain k s where p: "p = (k, s)" by (cases p)
  obtain r1 d1 where s1: "Segment_Sync os s d = (r1, d1)" by (cases "Segment_Sync os s d")
  show ?case
    using Cons s1 same_but_trans [OF Segment_Sync_same [OF s1]]
    by (cases r1) (auto simp: p io_bind_def)
qed simp

lemma mgr_roll:
  assumes "mgr_ok X sm d L" "SegmentManager_RollToNewSegment os cfg fi (sm, d) = (Inr sid, sm', d')"
    "unat (sm_current_segment_id sm) + 1 < 2 ^ 64" "32 < unat (wc_segment_size (x_config X))"
  obtains s where "mgr_ok X sm' d' (L @ [[]])" "sm_segments sm' = sm_segments sm @ [(sid, s)]" "seg_first_index s = fi"
    "sm_current_segment_id sm' = sid" "sid = sm_current_segment_id sm + 1" "seg_write_offset s = 32" "segment_at sid sm' = s"
proof -
  define d0 where "d0 = (case map_of (sm_segments sm) (sm_current_segment_id sm) of None \<Rightarrow> d | Some s \<Rightarrow> snd (Segment_Sync os s d))"
  obtain s where c: "Segment_Create os (Segment_MakeSegmentFilename sid) sid fi (wc_preallocate cfg) (wc_segment_size cfg) d0 = (Inr s, d')"
    and sid: "sid = sm_current_segment_id sm + 1"
    and sm': "sm' = sm\<lparr>sm_segments := omap_put sid s (sm_segments sm), sm_current_segment_id := sid\<rparr>"
    using assms(2) by (auto simp: SegmentManager_RollToNewSegment_def d0_def Let_def split: prod.splits sum.splits)
  have "same_but {} d d0"
    by (cases "map_of (sm_segments sm) (sm_current_segment_id sm)")
      (auto simp: d0_def intro: Segment_Sync_same [of os _ d "fst (Segment_Sync os _ d)"] prod.collapse [symmetric])
  then have m0: "mgr_ok X sm d0 L" using assms(1) by (auto intro: mgr_ok_same_but)
  note cr = Segment_Create_holds [OF c, of X]
  have lt: "k < sid" if "(k, t) \<in> set (sm_segments sm)" for k t
  proof -
    have "k \<le> sm_current_segment_id sm" using m0 that by (cases "sm_segments sm" rule: rev_cases)
        (auto simp: mgr_ok_def sorted_wrt_append)
    moreover have "unat sid = Suc (unat (sm_current_segment_id sm))" using assms(3) sid by (simp add: unat_Suc_bound_u64)
    ultimately show ?thesis by (simp add: word_less_nat_alt word_le_nat_alt)
  qed
  then have put: "sm_segments sm' = sm_segments sm @ [(sid, s)]" using sm' omap_put_end [of "sm_segments sm" sid s] by simp
  have "sid \<notin> fst ` set (sm_segments sm)" using lt by force
  then have "list_all2 (seg_ok X d') (sm_segments sm) L"
    using segs_ok_other [of X d0 "sm_segments sm" L sid d'] m0 cr by (simp add: mgr_ok_def)
  moreover have "seg_ok X d' (sid, s) []" using cr assms(4) by (simp add: seg_ok_def unclogged_def)
  moreover have "omap_wf (sm_segments sm')" using put lt m0 by (auto simp: mgr_ok_def sorted_wrt_append)
  ultimately have "mgr_ok X sm' d' (L @ [[]])"
    using put sm' by (auto simp: mgr_ok_def list_all2_append list_all2_lengthD)
  moreover have "segment_at sid sm' = s" using put \<open>sid \<notin> fst ` set (sm_segments sm)\<close>
    by (simp add: segment_at_def map_add_def map_of_eq_None_iff [THEN iffD2])
  ultimately show ?thesis using that [of s] put cr sm' sid by simp
qed

lemma mgr_remove:
  assumes "mgr_ok X sm d (Ls @ is # Ls')" "sm_segments sm = ss @ (k, s) # ss'" "length ss = length Ls"
    "SegmentManager_RemoveSegment os k (sm, d) = (r, sm', d')"
  shows "mgr_ok X sm' d' (Ls @ Ls') \<and> sm_segments sm' = ss @ ss'"
proof -
  have parts: "list_all2 (seg_ok X d) ss Ls" "list_all2 (seg_ok X d) ss' Ls'" "seg_path s = Segment_MakeSegmentFilename k"
    using assms(1-3) by (auto simp: mgr_ok_def list_all2_append list_all2_lengthD seg_ok_def)
  have k: "k \<notin> fst ` set ss" "k \<notin> fst ` set ss'" "map_of (sm_segments sm) k = Some s"
    using assms(1,2) omap_wf_append [of ss k s ss'] by (auto simp: mgr_ok_def)
  obtain r1 s1 d1 where cl: "Segment_Close os (s, d) = (r1, s1, d1)" by (cases "Segment_Close os (s, d)")
  have s1: "same_but {Segment_MakeSegmentFilename k} d d1"
    using cl by (auto simp: Segment_Close_def sys_call_def sys_outcome_def same_but_def split: if_splits outcome.splits)
  obtain b d2 where rm: "sys_call os (remove_file (seg_path s)) d1 = (b, d2)" by (cases "sys_call os (remove_file (seg_path s)) d1")
  have "same_but {Segment_MakeSegmentFilename k} d1 d2"
    using rm by (rule sys_call_same_but [rotated]) (simp add: parts(3))
  then have same: "same_but {Segment_MakeSegmentFilename k} d d2" using s1 by (rule same_but_trans [rotated])
  have sm': "sm_segments sm' = ss @ ss'" "d' = d2"
    "sm_current_segment_id sm' = (if sm_current_segment_id sm = k then (if ss @ ss' = [] then 0 else fst (last (ss @ ss')))
       else sm_current_segment_id sm)"
    using assms(2,4) k cl rm by (auto simp: SegmentManager_RemoveSegment_def delete_middle Let_def split: bool.splits)
  have "list_all2 (seg_ok X d') (ss @ ss') (Ls @ Ls')"
    using segs_ok_other [OF parts(1) same k(1)] segs_ok_other [OF parts(2) same k(2)] sm'(2) by (simp add: list_all2_appendI)
  moreover have "omap_wf (ss @ ss')" using assms(1,2) by (auto simp: mgr_ok_def sorted_wrt_append)
  moreover have "sm_current_segment_id sm' = fst (last (ss @ ss'))" if "ss @ ss' \<noteq> []"
    using that sm'(3) assms(1,2) k by (cases "ss' = []") (auto simp: mgr_ok_def)
  ultimately show ?thesis using sm'(1) by (simp add: mgr_ok_def)
qed

section \<open>The log behind the segments\<close>

definition all_positions :: "wal_env \<Rightarrow> (u64 \<times> Segment) list \<Rightarrow> item list list \<Rightarrow> (entry \<times> IndexEntry) list" where
  "all_positions X ss L = concat (map (\<lambda>(p, is). positions X (fst p) 32 is) (zip ss L))"

lemma all_positions_append:
  "length ss = length Ls \<Longrightarrow> all_positions X (ss @ ss') (Ls @ Ls') = all_positions X ss Ls @ all_positions X ss' Ls'"
  by (simp add: all_positions_def)

lemma all_positions_simps [simp]:
  "all_positions X [] [] = []"
  "all_positions X (p # ss) (is # L) = positions X (fst p) 32 is @ all_positions X ss L"
  by (simp_all add: all_positions_def)

lemma all_positions_entries: "length ss = length L \<Longrightarrow> map fst (all_positions X ss L) = concat (map item_entries L)"
  by (induction ss L rule: list_induct2) (simp_all add: positions_entries)

text \<open>Entries before the first index have been compacted.\<close>

definition live :: "u64 \<Rightarrow> (entry \<times> IndexEntry) list \<Rightarrow> (entry \<times> IndexEntry) list" where
  "live first ps = filter (\<lambda>p. first \<le> e_index (fst p)) ps"

lemma live_append [simp]: "live first (ps @ qs) = live first ps @ live first qs"
  by (simp add: live_def)

lemma live_all: "(\<And>e. e \<in> set (map fst ps) \<Longrightarrow> first \<le> e_index e) \<Longrightarrow> live first ps = ps"
  by (simp add: live_def filter_id_conv)

text \<open>
  The first index of a segment is at most that of its entries, and the later segments begin after them: the
  search for the segment of an index by first indices then finds the right one.
\<close>

definition routed :: "(u64 \<times> Segment) list \<Rightarrow> item list list \<Rightarrow> bool" where
  "routed ss L \<longleftrightarrow>
     (\<forall>(p, is) \<in> set (zip ss L). \<forall>e \<in> set (item_entries is). seg_first_index (snd p) \<le> e_index e) \<and>
     sorted_wrt (\<lambda>(p, is) (p', is'). seg_first_index (snd p) < seg_first_index (snd p') \<and>
       (\<forall>e \<in> set (item_entries is). e_index e < seg_first_index (snd p'))) (zip ss L)"

lemma segment_for_index_skip:
  "\<forall>p \<in> set ss. seg_first_index (snd p) \<le> i \<Longrightarrow> \<exists>acc'. segment_for_index i (ss @ ss') acc = segment_for_index i ss' acc'"
  by (induction ss arbitrary: acc) auto

lemma segment_for_index_stop: "\<forall>p \<in> set ss. i < seg_first_index (snd p) \<Longrightarrow> segment_for_index i ss acc = acc"
  by (cases ss) auto

lemma routed_split:
  assumes "routed (ss @ (k, s) # ss') (Ls @ is # Ls')" "length ss = length Ls" "length ss' = length Ls'"
  shows "\<And>p. p \<in> set ss \<Longrightarrow> seg_first_index (snd p) < seg_first_index s"
    "\<And>e. e \<in> set (item_entries is) \<Longrightarrow> seg_first_index s \<le> e_index e"
    "\<And>p e. p \<in> set ss' \<Longrightarrow> e \<in> set (item_entries is) \<Longrightarrow> e_index e < seg_first_index (snd p)"
    "\<And>p. p \<in> set ss' \<Longrightarrow> seg_first_index s < seg_first_index (snd p)"
    "\<And>is1 e. is1 \<in> set Ls \<Longrightarrow> e \<in> set (item_entries is1) \<Longrightarrow> e_index e < seg_first_index s"
proof -
  have z: "zip (ss @ (k, s) # ss') (Ls @ is # Ls') = zip ss Ls @ ((k, s), is) # zip ss' Ls'" using assms(2) by simp
  have ex: "\<exists>i. (p, i) \<in> set (zip xs ys)" if "p \<in> set xs" "length xs = length ys" for p :: "u64 \<times> Segment" and xs and ys :: "item list list"
    using that by (metis in_set_impl_in_set_zip1)
  have ex2: "\<exists>i. (i, p) \<in> set (zip xs ys)" if "p \<in> set ys" "length xs = length ys" for p and xs :: "(u64 \<times> Segment) list" and ys :: "item list list"
    using that by (metis in_set_impl_in_set_zip2)
  show "\<And>p. p \<in> set ss \<Longrightarrow> seg_first_index (snd p) < seg_first_index s"
    using assms(1) ex [OF _ assms(2)] unfolding routed_def z by (fastforce simp: sorted_wrt_append)
  show "\<And>e. e \<in> set (item_entries is) \<Longrightarrow> seg_first_index s \<le> e_index e"
    using assms(1) unfolding routed_def z by (auto simp: sorted_wrt_append)
  show "\<And>p e. p \<in> set ss' \<Longrightarrow> e \<in> set (item_entries is) \<Longrightarrow> e_index e < seg_first_index (snd p)"
    using assms(1) ex [OF _ assms(3)] unfolding routed_def z by (fastforce simp: sorted_wrt_append)
  show "\<And>p. p \<in> set ss' \<Longrightarrow> seg_first_index s < seg_first_index (snd p)"
    using assms(1) ex [OF _ assms(3)] unfolding routed_def z by (fastforce simp: sorted_wrt_append)
  show "\<And>is1 e. is1 \<in> set Ls \<Longrightarrow> e \<in> set (item_entries is1) \<Longrightarrow> e_index e < seg_first_index s"
    using assms(1) ex2 [OF _ assms(2)] unfolding routed_def z by (fastforce simp: sorted_wrt_append)
qed

lemma routed_finds:
  assumes "routed (ss @ (k, s) # ss') (Ls @ is # Ls')" "length ss = length Ls" "length ss' = length Ls'" "e \<in> set (item_entries is)"
  shows "segment_for_index (e_index e) (ss @ (k, s) # ss') acc = Some k"
proof -
  note r = routed_split [OF assms(1-3)]
  have "seg_first_index s \<le> e_index e" using r(2) assms(4) .
  then have "\<exists>acc'. segment_for_index (e_index e) (ss @ (k, s) # ss') acc = segment_for_index (e_index e) ((k, s) # ss') acc'"
    by (intro segment_for_index_skip) (use r(1) in force)
  moreover have "segment_for_index (e_index e) ss' (Some k) = Some k"
    using r(3) [OF _ assms(4)] by (simp add: segment_for_index_stop)
  ultimately show ?thesis using \<open>seg_first_index s \<le> e_index e\<close> by auto
qed

lemma routed_extend:
  assumes "routed (ss @ [(k, s)]) (Ls @ [is])" "length ss = length Ls" "seg_first_index s' = seg_first_index s"
    "\<And>e. e \<in> set (item_entries js) \<Longrightarrow> seg_first_index s \<le> e_index e"
  shows "routed (ss @ [(k, s')]) (Ls @ [is @ js])"
  using assms unfolding routed_def by (auto simp: sorted_wrt_append split_beta)

lemma routed_new:
  assumes "routed ss L" "length ss = length L" "\<And>p. p \<in> set ss \<Longrightarrow> seg_first_index (snd p) < seg_first_index s"
    "\<And>is e. is \<in> set L \<Longrightarrow> e \<in> set (item_entries is) \<Longrightarrow> e_index e < seg_first_index s"
  shows "routed (ss @ [(k, s)]) (L @ [[]])"
  using assms unfolding routed_def
  by (auto simp: sorted_wrt_append split_beta dest: set_zip_leftD set_zip_rightD in_set_zipE)

lemma routed_cut:
  assumes "routed (ss @ (k, s) # ss') (Ls @ (is @ js) # Ls')" "length ss = length Ls" "seg_first_index s' = seg_first_index s"
  shows "routed (ss @ [(k, s')]) (Ls @ [is])"
  using assms unfolding routed_def by (auto simp: sorted_wrt_append split_beta)

end
