(* ===== verification/WalLog.thy ===== *)
theory WalLog
  imports WalLayout
begin

text \<open>
  The write-ahead log as a list of entries: appending replaces the suffix from the first new index, reading returns the
  entries asked for, and the layout on disk is kept.
\<close>

section \<open>Invariant\<close>

abbreviation w_segs :: "WAL \<Rightarrow> (u64 \<times> Segment) list" where
  "w_segs w \<equiv> sm_segments (w_segments w)"

definition cfg_ok :: "wal_env \<Rightarrow> bool" where
  "cfg_ok X \<longleftrightarrow> 32 < unat (wc_segment_size (x_config X)) \<and> unat (wc_write_buffer_size (x_config X)) < 2 ^ 32"

text \<open>The records on disk, the index and the entries \<open>es\<close> of the log agree.\<close>

definition log_ok :: "wal_env \<Rightarrow> WAL \<Rightarrow> disk \<Rightarrow> item list list \<Rightarrow> entry list \<Rightarrow> bool" where
  "log_ok X w d L es \<longleftrightarrow>
     mgr_ok X (w_segments w) d L \<and>
     es = map fst (live (w_first_index w) (all_positions X (w_segs w) L)) \<and>
     wi_entries (w_index w) = map snd (live (w_first_index w) (all_positions X (w_segs w) L)) \<and>
     wi_first_index (w_index w) = w_first_index w \<and> contig (w_first_index w) es \<and>
     0 < unat (w_first_index w) \<and> unat (w_first_index w) + length es < 2 ^ 64 \<and> routed (w_segs w) L \<and>
     (\<forall>p \<in> set (w_segs w). unat (seg_first_index (snd p)) \<le> unat (w_first_index w) + length es) \<and>
     (\<forall>is \<in> set L. \<forall>e \<in> set (item_entries is). unat (e_index e) < unat (w_first_index w) + length es)"

text \<open>Entries that wait in the write buffer.\<close>

fun pending_of :: "wal_env \<Rightarrow> nat \<Rightarrow> entry list \<Rightarrow> PendingEntry list" where
  "pending_of X off [] = []"
| "pending_of X off (e # es) =
     \<lparr>pe_index = e_index e, pe_term = e_term e, pe_offset_in_buffer = of_nat off,
      pe_record_length = of_nat (length (entry_record X e))\<rparr> # pending_of X (off + length (entry_record X e)) es"

definition buffer_ok :: "wal_env \<Rightarrow> WAL \<Rightarrow> entry list \<Rightarrow> bool" where
  "buffer_ok X w bs \<longleftrightarrow> w_buffer w = records X (map Entry_item bs) \<and> w_pending_entries w = pending_of X 0 bs \<and>
     length (w_buffer w) < 2 ^ 32"

text \<open>What the operations on the log leave alone.\<close>

definition same_state :: "WAL \<Rightarrow> WAL \<Rightarrow> bool" where
  "same_state w w' \<longleftrightarrow> w_first_index w' = w_first_index w \<and> w_hard_state w' = w_hard_state w \<and>
     w_conf_state w' = w_conf_state w \<and> w_peer_addresses w' = w_peer_addresses w \<and>
     w_snapshot_index w' = w_snapshot_index w \<and> w_snapshot_term w' = w_snapshot_term w"

lemma same_state_refl [simp]: "same_state w w"
  by (simp add: same_state_def)

lemma same_state_trans: "same_state w w1 \<Longrightarrow> same_state w1 w2 \<Longrightarrow> same_state w w2"
  by (simp add: same_state_def)

abbreviation entry_ok :: "wal_env \<Rightarrow> entry \<Rightarrow> bool" where
  "entry_ok X e \<equiv> item_ok X (Entry_item e)"

lemma pending_of_append:
  "pending_of X off (bs @ cs) = pending_of X off bs @ pending_of X (off + length (records X (map Entry_item bs))) cs"
  by (induction bs arbitrary: off) (simp_all add: item_record_def add.assoc)

section \<open>Flushing the write buffer\<close>

lemma contig_index_ge:
  assumes "contig n es" "unat n + length es < 2 ^ 64" "e \<in> set es"
  shows "unat n \<le> unat (e_index e)" "unat (e_index e) < unat n + length es"
proof -
  obtain i where i: "i < length es" "e = es ! i" using assms(3) by (auto simp: in_set_conv_nth)
  have "unat (e_index e) = unat n + i"
    using contig_nth [OF assms(1) i(1)] i assms(2) unat_add_of_nat_u64 [of n i] by simp
  then show "unat n \<le> unat (e_index e)" "unat (e_index e) < unat n + length es" using i(1) by simp_all
qed

lemma insert_pending_index:
  assumes "contig i bs" "unat (wi_first_index ix) + length (wi_entries ix) + length bs < 2 ^ 64"
    "unat i = unat (wi_first_index ix) + length (wi_entries ix)" "off + length (records X (map Entry_item bs)) < 2 ^ 32"
    "start = of_nat base"
  shows "wi_first_index (insert_pending sid start (pending_of X off bs) ix) = wi_first_index ix \<and>
    wi_entries (insert_pending sid start (pending_of X off bs) ix) =
      wi_entries ix @ map snd (positions X sid (base + off) (map Entry_item bs))"
  using assms
proof (induction bs arbitrary: i ix off)
  case (Cons e bs)
  let ?e = "\<lparr>ie_segment_id = sid, ie_offset = start + ucast (of_nat off :: u32), ie_length = of_nat (length (entry_record X e)), ie_term = e_term e\<rparr>"
  let ?ix = "WALIndex_Insert (e_index e) ?e ix"
  have ins: "wi_first_index ?ix = wi_first_index ix" "wi_entries ?ix = wi_entries ix @ [?e]"
    using wi.insert_next [of ix "e_index e" ?e] Cons.prems(1-3) by simp_all
  have "ucast (of_nat off :: u32) = (of_nat off :: u64)"
    using Cons.prems(4) by (intro word_unat_eq_iff [THEN iffD2]) (simp add: unsigned_ucast_eq unat_of_nat take_bit_nat_eq_self)
  then have e: "?e = \<lparr>ie_segment_id = sid, ie_offset = of_nat (base + off), ie_length = of_nat (length (entry_record X e)), ie_term = e_term e\<rparr>"
    using Cons.prems(5) by simp
  have "unat (i + 1) = Suc (unat i)" using Cons.prems(2,3) by (intro unat_Suc_bound_u64) simp
  then show ?case
    using Cons.IH [of "i + 1" ?ix "off + length (entry_record X e)"] Cons.prems ins e
    by (simp add: item_record_def add.assoc)
qed simp

lemma log_ok_length: "log_ok X w d L es \<Longrightarrow> length (w_segs w) = length L"
  by (auto simp: log_ok_def mgr_ok_def list_all2_lengthD)

lemma log_ok_cong:
  assumes "w_segments w' = w_segments w" "w_index w' = w_index w" "w_first_index w' = w_first_index w"
  shows "log_ok X w' d L es = log_ok X w d L es"
  unfolding log_ok_def assms ..

lemma contig_append_entries:
  assumes "contig n es" "unat n + length es < 2 ^ 64" "contig i bs" "unat i = unat n + length es"
  shows "contig n (es @ bs)"
proof -
  have "i = n + of_nat (length es)" using assms(2,4) by (simp add: u64_eq_iff unat_add_of_nat_u64)
  then show ?thesis using assms(1,3) by (simp add: contig_append)
qed

text \<open>Entries written at the end of the last segment.\<close>

lemma log_ok_extend:
  assumes "log_ok X w d (Ls @ [is]) es" "w_segs w = ss @ [(k, s)]"
    "mgr_ok X (w_segments w') d' (Ls @ [is @ map Entry_item bs])" "w_segs w' = ss @ [(k, s')]"
    "seg_first_index s' = seg_first_index s" "w_first_index w' = w_first_index w"
    "contig i bs" "unat i = unat (w_first_index w) + length es" "unat (w_first_index w) + length es + length bs < 2 ^ 64"
    "wi_first_index (w_index w') = w_first_index w"
    "wi_entries (w_index w') = wi_entries (w_index w) @ map snd (positions X k (32 + length (records X is)) (map Entry_item bs))"
  shows "log_ok X w' d' (Ls @ [is @ map Entry_item bs]) (es @ bs)"
proof -
  let ?new = "positions X k (32 + length (records X is)) (map Entry_item bs)"
  note ok = assms(1) [unfolded log_ok_def]
  have len: "length ss = length Ls" using log_ok_length [OF assms(1)] assms(2) by simp
  have ge: "unat i \<le> unat (e_index e)" "unat (e_index e) < unat i + length bs" if "e \<in> set bs" for e
    using contig_index_ge [OF assms(7) _ that] assms(8,9) by simp_all
  have all: "all_positions X (w_segs w') (Ls @ [is @ map Entry_item bs]) = all_positions X (w_segs w) (Ls @ [is]) @ ?new"
    using len by (simp add: assms(2,4) all_positions_append positions_append)
  have ge0: "w_first_index w \<le> e_index e" if "e \<in> set bs" for e
    using ge(1) [OF that] assms(8) by (simp add: word_le_nat_alt)
  have "live (w_first_index w) ?new = ?new"
    by (rule live_all) (use ge0 in \<open>auto simp: positions_entries\<close>)
  then have live: "live (w_first_index w') (all_positions X (w_segs w') (Ls @ [is @ map Entry_item bs])) =
      live (w_first_index w) (all_positions X (w_segs w) (Ls @ [is])) @ ?new"
    unfolding all assms(6) by simp
  have es: "es = map fst (live (w_first_index w) (all_positions X (w_segs w) (Ls @ [is])))" using ok by blast
  have first: "unat (seg_first_index s) \<le> unat i" using ok assms(2,8) by auto
  have "routed (w_segs w') (Ls @ [is @ map Entry_item bs])"
    unfolding assms(4) by (rule routed_extend [of _ _ s])
      (use ok assms(2,5) len ge first in \<open>auto simp: word_le_nat_alt intro: order_trans\<close>)
  moreover have "contig (w_first_index w') (es @ bs)"
    unfolding assms(6) by (rule contig_append_entries [OF _ _ assms(7,8)]) (use ok in blast)+
  moreover have "es @ bs = map fst (live (w_first_index w') (all_positions X (w_segs w') (Ls @ [is @ map Entry_item bs])))"
    unfolding live map_append es [symmetric] by (simp add: positions_entries)
  moreover have "wi_entries (w_index w') = map snd (live (w_first_index w') (all_positions X (w_segs w') (Ls @ [is @ map Entry_item bs])))"
    unfolding live assms(11) map_append using ok by metis
  moreover have "\<forall>p \<in> set (w_segs w'). unat (seg_first_index (snd p)) \<le> unat (w_first_index w') + length (es @ bs)"
    using ok assms(2,4,5,6) by auto
  moreover have "\<forall>is' \<in> set (Ls @ [is @ map Entry_item bs]). \<forall>e \<in> set (item_entries is'). unat (e_index e) < unat (w_first_index w') + length (es @ bs)"
    using ok ge assms(6,8) by fastforce
  moreover have "0 < unat (w_first_index w')" "unat (w_first_index w') + length (es @ bs) < 2 ^ 64"
    "wi_first_index (w_index w') = w_first_index w'"
    using ok assms(6,9,10) by simp_all
  ultimately show ?thesis
    using assms(3) unfolding log_ok_def by blast
qed

lemma GetCurrent_nonempty:
  assumes "mgr_ok X sm d L" "sm_segments sm \<noteq> []" "SegmentManager_GetCurrentSegment os cfg i (sm, d) = (r, sm', d')"
  shows "r = Inr (sm_current_segment_id sm) \<and> sm' = sm \<and> d' = d"
proof -
  obtain ss s where ss: "sm_segments sm = ss @ [(sm_current_segment_id sm, s)]" using mgr_current [OF assms(1,2)] .
  then have "map_of (sm_segments sm) (sm_current_segment_id sm) = Some s"
    using assms(1) omap_wf_append [of ss "sm_current_segment_id sm" s "[]"] by (auto simp: mgr_ok_def)
  then show ?thesis using assms(2,3) by (auto simp: SegmentManager_GetCurrentSegment_def)
qed

lemma GetCurrent_same:
  assumes "mgr_ok X (w_segments w) d L" "w_segs w \<noteq> []"
  shows "on_segments (SegmentManager_GetCurrentSegment os cfg i) (w, d) = (Inr (sm_current_segment_id (w_segments w)), w, d)"
  using GetCurrent_nonempty [OF assms]
  by (cases "SegmentManager_GetCurrentSegment os cfg i (w_segments w, d)") (auto simp: on_segments_def)

text \<open>Writing entries to the current segment.\<close>

lemma append_current:
  assumes "log_ok X w d L es" "w_segs w \<noteq> []" "\<forall>e \<in> set bs. entry_ok X e" "length (records X (map Entry_item bs)) < 2 ^ 33"
    "on_segments (on_segment (sm_current_segment_id (w_segments w)) (Segment_Append os (records X (map Entry_item bs)))) (w, d) = (Inr u, w', d')"
  obtains ss k s s' Ls "is" where "w_segs w = ss @ [(k, s)]" "k = sm_current_segment_id (w_segments w)" "L = Ls @ [is]"
    "w' = w\<lparr>w_segments := w_segments w'\<rparr>" "w_segs w' = ss @ [(k, s')]" "sm_current_segment_id (w_segments w') = k"
    "seg_first_index s' = seg_first_index s" "mgr_ok X (w_segments w') d' (Ls @ [is @ map Entry_item bs])"
    "unat (seg_write_offset s) = 32 + length (records X is)" "segment_at k (w_segments w) = s"
proof -
  define k where "k = sm_current_segment_id (w_segments w)"
  have mgr: "mgr_ok X (w_segments w) d L" using assms(1) by (simp add: log_ok_def)
  obtain ss s where ss: "w_segs w = ss @ [(k, s)]" using mgr_current [OF mgr assms(2)] k_def by blast
  obtain Ls "is" where L: "L = Ls @ [is]" "length ss = length Ls"
    using log_ok_length [OF assms(1)] ss by (cases L rule: rev_cases) auto
  have sok: "seg_ok X d (k, s) is" using mgr ss L by (auto simp: mgr_ok_def list_all2_append)
  obtain sm' where app: "on_segment k (Segment_Append os (records X (map Entry_item bs))) (w_segments w, d) = (Inr u, sm', d')"
    and w': "w' = w\<lparr>w_segments := sm'\<rparr>"
    using assms(5) by (auto simp: on_segments_def k_def split: prod.splits)
  have step: "seg_ok X d' (k, s1) (is @ map Entry_item bs) \<and> seg_frame (s, d) (s1, d')"
    if "Segment_Append os (records X (map Entry_item bs)) (s, d) = (Inr u, s1, d')" for s1
    using Segment_Append_holds [OF _ that assms(4), of "is"] sok assms(3) unclogged_entries [of X "is" bs]
    by (auto simp: seg_ok_def seg_frame_def list_all_iff)
  have "segment_at k (w_segments w) = s"
    using mgr ss omap_wf_append [of ss k s "[]"] by (simp add: segment_at_def mgr_ok_def)
  then show ?thesis
    using that [OF ss k_def L(1)] on_segment_middle [OF mgr [unfolded L(1)] ss L(2) app step refl] w' sok k_def
    by (simp add: seg_ok_def seg_holds_def)
qed

text \<open>The log \<open>es\<close> on disk, and the entries \<open>bs\<close> after it that wait in the buffer.\<close>

definition mid :: "wal_env \<Rightarrow> WAL \<Rightarrow> disk \<Rightarrow> item list list \<Rightarrow> entry list \<Rightarrow> entry list \<Rightarrow> bool" where
  "mid X w d L es bs \<longleftrightarrow> log_ok X w d L es \<and> buffer_ok X w bs \<and> contig (w_first_index w + of_nat (length es)) bs \<and>
     unat (w_first_index w) + length es + length bs < 2 ^ 64 \<and> (\<forall>e \<in> set bs. entry_ok X e) \<and> (bs \<noteq> [] \<longrightarrow> w_segs w \<noteq> [])"

abbreviation layout_states :: "item list list \<Rightarrow> hard_state list" where
  "layout_states L \<equiv> concat (map item_states L)"

text \<open>Along an operation on the log: the hard states on disk stay, and at most \<open>n\<close> segments are added.\<close>

definition grows :: "nat \<Rightarrow> WAL \<Rightarrow> item list list \<Rightarrow> WAL \<Rightarrow> item list list \<Rightarrow> bool" where
  "grows n w L w' L' \<longleftrightarrow> same_state w w' \<and> layout_states L' = layout_states L \<and>
     unat (sm_current_segment_id (w_segments w')) \<le> unat (sm_current_segment_id (w_segments w)) + n \<and>
     (w_segs w \<noteq> [] \<longrightarrow> w_segs w' \<noteq> [])"

lemma grows_refl [simp]: "grows n w L w L"
  by (simp add: grows_def)

lemma grows_trans: "grows m w L w1 L1 \<Longrightarrow> grows n w1 L1 w2 L2 \<Longrightarrow> grows (m + n) w L w2 L2"
  by (auto simp: grows_def intro: same_state_trans)

lemma grows_mono: "grows m w L w' L' \<Longrightarrow> m \<le> n \<Longrightarrow> grows n w L w' L'"
  by (auto simp: grows_def)

lemma u64_of_nat: "unat (x :: u64) = n \<Longrightarrow> x = of_nat n"
  using unat_lt_max [of x] unat_of_nat_u64 [of n] by (simp add: u64_eq_iff)

lemma mid_first: "mid X w d L es bs \<Longrightarrow> unat (w_first_index w + of_nat (length es)) = unat (w_first_index w) + length es"
  by (rule unat_add_of_nat_u64) (simp add: mid_def)

lemma records_nonempty: "bs \<noteq> [] \<Longrightarrow> \<forall>e \<in> set bs. entry_ok X e \<Longrightarrow> records X (map Entry_item bs) \<noteq> []"
  using item_record_length(1) by (cases bs) fastforce+

abbreviation seg_firsts :: "WAL \<Rightarrow> u64 list" where
  "seg_firsts w \<equiv> map (\<lambda>p. seg_first_index (snd p)) (w_segs w)"

lemma Flush_log:
  assumes "WAL_FlushWriteBuffer X (w, d) = (Inr u, w', d')" "mid X w d L es bs"
  obtains L' where "mid X w' d' L' (es @ bs) []" "grows 0 w L w' L'" "seg_firsts w' = seg_firsts w"
    "sm_current_segment_id (w_segments w') = sm_current_segment_id (w_segments w)"
proof (cases "bs = []")
  case True
  then have "w' = w" "d' = d" using assms by (auto simp: WAL_FlushWriteBuffer_def mid_def buffer_ok_def)
  then show ?thesis using that [of L] assms(2) True by simp
next
  case False
  let ?k = "sm_current_segment_id (w_segments w)"
  have m: "log_ok X w d L es" "w_buffer w = records X (map Entry_item bs)" "w_pending_entries w = pending_of X 0 bs"
    "length (records X (map Entry_item bs)) < 2 ^ 32" "\<forall>e \<in> set bs. entry_ok X e" "w_segs w \<noteq> []"
    using assms(2) False by (auto simp: mid_def buffer_ok_def)
  have mgr: "mgr_ok X (w_segments w) d L" using m(1) by (simp add: log_ok_def)
  have ne: "w_buffer w \<noteq> []" using records_nonempty [OF False m(5)] m(2) by simp
  have cur: "on_segments (SegmentManager_GetCurrentSegment (x_os X) (x_config X) i) (w, d) = (Inr ?k, w, d)" for i
    using mgr m(6) by (rule GetCurrent_same)
  obtain w1 d1 where app: "on_segments (on_segment ?k (Segment_Append (x_os X) (records X (map Entry_item bs)))) (w, d) = (Inr (), w1, d1)"
    and w': "w' = w1\<lparr>w_index := insert_pending ?k (seg_write_offset (segment_at ?k (w_segments w))) (w_pending_entries w1) (w_index w1),
      w_pending_entries := [], w_buffer := []\<rparr>" "d' = d1"
    using assms(1) ne cur m(2) by (auto simp: WAL_FlushWriteBuffer_def Let_def elim!: io_bind_InrE)
  have small: "length (records X (map Entry_item bs)) < 2 ^ 33" using m(4) by simp
  obtain ss k s s' Ls "is" where a: "w_segs w = ss @ [(k, s)]" "k = ?k" "L = Ls @ [is]" "w1 = w\<lparr>w_segments := w_segments w1\<rparr>"
    "w_segs w1 = ss @ [(k, s')]" "sm_current_segment_id (w_segments w1) = k" "seg_first_index s' = seg_first_index s"
    "mgr_ok X (w_segments w1) d1 (Ls @ [is @ map Entry_item bs])" "unat (seg_write_offset s) = 32 + length (records X is)"
    "segment_at k (w_segments w) = s"
    using append_current [OF m(1,6,5) small app] .
  have w1: "w_index w1 = w_index w" "w_pending_entries w1 = pending_of X 0 bs" "same_state w w1" "w_first_index w1 = w_first_index w"
    using m(3) by (subst a(4), simp add: same_state_def)+
  have start: "seg_write_offset s = of_nat (32 + length (records X is))" using u64_of_nat [OF a(9)] .
  have c: "contig (w_first_index w + of_nat (length es)) bs" "unat (w_first_index w) + length es + length bs < 2 ^ 64"
    using assms(2) by (auto simp: mid_def)
  have lok: "wi_first_index (w_index w) = w_first_index w" "length (wi_entries (w_index w)) = length es"
    using m(1) by (auto simp: log_ok_def)
  have ix: "wi_first_index (w_index w') = w_first_index w \<and>
    wi_entries (w_index w') = wi_entries (w_index w) @ map snd (positions X k (32 + length (records X is)) (map Entry_item bs))"
    using insert_pending_index [OF c(1), of "w_index w" 0 X _ "32 + length (records X is)" k] c(2) lok mid_first [OF assms(2)] m(4) start w1 w' a(2,10)
    by simp
  have "log_ok X w' d' (Ls @ [is @ map Entry_item bs]) (es @ bs)"
    by (rule log_ok_extend [OF m(1) [unfolded a(3)] a(1) _ _ a(7) _ c(1) mid_first [OF assms(2)] c(2)])
      (use a(5,8) w' w1 ix in simp_all)
  moreover have "buffer_ok X w' []" using w' by (simp add: buffer_ok_def)
  moreover have "same_state w w'" using w' w1(3) by (simp add: same_state_def)
  ultimately show ?thesis
    using that [of "Ls @ [is @ map Entry_item bs]"] c(2) w' a(1-3,5-7) by (auto simp: mid_def grows_def same_state_def)
qed

section \<open>Rolling to a new segment\<close>

lemma log_ok_index_append: "log_ok X w d L es \<Longrightarrow> e \<in> set (concat (map item_entries L)) \<Longrightarrow> unat (e_index e) < unat (w_first_index w) + length es"
  by (auto simp: log_ok_def)

lemma Roll_log:
  assumes "on_segments (SegmentManager_RollToNewSegment (x_os X) cfg i) (w, d) = (Inr sid, w', d')" "mid X w d L es []"
    "\<forall>f \<in> set (seg_firsts w). unat f < unat i" "unat i = unat (w_first_index w) + length es"
    "unat (sm_current_segment_id (w_segments w)) + 1 < 2 ^ 64" "cfg_ok X"
  shows "mid X w' d' (L @ [[]]) es [] \<and> grows 1 w L w' (L @ [[]]) \<and> sid = sm_current_segment_id (w_segments w') \<and> w_segs w' \<noteq> [] \<and>
    seg_write_offset (segment_at sid (w_segments w')) = 32"
proof -
  have log: "log_ok X w d L es" and buf: "w_buffer w = []" "w_pending_entries w = []"
    using assms(2) by (auto simp: mid_def buffer_ok_def)
  have mgr: "mgr_ok X (w_segments w) d L" using log by (simp add: log_ok_def)
  obtain sm' where r: "SegmentManager_RollToNewSegment (x_os X) cfg i (w_segments w, d) = (Inr sid, sm', d')" "w' = w\<lparr>w_segments := sm'\<rparr>"
    using assms(1) by (auto simp: on_segments_def split: prod.splits)
  obtain s where n: "mgr_ok X sm' d' (L @ [[]])" "sm_segments sm' = w_segs w @ [(sid, s)]" "seg_first_index s = i"
    "sm_current_segment_id sm' = sid" "sid = sm_current_segment_id (w_segments w) + 1" "seg_write_offset s = 32" "segment_at sid sm' = s"
    using mgr_roll [OF mgr r(1) assms(5)] assms(6) unfolding cfg_ok_def by blast
  have len: "length (w_segs w) = length L" using log_ok_length [OF log] .
  have ap: "all_positions X (w_segs w @ [(sid, s)]) (L @ [[]]) = all_positions X (w_segs w) L"
    using len by (simp add: all_positions_append)
  have "routed (w_segs w @ [(sid, s)]) (L @ [[]])"
  proof (rule routed_new [OF _ len])
    show "routed (w_segs w) L" using log by (simp add: log_ok_def)
    show "seg_first_index (snd p) < seg_first_index s" if "p \<in> set (w_segs w)" for p
      using assms(3) that n(3) by (auto simp: word_less_nat_alt)
    show "e_index e < seg_first_index s" if "is \<in> set L" "e \<in> set (item_entries is)" for "is" e
      using log that assms(4) n(3) by (auto simp: log_ok_def word_less_nat_alt)
  qed
  then have "log_ok X w' d' (L @ [[]]) es"
    using log n(1-3) r(2) assms(4) ap unfolding log_ok_def by auto
  moreover have "unat sid = Suc (unat (sm_current_segment_id (w_segments w)))"
    using n(5) assms(5) by (simp add: unat_Suc_bound_u64)
  ultimately show ?thesis
    using assms(2) r(2) n by (auto simp: mid_def buffer_ok_def grows_def same_state_def)
qed

text \<open>A full segment holds an entry, so a new segment for the next index begins later.\<close>

lemma full_strict:
  assumes "log_ok X w d L es" "w_segs w \<noteq> []"
    "Segment_IsFull (wc_segment_size (x_config X)) (segment_at (sm_current_segment_id (w_segments w)) (w_segments w))"
  shows "\<forall>f \<in> set (seg_firsts w). unat f < unat (w_first_index w) + length es"
proof -
  let ?k = "sm_current_segment_id (w_segments w)"
  have mgr: "mgr_ok X (w_segments w) d L" using assms(1) by (simp add: log_ok_def)
  obtain ss s where ss: "w_segs w = ss @ [(?k, s)]" using mgr_current [OF mgr assms(2)] .
  obtain Ls "is" Ls' where a: "L = Ls @ is # Ls'" "list_all2 (seg_ok X d) ss Ls" "list_all2 (seg_ok X d) [] Ls'" "seg_ok X d (?k, s) is"
    "segment_at ?k (w_segments w) = s"
    using mgr_at [OF mgr, of ss ?k s "[]"] ss by metis
  have L: "L = Ls @ [is]" and len: "length ss = length Ls" using a(1-3) by (auto dest: list_all2_lengthD)
  have "unat (wc_segment_size (x_config X)) \<le> 32 + length (records X is)"
    using assms(3) a(4,5) by (simp add: Segment_IsFull_def seg_ok_def seg_holds_def word_le_nat_alt)
  then have "length (records X (takeWhile is_state is)) \<noteq> length (records X is)" using a(4) by (auto simp: seg_ok_def unclogged_def)
  then have "takeWhile is_state is \<noteq> is" by metis
  then obtain it where "it \<in> set is" "\<not> is_state it" by (auto simp: takeWhile_eq_all_conv)
  then obtain e where it: "Entry_item e \<in> set is" by (cases it rule: item.exhaust) (auto simp: is_state_def)
  have e: "e \<in> set (item_entries is)" using it by (induction "is" rule: item_entries.induct) auto
  have routed: "routed (ss @ (?k, s) # []) (Ls @ is # [])" using assms(1) ss L by (simp add: log_ok_def)
  note r = routed_split [OF routed len]
  have "unat (seg_first_index s) \<le> unat (e_index e)" using r(2) e by (simp add: word_le_nat_alt)
  moreover have "unat (e_index e) < unat (w_first_index w) + length es" using log_ok_index_append [OF assms(1), of e] e L by auto
  moreover have "unat (seg_first_index (snd p)) < unat (seg_first_index s)" if "p \<in> set ss" for p
    using r(1) that by (simp add: word_less_nat_alt)
  ultimately show ?thesis using ss by fastforce
qed

lemma MaybeRoll_log:
  assumes "WAL_MaybeRollSegmentForAppend X i segment (w, d) = (Inr segment', w', d')" "mid X w d L es bs"
    "segment = sm_current_segment_id (w_segments w)" "w_segs w \<noteq> []" "unat i = unat (w_first_index w) + length es + length bs"
    "unat (sm_current_segment_id (w_segments w)) + 1 < 2 ^ 64" "cfg_ok X"
  obtains L' es' bs' where "mid X w' d' L' es' bs'" "es' @ bs' = es @ bs" "grows 1 w L w' L'"
    "segment' = sm_current_segment_id (w_segments w')" "w_segs w' \<noteq> []" "bs = [] \<Longrightarrow> bs' = []"
proof (cases "Segment_IsFull (wc_segment_size (x_config X)) (segment_at segment (w_segments w))")
  case False
  then have "w' = w" "d' = d" "segment' = segment" using assms(1) by (auto simp: WAL_MaybeRollSegmentForAppend_def)
  then show ?thesis using that [of L es bs] assms(2-4) by simp
next
  case True
  obtain w1 d1 where f: "WAL_FlushWriteBuffer X (w, d) = (Inr (), w1, d1)"
    and r: "on_segments (SegmentManager_RollToNewSegment (x_os X) (x_config X) i) (w1, d1) = (Inr segment', w', d')"
    using assms(1) True by (auto simp: WAL_MaybeRollSegmentForAppend_def elim!: io_bind_InrE)
  obtain L1 where m1: "mid X w1 d1 L1 (es @ bs) []" "grows 0 w L w1 L1" "seg_firsts w1 = seg_firsts w"
    "sm_current_segment_id (w_segments w1) = sm_current_segment_id (w_segments w)"
    using Flush_log [OF f assms(2)] .
  have log: "log_ok X w d L es" using assms(2) by (simp add: mid_def)
  have fi: "w_first_index w1 = w_first_index w" using m1(2) by (simp add: grows_def same_state_def)
  have "\<forall>f \<in> set (seg_firsts w1). unat f < unat i"
    unfolding m1(3) using full_strict [OF log assms(4)] True assms(3,5) by fastforce
  then have "mid X w' d' (L1 @ [[]]) (es @ bs) [] \<and> grows 1 w1 L1 w' (L1 @ [[]]) \<and> segment' = sm_current_segment_id (w_segments w') \<and> w_segs w' \<noteq> []"
    using Roll_log [OF r m1(1)] assms(5,6,7) fi m1(4) by simp
  then show ?thesis using that [of "L1 @ [[]]" "es @ bs" "[]"] grows_trans [OF m1(2)] by fastforce
qed

section \<open>Appending\<close>

lemma GetCurrent_log:
  assumes "WAL_GetCurrentSegmentForAppend X i (w, d) = (Inr segment', w', d')" "mid X w d L es bs"
    "unat i = unat (w_first_index w) + length es + length bs"
    "unat (sm_current_segment_id (w_segments w)) + 1 < 2 ^ 64" "cfg_ok X"
  obtains L' es' bs' where "mid X w' d' L' es' bs'" "es' @ bs' = es @ bs" "grows 1 w L w' L'"
    "segment' = sm_current_segment_id (w_segments w')" "w_segs w' \<noteq> []" "bs = [] \<Longrightarrow> bs' = []"
proof (cases "w_segs w = []")
  case False
  have mgr: "mgr_ok X (w_segments w) d L" using assms(2) by (simp add: mid_def log_ok_def)
  have cur: "on_segments (SegmentManager_GetCurrentSegment (x_os X) (x_config X) i) (w, d) = (Inr (sm_current_segment_id (w_segments w)), w, d)"
    using mgr False by (rule GetCurrent_same)
  have "WAL_MaybeRollSegmentForAppend X i (sm_current_segment_id (w_segments w)) (w, d) = (Inr segment', w', d')"
    using assms(1) cur by (simp add: WAL_GetCurrentSegmentForAppend_def)
  then show ?thesis by (rule MaybeRoll_log) (use assms False in \<open>auto intro: that\<close>)
next
  case True
  then have bs: "bs = []" using assms(2) by (simp add: mid_def)
  obtain sid w1 d1 where r: "on_segments (SegmentManager_RollToNewSegment (x_os X) (x_config X) i) (w, d) = (Inr sid, w1, d1)"
    and m: "WAL_MaybeRollSegmentForAppend X i sid (w1, d1) = (Inr segment', w', d')"
    using assms(1) True by (auto simp: WAL_GetCurrentSegmentForAppend_def SegmentManager_GetCurrentSegment_def on_segments_def elim!: io_bind_InrE)
  have r1: "mid X w1 d1 (L @ [[]]) es []" "grows 1 w L w1 (L @ [[]])" "sid = sm_current_segment_id (w_segments w1)" "w_segs w1 \<noteq> []"
    "seg_write_offset (segment_at sid (w_segments w1)) = 32"
    using Roll_log [OF r] assms(2-5) True bs by auto
  have "\<not> Segment_IsFull (wc_segment_size (x_config X)) (segment_at sid (w_segments w1))"
    using r1(5) assms(5) by (simp add: Segment_IsFull_def cfg_ok_def word_le_nat_alt)
  then have "w' = w1" "d' = d1" "segment' = sid" using m by (auto simp: WAL_MaybeRollSegmentForAppend_def)
  then show ?thesis using that [of "L @ [[]]" es "[]"] r1 bs by simp
qed

lemma FlushIfNeeded_log:
  assumes "WAL_FlushWriteBufferIfNeeded X (w, d) = (Inr u, w', d')" "mid X w d L es bs" "w_segs w \<noteq> []"
  obtains L' es' bs' where "mid X w' d' L' es' bs'" "es' @ bs' = es @ bs" "grows 0 w L w' L'"
    "sm_current_segment_id (w_segments w') = sm_current_segment_id (w_segments w)"
proof -
  have mgr: "mgr_ok X (w_segments w) d L" using assms(2) by (simp add: mid_def log_ok_def)
  have cur: "on_segments (SegmentManager_GetCurrentSegment (x_os X) (x_config X) i) (w, d) = (Inr (sm_current_segment_id (w_segments w)), w, d)" for i
    using mgr assms(3) by (rule GetCurrent_same)
  have "WAL_FlushWriteBufferIfNeeded X (w, d) =
      (if WAL_ShouldFlushBuffer X (sm_current_segment_id (w_segments w)) w then WAL_FlushWriteBuffer X (w, d) else (Inr (), w, d))"
    by (simp add: WAL_FlushWriteBufferIfNeeded_def io_bind_def cur)
  then consider "w' = w" "d' = d" | "WAL_FlushWriteBuffer X (w, d) = (Inr u, w', d')"
    using assms(1) by (cases "WAL_ShouldFlushBuffer X (sm_current_segment_id (w_segments w)) w") simp_all
  then show ?thesis
  proof cases
    case 1
    then show ?thesis using that [of L es bs] assms(2) by simp
  next
    case 2
    then show ?thesis using Flush_log [OF 2 assms(2)] that by (metis append_Nil2)
  qed
qed

lemma append_direct_log:
  assumes "append_direct X e (w, d) = (Inr segment', w', d')" "mid X w d L es bs" "entry_ok X e"
    "unat (e_index e) = unat (w_first_index w) + length es + length bs"
    "unat (w_first_index w) + length es + length bs + 1 < 2 ^ 64"
    "unat (sm_current_segment_id (w_segments w)) + 1 < 2 ^ 64" "cfg_ok X"
  obtains L' where "mid X w' d' L' (es @ bs @ [e]) []" "grows 1 w L w' L'" "segment' = sm_current_segment_id (w_segments w')" "w_segs w' \<noteq> []"
proof -
  obtain w1 d1 seg w2 d2 w3 d3 where f: "WAL_FlushWriteBuffer X (w, d) = (Inr (), w1, d1)"
    and g: "WAL_GetCurrentSegmentForAppend X (e_index e) (w1, d1) = (Inr seg, w2, d2)"
    and a: "on_segments (on_segment seg (Segment_Append (x_os X) (entry_record X e))) (w2, d2) = (Inr (), w3, d3)"
    and w': "segment' = seg" "d' = d3" "w' = w3\<lparr>w_index := WALIndex_Insert (e_index e)
        \<lparr>ie_segment_id = seg, ie_offset = seg_write_offset (segment_at seg (w_segments w2)),
         ie_length = of_nat (length (entry_record X e)), ie_term = e_term e\<rparr> (w_index w3)\<rparr>"
    using assms(1) by (auto simp: append_direct_def Let_def elim!: io_bind_InrE)
  obtain L1 where m1: "mid X w1 d1 L1 (es @ bs) []" "grows 0 w L w1 L1" "sm_current_segment_id (w_segments w1) = sm_current_segment_id (w_segments w)"
    using Flush_log [OF f assms(2)] .
  have fi: "w_first_index w1 = w_first_index w" using m1(2) by (simp add: grows_def same_state_def)
  obtain L2 es' bs' where m2: "mid X w2 d2 L2 es' bs'" "es' @ bs' = es @ bs" "grows 1 w1 L1 w2 L2" "seg = sm_current_segment_id (w_segments w2)"
    "w_segs w2 \<noteq> []" "bs' = []"
    using GetCurrent_log [OF g m1(1) _ _ assms(7)] assms(4,6) fi m1(3) by auto
  have log2: "log_ok X w2 d2 L2 (es @ bs)" using m2(1,2,6) by (simp add: mid_def)
  have fi2: "w_first_index w2 = w_first_index w" using m2(3) fi by (simp add: grows_def same_state_def)
  have rec: "records X (map Entry_item [e]) = entry_record X e" by (simp add: item_record_def)
  have small: "length (records X (map Entry_item [e])) < 2 ^ 33"
    using item_record_length(2) [OF assms(3)] by (simp add: item_record_def)
  have a': "on_segments (on_segment (sm_current_segment_id (w_segments w2)) (Segment_Append (x_os X) (records X (map Entry_item [e])))) (w2, d2) = (Inr (), w3, d3)"
    using a m2(4) unfolding rec by simp
  have eok: "\<forall>e \<in> set [e]. entry_ok X e" using assms(3) by simp
  obtain ss k s s' Ls "is" where c: "w_segs w2 = ss @ [(k, s)]" "k = sm_current_segment_id (w_segments w2)" "L2 = Ls @ [is]" "w3 = w2\<lparr>w_segments := w_segments w3\<rparr>"
    "w_segs w3 = ss @ [(k, s')]" "sm_current_segment_id (w_segments w3) = k" "seg_first_index s' = seg_first_index s"
    "mgr_ok X (w_segments w3) d3 (Ls @ [is @ map Entry_item [e]])" "unat (seg_write_offset s) = 32 + length (records X is)"
    "segment_at k (w_segments w2) = s"
    using append_current [OF log2 m2(5) eok small a'] .
  have w3: "w_index w3 = w_index w2" "same_state w2 w3" "w_first_index w3 = w_first_index w" "w_buffer w3 = w_buffer w2" "w_pending_entries w3 = w_pending_entries w2"
    using fi2 by (subst c(4), simp add: same_state_def)+
  have lok: "wi_first_index (w_index w2) = w_first_index w" "length (wi_entries (w_index w2)) = length (es @ bs)"
    using log2 fi2 by (auto simp: log_ok_def)
  have ie: "seg_write_offset (segment_at seg (w_segments w2)) = of_nat (32 + length (records X is))"
    using u64_of_nat [OF c(9)] c(2,10) m2(4) by simp
  have ix: "wi_first_index (w_index w') = w_first_index w \<and>
    wi_entries (w_index w') = wi_entries (w_index w2) @ map snd (positions X k (32 + length (records X is)) (map Entry_item [e]))"
    using wi.insert_next [of "w_index w2" "e_index e"] lok assms(4,5) w'(3) w3(1) ie c(2) m2(4) by simp
  have "log_ok X w' d' (Ls @ [is @ map Entry_item [e]]) ((es @ bs) @ [e])"
    by (rule log_ok_extend [OF log2 [unfolded c(3)] c(1) _ _ c(7), where i = "e_index e"])
      (use c(5,8) w' w3 ix fi2 assms(4,5) in simp_all)
  then have "mid X w' d' (Ls @ [is @ map Entry_item [e]]) (es @ bs @ [e]) []"
    using m2(1,6) w' w3 assms(5) by (auto simp: mid_def buffer_ok_def)
  moreover have "grows 1 w2 L2 w' (Ls @ [is @ map Entry_item [e]]) \<and> grows 0 w2 L2 w' (Ls @ [is @ map Entry_item [e]])"
    using c w' w3 m2(4) by (auto simp: grows_def same_state_def)
  ultimately show ?thesis
    using that grows_trans [OF grows_trans [OF m1(2) m2(3)], of 0 w'] w' c(2,5,6) m2(4) by auto
qed

lemma buffer_record_log:
  assumes "mid X w d L es bs" "entry_ok X e" "unat (e_index e) = unat (w_first_index w) + length es + length bs"
    "unat (w_first_index w) + length es + length bs + 1 < 2 ^ 64" "w_segs w \<noteq> []" "length (w_buffer w) + length (entry_record X e) < 2 ^ 32"
  shows "mid X (buffer_record X e w) d L es (bs @ [e])"
proof -
  have "buffer_ok X (buffer_record X e w) (bs @ [e])"
    using assms(1,6) by (auto simp: mid_def buffer_ok_def buffer_record_def Let_def pending_of_append item_record_def)
  moreover have "contig (w_first_index w + of_nat (length es)) (bs @ [e])"
    using contig_append_entries [of "w_first_index w + of_nat (length es)" bs "e_index e" "[e]"] assms(1,3,4) mid_first [OF assms(1)]
    by (simp add: mid_def)
  moreover have "log_ok X (buffer_record X e w) d L es"
    using assms(1) log_ok_cong [of "buffer_record X e w" w X d L es] by (simp add: mid_def buffer_record_def Let_def)
  ultimately show ?thesis
    using assms(1,2,4,5) by (simp add: mid_def buffer_record_def Let_def)
qed

lemma append_buffered_log:
  assumes "append_buffered X e (w, d) = (Inr u, w', d')" "mid X w d L es bs" "entry_ok X e"
    "unat (e_index e) = unat (w_first_index w) + length es + length bs"
    "unat (w_first_index w) + length es + length bs + 1 < 2 ^ 64" "w_segs w \<noteq> []"
    "length (entry_record X e) \<le> unat (wc_write_buffer_size (x_config X))" "cfg_ok X"
  obtains L' es' bs' where "mid X w' d' L' es' bs'" "es' @ bs' = es @ bs @ [e]" "grows 0 w L w' L'"
    "sm_current_segment_id (w_segments w') = sm_current_segment_id (w_segments w)"
proof -
  let ?cap = "unat (wc_write_buffer_size (x_config X))"
  obtain w1 d1 L1 es1 bs1 where m1: "mid X w1 d1 L1 es1 bs1" "es1 @ bs1 = es @ bs" "grows 0 w L w1 L1"
    "sm_current_segment_id (w_segments w1) = sm_current_segment_id (w_segments w)" "length (w_buffer w1) + length (entry_record X e) \<le> ?cap"
    and n: "WAL_FlushWriteBufferIfNeeded X (buffer_record X e w1, d1) = (Inr u, w', d')"
  proof (cases "length (w_buffer w) + length (entry_record X e) > ?cap")
    case True
    then obtain w1 d1 where f: "WAL_FlushWriteBuffer X (w, d) = (Inr (), w1, d1)"
      and n: "WAL_FlushWriteBufferIfNeeded X (buffer_record X e w1, d1) = (Inr u, w', d')"
      using assms(1) by (auto simp: append_buffered_def elim!: io_bind_InrE)
    obtain L1 where "mid X w1 d1 L1 (es @ bs) []" "grows 0 w L w1 L1" "sm_current_segment_id (w_segments w1) = sm_current_segment_id (w_segments w)"
      using Flush_log [OF f assms(2)] .
    moreover from this(1) have "w_buffer w1 = []" by (simp add: mid_def buffer_ok_def)
    ultimately show ?thesis using that [of w1 d1 L1 "es @ bs" "[]"] n assms(7) by simp
  next
    case False
    then have "WAL_FlushWriteBufferIfNeeded X (buffer_record X e w, d) = (Inr u, w', d')"
      using assms(1) by (simp add: append_buffered_def io_bind_def)
    then show ?thesis using that [of w d L es bs] assms(2) False by simp
  qed
  have st: "w_first_index w1 = w_first_index w" "w_segs w1 \<noteq> []" using m1(3) assms(6) by (auto simp: grows_def same_state_def)
  have len: "length es1 + length bs1 = length es + length bs" using m1(2) by (metis length_append)
  have m2: "mid X (buffer_record X e w1) d1 L1 es1 (bs1 @ [e])"
    by (rule buffer_record_log [OF m1(1) assms(3)]) (use assms(4,5,8) st m1(5) len in \<open>auto simp: cfg_ok_def\<close>)
  have b: "w_segs (buffer_record X e w1) \<noteq> []" "grows 0 w1 L1 (buffer_record X e w1) L1"
    "sm_current_segment_id (w_segments (buffer_record X e w1)) = sm_current_segment_id (w_segments w1)"
    using st(2) by (auto simp: buffer_record_def Let_def grows_def same_state_def)
  show ?thesis
    using FlushIfNeeded_log [OF n m2 b(1)] that grows_trans [OF grows_trans [OF m1(3) b(2)]] b(3) m1(2,4)
    by (metis add_0 append.assoc)
qed

lemma append_entries_log:
  assumes "append_entries X new segment (w, d) = (Inr u, w', d')" "mid X w d L es bs" "\<forall>e \<in> set new. entry_ok X e"
    "contig i new" "unat i = unat (w_first_index w) + length es + length bs"
    "unat (w_first_index w) + length es + length bs + length new < 2 ^ 64"
    "segment = sm_current_segment_id (w_segments w)" "w_segs w \<noteq> []"
    "unat (sm_current_segment_id (w_segments w)) + 2 * length new < 2 ^ 64" "cfg_ok X"
  obtains L' es' bs' where "mid X w' d' L' es' bs'" "es' @ bs' = es @ bs @ new" "grows (2 * length new) w L w' L'" "w_segs w' \<noteq> []"
  using assms
proof (induction new arbitrary: segment w d L es bs i thesis)
  case Nil
  then show ?case using Nil.prems(1) [of L es bs] by simp
next
  case (Cons e new)
  let ?cur = "\<lambda>w. unat (sm_current_segment_id (w_segments w))"
  have ei: "e_index e = i" "contig (i + 1) new" using Cons.prems(5) by simp_all
  obtain seg1 w1 d1 where roll: "WAL_MaybeRollSegmentForAppend X (e_index e) segment (w, d) = (Inr seg1, w1, d1)"
    and rest: "(if length (entry_record X e) > unat (wc_write_buffer_size (x_config X))
       then io_bind (append_direct X e) (\<lambda>segment. append_entries X new segment)
       else io_bind (append_buffered X e) (\<lambda>_. append_entries X new seg1)) (w1, d1) = (Inr u, w', d')"
    using Cons.prems(2) by (auto elim!: io_bind_InrE)
  obtain L1 es1 bs1 where m1: "mid X w1 d1 L1 es1 bs1" "es1 @ bs1 = es @ bs" "grows 1 w L w1 L1"
    "seg1 = sm_current_segment_id (w_segments w1)" "w_segs w1 \<noteq> []"
    by (rule MaybeRoll_log [OF roll Cons.prems(3,8,9)]) (use Cons.prems ei in auto)
  have st1: "w_first_index w1 = w_first_index w" "?cur w1 \<le> ?cur w + 1" using m1(3) by (auto simp: grows_def same_state_def)
  have len1: "length es1 + length bs1 = length es + length bs" using m1(2) by (metis length_append)
  have num: "unat (e_index e) = unat (w_first_index w1) + length es1 + length bs1"
    "unat (w_first_index w1) + length es1 + length bs1 + 1 < 2 ^ 64" "?cur w1 + 1 < 2 ^ 64"
    using Cons.prems(6,7,10) ei st1 len1 by auto
  obtain seg2 w2 d2 L2 es2 bs2 where m2: "mid X w2 d2 L2 es2 bs2" "es2 @ bs2 = es @ bs @ [e]" "grows 1 w1 L1 w2 L2"
    "seg2 = sm_current_segment_id (w_segments w2)" "w_segs w2 \<noteq> []" "append_entries X new seg2 (w2, d2) = (Inr u, w', d')"
  proof (cases "length (entry_record X e) > unat (wc_write_buffer_size (x_config X))")
    case True
    then obtain seg2 w2 d2 where a: "append_direct X e (w1, d1) = (Inr seg2, w2, d2)" "append_entries X new seg2 (w2, d2) = (Inr u, w', d')"
      using rest by (auto elim!: io_bind_InrE)
    obtain L2 where b: "mid X w2 d2 L2 (es1 @ bs1 @ [e]) []" "grows 1 w1 L1 w2 L2" "seg2 = sm_current_segment_id (w_segments w2)" "w_segs w2 \<noteq> []"
      using append_direct_log [OF a(1) m1(1) _ num Cons.prems(11)] Cons.prems(4) by auto
    have "es1 @ bs1 @ [e] = es @ bs @ [e]" using m1(2) by (metis append.assoc)
    then show ?thesis using that [of w2 d2 L2 "es1 @ bs1 @ [e]" "[]" seg2] b a(2) by simp
  next
    case False
    then obtain w2 d2 where a: "append_buffered X e (w1, d1) = (Inr (), w2, d2)" "append_entries X new seg1 (w2, d2) = (Inr u, w', d')"
      using rest by (auto elim!: io_bind_InrE)
    obtain L2 es2 bs2 where b: "mid X w2 d2 L2 es2 bs2" "es2 @ bs2 = es1 @ bs1 @ [e]" "grows 0 w1 L1 w2 L2"
      "sm_current_segment_id (w_segments w2) = sm_current_segment_id (w_segments w1)"
      using append_buffered_log [OF a(1) m1(1) _ num(1,2) m1(5) _ Cons.prems(11)] Cons.prems(4) False by auto
    have "es2 @ bs2 = es @ bs @ [e]" using b(2) m1(2) by (metis append.assoc)
    moreover have "w_segs w2 \<noteq> []" using b(3) m1(5) by (simp add: grows_def)
    ultimately show ?thesis using that [of w2 d2 L2 es2 bs2 seg1] b a(2) m1(4) grows_mono [OF b(3)] by simp
  qed
  have st2: "w_first_index w2 = w_first_index w" "?cur w2 \<le> ?cur w + 2" using m2(3) st1 by (auto simp: grows_def same_state_def)
  have len2: "length es2 + length bs2 = length es + length bs + 1" using arg_cong [OF m2(2), of length] by simp
  have i1: "unat (i + 1) = Suc (unat i)" using Cons.prems(6,7) by (intro unat_Suc_bound_u64) simp
  obtain L' es' bs' where r: "mid X w' d' L' es' bs'" "es' @ bs' = es2 @ bs2 @ new" "grows (2 * length new) w2 L2 w' L'" "w_segs w' \<noteq> []"
    by (rule Cons.IH [OF _ m2(6,1) _ ei(2)]) (use Cons.prems i1 len2 st2 m2(4,5) in auto)
  have "es' @ bs' = es @ bs @ e # new" using r(2) m2(2) by (metis append.assoc append_Cons append_Nil)
  moreover have "grows (2 * length (e # new)) w L w' L'"
    using grows_trans [OF grows_trans [OF m1(3) m2(3)] r(3)] by simp
  ultimately show ?case using Cons.prems(1) r(1,4) by blast
qed

section \<open>Truncating the suffix\<close>

lemma filter_split:
  assumes "filter P xs = as @ b # bs"
  obtains xs1 xs2 where "xs = xs1 @ b # xs2" "filter P xs1 = as" "filter P xs2 = bs"
  using assms
proof (induction xs arbitrary: as thesis)
  case (Cons x xs)
  consider (no) "\<not> P x" | (here) "P x" "as = []" | (later) as' where "P x" "as = x # as'"
    using Cons.prems(2) by (cases as) (auto split: if_splits)
  then show ?case
  proof cases
    case no
    then obtain xs1 xs2 where "xs = xs1 @ b # xs2" "filter P xs1 = as" "filter P xs2 = bs"
      using Cons.IH [of as] Cons.prems(2) by auto
    then show ?thesis using no Cons.prems(1) [of "x # xs1" xs2] by simp
  next
    case here
    then show ?thesis using Cons.prems(1) [of "[]" xs] Cons.prems(2) by simp
  next
    case later
    then obtain xs1 xs2 where "xs = xs1 @ b # xs2" "filter P xs1 = as'" "filter P xs2 = bs"
      using Cons.IH [of as'] Cons.prems(2) by auto
    then show ?thesis using later Cons.prems(1) [of "x # xs1" xs2] by simp
  qed
qed simp

lemma all_positions_split:
  assumes "all_positions X segs L = p1 @ (e, ie) # p2" "length segs = length L"
  obtains ss k s ss' Ls "is" Ls' q1 q2 where "segs = ss @ (k, s) # ss'" "L = Ls @ is # Ls'" "length ss = length Ls" "length ss' = length Ls'"
    "p1 = all_positions X ss Ls @ q1" "positions X k 32 is = q1 @ (e, ie) # q2"
  using assms(2,1)
proof (induction segs L arbitrary: p1 thesis rule: list_induct2)
  case (Cons p segs "is" L)
  obtain k s where p: "p = (k, s)" by (cases p)
  have eq: "positions X k 32 is @ all_positions X segs L = p1 @ (e, ie) # p2" using Cons.prems(2) p by simp
  show ?case
  proof (cases "length p1 < length (positions X k 32 is)")
    case True
    have tk: "p1 = take (length p1) (positions X k 32 is @ all_positions X segs L)" using eq by simp
    have "positions X k 32 is ! length p1 = (e, ie)" using eq True by (metis nth_append nth_append_length)
    then have "positions X k 32 is = p1 @ (e, ie) # drop (Suc (length p1)) (positions X k 32 is)"
      using id_take_nth_drop [OF True] tk True by simp
    then show ?thesis using Cons.prems(1) [of "[]" k s segs "[]" "is" L p1] p Cons.hyps by simp
  next
    case False
    obtain p1' where p1: "p1 = positions X k 32 is @ p1'" "all_positions X segs L = p1' @ (e, ie) # p2"
      using eq False by (auto simp: append_eq_append_conv2)
    obtain ss k' s' ss' Ls is' Ls' q1 q2 where r: "segs = ss @ (k', s') # ss'" "L = Ls @ is' # Ls'" "length ss = length Ls" "length ss' = length Ls'"
      "p1' = all_positions X ss Ls @ q1" "positions X k' 32 is' = q1 @ (e, ie) # q2"
      using Cons.IH [OF _ p1(2)] by metis
    show ?thesis by (rule Cons.prems(1) [of "p # ss" k' s' ss' "is # Ls" is' Ls' q1 q2]) (use r p1 p in simp_all)
  qed
qed simp

lemma remove_later_skip:
  "\<forall>info \<in> set infos. si_segment_id info \<le> k \<Longrightarrow> remove_later X k (infos @ infos') s = remove_later X k infos' s"
  by (induction infos) auto

lemma remove_later_all:
  assumes "remove_later X k infos (w, d) = (Inr u, w', d')" "mgr_ok X (w_segments w) d (Ls @ is # Ls')" "w_segs w = ss @ (k, s) # ss'"
    "length ss = length Ls" "map si_segment_id infos = map fst ss'" "\<forall>p \<in> set ss'. k < fst p"
  shows "mgr_ok X (w_segments w') d' (Ls @ [is]) \<and> w_segs w' = ss @ [(k, s)] \<and> w' = w\<lparr>w_segments := w_segments w'\<rparr>"
  using assms
proof (induction infos arbitrary: w d ss' Ls')
  case Nil
  then have "list_all2 (seg_ok X d) [] Ls'" by (auto simp: mgr_ok_def list_all2_append)
  then show ?case using Nil by simp
next
  case (Cons info infos)
  obtain s2 ss2 where ss': "ss' = (si_segment_id info, s2) # ss2" using Cons.prems(5) by (cases ss') auto
  obtain is2 Ls2 where Ls': "Ls' = is2 # Ls2"
    using Cons.prems(2-4) ss' by (auto simp: mgr_ok_def list_all2_append list_all2_Cons1)
  have gt: "\<not> si_segment_id info \<le> k" using Cons.prems(6) ss' by (simp add: not_le)
  obtain w1 d1 where rm: "on_segments (SegmentManager_RemoveSegment (x_os X) (si_segment_id info)) (w, d) = (Inr (), w1, d1)"
    and rest: "remove_later X k infos (w1, d1) = (Inr u, w', d')"
    using Cons.prems(1) gt by (auto elim!: io_bind_InrE)
  obtain sm1 where r: "SegmentManager_RemoveSegment (x_os X) (si_segment_id info) (w_segments w, d) = (Inr (), sm1, d1)" "w1 = w\<lparr>w_segments := sm1\<rparr>"
    using rm by (auto simp: on_segments_def split: prod.splits)
  have m1: "mgr_ok X sm1 d1 ((Ls @ [is]) @ Ls2) \<and> sm_segments sm1 = (ss @ [(k, s)]) @ ss2"
    by (rule mgr_remove [OF _ _ _ r(1)]) (use Cons.prems(2-4) ss' Ls' in auto)
  have "mgr_ok X (w_segments w') d' (Ls @ [is]) \<and> w_segs w' = ss @ [(k, s)] \<and> w' = w1\<lparr>w_segments := w_segments w'\<rparr>"
    by (rule Cons.IH [OF rest, where ss' = ss2 and Ls' = Ls2]) (use m1 r(2) Cons.prems(4-6) ss' in auto)
  then show ?case using r(2) by simp
qed

text \<open>Where the record of an entry of the log lies.\<close>

lemma log_locate:
  assumes "log_ok X w d L es" "n < length es"
  obtains ss k s ss' Ls is1 is2 Ls' where "w_segs w = ss @ (k, s) # ss'" "L = Ls @ (is1 @ Entry_item (es ! n) # is2) # Ls'"
    "length ss = length Ls" "length ss' = length Ls'" "list_all2 (seg_ok X d) ss Ls" "seg_ok X d (k, s) (is1 @ Entry_item (es ! n) # is2)"
    "k \<notin> fst ` set ss" "segment_at k (w_segments w) = s"
    "wi_entries (w_index w) ! n = \<lparr>ie_segment_id = k, ie_offset = of_nat (32 + length (records X is1)),
       ie_length = of_nat (length (entry_record X (es ! n))), ie_term = e_term (es ! n)\<rparr>"
    "live (w_first_index w) (all_positions X (ss @ [(k, s)]) (Ls @ [is1])) = take n (live (w_first_index w) (all_positions X (w_segs w) L))"
proof -
  define lv where "lv = live (w_first_index w) (all_positions X (w_segs w) L)"
  have es: "es = map fst lv" "wi_entries (w_index w) = map snd lv" and mgr: "mgr_ok X (w_segments w) d L"
    using assms(1) by (auto simp: log_ok_def lv_def)
  define ie where "ie = snd (lv ! n)"
  have n: "n < length lv" "lv ! n = (es ! n, ie)" using assms(2) by (simp_all add: es ie_def)
  have "lv = take n lv @ (es ! n, ie) # drop (Suc n) lv" using id_take_nth_drop [OF n(1)] n(2) by simp
  then obtain p1 p2 where p: "all_positions X (w_segs w) L = p1 @ (es ! n, ie) # p2" "live (w_first_index w) p1 = take n lv"
    unfolding lv_def live_def by (rule filter_split [of _ "all_positions X (w_segs w) L"]) blast
  obtain ss k s ss' Ls "is" Ls' q1 q2 where sp: "w_segs w = ss @ (k, s) # ss'" "L = Ls @ is # Ls'" "length ss = length Ls" "length ss' = length Ls'"
    "p1 = all_positions X ss Ls @ q1" "positions X k 32 is = q1 @ (es ! n, ie) # q2"
    using all_positions_split [OF p(1) log_ok_length [OF assms(1)]] .
  obtain is1 is2 where i: "is = is1 @ Entry_item (es ! n) # is2" "q1 = positions X k 32 is1"
    "ie = \<lparr>ie_segment_id = k, ie_offset = of_nat (32 + length (records X is1)),
       ie_length = of_nat (length (entry_record X (es ! n))), ie_term = e_term (es ! n)\<rparr>"
    using positions_split [OF sp(6)] by metis
  have "list_all2 (seg_ok X d) ss Ls" "seg_ok X d (k, s) is" using mgr sp(1-3) by (auto simp: mgr_ok_def list_all2_append)
  moreover have "k \<notin> fst ` set ss" "segment_at k (w_segments w) = s"
    using mgr sp(1) omap_wf_append [of ss k s ss'] by (auto simp: mgr_ok_def segment_at_def)
  moreover have "live (w_first_index w) (all_positions X (ss @ [(k, s)]) (Ls @ [is1])) = take n lv"
    using p(2) sp(3,5) i(2) by (simp add: all_positions_append)
  moreover have "wi_entries (w_index w) ! n = ie" using n es(2) by (simp add: ie_def)
  ultimately show ?thesis using that [of ss k s ss' Ls is1 is2 Ls'] sp i by (simp add: lv_def)
qed

lemma log_index_nth:
  assumes "log_ok X w d L es" "n < length es"
  shows "unat (e_index (es ! n)) = unat (w_first_index w) + n"
proof -
  have "contig (w_first_index w) es" "unat (w_first_index w) + length es < 2 ^ 64" using assms(1) by (auto simp: log_ok_def)
  then show ?thesis using contig_nth [of "w_first_index w" es n] assms(2) unat_add_of_nat_u64 [of "w_first_index w" n] by simp
qed

lemma log_lookup:
  assumes "log_ok X w d L es"
  shows "WALIndex_Lookup i (w_index w) =
    (if unat (w_first_index w) \<le> unat i \<and> unat i < unat (w_first_index w) + length es
     then Some (wi_entries (w_index w) ! (unat i - unat (w_first_index w))) else None)"
proof -
  have a: "wi_first_index (w_index w) = w_first_index w" "length (wi_entries (w_index w)) = length es"
    "0 < unat (w_first_index w)" "unat (w_first_index w) + length es < 2 ^ 64"
    using assms by (auto simp: log_ok_def)
  show ?thesis using wi.lookup_items [of "w_index w" i] unfolding a using a(3,4) by blast
qed

lemma log_segment:
  assumes "routed segs L" "segs = ss @ (k, s) # ss'" "L = Ls @ (is1 @ Entry_item e # is2) # Ls'"
    "length ss = length Ls" "length ss' = length Ls'"
  shows "segment_for_index (e_index e) segs None = Some k"
  using routed_finds [of ss k s ss' Ls "is1 @ Entry_item e # is2" Ls' e None] assms by simp

lemma sync_segment_log: "sync_segment X k (w, d) = (r, w', d') \<Longrightarrow> w' = w \<and> same_but {} d d'"
  by (auto simp: sync_segment_def dest: Segment_Sync_same split: prod.splits)

lemma Truncated_log_ok:
  assumes "log_ok X w d L es" "unat i = unat (w_first_index w) + n" "n < length es"
    "w_segs w = ss @ (k, s) # ss'" "L = Ls @ (is1 @ Entry_item e # is2) # Ls'" "length ss = length Ls" "length ss' = length Ls'"
    "mgr_ok X (w_segments w') d' (Ls @ [is1])" "w_segs w' = ss @ [(k, s')]" "seg_first_index s' = seg_first_index s"
    "e_index e = i" "w_first_index w' = w_first_index w" "w_index w' = WALIndex_TruncateFrom i (w_index w)"
    "live (w_first_index w) (all_positions X (ss @ [(k, s)]) (Ls @ [is1])) = take n (live (w_first_index w) (all_positions X (w_segs w) L))"
  shows "log_ok X w' d' (Ls @ [is1]) (take n es)"
proof -
  define lv where "lv = live (w_first_index w) (all_positions X (w_segs w) L)"
  have ok: "es = map fst lv" "wi_entries (w_index w) = map snd lv" "wi_first_index (w_index w) = w_first_index w"
    "contig (w_first_index w) es" "0 < unat (w_first_index w)" "unat (w_first_index w) + length es < 2 ^ 64" "routed (w_segs w) L"
    using assms(1) by (auto simp: log_ok_def lv_def)
  have lv': "live (w_first_index w') (all_positions X (w_segs w') (Ls @ [is1])) = take n lv"
    using assms(6,9,12,14) by (simp add: all_positions_append lv_def)
  have ix: "wi_first_index (w_index w') = w_first_index w" "wi_entries (w_index w') = take n (wi_entries (w_index w))"
    using wi.cut_from_items [of "w_index w" i] assms(2,13) ok by simp_all
  have r: "routed (ss @ (k, s) # ss') (Ls @ (is1 @ Entry_item e # is2) # Ls')" using ok(7) assms(4,5) by simp
  note rs = routed_split [OF r assms(6,7)]
  have first: "unat (seg_first_index s) \<le> unat i" using rs(2) [of e] assms(11) by (simp add: word_le_nat_alt)
  have "unat (seg_first_index (snd p)) \<le> unat i" if "p \<in> set (w_segs w')" for p
    using that assms(9,10) first rs(1) by (fastforce simp: word_less_nat_alt)
  moreover have "unat (e_index e') < unat i" if "is' \<in> set (Ls @ [is1])" "e' \<in> set (item_entries is')" for is' e'
  proof (cases "is' \<in> set Ls")
    case True
    then show ?thesis using rs(5) [OF True that(2)] first by (simp add: word_less_nat_alt)
  next
    case False
    then have in1: "e' \<in> set (item_entries is1)" using that by auto
    show ?thesis
    proof (cases "w_first_index w \<le> e_index e'")
      case True
      have "e' \<in> fst ` set (positions X k 32 is1)" using in1 positions_entries [of X k 32 is1] by (metis set_map)
      then have "e' \<in> fst ` set (live (w_first_index w) (positions X k 32 is1))" using True by (auto simp: live_def)
      moreover have "take n lv = live (w_first_index w) (all_positions X ss Ls) @ live (w_first_index w) (positions X k 32 is1)"
        using assms(6,14) by (simp add: lv_def all_positions_append)
      ultimately have "e' \<in> set (map fst (take n lv))" by auto
      then have "e' \<in> set (take n es)" using ok(1) by (simp add: take_map)
      then obtain j where j: "j < n" "e' = es ! j" using assms(3) by (auto simp: in_set_conv_nth)
      then show ?thesis using log_index_nth [OF assms(1), of j] assms(2,3) by simp
    next
      case False
      then show ?thesis using assms(2) by (simp add: word_le_nat_alt)
    qed
  qed
  moreover have "routed (w_segs w') (Ls @ [is1])" unfolding assms(9) by (rule routed_cut [OF r assms(6,10)])
  moreover have "contig (w_first_index w') (take n es)" using ok(4) assms(12) by (simp add: contig_take)
  ultimately show ?thesis
    unfolding log_ok_def lv' using assms(2,3,8,12) ix ok by (auto simp: take_map)
qed

lemma Truncate_log:
  assumes "WAL_TruncateSuffixFrom X i (w, d) = (Inr u, w', d')" "mid X w d L es []"
    "unat i = unat (w_first_index w) + n" "n < length es"
  obtains L' where "mid X w' d' L' (take n es) []" "same_state w w'" "w_segs w' \<noteq> []"
    "unat (sm_current_segment_id (w_segments w')) \<le> unat (sm_current_segment_id (w_segments w))"
    "\<exists>hss. layout_states L = layout_states L' @ hss"
proof -
  have log: "log_ok X w d L es" and buf: "w_buffer w = []" "w_pending_entries w = []" using assms(2) by (auto simp: mid_def buffer_ok_def)
  have mgr: "mgr_ok X (w_segments w) d L" and routed: "routed (w_segs w) L" using log by (auto simp: log_ok_def)
  define e where "e = es ! n"
  have ei: "e_index e = i" using log_index_nth [OF log assms(4)] assms(3) by (simp add: e_def u64_eq_iff)
  obtain ss k s ss' Ls is1 is2 Ls' where l: "w_segs w = ss @ (k, s) # ss'" "L = Ls @ (is1 @ Entry_item e # is2) # Ls'"
    "length ss = length Ls" "length ss' = length Ls'" "seg_ok X d (k, s) (is1 @ Entry_item e # is2)" "segment_at k (w_segments w) = s"
    "wi_entries (w_index w) ! n = \<lparr>ie_segment_id = k, ie_offset = of_nat (32 + length (records X is1)),
       ie_length = of_nat (length (entry_record X e)), ie_term = e_term e\<rparr>"
    "live (w_first_index w) (all_positions X (ss @ [(k, s)]) (Ls @ [is1])) = take n (live (w_first_index w) (all_positions X (w_segs w) L))"
    using log_locate [OF log assms(4)] unfolding e_def by metis
  have look: "WALIndex_Lookup i (w_index w) = Some (wi_entries (w_index w) ! n)" using log_lookup [OF log, of i] assms(3,4) by simp
  have seg: "SegmentManager_GetSegmentForIndex i (w_segments w) = Some k"
    using log_segment [OF routed l(1-4)] ei by (simp add: SegmentManager_GetSegmentForIndex_def)
  have sid: "seg_segment_id s = k" using l(5) by (simp add: seg_ok_def)
  let ?off = "of_nat (32 + length (records X is1)) :: u64"
  obtain w1 d1 w2 d2 w3 where t: "on_segments (on_segment k (Segment_Truncate (x_os X) ?off)) (w, d) = (Inr (), w1, d1)"
    and y: "sync_segment X k (w1, d1) = (Inr (), w2, d2)"
    and rm: "remove_later X (seg_segment_id (segment_at k (w_segments w2))) (SegmentManager_ListSegments (w_segments w2)) (w2, d2) = (Inr (), w3, d')"
    and w': "w' = w3\<lparr>w_index := WALIndex_TruncateFrom i (w_index w3)\<rparr>"
    using assms(1) look seg sid l(6,7) by (auto simp: WAL_TruncateSuffixFrom_def Let_def elim!: io_bind_InrE)
  obtain sm1 where t1: "on_segment k (Segment_Truncate (x_os X) ?off) (w_segments w, d) = (Inr (), sm1, d1)" "w1 = w\<lparr>w_segments := sm1\<rparr>"
    using t by (auto simp: on_segments_def split: prod.splits)
  have step: "seg_ok X d1 (k, s1) is1 \<and> seg_frame (s, d) (s1, d1)" if "Segment_Truncate (x_os X) ?off (s, d) = (Inr (), s1, d1)" for s1
    using Segment_Truncate_holds [OF _ that, of "Entry_item e # is2"] l(5) unclogged_prefix [of X is1 "Entry_item e # is2"]
    by (auto simp: seg_ok_def seg_frame_def)
  define s1 where "s1 = segment_at k sm1"
  have m1: "mgr_ok X sm1 d1 (Ls @ is1 # Ls')" "sm_segments sm1 = ss @ (k, s1) # ss'" "seg_first_index s1 = seg_first_index s"
    using on_segment_middle [OF mgr [unfolded l(2)] l(1,3) t1(1) step s1_def] by auto
  have s2: "w2 = w1" "same_but {} d1 d2" using sync_segment_log [OF y] by auto
  have m2: "mgr_ok X (w_segments w2) d2 (Ls @ is1 # Ls')" using mgr_ok_same_but [OF m1(1) s2(2)] s2(1) t1(2) by simp
  have segs2: "w_segs w2 = ss @ (k, s1) # ss'" "segment_at k (w_segments w2) = s1" using s2(1) t1(2) m1(2) by (simp_all add: s1_def)
  have ord: "\<forall>p \<in> set ss. fst p < k" "\<forall>p \<in> set ss'. k < fst p" using m2 segs2(1) by (auto simp: mgr_ok_def sorted_wrt_append)
  have sid1: "seg_segment_id s1 = k" using m2 segs2(1) l(3) by (auto simp: mgr_ok_def list_all2_append seg_ok_def)
  have infos: "SegmentManager_ListSegments (w_segments w2) =
      map (\<lambda>(k, s). \<lparr>si_segment_id = k, si_first_index = seg_first_index s, si_path = seg_path s\<rparr>) (ss @ [(k, s1)]) @
      map (\<lambda>(k, s). \<lparr>si_segment_id = k, si_first_index = seg_first_index s, si_path = seg_path s\<rparr>) ss'"
    using segs2 by (simp add: SegmentManager_ListSegments_def)
  have rm': "remove_later X k (map (\<lambda>(k, s). \<lparr>si_segment_id = k, si_first_index = seg_first_index s, si_path = seg_path s\<rparr>) ss') (w2, d2) = (Inr (), w3, d')"
    using rm ord(1) unfolding segs2(2) sid1 infos by (subst (asm) remove_later_skip) (auto simp: less_imp_le)
  have m3: "mgr_ok X (w_segments w3) d' (Ls @ [is1])" "w_segs w3 = ss @ [(k, s1)]" "w3 = w2\<lparr>w_segments := w_segments w3\<rparr>"
    using remove_later_all [OF rm' m2 segs2(1) l(3)] ord(2) by (auto simp: comp_def split_beta)
  have w3: "w_index w3 = w_index w" "w_first_index w3 = w_first_index w" "same_state w w3" "w_buffer w3 = []" "w_pending_entries w3 = []"
    using s2(1) t1(2) buf by (subst m3(3), simp add: same_state_def)+
  have "log_ok X w' d' (Ls @ [is1]) (take n es)"
    by (rule Truncated_log_ok [OF log assms(3,4) l(1-4) _ _ m1(3)]) (use m3 w' w3 l(8) ei e_def in simp_all)
  moreover have "unat (sm_current_segment_id (w_segments w')) \<le> unat (sm_current_segment_id (w_segments w))"
  proof -
    have "sm_current_segment_id (w_segments w') = k" using m3(1,2) w' by (simp add: mgr_ok_def)
    moreover have "sm_current_segment_id (w_segments w) = fst (last (ss @ (k, s) # ss'))" using mgr l(1) by (simp add: mgr_ok_def)
    ultimately show ?thesis using ord(2) by (cases ss' rule: rev_cases) (auto simp: word_less_nat_alt)
  qed
  moreover have "mid X w' d' (Ls @ [is1]) (take n es) []"
    using calculation(1) assms(2) w' w3 by (auto simp: mid_def buffer_ok_def)
  ultimately show ?thesis
    using that [of "Ls @ [is1]"] w' w3(3) m3(2) l(2) by (auto simp: same_state_def)
qed

section \<open>The log between operations\<close>

text \<open>The log on disk holds the hard states \<open>hss\<close>, in this order, and the entries \<open>es\<close>; nothing waits in the buffer.\<close>

definition wal_at :: "wal_env \<Rightarrow> WAL \<Rightarrow> disk \<Rightarrow> hard_state list \<Rightarrow> entry list \<Rightarrow> bool" where
  "wal_at X w d hss es \<longleftrightarrow> cfg_ok X \<and> (\<exists>L. mid X w d L es [] \<and> layout_states L = hss) \<and>
     (es = [] \<longrightarrow> w_snapshot_index w + 1 = w_first_index w)"

definition wal_ok :: "wal_env \<Rightarrow> WAL \<Rightarrow> disk \<Rightarrow> entry list \<Rightarrow> bool" where
  "wal_ok X w d es \<longleftrightarrow> (\<exists>hss. wal_at X w d hss es)"

lemma wal_ok_iff: "wal_ok X w d es \<longleftrightarrow> cfg_ok X \<and> (\<exists>L. mid X w d L es []) \<and> (es = [] \<longrightarrow> w_snapshot_index w + 1 = w_first_index w)"
  by (auto simp: wal_ok_def wal_at_def)

lemma wal_ok_bounds:
  assumes "wal_ok X w d es"
  shows "0 < unat (w_first_index w)" "unat (w_first_index w) + length es < 2 ^ 64" "contig (w_first_index w) es"
  using assms by (auto simp: wal_ok_iff mid_def log_ok_def)

lemma wal_last:
  assumes "wal_ok X w d es"
  shows "unat (WAL_LastIndex w + 1) = unat (w_first_index w) + length es"
    "unat (WAL_LastIndex w) = unat (w_first_index w) + length es - 1"
proof -
  note b = wal_ok_bounds [OF assms]
  have ix: "wi_first_index (w_index w) = w_first_index w" "length (wi_entries (w_index w)) = length es"
    using assms by (auto simp: wal_ok_iff mid_def log_ok_def)
  show l: "unat (WAL_LastIndex w) = unat (w_first_index w) + length es - 1"
  proof (cases "es = []")
    case True
    then have "WAL_LastIndex w = w_first_index w - 1"
      using assms ix(2) by (auto simp: WAL_LastIndex_def WALIndex_empty_def wal_ok_iff algebra_simps)
    moreover have "w_first_index w \<noteq> 0" using b(1) by auto
    ultimately show ?thesis using True by (simp add: unat_sub_one_u64)
  next
    case False
    then have ne: "wi_entries (w_index w) \<noteq> []" using ix(2) by auto
    have "unat (WALIndex_last_index (w_index w)) = unat (w_first_index w) + length es - 1"
      using WALIndex_last_unat [of "w_index w"] b ix by simp
    then show ?thesis using ne by (simp add: WAL_LastIndex_def WALIndex_empty_def)
  qed
  show "unat (WAL_LastIndex w + 1) = unat (w_first_index w) + length es"
    using l b by (subst unat_Suc_bound_u64) auto
qed

lemma mid_same_but:
  assumes "mid X w d L es bs" "same_but N d d'" "\<And>k. Segment_MakeSegmentFilename k \<notin> N"
  shows "mid X w d' L es bs"
  using assms mgr_ok_same_but [OF _ assms(2,3)] unfolding mid_def log_ok_def by blast

lemma sync_if_configured_log:
  assumes "sync_if_configured X (w, d) = (r, w', d')"
  shows "w' = w \<and> same_but {} d d'"
  using assms by (auto simp: sync_if_configured_def on_segments_def SegmentManager_SyncAll_def
      split: if_splits prod.splits dest!: sync_segments_same)

lemma Append_log:
  assumes "wal_at X w d hss es" "WAL_Append X new (w, d) = (Inr u, w', d')" "new \<noteq> []"
    "contig (e_index (hd new)) new" "\<forall>e \<in> set new. entry_ok X e"
    "unat (e_index (hd new)) + length new < 2 ^ 64" "unat (sm_current_segment_id (w_segments w)) + 2 * length new + 1 < 2 ^ 64"
  shows "\<exists>hss1 hss2. hss = hss1 @ hss2 \<and> (e_index (hd new) = WAL_LastIndex w + 1 \<longrightarrow> hss2 = []) \<and>
    wal_at X w' d' hss1 (take (unat (e_index (hd new)) - unat (w_first_index w)) es @ new) \<and> same_state w w' \<and>
    unat (w_first_index w) \<le> unat (e_index (hd new)) \<and> unat (e_index (hd new)) \<le> unat (w_first_index w) + length es \<and>
    unat (sm_current_segment_id (w_segments w')) \<le> unat (sm_current_segment_id (w_segments w)) + 2 * length new + 1"
proof -
  let ?i = "e_index (hd new)" let ?cur = "\<lambda>w. unat (sm_current_segment_id (w_segments w))"
  define n where "n = unat ?i - unat (w_first_index w)"
  have cfg: "cfg_ok X" using assms(1) by (simp add: wal_at_def)
  obtain L where m: "mid X w d L es []" "layout_states L = hss" using assms(1) by (auto simp: wal_at_def)
  have ok: "wal_ok X w d es" using assms(1) by (auto simp: wal_ok_def)
  note last = wal_last(1) [OF ok]
  obtain w1 d1 seg w2 d2 w3 d3 w4 d4 where ops:
    "(if ?i = WAL_LastIndex w + 1 then io_return ()
      else if ?i < WAL_LastIndex w + 1 \<and> w_first_index w \<le> ?i then WAL_TruncateSuffixFrom X ?i
      else io_fail (FatalError (Fmt ''non-continuous entries: expected {}, got {}'' [WAL_LastIndex w + 1, ?i]))) (w, d) = (Inr (), w1, d1)"
    "WAL_GetCurrentSegmentForAppend X ?i (w1, d1) = (Inr seg, w2, d2)"
    "append_entries X new seg (w2, d2) = (Inr (), w3, d3)" "WAL_FlushWriteBuffer X (w3, d3) = (Inr (), w4, d4)"
    "sync_if_configured X (w4, d4) = (Inr u, w', d')"
    using assms(2,3) unfolding WAL_Append_def by (auto simp: Let_def elim!: io_bind_InrE)
  obtain L1 hss2 where m1: "mid X w1 d1 L1 (take n es) []" "same_state w w1" "?cur w1 \<le> ?cur w"
    and h1: "hss = layout_states L1 @ hss2" "?i = WAL_LastIndex w + 1 \<longrightarrow> hss2 = []"
    and i: "unat ?i = unat (w_first_index w) + n" "n \<le> length es"
  proof (cases "?i = WAL_LastIndex w + 1")
    case True
    then have "unat ?i = unat (w_first_index w) + length es" using last by simp
    then show ?thesis using that [of L "[]"] ops(1) True m n_def by simp
  next
    case False
    then have t: "?i < WAL_LastIndex w + 1" "w_first_index w \<le> ?i" "WAL_TruncateSuffixFrom X ?i (w, d) = (Inr (), w1, d1)"
      using ops(1) by (auto split: if_splits)
    have i: "unat ?i = unat (w_first_index w) + n" "n < length es"
      using t(1,2) last by (auto simp: n_def word_le_nat_alt word_less_nat_alt)
    obtain L1 where "mid X w1 d1 L1 (take n es) []" "same_state w w1" "?cur w1 \<le> ?cur w" "\<exists>hs. layout_states L = layout_states L1 @ hs"
      using Truncate_log [OF t(3) m(1) i] .
    then show ?thesis using that [of L1] i False m(2) by auto
  qed
  have st1: "w_first_index w1 = w_first_index w" using m1(2) by (simp add: same_state_def)
  have len: "length (take n es) = n" using i(2) by simp
  obtain L2 es2 bs2 where m2: "mid X w2 d2 L2 es2 bs2" "es2 @ bs2 = take n es" "grows 1 w1 L1 w2 L2" "seg = sm_current_segment_id (w_segments w2)" "w_segs w2 \<noteq> []" "bs2 = []"
    using GetCurrent_log [OF ops(2) m1(1) _ _ cfg] i st1 len m1(3) assms(7) by auto
  have m2': "mid X w2 d2 L2 (take n es) []" using m2(1,2,6) by simp
  have st2: "same_state w w2" "w_first_index w2 = w_first_index w" "?cur w2 \<le> ?cur w + 1"
    using m2(3) m1(2,3) by (auto simp: grows_def same_state_def)
  have num: "unat ?i = unat (w_first_index w2) + length (take n es) + length ([] :: entry list)"
    "unat (w_first_index w2) + length (take n es) + length ([] :: entry list) + length new < 2 ^ 64" "?cur w2 + 2 * length new < 2 ^ 64"
    using i len st2(2,3) assms(6,7) by simp_all
  obtain L3 es3 bs3 where m3: "mid X w3 d3 L3 es3 bs3" "es3 @ bs3 = take n es @ [] @ new" "grows (2 * length new) w2 L2 w3 L3"
    using append_entries_log [OF ops(3) m2' assms(5,4) num(1,2) m2(4,5) num(3) cfg] .
  obtain L4 where m4: "mid X w4 d4 L4 (take n es @ new) []" "grows 0 w3 L3 w4 L4"
    using Flush_log [OF ops(4) m3(1)] m3(2) by auto
  have y: "w' = w4" "same_but {} d4 d'" using sync_if_configured_log [OF ops(5)] by auto
  have "mid X w' d' L4 (take n es @ new) []" using mid_same_but [OF m4(1) y(2)] y(1) by simp
  moreover have "same_state w w'" using st2(1) m3(3) m4(2) y(1) by (auto simp: grows_def intro: same_state_trans)
  moreover have "take n es @ new \<noteq> []" using assms(3) by simp
  moreover have "layout_states L4 = layout_states L1" using m2(3) m3(3) m4(2) by (simp add: grows_def)
  ultimately have "wal_at X w' d' (layout_states L1) (take n es @ new) \<and> same_state w w'" using cfg unfolding wal_at_def by blast
  moreover have "unat (w_first_index w) \<le> unat ?i" "unat ?i \<le> unat (w_first_index w) + length es" using i by linarith+
  moreover have "?cur w' \<le> ?cur w + 2 * length new + 1" using st2(3) m3(3) m4(2) y(1) by (simp add: grows_def)
  ultimately show ?thesis using h1 unfolding n_def by blast
qed

end
