(* ===== verification/WalRead.thy ===== *)
theory WalRead
  imports WalLog
begin

text \<open>Reading the write-ahead log: the entries asked for, or the error of a system call.\<close>

section \<open>One record\<close>

definition io_error :: "'a result \<Rightarrow> bool" where
  "io_error r \<longleftrightarrow> (\<exists>t. r = Inl (StorageErrorOther t))"

text \<open>No system call fails, and no file reaches the size that an \<open>off_t\<close> cannot hold.\<close>

definition fault_free :: "os \<Rightarrow> disk \<Rightarrow> bool" where
  "fault_free os d \<longleftrightarrow> (\<forall>n. os n = Done) \<and> (\<forall>name. length (file_of d name) < 2 ^ 63)"

lemma fault_free_same: "same_but {} d d' \<Longrightarrow> fault_free os d' = fault_free os d"
  by (simp add: fault_free_def same_but_def)

lemma sint_nonneg: "unat (x :: u64) < 2 ^ 63 \<Longrightarrow> \<not> sint x < 0"
proof -
  assume "unat x < 2 ^ 63"
  then have "take_bit 63 (unat x) = unat x" by (simp add: take_bit_nat_eq_self)
  then have "unat (take_bit 63 x) = unat x" by (simp add: unsigned_take_bit_eq)
  then have "take_bit 63 x = x" by (simp add: word_unat_eq_iff)
  then have "\<not> bit x 63" by (metis bit_take_bit_iff less_irrefl)
  then show ?thesis using bit_last_iff [of x] by simp
qed

lemma Segment_Read_item:
  assumes "seg_holds X d s (is1 @ it # is2)" "item_ok X it"
    "Segment_Read os (of_nat (32 + length (records X is1))) (of_nat (length (item_record X it))) s d = (r, d')"
  shows "(r = Inr (item_record X it) \<or> io_error r) \<and> same_but {} d d' \<and> (fault_free os d \<longrightarrow> r = Inr (item_record X it))"
proof -
  let ?off = "of_nat (32 + length (records X is1)) :: u64"
  have len: "unat (of_nat (length (item_record X it)) :: u32) = length (item_record X it)"
    using item_record_length(2) [OF assms(2)] by (rule unat_of_nat_u32)
  have off: "unat ?off = 32 + length (records X is1)" using seg_bound(1) [OF assms(1)] .
  have rd: "subspan (unat ?off) (length (item_record X it)) (file_of d (seg_path s)) = item_record X it"
    using seg_read_item [OF assms(1)] .
  have op: "seg_open s" using assms(1) by (simp add: seg_holds_def)
  have size: "unat ?off \<le> length (file_of d (seg_path s))" using assms(1) off by (auto simp: seg_holds_def)
  have "\<not> sint ?off < 0" if "fault_free os d"
    by (rule sint_nonneg) (use that size in \<open>auto simp: fault_free_def intro: le_less_trans\<close>)
  then show ?thesis
    using assms(3) op len rd
    by (auto simp: Segment_Read_def PosixSegmentIo_PRead_def sys_pread_def sys_outcome_def io_error_def fault_free_def same_but_def Let_def
        split: outcome.splits if_splits)
qed

section \<open>Entries\<close>

lemma read_entry_log:
  assumes "log_ok X w d L es" "unat i = unat (w_first_index w) + n" "n < length es" "read_entry X i w d = (r, d')"
  shows "(r = Inr (es ! n, of_nat (length (c_entry (x_codec X) (es ! n)))) \<or> io_error r) \<and> same_but {} d d' \<and>
    (fault_free (x_os X) d \<longrightarrow> r = Inr (es ! n, of_nat (length (c_entry (x_codec X) (es ! n)))))"
proof -
  let ?e = "es ! n"
  obtain ss k s ss' Ls is1 is2 Ls' where l: "w_segs w = ss @ (k, s) # ss'" "L = Ls @ (is1 @ Entry_item ?e # is2) # Ls'"
    "length ss = length Ls" "length ss' = length Ls'" "seg_ok X d (k, s) (is1 @ Entry_item ?e # is2)" "segment_at k (w_segments w) = s"
    "wi_entries (w_index w) ! n = \<lparr>ie_segment_id = k, ie_offset = of_nat (32 + length (records X is1)),
       ie_length = of_nat (length (entry_record X ?e)), ie_term = e_term ?e\<rparr>"
    using log_locate [OF assms(1,3)] by metis
  have routed: "routed (w_segs w) L" using assms(1) by (simp add: log_ok_def)
  have ei: "e_index ?e = i" using log_index_nth [OF assms(1,3)] assms(2) by (simp add: u64_eq_iff)
  have seg: "SegmentManager_GetSegmentForIndex i (w_segments w) = Some k"
    using log_segment [OF routed l(1-4)] ei by (simp add: SegmentManager_GetSegmentForIndex_def)
  have look: "WALIndex_Lookup i (w_index w) = Some (wi_entries (w_index w) ! n)" using log_lookup [OF assms(1), of i] assms(2,3) by simp
  have item: "seg_holds X d s (is1 @ Entry_item ?e # is2)" "entry_ok X ?e" using l(5) by (auto simp: seg_ok_def)
  obtain r1 d1 where rd: "Segment_Read (x_os X) (of_nat (32 + length (records X is1))) (of_nat (length (item_record X (Entry_item ?e)))) s d = (r1, d1)"
    by (cases "Segment_Read (x_os X) (of_nat (32 + length (records X is1))) (of_nat (length (item_record X (Entry_item ?e)))) s d")
  note rd' = Segment_Read_item [OF item rd]
  have parse: "RecordParser_new (c_crc (x_codec X)) (entry_record X ?e) =
      \<lparr>rp_header = item_header X (Entry_item ?e), rp_payload = c_entry (x_codec X) ?e, rp_valid = True\<rparr>"
    using parse_item [OF item(2), of "[]"] by (simp add: item_record_def item_payload_def)
  have dec: "from_words (c_entry_of (x_codec X)) (c_entry (x_codec X) ?e) = Some ?e" using item(2) by (simp add: item_ok_def)
  have rec: "item_record X (Entry_item ?e) = entry_record X ?e" by (simp add: item_record_def)
  have "read_entry X i w d = (case r1 of Inl err \<Rightarrow> (Inl err, d1) | Inr bs \<Rightarrow>
      (let parser = RecordParser_new (c_crc (x_codec X)) bs
       in if \<not> rp_valid parser then io_fail (StorageError CorruptEntryRecord)
          else case from_words (c_entry_of (x_codec X)) (rp_payload parser) of
                 None \<Rightarrow> io_fail (StorageError EntryParseError)
               | Some e \<Rightarrow> io_return (e, of_nat (length (rp_payload parser)))) d1)"
    using look seg l(6,7) rd by (simp add: read_entry_def io_bind_def rec split: sum.splits)
  then show ?thesis using assms(4) rd' parse dec rec by (cases r1) (auto simp: io_error_def)
qed

text \<open>The entries up to and including the one at which the size limit is reached.\<close>

fun limit_reached :: "wal_env \<Rightarrow> u64 option \<Rightarrow> u64 \<Rightarrow> entry list \<Rightarrow> entry list" where
  "limit_reached X max_size got [] = []"
| "limit_reached X max_size got (e # es) =
     (let got = got + of_nat (length (c_entry (x_codec X) e))
      in e # (if (case max_size of None \<Rightarrow> False | Some m \<Rightarrow> m \<le> got) then [] else limit_reached X max_size got es))"

lemma limit_reached_None [simp]: "limit_reached X None got es = es"
  by (induction es arbitrary: got) (simp_all add: Let_def)

lemma read_loop_log:
  assumes "log_ok X w d L es" "unat i = unat (w_first_index w) + n" "n + k \<le> length es"
    "read_loop X k i max_size got acc w d = (r, d')"
  shows "(r = Inr (acc @ limit_reached X max_size got (take k (drop n es))) \<or> io_error r) \<and> same_but {} d d' \<and>
    (fault_free (x_os X) d \<longrightarrow> r = Inr (acc @ limit_reached X max_size got (take k (drop n es))))"
  using assms
proof (induction k arbitrary: i n got acc d)
  case (Suc k)
  let ?e = "es ! n" let ?sz = "of_nat (length (c_entry (x_codec X) (es ! n))) :: u64"
  have n: "n < length es" using Suc.prems(3) by simp
  have split: "take (Suc k) (drop n es) = ?e # take k (drop (Suc n) es)" using n by (simp add: Cons_nth_drop_Suc [symmetric])
  obtain r1 d1 where rd: "read_entry X i w d = (r1, d1)" by (cases "read_entry X i w d")
  note e = read_entry_log [OF Suc.prems(1,2) n rd]
  have log1: "log_ok X w d1 L es"
    using e Suc.prems(1) mgr_ok_same_but [of X "w_segments w" d L "{}" d1] unfolding log_ok_def by blast
  show ?case
  proof (cases r1)
    case (Inl err)
    then show ?thesis using e rd Suc.prems(4) by (auto simp: io_bind_def io_error_def)
  next
    case (Inr p)
    then have p: "p = (?e, ?sz)" using e by (auto simp: io_error_def)
    show ?thesis
    proof (cases "case max_size of None \<Rightarrow> False | Some m \<Rightarrow> m \<le> got + ?sz")
      case True
      then have "r = Inr (acc @ [?e])" "d' = d1" using Suc.prems(4) rd Inr p by (simp_all add: io_bind_def Let_def)
      then show ?thesis using True e split by (simp add: Let_def)
    next
      case False
      then have rest: "read_loop X k (i + 1) max_size (got + ?sz) (acc @ [?e]) w d1 = (r, d')"
        using Suc.prems(4) rd Inr p by (simp add: io_bind_def Let_def)
      have "unat (w_first_index w) + length es < 2 ^ 64" using Suc.prems(1) unfolding log_ok_def by blast
      then have i: "unat (i + 1) = unat (w_first_index w) + Suc n" using Suc.prems(2) n by (simp add: unat_Suc_bound_u64)
      have ih: "(r = Inr ((acc @ [?e]) @ limit_reached X max_size (got + ?sz) (take k (drop (Suc n) es))) \<or> io_error r) \<and> same_but {} d1 d' \<and>
          (fault_free (x_os X) d1 \<longrightarrow> r = Inr ((acc @ [?e]) @ limit_reached X max_size (got + ?sz) (take k (drop (Suc n) es))))"
        using Suc.IH [OF log1 i _ rest] Suc.prems(3) by simp
      show ?thesis using ih e False split fault_free_same [of d d1 "x_os X"] same_but_trans [of "{}" d d1 d']
        by (auto simp: Let_def)
    qed
  qed
qed (simp add: io_error_def)

lemma ReadEntries_log:
  assumes "wal_ok X w d es" "WAL_ReadEntries X low high max_size w d = (r, d')" "w_first_index w \<le> low"
    "unat low \<le> unat (w_first_index w) + length es"
  defines "asked \<equiv> take (min (unat high) (unat (w_first_index w) + length es) - unat low) (drop (unat low - unat (w_first_index w)) es)"
  shows "(r = Inr (limit_reached X max_size 0 asked) \<or> io_error r) \<and> same_but {} d d' \<and>
    (fault_free (x_os X) d \<longrightarrow> r = Inr (limit_reached X max_size 0 asked))"
proof -
  let ?stop = "WAL_LastIndex w + 1" let ?n = "unat low - unat (w_first_index w)"
  define hi where "hi = (if high > ?stop then ?stop else high)"
  note last = wal_last(1) [OF assms(1)]
  obtain L where log: "log_ok X w d L es" using assms(1) by (auto simp: wal_ok_iff mid_def)
  have hi: "unat hi = min (unat high) (unat (w_first_index w) + length es)"
    using last by (auto simp: hi_def word_less_nat_alt min_def)
  have le: "unat (w_first_index w) \<le> unat low" using assms(3) by (simp add: word_le_nat_alt)
  have eq: "WAL_ReadEntries X low high max_size w d =
      (if hi \<le> low then (Inr [], d) else read_loop X (unat (hi - low)) low max_size 0 [] w d)"
    using assms(3,4) last by (auto simp: WAL_ReadEntries_def hi_def Let_def not_less word_le_nat_alt word_less_nat_alt)
  show ?thesis
  proof (cases "hi \<le> low")
    case True
    then have "asked = []" using hi by (simp add: asked_def word_le_nat_alt)
    then show ?thesis using True eq assms(2) by simp
  next
    case False
    then have k: "unat (hi - low) = unat hi - unat low" by (simp add: unat_sub_u64 not_le less_imp_le)
    have "read_loop X (unat hi - unat low) low max_size 0 [] w d = (r, d')" using eq assms(2) False k by simp
    moreover have "unat low = unat (w_first_index w) + ?n" "?n + (unat hi - unat low) \<le> length es"
      using le hi assms(4) by auto
    ultimately show ?thesis using read_loop_log [OF log, of low ?n "unat hi - unat low" max_size 0 "[]" r d'] hi
      by (simp add: asked_def)
  qed
qed

end
