(* ===== verification/WalRecover.thy ===== *)
theory WalRecover
  imports WalRead
begin

text \<open>
  Opening a write-ahead log that exists on disk rebuilds the log: the segments are found and replayed, the index and the
  hard state are computed from their records, and what a crash left of an unfinished write at the end is cut off.
\<close>

section \<open>Reading without faults\<close>

lemma Segment_Read_ok:
  assumes "fault_free os d" "seg_open s" "unat off + unat len \<le> length (file_of d (seg_path s))"
  shows "Segment_Read os off len s d = (Inr (subspan (unat off) (unat len) (file_of d (seg_path s))), d\<lparr>d_clock := Suc (d_clock d)\<rparr>)"
proof -
  have "length (file_of d (seg_path s)) < 2 ^ 63" using assms(1) by (simp add: fault_free_def)
  then have "\<not> sint off < 0" using assms(3) by (intro sint_nonneg) simp
  then show ?thesis
    using assms by (simp add: Segment_Read_def PosixSegmentIo_PRead_def sys_pread_def sys_outcome_def fault_free_def Let_def)
qed

lemma fault_free_clock [simp]: "fault_free os (d\<lparr>d_clock := c\<rparr>) = fault_free os d"
  by (simp add: fault_free_def)

section \<open>Replaying the records of one segment\<close>

text \<open>What replaying one item does to the log.\<close>

definition replay_item :: "wal_env \<Rightarrow> u64 \<Rightarrow> nat \<Rightarrow> item \<Rightarrow> WAL \<Rightarrow> unit result \<times> WAL" where
  "replay_item X k off it w = (case it of
     Entry_item e \<Rightarrow> replay_entry k (of_nat off) (of_nat (length (entry_record X e)))
       ''WAL recovery found non-continuous entry: expected {}, got {}'' e w
   | State_item hs \<Rightarrow> (Inr (), if hs_term hs \<ge> hs_term (w_hard_state w) then w\<lparr>w_hard_state := hs\<rparr> else w))"

lemma replay_record_item:
  assumes "item_ok X it"
  shows "replay_record (x_codec X) k (of_nat off) (of_nat (length (item_record X it)))
      \<lparr>rp_header = item_header X it, rp_payload = item_payload X it, rp_valid = True\<rparr> w = replay_item X k off it w"
proof (cases it)
  case (Entry_item e)
  then have "from_words (c_entry_of (x_codec X)) (c_entry (x_codec X) e) = Some e" using assms by (simp add: item_ok_def)
  then show ?thesis using Entry_item
    by (simp add: replay_record_def replay_item_def RecordParser_Type_def RecordType_of_def item_type_def item_payload_def item_record_def)
next
  case (State_item hs)
  then have "from_words (c_hard_state_of (x_codec X)) (c_hard_state (x_codec X) hs) = Some hs" using assms by (simp add: item_ok_def)
  then show ?thesis using State_item
    by (simp add: replay_record_def replay_item_def RecordParser_Type_def RecordType_of_def item_type_def item_payload_def item_record_def)
qed

text \<open>The file of a segment under replay, and the size that the loop runs up to.\<close>

definition replaying :: "wal_env \<Rightarrow> u64 \<Rightarrow> u64 \<Rightarrow> u8 list \<Rightarrow> WAL \<times> disk \<Rightarrow> bool" where
  "replaying X k n bs = (\<lambda>(w, d). seg_open (segment_at k (w_segments w)) \<and>
     file_of d (seg_path (segment_at k (w_segments w))) = bs \<and> unat n = length bs \<and> fault_free (x_os X) d)"

lemma replaying_size: "replaying X k n bs s \<Longrightarrow> length bs < 2 ^ 63"
  by (auto simp: replaying_def fault_free_def)

lemma unat_offset:
  assumes "length (bs @ cs) < 2 ^ 63"
  shows "unat (of_nat (length bs) :: u64) = length bs"
  by (rule unat_of_nat_u64) (use assms in simp)

lemma replay_step_item:
  assumes "replaying X k n (pre @ item_record X it @ rest) (w, d)" "item_ok X it"
  shows "replay_step X k (of_nat (length pre)) n (w, d) =
    (case replay_item X k (length pre) it w of
       (Inl e, w') \<Rightarrow> (Inl (Inl e), w', d\<lparr>d_clock := Suc (Suc (d_clock d))\<rparr>)
     | (Inr _, w') \<Rightarrow> (Inr (of_nat (length pre + length (item_record X it))), w', d\<lparr>d_clock := Suc (Suc (d_clock d))\<rparr>))"
proof -
  let ?s = "segment_at k (w_segments w)" let ?bs = "pre @ item_record X it @ rest" let ?off = "of_nat (length pre) :: u64"
  let ?len = "length (item_record X it)" let ?tot = "RecordHeader_TotalSize (item_header X it)"
  have r: "seg_open ?s" "file_of d (seg_path ?s) = ?bs" "unat n = length ?bs" "fault_free (x_os X) d"
    using assms(1) by (auto simp: replaying_def)
  have size: "length ?bs < 2 ^ 63" using replaying_size [OF assms(1)] .
  have off: "unat ?off = length pre" using unat_offset [OF size] .
  have len: "16 < ?len" using item_record_length(1) [OF assms(2)] .
  have tot: "unat ?tot = ?len" using total_size_item [OF assms(2)] .
  have tot': "?tot = of_nat ?len" using tot unat_of_nat_u32 [OF item_record_length(2) [OF assms(2)]] by (simp add: word_unat_eq_iff)
  have "unat (?off + 16) = length pre + 16" using unat_add_of_nat_u64 [of ?off 16] off size by simp
  then have c1: "\<not> ?off + 16 > n" using r(3) len by (simp add: word_less_nat_alt)
  have "\<not> sint ?off < 0" using off size by (intro sint_nonneg) simp
  then have add: "unat (?off + ucast ?tot) = length pre + ?len" using unat_add_u32 [of ?off ?tot] off tot by simp
  then have c2: "\<not> ?off + ucast ?tot > n" using r(3) by (simp add: word_less_nat_alt)
  have next': "?off + ucast ?tot = of_nat (length pre + ?len)" using u64_of_nat [OF add] .
  have rd1: "Segment_Read (x_os X) ?off 16 ?s d = (Inr (RecordHeader_Serialize (item_header X it)), d\<lparr>d_clock := Suc (d_clock d)\<rparr>)"
    using Segment_Read_ok [OF r(4,1), of ?off 16] off len r(2) take_item_header [of X it rest] by (simp add: subspan_def)
  have rd2: "Segment_Read (x_os X) ?off ?tot ?s (d\<lparr>d_clock := Suc (d_clock d)\<rparr>) = (Inr (item_record X it), d\<lparr>d_clock := Suc (Suc (d_clock d))\<rparr>)"
    using Segment_Read_ok [of "x_os X" "d\<lparr>d_clock := Suc (d_clock d)\<rparr>" ?s ?off ?tot] off tot r by (simp add: subspan_def)
  show ?thesis
    using c1 c2 rd1 rd2 item_header_type [of X it] parse_item [OF assms(2), of "[]"] replay_record_item [OF assms(2), of k "length pre" w] tot' next'
    by (simp add: replay_step_def Let_def split: prod.splits sum.splits)
qed

fun replay_items :: "wal_env \<Rightarrow> u64 \<Rightarrow> nat \<Rightarrow> item list \<Rightarrow> WAL \<Rightarrow> unit result \<times> WAL" where
  "replay_items X k off [] w = (Inr (), w)"
| "replay_items X k off (it # is) w =
     (case replay_item X k off it w of
        (Inl e, w) \<Rightarrow> (Inl e, w)
      | (Inr _, w) \<Rightarrow> replay_items X k (off + length (item_record X it)) is w)"

lemma replay_item_segments: "replay_item X k off it w = (r, w') \<Longrightarrow> w_segments w' = w_segments w"
  by (auto simp: replay_item_def replay_entry_def Let_def split: item.splits if_splits)

lemma replay_loop_items:
  assumes "replaying X k n (pre @ records X is @ rest) (w, d)" "list_all (item_ok X) is" "replay_items X k (length pre) is w = (Inr (), w')"
  shows "\<exists>c. replay_loop X k (of_nat (length pre)) n (w, d) =
    replay_loop X k (of_nat (length (pre @ records X is))) n (w', d\<lparr>d_clock := c\<rparr>) \<and>
    replaying X k n (pre @ records X is @ rest) (w', d\<lparr>d_clock := c\<rparr>) \<and> w_segments w' = w_segments w"
  using assms
proof (induction "is" arbitrary: pre w d)
  case Nil
  then show ?case by (intro exI [of _ "d_clock d"]) simp
next
  case (Cons it "is")
  obtain w1 where it: "replay_item X k (length pre) it w = (Inr (), w1)" "replay_items X k (length pre + length (item_record X it)) is w1 = (Inr (), w')"
    using Cons.prems(3) by (auto split: prod.splits sum.splits)
  let ?d = "d\<lparr>d_clock := Suc (Suc (d_clock d))\<rparr>" let ?pre = "pre @ item_record X it"
  have step: "replay_step X k (of_nat (length pre)) n (w, d) = (Inr (of_nat (length ?pre)), w1, ?d)"
    using replay_step_item [of X k n pre it "records X is @ rest" w d] Cons.prems(1,2) it(1) by simp
  have lt: "(of_nat (length pre) :: u64) < n"
    using Cons.prems(1,2) unat_offset [of pre "records X (it # is) @ rest"] replaying_size [OF Cons.prems(1)] item_record_length(1) [of X it]
    by (auto simp: replaying_def word_less_nat_alt)
  have segs: "w_segments w1 = w_segments w" using replay_item_segments [OF it(1)] .
  have next': "replaying X k n (?pre @ records X is @ rest) (w1, ?d)" using Cons.prems(1) segs by (simp add: replaying_def)
  have "\<exists>c. replay_loop X k (of_nat (length ?pre)) n (w1, ?d) =
      replay_loop X k (of_nat (length (?pre @ records X is))) n (w', ?d\<lparr>d_clock := c\<rparr>) \<and>
      replaying X k n (?pre @ records X is @ rest) (w', ?d\<lparr>d_clock := c\<rparr>) \<and> w_segments w' = w_segments w1"
    by (rule Cons.IH [OF next']) (use Cons.prems(2) it(2) in simp_all)
  then obtain c where c: "replay_loop X k (of_nat (length ?pre)) n (w1, ?d) = replay_loop X k (of_nat (length (?pre @ records X is))) n (w', d\<lparr>d_clock := c\<rparr>)"
    "replaying X k n (?pre @ records X is @ rest) (w', d\<lparr>d_clock := c\<rparr>)" "w_segments w' = w_segments w1" by auto
  have "replay_loop X k (of_nat (length pre)) n (w, d) = replay_loop X k (of_nat (length ?pre)) n (w1, ?d)"
    by (subst replay_loop.simps) (simp add: lt step)
  then show ?case using c segs by (intro exI [of _ c]) simp
qed

text \<open>What may follow the last complete record: zeros allocated ahead, or the beginning of a record.\<close>

definition seg_tail :: "wal_env \<Rightarrow> u8 list \<Rightarrow> bool" where
  "seg_tail X junk \<longleftrightarrow> (\<exists>z. junk = replicate z 0) \<or> (\<exists>it m. item_ok X it \<and> m < length (item_record X it) \<and> junk = take m (item_record X it))"

lemma le_word_zeros [simp]: "le_word (replicate m 0) = 0"
  by (induction m) simp_all

lemma zero_header:
  "rh_length (RecordHeader_Deserialize (replicate 16 0)) = 0" "rh_type (RecordHeader_Deserialize (replicate 16 0)) = 0"
  by (simp_all add: RecordHeader_Deserialize_def field_def subspan_def min_def)

lemma replay_step_tail:
  assumes "replaying X k n (pre @ junk) (w, d)" "seg_tail X junk" "junk \<noteq> []"
  shows "\<exists>c. replay_step X k (of_nat (length pre)) n (w, d) =
    (case on_segments (on_segment k (Segment_Truncate (x_os X) (of_nat (length pre)))) (w, d\<lparr>d_clock := c\<rparr>) of (r, s) \<Rightarrow> (Inl r, s))"
proof -
  let ?s = "segment_at k (w_segments w)" let ?bs = "pre @ junk" let ?off = "of_nat (length pre) :: u64"
  have r: "seg_open ?s" "file_of d (seg_path ?s) = ?bs" "unat n = length ?bs" "fault_free (x_os X) d"
    using assms(1) by (auto simp: replaying_def)
  have size: "length ?bs < 2 ^ 63" using replaying_size [OF assms(1)] .
  have off: "unat ?off = length pre" using unat_offset [OF size] .
  have off16: "unat (?off + 16) = length pre + 16" using unat_add_of_nat_u64 [of ?off 16] off size by simp
  show ?thesis
  proof (cases "length junk < 16")
    case True
    then have "?off + 16 > n" using r(3) off16 by (simp add: word_less_nat_alt)
    then show ?thesis by (intro exI [of _ "d_clock d"]) (simp add: replay_step_def Let_def)
  next
    case False
    then have c1: "\<not> ?off + 16 > n" using r(3) off16 by (simp add: word_less_nat_alt)
    have rd: "Segment_Read (x_os X) ?off 16 ?s d = (Inr (take 16 junk), d\<lparr>d_clock := Suc (d_clock d)\<rparr>)"
      using Segment_Read_ok [OF r(4,1), of ?off 16] off r(2) False by (simp add: subspan_def)
    have "rh_length (RecordHeader_Deserialize (take 16 junk)) = 0 \<and> rh_type (RecordHeader_Deserialize (take 16 junk)) = 0 \<or>
        ?off + ucast (RecordHeader_TotalSize (RecordHeader_Deserialize (take 16 junk))) > n"
    proof (cases "\<exists>z. junk = replicate z 0")
      case True
      then show ?thesis using False by (auto simp: zero_header)
    next
      case False
      then obtain it m where it: "item_ok X it" "m < length (item_record X it)" "junk = take m (item_record X it)"
        using assms(2) by (auto simp: seg_tail_def)
      then have "take 16 junk = RecordHeader_Serialize (item_header X it)"
        using \<open>\<not> length junk < 16\<close> take_item_header [of X it "[]"] by (simp add: min_def)
      moreover have "unat (?off + ucast (RecordHeader_TotalSize (item_header X it))) = length pre + length (item_record X it)"
        using unat_add_u32 [of ?off] sint_nonneg [of ?off] off size total_size_item [OF it(1)] by simp
      ultimately show ?thesis using it r(3) by (simp add: word_less_nat_alt)
    qed
    then show ?thesis
      using c1 rd by (intro exI [of _ "Suc (d_clock d)"]) (auto simp: replay_step_def Let_def)
  qed
qed

text \<open>A segment as it is opened: the write offset is the size of the file.\<close>

definition seg_raw :: "wal_env \<Rightarrow> disk \<Rightarrow> u64 \<times> Segment \<Rightarrow> item list \<Rightarrow> bool" where
  "seg_raw X d p is \<longleftrightarrow> seg_segment_id (snd p) = fst p \<and> seg_path (snd p) = Segment_MakeSegmentFilename (fst p) \<and>
     seg_open (snd p) \<and> file_exists d (seg_path (snd p)) \<and> list_all (item_ok X) is \<and> unclogged X is \<and>
     unat (seg_write_offset (snd p)) = length (file_of d (seg_path (snd p))) \<and>
     (\<exists>junk. seg_tail X junk \<and> file_of d (seg_path (snd p)) = seg_head (snd p) @ records X is @ junk)"

lemma seg_raw_other:
  assumes "seg_raw X d p is" "same_but {Segment_MakeSegmentFilename k} d d'" "fst p \<noteq> k"
  shows "seg_raw X d' p is"
proof -
  have "seg_path (snd p) \<notin> {Segment_MakeSegmentFilename k}" using assms(1,3) by (simp add: seg_raw_def filename_inj)
  then have "file_of d' (seg_path (snd p)) = file_of d (seg_path (snd p))" "file_exists d' (seg_path (snd p)) = file_exists d (seg_path (snd p))"
    using assms(2) by (auto simp: same_but_def)
  then show ?thesis using assms(1) unfolding seg_raw_def by metis
qed

lemma seg_raw_clock [simp]: "seg_raw X (d\<lparr>d_clock := c\<rparr>) p is = seg_raw X d p is"
  by (simp add: seg_raw_def)

lemma fault_free_shorter:
  assumes "fault_free os d" "d' = set_file name bs (d\<lparr>d_clock := c\<rparr>)" "length bs \<le> length (file_of d name)"
  shows "fault_free os d'"
  using assms by (auto simp: fault_free_def intro: le_less_trans [OF assms(3)])

lemma Segment_Truncate_raw:
  assumes "fault_free os d" "seg_open s" "file_of d (seg_path s) = pre @ junk"
  shows "Segment_Truncate os (of_nat (length pre)) (s, d) =
    (Inr (), s\<lparr>seg_write_offset := of_nat (length pre), seg_file_size := of_nat (length pre)\<rparr>,
     set_file (seg_path s) pre (d\<lparr>d_clock := Suc (d_clock d)\<rparr>))"
proof -
  have size: "length (pre @ junk) < 2 ^ 63" using assms(1,3) by (metis fault_free_def)
  have off: "unat (of_nat (length pre) :: u64) = length pre" using unat_offset [OF size] .
  have "\<not> sint (of_nat (length pre) :: u64) < 0" using off size by (intro sint_nonneg) simp
  moreover have "set_size (length pre) (pre @ junk) = pre" by (subst set_size_take) simp_all
  ultimately show ?thesis
    using assms off by (simp add: Segment_Truncate_def sys_ftruncate_def sys_call_def sys_outcome_def fault_free_def)
qed

lemma replay_segment:
  assumes "w_segs w = ss @ (k, s) # ss'" "k \<notin> fst ` set ss" "seg_raw X d (k, s) is" "fault_free (x_os X) d"
    "replay_items X k 32 is w = (Inr (), w1)"
  obtains s' d' where "WAL_ReplaySegment X k (w, d) = (Inr (), w1\<lparr>w_segments := (w_segments w)\<lparr>sm_segments := ss @ (k, s') # ss'\<rparr>\<rparr>, d')"
    "seg_ok X d' (k, s') is" "seg_first_index s' = seg_first_index s" "same_but {Segment_MakeSegmentFilename k} d d'" "fault_free (x_os X) d'"
proof -
  obtain junk where raw: "seg_segment_id s = k" "seg_path s = Segment_MakeSegmentFilename k" "seg_open s" "file_exists d (seg_path s)"
    "list_all (item_ok X) is" "unclogged X is" "unat (seg_write_offset s) = length (file_of d (seg_path s))" "seg_tail X junk"
    "file_of d (seg_path s) = seg_head s @ records X is @ junk"
    using assms(3) by (auto simp: seg_raw_def)
  let ?n = "seg_write_offset s" let ?pre = "seg_head s @ records X is" let ?off = "of_nat (length ?pre) :: u64"
  have at: "segment_at k (w_segments w) = s"
    using assms(1,2) by (simp add: segment_at_def map_add_def map_of_eq_None_iff [THEN iffD2])
  have rep: "replaying X k ?n (seg_head s @ records X is @ junk) (w, d)" using raw assms(4) at by (simp add: replaying_def)
  obtain c where c: "replay_loop X k (of_nat (length (seg_head s))) ?n (w, d) = replay_loop X k ?off ?n (w1, d\<lparr>d_clock := c\<rparr>)"
    "replaying X k ?n (?pre @ junk) (w1, d\<lparr>d_clock := c\<rparr>)" "w_segments w1 = w_segments w"
    using replay_loop_items [OF rep raw(5)] assms(5) by auto
  have start: "WAL_ReplaySegment X k (w, d) = replay_loop X k ?off ?n (w1, d\<lparr>d_clock := c\<rparr>)"
    using c(1) at by (simp add: WAL_ReplaySegment_def)
  show ?thesis
  proof (cases "junk = []")
    case True
    then have "?n = ?off" using raw(7,9) by (intro u64_of_nat) simp
    then have "WAL_ReplaySegment X k (w, d) = (Inr (), w1, d\<lparr>d_clock := c\<rparr>)" unfolding start by (subst replay_loop.simps) simp
    moreover have "w1 = w1\<lparr>w_segments := (w_segments w)\<lparr>sm_segments := ss @ (k, s) # ss'\<rparr>\<rparr>"
      by (simp flip: assms(1) c(3))
    moreover have "seg_ok X (d\<lparr>d_clock := c\<rparr>) (k, s) is"
      using raw True by (auto simp: seg_ok_def seg_holds_def intro: exI [of _ 0])
    ultimately show ?thesis using that [of s "d\<lparr>d_clock := c\<rparr>"] assms(4) by simp
  next
    case False
    obtain c' where st: "replay_step X k ?off ?n (w1, d\<lparr>d_clock := c\<rparr>) =
        (case on_segments (on_segment k (Segment_Truncate (x_os X) ?off)) (w1, d\<lparr>d_clock := c'\<rparr>) of (r, s) \<Rightarrow> (Inl r, s))"
      using replay_step_tail [OF c(2) raw(8) False] by auto
    define s' where "s' = s\<lparr>seg_write_offset := ?off, seg_file_size := ?off\<rparr>"
    define d' where "d' = set_file (seg_path s) ?pre (d\<lparr>d_clock := Suc c'\<rparr>)"
    have "Segment_Truncate (x_os X) ?off (s, d\<lparr>d_clock := c'\<rparr>) = (Inr (), s', d')"
      using Segment_Truncate_raw [of "x_os X" "d\<lparr>d_clock := c'\<rparr>" s ?pre junk] assms(4) raw(3,9) by (simp add: s'_def d'_def)
    then have tr: "on_segments (on_segment k (Segment_Truncate (x_os X) ?off)) (w1, d\<lparr>d_clock := c'\<rparr>) =
        (Inr (), w1\<lparr>w_segments := (w_segments w)\<lparr>sm_segments := ss @ (k, s') # ss'\<rparr>\<rparr>, d')"
      using at c(3) assms(1,2) by (simp add: on_segments_def on_segment_def update_middle)
    have size: "length (?pre @ junk) < 2 ^ 63" using replaying_size [OF c(2)] .
    have off: "unat ?off = length ?pre" using unat_offset [OF size] .
    have lt: "?off < ?n" using off raw(7,9) False by (simp add: word_less_nat_alt)
    have "WAL_ReplaySegment X k (w, d) = (Inr (), w1\<lparr>w_segments := (w_segments w)\<lparr>sm_segments := ss @ (k, s') # ss'\<rparr>\<rparr>, d')"
      unfolding start by (subst replay_loop.simps) (simp only: lt st tr if_True prod.case sum.case)
    moreover have "seg_ok X d' (k, s') is"
      using raw off by (auto simp: seg_ok_def seg_holds_def s'_def d'_def intro: exI [of _ 0])
    moreover have "fault_free (x_os X) d'" by (rule fault_free_shorter [OF assms(4) d'_def]) (simp add: raw(9))
    moreover have "same_but {Segment_MakeSegmentFilename k} d d'" by (simp add: d'_def raw(2))
    ultimately show ?thesis using that [of s' d'] by (simp add: s'_def)
  qed
qed

section \<open>Replaying the segments\<close>

text \<open>The hard state that replay keeps: a record replaces the one known unless its term is older.\<close>

definition newer_state :: "hard_state \<Rightarrow> hard_state \<Rightarrow> hard_state" where
  "newer_state h hs = (if hs_term hs \<ge> hs_term h then hs else h)"

text \<open>The index built so far holds the positions \<open>ps\<close> that are at or beyond the first index.\<close>

definition indexed :: "WAL \<Rightarrow> (entry \<times> IndexEntry) list \<Rightarrow> bool" where
  "indexed w ps \<longleftrightarrow> wi_first_index (w_index w) = w_first_index w \<and> wi_entries (w_index w) = map snd (live (w_first_index w) ps)"

text \<open>The entries at or beyond the first index are consecutive from there.\<close>

definition live_contig :: "u64 \<Rightarrow> (entry \<times> IndexEntry) list \<Rightarrow> bool" where
  "live_contig first ps \<longleftrightarrow> contig first (map fst (live first ps)) \<and> 0 < unat first \<and> unat first + length (live first ps) < 2 ^ 64"

lemma live_contig_prefix: "live_contig first (ps @ qs) \<Longrightarrow> live_contig first ps"
  by (simp add: live_contig_def contig_append)

lemma replay_item_ok:
  assumes "indexed w ps" "live_contig (w_first_index w) (ps @ positions X k off [it])"
  obtains ix where "replay_item X k off it w = (Inr (), w\<lparr>w_index := ix, w_hard_state := foldl newer_state (w_hard_state w) (item_states [it])\<rparr>)"
    "indexed (w\<lparr>w_index := ix\<rparr>) (ps @ positions X k off [it])"
proof (cases it)
  case (State_item hs)
  then show ?thesis using that [of "w_index w"] assms(1) by (auto simp: replay_item_def newer_state_def)
next
  case (Entry_item e)
  let ?first = "w_first_index w" let ?ix = "w_index w"
  let ?ie = "\<lparr>ie_segment_id = k, ie_offset = of_nat off, ie_length = of_nat (length (entry_record X e)), ie_term = e_term e\<rparr>"
  have ix: "wi_first_index ?ix = ?first" "wi_entries ?ix = map snd (live ?first ps)" using assms(1) by (auto simp: indexed_def)
  show ?thesis
  proof (cases "?first \<le> e_index e")
    case False
    then have "live ?first [(e, ?ie)] = []" by (simp add: live_def)
    then show ?thesis using that [of ?ix] assms(1) False Entry_item by (auto simp: replay_item_def replay_entry_def indexed_def)
  next
    case True
    let ?n = "length (live ?first ps)"
    have lv: "live ?first [(e, ?ie)] = [(e, ?ie)]" using True by (simp add: live_def)
    have b: "0 < unat ?first" "unat ?first + (?n + 1) < 2 ^ 64" "e_index e = ?first + of_nat ?n"
      using assms(2) lv Entry_item by (auto simp: live_contig_def contig_append)
    have ue: "unat (e_index e) = unat ?first + ?n" unfolding b(3) using b(2) by (intro unat_add_of_nat_u64) simp
    have "(if WALIndex_empty ?ix then ?first else WALIndex_last_index ?ix + 1) = e_index e"
      using ix b(3) by (auto simp: WALIndex_empty_def WALIndex_last_index_def)
    then have r: "replay_item X k off it w = (Inr (), w\<lparr>w_index := WALIndex_Insert (e_index e) ?ie ?ix\<rparr>)"
      using True Entry_item by (simp add: replay_item_def replay_entry_def Let_def)
    have ins: "wi_first_index (WALIndex_Insert (e_index e) ?ie ?ix) = ?first" "wi_entries (WALIndex_Insert (e_index e) ?ie ?ix) = map snd (live ?first ps) @ [?ie]"
      using wi.insert_next [of ?ix "e_index e" ?ie] ix b ue by simp_all
    show ?thesis using that [of "WALIndex_Insert (e_index e) ?ie ?ix"] r ins lv Entry_item by (simp add: indexed_def)
  qed
qed

lemma replay_items_ok:
  assumes "indexed w ps" "live_contig (w_first_index w) (ps @ positions X k off is)"
  shows "\<exists>ix. replay_items X k off is w = (Inr (), w\<lparr>w_index := ix, w_hard_state := foldl newer_state (w_hard_state w) (item_states is)\<rparr>) \<and>
    indexed (w\<lparr>w_index := ix\<rparr>) (ps @ positions X k off is)"
  using assms
proof (induction "is" arbitrary: w ps off)
  case Nil
  then show ?case by (intro exI [of _ "w_index w"]) simp
next
  case (Cons it "is")
  let ?ps = "ps @ positions X k off [it]" let ?off = "off + length (item_record X it)"
  have pos: "positions X k off (it # is) = positions X k off [it] @ positions X k ?off is" by simp
  have st: "item_states (it # is) = item_states [it] @ item_states is" by (cases it) simp_all
  have c: "live_contig (w_first_index w) (?ps @ positions X k ?off is)" using Cons.prems(2) unfolding pos by simp
  obtain ix where ix: "replay_item X k off it w = (Inr (), w\<lparr>w_index := ix, w_hard_state := foldl newer_state (w_hard_state w) (item_states [it])\<rparr>)"
    "indexed (w\<lparr>w_index := ix\<rparr>) ?ps"
    using replay_item_ok [OF Cons.prems(1) live_contig_prefix [OF c]] .
  let ?w = "w\<lparr>w_index := ix, w_hard_state := foldl newer_state (w_hard_state w) (item_states [it])\<rparr>"
  have "indexed ?w ?ps" using ix(2) by (simp add: indexed_def)
  then obtain ix' where "replay_items X k ?off is ?w = (Inr (), ?w\<lparr>w_index := ix', w_hard_state := foldl newer_state (w_hard_state ?w) (item_states is)\<rparr>)"
    "indexed (?w\<lparr>w_index := ix'\<rparr>) (?ps @ positions X k ?off is)"
    using Cons.IH [of ?w ?ps ?off] c by auto
  then show ?case using ix(1) unfolding pos st by (intro exI [of _ ix']) (simp add: indexed_def)
qed

lemma routed_first:
  assumes "routed (ss @ (k, s) # ss') (Ls @ is # Ls')" "length ss = length Ls" "length ss' = length Ls'"
  shows "segment_for_index (seg_first_index s) (ss @ (k, s) # ss') acc = Some k"
proof -
  note r = routed_split [OF assms]
  have "\<exists>acc'. segment_for_index (seg_first_index s) (ss @ (k, s) # ss') acc = segment_for_index (seg_first_index s) ((k, s) # ss') acc'"
    by (intro segment_for_index_skip) (use r(1) in force)
  moreover have "segment_for_index (seg_first_index s) ss' (Some k) = Some k" using r(4) by (simp add: segment_for_index_stop)
  ultimately show ?thesis by auto
qed

text \<open>What the routing of indices and the positions depend on.\<close>

definition seg_key :: "u64 \<times> Segment \<Rightarrow> u64 \<times> u64" where
  "seg_key p = (fst p, seg_first_index (snd p))"

lemma routed_keys: "routed ss L \<longleftrightarrow>
    (\<forall>(p, is) \<in> set (zip (map seg_key ss) L). \<forall>e \<in> set (item_entries is). snd p \<le> e_index e) \<and>
    sorted_wrt (\<lambda>(p, is) (p', is'). snd p < snd p' \<and> (\<forall>e \<in> set (item_entries is). e_index e < snd p')) (zip (map seg_key ss) L)"
  unfolding routed_def zip_map1 sorted_wrt_map by (simp add: seg_key_def case_prod_unfold)

lemma all_positions_keys: "all_positions X ss L = concat (map (\<lambda>(p, is). positions X (fst p) 32 is) (zip (map seg_key ss) L))"
  by (simp add: all_positions_def zip_map1 seg_key_def case_prod_unfold comp_def)

lemma omap_wf_keys: "map seg_key ss = map seg_key ss' \<Longrightarrow> omap_wf ss = omap_wf ss'"
proof -
  assume "map seg_key ss = map seg_key ss'"
  then have "map fst (map seg_key ss) = map fst (map seg_key ss')" by (rule arg_cong)
  then show ?thesis by (simp add: comp_def seg_key_def)
qed

lemma replay_all_ok:
  assumes "w_segs w = ss1 @ ss2" "omap_wf (ss1 @ ss2)" "routed (ss1 @ ss2) (L1 @ L2)" "fault_free (x_os X) d"
    "list_all2 (seg_ok X d) ss1 L1" "list_all2 (seg_raw X d) ss2 L2" "indexed w (all_positions X ss1 L1)"
    "live_contig (w_first_index w) (all_positions X (ss1 @ ss2) (L1 @ L2))" "map si_first_index infos = map (seg_first_index \<circ> snd) ss2"
  shows "\<exists>ix ss2' d'. let w' = w\<lparr>w_segments := (w_segments w)\<lparr>sm_segments := ss1 @ ss2'\<rparr>, w_index := ix,
        w_hard_state := foldl newer_state (w_hard_state w) (layout_states L2)\<rparr>
      in replay_all X infos (w, d) = (Inr (), w', d') \<and> map seg_key ss2' = map seg_key ss2 \<and>
         list_all2 (seg_ok X d') (ss1 @ ss2') (L1 @ L2) \<and> indexed w' (all_positions X (ss1 @ ss2) (L1 @ L2)) \<and> fault_free (x_os X) d'"
  using assms
proof (induction ss2 arbitrary: ss1 L1 L2 infos w d)
  case Nil
  moreover have "ss1 = w_segs w" using Nil.prems(1) by simp
  then have "w\<lparr>w_segments := (w_segments w)\<lparr>sm_segments := ss1\<rparr>, w_index := w_index w, w_hard_state := w_hard_state w\<rparr> = w" by simp
  ultimately show ?case by (intro exI [of _ "w_index w"] exI [of _ "[]"] exI [of _ d]) (simp add: Let_def indexed_def)
next
  case (Cons p ss2)
  obtain k s where p: "p = (k, s)" by (cases p)
  obtain "is" L2' where L2: "L2 = is # L2'" "seg_raw X d (k, s) is" "list_all2 (seg_raw X d) ss2 L2'"
    using Cons.prems(6) p by (auto simp: list_all2_Cons1)
  obtain info infos' where infos: "infos = info # infos'" "si_first_index info = seg_first_index s" "map si_first_index infos' = map (seg_first_index \<circ> snd) ss2"
    using Cons.prems(9) p by (auto simp: map_eq_Cons_conv)
  have len: "length ss1 = length L1" "length ss2 = length L2'" using Cons.prems(5) L2(3) by (auto dest: list_all2_lengthD)
  have fresh: "k \<notin> fst ` set ss1" "k \<notin> fst ` set ss2" using omap_wf_append [of ss1 k s ss2] Cons.prems(2) p by auto
  have ap: "all_positions X (ss1 @ (k, s) # ss2) (L1 @ is # L2') = (all_positions X ss1 L1 @ positions X k 32 is) @ all_positions X ss2 L2'"
    using len by (simp add: all_positions_append)
  have lc: "live_contig (w_first_index w) (all_positions X ss1 L1 @ positions X k 32 is)"
    using Cons.prems(8) live_contig_prefix unfolding p L2(1) ap by blast
  obtain ix where ix: "replay_items X k 32 is w = (Inr (), w\<lparr>w_index := ix, w_hard_state := foldl newer_state (w_hard_state w) (item_states is)\<rparr>)"
    "indexed (w\<lparr>w_index := ix\<rparr>) (all_positions X ss1 L1 @ positions X k 32 is)"
    using replay_items_ok [OF Cons.prems(7) lc] by auto
  have segs: "w_segs w = ss1 @ (k, s) # ss2" using Cons.prems(1) p by simp
  obtain s' d' where s': "WAL_ReplaySegment X k (w, d) = (Inr (), w\<lparr>w_index := ix, w_hard_state := foldl newer_state (w_hard_state w) (item_states is),
      w_segments := (w_segments w)\<lparr>sm_segments := ss1 @ (k, s') # ss2\<rparr>\<rparr>, d')"
    "seg_ok X d' (k, s') is" "seg_first_index s' = seg_first_index s" "same_but {Segment_MakeSegmentFilename k} d d'" "fault_free (x_os X) d'"
    using replay_segment [OF segs fresh(1) L2(2) Cons.prems(4) ix(1)] .
  define w1 where "w1 = w\<lparr>w_index := ix, w_hard_state := foldl newer_state (w_hard_state w) (item_states is),
      w_segments := (w_segments w)\<lparr>sm_segments := ss1 @ (k, s') # ss2\<rparr>\<rparr>"
  let ?ss1 = "ss1 @ [(k, s')]" let ?L1 = "L1 @ [is]"
  have key: "map seg_key (?ss1 @ ss2) = map seg_key (ss1 @ (k, s) # ss2)" using s'(3) by (simp add: seg_key_def)
  have "SegmentManager_GetSegmentForIndex (si_first_index info) (w_segments w) = Some k"
    using routed_first [OF _ len, of k s "is"] Cons.prems(3) segs infos(2) unfolding p L2(1) by (simp add: SegmentManager_GetSegmentForIndex_def)
  then have step: "replay_all X infos (w, d) = replay_all X infos' (w1, d')" using s'(1) unfolding infos(1) w1_def by simp
  have ok1: "list_all2 (seg_ok X d') ss1 L1"
    using segs_ok_other [OF Cons.prems(5) s'(4)] fresh(1) by blast
  have raw2: "list_all2 (seg_raw X d') ss2 L2'"
    using L2(3) by (rule list.rel_mono_strong) (use seg_raw_other [OF _ s'(4)] fresh(2) in force)
  have ap1: "all_positions X ?ss1 ?L1 = all_positions X ss1 L1 @ positions X k 32 is"
    "all_positions X (?ss1 @ ss2) (?L1 @ L2') = all_positions X (ss1 @ (k, s) # ss2) (L1 @ is # L2')"
    using len by (simp_all add: all_positions_append)
  have "\<exists>ix ss2' d''. let w' = w1\<lparr>w_segments := (w_segments w1)\<lparr>sm_segments := ?ss1 @ ss2'\<rparr>, w_index := ix,
        w_hard_state := foldl newer_state (w_hard_state w1) (layout_states L2')\<rparr>
      in replay_all X infos' (w1, d') = (Inr (), w', d'') \<and> map seg_key ss2' = map seg_key ss2 \<and>
         list_all2 (seg_ok X d'') (?ss1 @ ss2') (?L1 @ L2') \<and> indexed w' (all_positions X (?ss1 @ ss2) (?L1 @ L2')) \<and> fault_free (x_os X) d''"
  proof (rule Cons.IH)
    show "w_segs w1 = ?ss1 @ ss2" by (simp add: w1_def)
    show "omap_wf (?ss1 @ ss2)" using omap_wf_keys [OF key] Cons.prems(2) p by simp
    show "routed (?ss1 @ ss2) (?L1 @ L2')" using Cons.prems(3) key unfolding p L2(1) routed_keys by simp
    show "list_all2 (seg_ok X d') ?ss1 ?L1" using ok1 s'(2) len by (simp add: list_all2_append)
    show "indexed w1 (all_positions X ?ss1 ?L1)" using ix(2) unfolding ap1(1) by (simp add: indexed_def w1_def)
    show "live_contig (w_first_index w1) (all_positions X (?ss1 @ ss2) (?L1 @ L2'))"
      using Cons.prems(8) unfolding ap1(2) p L2(1) by (simp add: w1_def)
  qed (use s'(5) raw2 infos(3) in simp_all)
  then obtain ix' ss2' d'' where fin: "replay_all X infos' (w1, d') = (Inr (), w1\<lparr>w_segments := (w_segments w1)\<lparr>sm_segments := ?ss1 @ ss2'\<rparr>, w_index := ix',
        w_hard_state := foldl newer_state (w_hard_state w1) (layout_states L2')\<rparr>, d'')" "map seg_key ss2' = map seg_key ss2"
    "list_all2 (seg_ok X d'') (?ss1 @ ss2') (?L1 @ L2')"
    "indexed (w1\<lparr>w_segments := (w_segments w1)\<lparr>sm_segments := ?ss1 @ ss2'\<rparr>, w_index := ix',
        w_hard_state := foldl newer_state (w_hard_state w1) (layout_states L2')\<rparr>) (all_positions X (?ss1 @ ss2) (?L1 @ L2'))" "fault_free (x_os X) d''"
    unfolding Let_def by blast
  show ?case
    unfolding p L2(1) Let_def step
    using fin s'(3) ap1(2) by (intro exI [of _ ix'] exI [of _ "(k, s') # ss2'"] exI [of _ d'']) (simp add: w1_def seg_key_def indexed_def)
qed

section \<open>Finding the segments\<close>

lemma omap_unique:
  assumes "omap_wf m" "omap_wf m'" "map_of m = map_of m'"
  shows "m = m'"
proof -
  have d: "distinct (map fst m)" "sorted (map fst m)" "distinct (map fst m')" "sorted (map fst m')"
    using assms(1,2) by (auto simp: strict_sorted_iff)
  have e: "set m = set m'" using assms(3) map_of_inject_set [OF d(1,3)] by simp
  have "inj_on fst (set m \<union> set m')" using d(1) e by (simp add: distinct_map)
  then show ?thesis using d e by (intro map_sorted_distinct_set_unique) auto
qed

text \<open>A segment as \<open>Open\<close> makes it from the file of the segment \<open>p\<close>.\<close>

definition opened :: "disk \<Rightarrow> u64 \<times> Segment \<Rightarrow> Segment" where
  "opened d p = (let n = of_nat (length (file_of d (Segment_MakeSegmentFilename (fst p))))
     in \<lparr>seg_open = True, seg_segment_id = fst p, seg_first_index = seg_first_index (snd p), seg_write_offset = n, seg_file_size = n,
         seg_path = Segment_MakeSegmentFilename (fst p)\<rparr>)"

definition stored :: "wal_env \<Rightarrow> disk \<Rightarrow> u64 \<times> Segment \<Rightarrow> item list \<Rightarrow> bool" where
  "stored X d p is \<longleftrightarrow> seg_segment_id (snd p) = fst p \<and> file_exists d (Segment_MakeSegmentFilename (fst p)) \<and>
     list_all (item_ok X) is \<and> unclogged X is \<and>
     (\<exists>junk. seg_tail X junk \<and> file_of d (Segment_MakeSegmentFilename (fst p)) = seg_head (snd p) @ records X is @ junk)"

lemma seg_head_IsValid: "SegmentHeader_IsValid (SegmentHeader_Deserialize (seg_head s))"
  by (simp add: seg_head_def SegmentHeader_IsValid_def SegmentHeader_new_def)

lemma seg_head_fields:
  "sh_segment_id (SegmentHeader_Deserialize (seg_head s)) = seg_segment_id s"
  "sh_first_index (SegmentHeader_Deserialize (seg_head s)) = seg_first_index s"
  by (simp_all add: seg_head_def)

lemma Segment_Open_stored:
  assumes "fault_free os d" "stored X d p is"
  shows "\<exists>c. Segment_Open os (Segment_MakeSegmentFilename (fst p)) d = (Inr (opened d p), d\<lparr>d_clock := c\<rparr>)"
proof -
  obtain rest where f: "file_of d (Segment_MakeSegmentFilename (fst p)) = seg_head (snd p) @ rest"
    "file_exists d (Segment_MakeSegmentFilename (fst p))" "seg_segment_id (snd p) = fst p"
    using assms(2) by (auto simp: stored_def)
  show ?thesis
    using assms(1) f by (intro exI [of _ "d_clock d + 3"])
      (simp add: Segment_Open_def sys_call_def sys_outcome_def sys_pread_def fault_free_def subspan_def seg_head_IsValid seg_head_fields
        opened_def Let_def)
qed

lemma seg_raw_opened:
  assumes "fault_free os d" "stored X d p is"
  shows "seg_raw X d (fst p, opened d p) is"
proof -
  let ?f = "file_of d (Segment_MakeSegmentFilename (fst p))"
  have "length (?f @ []) < 2 ^ 63" using assms(1) unfolding fault_free_def by simp
  then have "unat (of_nat (length ?f) :: u64) = length ?f" by (rule unat_offset)
  moreover have "seg_head (opened d p) = seg_head (snd p)" using assms(2) by (simp add: seg_head_def opened_def stored_def Let_def)
  ultimately show ?thesis using assms(2) by (simp add: seg_raw_def opened_def stored_def Let_def)
qed

definition cur_ok :: "SegmentManager \<Rightarrow> bool" where
  "cur_ok sm \<longleftrightarrow> omap_wf (sm_segments sm) \<and> (\<forall>k \<in> dom (map_of (sm_segments sm)). k \<le> sm_current_segment_id sm) \<and>
     (sm_current_segment_id sm \<in> dom (map_of (sm_segments sm)) \<or> sm_current_segment_id sm = 0)"

lemma open_segments_ok:
  assumes "fault_free os d" "\<forall>path \<in> set paths. \<exists>p \<in> set ss. path = Segment_MakeSegmentFilename (fst p)"
    "\<forall>p \<in> set ss. \<exists>is. stored X d p is" "distinct (map fst ss)" "cur_ok sm"
  shows "\<exists>sm' c. open_segments os paths (sm, d) = (sm', d\<lparr>d_clock := c\<rparr>) \<and> cur_ok sm' \<and>
    map_of (sm_segments sm') = (\<lambda>k. if Segment_MakeSegmentFilename k \<in> set paths
      then map_option (\<lambda>s. opened d (k, s)) (map_of ss k) else map_of (sm_segments sm) k)"
  using assms
proof (induction paths arbitrary: sm d)
  case Nil
  then show ?case by (intro exI [of _ sm] exI [of _ "d_clock d"]) simp
next
  case (Cons path paths)
  obtain k s where p: "(k, s) \<in> set ss" "path = Segment_MakeSegmentFilename k" using Cons.prems(2) by auto
  obtain "is" where st: "stored X d (k, s) is" using Cons.prems(3) p(1) by blast
  obtain c where o: "Segment_Open os path d = (Inr (opened d (k, s)), d\<lparr>d_clock := c\<rparr>)"
    using Segment_Open_stored [OF Cons.prems(1) st] p(2) by auto
  define sm1 where "sm1 = sm\<lparr>sm_segments := omap_put k (opened d (k, s)) (sm_segments sm),
    sm_current_segment_id := (if k > sm_current_segment_id sm then k else sm_current_segment_id sm)\<rparr>"
  have id: "seg_segment_id (opened d (k, s)) = k" by (simp add: opened_def Let_def)
  have step: "open_segments os (path # paths) (sm, d) = open_segments os paths (sm1, d\<lparr>d_clock := c\<rparr>)"
    using o by (simp add: id sm1_def Let_def)
  have dom1: "dom (map_of (sm_segments sm1)) = insert k (dom (map_of (sm_segments sm)))" by (simp add: sm1_def map_of_omap_put)
  have cur1: "k \<le> sm_current_segment_id sm1" "sm_current_segment_id sm \<le> sm_current_segment_id sm1"
    "sm_current_segment_id sm1 = k \<or> sm_current_segment_id sm1 = sm_current_segment_id sm"
    by (auto simp: sm1_def)
  have wf1: "omap_wf (sm_segments sm1)" using Cons.prems(5) by (simp add: sm1_def cur_ok_def omap_put_wf)
  have ok1: "cur_ok sm1"
    unfolding cur_ok_def dom1
  proof (intro conjI ballI)
    show "j \<le> sm_current_segment_id sm1" if "j \<in> insert k (dom (map_of (sm_segments sm)))" for j
      using that Cons.prems(5) cur1(1) order.trans [OF _ cur1(2)] unfolding cur_ok_def by blast
    show "sm_current_segment_id sm1 \<in> insert k (dom (map_of (sm_segments sm))) \<or> sm_current_segment_id sm1 = 0"
      using Cons.prems(5) cur1(3) unfolding cur_ok_def by (elim conjE disjE) simp_all
  qed (rule wf1)
  have stc: "stored X (d\<lparr>d_clock := c\<rparr>) = stored X d" "opened (d\<lparr>d_clock := c\<rparr>) = opened d"
    by (intro ext, simp add: stored_def opened_def Let_def)+
  have mk: "map_of ss k = Some s" using p(1) Cons.prems(4) by simp
  obtain sm' c' where r: "open_segments os paths (sm1, d\<lparr>d_clock := c\<rparr>) = (sm', d\<lparr>d_clock := c'\<rparr>)" "cur_ok sm'"
    "map_of (sm_segments sm') = (\<lambda>k. if Segment_MakeSegmentFilename k \<in> set paths
      then map_option (\<lambda>s. opened d (k, s)) (map_of ss k) else map_of (sm_segments sm1) k)"
    using Cons.IH [of "d\<lparr>d_clock := c\<rparr>" sm1] Cons.prems(1-4) ok1 unfolding stc by auto
  have "map_of (sm_segments sm') = (\<lambda>k. if Segment_MakeSegmentFilename k \<in> set (path # paths)
      then map_option (\<lambda>s. opened d (k, s)) (map_of ss k) else map_of (sm_segments sm) k)"
    unfolding r(3) by (rule ext) (simp add: sm1_def map_of_omap_put p(2) filename_inj mk)
  then show ?case using r(1,2) step by (intro exI [of _ sm'] exI [of _ c']) simp
qed

lemma Initialize_segments:
  assumes "fault_free os d" "d_dir d" "omap_wf ss" "list_all2 (stored X d) ss L" "\<forall>p \<in> set ss. unat (fst p) < 10 ^ 6"
    "\<forall>n. file_exists d n \<longrightarrow> Segment_ParseSegmentId n \<noteq> None \<longrightarrow> n \<in> (\<lambda>p. Segment_MakeSegmentFilename (fst p)) ` set ss"
  shows "\<exists>sm c. SegmentManager_Initialize os (SegmentManager_new, d) = (Inr (), sm, d\<lparr>d_clock := c\<rparr>) \<and>
    sm_segments sm = map (\<lambda>p. (fst p, opened d p)) ss \<and> (ss \<noteq> [] \<longrightarrow> sm_current_segment_id sm = fst (last ss))"
proof -
  let ?names = "filter (\<lambda>n. Segment_ParseSegmentId n \<noteq> None) (map fst (d_files d))"
  let ?paths = "sort_key (map (of_char :: char \<Rightarrow> nat)) ?names" let ?name = "\<lambda>p :: u64 \<times> Segment. Segment_MakeSegmentFilename (fst p)"
  let ?d = "d\<lparr>d_clock := Suc (d_clock d)\<rparr>"
  have ex: "n \<in> set (map fst (d_files d)) \<longleftrightarrow> file_exists d n" for n
    by (simp add: file_exists_def map_of_eq_None_iff)
  have st: "\<exists>is. stored X d p is" if "p \<in> set ss" for p
    using assms(4) that by (auto simp: list_all2_conv_all_nth in_set_conv_nth)
  have paths: "set ?paths = ?name ` set ss"
  proof (intro set_eqI iffI)
    fix n assume "n \<in> set ?paths"
    then show "n \<in> ?name ` set ss" using assms(6) ex by auto
  next
    fix n assume "n \<in> ?name ` set ss"
    then obtain p where p: "p \<in> set ss" "n = ?name p" by auto
    then have "file_exists d n" using st by (auto simp: stored_def)
    moreover have "Segment_ParseSegmentId n \<noteq> None" using p assms(5) by (simp add: ParseSegmentId_filename)
    ultimately show "n \<in> set ?paths" using ex [of n] by simp
  qed
  have stc: "stored X ?d = stored X d" "opened ?d = opened d" by (intro ext, simp add: stored_def opened_def Let_def)+
  have dist: "distinct (map fst ss)" using assms(3) by (simp add: strict_sorted_iff)
  have "cur_ok SegmentManager_new" by (simp add: cur_ok_def SegmentManager_new_def)
  then obtain sm c where o: "open_segments os ?paths (SegmentManager_new, ?d) = (sm, d\<lparr>d_clock := c\<rparr>)" "cur_ok sm"
    "map_of (sm_segments sm) = (\<lambda>k. if Segment_MakeSegmentFilename k \<in> set ?paths
      then map_option (\<lambda>s. opened d (k, s)) (map_of ss k) else map_of (sm_segments SegmentManager_new) k)"
    using open_segments_ok [of os ?d ?paths ss X SegmentManager_new] assms(1) dist st unfolding paths stc by auto
  have init: "SegmentManager_Initialize os (SegmentManager_new, d) = (Inr (), sm, d\<lparr>d_clock := c\<rparr>)"
    using o(1) assms(1,2) by (simp add: SegmentManager_Initialize_def sys_call_def sys_outcome_def fault_free_def)
  have "map_of (sm_segments sm) = map_of (map (\<lambda>p. (fst p, opened d p)) ss)"
  proof
    fix k
    have "map_of (map (\<lambda>p. (fst p, opened d p)) ss) k = map_option (\<lambda>s. opened d (k, s)) (map_of ss k)"
      by (induction ss) auto
    moreover have "map_of ss k = None" if "Segment_MakeSegmentFilename k \<notin> ?name ` set ss"
      using that by (auto simp: map_of_eq_None_iff)
    ultimately show "map_of (sm_segments sm) k = map_of (map (\<lambda>p. (fst p, opened d p)) ss) k"
      unfolding o(3) paths by (auto simp: SegmentManager_new_def)
  qed
  then have segs: "sm_segments sm = map (\<lambda>p. (fst p, opened d p)) ss"
    using o(2) assms(3) by (intro omap_unique) (simp_all add: cur_ok_def comp_def)
  have dom: "dom (map_of (sm_segments sm)) = fst ` set ss" by (simp add: segs dom_map_of_conv_image_fst image_image)
  have "sm_current_segment_id sm = fst (last ss)" if ne: "ss \<noteq> []"
  proof -
    have top: "k \<le> fst (last ss)" if "k \<in> fst ` set ss" for k
      using that assms(3) ne by (cases ss rule: rev_cases) (auto simp: sorted_wrt_append less_imp_le)
    have "fst (last ss) \<le> sm_current_segment_id sm" "sm_current_segment_id sm \<in> fst ` set ss \<or> sm_current_segment_id sm = 0"
      using o(2) ne unfolding cur_ok_def dom by auto
    then show ?thesis using top by (metis order.antisym word_zero_le)
  qed
  then show ?thesis using init segs by blast
qed

section \<open>Opening the log\<close>

text \<open>
  What the next process finds on disk of a log \<open>w\<close> whose process stopped at the disk \<open>d\<close>: every segment up to
  its write offset, then zeros or part of a record, no other segments, and the metadata of \<open>w\<close>.
\<close>

definition survives :: "wal_env \<Rightarrow> WAL \<Rightarrow> disk \<Rightarrow> disk \<Rightarrow> bool" where
  "survives X w d d1 \<longleftrightarrow> d_dir d1 \<and>
     (\<forall>p \<in> set (w_segs w). file_exists d1 (seg_path (snd p)) \<and> (\<exists>junk. seg_tail X junk \<and>
        file_of d1 (seg_path (snd p)) = take (unat (seg_write_offset (snd p))) (file_of d (seg_path (snd p))) @ junk)) \<and>
     (\<forall>n. file_exists d1 n \<longrightarrow> Segment_ParseSegmentId n \<noteq> None \<longrightarrow> n \<in> (\<lambda>p. seg_path (snd p)) ` set (w_segs w)) \<and>
     file_exists d1 metadata_path \<and> file_of d1 metadata_path = MetadataStore_Serialize (x_codec X) (WAL_CreateMetadata w)"

definition recovered_state :: "WAL \<Rightarrow> hard_state list \<Rightarrow> hard_state" where
  "recovered_state w hss = foldl newer_state
     (if w_snapshot_index w > 0 then raise_hard_state (w_snapshot_index w) (w_snapshot_term w) (w_hard_state w) else w_hard_state w)
     hss"

lemma seg_ok_stored:
  assumes "seg_ok X d p is" "file_exists d1 (seg_path (snd p))" "seg_tail X junk"
    "file_of d1 (seg_path (snd p)) = take (unat (seg_write_offset (snd p))) (file_of d (seg_path (snd p))) @ junk"
  shows "stored X d1 p is"
proof -
  obtain z where z: "unat (seg_write_offset (snd p)) = 32 + length (records X is)"
    "file_of d (seg_path (snd p)) = seg_head (snd p) @ records X is @ replicate z 0"
    using assms(1) by (auto simp: seg_ok_def seg_holds_def)
  have "take (32 + length (records X is)) (seg_head (snd p) @ records X is @ replicate z 0) = seg_head (snd p) @ records X is" by simp
  then have "file_of d1 (seg_path (snd p)) = seg_head (snd p) @ records X is @ junk" using assms(4) unfolding z by simp
  then show ?thesis using assms(1-3) by (auto simp: seg_ok_def stored_def)
qed

lemma Load_ok:
  assumes "fault_free os d" "file_exists d metadata_path" "file_of d metadata_path = MetadataStore_Serialize C meta" "metadata_encodes C meta"
  shows "\<exists>c. MetadataStore_Load os C d = (Inr (metadata_read meta), d\<lparr>d_clock := c\<rparr>)"
  using assms Deserialize_Serialize [OF assms(4)]
  by (intro exI [of _ "d_clock d + 3"])
    (simp add: MetadataStore_Load_def MetadataStore_Exists_def sys_call_def sys_outcome_def sys_pread_def fault_free_def subspan_def)

lemma Recover_ok:
  assumes "mid X w d L es []" "survives X w d d1" "fault_free (x_os X) d1" "metadata_encodes (x_codec X) (WAL_CreateMetadata w)"
    "w_segs w0 = map (\<lambda>p. (fst p, opened d1 p)) (w_segs w)" "wi_entries (w_index w0) = []"
    "hs_commit (recovered_state w (layout_states L)) \<le> WAL_LastIndex w"
    "es = [] \<longrightarrow> w_snapshot_index w + 1 = w_first_index w"
    "w_segs w \<noteq> [] \<longrightarrow> sm_current_segment_id (w_segments w0) = fst (last (w_segs w))"
    "w_buffer w0 = []" "w_pending_entries w0 = []"
  obtains w' d' where "WAL_Recover X (w0, d1) = Some (Inr (), w', d')" "mid X w' d' L es []" "same_state (w\<lparr>w_hard_state := recovered_state w (layout_states L)\<rparr>) w'"
    "fault_free (x_os X) d'"
proof -
  have log: "log_ok X w d L es" and buf: "buffer_ok X w []" and bound: "unat (w_first_index w) + length es < 2 ^ 64"
    using assms(1) by (auto simp: mid_def)
  have mgr: "list_all2 (seg_ok X d) (w_segs w) L" "omap_wf (w_segs w)" using log by (auto simp: log_ok_def mgr_ok_def)
  have ix: "wi_first_index (w_index w) = w_first_index w" "wi_entries (w_index w) = map snd (live (w_first_index w) (all_positions X (w_segs w) L))"
    "es = map fst (live (w_first_index w) (all_positions X (w_segs w) L))" "routed (w_segs w) L" "contig (w_first_index w) es" "0 < unat (w_first_index w)"
    using log unfolding log_ok_def by blast+
  have lc: "live_contig (w_first_index w) (all_positions X (w_segs w) L)"
    unfolding live_contig_def ix(3) [symmetric] using ix(5,6) bound arg_cong [OF ix(3), of length] by simp
  have st: "list_all2 (stored X d1) (w_segs w) L"
    using mgr(1) by (rule list.rel_mono_strong) (use assms(2) seg_ok_stored in \<open>force simp: survives_def\<close>)
  obtain c where load: "MetadataStore_Load (x_os X) (x_codec X) d1 = (Inr (WAL_CreateMetadata w), d1\<lparr>d_clock := c\<rparr>)"
    using Load_ok [OF assms(3) _ _ assms(4)] assms(2) by (auto simp: survives_def metadata_read_def WAL_CreateMetadata_def)
  define hs0 where "hs0 = (if w_snapshot_index w > 0 then raise_hard_state (w_snapshot_index w) (w_snapshot_term w) (w_hard_state w) else w_hard_state w)"
  define w1 where "w1 = w0\<lparr>w_hard_state := hs0, w_conf_state := w_conf_state w, w_peer_addresses := w_peer_addresses w,
    w_first_index := w_first_index w, w_snapshot_index := w_snapshot_index w, w_snapshot_term := w_snapshot_term w,
    w_index := WALIndex_SetFirstIndex (w_first_index w) (w_index w0)\<rparr>"
  let ?d = "d1\<lparr>d_clock := c\<rparr>" let ?infos = "SegmentManager_ListSegments (w_segments w1)"
  have rec: "WAL_Recover X (w0, d1) = Some (io_bind (replay_all X ?infos) (\<lambda>_. check_consistent) (w1, ?d))"
    using load by (simp add: WAL_Recover_def w1_def hs0_def WAL_CreateMetadata_def)
  have f1: "w_first_index w1 = w_first_index w" "w_hard_state w1 = hs0" "foldl newer_state hs0 (layout_states L) = recovered_state w (layout_states L)"
    by (simp_all add: w1_def recovered_state_def hs0_def)
  have segs1: "w_segs w1 = map (\<lambda>p. (fst p, opened d1 p)) (w_segs w)" using assms(5) by (simp add: w1_def)
  have key1: "map seg_key (w_segs w1) = map seg_key (w_segs w)" by (simp add: segs1 seg_key_def opened_def Let_def)
  have raw: "list_all2 (seg_raw X ?d) (w_segs w1) L"
    unfolding segs1 list_all2_map1 using st by (rule list.rel_mono_strong) (simp add: seg_raw_opened [OF assms(3)])
  have ap1: "all_positions X (w_segs w1) L = all_positions X (w_segs w) L" unfolding all_positions_keys key1 ..
  have "\<exists>ix ss2' d'. let w' = w1\<lparr>w_segments := (w_segments w1)\<lparr>sm_segments := [] @ ss2'\<rparr>, w_index := ix,
        w_hard_state := foldl newer_state (w_hard_state w1) (layout_states L)\<rparr>
      in replay_all X ?infos (w1, ?d) = (Inr (), w', d') \<and> map seg_key ss2' = map seg_key (w_segs w1) \<and>
         list_all2 (seg_ok X d') ([] @ ss2') ([] @ L) \<and> indexed w' (all_positions X ([] @ w_segs w1) ([] @ L)) \<and> fault_free (x_os X) d'"
  proof (rule replay_all_ok)
    show "omap_wf ([] @ w_segs w1)" using mgr(2) omap_wf_keys [OF key1] by simp
    show "routed ([] @ w_segs w1) ([] @ L)" using ix(4) key1 by (simp add: routed_keys)
    show "indexed w1 (all_positions X [] [])" using assms(6) by (simp add: indexed_def w1_def WALIndex_SetFirstIndex_def live_def)
    show "live_contig (w_first_index w1) (all_positions X ([] @ w_segs w1) ([] @ L))" using lc by (simp add: ap1 f1)
    show "map si_first_index ?infos = map (seg_first_index \<circ> snd) (w_segs w1)" by (simp add: SegmentManager_ListSegments_def split_beta)
  qed (use assms(3) raw in simp_all)
  then obtain ix' ss' d' where r: "replay_all X ?infos (w1, ?d) = (Inr (), w1\<lparr>w_segments := (w_segments w1)\<lparr>sm_segments := ss'\<rparr>, w_index := ix',
        w_hard_state := recovered_state w (layout_states L)\<rparr>, d')" "map seg_key ss' = map seg_key (w_segs w)" "list_all2 (seg_ok X d') ss' L"
    "wi_first_index ix' = w_first_index w" "wi_entries ix' = map snd (live (w_first_index w) (all_positions X (w_segs w) L))"
    "fault_free (x_os X) d'"
    unfolding Let_def indexed_def append_Nil ap1 key1 f1(2,3) by (auto simp: f1(1))
  define w' where "w' = w1\<lparr>w_segments := (w_segments w1)\<lparr>sm_segments := ss'\<rparr>, w_index := ix', w_hard_state := recovered_state w (layout_states L)\<rparr>"
  have w': "w_segs w' = ss'" "w_index w' = w_index w" "w_first_index w' = w_first_index w" "w_snapshot_index w' = w_snapshot_index w"
    "w_buffer w' = []" "w_pending_entries w' = []" "sm_current_segment_id (w_segments w') = sm_current_segment_id (w_segments w0)"
    using r(4,5) ix(1,2) assms(10,11) by (simp_all add: w'_def w1_def)
  have "WAL_LastIndex w' = WAL_LastIndex w" by (simp add: WAL_LastIndex_def w')
  then have "check_consistent (w', d') = (Inr (), w', d')" using assms(7) by (simp add: check_consistent_def w'_def)
  then have ran: "WAL_Recover X (w0, d1) = Some (Inr (), w', d')" using rec r(1) by (simp add: w'_def)
  have ap': "all_positions X ss' L = all_positions X (w_segs w) L" unfolding all_positions_keys r(2) ..
  have firsts: "(seg_first_index \<circ> snd) ` set ss' = (seg_first_index \<circ> snd) ` set (w_segs w)"
    using arg_cong [OF r(2), of "\<lambda>l. snd ` set l"] by (simp add: image_image seg_key_def comp_def)
  have last: "fst (last ss') = fst (last (w_segs w))" if "ss' \<noteq> []"
  proof -
    have "w_segs w \<noteq> []" using that r(2) by auto
    then show ?thesis using arg_cong [OF r(2), of "\<lambda>l. fst (last l)"] that by (simp add: last_map seg_key_def)
  qed
  have ne: "ss' \<noteq> [] \<longleftrightarrow> w_segs w \<noteq> []" using r(2) by (metis map_is_Nil_conv)
  have firsts_le: "\<forall>p \<in> set (w_segs w). unat (seg_first_index (snd p)) \<le> unat (w_first_index w) + length es"
    using log unfolding log_ok_def by blast
  have "mgr_ok X (w_segments w') d' L"
    using r(3) mgr(2) omap_wf_keys [OF r(2)] last ne assms(9) by (simp add: mgr_ok_def w')
  moreover have "routed ss' L" using ix(4) r(2) by (simp add: routed_keys)
  moreover have "\<forall>p \<in> set ss'. unat (seg_first_index (snd p)) \<le> unat (w_first_index w) + length es"
  proof
    fix p assume "p \<in> set ss'"
    then have "(seg_first_index \<circ> snd) p \<in> (seg_first_index \<circ> snd) ` set (w_segs w)" unfolding firsts [symmetric] by (rule imageI)
    then show "unat (seg_first_index (snd p)) \<le> unat (w_first_index w) + length es" using firsts_le by (auto simp del: unat_eq_zero)
  qed
  ultimately have "log_ok X w' d' L es" using log unfolding log_ok_def w' ap' by blast
  then have "mid X w' d' L es []" using bound w' by (simp add: mid_def buffer_ok_def)
  moreover have "same_state (w\<lparr>w_hard_state := recovered_state w (layout_states L)\<rparr>) w'" by (simp add: same_state_def w'_def w1_def)
  ultimately show ?thesis using that [OF ran] r(6) by blast
qed

lemma Open_ok:
  assumes "wal_at X w d hss es" "survives X w d d1" "fault_free (x_os X) d1"
    "SelectSegmentIoBackend (x_engine X) (x_to_string X) (x_config X) = Inr b"
    "metadata_encodes (x_codec X) (WAL_CreateMetadata w)" "\<forall>p \<in> set (w_segs w). unat (fst p) < 10 ^ 6"
    "hs_commit (recovered_state w hss) \<le> WAL_LastIndex w"
  shows "\<exists>w' d'. WAL_Open X d1 = Some (Inr w', d') \<and> wal_at X w' d' hss es \<and> same_state (w\<lparr>w_hard_state := recovered_state w hss\<rparr>) w' \<and>
    fault_free (x_os X) d'"
proof -
  obtain L where m: "mid X w d L es []" "layout_states L = hss" using assms(1) by (auto simp: wal_at_def)
  have mgr: "list_all2 (seg_ok X d) (w_segs w) L" "omap_wf (w_segs w)" using m(1) by (auto simp: mid_def log_ok_def mgr_ok_def)
  have path: "seg_path (snd p) = Segment_MakeSegmentFilename (fst p)" if "p \<in> set (w_segs w)" for p
    using mgr(1) that by (auto simp: list_all2_conv_all_nth in_set_conv_nth seg_ok_def)
  have st: "list_all2 (stored X d1) (w_segs w) L"
    using mgr(1) by (rule list.rel_mono_strong) (use assms(2) seg_ok_stored in \<open>force simp: survives_def\<close>)
  have names: "\<forall>n. file_exists d1 n \<longrightarrow> Segment_ParseSegmentId n \<noteq> None \<longrightarrow> n \<in> (\<lambda>p. Segment_MakeSegmentFilename (fst p)) ` set (w_segs w)"
    using assms(2) path unfolding survives_def by force
  have dir: "d_dir d1" "file_exists d1 metadata_path" using assms(2) by (auto simp: survives_def)
  obtain sm c where init: "SegmentManager_Initialize (x_os X) (SegmentManager_new, d1) = (Inr (), sm, d1\<lparr>d_clock := c\<rparr>)"
    "sm_segments sm = map (\<lambda>p. (fst p, opened d1 p)) (w_segs w)" "w_segs w \<noteq> [] \<longrightarrow> sm_current_segment_id sm = fst (last (w_segs w))"
    using Initialize_segments [OF assms(3) dir(1) mgr(2) st assms(6) names] by blast
  obtain be nt where b: "b = (be, nt)" by (cases b)
  define w0 where "w0 = WAL_new\<lparr>w_effective_io_backend := be, w_io_backend_note := nt, w_buffer := [], w_segments := sm\<rparr>"
  let ?d = "d1\<lparr>d_clock := c\<rparr>"
  have surv: "survives X w d ?d" using assms(2) by (simp add: survives_def)
  have op: "opened ?d = opened d1" by (intro ext) (simp add: opened_def)
  have ini: "WAL_Initialize X (WAL_new, d1) = WAL_Recover X (w0, ?d)"
    using assms(4) dir init(1) b by (simp add: WAL_Initialize_def MetadataStore_Initialize_def MetadataStore_Exists_def on_segments_def w0_def WAL_new_def)
  obtain w' d' where r: "WAL_Recover X (w0, ?d) = Some (Inr (), w', d')" "mid X w' d' L es []"
    "same_state (w\<lparr>w_hard_state := recovered_state w (layout_states L)\<rparr>) w'" "fault_free (x_os X) d'"
  proof (rule Recover_ok [OF m(1) surv _ assms(5), of w0])
    show "hs_commit (recovered_state w (layout_states L)) \<le> WAL_LastIndex w" using assms(7) m(2) by simp
    show "es = [] \<longrightarrow> w_snapshot_index w + 1 = w_first_index w" using assms(1) by (simp add: wal_at_def)
  qed (use assms(3) init op in \<open>simp_all add: w0_def WAL_new_def WALIndex_new_def\<close>)
  have "wal_at X w' d' hss es" using assms(1) r(2,3) m(2) by (auto simp: wal_at_def same_state_def)
  then show ?thesis using ini r m(2) by (simp add: WAL_Open_def)
qed

end
