(* ===== verification/WalStorage.thy ===== *)
theory WalStorage
  imports WalRecover
begin

text \<open>
  The storage that a node with a write-ahead log works on (\<open>lib/raftor/wal/wal_storage.cc\<close>), and its
  comparison with \<open>MemoryStorage\<close>. Its mutex is held throughout each operation; the spans of the tracing library
  have no effect on the result.
\<close>

section \<open>Model\<close>

record WALStorage =
  ws_wal :: WAL
  ws_snapshot :: snapshot
  ws_effective_io_backend :: WALIoBackend
  ws_io_backend_note :: string

type_synonym 'a ws_op = "WALStorage \<times> disk \<Rightarrow> 'a result \<times> WALStorage \<times> disk"

definition on_wal :: "'a wal_op \<Rightarrow> 'a ws_op" where
  "on_wal f = (\<lambda>(s, d). case f (ws_wal s, d) of (r, w, d) \<Rightarrow> (r, s\<lparr>ws_wal := w\<rparr>, d))"

definition WALStorage_Open :: "wal_env \<Rightarrow> disk \<Rightarrow> (WALStorage result \<times> disk) option" where
  "WALStorage_Open X d = do {
     (r, d) \<leftarrow> WAL_Open X d;
     case r of
       Inl e \<Rightarrow> Some (Inl e, d)
     | Inr w \<Rightarrow>
         let storage = \<lparr>ws_wal = w, ws_snapshot = default_snapshot, ws_effective_io_backend = w_effective_io_backend w,
               ws_io_backend_note = w_io_backend_note w\<rparr>
         in if w_snapshot_index w > 0
            then do {
              (sn, d) \<leftarrow> WAL_LoadSnapshot X w d;
              Some (case sn of Inl e \<Rightarrow> Inl e | Inr sn \<Rightarrow> Inr (storage\<lparr>ws_snapshot := sn\<rparr>), d)
            }
            else Some (Inr storage, d)
   }"

definition WALStorage_InitialState :: "WALStorage \<Rightarrow> RaftState result" where
  "WALStorage_InitialState s = Inr \<lparr>rs_hard_state = w_hard_state (ws_wal s), rs_conf_state = w_conf_state (ws_wal s)\<rparr>"

definition WALStorage_Entries ::
    "wal_env \<Rightarrow> u64 \<Rightarrow> u64 \<Rightarrow> u64 option \<Rightarrow> GetEntriesContext \<Rightarrow> WALStorage \<times> disk \<Rightarrow> entry list result \<times> disk" where
  "WALStorage_Entries X low high max_size context = (\<lambda>(s, d). WAL_ReadEntries X low high max_size (ws_wal s) d)"

definition WALStorage_Term :: "u64 \<Rightarrow> WALStorage \<Rightarrow> u64 result" where
  "WALStorage_Term idx s =
     (let meta = sn_metadata (ws_snapshot s)
      in if idx = sm_index meta \<and> sm_index meta > 0 then Inr (sm_term meta)
         else if idx = 0 \<and> sm_index meta = 0 then Inr 0
         else WAL_Term idx (ws_wal s))"

definition WALStorage_FirstIndex :: "WALStorage \<Rightarrow> u64 result" where
  "WALStorage_FirstIndex s = Inr (w_first_index (ws_wal s))"

definition WALStorage_LastIndex :: "WALStorage \<Rightarrow> u64 result" where
  "WALStorage_LastIndex s = Inr (WAL_LastIndex (ws_wal s))"

definition WALStorage_GetSnapshot :: "u64 \<Rightarrow> u64 \<Rightarrow> WALStorage \<Rightarrow> snapshot result" where
  "WALStorage_GetSnapshot request_index to s =
     (let index = sm_index (sn_metadata (ws_snapshot s))
      in if index = 0 \<or> index < request_index then Inl (StorageError SnapshotTemporarilyUnavailable)
         else Inr (ws_snapshot s))"

definition WALStorage_SetHardState :: "wal_env \<Rightarrow> hard_state \<Rightarrow> unit ws_op" where
  "WALStorage_SetHardState X hs = on_wal (WAL_SaveHardState X hs)"

definition WALStorage_Append :: "wal_env \<Rightarrow> entry list \<Rightarrow> unit ws_op" where
  "WALStorage_Append X entries = on_wal (WAL_Append X entries)"

definition WALStorage_Compact :: "wal_env \<Rightarrow> u64 \<Rightarrow> unit ws_op" where
  "WALStorage_Compact X compact_index = on_wal (WAL_Compact X compact_index)"

definition keep_snapshot :: "snapshot \<Rightarrow> unit result \<times> WALStorage \<times> disk \<Rightarrow> unit result \<times> WALStorage \<times> disk" where
  "keep_snapshot sn = (\<lambda>(r, s, d). (r, case r of Inl _ \<Rightarrow> s | Inr _ \<Rightarrow> s\<lparr>ws_snapshot := sn\<rparr>, d))"

definition WALStorage_ApplySnapshot :: "wal_env \<Rightarrow> snapshot \<Rightarrow> WALStorage \<times> disk \<Rightarrow> (unit result \<times> WALStorage \<times> disk) option" where
  "WALStorage_ApplySnapshot X sn = (\<lambda>(s, d). do {
     (r, w, d) \<leftarrow> WAL_ApplySnapshot X sn (ws_wal s, d);
     Some (keep_snapshot sn (r, s\<lparr>ws_wal := w\<rparr>, d))
   })"

definition WALStorage_ApplyLocalSnapshot :: "wal_env \<Rightarrow> snapshot \<Rightarrow> WALStorage \<times> disk \<Rightarrow> (unit result \<times> WALStorage \<times> disk) option" where
  "WALStorage_ApplyLocalSnapshot X sn = (\<lambda>(s, d). do {
     (r, w, d) \<leftarrow> WAL_ApplyLocalSnapshot X sn (ws_wal s, d);
     Some (keep_snapshot sn (r, s\<lparr>ws_wal := w\<rparr>, d))
   })"

definition WALStorage_SetConfState :: "wal_env \<Rightarrow> conf_state \<Rightarrow> unit ws_op" where
  "WALStorage_SetConfState X cs = on_wal (WAL_SaveConfState X cs)"

definition WALStorage_GetPeerAddresses :: "WALStorage \<Rightarrow> PeerAddress list" where
  "WALStorage_GetPeerAddresses s = w_peer_addresses (ws_wal s)"

definition WALStorage_SetPeerAddresses :: "wal_env \<Rightarrow> PeerAddress list \<Rightarrow> unit ws_op" where
  "WALStorage_SetPeerAddresses X peers = on_wal (WAL_SavePeerAddresses X peers)"

definition WALStorage_UpsertPeerAddress :: "wal_env \<Rightarrow> u64 \<Rightarrow> bytes \<Rightarrow> unit ws_op" where
  "WALStorage_UpsertPeerAddress X i addr = on_wal (WAL_UpsertPeerAddress X i addr)"

definition WALStorage_RemovePeerAddress :: "wal_env \<Rightarrow> u64 \<Rightarrow> unit ws_op" where
  "WALStorage_RemovePeerAddress X i = on_wal (WAL_RemovePeerAddress X i)"

definition WALStorage_Sync :: "wal_env \<Rightarrow> unit ws_op" where
  "WALStorage_Sync X = on_wal (WAL_Sync X)"

definition WALStorage_LocalSnapshot :: "WALStorage \<Rightarrow> snapshot option result" where
  "WALStorage_LocalSnapshot s =
     (if sm_index (sn_metadata (ws_snapshot s)) = 0 then Inr None else Inr (Some (ws_snapshot s)))"

definition WALStorage_LogSizeBytes :: "WALStorage \<times> disk \<Rightarrow> u64" where
  "WALStorage_LogSizeBytes = (\<lambda>(s, d). WAL_LogSizeBytes (ws_wal s, d))"

definition WALStorage_AllEntries :: "wal_env \<Rightarrow> WALStorage \<times> disk \<Rightarrow> entry list \<times> disk" where
  "WALStorage_AllEntries X = (\<lambda>(s, d).
     let first = w_first_index (ws_wal s); last = WAL_LastIndex (ws_wal s)
     in if first > last then ([], d)
        else case WAL_ReadEntries X first (last + 1) None (ws_wal s) d of
               (Inl _, d) \<Rightarrow> ([], d)
             | (Inr es, d) \<Rightarrow> (es, d))"

definition WALStorage_SnapshotIndex :: "WALStorage \<Rightarrow> u64" where
  "WALStorage_SnapshotIndex s = w_snapshot_index (ws_wal s)"

definition WALStorage_IsInitialized :: "WALStorage \<Rightarrow> bool" where
  "WALStorage_IsInitialized s \<longleftrightarrow> cs_voters (w_conf_state (ws_wal s)) \<noteq> []"

section \<open>The memory storage that it implements\<close>

definition ws_ok :: "wal_env \<Rightarrow> WALStorage \<Rightarrow> disk \<Rightarrow> entry list \<Rightarrow> bool" where
  "ws_ok X s d es \<longleftrightarrow> wal_ok X (ws_wal s) d es \<and>
     (let meta = sn_metadata (ws_snapshot s)
      in sm_index meta = w_snapshot_index (ws_wal s) \<and> (sm_index meta = 0 \<longrightarrow> sm_term meta = 0) \<and>
         sm_index meta < w_first_index (ws_wal s))"

definition ws_mem :: "WALStorage \<Rightarrow> entry list \<Rightarrow> MemoryStorage" where
  "ws_mem s es =
     \<lparr>ms_raft_state = \<lparr>rs_hard_state = w_hard_state (ws_wal s), rs_conf_state = w_conf_state (ws_wal s)\<rparr>, ms_entries = es,
      ms_snapshot_metadata = sn_metadata (ws_snapshot s), ms_trigger_snapshot_unavailable = False,
      ms_trigger_log_unavailable = False, ms_get_entries_context = None\<rparr>"

lemma ws_mem_first:
  assumes "ws_ok X s d es"
  shows "MemoryStorage_first_index (ws_mem s es) = w_first_index (ws_wal s)"
proof (cases es)
  case Nil
  then show ?thesis using assms by (simp add: ws_ok_def wal_ok_iff MemoryStorage_first_index_def ws_mem_def Let_def)
next
  case (Cons e es')
  have "contig (w_first_index (ws_wal s)) es" using assms wal_ok_bounds(3) by (auto simp: ws_ok_def)
  then show ?thesis using Cons by (simp add: MemoryStorage_first_index_def ws_mem_def)
qed

lemma ws_mem_last:
  assumes "ws_ok X s d es"
  shows "MemoryStorage_last_index (ws_mem s es) = WAL_LastIndex (ws_wal s)"
proof (cases "es = []")
  case True
  have "wi_entries (w_index (ws_wal s)) = []"
    using assms True by (auto simp: ws_ok_def wal_ok_iff mid_def log_ok_def)
  then show ?thesis using assms True
    by (simp add: ws_ok_def MemoryStorage_last_index_def ws_mem_def WAL_LastIndex_def WALIndex_empty_def Let_def)
next
  case False
  have ok: "wal_ok X (ws_wal s) d es" using assms by (simp add: ws_ok_def)
  note b = wal_ok_bounds [OF ok]
  have "e_index (last es) = w_first_index (ws_wal s) + of_nat (length es - 1)"
    using contig_nth [OF b(3), of "length es - 1"] False by (simp add: last_conv_nth)
  moreover have "unat (w_first_index (ws_wal s) + of_nat (length es - 1)) = unat (w_first_index (ws_wal s)) + (length es - 1)"
    using b(2) by (intro unat_add_of_nat_u64) simp
  moreover have "0 < length es" using False by simp
  ultimately have "unat (e_index (last es)) = unat (WAL_LastIndex (ws_wal s))"
    using wal_last(2) [OF ok] by simp
  then show ?thesis using False by (simp add: MemoryStorage_last_index_def ws_mem_def u64_eq_iff)
qed

lemma positions_term: "p \<in> set (positions X k off is) \<Longrightarrow> ie_term (snd p) = e_term (fst p)"
  by (induction X k off "is" rule: positions.induct) (auto split: item.splits)

lemma wal_index_term:
  assumes "wal_ok X w d es"
  shows "WALIndex_Term i (w_index w) = (if unat (w_first_index w) \<le> unat i \<and> unat i < unat (w_first_index w) + length es
    then Some (e_term (es ! (unat i - unat (w_first_index w)))) else None)"
proof -
  obtain L where log: "log_ok X w d L es" using assms by (auto simp: wal_ok_iff mid_def)
  define ps where "ps = live (w_first_index w) (all_positions X (w_segs w) L)"
  have ps: "es = map fst ps" "wi_entries (w_index w) = map snd ps" using log unfolding log_ok_def ps_def by blast+
  have t: "ie_term (snd p) = e_term (fst p)" if "p \<in> set ps" for p
    using that by (auto simp: ps_def live_def all_positions_def positions_term)
  have "ie_term (wi_entries (w_index w) ! n) = e_term (es ! n)" if "n < length es" for n
    using t [of "ps ! n"] that unfolding ps by simp
  moreover have "n < length es" if "unat (w_first_index w) \<le> unat i" "unat i < unat (w_first_index w) + length es" "n = unat i - unat (w_first_index w)" for n
    using that by linarith
  ultimately show ?thesis using log_lookup [OF log, of i] by (simp add: WALIndex_Term_def)
qed

lemma ws_term:
  assumes "ws_ok X s d es"
  shows "MemoryStorage_Term idx (ws_mem s es) = Some (WALStorage_Term idx s)"
proof -
  have ok: "wal_ok X (ws_wal s) d es" using assms by (simp add: ws_ok_def)
  let ?w = "ws_wal s" let ?meta = "sn_metadata (ws_snapshot s)"
  have meta: "sm_index ?meta = w_snapshot_index ?w" "sm_index ?meta = 0 \<longrightarrow> sm_term ?meta = 0" using assms by (auto simp: ws_ok_def Let_def)
  note b = wal_ok_bounds [OF ok] and last = wal_last(2) [OF ok]
  show ?thesis
  proof (cases "idx = sm_index ?meta")
    case True
    then show ?thesis using meta by (auto simp: MemoryStorage_Term_def WALStorage_Term_def ws_mem_def word_neq_0_conv Let_def)
  next
    case False
    have mt: "MemoryStorage_Term idx (ws_mem s es) =
        (if idx < w_first_index ?w then Some (Inl (StorageError Compacted))
         else if WAL_LastIndex ?w < idx then Some (Inl (StorageError Unavailable))
         else do { e \<leftarrow> vec_get es (unat (idx - w_first_index ?w)); Some (Inr (e_term e)) })"
      using False ws_mem_first [OF assms] ws_mem_last [OF assms] by (simp add: MemoryStorage_Term_def ws_mem_def Let_def)
    have nz: "\<not> (idx = 0 \<and> sm_index ?meta = 0)" "\<not> (idx = w_snapshot_index ?w \<and> 0 < w_snapshot_index ?w)" using False meta(1) by auto
    have "WALStorage_Term idx s = (if idx < w_first_index ?w then Inl (StorageError Compacted)
        else case WALIndex_Term idx (w_index ?w) of None \<Rightarrow> Inl (StorageError Unavailable) | Some t \<Rightarrow> Inr t)"
      unfolding WALStorage_Term_def WAL_Term_def Let_def by (simp only: nz False simp_thms if_False)
    moreover have "vec_get es (unat (idx - w_first_index ?w)) = Some (es ! (unat idx - unat (w_first_index ?w)))"
      if "w_first_index ?w \<le> idx" "\<not> WAL_LastIndex ?w < idx"
    proof -
      have "unat (w_first_index ?w) \<le> unat idx" using that(1) by (simp add: word_le_nat_alt)
      moreover have "unat idx < unat (w_first_index ?w) + length es" using that(2) last b(1) by (simp add: word_less_nat_alt)
      ultimately show ?thesis using unat_sub_u64 [OF that(1)] by simp
    qed
    ultimately show ?thesis unfolding mt wal_index_term [OF ok] using last b(1) by (auto simp: word_less_nat_alt word_le_nat_alt)
  qed
qed

lemma ws_mem_wf: "ws_ok X s d es \<Longrightarrow> mem_wf (ws_mem s es)"
  using wal_ok_bounds [of X "ws_wal s" d es] ws_mem_first [of X s d es]
  by (auto simp: mem_wf_def ws_ok_def Let_def) (simp_all add: ws_mem_def)

lemma limit_reached_take: "\<exists>n. limit_reached X mx got es = take n es"
proof (induction es arbitrary: got)
  case (Cons e es)
  then obtain n where "limit_reached X mx (got + of_nat (length (c_entry (x_codec X) e))) es = take n es" by blast
  then show ?case by (auto simp: Let_def intro: exI [of _ "Suc n"] exI [of _ 1])
qed simp

text \<open>The limit of the log lets through what the limit of the memory storage does, and at most one entry more.\<close>

definition sizes_of :: "wal_env \<Rightarrow> (entry \<Rightarrow> u64) \<Rightarrow> entry list \<Rightarrow> bool" where
  "sizes_of X sz es \<longleftrightarrow> (\<forall>e \<in> set es. sz e = of_nat (length (c_entry (x_codec X) e)) \<and> sz e \<noteq> 0) \<and> total_bytes sz es < 2 ^ 64"

lemma limit_loops:
  assumes "\<forall>e \<in> set es. sz e = of_nat (length (c_entry (x_codec X) e)) \<and> sz e \<noteq> 0" "unat cur + total_bytes sz es < 2 ^ 64" "0 < keep"
  shows "LimitSize_loop sz m cur keep es - keep \<le> length (if m \<le> cur then [] else limit_reached X (Some m) cur es) \<and>
    length (if m \<le> cur then [] else limit_reached X (Some m) cur es) \<le> LimitSize_loop sz m cur keep es - keep + 1"
  using assms
proof (induction es arbitrary: cur keep)
  case (Cons e es)
  have sum: "unat (cur + sz e) = unat cur + unat (sz e)"
    using Cons.prems(2) by (intro unat_add_u64) simp
  have e: "sz e = of_nat (length (c_entry (x_codec X) e)) \<and> sz e \<noteq> 0" using Cons.prems(1) by (meson list.set_intros(1))
  then have pos: "0 < unat (sz e)" by (metis unat_gt_0)
  note e = e [THEN conjunct1, symmetric]
  show ?case
  proof (cases "m < cur + sz e")
    case True
    then show ?thesis using Cons.prems(3) e by (auto simp: Let_def less_imp_le)
  next
    case False
    define n where "n = LimitSize_loop sz m (cur + sz e) (keep + 1) es"
    define r where "r = (if m \<le> cur + sz e then [] else limit_reached X (Some m) (cur + sz e) es)"
    have ih: "n - (keep + 1) \<le> length r \<and> length r \<le> n - (keep + 1) + 1"
      unfolding n_def r_def by (rule Cons.IH) (use Cons.prems sum in auto)
    have c: "\<not> m \<le> cur" using False sum pos by (simp add: word_le_nat_alt word_less_nat_alt)
    have k: "keep + 1 \<le> n" unfolding n_def by (rule LimitSize_loop_ge)
    have "LimitSize_loop sz m cur keep (e # es) = n" using False Cons.prems(3) by (simp add: n_def Let_def)
    moreover have "limit_reached X (Some m) cur (e # es) = e # r" using e by (simp add: r_def Let_def)
    moreover have "n - keep = Suc (n - (keep + 1))" using k by simp
    ultimately show ?thesis using ih c by (simp del: limit_reached.simps LimitSize_loop.simps)
  qed
qed simp

lemma limit_reached_LimitSize:
  assumes "sizes_of X sz es"
  shows "\<exists>rest. limit_reached X (Some m) 0 es = LimitSize sz (Some m) es @ rest \<and> length rest \<le> 1"
proof (cases es)
  case (Cons e es')
  have s: "\<forall>e \<in> set es'. sz e = of_nat (length (c_entry (x_codec X) e)) \<and> sz e \<noteq> 0" "unat (sz e) + total_bytes sz es' < 2 ^ 64"
    "of_nat (length (c_entry (x_codec X) e)) = sz e"
    using assms Cons by (auto simp: sizes_of_def)
  define n where "n = LimitSize_loop sz m (sz e) 1 es' - 1"
  have n: "LimitSize_loop sz m 0 0 es = Suc n" using LimitSize_loop_ge [of 1 sz m "sz e" es'] Cons by (simp add: n_def Let_def)
  obtain j where j: "limit_reached X (Some m) (sz e) es' = take j es'" using limit_reached_take by blast
  define r where "r = (if m \<le> sz e then [] else limit_reached X (Some m) (sz e) es')"
  have r: "limit_reached X (Some m) 0 es = e # r" using Cons s(3) by (simp add: r_def Let_def)
  have len: "n \<le> length r" "length r \<le> n + 1" using limit_loops [OF s(1,2), of 1 m] by (simp_all add: n_def r_def)
  have "r = take (length r) es'" using j by (auto simp: r_def min_def)
  then have "take n r = take n es'" using len(1) by (metis min.absorb1 take_take)
  then have "limit_reached X (Some m) 0 es = LimitSize sz (Some m) es @ drop n r"
    using r n Cons by (simp add: LimitSize_Some) (metis append_take_drop_id)
  then show ?thesis using len(2) by (intro exI [of _ "drop n r"]) simp
qed (simp add: LimitSize_def)

lemma mem_Entries_returns:
  assumes "MemoryStorage_Entries sz low high max_size ctx m = Some (r, m')" "\<not> low < MemoryStorage_first_index m" "mem_wf m"
    "\<not> ms_trigger_log_unavailable m"
  defines "f \<equiv> unat (MemoryStorage_first_index m)"
  defines "asked \<equiv> take (unat high - unat low) (drop (unat low - f) (ms_entries m))"
  shows "r = Inr (case max_size of None \<Rightarrow> asked | Some k \<Rightarrow> LimitSize sz (Some k) asked)" "m' = m" "unat low \<le> unat high"
    "unat high \<le> f + length (ms_entries m)" "f \<le> unat low"
proof -
  let ?f = "MemoryStorage_first_index m"
  obtain front where front: "vec_get (ms_entries m) 0 = Some front" and a: "unat (low - e_index front) \<le> unat (high - e_index front)"
    "unat (high - e_index front) \<le> length (ms_entries m)" and rm: "m' = m"
    "r = (let entries = take (unat (high - e_index front) - unat (low - e_index front)) (drop (unat (low - e_index front)) (ms_entries m))
          in Inr (case max_size of Some k \<Rightarrow> LimitSize sz (Some k) entries | None \<Rightarrow> entries))"
    using assms(1,2,4) by (auto simp: MemoryStorage_Entries_def Let_def split: if_splits elim!: bind_SomeE)
  have fr: "e_index front = ?f" using front by (auto simp: MemoryStorage_first_index_def vec_get_eq_Some hd_conv_nth)
  have low: "unat (low - ?f) = unat low - f" "f \<le> unat low"
    using assms(2) by (simp_all add: unat_sub_u64 word_less_nat_alt word_le_nat_alt f_def)
  have b: "f + length (ms_entries m) < 2 ^ 64" using assms(3) by (simp add: mem_wf_def f_def)
  have high: "unat high = f + unat (high - ?f)" using b a(2) fr unat_add_u64 [of ?f "high - ?f"] by (simp add: f_def)
  then show "unat low \<le> unat high" "unat high \<le> f + length (ms_entries m)" "f \<le> unat low" using low a fr by simp_all
  show "m' = m" by (rule rm)
  have "unat (high - ?f) - unat (low - ?f) = unat high - unat low" using high low by simp
  then show "r = Inr (case max_size of None \<Rightarrow> asked | Some k \<Rightarrow> LimitSize sz (Some k) asked)"
    using rm(2) low(1) unfolding fr asked_def by (simp add: Let_def split: option.splits)
qed

lemma sizes_of_part: "sizes_of X sz es \<Longrightarrow> sizes_of X sz (take a (drop b es))"
proof -
  assume s: "sizes_of X sz es"
  have "es = take b es @ take a (drop b es) @ drop a (drop b es)" by (simp only: append_take_drop_id)
  then have "total_bytes sz (take a (drop b es)) \<le> total_bytes sz es"
    unfolding total_bytes_def by (metis le_add1 le_add2 map_append order_trans sum_list_append)
  then show ?thesis using s by (auto simp: sizes_of_def dest: in_set_takeD in_set_dropD)
qed

lemma ws_entries:
  assumes "ws_ok X s d es" "fault_free (x_os X) d"
    "MemoryStorage_Entries sz low high max_size ctx (ws_mem s es) = Some (r, m)"
  obtains "r = Inl (StorageError Compacted)" "m = ws_mem s es" "\<And>mx. fst (WALStorage_Entries X low high mx ctx (s, d)) = r"
  | asked a b where "asked = take a (drop b es)" "r = Inr (case max_size of None \<Rightarrow> asked | Some k \<Rightarrow> LimitSize sz (Some k) asked)" "m = ws_mem s es"
      "\<And>mx. fst (WALStorage_Entries X low high mx ctx (s, d)) = Inr (limit_reached X mx 0 asked)"
proof (cases "low < w_first_index (ws_wal s)")
  case True
  then show ?thesis using that(1) assms(3) ws_mem_first [OF assms(1)]
    by (auto simp: MemoryStorage_Entries_def WALStorage_Entries_def WAL_ReadEntries_def)
next
  case False
  let ?first = "w_first_index (ws_wal s)"
  let ?asked = "take (unat high - unat low) (drop (unat low - unat ?first) es)"
  have ok: "wal_ok X (ws_wal s) d es" using assms(1) by (simp add: ws_ok_def)
  have f: "MemoryStorage_first_index (ws_mem s es) = ?first" by (rule ws_mem_first [OF assms(1)])
  have n: "\<not> low < MemoryStorage_first_index (ws_mem s es)" "\<not> ms_trigger_log_unavailable (ws_mem s es)"
    using False f by (simp_all add: ws_mem_def)
  have es: "ms_entries (ws_mem s es) = es" by (simp add: ws_mem_def)
  note m = mem_Entries_returns [OF assms(3) n(1) ws_mem_wf [OF assms(1)] n(2), unfolded f es]
  have rd: "fst (WALStorage_Entries X low high mx ctx (s, d)) = Inr (limit_reached X mx 0 ?asked)" for mx
  proof -
    obtain q d' where q: "WAL_ReadEntries X low high mx (ws_wal s) d = (q, d')" by (cases "WAL_ReadEntries X low high mx (ws_wal s) d")
    have "q = Inr (limit_reached X mx 0 (take (min (unat high) (unat ?first + length es) - unat low) (drop (unat low - unat ?first) es)))"
      using ReadEntries_log [OF ok q] assms(2) False m(3,4) by simp
    then show ?thesis using q m(4) by (simp add: WALStorage_Entries_def min_def)
  qed
  show ?thesis by (rule that(2) [OF refl m(1,2) rd])
qed

lemma ws_append_rejected:
  assumes "ws_ok X s d es" "new \<noteq> []" "MemoryStorage_Append new (ws_mem s es) = (Inl e, m)"
  shows "\<exists>msg. WALStorage_Append X new (s, d) = (Inl (FatalError msg), s, d)"
proof -
  have "e_index (hd new) < w_first_index (ws_wal s) \<or> WAL_LastIndex (ws_wal s) + 1 < e_index (hd new)"
    using assms(3) ws_mem_first [OF assms(1)] ws_mem_last [OF assms(1)]
    by (auto simp: MemoryStorage_Append_def MemoryStorage_MayAppend_def Let_def split: if_splits)
  moreover have "w_first_index (ws_wal s) \<le> WAL_LastIndex (ws_wal s) + 1"
    using wal_last(1) [of X "ws_wal s" d es] assms(1) by (simp add: ws_ok_def word_le_nat_alt)
  ultimately show ?thesis
    using assms(2) by (auto simp: WALStorage_Append_def on_wal_def WAL_Append_def io_bind_def Let_def)
qed

lemma ws_append_done:
  assumes "ws_ok X s d es" "WALStorage_Append X new (s, d) = (Inr u, s', d')" "new \<noteq> []"
    "contig (e_index (hd new)) new" "\<forall>e \<in> set new. entry_ok X e"
    "unat (e_index (hd new)) + length new < 2 ^ 64" "unat (sm_current_segment_id (w_segments (ws_wal s))) + 2 * length new + 1 < 2 ^ 64"
  shows "\<exists>es'. ws_ok X s' d' es' \<and> MemoryStorage_Append new (ws_mem s es) = (Inr (), ws_mem s' es')"
proof -
  let ?w = "ws_wal s" let ?i = "e_index (hd new)"
  have ok: "wal_ok X ?w d es" using assms(1) by (simp add: ws_ok_def)
  then obtain hss where at: "wal_at X ?w d hss es" by (auto simp: wal_ok_def)
  obtain w' where w': "WAL_Append X new (?w, d) = (Inr u, w', d')" "s' = s\<lparr>ws_wal := w'\<rparr>"
    using assms(2) by (auto simp: WALStorage_Append_def on_wal_def split: prod.splits)
  define es' where "es' = take (unat ?i - unat (w_first_index ?w)) es @ new"
  have r: "wal_ok X w' d' es'" "same_state ?w w'" "unat (w_first_index ?w) \<le> unat ?i" "unat ?i \<le> unat (w_first_index ?w) + length es"
    using Append_log [OF at w'(1) assms(3-7)] unfolding es'_def wal_ok_def by blast+
  have st: "w_first_index w' = w_first_index ?w" "w_hard_state w' = w_hard_state ?w" "w_conf_state w' = w_conf_state ?w"
    "w_snapshot_index w' = w_snapshot_index ?w"
    using r(2) by (auto simp: same_state_def)
  have "ws_ok X s' d' es'" using assms(1) r(1) st w'(2) by (auto simp: ws_ok_def Let_def)
  moreover have "MemoryStorage_Append new (ws_mem s es) = (Inr (), ws_mem s' es')"
  proof -
    have "unat (?i - w_first_index ?w) = unat ?i - unat (w_first_index ?w)" using r(3) by (intro unat_sub_u64) (simp add: word_le_nat_alt)
    moreover have "\<not> ?i < w_first_index ?w" "\<not> WAL_LastIndex ?w + 1 < ?i" using r(3,4) wal_last(1) [OF ok] by (simp_all add: word_less_nat_alt)
    ultimately show ?thesis
      using assms(3) ws_mem_first [OF assms(1)] ws_mem_last [OF assms(1)] st w'(2)
      by (simp add: MemoryStorage_Append_def MemoryStorage_MayAppend_def ws_mem_def es'_def Let_def)
  qed
  ultimately show ?thesis by blast
qed

end
