(* ===== verification/Raftor.thy ===== *)
theory Raftor
  imports ReadyProcessor WalStorage
begin

text \<open>
  The orchestration of a node (\<open>lib/raftor/raftor.cc\<close>): configuration, bootstrap, the event loop and the calls of the
  application.

  The event loop runs on one thread, and the queues are the only objects other threads touch; a call of the application
  is therefore one step between two iterations. What the world decides is an argument: the readings of the clock, the
  temporary files, the result of starting the transport and the events it delivers. The blocking variants
  (\<open>ProposeSync\<close>, \<open>ReadIndexSync\<close>, \<open>ProposeAsync\<close>) submit a request whose function fills a promise and wait for it.
\<close>

section \<open>Configuration\<close>

datatype TransportKind = Capnp | Noop

record PeerConfig =
  pc_id :: u64
  pc_addr :: bytes

record RaftorConfig =
  rc_node_id :: u64
  rc_listen_addr :: bytes
  rc_transport_kind :: TransportKind
  rc_initial_peers :: "PeerConfig list"
  rc_data_dir :: bytes
  rc_election_tick :: u64
  rc_heartbeat_tick :: u64
  rc_max_size_per_message :: u64
  rc_max_inflight_messages :: nat
  rc_pre_vote :: bool
  rc_check_quorum :: bool
  rc_read_only_option :: ReadOnlyOption
  rc_tick_interval :: int
  rc_proposal_timeout :: int
  rc_read_index_timeout :: int
  rc_snapshot_entries_threshold :: u64
  rc_snapshot_log_size_bytes :: u64
  rc_snapshot_interval :: int
  rc_enable_entry_checksum :: bool

definition RaftorConfig_Validate :: "RaftorConfig \<Rightarrow> unit result" where
  "RaftorConfig_Validate c =
     (if rc_node_id c = 0 then Inl (ConfigError InvalidNodeId)
      else if rc_transport_kind c = Capnp \<and> rc_listen_addr c = [] then Inl (ConfigError ListenAddressEmpty)
      else if rc_data_dir c = [] then Inl (ConfigError DataDirectoryEmpty)
      else if rc_election_tick c \<le> rc_heartbeat_tick c then Inl (ConfigError ElectionTickTooSmall)
      else Inr ())"

definition RaftorConfig_ToRaftConfig :: "RaftorConfig \<Rightarrow> Config" where
  "RaftorConfig_ToRaftConfig c =
     DefaultConfig\<lparr>c_id := rc_node_id c, c_election_tick := rc_election_tick c, c_heartbeat_tick := rc_heartbeat_tick c,
       c_max_size_per_message := rc_max_size_per_message c, c_max_inflight_messages := rc_max_inflight_messages c,
       c_pre_vote := rc_pre_vote c, c_check_quorum := rc_check_quorum c, c_read_only_option := rc_read_only_option c,
       c_load_state_on_startup := True\<rparr>"

definition ConfStateContainsNode :: "conf_state \<Rightarrow> u64 \<Rightarrow> bool" where
  "ConfStateContainsNode cs node_id \<longleftrightarrow>
     node_id \<in> set (cs_voters cs) \<or> node_id \<in> set (cs_learners cs) \<or>
     node_id \<in> set (cs_voters_outgoing cs) \<or> node_id \<in> set (cs_learners_next cs)"

section \<open>World and state\<close>

record temp_file =
  tf_created :: bool
  tf_fwrite :: "nat \<Rightarrow> nat \<Rightarrow> nat"
  tf_rewound :: bool
  tf_fread :: "nat \<Rightarrow> nat \<Rightarrow> nat"
  tf_ferror :: bool

record ('s, 'm) raftor_world =
  rw_env :: "('s, 'm) raftor_env"
  rw_now :: "nat \<Rightarrow> int"
  rw_temp_file :: "nat \<Rightarrow> temp_file"
  rw_metadata_bytes :: "RaftorMetadataChange \<Rightarrow> bytes"

record NodeStatus =
  ns_id :: u64
  ns_role :: StateRole
  ns_term :: u64
  ns_leader_id :: u64
  ns_commit_index :: u64
  ns_applied_index :: u64
  ns_pending_proposals :: nat

text \<open>The tracker belongs to the object; it is the one inside the processor that shares it.\<close>

record ('s, 'm) RaftorImpl =
  ri_config :: RaftorConfig
  ri_processor :: "('s, 'm) ReadyProcessor"
  ri_proposal_queue :: ProposalQueue
  ri_read_index_queue :: ReadIndexQueue
  ri_running :: bool
  ri_started :: bool
  ri_last_tick :: int
  ri_proposal_counter :: u64
  ri_cached_status :: NodeStatus
  ri_terminal_error :: "raft_error option"
  ri_last_snapshot_attempt_index :: u64
  ri_last_snapshot_attempt_time :: int
  ri_last_snapshot_time :: int
  ri_last_log_size_check :: int
  ri_clock_readings :: nat
  ri_temp_files :: nat

datatype transport_event = Received message | PeerFailed u64

definition RaftorImpl_Now :: "('s, 'm) raftor_world \<Rightarrow> ('s, 'm) RaftorImpl \<Rightarrow> int \<times> ('s, 'm) RaftorImpl" where
  "RaftorImpl_Now W ri = (rw_now W (ri_clock_readings ri), ri\<lparr>ri_clock_readings := Suc (ri_clock_readings ri)\<rparr>)"

definition on_processor :: "(('s, 'm) ReadyProcessor \<Rightarrow> ('a \<times> ('s, 'm) ReadyProcessor) option) \<Rightarrow>
    ('s, 'm) RaftorImpl \<Rightarrow> ('a \<times> ('s, 'm) RaftorImpl) option" where
  "on_processor f ri = do { (x, rp) \<leftarrow> f (ri_processor ri); Some (x, ri\<lparr>ri_processor := rp\<rparr>) }"

definition in_processor :: "(('s, 'm) ReadyProcessor \<Rightarrow> ('s, 'm) ReadyProcessor) \<Rightarrow> ('s, 'm) RaftorImpl \<Rightarrow> ('s, 'm) RaftorImpl" where
  "in_processor f ri = ri\<lparr>ri_processor := f (ri_processor ri)\<rparr>"

definition make_calls :: "call list \<Rightarrow> ('s, 'm) RaftorImpl \<Rightarrow> ('s, 'm) RaftorImpl" where
  "make_calls cs = in_processor (\<lambda>rp. rp\<lparr>rp_calls := rp_calls rp @ cs\<rparr>)"

definition raftor_store :: "('s, 'm) RaftorImpl \<Rightarrow> 's" where
  "raftor_store ri = node_store (rp_raw_node (ri_processor ri))"

abbreviation raftor_storage :: "('s, 'm) raftor_world \<Rightarrow> 's storage_ops" where
  "raftor_storage W \<equiv> env_storage (re_env (rw_env W))"

section \<open>Bootstrap\<close>

definition BuildBootstrapPeerAddresses :: "RaftorConfig \<Rightarrow> PeerAddress list" where
  "BuildBootstrapPeerAddresses c =
     (if rc_initial_peers c = [] then [\<lparr>pa_id = rc_node_id c, pa_addr = rc_listen_addr c\<rparr>]
      else map (\<lambda>peer. \<lparr>pa_id = pc_id peer, pa_addr = pc_addr peer\<rparr>) (rc_initial_peers c))"

definition BuildBootstrapConfState :: "RaftorConfig \<Rightarrow> conf_state result" where
  "BuildBootstrapConfState c =
     (if rc_initial_peers c = [] then Inr (default_conf_state\<lparr>cs_voters := [rc_node_id c]\<rparr>)
      else if \<not> list_ex (\<lambda>peer. pc_id peer = rc_node_id c) (rc_initial_peers c) then Inl (ConfigError NodeIdNotInInitialPeers)
      else Inr (default_conf_state\<lparr>cs_voters := map pc_id (rc_initial_peers c)\<rparr>))"

definition BootstrapStorageIfNeeded :: "('s, 'm) raftor_env \<Rightarrow> RaftorConfig \<Rightarrow> 's \<Rightarrow> (unit result \<times> 's) option" where
  "BootstrapStorageIfNeeded R c s =
     (case so_InitialState (env_storage (re_env R)) s of
        Inl e \<Rightarrow> Some (Inl e, s)
      | Inr state \<Rightarrow>
          if cs_voters (rs_conf_state state) \<noteq> [] then Some (Inr (), s)
          else case BuildBootstrapConfState c of
                 Inl e \<Rightarrow> Some (Inl e, s)
               | Inr cs \<Rightarrow> wo_SetConfState (re_storage R) cs s)"

definition BootstrapWalStorageIfNeeded :: "('s, 'm) raftor_env \<Rightarrow> 's peer_ops \<Rightarrow> RaftorConfig \<Rightarrow> 's \<Rightarrow> (unit result \<times> 's) option" where
  "BootstrapWalStorageIfNeeded R P c s =
     (case so_InitialState (env_storage (re_env R)) s of
        Inl e \<Rightarrow> Some (Inl e, s)
      | Inr state \<Rightarrow>
          if cs_voters (rs_conf_state state) \<noteq> [] then Some (Inr (), s)
          else case BuildBootstrapConfState c of
                 Inl e \<Rightarrow> Some (Inl e, s)
               | Inr cs \<Rightarrow> do {
                   (r, s) \<leftarrow> wo_SetConfState (re_storage R) cs s;
                   case r of
                     Inl e \<Rightarrow> Some (Inl e, s)
                   | Inr _ \<Rightarrow> po_SetPeerAddresses P (BuildBootstrapPeerAddresses c) s
                 })"

definition RestoreLocalSnapshot :: "('s, 'm) raftor_env \<Rightarrow> 's \<Rightarrow> 'm \<Rightarrow> u64 result \<times> 'm" where
  "RestoreLocalSnapshot R s m =
     (case wo_LocalSnapshot (re_storage R) s of
        Inl e \<Rightarrow> (Inl e, m)
      | Inr None \<Rightarrow> (Inr 0, m)
      | Inr (Some sn) \<Rightarrow>
          if sn_index sn = 0 then (Inr 0, m)
          else case ma_RestoreSnapshot (re_machine R) (sn_metadata sn) (SnapshotDataReader_new (sn_data sn)) m of
                 (Inl e, m) \<Rightarrow> (Inl e, m)
               | (Inr _, m) \<Rightarrow> (Inr (sn_index sn), m))"

definition RaftorImpl_RefreshStatus :: "('s, 'm) RaftorImpl \<Rightarrow> ('s, 'm) RaftorImpl" where
  "RaftorImpl_RefreshStatus ri =
     (let status = RawNode_GetStatus (rp_raw_node (ri_processor ri))
      in ri\<lparr>ri_cached_status :=
           \<lparr>ns_id = st_id status, ns_role = ss_raft_state (st_ss status), ns_term = hs_term (st_hs status),
            ns_leader_id = ss_leader_id (st_ss status), ns_commit_index = hs_commit (st_hs status),
            ns_applied_index = st_applied status,
            ns_pending_proposals = ProposalTracker_PendingCount (rp_proposal_tracker (ri_processor ri))\<rparr>\<rparr>)"

definition add_peers :: "u64 \<Rightarrow> (u64 \<times> bytes) list \<Rightarrow> ('s, 'm) ReadyProcessor \<Rightarrow> ('s, 'm) ReadyProcessor" where
  "add_peers self peers = fold (\<lambda>(peer, addr) rp. if peer \<noteq> self \<and> addr \<noteq> [] then emit (PeerAdded peer addr) rp else rp) peers"

definition RaftorImpl_new :: "('s, 'm) raftor_env \<Rightarrow> RaftorConfig \<Rightarrow> 'm \<Rightarrow> 's \<Rightarrow> u64 \<Rightarrow> nat \<Rightarrow> ('s, 'm) RaftorImpl option" where
  "RaftorImpl_new R c m s initial_applied_index draws = do {
     n \<leftarrow> RawNode_new (re_env R) ((RaftorConfig_ToRaftConfig c)\<lparr>c_applied := initial_applied_index\<rparr>) s draws;
     let ri = RaftorImpl_RefreshStatus
        \<lparr>ri_config = c, ri_processor = ReadyProcessor_new n m initial_applied_index, ri_proposal_queue = [], ri_read_index_queue = [],
         ri_running = False, ri_started = False, ri_last_tick = 0, ri_proposal_counter = 0,
         ri_cached_status = \<lparr>ns_id = 0, ns_role = Follower, ns_term = 0, ns_leader_id = 0, ns_commit_index = 0, ns_applied_index = 0, ns_pending_proposals = 0\<rparr>,
         ri_terminal_error = None, ri_last_snapshot_attempt_index = 0, ri_last_snapshot_attempt_time = 0, ri_last_snapshot_time = 0,
         ri_last_log_size_check = 0, ri_clock_readings = 0, ri_temp_files = 0\<rparr>;
     let peers = (case re_wal R of
                    Some P \<Rightarrow> map (\<lambda>peer. (pa_id peer, pa_addr peer)) (po_GetPeerAddresses P (raftor_store ri))
                  | None \<Rightarrow> map (\<lambda>peer. (pc_id peer, pc_addr peer)) (rc_initial_peers c));
     Some (in_processor (add_peers (rc_node_id c) peers) ri)
   }"

definition Raftor_Create :: "('s, 'm) raftor_env \<Rightarrow> RaftorConfig \<Rightarrow> 'm \<Rightarrow> 's option \<Rightarrow> nat \<Rightarrow> ('s, 'm) RaftorImpl result option" where
  "Raftor_Create R c m storage draws =
     (case RaftorConfig_Validate c of
        Inl e \<Rightarrow> Some (Inl e)
      | Inr _ \<Rightarrow>
          case storage of
            None \<Rightarrow> Some (Inl (RaftError IncompatibleStorage))
          | Some s \<Rightarrow> do {
              (r, s) \<leftarrow> BootstrapStorageIfNeeded R c s;
              case r of
                Inl e \<Rightarrow> Some (Inl e)
              | Inr _ \<Rightarrow>
                  case RestoreLocalSnapshot R s m of
                    (Inl e, m) \<Rightarrow> Some (Inl e)
                  | (Inr applied, m) \<Rightarrow> do { ri \<leftarrow> RaftorImpl_new R c m s applied draws; Some (Inr ri) }
            })"

text \<open>The node on the write-ahead log: the storage of both interfaces is the log together with its disk.\<close>

definition wal_storage_ops :: "wal_env \<Rightarrow> (WALStorage \<times> disk) storage_ops" where
  "wal_storage_ops X =
     \<lparr>so_InitialState = (\<lambda>(s, d). WALStorage_InitialState s),
      so_Entries = (\<lambda>low high max_size context (s, d). case WALStorage_Entries X low high max_size context (s, d) of (r, d) \<Rightarrow> Some (r, s, d)),
      so_Term = (\<lambda>idx (s, d). Some (WALStorage_Term idx s)),
      so_FirstIndex = (\<lambda>(s, d). WALStorage_FirstIndex s),
      so_LastIndex = (\<lambda>(s, d). WALStorage_LastIndex s),
      so_GetSnapshot = (\<lambda>request_index to (s, d). Some (WALStorage_GetSnapshot request_index to s, s, d))\<rparr>"

definition wal_writable :: "wal_env \<Rightarrow> (WALStorage \<times> disk) writable_ops" where
  "wal_writable X =
     \<lparr>wo_Append = (\<lambda>ents sd. Some (WALStorage_Append X ents sd)),
      wo_SetHardState = (\<lambda>hs sd. Some (WALStorage_SetHardState X hs sd)),
      wo_SetConfState = (\<lambda>cs sd. Some (WALStorage_SetConfState X cs sd)),
      wo_ApplySnapshot = WALStorage_ApplySnapshot X,
      wo_ApplyLocalSnapshot = WALStorage_ApplyLocalSnapshot X,
      wo_Sync = (\<lambda>sd. Some (WALStorage_Sync X sd)),
      wo_LocalSnapshot = (\<lambda>(s, d). WALStorage_LocalSnapshot s),
      wo_LogSizeBytes = WALStorage_LogSizeBytes\<rparr>"

definition wal_peers :: "wal_env \<Rightarrow> (WALStorage \<times> disk) peer_ops" where
  "wal_peers X =
     \<lparr>po_UpsertPeerAddress = (\<lambda>i addr sd. Some (WALStorage_UpsertPeerAddress X i addr sd)),
      po_RemovePeerAddress = (\<lambda>i sd. Some (WALStorage_RemovePeerAddress X i sd)),
      po_SetPeerAddresses = (\<lambda>peers sd. Some (WALStorage_SetPeerAddresses X peers sd)),
      po_GetPeerAddresses = (\<lambda>(s, d). WALStorage_GetPeerAddresses s)\<rparr>"

definition with_wal :: "wal_env \<Rightarrow> (WALStorage \<times> disk, 'm) raftor_env \<Rightarrow> (WALStorage \<times> disk, 'm) raftor_env" where
  "with_wal X R = R\<lparr>re_env := (re_env R)\<lparr>env_storage := wal_storage_ops X\<rparr>, re_storage := wal_writable X, re_wal := Some (wal_peers X)\<rparr>"

definition Raftor_CreateDefault ::
    "wal_env \<Rightarrow> (WALStorage \<times> disk, 'm) raftor_env \<Rightarrow> RaftorConfig \<Rightarrow> 'm \<Rightarrow> disk \<Rightarrow> nat \<Rightarrow> (WALStorage \<times> disk, 'm) RaftorImpl result option" where
  "Raftor_CreateDefault X R c m d draws =
     (case RaftorConfig_Validate c of
        Inl e \<Rightarrow> Some (Inl e)
      | Inr _ \<Rightarrow> do {
          (r, d) \<leftarrow> WALStorage_Open (X\<lparr>x_config := DefaultWALConfig\<lparr>wc_sync_on_write := True\<rparr>\<rparr>) d;
          case r of
            Inl e \<Rightarrow> Some (Inl e)
          | Inr s \<Rightarrow> do {
              let R = with_wal (X\<lparr>x_config := DefaultWALConfig\<lparr>wc_sync_on_write := True\<rparr>\<rparr>) R;
              (r, s) \<leftarrow> BootstrapWalStorageIfNeeded R (wal_peers (X\<lparr>x_config := DefaultWALConfig\<lparr>wc_sync_on_write := True\<rparr>\<rparr>)) c (s, d);
              case r of
                Inl e \<Rightarrow> Some (Inl e)
              | Inr _ \<Rightarrow> Raftor_Create R c m (Some s) draws
            }
        })"

section \<open>Requests\<close>

definition RaftorImpl_GenerateProposalContext :: "('s, 'm) RaftorImpl \<Rightarrow> bytes \<times> ('s, 'm) RaftorImpl" where
  "RaftorImpl_GenerateProposalContext ri =
     (decimal (unat (rc_node_id (ri_config ri))) @ '':'' @ decimal (unat (ri_proposal_counter ri)),
      ri\<lparr>ri_proposal_counter := ri_proposal_counter ri + 1\<rparr>)"

definition RaftorImpl_GetRequestRejectionError :: "('s, 'm) RaftorImpl \<Rightarrow> raft_error option" where
  "RaftorImpl_GetRequestRejectionError ri =
     (case ri_terminal_error ri of
        Some e \<Rightarrow> Some e
      | None \<Rightarrow> if \<not> ri_started ri \<or> \<not> ri_running ri then Some (RaftError ShuttingDown) else None)"

definition RaftorImpl_EnqueueProposal :: "bytes \<Rightarrow> callback \<Rightarrow> int \<Rightarrow> ('s, 'm) RaftorImpl \<Rightarrow> ('s, 'm) RaftorImpl" where
  "RaftorImpl_EnqueueProposal data callback timeout ri =
     (case RaftorImpl_GetRequestRejectionError ri of
        Some e \<Rightarrow> make_calls (call_proposal callback (Inl e)) ri
      | None \<Rightarrow> ri\<lparr>ri_proposal_queue := ProposalQueue_Push data callback (Some timeout) (ri_proposal_queue ri)\<rparr>)"

definition RaftorImpl_EnqueueReadIndex :: "bytes \<Rightarrow> callback \<Rightarrow> int \<Rightarrow> ('s, 'm) RaftorImpl \<Rightarrow> ('s, 'm) RaftorImpl" where
  "RaftorImpl_EnqueueReadIndex ctx callback timeout ri =
     (case RaftorImpl_GetRequestRejectionError ri of
        Some e \<Rightarrow> make_calls (call_read callback (Inl e)) ri
      | None \<Rightarrow> ri\<lparr>ri_read_index_queue := ReadIndexQueue_Push ctx callback (Some timeout) (ri_read_index_queue ri)\<rparr>)"

definition RaftorImpl_Propose :: "bytes \<Rightarrow> callback \<Rightarrow> ('s, 'm) RaftorImpl \<Rightarrow> ('s, 'm) RaftorImpl" where
  "RaftorImpl_Propose data callback ri = RaftorImpl_EnqueueProposal data callback (rc_proposal_timeout (ri_config ri)) ri"

definition RaftorImpl_ReadIndex :: "bytes \<Rightarrow> callback \<Rightarrow> ('s, 'm) RaftorImpl \<Rightarrow> ('s, 'm) RaftorImpl" where
  "RaftorImpl_ReadIndex ctx callback ri = RaftorImpl_EnqueueReadIndex ctx callback (rc_read_index_timeout (ri_config ri)) ri"

definition RaftorImpl_FailQueuedRequests :: "raft_error \<Rightarrow> ('s, 'm) RaftorImpl \<Rightarrow> ('s, 'm) RaftorImpl" where
  "RaftorImpl_FailQueuedRequests e ri =
     (make_calls (concat (map (\<lambda>item. call_proposal (qi_callback item) (Inl e)) (ri_proposal_queue ri)) @
                  concat (map (\<lambda>item. call_read (qi_callback item) (Inl e)) (ri_read_index_queue ri))) ri)
       \<lparr>ri_proposal_queue := [], ri_read_index_queue := []\<rparr>"

definition fail_all_requests :: "raft_error \<Rightarrow> ('s, 'm) RaftorImpl \<Rightarrow> ('s, 'm) RaftorImpl" where
  "fail_all_requests e ri =
     in_processor (\<lambda>rp. emit TransportStopped
       (on_tracker (ProposalTracker_FailAllReads e) (on_tracker (ProposalTracker_FailAll e) rp)))
       (RaftorImpl_FailQueuedRequests e ri)"

definition RaftorImpl_EnterTerminalState :: "raft_error \<Rightarrow> ('s, 'm) RaftorImpl \<Rightarrow> ('s, 'm) RaftorImpl" where
  "RaftorImpl_EnterTerminalState e ri =
     (if ri_terminal_error ri \<noteq> None then ri
      else fail_all_requests e (ri\<lparr>ri_terminal_error := Some e, ri_running := False, ri_started := False\<rparr>))"

definition RaftorImpl_Stop :: "('s, 'm) RaftorImpl \<Rightarrow> ('s, 'm) RaftorImpl" where
  "RaftorImpl_Stop ri =
     (if \<not> ri_running ri then ri
      else (fail_all_requests (RaftError ShuttingDown) (ri\<lparr>ri_running := False\<rparr>))\<lparr>ri_started := False\<rparr>)"

text \<open>The item \<open>TryPop\<close> took off the queue.\<close>

definition process_proposal :: "('s, 'm) raftor_world \<Rightarrow> QueueItem \<Rightarrow> ('s, 'm) RaftorImpl \<Rightarrow> ('s, 'm) RaftorImpl option" where
  "process_proposal W item ri =
     (case RaftorImpl_GetRequestRejectionError ri of
        Some e \<Rightarrow> Some (make_calls (call_proposal (qi_callback item) (Inl e)) ri)
      | None \<Rightarrow> do {
          let timeout = (case qi_timeout item of Some t \<Rightarrow> t | None \<Rightarrow> rc_proposal_timeout (ri_config ri));
          let (ctx, ri) = RaftorImpl_GenerateProposalContext ri;
          let (now, ri) = RaftorImpl_Now W ri;
          let ri = in_processor (\<lambda>rp. rp\<lparr>rp_proposal_tracker := ProposalTracker_Track now ctx (qi_callback item) timeout (rp_proposal_tracker rp)\<rparr>) ri;
          (r, ri) \<leftarrow> on_processor (on_node (RawNode_Propose (re_env (rw_env W)) ctx (qi_data item))) ri;
          Some (case r of
                  Inl e \<Rightarrow> in_processor (on_tracker (ProposalTracker_Fail ctx e)) ri
                | Inr _ \<Rightarrow> ri)
        })"

definition process_read :: "('s, 'm) raftor_world \<Rightarrow> QueueItem \<Rightarrow> ('s, 'm) RaftorImpl \<Rightarrow> ('s, 'm) RaftorImpl option" where
  "process_read W item ri =
     (case RaftorImpl_GetRequestRejectionError ri of
        Some e \<Rightarrow> Some (make_calls (call_read (qi_callback item) (Inl e)) ri)
      | None \<Rightarrow> do {
          let timeout = (case qi_timeout item of Some t \<Rightarrow> t | None \<Rightarrow> rc_read_index_timeout (ri_config ri));
          let (ctx, ri) = RaftorImpl_GenerateProposalContext ri;
          let (now, ri) = RaftorImpl_Now W ri;
          t \<leftarrow> ProposalTracker_TrackRead now ctx (qi_callback item) timeout (rp_proposal_tracker (ri_processor ri));
          let ri = in_processor (\<lambda>rp. rp\<lparr>rp_proposal_tracker := t\<rparr>) ri;
          rp \<leftarrow> advance_node (RawNode_ReadIndex (re_env (rw_env W)) ctx) (ri_processor ri);
          Some (ri\<lparr>ri_processor := rp\<rparr>)
        })"

fun proposal_loop :: "('s, 'm) raftor_world \<Rightarrow> QueueItem list \<Rightarrow> ('s, 'm) RaftorImpl \<Rightarrow> ('s, 'm) RaftorImpl option" where
  "proposal_loop W [] ri = Some ri"
| "proposal_loop W (item # q) ri = do {
     ri \<leftarrow> process_proposal W item (ri\<lparr>ri_proposal_queue := q\<rparr>);
     proposal_loop W q ri
   }"

definition RaftorImpl_ProcessProposalQueue :: "('s, 'm) raftor_world \<Rightarrow> ('s, 'm) RaftorImpl \<Rightarrow> ('s, 'm) RaftorImpl option" where
  "RaftorImpl_ProcessProposalQueue W ri = proposal_loop W (ri_proposal_queue ri) ri"

fun read_loop_queue :: "('s, 'm) raftor_world \<Rightarrow> QueueItem list \<Rightarrow> ('s, 'm) RaftorImpl \<Rightarrow> ('s, 'm) RaftorImpl option" where
  "read_loop_queue W [] ri = Some ri"
| "read_loop_queue W (item # q) ri = do {
     ri \<leftarrow> process_read W item (ri\<lparr>ri_read_index_queue := q\<rparr>);
     read_loop_queue W q ri
   }"

definition RaftorImpl_ProcessReadIndexQueue :: "('s, 'm) raftor_world \<Rightarrow> ('s, 'm) RaftorImpl \<Rightarrow> ('s, 'm) RaftorImpl option" where
  "RaftorImpl_ProcessReadIndexQueue W ri = read_loop_queue W (ri_read_index_queue ri) ri"

definition RaftorImpl_ProcessTimeouts :: "('s, 'm) raftor_world \<Rightarrow> ('s, 'm) RaftorImpl \<Rightarrow> ('s, 'm) RaftorImpl" where
  "RaftorImpl_ProcessTimeouts W ri =
     (let (now, ri) = RaftorImpl_Now W ri in in_processor (on_tracker (ProposalTracker_ExpireTimeouts now)) ri)"

section \<open>Snapshots\<close>

text \<open>
  The loop that reads the temporary file back. The \<open>k\<close>-th \<open>fread\<close> returns at most the bytes asked for and those that are left.
\<close>

lemma load_chunks_progress:
  "length c < p \<Longrightarrow> r \<noteq> 0 \<Longrightarrow> r = min a (min t (length f - length c)) \<Longrightarrow>
     p - length (c @ take r (drop (length c) f)) < p - length c"
  unfolding length_append length_take length_drop by linarith

definition kReadChunk :: nat where
  "kReadChunk = 1048576"

function load_chunks :: "(nat \<Rightarrow> nat \<Rightarrow> nat) \<Rightarrow> bool \<Rightarrow> bytes \<Rightarrow> nat \<Rightarrow> nat \<Rightarrow> bytes \<Rightarrow> bytes result" where
  "load_chunks fread ferror file payload_size k copied =
     (if length copied < payload_size
      then
        let to_read = min (payload_size - length copied) kReadChunk;
            read = min (fread k to_read) (min to_read (length file - length copied))
        in if read = 0
           then Inl (if ferror then StorageErrorOther (Fmt ''snapshot temp read failed: {}'' [])
                     else StorageErrorOther (Fmt ''snapshot temp read hit unexpected EOF'' []))
           else load_chunks fread ferror file payload_size (Suc k) (copied @ take read (drop (length copied) file))
      else Inr copied)"
  by pat_completeness auto
termination
  by (relation "measure (\<lambda>(_, _, _, payload_size, _, copied). payload_size - length copied)")
    (rule wf_measure, simp only: in_measure split_conv, rule load_chunks_progress, assumption, assumption, rule refl)

declare load_chunks.simps [simp del]

definition LoadSnapshotDataFromFile :: "temp_file \<Rightarrow> bytes \<Rightarrow> u64 \<Rightarrow> bytes result" where
  "LoadSnapshotDataFromFile tf file payload_size =
     (if payload_size > 0xFFFFFFFF then Inl (StorageErrorOther (Fmt ''snapshot payload exceeds Cap'n Proto Data size limit'' []))
      else if \<not> tf_rewound tf then Inl (StorageErrorOther (Fmt ''snapshot temp rewind failed: {}'' []))
      else load_chunks (tf_fread tf) (tf_ferror tf) file (unat payload_size) 0 [])"

definition build_snapshot :: "('s, 'm) raftor_env \<Rightarrow> temp_file \<Rightarrow> u64 \<Rightarrow> u64 \<Rightarrow> conf_state \<Rightarrow> 'm \<Rightarrow> snapshot result \<times> 'm" where
  "build_snapshot R tf applied_index applied_term cs m =
     (if \<not> tf_created tf then (Inl (StorageErrorOther (Fmt ''snapshot temp file creation failed: {}'' [])), m)
      else case ma_TakeSnapshot (re_machine R) (TempFileSnapshotWriter_Write (tf_fwrite tf)) applied_index applied_term cs
                  (m, TempFileSnapshotWriter_new) of
             (Inl e, m, w) \<Rightarrow> (Inl e, m)
           | (Inr metadata, m, w) \<Rightarrow>
               (case LoadSnapshotDataFromFile tf (tw_file w) (tw_total_bytes_written w) of
                  Inl e \<Rightarrow> (Inl e, m)
                | Inr data \<Rightarrow> (Inr \<lparr>sn_data = data, sn_metadata = metadata\<rparr>, m)))"

definition RaftorImpl_TakeSnapshot :: "('s, 'm) raftor_world \<Rightarrow> ('s, 'm) RaftorImpl \<Rightarrow> (unit result \<times> ('s, 'm) RaftorImpl) option" where
  "RaftorImpl_TakeSnapshot W ri =
     (let applied_index = rp_applied_index (ri_processor ri) in
      case so_InitialState (raftor_storage W) (raftor_store ri) of
        Inl e \<Rightarrow> Some (Inl e, ri)
      | Inr initial_state \<Rightarrow> do {
          term_result \<leftarrow> so_Term (raftor_storage W) applied_index (raftor_store ri);
          case term_result of
            Inl e \<Rightarrow> Some (Inl e, ri)
          | Inr trm \<Rightarrow> do {
              let (built, m) = build_snapshot (rw_env W) (rw_temp_file W (ri_temp_files ri)) applied_index trm
                    (rs_conf_state initial_state) (rp_state_machine (ri_processor ri));
              let ri = in_processor (\<lambda>rp. rp\<lparr>rp_state_machine := m\<rparr>) (ri\<lparr>ri_temp_files := Suc (ri_temp_files ri)\<rparr>);
              case built of
                Inl e \<Rightarrow> Some (Inl e, ri)
              | Inr sn \<Rightarrow> do {
                  (r, ri) \<leftarrow> on_processor (on_store (wo_ApplyLocalSnapshot (re_storage (rw_env W)) sn) (StoredSnapshot sn)) ri;
                  Some (case r of
                          Inl e \<Rightarrow> (Inl e, ri)
                        | Inr _ \<Rightarrow>
                            let (now, ri) = RaftorImpl_Now W ri
                            in (Inr (), ri\<lparr>ri_last_snapshot_time := now, ri_last_snapshot_attempt_index := applied_index\<rparr>))
                }
            }
        })"

definition kLogSizeCheckMinInterval :: int where
  "kLogSizeCheckMinInterval = 1000000000"

definition kSnapshotRetryMinInterval :: int where
  "kSnapshotRetryMinInterval = 1000000000"

definition auto_snapshot_due :: "('s, 'm) raftor_world \<Rightarrow> u64 \<Rightarrow> u64 \<Rightarrow> int \<Rightarrow> ('s, 'm) RaftorImpl \<Rightarrow> bool \<times> ('s, 'm) RaftorImpl" where
  "auto_snapshot_due W applied_index snapshot_index now ri =
     (let c = ri_config ri in
      if 0 < rc_snapshot_entries_threshold c \<and> rc_snapshot_entries_threshold c \<le> applied_index - snapshot_index then (True, ri)
      else if 0 < rc_snapshot_interval c \<and> rc_snapshot_interval c \<le> now - ri_last_snapshot_time ri then (True, ri)
      else if 0 < rc_snapshot_log_size_bytes c \<and> kLogSizeCheckMinInterval \<le> now - ri_last_log_size_check ri
      then (rc_snapshot_log_size_bytes c \<le> wo_LogSizeBytes (re_storage (rw_env W)) (raftor_store ri), ri\<lparr>ri_last_log_size_check := now\<rparr>)
      else (False, ri))"

definition RaftorImpl_MaybeAutoSnapshot :: "('s, 'm) raftor_world \<Rightarrow> ('s, 'm) RaftorImpl \<Rightarrow> ('s, 'm) RaftorImpl option" where
  "RaftorImpl_MaybeAutoSnapshot W ri =
     (let c = ri_config ri; applied_index = rp_applied_index (ri_processor ri) in
      if rc_snapshot_entries_threshold c = 0 \<and> rc_snapshot_log_size_bytes c = 0 \<and> rc_snapshot_interval c = 0 then Some ri
      else if applied_index = 0 then Some ri
      else case so_FirstIndex (raftor_storage W) (raftor_store ri) of
             Inl _ \<Rightarrow> Some ri
           | Inr first_index \<Rightarrow>
               let snapshot_index = (if 0 < first_index then first_index - 1 else 0) in
               if applied_index \<le> snapshot_index then Some ri
               else
                 let (now, ri) = RaftorImpl_Now W ri;
                     (due, ri) = auto_snapshot_due W applied_index snapshot_index now ri
                 in if \<not> due then Some ri
                    else if applied_index \<le> ri_last_snapshot_attempt_index ri \<and>
                            now - ri_last_snapshot_attempt_time ri < kSnapshotRetryMinInterval then Some ri
                    else do {
                      (_, ri) \<leftarrow> RaftorImpl_TakeSnapshot W
                        (ri\<lparr>ri_last_snapshot_attempt_index := applied_index, ri_last_snapshot_attempt_time := now\<rparr>);
                      Some ri
                    })"

section \<open>The event loop\<close>

definition RaftorImpl_InitializeSnapshotState :: "('s, 'm) raftor_world \<Rightarrow> ('s, 'm) RaftorImpl \<Rightarrow> ('s, 'm) RaftorImpl" where
  "RaftorImpl_InitializeSnapshotState W ri =
     (let (now, ri) = RaftorImpl_Now W ri in
      ri\<lparr>ri_last_snapshot_time := now, ri_last_snapshot_attempt_time := 0, ri_last_log_size_check := 0,
         ri_last_snapshot_attempt_index :=
           (case so_FirstIndex (raftor_storage W) (raftor_store ri) of
              Inl _ \<Rightarrow> 0
            | Inr first_index \<Rightarrow> if 0 < first_index then first_index - 1 else 0)\<rparr>)"

definition RaftorImpl_Start :: "('s, 'm) raftor_world \<Rightarrow> unit result \<Rightarrow> ('s, 'm) RaftorImpl \<Rightarrow> unit result \<times> ('s, 'm) RaftorImpl" where
  "RaftorImpl_Start W transport_result ri =
     (case ri_terminal_error ri of
        Some e \<Rightarrow> (Inl e, ri)
      | None \<Rightarrow>
          if ri_started ri then (Inl (RaftError AlreadyStarted), ri)
          else case transport_result of
                 Inl e \<Rightarrow> (Inl e, ri\<lparr>ri_started := False\<rparr>)
               | Inr _ \<Rightarrow>
                   let ri = in_processor (emit TransportStarted) (ri\<lparr>ri_started := True, ri_running := True\<rparr>);
                       (now, ri) = RaftorImpl_Now W ri
                   in (Inr (), RaftorImpl_InitializeSnapshotState W (ri\<lparr>ri_last_tick := now\<rparr>)))"

definition RaftorImpl_OnMessage :: "('s, 'm) raftor_world \<Rightarrow> message \<Rightarrow> ('s, 'm) RaftorImpl \<Rightarrow> ('s, 'm) RaftorImpl option" where
  "RaftorImpl_OnMessage W m ri = do {
     (_, ri) \<leftarrow> on_processor (on_node (RawNode_Step (re_env (rw_env W)) m)) ri;
     Some ri
   }"

definition RaftorImpl_OnPeerError :: "('s, 'm) raftor_world \<Rightarrow> u64 \<Rightarrow> ('s, 'm) RaftorImpl \<Rightarrow> ('s, 'm) RaftorImpl option" where
  "RaftorImpl_OnPeerError W peer_id ri = do {
     rp \<leftarrow> advance_node (RawNode_ReportUnreachable (re_env (rw_env W)) peer_id) (ri_processor ri);
     Some (ri\<lparr>ri_processor := rp\<lparr>rp_state_machine := ma_OnPeerUnreachable (re_machine (rw_env W)) peer_id (rp_state_machine rp)\<rparr>\<rparr>)
   }"

fun poll_transport :: "('s, 'm) raftor_world \<Rightarrow> transport_event list \<Rightarrow> ('s, 'm) RaftorImpl \<Rightarrow> ('s, 'm) RaftorImpl option" where
  "poll_transport W [] ri = Some ri"
| "poll_transport W (Received m # evs) ri = do { ri \<leftarrow> RaftorImpl_OnMessage W m ri; poll_transport W evs ri }"
| "poll_transport W (PeerFailed p # evs) ri = do { ri \<leftarrow> RaftorImpl_OnPeerError W p ri; poll_transport W evs ri }"

definition RaftorImpl_ProcessRaftWork :: "('s, 'm) raftor_world \<Rightarrow> ('s, 'm) RaftorImpl \<Rightarrow> ('s, 'm) RaftorImpl option" where
  "RaftorImpl_ProcessRaftWork W ri = do {
     ri \<leftarrow> RaftorImpl_ProcessProposalQueue W ri;
     (r, ri) \<leftarrow> on_processor (ReadyProcessor_Process (rw_env W)) ri;
     if r = Inl (RaftError ChecksumMismatch)
     then Some (RaftorImpl_RefreshStatus (RaftorImpl_EnterTerminalState (RaftError ChecksumMismatch) ri))
     else do {
       ri \<leftarrow> RaftorImpl_ProcessReadIndexQueue W ri;
       ri \<leftarrow> RaftorImpl_MaybeAutoSnapshot W (RaftorImpl_ProcessTimeouts W ri);
       Some (RaftorImpl_RefreshStatus ri)
     }
   }"

definition RaftorImpl_ShouldTick :: "('s, 'm) raftor_world \<Rightarrow> ('s, 'm) RaftorImpl \<Rightarrow> bool \<times> ('s, 'm) RaftorImpl" where
  "RaftorImpl_ShouldTick W ri =
     (let (now, ri) = RaftorImpl_Now W ri in (rc_tick_interval (ri_config ri) \<le> now - ri_last_tick ri, ri))"

definition tick_node :: "('s, 'm) raftor_world \<Rightarrow> ('s, 'm) RaftorImpl \<Rightarrow> (bool \<times> ('s, 'm) RaftorImpl) option" where
  "tick_node W ri = do {
     (ticked, ri) \<leftarrow> on_processor (on_node (RawNode_Tick (re_env (rw_env W)))) ri;
     let (now, ri) = RaftorImpl_Now W ri;
     Some (ticked, ri\<lparr>ri_last_tick := now\<rparr>)
   }"

definition RaftorImpl_EventLoopIteration ::
    "('s, 'm) raftor_world \<Rightarrow> transport_event list \<Rightarrow> ('s, 'm) RaftorImpl \<Rightarrow> (bool \<times> ('s, 'm) RaftorImpl) option" where
  "RaftorImpl_EventLoopIteration W evs ri =
     (if \<not> ri_running ri then Some (False, ri)
      else do {
        ri \<leftarrow> poll_transport W evs ri;
        let (due, ri) = RaftorImpl_ShouldTick W ri;
        ri \<leftarrow> (if due then do { (_, ri) \<leftarrow> tick_node W ri; Some ri } else Some ri);
        ri \<leftarrow> RaftorImpl_ProcessRaftWork W ri;
        Some (ri_running ri, ri)
      })"

definition RaftorImpl_Tick :: "('s, 'm) raftor_world \<Rightarrow> ('s, 'm) RaftorImpl \<Rightarrow> (bool \<times> ('s, 'm) RaftorImpl) option" where
  "RaftorImpl_Tick W ri =
     (if \<not> ri_running ri then Some (False, ri)
      else do {
        (ticked, ri) \<leftarrow> tick_node W ri;
        ri \<leftarrow> RaftorImpl_ProcessRaftWork W ri;
        Some (ticked, ri)
      })"

section \<open>Cluster management\<close>

definition propose_change :: "('s, 'm) raftor_world \<Rightarrow> conf_change_v2 \<Rightarrow> ('s, 'm) RaftorImpl \<Rightarrow> (unit result \<times> ('s, 'm) RaftorImpl) option" where
  "propose_change W cc ri =
     (let (ctx, ri) = RaftorImpl_GenerateProposalContext ri
      in on_processor (on_node (RawNode_ProposeConfChange (re_env (rw_env W)) ctx cc)) ri)"

definition RaftorImpl_AddNode :: "('s, 'm) raftor_world \<Rightarrow> u64 \<Rightarrow> bytes \<Rightarrow> ('s, 'm) RaftorImpl \<Rightarrow> (unit result \<times> ('s, 'm) RaftorImpl) option" where
  "RaftorImpl_AddNode W i addr =
     propose_change W \<lparr>cc2_transition = AUTO, cc2_changes = [\<lparr>ccs_change_type = ADD_NODE, ccs_node_id = i\<rparr>], cc2_context = addr\<rparr>"

definition RaftorImpl_RemoveNode :: "('s, 'm) raftor_world \<Rightarrow> u64 \<Rightarrow> ('s, 'm) RaftorImpl \<Rightarrow> (unit result \<times> ('s, 'm) RaftorImpl) option" where
  "RaftorImpl_RemoveNode W i =
     propose_change W \<lparr>cc2_transition = AUTO, cc2_changes = [\<lparr>ccs_change_type = REMOVE_NODE, ccs_node_id = i\<rparr>], cc2_context = []\<rparr>"

definition RaftorImpl_UpdateNodeAddress ::
    "('s, 'm) raftor_world \<Rightarrow> u64 \<Rightarrow> bytes \<Rightarrow> ('s, 'm) RaftorImpl \<Rightarrow> (unit result \<times> ('s, 'm) RaftorImpl) option" where
  "RaftorImpl_UpdateNodeAddress W i addr ri =
     (if i = 0 then Some (Inl (ConfigError InvalidNodeId), ri)
      else if addr = [] then Some (Inl (InvalidConfigError (Fmt ''peer address is empty'' [])), ri)
      else case so_InitialState (raftor_storage W) (raftor_store ri) of
             Inl e \<Rightarrow> Some (Inl e, ri)
           | Inr state \<Rightarrow>
               if \<not> ConfStateContainsNode (rs_conf_state state) i
               then Some (Inl (InvalidConfigError (Fmt ''peer is not in ConfState'' [])), ri)
               else
                 let (ctx, ri) = RaftorImpl_GenerateProposalContext ri
                 in on_processor (on_node (RawNode_Propose (re_env (rw_env W)) (kMetadataProposalContextPrefix @ ctx)
                      (rw_metadata_bytes W (UpsertPeer i addr)))) ri)"

definition RaftorImpl_TransferLeader :: "('s, 'm) raftor_world \<Rightarrow> u64 \<Rightarrow> ('s, 'm) RaftorImpl \<Rightarrow> ('s, 'm) RaftorImpl option" where
  "RaftorImpl_TransferLeader W target_id ri = do {
     rp \<leftarrow> advance_node (RawNode_TransferLeader (re_env (rw_env W)) target_id) (ri_processor ri);
     Some (ri\<lparr>ri_processor := rp\<rparr>)
   }"

definition RaftorImpl_Campaign :: "('s, 'm) raftor_world \<Rightarrow> ('s, 'm) RaftorImpl \<Rightarrow> (unit result \<times> ('s, 'm) RaftorImpl) option" where
  "RaftorImpl_Campaign W = on_processor (on_node (RawNode_Campaign (re_env (rw_env W))))"

section \<open>Any sequence of calls\<close>

datatype raftor_call =
    CallStart "unit result"
  | CallStop
  | CallPoll "transport_event list"
  | CallTick
  | CallPropose bytes callback
  | CallReadIndex bytes callback
  | CallAddNode u64 bytes
  | CallRemoveNode u64
  | CallUpdateNodeAddress u64 bytes
  | CallTransferLeader u64
  | CallCampaign
  | CallTakeSnapshot

fun raftor_do :: "('s, 'm) raftor_world \<Rightarrow> raftor_call \<Rightarrow> ('s, 'm) RaftorImpl \<Rightarrow> ('s, 'm) RaftorImpl option" where
  "raftor_do W (CallStart r) ri = Some (snd (RaftorImpl_Start W r ri))"
| "raftor_do W CallStop ri = Some (RaftorImpl_Stop ri)"
| "raftor_do W (CallPoll evs) ri = map_option snd (RaftorImpl_EventLoopIteration W evs ri)"
| "raftor_do W CallTick ri = map_option snd (RaftorImpl_Tick W ri)"
| "raftor_do W (CallPropose data cb) ri = Some (RaftorImpl_Propose data cb ri)"
| "raftor_do W (CallReadIndex ctx cb) ri = Some (RaftorImpl_ReadIndex ctx cb ri)"
| "raftor_do W (CallAddNode i addr) ri = map_option snd (RaftorImpl_AddNode W i addr ri)"
| "raftor_do W (CallRemoveNode i) ri = map_option snd (RaftorImpl_RemoveNode W i ri)"
| "raftor_do W (CallUpdateNodeAddress i addr) ri = map_option snd (RaftorImpl_UpdateNodeAddress W i addr ri)"
| "raftor_do W (CallTransferLeader i) ri = RaftorImpl_TransferLeader W i ri"
| "raftor_do W CallCampaign ri = map_option snd (RaftorImpl_Campaign W ri)"
| "raftor_do W CallTakeSnapshot ri = map_option snd (RaftorImpl_TakeSnapshot W ri)"

fun raftor_run :: "('s, 'm) raftor_world \<Rightarrow> raftor_call list \<Rightarrow> ('s, 'm) RaftorImpl \<Rightarrow> ('s, 'm) RaftorImpl option" where
  "raftor_run W [] ri = Some ri"
| "raftor_run W (c # cs) ri = do { ri \<leftarrow> raftor_do W c ri; raftor_run W cs ri }"

section \<open>Every request is answered once\<close>

definition context_of :: "u64 \<Rightarrow> nat \<Rightarrow> bytes" where
  "context_of node c = decimal (unat node) @ '':'' @ decimal c"

lemma context_of_inj: "context_of node c = context_of node c' \<longleftrightarrow> c = c'"
  by (metis context_of_def append_same_eq append_eq_append_conv decimal_value_decimal same_append_eq)

abbreviation tracker_of :: "('s, 'm) RaftorImpl \<Rightarrow> ProposalTracker" where
  "tracker_of ri \<equiv> rp_proposal_tracker (ri_processor ri)"

definition contexts :: "ProposalTracker \<Rightarrow> bytes set" where
  "contexts t = set (map fst (tr_proposals t)) \<union> set (map fst (tr_reads t))"

text \<open>
  The contexts in use were generated before, and the counter, with the requests that still wait in the queues, is at most the
  number of calls made. Nothing waits while the loop does not run.
\<close>

definition raftor_inv :: "nat \<Rightarrow> ('s, 'm) RaftorImpl \<Rightarrow> bool" where
  "raftor_inv k ri \<longleftrightarrow>
     tracker_wf (tracker_of ri) \<and>
     contexts (tracker_of ri) \<subseteq> context_of (rc_node_id (ri_config ri)) ` {..<unat (ri_proposal_counter ri)} \<and>
     unat (ri_proposal_counter ri) + length (ri_proposal_queue ri) + length (ri_read_index_queue ri) \<le> k \<and>
     (ri_running ri \<or> ri_proposal_queue ri = [] \<and> ri_read_index_queue ri = [] \<and> contexts (tracker_of ri) = {})"

text \<open>The functions that have been called, and those that a request still holds.\<close>

definition held :: "('s, 'm) RaftorImpl \<Rightarrow> (nat + nat) multiset" where
  "held ri = outstanding (tracker_of ri) + image_mset Inl (queued (ri_proposal_queue ri)) + image_mset Inr (queued (ri_read_index_queue ri))"

definition accounted :: "('s, 'm) RaftorImpl \<Rightarrow> (nat + nat) multiset" where
  "accounted ri = called (rp_calls (ri_processor ri)) + held ri"

definition preserves :: "nat \<Rightarrow> ('s, 'm) RaftorImpl \<Rightarrow> ('s, 'm) RaftorImpl \<Rightarrow> bool" where
  "preserves k ri ri' \<longleftrightarrow> (raftor_inv k ri \<longrightarrow> raftor_inv k ri' \<and> accounted ri' = accounted ri)"

lemmas preserves_defs = preserves_def raftor_inv_def accounted_def held_def

lemma preserves_refl [simp]: "preserves k ri ri"
  by (simp add: preserves_def)

lemma preserves_trans [trans]: "preserves k ri ri1 \<Longrightarrow> preserves k ri1 ri2 \<Longrightarrow> preserves k ri ri2"
  by (simp add: preserves_def)

lemma contexts_empty: "contexts t = {} \<longleftrightarrow> tr_proposals t = [] \<and> tr_reads t = []"
  by (auto simp: contexts_def)

lemma contexts_empty_outstanding: "contexts t = {} \<Longrightarrow> outstanding t = {#}"
  by (simp add: contexts_empty outstanding_def)

text \<open>A change of the processor that only settles requests, together with fields that play no part in the accounting.\<close>

lemma preserves_processor:
  assumes "advances P (ri_processor ri) (ri_processor ri')" "ri_config ri' = ri_config ri" "ri_proposal_queue ri' = ri_proposal_queue ri"
    "ri_read_index_queue ri' = ri_read_index_queue ri" "ri_proposal_counter ri' = ri_proposal_counter ri" "ri_running ri' = ri_running ri"
  shows "preserves k ri ri'"
  unfolding preserves_def
proof
  assume inv: "raftor_inv k ri"
  then obtain cs where cs: "rp_calls (ri_processor ri') = rp_calls (ri_processor ri) @ cs" "settles (tracker_of ri) (cs, tracker_of ri')"
    using assms(1) by (auto simp: raftor_inv_def advances_def)
  then have "contexts (tracker_of ri') \<subseteq> contexts (tracker_of ri)" "outstanding (tracker_of ri) = called cs + outstanding (tracker_of ri')"
    "tracker_wf (tracker_of ri')" by (auto simp: settles_def contexts_def)
  then show "raftor_inv k ri' \<and> accounted ri' = accounted ri"
    using inv assms(2-6) cs(1) by (auto simp: raftor_inv_def accounted_def held_def)
qed

lemma preserves_in_processor: "(\<And>rp. advances P rp (f rp)) \<Longrightarrow> preserves k ri (in_processor f ri)"
  by (rule preserves_processor) (simp_all add: in_processor_def)


lemma node_advances: "on_node f rp = Some (y, rp') \<Longrightarrow> advances P rp rp'"
  by (auto simp: on_node_def intro!: advances_same split: Option.bind_splits)

lemma preserves_on_processor:
  "on_processor f ri = Some (x, ri') \<Longrightarrow> (\<And>y rp'. f (ri_processor ri) = Some (y, rp') \<Longrightarrow> advances P (ri_processor ri) rp') \<Longrightarrow> preserves k ri ri'"
  by (rule preserves_processor [of P]) (auto simp: on_processor_def split: Option.bind_splits)

lemma preserves_on_node: "on_processor (on_node f) ri = Some (x, ri') \<Longrightarrow> preserves k ri ri'"
  by (erule preserves_on_processor) (rule node_advances)

lemma preserves_Now: "RaftorImpl_Now W ri = (now, ri') \<Longrightarrow> preserves k ri ri'"
  by (rule preserves_processor) (auto simp: RaftorImpl_Now_def)

lemma processor_frame:
  "on_processor f ri = Some (x, ri') \<Longrightarrow> ri_proposal_queue ri' = ri_proposal_queue ri \<and> ri_read_index_queue ri' = ri_read_index_queue ri \<and>
     ri_running ri' = ri_running ri"
  by (auto simp: on_processor_def split: Option.bind_splits)

lemma fresh_context:
  assumes "raftor_inv k ri"
  shows "context_of (rc_node_id (ri_config ri)) (unat (ri_proposal_counter ri)) \<notin> contexts (tracker_of ri)"
  using assms by (auto simp: raftor_inv_def context_of_inj)

text \<open>Taking a request off a queue and tracking it under a new context.\<close>

lemma counter_next: "raftor_inv k ri \<Longrightarrow> k < 2 ^ 64 \<Longrightarrow> ri_proposal_queue ri \<noteq> [] \<or> ri_read_index_queue ri \<noteq> [] \<Longrightarrow>
   unat (ri_proposal_counter ri + 1) = Suc (unat (ri_proposal_counter ri))"
proof -
  assume a: "raftor_inv k ri" "k < 2 ^ 64" "ri_proposal_queue ri \<noteq> [] \<or> ri_read_index_queue ri \<noteq> []"
  then have "0 < length (ri_proposal_queue ri) + length (ri_read_index_queue ri)" by auto
  moreover have "unat (ri_proposal_counter ri) + length (ri_proposal_queue ri) + length (ri_read_index_queue ri) \<le> k"
    using a(1) by (simp add: raftor_inv_def)
  ultimately have "unat (ri_proposal_counter ri) + 1 < 2 ^ 64" using a(2) by linarith
  then show ?thesis using unat_add_u64 [of "ri_proposal_counter ri" 1] by simp
qed

lemma track_proposal:
  assumes inv: "raftor_inv k ri" and q: "ri_proposal_queue ri = item # q" and k: "k < 2 ^ 64"
    and ri': "ri_processor ri' = (ri_processor ri)\<lparr>rp_proposal_tracker :=
      ProposalTracker_Track now (context_of (rc_node_id (ri_config ri)) (unat (ri_proposal_counter ri))) (qi_callback item) timeout (tracker_of ri)\<rparr>"
    "ri_config ri' = ri_config ri" "ri_proposal_queue ri' = q" "ri_read_index_queue ri' = ri_read_index_queue ri"
    "ri_proposal_counter ri' = ri_proposal_counter ri + 1" "ri_running ri' = ri_running ri"
  shows "raftor_inv k ri' \<and> accounted ri' = accounted ri"
proof -
  let ?c = "context_of (rc_node_id (ri_config ri)) (unat (ri_proposal_counter ri))"
  have wf: "tracker_wf (tracker_of ri)" using inv by (simp add: raftor_inv_def)
  have new: "?c \<notin> set (map fst (tr_proposals (tracker_of ri)))" using fresh_context [OF inv] by (simp add: contexts_def)
  note t = Track_outstanding [OF wf new, of now "qi_callback item" timeout]
  have "contexts (tracker_of ri') = insert ?c (contexts (tracker_of ri))"
    using ri'(1) by (auto simp: contexts_def ProposalTracker_Track_def dom_update)
  moreover have n: "unat (ri_proposal_counter ri + 1) = Suc (unat (ri_proposal_counter ri))"
    using counter_next [OF inv k] q by simp
  moreover have "ri_running ri" using inv q by (auto simp: raftor_inv_def)
  ultimately have "raftor_inv k ri'"
    using inv q t(2) ri' by (auto simp: raftor_inv_def lessThan_Suc)
  moreover have "accounted ri' = accounted ri"
    using ri' t(1) q by (simp add: accounted_def held_def)
  ultimately show ?thesis ..
qed

lemma track_read:
  assumes inv: "raftor_inv k ri" and q: "ri_read_index_queue ri = item # q" and k: "k < 2 ^ 64"
    and track: "ProposalTracker_TrackRead now (context_of (rc_node_id (ri_config ri)) (unat (ri_proposal_counter ri))) (qi_callback item) timeout (tracker_of ri) = Some t"
    and ri': "ri_processor ri' = (ri_processor ri)\<lparr>rp_proposal_tracker := t\<rparr>"
    "ri_config ri' = ri_config ri" "ri_proposal_queue ri' = ri_proposal_queue ri" "ri_read_index_queue ri' = q"
    "ri_proposal_counter ri' = ri_proposal_counter ri + 1" "ri_running ri' = ri_running ri"
  shows "raftor_inv k ri' \<and> accounted ri' = accounted ri"
proof -
  let ?c = "context_of (rc_node_id (ri_config ri)) (unat (ri_proposal_counter ri))"
  have wf: "tracker_wf (tracker_of ri)" using inv by (simp add: raftor_inv_def)
  note t = TrackRead_outstanding [OF wf track]
  have "contexts t = insert ?c (contexts (tracker_of ri))"
    using track by (auto simp: contexts_def ProposalTracker_TrackRead_def split: Option.bind_splits)
  moreover have n: "unat (ri_proposal_counter ri + 1) = Suc (unat (ri_proposal_counter ri))"
    using counter_next [OF inv k] q by simp
  moreover have "ri_running ri" using inv q by (auto simp: raftor_inv_def)
  ultimately have "raftor_inv k ri'"
    using inv q t(2) ri' by (auto simp: raftor_inv_def lessThan_Suc)
  moreover have "accounted ri' = accounted ri"
    using ri' t(1) q by (simp add: accounted_def held_def)
  ultimately show ?thesis ..
qed

lemma reject_proposal:
  assumes "raftor_inv k ri" "ri_proposal_queue ri = item # q"
  shows "raftor_inv k (make_calls (call_proposal (qi_callback item) r) (ri\<lparr>ri_proposal_queue := q\<rparr>)) \<and>
    accounted (make_calls (call_proposal (qi_callback item) r) (ri\<lparr>ri_proposal_queue := q\<rparr>)) = accounted ri"
  using assms by (auto simp: raftor_inv_def accounted_def held_def make_calls_def in_processor_def)

lemma reject_read:
  assumes "raftor_inv k ri" "ri_read_index_queue ri = item # q"
  shows "raftor_inv k (make_calls (call_read (qi_callback item) r) (ri\<lparr>ri_read_index_queue := q\<rparr>)) \<and>
    accounted (make_calls (call_read (qi_callback item) r) (ri\<lparr>ri_read_index_queue := q\<rparr>)) = accounted ri"
  using assms by (auto simp: raftor_inv_def accounted_def held_def make_calls_def in_processor_def)

text \<open>One item of each queue.\<close>

lemma generate_context:
  "RaftorImpl_GenerateProposalContext ri =
     (context_of (rc_node_id (ri_config ri)) (unat (ri_proposal_counter ri)), ri\<lparr>ri_proposal_counter := ri_proposal_counter ri + 1\<rparr>)"
  by (simp add: RaftorImpl_GenerateProposalContext_def context_of_def)

lemma process_proposal_ok:
  assumes run: "process_proposal W item (ri\<lparr>ri_proposal_queue := q\<rparr>) = Some ri'" and inv: "raftor_inv k ri"
    and q: "ri_proposal_queue ri = item # q" and k: "k < 2 ^ 64"
  shows "raftor_inv k ri' \<and> accounted ri' = accounted ri" "ri_proposal_queue ri' = q"
proof -
  let ?ri = "ri\<lparr>ri_proposal_queue := q\<rparr>"
  have "raftor_inv k ri' \<and> accounted ri' = accounted ri \<and> ri_proposal_queue ri' = q"
  proof (cases "RaftorImpl_GetRequestRejectionError ?ri")
    case (Some e)
    then show ?thesis using run reject_proposal [OF inv q] by (auto simp: process_proposal_def make_calls_def in_processor_def)
  next
    case None
    let ?ctx = "context_of (rc_node_id (ri_config ri)) (unat (ri_proposal_counter ri))"
    define timeout where "timeout = (case qi_timeout item of Some t \<Rightarrow> t | None \<Rightarrow> rc_proposal_timeout (ri_config ?ri))"
    define ri1 where "ri1 = in_processor (\<lambda>rp. rp\<lparr>rp_proposal_tracker :=
        ProposalTracker_Track (rw_now W (ri_clock_readings ri)) ?ctx (qi_callback item) timeout (rp_proposal_tracker rp)\<rparr>)
      (snd (RaftorImpl_Now W (snd (RaftorImpl_GenerateProposalContext ?ri))))"
    note ri1_simps = ri1_def in_processor_def RaftorImpl_Now_def generate_context
    let ?after = "\<lambda>(r, ri). Some (case r of Inl e \<Rightarrow> in_processor (on_tracker (ProposalTracker_Fail ?ctx e)) ri | Inr _ \<Rightarrow> ri)"
    have eq: "process_proposal W item ?ri = Option.bind (on_processor (on_node (RawNode_Propose (re_env (rw_env W)) ?ctx (qi_data item))) ri1) ?after"
      by (simp add: process_proposal_def None generate_context RaftorImpl_Now_def ri1_def timeout_def)
    obtain r ri2 where ri2: "on_processor (on_node (RawNode_Propose (re_env (rw_env W)) ?ctx (qi_data item))) ri1 = Some (r, ri2)"
      and ri': "ri' = (case r of Inl e \<Rightarrow> in_processor (on_tracker (ProposalTracker_Fail ?ctx e)) ri2 | Inr _ \<Rightarrow> ri2)"
      using run unfolding eq by (auto split: Option.bind_splits)
    have a: "raftor_inv k ri1 \<and> accounted ri1 = accounted ri" by (rule track_proposal [OF inv q k]) (simp_all add: ri1_simps)
    have "preserves k ri1 ri'"
      unfolding ri' using preserves_on_node [OF ri2] preserves_trans [OF preserves_on_node [OF ri2] preserves_in_processor [OF advances_trackers(2)]]
      by (cases r) auto
    moreover have "ri_proposal_queue ri' = q" using processor_frame [OF ri2] ri' by (auto simp: ri1_simps split: sum.splits)
    ultimately show ?thesis using a by (simp add: preserves_def)
  qed
  then show "raftor_inv k ri' \<and> accounted ri' = accounted ri" "ri_proposal_queue ri' = q" by simp_all
qed

lemma advance_preserves: "advance_node f (ri_processor ri) = Some rp \<Longrightarrow> preserves k ri (ri\<lparr>ri_processor := rp\<rparr>)"
  by (rule preserves_processor [OF advances_advance_node]) simp_all

lemma process_read_ok:
  assumes run: "process_read W item (ri\<lparr>ri_read_index_queue := q\<rparr>) = Some ri'" and inv: "raftor_inv k ri"
    and q: "ri_read_index_queue ri = item # q" and k: "k < 2 ^ 64"
  shows "raftor_inv k ri' \<and> accounted ri' = accounted ri" "ri_read_index_queue ri' = q"
proof -
  let ?ri = "ri\<lparr>ri_read_index_queue := q\<rparr>"
  have "raftor_inv k ri' \<and> accounted ri' = accounted ri \<and> ri_read_index_queue ri' = q"
  proof (cases "RaftorImpl_GetRequestRejectionError ?ri")
    case (Some e)
    then show ?thesis using run reject_read [OF inv q] by (auto simp: process_read_def make_calls_def in_processor_def)
  next
    case None
    let ?ctx = "context_of (rc_node_id (ri_config ri)) (unat (ri_proposal_counter ri))"
    define timeout where "timeout = (case qi_timeout item of Some t \<Rightarrow> t | None \<Rightarrow> rc_read_index_timeout (ri_config ?ri))"
    let ?next = "snd (RaftorImpl_Now W (snd (RaftorImpl_GenerateProposalContext ?ri)))"
    have eq: "process_read W item ?ri = Option.bind (ProposalTracker_TrackRead (rw_now W (ri_clock_readings ri)) ?ctx (qi_callback item) timeout (tracker_of ri))
        (\<lambda>t. Option.bind (advance_node (RawNode_ReadIndex (re_env (rw_env W)) ?ctx) (ri_processor (in_processor (\<lambda>rp. rp\<lparr>rp_proposal_tracker := t\<rparr>) ?next)))
           (\<lambda>rp. Some ((in_processor (\<lambda>rp. rp\<lparr>rp_proposal_tracker := t\<rparr>) ?next)\<lparr>ri_processor := rp\<rparr>)))"
      by (simp add: process_read_def None generate_context RaftorImpl_Now_def timeout_def Let_def)
    obtain t rp where t: "ProposalTracker_TrackRead (rw_now W (ri_clock_readings ri)) ?ctx (qi_callback item) timeout (tracker_of ri) = Some t"
      and rp: "advance_node (RawNode_ReadIndex (re_env (rw_env W)) ?ctx) (ri_processor (in_processor (\<lambda>rp. rp\<lparr>rp_proposal_tracker := t\<rparr>) ?next)) = Some rp"
      and ri': "ri' = (in_processor (\<lambda>rp. rp\<lparr>rp_proposal_tracker := t\<rparr>) ?next)\<lparr>ri_processor := rp\<rparr>"
      using run unfolding eq by (auto split: Option.bind_splits)
    define ri1 where "ri1 = in_processor (\<lambda>rp. rp\<lparr>rp_proposal_tracker := t\<rparr>) ?next"
    note ri1_simps = ri1_def in_processor_def RaftorImpl_Now_def generate_context
    have a: "raftor_inv k ri1 \<and> accounted ri1 = accounted ri" by (rule track_read [OF inv q k t]) (simp_all add: ri1_simps)
    have "preserves k ri1 ri'" unfolding ri' ri1_def by (rule advance_preserves [OF rp])
    then show ?thesis using a by (simp add: preserves_def ri' ri1_simps)
  qed
  then show "raftor_inv k ri' \<and> accounted ri' = accounted ri" "ri_read_index_queue ri' = q" by simp_all
qed

lemma proposal_loop_ok:
  "proposal_loop W q ri = Some ri' \<Longrightarrow> ri_proposal_queue ri = q \<Longrightarrow> raftor_inv k ri \<Longrightarrow> k < 2 ^ 64 \<Longrightarrow>
     raftor_inv k ri' \<and> accounted ri' = accounted ri"
proof (induction q arbitrary: ri)
  case (Cons item q)
  then obtain ri1 where ri1: "process_proposal W item (ri\<lparr>ri_proposal_queue := q\<rparr>) = Some ri1" "proposal_loop W q ri1 = Some ri'"
    by (auto split: Option.bind_splits)
  note a = process_proposal_ok [OF ri1(1) Cons.prems(3,2,4)]
  show ?case using Cons.IH [OF ri1(2) a(2) _ Cons.prems(4)] a(1) by simp
qed simp

lemma read_loop_queue_ok:
  "read_loop_queue W q ri = Some ri' \<Longrightarrow> ri_read_index_queue ri = q \<Longrightarrow> raftor_inv k ri \<Longrightarrow> k < 2 ^ 64 \<Longrightarrow>
     raftor_inv k ri' \<and> accounted ri' = accounted ri"
proof (induction q arbitrary: ri)
  case (Cons item q)
  then obtain ri1 where ri1: "process_read W item (ri\<lparr>ri_read_index_queue := q\<rparr>) = Some ri1" "read_loop_queue W q ri1 = Some ri'"
    by (auto split: Option.bind_splits)
  note a = process_read_ok [OF ri1(1) Cons.prems(3,2,4)]
  show ?case using Cons.IH [OF ri1(2) a(2) _ Cons.prems(4)] a(1) by simp
qed simp

text \<open>Failing everything that waits leaves nothing behind.\<close>

lemma queued_calls:
  "called (concat (map (\<lambda>item. call_proposal (qi_callback item) r) q)) = image_mset Inl (queued q)"
  "called (concat (map (\<lambda>item. call_read (qi_callback item) u) q)) = image_mset Inr (queued q)"
  by (induction q) auto

lemma fail_all_requests_ok:
  assumes "raftor_inv k ri"
  shows "raftor_inv k ((fail_all_requests e ri)\<lparr>ri_running := b\<rparr>)" "accounted (fail_all_requests e ri) = accounted ri"
    "held (fail_all_requests e ri) = {#}"
proof -
  let ?t = "tracker_of ri"
  have wf: "tracker_wf ?t" using assms by (simp add: raftor_inv_def)
  have t: "tracker_of (fail_all_requests e ri) = \<lparr>tr_proposals = [], tr_reads = []\<rparr>"
    by (simp add: fail_all_requests_def in_processor_def emit_def on_tracker_def RaftorImpl_FailQueuedRequests_def make_calls_def
        ProposalTracker_FailAll_def ProposalTracker_FailAllReads_def)
  have frame: "ri_proposal_queue (fail_all_requests e ri) = []" "ri_read_index_queue (fail_all_requests e ri) = []"
    "ri_proposal_counter (fail_all_requests e ri) = ri_proposal_counter ri" "ri_config (fail_all_requests e ri) = ri_config ri"
    by (simp_all add: fail_all_requests_def in_processor_def RaftorImpl_FailQueuedRequests_def make_calls_def)
  have c: "called (rp_calls (ri_processor (fail_all_requests e ri))) = accounted ri"
    by (simp add: fail_all_requests_def in_processor_def emit_def on_tracker_def RaftorImpl_FailQueuedRequests_def make_calls_def
        ProposalTracker_FailAll_def ProposalTracker_FailAllReads_def called_all queued_calls accounted_def held_def outstanding_def ac_simps)
  show "held (fail_all_requests e ri) = {#}" by (simp add: held_def t frame outstanding_def)
  then show "accounted (fail_all_requests e ri) = accounted ri" using c by (simp add: accounted_def)
  show "raftor_inv k ((fail_all_requests e ri)\<lparr>ri_running := b\<rparr>)"
    using assms by (simp add: raftor_inv_def t frame contexts_def tracker_wf_def)
qed

text \<open>The other parts of an iteration.\<close>

lemma preserves_status: "preserves k ri (RaftorImpl_RefreshStatus ri)"
  by (rule preserves_processor) (auto simp: RaftorImpl_RefreshStatus_def Let_def)

lemma preserves_timeouts: "preserves k ri (RaftorImpl_ProcessTimeouts W ri)"
  by (rule preserves_processor) (auto simp: RaftorImpl_ProcessTimeouts_def RaftorImpl_Now_def in_processor_def intro: advances_trackers)

lemma preserves_terminal:
  assumes "raftor_inv k ri"
  shows "raftor_inv k (RaftorImpl_EnterTerminalState e ri) \<and> accounted (RaftorImpl_EnterTerminalState e ri) = accounted ri"
proof (cases "ri_terminal_error ri")
  case None
  let ?ri = "ri\<lparr>ri_terminal_error := Some e, ri_started := False\<rparr>"
  have a: "raftor_inv k ?ri" "accounted ?ri = accounted ri" using assms by (simp_all add: raftor_inv_def accounted_def held_def)
  have e: "RaftorImpl_EnterTerminalState e ri = (fail_all_requests e ?ri)\<lparr>ri_running := False\<rparr>"
    using None by (simp add: RaftorImpl_EnterTerminalState_def fail_all_requests_def in_processor_def RaftorImpl_FailQueuedRequests_def make_calls_def)
  have "accounted ((fail_all_requests e ?ri)\<lparr>ri_running := False\<rparr>) = accounted (fail_all_requests e ?ri)"
    by (simp add: accounted_def held_def)
  then show ?thesis unfolding e using fail_all_requests_ok(1,2) [OF a(1)] a(2) by simp
next
  case (Some x)
  then show ?thesis using assms by (simp add: RaftorImpl_EnterTerminalState_def)
qed

lemma preserves_stop:
  assumes "raftor_inv k ri"
  shows "raftor_inv k (RaftorImpl_Stop ri) \<and> accounted (RaftorImpl_Stop ri) = accounted ri"
proof (cases "ri_running ri")
  case True
  let ?e = "RaftError ShuttingDown"
  have e: "RaftorImpl_Stop ri = (fail_all_requests ?e ri)\<lparr>ri_running := False, ri_started := False\<rparr>"
    using True by (simp add: RaftorImpl_Stop_def fail_all_requests_def in_processor_def RaftorImpl_FailQueuedRequests_def make_calls_def)
  have "accounted (RaftorImpl_Stop ri) = accounted (fail_all_requests ?e ri)"
    "raftor_inv k (RaftorImpl_Stop ri) = raftor_inv k ((fail_all_requests ?e ri)\<lparr>ri_running := False\<rparr>)"
    unfolding e by (simp_all add: accounted_def held_def raftor_inv_def)
  then show ?thesis using fail_all_requests_ok(1,2) [OF assms] by simp
next
  case False
  then show ?thesis using assms by (simp add: RaftorImpl_Stop_def)
qed

lemma preserves_TakeSnapshot: "RaftorImpl_TakeSnapshot W ri = Some (r, ri') \<Longrightarrow> preserves k ri ri'"
proof -
  assume run: "RaftorImpl_TakeSnapshot W ri = Some (r, ri')"
  have "advances (\<lambda>_. True) (ri_processor ri) (ri_processor ri') \<and> ri_config ri' = ri_config ri \<and> ri_proposal_queue ri' = ri_proposal_queue ri \<and>
    ri_read_index_queue ri' = ri_read_index_queue ri \<and> ri_proposal_counter ri' = ri_proposal_counter ri \<and> ri_running ri' = ri_running ri"
  proof (cases "so_InitialState (raftor_storage W) (raftor_store ri)")
    case (Inl e)
    then show ?thesis using run by (simp add: RaftorImpl_TakeSnapshot_def Let_def)
  next
    case (Inr st)
    obtain tr where tr: "so_Term (raftor_storage W) (rp_applied_index (ri_processor ri)) (raftor_store ri) = Some tr"
      using run Inr by (auto simp: RaftorImpl_TakeSnapshot_def Let_def split: Option.bind_splits)
    show ?thesis
    proof (cases tr)
      case (Inl e)
      then show ?thesis using run Inr tr by (simp add: RaftorImpl_TakeSnapshot_def Let_def)
    next
      case trm: (Inr trm)
      obtain built m where b: "build_snapshot (rw_env W) (rw_temp_file W (ri_temp_files ri)) (rp_applied_index (ri_processor ri)) trm
                    (rs_conf_state st) (rp_state_machine (ri_processor ri)) = (built, m)" by force
      define ri1 where "ri1 = in_processor (\<lambda>rp. rp\<lparr>rp_state_machine := m\<rparr>) (ri\<lparr>ri_temp_files := Suc (ri_temp_files ri)\<rparr>)"
      have a: "advances (\<lambda>_. True) (ri_processor ri) (ri_processor ri1)"
        unfolding ri1_def in_processor_def by (rule advances_same) simp_all
      let ?ai = "rp_applied_index (ri_processor ri)"
      have run1: "(case built of
                Inl e \<Rightarrow> Some (Inl e, ri1)
              | Inr sn \<Rightarrow> do {
                  (r, ri) \<leftarrow> on_processor (on_store (wo_ApplyLocalSnapshot (re_storage (rw_env W)) sn) (StoredSnapshot sn)) ri1;
                  Some (case r of
                          Inl e \<Rightarrow> (Inl e, ri)
                        | Inr _ \<Rightarrow>
                            let (now, ri) = RaftorImpl_Now W ri
                            in (Inr (), ri\<lparr>ri_last_snapshot_time := now, ri_last_snapshot_attempt_index := ?ai\<rparr>))
                }) = Some (r, ri')"
        using run Inr tr trm b unfolding ri1_def RaftorImpl_TakeSnapshot_def Let_def by simp
      show ?thesis
      proof (cases built)
        case (Inl e)
        then show ?thesis using run1 a by (auto simp: ri1_def in_processor_def)
      next
        case sn: (Inr sn)
        obtain x rp where rp: "on_store (wo_ApplyLocalSnapshot (re_storage (rw_env W)) sn) (StoredSnapshot sn) (ri_processor ri1) = Some (x, rp)"
          using run1 sn by (auto simp: on_processor_def split: Option.bind_splits)
        have "advances (\<lambda>_. True) (ri_processor ri1) rp" by (rule rp_keepsD [OF keeps_on_store rp]) simp
        with a have "advances (\<lambda>_. True) (ri_processor ri) rp" by (rule advances_trans)
        then show ?thesis using run1 sn rp by (auto simp: on_processor_def RaftorImpl_Now_def ri1_def in_processor_def split: sum.splits)
      qed
    qed
  qed
  then show "preserves k ri ri'" by (intro preserves_processor [of "\<lambda>_. True"]) auto
qed

lemma preserves_auto_snapshot: "RaftorImpl_MaybeAutoSnapshot W ri = Some ri' \<Longrightarrow> preserves k ri ri'"
proof -
  assume run: "RaftorImpl_MaybeAutoSnapshot W ri = Some ri'"
  let ?ai = "rp_applied_index (ri_processor ri)"
  obtain now ri1 where now: "RaftorImpl_Now W ri = (now, ri1)" by force
  have due: "preserves k ri ri2" if "auto_snapshot_due W ?ai si now ri1 = (d, ri2)" for d ri2 si
    using that now by (intro preserves_processor) (auto simp: auto_snapshot_due_def RaftorImpl_Now_def Let_def split: if_splits)
  have same: "preserves k q (q\<lparr>ri_last_snapshot_attempt_index := x, ri_last_snapshot_attempt_time := y\<rparr>)" for q :: "('a, 'b) RaftorImpl" and x y
    by (rule preserves_processor) auto
  show "preserves k ri ri'"
  proof (cases "so_FirstIndex (raftor_storage W) (raftor_store ri)")
    case (Inl e)
    then show ?thesis using run by (simp add: RaftorImpl_MaybeAutoSnapshot_def Let_def split: if_splits)
  next
    case (Inr first_index)
    define si where "si = (if 0 < first_index then first_index - 1 else 0)"
    obtain d ri2 where d: "auto_snapshot_due W ?ai si now ri1 = (d, ri2)" by force
    have "ri' = ri \<or> ri' = ri2 \<or> (\<exists>r. RaftorImpl_TakeSnapshot W (ri2\<lparr>ri_last_snapshot_attempt_index := ?ai, ri_last_snapshot_attempt_time := now\<rparr>) = Some (r, ri'))"
      using run Inr now d unfolding RaftorImpl_MaybeAutoSnapshot_def Let_def si_def [symmetric]
      by (auto simp: si_def [symmetric] split: if_splits Option.bind_splits)
    then show ?thesis
      using due [OF d] preserves_trans [OF due [OF d] preserves_trans [OF same preserves_TakeSnapshot]] by auto
  qed
qed

lemma preserves_tick: "tick_node W ri = Some (b, ri') \<Longrightarrow> preserves k ri ri'"
proof -
  assume "tick_node W ri = Some (b, ri')"
  then obtain ri1 where ri1: "on_processor (on_node (RawNode_Tick (re_env (rw_env W)))) ri = Some (b, ri1)"
    and ri': "ri' = (snd (RaftorImpl_Now W ri1))\<lparr>ri_last_tick := fst (RaftorImpl_Now W ri1)\<rparr>"
    by (auto simp: tick_node_def split: Option.bind_splits prod.splits)
  have "preserves k ri1 ri'" unfolding ri' by (rule preserves_processor) (auto simp: RaftorImpl_Now_def)
  with preserves_on_node [OF ri1] show "preserves k ri ri'" by (rule preserves_trans)
qed

lemma preserves_poll: "poll_transport W evs ri = Some ri' \<Longrightarrow> preserves k ri ri'"
proof (induction W evs ri rule: poll_transport.induct)
  case (2 W m evs ri)
  then obtain ri1 where ri1: "RaftorImpl_OnMessage W m ri = Some ri1" "poll_transport W evs ri1 = Some ri'" by (auto split: Option.bind_splits)
  have "preserves k ri ri1" using ri1(1) by (auto simp: RaftorImpl_OnMessage_def split: Option.bind_splits intro: preserves_on_node)
  then show ?case using "2.IH" [OF ri1] by (rule preserves_trans)
next
  case (3 W p evs ri)
  then obtain ri1 where ri1: "RaftorImpl_OnPeerError W p ri = Some ri1" "poll_transport W evs ri1 = Some ri'" by (auto split: Option.bind_splits)
  obtain rp where rp: "advance_node (RawNode_ReportUnreachable (re_env (rw_env W)) p) (ri_processor ri) = Some rp"
    and r: "ri1 = ri\<lparr>ri_processor := rp\<lparr>rp_state_machine := ma_OnPeerUnreachable (re_machine (rw_env W)) p (rp_state_machine rp)\<rparr>\<rparr>"
    using ri1(1) by (auto simp: RaftorImpl_OnPeerError_def split: Option.bind_splits)
  have "preserves k ri ri1"
    unfolding r by (rule preserves_processor [OF advances_trans [OF advances_advance_node [OF rp, of "\<lambda>_. True"] advances_same]]) auto
  then show ?case using "3.IH" [OF ri1] by (rule preserves_trans)
qed simp

lemma ProcessRaftWork_ok:
  assumes run: "RaftorImpl_ProcessRaftWork W ri = Some ri'" and inv: "raftor_inv k ri" and k: "k < 2 ^ 64"
  shows "raftor_inv k ri' \<and> accounted ri' = accounted ri"
proof -
  obtain ri1 r ri2 where ri1: "RaftorImpl_ProcessProposalQueue W ri = Some ri1"
    and ri2: "on_processor (ReadyProcessor_Process (rw_env W)) ri1 = Some (r, ri2)"
    and rest: "(if r = Inl (RaftError ChecksumMismatch)
       then Some (RaftorImpl_RefreshStatus (RaftorImpl_EnterTerminalState (RaftError ChecksumMismatch) ri2))
       else do { ri \<leftarrow> RaftorImpl_ProcessReadIndexQueue W ri2;
                 ri \<leftarrow> RaftorImpl_MaybeAutoSnapshot W (RaftorImpl_ProcessTimeouts W ri);
                 Some (RaftorImpl_RefreshStatus ri) }) = Some ri'"
    using run by (auto simp: RaftorImpl_ProcessRaftWork_def split: Option.bind_splits)
  have a: "raftor_inv k ri1 \<and> accounted ri1 = accounted ri"
    using proposal_loop_ok [OF ri1 [unfolded RaftorImpl_ProcessProposalQueue_def] refl inv k] .
  have "preserves k ri1 ri2" by (rule preserves_on_processor [OF ri2]) (rule rp_keepsD [OF keeps_Process])
  with a have b: "raftor_inv k ri2" "accounted ri2 = accounted ri" by (simp_all add: preserves_def)
  show ?thesis
  proof (cases "r = Inl (RaftError ChecksumMismatch)")
    case True
    then have "ri' = RaftorImpl_RefreshStatus (RaftorImpl_EnterTerminalState (RaftError ChecksumMismatch) ri2)" using rest by simp
    then show ?thesis
      using preserves_terminal [OF b(1), of "RaftError ChecksumMismatch"] b(2)
        preserves_status [of k "RaftorImpl_EnterTerminalState (RaftError ChecksumMismatch) ri2"] by (simp add: preserves_def)
  next
    case False
    then obtain ri3 ri4 where ri3: "RaftorImpl_ProcessReadIndexQueue W ri2 = Some ri3"
      and ri4: "RaftorImpl_MaybeAutoSnapshot W (RaftorImpl_ProcessTimeouts W ri3) = Some ri4" and ri': "ri' = RaftorImpl_RefreshStatus ri4"
      using rest by (auto split: Option.bind_splits)
    have c: "raftor_inv k ri3 \<and> accounted ri3 = accounted ri2"
      using read_loop_queue_ok [OF ri3 [unfolded RaftorImpl_ProcessReadIndexQueue_def] refl b(1) k] .
    have "preserves k ri3 ri'"
      unfolding ri' by (rule preserves_trans [OF preserves_timeouts preserves_trans [OF preserves_auto_snapshot [OF ri4] preserves_status]])
    then show ?thesis using c b(2) by (simp add: preserves_def)
  qed
qed

lemma preserves_start: "preserves k ri (snd (RaftorImpl_Start W r ri))"
proof (cases "ri_running ri")
  case True
  show ?thesis
    by (rule preserves_processor [of "\<lambda>_. True"])
      (use True in \<open>auto simp: RaftorImpl_Start_def RaftorImpl_InitializeSnapshotState_def RaftorImpl_Now_def in_processor_def Let_def
        intro: advances_emit split: option.splits sum.splits\<close>)
next
  case False
  show ?thesis
    using False by (auto simp: preserves_def raftor_inv_def accounted_def held_def RaftorImpl_Start_def RaftorImpl_InitializeSnapshotState_def
        RaftorImpl_Now_def in_processor_def emit_def Let_def split: option.splits sum.splits)
qed

text \<open>What a call submits.\<close>

fun submitted_by :: "raftor_call \<Rightarrow> (nat + nat) multiset" where
  "submitted_by (CallPropose _ cb) = image_mset Inl (holds_of cb)"
| "submitted_by (CallReadIndex _ cb) = image_mset Inr (holds_of cb)"
| "submitted_by _ = {#}"

definition submitted :: "raftor_call list \<Rightarrow> (nat + nat) multiset" where
  "submitted cs = \<Sum>\<^sub># (mset (map submitted_by cs))"

lemma raftor_inv_mono: "raftor_inv k ri \<Longrightarrow> raftor_inv (Suc k) ri"
  by (simp add: raftor_inv_def)

lemma enqueue_ok:
  assumes "raftor_inv k ri"
  shows "raftor_inv (Suc k) (RaftorImpl_Propose data cb ri) \<and> accounted (RaftorImpl_Propose data cb ri) = image_mset Inl (holds_of cb) + accounted ri"
    "raftor_inv (Suc k) (RaftorImpl_ReadIndex ctx cb ri) \<and> accounted (RaftorImpl_ReadIndex ctx cb ri) = image_mset Inr (holds_of cb) + accounted ri"
  using assms
  by (auto simp: RaftorImpl_Propose_def RaftorImpl_EnqueueProposal_def RaftorImpl_ReadIndex_def RaftorImpl_EnqueueReadIndex_def
      RaftorImpl_GetRequestRejectionError_def ProposalQueue_Push_def ReadIndexQueue_Push_def make_calls_def in_processor_def
      raftor_inv_def accounted_def held_def split: option.splits)

lemma generate_ok:
  assumes inv: "raftor_inv k ri" and k: "Suc k < 2 ^ 64"
  shows "raftor_inv (Suc k) (snd (RaftorImpl_GenerateProposalContext ri)) \<and> accounted (snd (RaftorImpl_GenerateProposalContext ri)) = accounted ri"
proof -
  have le: "unat (ri_proposal_counter ri) \<le> k" using inv by (auto simp: raftor_inv_def)
  then have "unat (ri_proposal_counter ri) + 1 < 2 ^ 64" using k by linarith
  then have "unat (ri_proposal_counter ri + 1) = Suc (unat (ri_proposal_counter ri))"
    using unat_add_u64 [of "ri_proposal_counter ri" 1] by simp
  then show ?thesis
    using inv by (auto simp: raftor_inv_def accounted_def held_def generate_context lessThan_Suc)
qed

lemma preservesD: "preserves k ri ri' \<Longrightarrow> raftor_inv k ri \<Longrightarrow> raftor_inv k ri' \<and> accounted ri' = accounted ri"
  by (simp add: preserves_def)

lemma propose_change_ok:
  assumes "propose_change W cc ri = Some (r, ri')" "raftor_inv k ri" "Suc k < 2 ^ 64"
  shows "raftor_inv (Suc k) ri' \<and> accounted ri' = accounted ri"
  using assms(1) preservesD [OF preserves_on_node] generate_ok [OF assms(2,3)]
  by (fastforce simp: propose_change_def split: prod.splits)

lemma update_address_ok:
  assumes run: "RaftorImpl_UpdateNodeAddress W i addr ri = Some (r, ri')" and inv: "raftor_inv k ri" and k: "Suc k < 2 ^ 64"
  shows "raftor_inv (Suc k) ri' \<and> accounted ri' = accounted ri"
proof -
  have "ri' = ri \<or> (\<exists>ctx data. on_processor (on_node (RawNode_Propose (re_env (rw_env W)) ctx data)) (snd (RaftorImpl_GenerateProposalContext ri)) = Some (r, ri'))"
    using run by (auto simp: RaftorImpl_UpdateNodeAddress_def Let_def split: if_splits sum.splits prod.splits)
  then show ?thesis
    using raftor_inv_mono [OF inv] preservesD [OF preserves_on_node] generate_ok [OF inv k] by fastforce
qed

lemma raftor_do_ok:
  assumes run: "raftor_do W c ri = Some ri'" and inv: "raftor_inv k ri" and k: "Suc k < 2 ^ 64"
  shows "raftor_inv (Suc k) ri' \<and> accounted ri' = submitted_by c + accounted ri"
proof -
  have k': "k < 2 ^ 64" using k by linarith
  have keep: "raftor_inv (Suc k) q \<and> accounted q = accounted ri" if "raftor_inv k q \<and> accounted q = accounted ri" for q
    using that raftor_inv_mono by blast
  have pres: "raftor_inv (Suc k) q \<and> accounted q = accounted ri" if "preserves k ri q" for q
    by (rule keep [OF preservesD [OF that inv]])
  show ?thesis
  proof (cases c)
    case (CallStart r)
    then show ?thesis using run pres [OF preserves_start] by auto
  next
    case CallStop
    then show ?thesis using run keep [OF preserves_stop [OF inv]] by auto
  next
    case (CallPoll evs)
    show ?thesis
    proof (cases "ri_running ri")
      case False
      then show ?thesis using run CallPoll keep [of ri] inv by (auto simp: RaftorImpl_EventLoopIteration_def)
    next
      case True
      then obtain ri1 ri2 where ri1: "poll_transport W evs ri = Some ri1"
        and ri2: "(if fst (RaftorImpl_ShouldTick W ri1) then map_option snd (tick_node W (snd (RaftorImpl_ShouldTick W ri1)))
          else Some (snd (RaftorImpl_ShouldTick W ri1))) = Some ri2"
        and ri': "RaftorImpl_ProcessRaftWork W ri2 = Some ri'"
        using run CallPoll by (auto simp: RaftorImpl_EventLoopIteration_def split: Option.bind_splits prod.splits if_splits)
      have "preserves k ri1 (snd (RaftorImpl_ShouldTick W ri1))"
        by (rule preserves_processor) (auto simp: RaftorImpl_ShouldTick_def RaftorImpl_Now_def)
      then have "preserves k ri1 ri2" using ri2 by (auto split: if_splits intro: preserves_trans preserves_tick)
      then have "preserves k ri ri2" by (rule preserves_trans [OF preserves_poll [OF ri1]])
      then have b: "raftor_inv k ri2 \<and> accounted ri2 = accounted ri" using inv by (rule preservesD)
      show ?thesis using keep [of ri'] ProcessRaftWork_ok [OF ri' conjunct1 [OF b] k'] b CallPoll by simp
    qed
  next
    case CallTick
    show ?thesis
    proof (cases "ri_running ri")
      case False
      then show ?thesis using run CallTick keep [of ri] inv by (auto simp: RaftorImpl_Tick_def)
    next
      case True
      then obtain b ri1 where ri1: "tick_node W ri = Some (b, ri1)" and ri': "RaftorImpl_ProcessRaftWork W ri1 = Some ri'"
        using run CallTick by (auto simp: RaftorImpl_Tick_def split: Option.bind_splits)
      have b: "raftor_inv k ri1 \<and> accounted ri1 = accounted ri" by (rule preservesD [OF preserves_tick [OF ri1] inv])
      show ?thesis using keep [of ri'] ProcessRaftWork_ok [OF ri' conjunct1 [OF b] k'] b CallTick by simp
    qed
  next
    case (CallPropose data cb)
    then show ?thesis using run enqueue_ok(1) [OF inv] by auto
  next
    case (CallReadIndex ctx cb)
    then show ?thesis using run enqueue_ok(2) [OF inv] by auto
  next
    case (CallAddNode i addr)
    then show ?thesis using run propose_change_ok [OF _ inv k] by (auto simp: RaftorImpl_AddNode_def)
  next
    case (CallRemoveNode i)
    then show ?thesis using run propose_change_ok [OF _ inv k] by (auto simp: RaftorImpl_RemoveNode_def)
  next
    case (CallUpdateNodeAddress i addr)
    then show ?thesis using run update_address_ok [OF _ inv k] by auto
  next
    case (CallTransferLeader i)
    then show ?thesis using run pres [OF advance_preserves] by (auto simp: RaftorImpl_TransferLeader_def split: Option.bind_splits)
  next
    case CallCampaign
    then obtain r where "on_processor (on_node (RawNode_Campaign (re_env (rw_env W)))) ri = Some (r, ri')"
      using run by (auto simp: RaftorImpl_Campaign_def)
    from pres [OF preserves_on_node [OF this]] show ?thesis using CallCampaign by simp
  next
    case CallTakeSnapshot
    then show ?thesis using run pres [OF preserves_TakeSnapshot] by auto
  qed
qed

lemma raftor_run_ok:
  "raftor_run W cs ri = Some ri' \<Longrightarrow> raftor_inv k ri \<Longrightarrow> k + length cs < 2 ^ 64 \<Longrightarrow>
     raftor_inv (k + length cs) ri' \<and> accounted ri' = submitted cs + accounted ri"
proof (induction cs arbitrary: k ri)
  case (Cons c cs)
  then obtain ri1 where ri1: "raftor_do W c ri = Some ri1" "raftor_run W cs ri1 = Some ri'" by (auto split: Option.bind_splits)
  have "Suc k < 2 ^ 64" using Cons.prems(3) by (simp only: length_Cons)
  note a = raftor_do_ok [OF ri1(1) Cons.prems(2) this]
  have "Suc k + length cs < 2 ^ 64" using Cons.prems(3) by (simp only: length_Cons add_Suc add_Suc_right)
  from Cons.IH [OF ri1(2) conjunct1 [OF a] this] a show ?case by (simp add: submitted_def ac_simps)
qed (simp add: submitted_def)

lemma add_peers_keeps:
  "rp_calls (add_peers i ps rp) = rp_calls rp" "rp_proposal_tracker (add_peers i ps rp) = rp_proposal_tracker rp"
  by (induction ps arbitrary: rp) (auto simp: add_peers_def emit_def)

lemma create_inv:
  assumes "Raftor_Create R c m storage draws = Some (Inr ri)"
  shows "raftor_inv 0 ri \<and> accounted ri = {#}"
proof -
  obtain m' s applied where "RaftorImpl_new R c m' s applied draws = Some ri"
    using assms by (auto simp: Raftor_Create_def split: sum.splits option.splits Option.bind_splits prod.splits)
  then show ?thesis
    by (auto simp: RaftorImpl_new_def RaftorImpl_RefreshStatus_def in_processor_def Let_def ReadyProcessor_new_def ProposalTracker_new_def add_peers_keeps
        raftor_inv_def accounted_def held_def outstanding_def tracker_wf_def contexts_def split: Option.bind_splits)
qed

lemma not_running_empty: "raftor_inv k ri \<Longrightarrow> \<not> ri_running ri \<Longrightarrow> held ri = {#}"
  by (auto simp: raftor_inv_def held_def contexts_empty_outstanding)

section \<open>The temporary file gives back what was written\<close>

lemma load_chunks_all:
  assumes "\<And>k n. 0 < n \<Longrightarrow> 0 < fread k n" "p \<le> length f"
  shows "n \<le> p \<Longrightarrow> load_chunks fread ferr f p k (take n f) = Inr (take p f)"
proof (induction "p - n" arbitrary: n k rule: less_induct)
  case less
  have len: "length (take n f) = n" using less.prems assms(2) by simp
  show ?case
  proof (cases "n < p")
    case False
    then have "n = p" using less.prems by simp
    then show ?thesis using len by (subst load_chunks.simps) simp
  next
    case True
    define t where "t = min (p - n) kReadChunk"
    define r where "r = min (fread k t) (min t (length f - n))"
    have t: "0 < t" using True by (simp add: t_def kReadChunk_def)
    have "n < length f" using True assms(2) by simp
    then have "0 < r" using assms(1) [OF t, of k] t by (simp add: r_def)
    moreover have "r \<le> t" "t \<le> p - n" unfolding r_def by (linarith, simp add: t_def)
    ultimately have r: "0 < r" "n + r \<le> p" using True by linarith+
    have "load_chunks fread ferr f p k (take n f) = load_chunks fread ferr f p (Suc k) (take n f @ take r (drop n f))"
      using True r(1) unfolding load_chunks.simps [of fread ferr f p k "take n f"] len Let_def t_def [symmetric] r_def [symmetric] by simp
    also have "take n f @ take r (drop n f) = take (n + r) f" by (simp add: take_add)
    also have "load_chunks fread ferr f p (Suc k) (take (n + r) f) = Inr (take p f)"
      by (rule less.hyps) (use r True in auto)
    finally show ?thesis .
  qed
qed

lemma load_file:
  assumes "tf_rewound tf" "\<And>k n. 0 < n \<Longrightarrow> 0 < tf_fread tf k n" "unat sz < 2 ^ 32" "length f = unat sz"
  shows "LoadSnapshotDataFromFile tf f sz = Inr f"
proof -
  have "\<not> sz > 0xFFFFFFFF" using assms(3) by (simp add: word_less_nat_alt)
  then show ?thesis
    using assms(1,4) load_chunks_all [of "tf_fread tf" "unat sz" f 0 "tf_ferror tf" 0] assms(2) by (simp add: LoadSnapshotDataFromFile_def)
qed

section \<open>Properties\<close>

text \<open>
  C14. Every function of the application is called at most once and none is lost: after any sequence of fewer than
  2^64 calls and iterations, the functions submitted with proposals and reads are those that have been called together with those
  that still wait in a queue or in the tracker, with their multiplicity; and none waits when the loop does not run, so
  stopping, and a fatal error, answers every request.
\<close>

theorem every_request_answered_once:
  assumes "Raftor_Create R c m storage draws = Some (Inr ri)" "raftor_run W cs ri = Some ri'" "length cs < 2 ^ 64"
  shows "submitted cs = called (rp_calls (ri_processor ri')) + held ri' \<and> (ri_running ri' \<or> held ri' = {#})"
proof -
  have start: "raftor_inv 0 ri" "accounted ri = {#}" using create_inv [OF assms(1)] by simp_all
  have "raftor_inv (length cs) ri' \<and> accounted ri' = submitted cs"
    using raftor_run_ok [OF assms(2) start(1)] assms(3) start(2) by simp
  then show ?thesis using not_running_empty by (auto simp: accounted_def)
qed

definition ex_raftor_config :: RaftorConfig where
  "ex_raftor_config =
     \<lparr>rc_node_id = 1, rc_listen_addr = ''a'', rc_transport_kind = Capnp, rc_initial_peers = [], rc_data_dir = ''d'', rc_election_tick = 10,
      rc_heartbeat_tick = 2, rc_max_size_per_message = 1024, rc_max_inflight_messages = 4, rc_pre_vote = True, rc_check_quorum = True,
      rc_read_only_option = Safe, rc_tick_interval = 100, rc_proposal_timeout = 0, rc_read_index_timeout = 0,
      rc_snapshot_entries_threshold = 0, rc_snapshot_log_size_bytes = 0, rc_snapshot_interval = 0, rc_enable_entry_checksum = True\<rparr>"

definition ex_temp_file :: temp_file where
  "ex_temp_file = \<lparr>tf_created = True, tf_fwrite = (\<lambda>_ n. n), tf_rewound = True, tf_fread = (\<lambda>_ _. 1), tf_ferror = False\<rparr>"

definition ex_world :: "(MemoryStorage, MockStateMachine) raftor_world" where
  "ex_world = \<lparr>rw_env = (ex_raftor True)\<lparr>re_node_id := 1\<rparr>, rw_now = (\<lambda>_. 0), rw_temp_file = (\<lambda>_. ex_temp_file), rw_metadata_bytes = (\<lambda>_. [])\<rparr>"

definition ex_created :: "(MemoryStorage, MockStateMachine) RaftorImpl" where
  "ex_created = (case the (Raftor_Create (rw_env ex_world) ex_raftor_config MockStateMachine_new (Some MemoryStorage_new) 0) of Inr ri \<Rightarrow> ri)"

definition ex_calls :: "raftor_call list" where
  "ex_calls = [CallStart (Inr ()), CallCampaign, CallPoll [], CallPropose ''x'' (Some 1), CallPoll [], CallReadIndex [] (Some 2), CallStop]"

definition ex_stopped :: "(MemoryStorage, MockStateMachine) RaftorImpl" where
  "ex_stopped = the (raftor_run ex_world ex_calls ex_created)"

lemma ex_stopped_eval:
  "(case Raftor_Create (rw_env ex_world) ex_raftor_config MockStateMachine_new (Some MemoryStorage_new) 0 of
      Some (Inr ri) \<Rightarrow> ri = ex_created | _ \<Rightarrow> False) \<and>
   raftor_run ex_world ex_calls ex_created = Some ex_stopped \<and> \<not> ri_running ex_stopped \<and>
   rp_calls (ri_processor ex_stopped) = [ProposalDone 1 (Inr ''OK:x''), ReadDone 2 (Inl (RaftError ShuttingDown))]"
  by code_simp

theorem every_request_answered_once_witness:
  "submitted ex_calls = called (rp_calls (ri_processor ex_stopped)) + held ex_stopped \<and> held ex_stopped = {#} \<and>
   rp_calls (ri_processor ex_stopped) = [ProposalDone 1 (Inr ''OK:x''), ReadDone 2 (Inl (RaftError ShuttingDown))]"
proof -
  have "Raftor_Create (rw_env ex_world) ex_raftor_config MockStateMachine_new (Some MemoryStorage_new) 0 = Some (Inr ex_created)"
    using ex_stopped_eval by (auto split: option.splits sum.splits)
  moreover have "raftor_run ex_world ex_calls ex_created = Some ex_stopped" using ex_stopped_eval by blast
  moreover have "length ex_calls < 2 ^ 64" by (simp add: ex_calls_def)
  ultimately have "submitted ex_calls = called (rp_calls (ri_processor ex_stopped)) + held ex_stopped \<and> (ri_running ex_stopped \<or> held ex_stopped = {#})"
    by (rule every_request_answered_once)
  then show ?thesis using ex_stopped_eval by blast
qed

text \<open>The machine of the application may write its snapshot in several chunks; this one writes two.\<close>

definition ex_chunks :: "bytes list" where
  "ex_chunks = [''ab'', ''cde'']"

definition ex_chunk_machine :: "MockStateMachine state_machine" where
  "ex_chunk_machine = mock_machine\<lparr>ma_TakeSnapshot := \<lambda>Write i t cs (m, w).
     case write_chunks Write ex_chunks w of
       (Inl e, w) \<Rightarrow> (Inl e, m, w)
     | (Inr _, w) \<Rightarrow> (Inr \<lparr>sm_conf_state = cs, sm_index = i, sm_term = t\<rparr>, m, w)\<rparr>"

lemma ex_chunk_machine_takes:
  "takes_snapshot ex_chunk_machine i t cs m ex_chunks \<lparr>sm_conf_state = cs, sm_index = i, sm_term = t\<rparr>"
  by (auto simp: takes_snapshot_def ex_chunk_machine_def)

lemma build_snapshot_data:
  assumes "takes_snapshot (re_machine R) i t cs m chunks meta" "\<And>k n. 0 < n \<Longrightarrow> 0 < tf_fread tf k n" "length (concat chunks) < 2 ^ 64"
    "build_snapshot R tf i t cs m = (Inr sn, m1)"
  shows "sn = \<lparr>sn_data = concat chunks, sn_metadata = meta\<rparr>"
proof -
  obtain u w where w: "write_chunks (TempFileSnapshotWriter_Write (tf_fwrite tf)) chunks TempFileSnapshotWriter_new = (Inr u, w)"
    and ld: "LoadSnapshotDataFromFile tf (tw_file w) (tw_total_bytes_written w) = Inr (sn_data sn)" "sn_metadata sn = meta"
    using assms(1) [unfolded takes_snapshot_def, rule_format, of "TempFileSnapshotWriter_Write (tf_fwrite tf)" TempFileSnapshotWriter_new] assms(4)
    by (auto simp: build_snapshot_def split: if_splits prod.splits sum.splits)
  have f: "tw_file w = concat chunks" "tw_total_bytes_written w = of_nat (length (concat chunks))"
    using write_chunks_done [OF w] by (simp_all add: TempFileSnapshotWriter_new_def)
  have len: "unat (of_nat (length (concat chunks)) :: u64) = length (concat chunks)" by (rule unat_of_nat_u64 [OF assms(3)])
  have ok: "tf_rewound tf" "unat (of_nat (length (concat chunks)) :: u64) < 2 ^ 32"
    using ld(1) unfolding f by (auto simp: LoadSnapshotDataFromFile_def word_less_nat_alt split: if_splits)
  have "LoadSnapshotDataFromFile tf (concat chunks) (of_nat (length (concat chunks))) = Inr (concat chunks)"
    by (rule load_file [OF ok(1) assms(2) ok(2)]) (simp_all add: len)
  then show ?thesis using ld unfolding f by (cases sn) simp
qed

text \<open>
  C15. A snapshot passes through the temporary file unchanged. Let the machine of the application write its snapshot in any
  chunks, and let the system transfer any part of the bytes in a single read. A snapshot that a node builds holds the chunks
  of the machine, all of them and in order, with the metadata of the machine; it is built when the file can be created,
  takes the bytes, and they fit into a message. Reading it, in pieces of any sizes, gives back its bytes, and so
  does restoring the machine for tests.
\<close>

theorem snapshot_round_trip:
  assumes "takes_snapshot (re_machine R) i t cs m chunks meta" "\<forall>k n. 0 < n \<longrightarrow> 0 < tf_fread tf k n" "length (concat chunks) < 2 ^ 64"
  shows "(\<forall>sn m1. build_snapshot R tf i t cs m = (Inr sn, m1) \<longrightarrow>
        sn_data sn = concat chunks \<and> sn_metadata sn = meta \<and>
        (\<forall>sizes. concat (fst (read_pieces sizes (SnapshotDataReader_new (sn_data sn)))) = take (sum_list sizes) (concat chunks)) \<and>
        (\<forall>m'. \<not> mk_should_fail_restore m' \<longrightarrow>
           mk_last_restored_data (snd (MockStateMachine_RestoreSnapshot (sn_metadata sn) (SnapshotDataReader_new (sn_data sn)) m')) = concat chunks)) \<and>
    (tf_created tf \<and> tf_rewound tf \<and> (\<forall>k n. n \<le> tf_fwrite tf k n) \<and> length (concat chunks) < 2 ^ 32 \<longrightarrow>
       (\<exists>sn m1. build_snapshot R tf i t cs m = (Inr sn, m1)))"
proof (intro conjI allI impI)
  fix sn m1
  assume b: "build_snapshot R tf i t cs m = (Inr sn, m1)"
  note sn = build_snapshot_data [OF assms(1) assms(2) [rule_format] assms(3) b]
  show "sn_data sn = concat chunks" "sn_metadata sn = meta" using sn by simp_all
  show "concat (fst (read_pieces sizes (SnapshotDataReader_new (sn_data sn)))) = take (sum_list sizes) (concat chunks)" for sizes
    using sn read_pieces_concat [of sizes "SnapshotDataReader_new (sn_data sn)"] by (simp add: SnapshotDataReader_new_def)
  show "mk_last_restored_data (snd (MockStateMachine_RestoreSnapshot (sn_metadata sn) (SnapshotDataReader_new (sn_data sn)) m')) = concat chunks"
    if "\<not> mk_should_fail_restore m'" for m'
    using that sn by (simp add: MockStateMachine_RestoreSnapshot_def SnapshotDataReader_new_def read_snapshot_all Let_def)
next
  assume a: "tf_created tf \<and> tf_rewound tf \<and> (\<forall>k n. n \<le> tf_fwrite tf k n) \<and> length (concat chunks) < 2 ^ 32"
  then obtain w where w: "write_chunks (TempFileSnapshotWriter_Write (tf_fwrite tf)) chunks TempFileSnapshotWriter_new = (Inr (), w)"
    using write_chunks_succeeds [of "tf_fwrite tf" chunks TempFileSnapshotWriter_new] by blast
  have len: "unat (of_nat (length (concat chunks)) :: u64) = length (concat chunks)" by (rule unat_of_nat_u64 [OF assms(3)])
  have "LoadSnapshotDataFromFile tf (concat chunks) (of_nat (length (concat chunks))) = Inr (concat chunks)"
    by (rule load_file [OF _ assms(2) [rule_format]]) (use a len in simp_all)
  then show "\<exists>sn m1. build_snapshot R tf i t cs m = (Inr sn, m1)"
    using a w write_chunks_done [OF w]
      assms(1) [unfolded takes_snapshot_def, rule_format, of "TempFileSnapshotWriter_Write (tf_fwrite tf)" TempFileSnapshotWriter_new]
    by (auto simp: build_snapshot_def TempFileSnapshotWriter_new_def)
qed

theorem snapshot_round_trip_witness:
  "\<exists>sn m1. build_snapshot ((rw_env ex_world)\<lparr>re_machine := ex_chunk_machine\<rparr>) ex_temp_file 5 2 default_conf_state MockStateMachine_new = (Inr sn, m1) \<and>
     sn_data sn = ''abcde'' \<and> sn_index sn = 5 \<and> sn_term sn = 2 \<and>
     concat (fst (read_pieces [1, 3] (SnapshotDataReader_new (sn_data sn)))) = ''abcd'' \<and>
     mk_last_restored_data (snd (MockStateMachine_RestoreSnapshot (sn_metadata sn) (SnapshotDataReader_new (sn_data sn)) MockStateMachine_new)) = ''abcde''"
proof -
  let ?R = "(rw_env ex_world)\<lparr>re_machine := ex_chunk_machine\<rparr>" and ?meta = "\<lparr>sm_conf_state = default_conf_state, sm_index = 5, sm_term = 2\<rparr>"
  have R: "takes_snapshot (re_machine ?R) 5 2 default_conf_state MockStateMachine_new ex_chunks ?meta" by (simp add: ex_chunk_machine_takes)
  have len: "length (concat ex_chunks) < 2 ^ 64" "concat ex_chunks = ''abcde''" by (simp_all add: ex_chunks_def)
  have fr: "\<forall>k n. 0 < n \<longrightarrow> 0 < tf_fread ex_temp_file k n" by (simp add: ex_temp_file_def)
  note th = snapshot_round_trip [OF R fr len(1)]
  have "tf_created ex_temp_file \<and> tf_rewound ex_temp_file \<and> (\<forall>k n. n \<le> tf_fwrite ex_temp_file k n) \<and> length (concat ex_chunks) < 2 ^ 32"
    by (simp add: ex_temp_file_def len(2))
  then obtain sn m1 where b: "build_snapshot ?R ex_temp_file 5 2 default_conf_state MockStateMachine_new = (Inr sn, m1)"
    using th [THEN conjunct2] by blast
  note c = th [THEN conjunct1, rule_format, OF b]
  have nf: "\<not> mk_should_fail_restore MockStateMachine_new" by (simp add: MockStateMachine_new_def)
  have p: "take (sum_list [1, 3]) (concat ex_chunks) = ''abcd''" by (simp add: ex_chunks_def)
  show ?thesis
  proof (intro exI conjI)
    show "build_snapshot ?R ex_temp_file 5 2 default_conf_state MockStateMachine_new = (Inr sn, m1)" by (rule b)
    show "sn_data sn = ''abcde''" "sn_index sn = 5" "sn_term sn = 2" using c len(2) by simp_all
    show "concat (fst (read_pieces [1, 3] (SnapshotDataReader_new (sn_data sn)))) = ''abcd''" using c p by metis
    show "mk_last_restored_data (snd (MockStateMachine_RestoreSnapshot (sn_metadata sn) (SnapshotDataReader_new (sn_data sn)) MockStateMachine_new)) = ''abcde''"
      using c nf len(2) by metis
  qed
qed

end
