(* ===== verification/WalState.thy ===== *)
theory WalState
  imports WalStorage
begin

text \<open>Saving the hard state, and what recovery makes of the hard states in the log.\<close>

lemma metadata_names: "Segment_MakeSegmentFilename k \<notin> {metadata_tmp_path, metadata_path}"
  by (simp add: Segment_MakeSegmentFilename_def metadata_path_def metadata_tmp_path_def Let_def)

lemma mid_cong:
  assumes "w_segments w' = w_segments w" "w_index w' = w_index w" "w_first_index w' = w_first_index w"
    "w_buffer w' = w_buffer w" "w_pending_entries w' = w_pending_entries w"
  shows "mid X w' d L es bs = mid X w d L es bs"
  unfolding mid_def buffer_ok_def log_ok_cong [OF assms(1-3)] assms ..

lemma Flush_empty: "mid X w d L es [] \<Longrightarrow> WAL_FlushWriteBuffer X (w, d) = (Inr (), w, d)"
  by (simp add: WAL_FlushWriteBuffer_def mid_def buffer_ok_def)

text \<open>There is room for \<open>n\<close> bytes in the current segment, or in a new one.\<close>

definition room :: "wal_env \<Rightarrow> WAL \<Rightarrow> nat \<Rightarrow> bool" where
  "room X w n \<longleftrightarrow> (if w_segs w = [] then 32 else unat (seg_write_offset (snd (last (w_segs w))))) + n < unat (wc_segment_size (x_config X))"

lemma GetCurrent_room:
  assumes "WAL_GetCurrentSegmentForAppend X (w_first_index w) (w, d) = (Inr segment, w', d')" "mid X w d L es []" "room X w n" "cfg_ok X"
    "unat (sm_current_segment_id (w_segments w)) + 1 < 2 ^ 64"
  obtains L' where "mid X w' d' L' es []" "grows 1 w L w' L'" "segment = sm_current_segment_id (w_segments w')" "w_segs w' \<noteq> []" "room X w' n"
proof (cases "w_segs w = []")
  case False
  have mgr: "mgr_ok X (w_segments w) d L" using assms(2) by (simp add: mid_def log_ok_def)
  obtain ss s where ss: "w_segs w = ss @ [(sm_current_segment_id (w_segments w), s)]" using mgr_current [OF mgr False] .
  have "segment_at (sm_current_segment_id (w_segments w)) (w_segments w) = s"
    using mgr ss omap_wf_append [of ss "sm_current_segment_id (w_segments w)" s "[]"] by (simp add: segment_at_def mgr_ok_def)
  moreover have "\<not> Segment_IsFull (wc_segment_size (x_config X)) s"
    using assms(3) ss by (simp add: room_def Segment_IsFull_def word_le_nat_alt)
  ultimately have "w' = w" "d' = d" "segment = sm_current_segment_id (w_segments w)"
    using assms(1) GetCurrent_same [OF mgr False] by (auto simp: WAL_GetCurrentSegmentForAppend_def WAL_MaybeRollSegmentForAppend_def)
  then show ?thesis using that [of L] assms(2,3) False by (simp add: grows_mono [OF grows_refl])
next
  case True
  have es: "es = []" using assms(2) True unfolding mid_def log_ok_def by (auto simp: all_positions_def live_def)
  obtain sid w1 d1 where r: "on_segments (SegmentManager_RollToNewSegment (x_os X) (x_config X) (w_first_index w)) (w, d) = (Inr sid, w1, d1)"
    and m: "WAL_MaybeRollSegmentForAppend X (w_first_index w) sid (w1, d1) = (Inr segment, w', d')"
    using assms(1) True by (auto simp: WAL_GetCurrentSegmentForAppend_def SegmentManager_GetCurrentSegment_def on_segments_def elim!: io_bind_InrE)
  have r1: "mid X w1 d1 (L @ [[]]) es []" "grows 1 w L w1 (L @ [[]])" "sid = sm_current_segment_id (w_segments w1)" "w_segs w1 \<noteq> []"
    "seg_write_offset (segment_at sid (w_segments w1)) = 32"
    using Roll_log [OF r assms(2)] assms(4,5) True es by auto
  have mgr1: "mgr_ok X (w_segments w1) d1 (L @ [[]])" using r1(1) by (simp add: mid_def log_ok_def)
  obtain ss s where ss: "w_segs w1 = ss @ [(sid, s)]" using mgr_current [OF mgr1 r1(4)] r1(3) by metis
  have at: "segment_at sid (w_segments w1) = s"
    using mgr1 ss omap_wf_append [of ss sid s "[]"] by (simp add: segment_at_def mgr_ok_def)
  have "\<not> Segment_IsFull (wc_segment_size (x_config X)) (segment_at sid (w_segments w1))"
    using r1(5) assms(4) by (simp add: Segment_IsFull_def cfg_ok_def word_le_nat_alt)
  then have "w' = w1" "d' = d1" "segment = sid" using m by (auto simp: WAL_MaybeRollSegmentForAppend_def)
  moreover have "room X w1 n" using assms(3) True r1(5) ss at by (simp add: room_def)
  ultimately show ?thesis using that [of "L @ [[]]"] r1 by simp
qed

lemma unclogged_room: "32 + length (records X is) < unat (wc_segment_size (x_config X)) \<Longrightarrow> unclogged X is"
proof -
  assume room: "32 + length (records X is) < unat (wc_segment_size (x_config X))"
  have "records X is = records X (takeWhile is_state is) @ records X (dropWhile is_state is)"
    by (simp flip: records_simps(3))
  then have "length (records X (takeWhile is_state is)) \<le> length (records X is)" by simp
  then show ?thesis using room by (simp add: unclogged_def)
qed

lemma append_state:
  assumes "mid X w d L es []" "w_segs w \<noteq> []" "item_ok X (State_item hs)" "room X w (length (hard_state_record X hs))"
    "on_segments (on_segment (sm_current_segment_id (w_segments w)) (Segment_Append os (hard_state_record X hs))) (w, d) = (Inr u, w', d')"
  obtains L' where "mid X w' d' L' es []" "layout_states L' = layout_states L @ [hs]" "same_state w w'"
    "sm_current_segment_id (w_segments w') = sm_current_segment_id (w_segments w)"
proof -
  define k where "k = sm_current_segment_id (w_segments w)"
  have log: "log_ok X w d L es" and buf: "buffer_ok X w []" and bound: "unat (w_first_index w) + length es < 2 ^ 64"
    using assms(1) by (auto simp: mid_def)
  have mgr: "mgr_ok X (w_segments w) d L" using log by (simp add: log_ok_def)
  obtain ss s where ss: "w_segs w = ss @ [(k, s)]" using mgr_current [OF mgr assms(2)] k_def by blast
  obtain Ls "is" where L: "L = Ls @ [is]" "length ss = length Ls"
    using log_ok_length [OF log] ss by (cases L rule: rev_cases) auto
  have sok: "seg_ok X d (k, s) is" using mgr ss L by (auto simp: mgr_ok_def list_all2_append)
  have rec: "hard_state_record X hs = records X [State_item hs]" by (simp add: item_record_def)
  obtain sm' where app: "on_segment k (Segment_Append os (records X [State_item hs])) (w_segments w, d) = (Inr u, sm', d')"
    and w': "w' = w\<lparr>w_segments := sm'\<rparr>"
    using assms(5) unfolding rec by (auto simp: on_segments_def k_def split: prod.splits)
  have len: "length (records X [State_item hs]) < 2 ^ 33" using item_record_length(2) [OF assms(3)] by simp
  have "32 + length (records X is) + length (hard_state_record X hs) < unat (wc_segment_size (x_config X))"
    using assms(4) sok ss by (simp add: room_def seg_ok_def seg_holds_def)
  then have uncl: "unclogged X (is @ [State_item hs])" by (intro unclogged_room) (simp add: rec)
  have step: "seg_ok X d' (k, s1) (is @ [State_item hs]) \<and> seg_frame (s, d) (s1, d')"
    if "Segment_Append os (records X [State_item hs]) (s, d) = (Inr u, s1, d')" for s1
    using Segment_Append_holds [OF _ that len, of "is"] sok assms(3) uncl by (auto simp: seg_ok_def seg_frame_def)
  define s' where "s' = segment_at k sm'"
  have n: "mgr_ok X sm' d' (Ls @ [is @ [State_item hs]])" "sm_segments sm' = ss @ [(k, s')]" "sm_current_segment_id sm' = k"
    "seg_first_index s' = seg_first_index s"
    using on_segment_middle [OF mgr [unfolded L(1)] ss L(2) app step s'_def] k_def by auto
  let ?L = "Ls @ [is @ [State_item hs]]"
  have ap: "all_positions X (w_segs w') ?L = all_positions X (w_segs w) L"
    using n(2) w' ss L by (simp add: all_positions_append positions_append)
  have "routed (w_segs w') ?L"
    using routed_extend [of ss k s Ls "is" s' "[State_item hs]"] log n(2,4) w' ss L by (simp add: log_ok_def)
  moreover have "\<forall>p \<in> set (w_segs w'). unat (seg_first_index (snd p)) \<le> unat (w_first_index w) + length es"
    using log n(2,4) w' ss by (auto simp: log_ok_def)
  moreover have "\<forall>is' \<in> set ?L. \<forall>e \<in> set (item_entries is'). unat (e_index e) < unat (w_first_index w) + length es"
    using log L by (auto simp: log_ok_def)
  moreover have "w_index w' = w_index w" "w_first_index w' = w_first_index w" "mgr_ok X (w_segments w') d' ?L" using w' n(1) by simp_all
  ultimately have "log_ok X w' d' ?L es" using log unfolding log_ok_def ap by metis
  then have "mid X w' d' ?L es []" using buf bound w' by (simp add: mid_def buffer_ok_def)
  then show ?thesis using that [of ?L] w' n(3) k_def L(1) by (simp add: same_state_def)
qed

lemma SaveHardState_log:
  assumes "WAL_SaveHardState X hs (w, d) = (Inr u, w', d')" "mid X w d L es []" "item_ok X (State_item hs)" "cfg_ok X"
    "room X w (length (hard_state_record X hs))" "unat (sm_current_segment_id (w_segments w)) + 1 < 2 ^ 64"
  obtains L' where "mid X w' d' L' es []" "layout_states L' = layout_states L @ [hs]" "same_state (w\<lparr>w_hard_state := hs\<rparr>) w'"
    "file_exists d' metadata_path" "file_of d' metadata_path = MetadataStore_Serialize (x_codec X) (WAL_CreateMetadata w')"
    "unat (sm_current_segment_id (w_segments w')) \<le> unat (sm_current_segment_id (w_segments w)) + 1"
proof -
  let ?w = "w\<lparr>w_hard_state := hs\<rparr>"
  have m: "mid X ?w d L es []" using assms(2) by (simp add: mid_cong [of ?w w])
  have r: "room X ?w n = room X w n" for n by (simp add: room_def)
  obtain seg w1 d1 w2 d2 d3 where ops: "WAL_GetCurrentSegmentForAppend X (w_first_index ?w) (?w, d) = (Inr seg, w1, d1)"
    "on_segments (on_segment seg (Segment_Append (x_os X) (hard_state_record X hs))) (w1, d1) = (Inr (), w2, d2)"
    "MetadataStore_Save (x_os X) (x_codec X) (WAL_CreateMetadata w2) d2 = (Inr (), d3)" "sync_if_configured X (w2, d3) = (Inr u, w', d')"
    using assms(1) Flush_empty [OF m] by (auto simp: WAL_SaveHardState_def save_metadata_def elim!: io_bind_InrE split: prod.splits)
  obtain L1 where c: "mid X w1 d1 L1 es []" "grows 1 ?w L w1 L1" "seg = sm_current_segment_id (w_segments w1)" "w_segs w1 \<noteq> []"
    "room X w1 (length (hard_state_record X hs))"
    using GetCurrent_room [OF ops(1) m _ assms(4)] assms(5,6) r by auto
  obtain L2 where s: "mid X w2 d2 L2 es []" "layout_states L2 = layout_states L1 @ [hs]" "same_state w1 w2"
    "sm_current_segment_id (w_segments w2) = sm_current_segment_id (w_segments w1)"
    using append_state [OF c(1,4) assms(3) c(5) ops(2) [unfolded c(3)]] .
  have meta: "same_but {metadata_tmp_path, metadata_path} d2 d3" "file_exists d3 metadata_path"
    "file_of d3 metadata_path = MetadataStore_Serialize (x_codec X) (WAL_CreateMetadata w2)"
    using AtomicWrite_effect [OF ops(3) [unfolded MetadataStore_Save_def]] by auto
  have y: "w' = w2" "same_but {} d3 d'" using sync_if_configured_log [OF ops(4)] by auto
  have "mid X w' d' L2 es []"
    using mid_same_but [OF mid_same_but [OF s(1) meta(1) metadata_names] y(2)] y(1) by simp
  moreover have "same_state ?w w'" using c(2) s(3) y(1) by (auto simp: grows_def intro: same_state_trans)
  moreover have "file_exists d' metadata_path" "file_of d' metadata_path = MetadataStore_Serialize (x_codec X) (WAL_CreateMetadata w')"
    using meta y by (simp_all add: same_but_def)
  moreover have "layout_states L2 = layout_states L @ [hs]" using s(2) c(2) by (simp add: grows_def)
  moreover have "unat (sm_current_segment_id (w_segments w')) \<le> unat (sm_current_segment_id (w_segments w)) + 1"
    using s(4) c(2) y(1) by (simp add: grows_def)
  ultimately show ?thesis using that by blast
qed

section \<open>What recovery makes of the hard states\<close>

lemma newer_states_last:
  assumes "\<forall>s \<in> set (h # ss). hs_term s \<le> hs_term hs"
  shows "foldl newer_state h (ss @ [hs]) = hs"
proof -
  have "hs_term (foldl newer_state h ss) \<le> hs_term hs"
    using assms by (induction ss arbitrary: h) (auto simp: newer_state_def)
  then show ?thesis by (simp add: newer_state_def)
qed

lemma recovered_last:
  assumes "hs_term (w_hard_state w) \<le> hs_term hs" "\<forall>s \<in> set ss. hs_term s \<le> hs_term hs"
    "0 < w_snapshot_index w \<longrightarrow> w_snapshot_term w \<le> hs_term hs"
  shows "recovered_state w (ss @ [hs]) = hs"
  unfolding recovered_state_def by (rule newer_states_last) (use assms in \<open>auto simp: raise_hard_state_def\<close>)

text \<open>The last of the hard states of the highest term.\<close>

definition newest_state :: "hard_state list \<Rightarrow> hard_state" where
  "newest_state hs = last (filter (\<lambda>s. \<forall>s' \<in> set hs. hs_term s' \<le> hs_term s) hs)"

lemma newer_states_newest:
  "foldl newer_state h ss = newest_state (h # ss) \<and> (\<forall>s \<in> set (h # ss). hs_term s \<le> hs_term (foldl newer_state h ss)) \<and>
   foldl newer_state h ss \<in> set (h # ss)"
proof (induction ss rule: rev_induct)
  case (snoc s ss)
  let ?g = "foldl newer_state h ss" let ?hs = "h # ss"
  have le: "\<forall>s' \<in> set ?hs. hs_term s' \<le> hs_term ?g" and g: "?g \<in> set ?hs" "?g = newest_state ?hs" using snoc.IH by auto
  have eq: "h # ss @ [s] = ?hs @ [s]" by simp
  show ?case
  proof (cases "hs_term ?g \<le> hs_term s")
    case True
    then have all: "\<forall>s' \<in> set ?hs. hs_term s' \<le> hs_term s" using le by fastforce
    then have "newest_state (?hs @ [s]) = s" unfolding newest_state_def filter_append by simp
    moreover have "foldl newer_state h (ss @ [s]) = s" using True by (simp add: newer_state_def [of ?g s])
    ultimately show ?thesis using all by simp
  next
    case False
    then have "filter (\<lambda>x. \<forall>s' \<in> set (?hs @ [s]). hs_term s' \<le> hs_term x) ?hs = filter (\<lambda>x. \<forall>s' \<in> set ?hs. hs_term s' \<le> hs_term x) ?hs"
      using g(1) by (intro filter_cong) (auto intro: order_trans [OF less_imp_le])
    moreover have "\<not> (\<forall>s' \<in> set (?hs @ [s]). hs_term s' \<le> hs_term s)" using False g(1) by auto
    ultimately have "newest_state (?hs @ [s]) = newest_state ?hs" unfolding newest_state_def filter_append by simp
    moreover have "foldl newer_state h (ss @ [s]) = ?g" using False by (simp add: newer_state_def [of ?g s])
    ultimately show ?thesis using False le g by auto
  qed
qed (simp add: newest_state_def)

text \<open>
  The hard state of the process is the newest on disk: no record has a higher term, and none of its term follows the last
  record of it.
\<close>

definition newest_on_disk :: "WAL \<Rightarrow> hard_state list \<Rightarrow> bool" where
  "newest_on_disk w hss \<longleftrightarrow>
     (w_snapshot_index w > 0 \<longrightarrow> w_snapshot_term w \<le> hs_term (w_hard_state w) \<and> w_snapshot_index w \<le> hs_commit (w_hard_state w)) \<and>
     ((\<forall>s \<in> set hss. hs_term s < hs_term (w_hard_state w)) \<or>
      hss \<noteq> [] \<and> last hss = w_hard_state w \<and> (\<forall>s \<in> set hss. hs_term s \<le> hs_term (w_hard_state w)))"

lemma recovered_newest:
  assumes "newest_on_disk w hss"
  shows "recovered_state w hss = w_hard_state w"
proof -
  let ?h = "w_hard_state w"
  have raise: "(if w_snapshot_index w > 0 then raise_hard_state (w_snapshot_index w) (w_snapshot_term w) ?h else ?h) = ?h"
    using assms by (auto simp: newest_on_disk_def raise_hard_state_def max_def not_less)
  from assms consider "\<forall>s \<in> set hss. hs_term s < hs_term ?h" | ss where "hss = ss @ [?h]" "\<forall>s \<in> set ss. hs_term s \<le> hs_term ?h"
    unfolding newest_on_disk_def by (metis append_butlast_last_id in_set_butlastD)
  then show ?thesis
  proof cases
    case 1
    then have "foldl newer_state ?h hss = ?h" by (induction hss) (auto simp: newer_state_def)
    then show ?thesis by (simp only: recovered_state_def raise)
  next
    case 2
    then have "foldl newer_state ?h hss = ?h" using newer_states_last [of ?h ss ?h] by simp
    then show ?thesis by (simp only: recovered_state_def raise)
  qed
qed

text \<open>
  A hard state that was saved later is not protected by the metadata: when cutting the log has removed its record, an
  older record of the same term takes its place, with the vote and the commit index of that time.
\<close>

lemma recovery_prefers_record:
  assumes "\<forall>s \<in> set ss. hs_term s \<le> hs_term old"
    "hs_term (w_hard_state w) = hs_term old" "w_snapshot_index w = 0"
  shows "recovered_state w (ss @ [old]) = old"
  by (rule recovered_last) (use assms in auto)

section \<open>A hard state written to a new segment\<close>

text \<open>
  When the current segment is full, the segment that the hard state goes to gets the first index of the whole log. From
  then on the entries of the segment before are looked for in the new one: they cannot be cut off any more.
\<close>

lemma SaveHardState_roll_misroutes:
  assumes "WAL_SaveHardState X hs (w, d) = (Inr u, w', d')" "mid X w d L es []" "w_segs w \<noteq> []"
    "Segment_IsFull (wc_segment_size (x_config X)) (snd (last (w_segs w)))" "unat (sm_current_segment_id (w_segments w)) + 1 < 2 ^ 64"
    "cfg_ok X" "seg_first_index (snd (last (w_segs w))) \<le> idx" "w_first_index w \<le> idx" "unat idx < unat (w_first_index w) + length es"
  shows "\<exists>k ie. SegmentManager_GetSegmentForIndex idx (w_segments w') = Some k \<and> WALIndex_Lookup idx (w_index w') = Some ie \<and>
    ie_segment_id ie \<noteq> k \<and> (\<exists>msg. WAL_TruncateSuffixFrom X idx (w', d') = (Inl (FatalError msg), w', d'))"
proof -
  let ?w = "w\<lparr>w_hard_state := hs\<rparr>" let ?cur = "sm_current_segment_id (w_segments w)"
  have m: "mid X ?w d L es []" using assms(2) by (simp add: mid_cong [of ?w w])
  have log: "log_ok X w d L es" and mgr: "mgr_ok X (w_segments w) d L" using assms(2) by (auto simp: mid_def log_ok_def)
  obtain ss s where ss: "w_segs w = ss @ [(?cur, s)]" using mgr_current [OF mgr assms(3)] .
  have at: "segment_at ?cur (w_segments w) = s"
    using mgr ss omap_wf_append [of ss ?cur s "[]"] by (simp add: segment_at_def mgr_ok_def)
  have full: "Segment_IsFull (wc_segment_size (x_config X)) s" using assms(4) ss by simp
  have cur: "on_segments (SegmentManager_GetCurrentSegment (x_os X) (x_config X) (w_first_index w)) (?w, d) = (Inr ?cur, ?w, d)"
    using GetCurrent_same [of X ?w d L] mgr assms(3) by simp
  obtain sid sm1 d1 sm2 d2 where ops: "SegmentManager_RollToNewSegment (x_os X) (x_config X) (w_first_index w) (w_segments w, d) = (Inr sid, sm1, d1)"
    "on_segment sid (Segment_Append (x_os X) (hard_state_record X hs)) (sm1, d1) = (Inr (), sm2, d2)" "w' = ?w\<lparr>w_segments := sm2\<rparr>"
    using assms(1) Flush_empty [OF m] cur full at
    by (auto simp: WAL_SaveHardState_def WAL_GetCurrentSegmentForAppend_def WAL_MaybeRollSegmentForAppend_def on_segments_def save_metadata_def
        elim!: io_bind_InrE split: prod.splits dest!: sync_if_configured_log)
  obtain s1 where s1: "mgr_ok X sm1 d1 (L @ [[]])" "sm_segments sm1 = w_segs w @ [(sid, s1)]" "seg_first_index s1 = w_first_index w" "segment_at sid sm1 = s1"
    using mgr_roll [OF mgr ops(1) assms(5)] assms(6) unfolding cfg_ok_def by blast
  have fresh: "sid \<notin> fst ` set (w_segs w)" "seg_segment_id s1 = sid"
    using s1(1,2) omap_wf_append [of "w_segs w" sid s1 "[]"] by (auto simp: mgr_ok_def list_all2_append1 seg_ok_def dest: list_all2_lengthD)
  obtain s2 where s2: "sm_segments sm2 = w_segs w @ [(sid, s2)]" "seg_first_index s2 = w_first_index w" "seg_segment_id s2 = sid"
    using ops(2) s1 fresh
    by (auto simp: on_segment_def Segment_Append_def update_middle Let_def split: prod.splits sum.splits if_splits)
  have len: "length ss = length (butlast L)" "L = butlast L @ [last L]"
    using log_ok_length [OF log] ss by (cases L rule: rev_cases, simp_all)+
  have le: "\<forall>p \<in> set (w_segs w). seg_first_index (snd p) \<le> idx"
    using routed_split(1) [of ss ?cur s "[]" "butlast L" "last L" "[]"] log assms(7) ss len by (force simp: log_ok_def)
  have "SegmentManager_GetSegmentForIndex idx (w_segments w') = Some sid"
    using segment_for_index_skip [OF le, of "[(sid, s2)]" None] s2 ops(3) assms(8) by (auto simp: SegmentManager_GetSegmentForIndex_def)
  moreover define n where "n = unat idx - unat (w_first_index w)"
  have n: "n < length es" using assms(8,9) by (auto simp: n_def word_le_nat_alt)
  obtain ie where ie: "WALIndex_Lookup idx (w_index w') = Some ie" "ie = wi_entries (w_index w) ! n"
    using log_lookup [OF log, of idx] assms(8,9) ops(3) by (simp add: n_def word_le_nat_alt)
  obtain ss1 k1 t1 ss2 where loc: "w_segs w = ss1 @ (k1, t1) # ss2" "ie_segment_id ie = k1" using log_locate [OF log n] ie(2) by (metis IndexEntry.select_convs(1))
  then have "ie_segment_id ie \<noteq> sid" using fresh(1) by auto
  moreover have "seg_segment_id (segment_at sid (w_segments w')) = sid"
    using s2 ops(3) fresh(1) by (simp add: segment_at_def map_add_def map_of_eq_None_iff [THEN iffD2])
  ultimately show ?thesis using ie(1) by (auto simp: WAL_TruncateSuffixFrom_def)
qed

end
