(* ===== verification/WalTotal.thy ===== *)
theory WalTotal
  imports WalState
begin

text \<open>
  On a disk that carries out every call, and that has room for the bytes to be written, the operations of the log
  succeed: what the other theories show of a call that reports success is what happens.
\<close>

section \<open>Room on the disk\<close>

text \<open>
  Every call is carried out, \<open>n\<close> more bytes can be written to any file after the buffered ones, and the only files that
  are named like segments are those of the log.
\<close>

definition able :: "wal_env \<Rightarrow> WAL \<Rightarrow> disk \<Rightarrow> nat \<Rightarrow> bool" where
  "able X w d n \<longleftrightarrow> (\<forall>k. x_os X k = Done) \<and>
     (\<forall>name. length (file_of d name) + length (w_buffer w) + n < 2 ^ 63) \<and>
     unat (wc_segment_size (x_config X)) + length (w_buffer w) + n < 2 ^ 63 \<and>
     (\<forall>k. file_exists d (Segment_MakeSegmentFilename k) \<longrightarrow> k \<in> fst ` set (w_segs w))"

lemma able_mono: "able X w d n \<Longrightarrow> m \<le> n \<Longrightarrow> able X w d m"
  unfolding able_def by (meson add_left_mono le_less_trans)

lemma able_change:
  assumes "able X w d n" "\<And>name. length (file_of d' name) + length (w_buffer w') + m \<le> length (file_of d name) + length (w_buffer w) + n"
    "length (w_buffer w') + m \<le> length (w_buffer w) + n"
    "\<And>k. file_exists d' (Segment_MakeSegmentFilename k) \<Longrightarrow> k \<in> fst ` set (w_segs w) \<Longrightarrow> k \<in> fst ` set (w_segs w')"
    "\<And>k. file_exists d' (Segment_MakeSegmentFilename k) \<Longrightarrow> file_exists d (Segment_MakeSegmentFilename k) \<or> k \<in> fst ` set (w_segs w')"
  shows "able X w' d' m"
  unfolding able_def
proof (intro conjI allI impI)
  show "x_os X k = Done" for k using assms(1) by (simp add: able_def)
  show "length (file_of d' name) + length (w_buffer w') + m < 2 ^ 63" for name
    using assms(1) assms(2) [of name] unfolding able_def by (meson le_less_trans)
  show "unat (wc_segment_size (x_config X)) + length (w_buffer w') + m < 2 ^ 63"
  proof -
    have "unat (wc_segment_size (x_config X)) + length (w_buffer w) + n < 2 ^ 63" using assms(1) by (simp add: able_def)
    then show ?thesis using assms(3) by linarith
  qed
  show "k \<in> fst ` set (w_segs w')" if "file_exists d' (Segment_MakeSegmentFilename k)" for k
    using assms(1,4,5) that unfolding able_def by blast
qed

lemma able_fault_free: "able X w d n \<Longrightarrow> fault_free (x_os X) d"
  unfolding able_def fault_free_def by (meson add_lessD1)

section \<open>Writing to the current segment\<close>

lemma PWrite_ok:
  assumes "\<forall>k. os k = Done" "unat off < 2 ^ 63"
  shows "PosixSegmentIo_PWrite os name off data d =
    (Inr (), set_file name (put_at (unat off) data (file_of d name)) (d\<lparr>d_clock := Suc (d_clock d)\<rparr>))"
  using assms(1) sint_nonneg [OF assms(2)] by (simp add: PosixSegmentIo_PWrite_def sys_pwrite_def sys_outcome_def Let_def)

lemma write_ok:
  assumes "able X w d n" "mgr_ok X (w_segments w) d L" "w_segs w \<noteq> []"
  shows "\<exists>sm' d'. on_segments (on_segment (sm_current_segment_id (w_segments w)) (Segment_Append (x_os X) data)) (w, d) =
      (Inr (), w\<lparr>w_segments := sm'\<rparr>, d') \<and> sm_current_segment_id sm' = sm_current_segment_id (w_segments w) \<and>
    map fst (sm_segments sm') = map fst (w_segs w) \<and> (\<forall>name. file_exists d' name = file_exists d name) \<and>
    (\<forall>name. length (file_of d' name) \<le> length (file_of d name) + length data)"
proof -
  let ?k = "sm_current_segment_id (w_segments w)"
  obtain ss s where ss: "w_segs w = ss @ [(?k, s)]" using mgr_current [OF assms(2,3)] .
  have k: "?k \<notin> fst ` set ss" and at: "segment_at ?k (w_segments w) = s"
    using assms(2) ss omap_wf_append [of ss ?k s "[]"] by (auto simp: segment_at_def mgr_ok_def)
  obtain "is" where "seg_ok X d (?k, s) is" using assms(2) ss by (auto simp: mgr_ok_def list_all2_append1 list_all2_Cons1)
  then have s: "seg_open s" "file_exists d (seg_path s)" "unat (seg_write_offset s) \<le> length (file_of d (seg_path s))"
    by (auto simp: seg_ok_def seg_holds_def)
  have "length (file_of d (seg_path s)) + length (w_buffer w) + n < 2 ^ 63" using assms(1) by (simp add: able_def)
  then have off: "unat (seg_write_offset s) < 2 ^ 63" using s(3) by linarith
  have os: "\<forall>k. x_os X k = Done" using assms(1) by (simp add: able_def)
  obtain s' d' where a: "Segment_Append (x_os X) data (s, d) = (Inr (), s', d')"
    "d' = set_file (seg_path s) (put_at (unat (seg_write_offset s)) data (file_of d (seg_path s))) (d\<lparr>d_clock := Suc (d_clock d)\<rparr>)"
    using s(1) PWrite_ok [OF os off] by (simp add: Segment_Append_def Let_def)
  have "on_segments (on_segment ?k (Segment_Append (x_os X) data)) (w, d) =
      (Inr (), w\<lparr>w_segments := (w_segments w)\<lparr>sm_segments := ss @ [(?k, s')]\<rparr>\<rparr>, d')"
    using at k ss a(1) by (simp add: on_segments_def on_segment_def update_middle)
  moreover have "\<forall>name. length (file_of d' name) \<le> length (file_of d name) + length data" "\<forall>name. file_exists d' name = file_exists d name"
    using a(2) s(2,3) by auto
  ultimately show ?thesis using ss
    by (intro exI [of _ "(w_segments w)\<lparr>sm_segments := ss @ [(?k, s')]\<rparr>"] exI [of _ d']) simp
qed

lemma fst_image_keys: "map fst m = map fst m' \<Longrightarrow> fst ` set m = fst ` set m'"
  by (metis list.set_map)

lemma Flush_ok:
  assumes "able X w d n" "mid X w d L es bs"
  shows "\<exists>w' d'. WAL_FlushWriteBuffer X (w, d) = (Inr (), w', d') \<and> able X w' d' n"
proof (cases "bs = []")
  case True
  then show ?thesis using Flush_empty [of X w d L es] assms by auto
next
  case False
  then have ne: "w_segs w \<noteq> []" "w_buffer w \<noteq> []"
    using assms(2) records_nonempty [of bs X] by (auto simp: mid_def buffer_ok_def)
  have mgr: "mgr_ok X (w_segments w) d L" using assms(2) by (simp add: mid_def log_ok_def)
  let ?k = "sm_current_segment_id (w_segments w)"
  obtain sm' d' where wr: "on_segments (on_segment ?k (Segment_Append (x_os X) (w_buffer w))) (w, d) = (Inr (), w\<lparr>w_segments := sm'\<rparr>, d')"
    "map fst (sm_segments sm') = map fst (w_segs w)" "\<forall>name. file_exists d' name = file_exists d name"
    "\<forall>name. length (file_of d' name) \<le> length (file_of d name) + length (w_buffer w)"
    using write_ok [OF assms(1) mgr ne(1)] by blast
  define w' where "w' = w\<lparr>w_segments := sm', w_index := insert_pending ?k (seg_write_offset (segment_at ?k (w_segments w))) (w_pending_entries w) (w_index w),
    w_pending_entries := [], w_buffer := []\<rparr>"
  have "WAL_FlushWriteBuffer X (w, d) = (Inr (), w', d')"
    using ne wr(1) GetCurrent_same [OF mgr ne(1)] by (simp add: WAL_FlushWriteBuffer_def w'_def)
  moreover have "able X w' d' n"
    by (rule able_change [OF assms(1)]) (use wr fst_image_keys [OF wr(2)] in \<open>auto simp: w'_def\<close>)
  ultimately show ?thesis by blast
qed

section \<open>New segments\<close>

lemma Segment_Create_ok:
  assumes "\<forall>k. os k = Done" "\<not> file_exists d path"
  shows "\<exists>s d'. Segment_Create os path k i pre size' d = (Inr s, d') \<and> (\<forall>name. name \<noteq> path \<longrightarrow> file_of d' name = file_of d name) \<and>
    (\<forall>name. file_exists d' name \<longleftrightarrow> name = path \<or> file_exists d name) \<and> length (file_of d' path) \<le> max 32 (unat size')"
  using assms(1,2) by (simp add: Segment_Create_def sys_call_def sys_outcome_def sys_pwrite_def Let_def extend_to_def file_of_def [of d path] file_exists_def [of d path])

lemma Roll_ok:
  assumes "able X w d n" "mgr_ok X (w_segments w) d L" "unat (sm_current_segment_id (w_segments w)) + 1 < 2 ^ 64" "cfg_ok X"
  shows "\<exists>sid w' d'. on_segments (SegmentManager_RollToNewSegment (x_os X) (x_config X) i) (w, d) = (Inr sid, w', d') \<and> able X w' d' n"
proof -
  let ?sm = "w_segments w" let ?k = "sm_current_segment_id ?sm + 1" let ?path = "Segment_MakeSegmentFilename ?k"
  define d0 where "d0 = (case map_of (w_segs w) (sm_current_segment_id ?sm) of None \<Rightarrow> d | Some s \<Rightarrow> snd (Segment_Sync (x_os X) s d))"
  have same: "same_but {} d d0" using Segment_Sync_same [of "x_os X" _ d] by (auto simp: d0_def split: option.splits) (metis prod.collapse)
  have os: "\<forall>k. x_os X k = Done" using assms(1) by (simp add: able_def)
  have "?k \<notin> fst ` set (w_segs w)"
  proof
    assume "?k \<in> fst ` set (w_segs w)"
    then obtain s where "(?k, s) \<in> set (w_segs w)" by auto
    moreover from this have ne: "w_segs w \<noteq> []" by auto
    obtain ss s' where "w_segs w = ss @ [(sm_current_segment_id ?sm, s')]" using mgr_current [OF assms(2) ne] .
    ultimately have "?k \<le> sm_current_segment_id ?sm" using assms(2) by (auto simp: mgr_ok_def sorted_wrt_append less_imp_le)
    moreover have "unat ?k = Suc (unat (sm_current_segment_id ?sm))" using assms(3) by (intro unat_Suc_bound_u64) simp
    ultimately show False by (simp add: word_le_nat_alt)
  qed
  then have "\<not> file_exists d ?path" using assms(1) by (auto simp: able_def)
  then have free: "\<not> file_exists d0 ?path" using same by (simp add: same_but_def)
  obtain s d' where c: "Segment_Create (x_os X) ?path ?k i (wc_preallocate (x_config X)) (wc_segment_size (x_config X)) d0 = (Inr s, d')"
    "\<forall>name. name \<noteq> ?path \<longrightarrow> file_of d' name = file_of d0 name" "\<forall>name. file_exists d' name \<longleftrightarrow> name = ?path \<or> file_exists d0 name"
    "length (file_of d' ?path) \<le> max 32 (unat (wc_segment_size (x_config X)))"
    using Segment_Create_ok [OF os free] by blast
  define sm' where "sm' = ?sm\<lparr>sm_segments := omap_put ?k s (w_segs w), sm_current_segment_id := ?k\<rparr>"
  have "on_segments (SegmentManager_RollToNewSegment (x_os X) (x_config X) i) (w, d) = (Inr ?k, w\<lparr>w_segments := sm'\<rparr>, d')"
    using c(1) by (simp add: on_segments_def SegmentManager_RollToNewSegment_def d0_def sm'_def Let_def)
  moreover have "able X (w\<lparr>w_segments := sm'\<rparr>) d' n"
    unfolding able_def
  proof (intro conjI allI impI)
    fix name
    have seg: "unat (wc_segment_size (x_config X)) + length (w_buffer w) + n < 2 ^ 63" "length (file_of d name) + length (w_buffer w) + n < 2 ^ 63"
      using assms(1) by (auto simp: able_def)
    have "length (file_of d' name) \<le> max (unat (wc_segment_size (x_config X))) (length (file_of d name))"
      using c(2,4) same assms(4) by (cases "name = ?path") (auto simp: same_but_def cfg_ok_def)
    then show "length (file_of d' name) + length (w_buffer (w\<lparr>w_segments := sm'\<rparr>)) + n < 2 ^ 63" using seg by simp
  next
    fix j assume "file_exists d' (Segment_MakeSegmentFilename j)"
    then have "j = ?k \<or> file_exists d (Segment_MakeSegmentFilename j)" using c(3) same by (auto simp: filename_inj same_but_def)
    then have "j \<in> insert ?k (fst ` set (w_segs w))" using assms(1) unfolding able_def by blast
    then show "j \<in> fst ` set (w_segs (w\<lparr>w_segments := sm'\<rparr>))" using omap_put_keys [of ?k s "w_segs w"] by (simp add: sm'_def)
  qed (use assms(1) in \<open>auto simp: able_def\<close>)
  ultimately show ?thesis by blast
qed

section \<open>Appending\<close>

lemma MaybeRoll_ok:
  assumes "able X w d n" "mid X w d L es bs" "unat (sm_current_segment_id (w_segments w)) + 1 < 2 ^ 64" "cfg_ok X"
  shows "\<exists>seg w' d'. WAL_MaybeRollSegmentForAppend X i segment (w, d) = (Inr seg, w', d') \<and> able X w' d' n"
proof (cases "Segment_IsFull (wc_segment_size (x_config X)) (segment_at segment (w_segments w))")
  case False
  then show ?thesis using assms(1) by (simp add: WAL_MaybeRollSegmentForAppend_def)
next
  case True
  obtain w1 d1 where f: "WAL_FlushWriteBuffer X (w, d) = (Inr (), w1, d1)" "able X w1 d1 n" using Flush_ok [OF assms(1,2)] by blast
  obtain L1 where l: "mid X w1 d1 L1 (es @ bs) []" "sm_current_segment_id (w_segments w1) = sm_current_segment_id (w_segments w)"
    using Flush_log [OF f(1) assms(2)] by blast
  then have "mgr_ok X (w_segments w1) d1 L1" by (simp add: mid_def log_ok_def)
  then obtain sid w' d' where "on_segments (SegmentManager_RollToNewSegment (x_os X) (x_config X) i) (w1, d1) = (Inr sid, w', d')" "able X w' d' n"
    using Roll_ok [OF f(2) _ _ assms(4)] l(2) assms(3) by metis
  then show ?thesis using True f(1) by (simp add: WAL_MaybeRollSegmentForAppend_def)
qed

lemma GetCurrent_ok:
  assumes "able X w d n" "mid X w d L es bs" "unat (sm_current_segment_id (w_segments w)) + 1 < 2 ^ 64" "cfg_ok X"
    "w_segs w = [] \<Longrightarrow> unat i = unat (w_first_index w) + length es + length bs"
  shows "\<exists>seg w' d'. WAL_GetCurrentSegmentForAppend X i (w, d) = (Inr seg, w', d') \<and> able X w' d' n"
proof -
  have mgr: "mgr_ok X (w_segments w) d L" using assms(2) by (simp add: mid_def log_ok_def)
  show ?thesis
  proof (cases "w_segs w = []")
    case False
    then show ?thesis
      using GetCurrent_same [OF mgr False] MaybeRoll_ok [OF assms(1-4)] by (simp add: WAL_GetCurrentSegmentForAppend_def)
  next
    case True
    then have bs: "bs = []" using assms(2) by (simp add: mid_def)
    obtain sid w1 d1 where r: "on_segments (SegmentManager_RollToNewSegment (x_os X) (x_config X) i) (w, d) = (Inr sid, w1, d1)" "able X w1 d1 n"
      using Roll_ok [OF assms(1) mgr assms(3,4)] by blast
    have r1: "sid = sm_current_segment_id (w_segments w1)" "seg_write_offset (segment_at sid (w_segments w1)) = 32"
      using Roll_log [OF r(1)] assms(2-5) True bs by auto
    have "\<not> Segment_IsFull (wc_segment_size (x_config X)) (segment_at sid (w_segments w1))"
      using r1(2) assms(4) by (simp add: Segment_IsFull_def cfg_ok_def word_le_nat_alt)
    then show ?thesis using True r
      by (simp add: WAL_GetCurrentSegmentForAppend_def WAL_MaybeRollSegmentForAppend_def SegmentManager_GetCurrentSegment_def on_segments_def
          io_bind_def split: prod.splits)
  qed
qed

lemma append_direct_ok:
  assumes "able X w d (n + length (entry_record X e))" "mid X w d L es bs" "unat (sm_current_segment_id (w_segments w)) + 1 < 2 ^ 64" "cfg_ok X"
    "unat (e_index e) = unat (w_first_index w) + length es + length bs"
  shows "\<exists>seg w' d'. append_direct X e (w, d) = (Inr seg, w', d') \<and> able X w' d' n"
proof -
  let ?rec = "entry_record X e"
  obtain w1 d1 where f: "WAL_FlushWriteBuffer X (w, d) = (Inr (), w1, d1)" "able X w1 d1 (n + length ?rec)" using Flush_ok [OF assms(1,2)] by blast
  obtain L1 where l: "mid X w1 d1 L1 (es @ bs) []" "grows 0 w L w1 L1" using Flush_log [OF f(1) assms(2)] by blast
  have st: "w_first_index w1 = w_first_index w" "unat (sm_current_segment_id (w_segments w1)) + 1 < 2 ^ 64"
    using l(2) assms(3) by (auto simp: grows_def same_state_def)
  have i: "unat (e_index e) = unat (w_first_index w1) + length (es @ bs) + length ([] :: entry list)" using assms(5) st(1) by simp
  obtain seg w2 d2 where g: "WAL_GetCurrentSegmentForAppend X (e_index e) (w1, d1) = (Inr seg, w2, d2)" "able X w2 d2 (n + length ?rec)"
    using GetCurrent_ok [OF f(2) l(1) st(2) assms(4) i] by blast
  obtain L2 es2 bs2 where c: "mid X w2 d2 L2 es2 bs2" "seg = sm_current_segment_id (w_segments w2)" "w_segs w2 \<noteq> []"
    using GetCurrent_log [OF g(1) l(1) i st(2) assms(4)] by blast
  have "mgr_ok X (w_segments w2) d2 L2" using c(1) by (simp add: mid_def log_ok_def)
  then obtain sm' d' where wr: "on_segments (on_segment seg (Segment_Append (x_os X) ?rec)) (w2, d2) = (Inr (), w2\<lparr>w_segments := sm'\<rparr>, d')"
    "map fst (sm_segments sm') = map fst (w_segs w2)" "\<forall>name. file_exists d' name = file_exists d2 name"
    "\<forall>name. length (file_of d' name) \<le> length (file_of d2 name) + length ?rec"
    using write_ok [OF g(2) _ c(3)] c(2) by blast
  have "able X (w2\<lparr>w_segments := sm', w_index := ix\<rparr>) d' n" for ix
    by (rule able_change [OF g(2)]) (use wr fst_image_keys [OF wr(2)] in \<open>auto simp: add.commute add.left_commute\<close>)
  then show ?thesis using f(1) g(1) wr(1) by (simp add: append_direct_def Let_def)
qed

lemma append_buffered_ok:
  assumes "able X w d (n + length (entry_record X e))" "mid X w d L es bs" "w_segs w \<noteq> []" "entry_ok X e"
    "length (entry_record X e) \<le> unat (wc_write_buffer_size (x_config X))" "cfg_ok X"
    "unat (e_index e) = unat (w_first_index w) + length es + length bs" "unat (w_first_index w) + length es + length bs + 1 < 2 ^ 64"
  shows "\<exists>w' d'. append_buffered X e (w, d) = (Inr (), w', d') \<and> able X w' d' n"
proof -
  let ?rec = "entry_record X e" let ?cap = "unat (wc_write_buffer_size (x_config X))"
  obtain w1 d1 L1 es1 bs1 where f: "(if length (w_buffer w) + length ?rec > ?cap then WAL_FlushWriteBuffer X else io_return ()) (w, d) = (Inr (), w1, d1)"
    "able X w1 d1 (n + length ?rec)" "mid X w1 d1 L1 es1 bs1" "es1 @ bs1 = es @ bs" "grows 0 w L w1 L1" "length (w_buffer w1) + length ?rec \<le> ?cap"
  proof (cases "length (w_buffer w) + length ?rec > ?cap")
    case True
    obtain w1 d1 where f: "WAL_FlushWriteBuffer X (w, d) = (Inr (), w1, d1)" "able X w1 d1 (n + length ?rec)" using Flush_ok [OF assms(1,2)] by blast
    obtain L1 where l: "mid X w1 d1 L1 (es @ bs) []" "grows 0 w L w1 L1" using Flush_log [OF f(1) assms(2)] by blast
    then have "w_buffer w1 = []" by (simp add: mid_def buffer_ok_def)
    then show ?thesis using that [of w1 d1 L1 "es @ bs" "[]"] f l assms(5) True by simp
  next
    case False
    then show ?thesis using that [of w d L es bs] assms(1,2) by simp
  qed
  have st: "w_first_index w1 = w_first_index w" "w_segs w1 \<noteq> []" using f(5) assms(3) by (auto simp: grows_def same_state_def)
  have len: "length es1 + length bs1 = length es + length bs" using f(4) by (metis length_append)
  let ?w = "buffer_record X e w1"
  have cap: "?cap < 2 ^ 32" using assms(6) by (simp add: cfg_ok_def)
  have num: "unat (e_index e) = unat (w_first_index w1) + length es1 + length bs1" "unat (w_first_index w1) + length es1 + length bs1 + 1 < 2 ^ 64"
    "length (w_buffer w1) + length ?rec < 2 ^ 32"
    using assms(7,8) len le_less_trans [OF f(6) cap] unfolding st(1) by linarith+
  have m: "mid X ?w d1 L1 es1 (bs1 @ [e])" using buffer_record_log [OF f(3) assms(4) num(1,2) st(2) num(3)] .
  have a: "able X ?w d1 n" by (rule able_change [OF f(2)]) (auto simp: buffer_record_def Let_def)
  have segs: "w_segs ?w \<noteq> []" using st(2) by (simp add: buffer_record_def Let_def)
  have mgr: "mgr_ok X (w_segments ?w) d1 L1" using m by (simp add: mid_def log_ok_def)
  have "\<exists>w' d'. WAL_FlushWriteBufferIfNeeded X (?w, d1) = (Inr (), w', d') \<and> able X w' d' n"
    using Flush_ok [OF a m] a GetCurrent_same [OF mgr segs] by (auto simp: WAL_FlushWriteBufferIfNeeded_def)
  then show ?thesis using f(1) by (simp add: append_buffered_def io_bind_def)
qed

lemma append_entries_ok:
  assumes "able X w d (n + length (records X (map Entry_item new)))" "mid X w d L es bs" "\<forall>e \<in> set new. entry_ok X e"
    "contig i new" "unat i = unat (w_first_index w) + length es + length bs"
    "unat (w_first_index w) + length es + length bs + length new < 2 ^ 64"
    "segment = sm_current_segment_id (w_segments w)" "w_segs w \<noteq> []"
    "unat (sm_current_segment_id (w_segments w)) + 2 * length new < 2 ^ 64" "cfg_ok X"
  shows "\<exists>w' d'. append_entries X new segment (w, d) = (Inr (), w', d') \<and> able X w' d' n"
  using assms
proof (induction new arbitrary: segment w d L es bs i)
  case (Cons e new)
  let ?cur = "\<lambda>w. unat (sm_current_segment_id (w_segments w))" let ?n = "n + length (records X (map Entry_item new))"
  have ei: "e_index e = i" "contig (i + 1) new" using Cons.prems(4) by simp_all
  have budget: "able X w d (?n + length (entry_record X e))" using Cons.prems(1) by (simp add: item_record_def add.commute add.left_commute)
  have cur1: "?cur w + 1 < 2 ^ 64" using Cons.prems(9) by simp
  obtain seg1 w1 d1 where roll: "WAL_MaybeRollSegmentForAppend X (e_index e) segment (w, d) = (Inr seg1, w1, d1)" "able X w1 d1 (?n + length (entry_record X e))"
    using MaybeRoll_ok [OF budget Cons.prems(2) cur1 Cons.prems(10)] by blast
  obtain L1 es1 bs1 where m1: "mid X w1 d1 L1 es1 bs1" "es1 @ bs1 = es @ bs" "grows 1 w L w1 L1"
    "seg1 = sm_current_segment_id (w_segments w1)" "w_segs w1 \<noteq> []"
    by (rule MaybeRoll_log [OF roll(1) Cons.prems(2,7,8)]) (use Cons.prems ei in auto)
  have st1: "w_first_index w1 = w_first_index w" "?cur w1 \<le> ?cur w + 1" using m1(3) by (auto simp: grows_def same_state_def)
  have len1: "length es1 + length bs1 = length es + length bs" using m1(2) by (metis length_append)
  have num: "unat (e_index e) = unat (w_first_index w1) + length es1 + length bs1"
    "unat (w_first_index w1) + length es1 + length bs1 + 1 < 2 ^ 64" "?cur w1 + 1 < 2 ^ 64"
    using Cons.prems(5,6,9) ei st1 len1 by auto
  have ok: "entry_ok X e" using Cons.prems(3) by simp
  have go: "\<exists>w' d'. append_entries X new seg2 (w2, d2) = (Inr (), w', d') \<and> able X w' d' n"
    if m2: "mid X w2 d2 L2 es2 bs2" "es2 @ bs2 = es1 @ bs1 @ [e]" "grows 1 w1 L1 w2 L2" "seg2 = sm_current_segment_id (w_segments w2)" "w_segs w2 \<noteq> []"
      "able X w2 d2 ?n" for seg2 w2 d2 L2 es2 bs2
  proof -
    have st2: "w_first_index w2 = w_first_index w" "?cur w2 \<le> ?cur w + 2" using m2(3) st1 by (auto simp: grows_def same_state_def)
    have len2: "length es2 + length bs2 = length es + length bs + 1" using arg_cong [OF m2(2), of length] len1 by simp
    have "unat (i + 1) = Suc (unat i)" using Cons.prems(5,6) by (intro unat_Suc_bound_u64) simp
    then show ?thesis
      by (intro Cons.IH [OF m2(6,1) _ ei(2)]) (use Cons.prems len2 st2 m2(4,5) in auto)
  qed
  show ?case
  proof (cases "length (entry_record X e) > unat (wc_write_buffer_size (x_config X))")
    case True
    obtain seg2 w2 d2 where a: "append_direct X e (w1, d1) = (Inr seg2, w2, d2)" "able X w2 d2 ?n"
      using append_direct_ok [OF roll(2) m1(1) num(3) Cons.prems(10) num(1)] by blast
    obtain L2 where b: "mid X w2 d2 L2 (es1 @ bs1 @ [e]) []" "grows 1 w1 L1 w2 L2" "seg2 = sm_current_segment_id (w_segments w2)" "w_segs w2 \<noteq> []"
      using append_direct_log [OF a(1) m1(1) ok num Cons.prems(10)] .
    show ?thesis using go [OF b(1) _ b(2-4) a(2)] roll(1) True a(1) by simp
  next
    case False
    obtain w2 d2 where a: "append_buffered X e (w1, d1) = (Inr (), w2, d2)" "able X w2 d2 ?n"
      using append_buffered_ok [OF roll(2) m1(1,5) ok _ Cons.prems(10) num(1,2)] False by auto
    obtain L2 es2 bs2 where b: "mid X w2 d2 L2 es2 bs2" "es2 @ bs2 = es1 @ bs1 @ [e]" "grows 0 w1 L1 w2 L2"
      "sm_current_segment_id (w_segments w2) = sm_current_segment_id (w_segments w1)"
      using append_buffered_log [OF a(1) m1(1) ok num(1,2) m1(5) _ Cons.prems(10)] False by auto
    have "w_segs w2 \<noteq> []" "seg1 = sm_current_segment_id (w_segments w2)" using b(3,4) m1(4,5) by (simp_all add: grows_def)
    then show ?thesis using go [OF b(1,2) grows_mono [OF b(3)] _ _ a(2), of seg1] roll(1) False a(1) by simp
  qed
qed simp

section \<open>Cutting the suffix\<close>

definition named :: "WAL \<Rightarrow> bool" where
  "named w \<longleftrightarrow> (\<forall>p \<in> set (w_segs w). seg_path (snd p) = Segment_MakeSegmentFilename (fst p))"

lemma mgr_named:
  assumes "mgr_ok X (w_segments w) d L"
  shows "named w"
  unfolding named_def
proof
  fix p assume "p \<in> set (w_segs w)"
  then obtain i where "i < length (w_segs w)" "p = w_segs w ! i" by (auto simp: in_set_conv_nth)
  then have "seg_ok X d p (L ! i)" using assms by (simp add: mgr_ok_def list_all2_nthD)
  then show "seg_path (snd p) = Segment_MakeSegmentFilename (fst p)" by (simp add: seg_ok_def)
qed

lemma remove_ok:
  assumes "able X w d n" "named w"
  shows "\<exists>w' d'. on_segments (SegmentManager_RemoveSegment (x_os X) k) (w, d) = (Inr (), w', d') \<and> able X w' d' n \<and> named w'"
proof (cases "map_of (w_segs w) k")
  case None
  then have "on_segments (SegmentManager_RemoveSegment (x_os X) k) (w, d) = (Inr (), w, d)"
    by (simp add: on_segments_def SegmentManager_RemoveSegment_def)
  then show ?thesis using assms by blast
next
  case (Some s)
  let ?path = "Segment_MakeSegmentFilename k"
  have path: "seg_path s = ?path" using assms(2) map_of_SomeD [OF Some] by (auto simp: named_def)
  have os: "\<forall>j. x_os X j = Done" using assms(1) by (simp add: able_def)
  define segs where "segs = AList.delete k (w_segs w)"
  obtain s' c where cl: "Segment_Close (x_os X) (s, d) = (Inr (), s', d\<lparr>d_clock := c\<rparr>)"
    using os by (cases "seg_open s") (auto simp: Segment_Close_def sys_call_def sys_outcome_def intro: that [of _ "d_clock d"])
  define d' where "d' = remove_file ?path (d\<lparr>d_clock := Suc c\<rparr>)"
  define cur where "cur = (if sm_current_segment_id (w_segments w) = k then (if segs = [] then 0 else fst (last segs)) else sm_current_segment_id (w_segments w))"
  have "on_segments (SegmentManager_RemoveSegment (x_os X) k) (w, d) =
      (Inr (), w\<lparr>w_segments := (w_segments w)\<lparr>sm_segments := segs, sm_current_segment_id := cur\<rparr>\<rparr>, d')"
    using Some cl path os
    by (simp add: on_segments_def SegmentManager_RemoveSegment_def sys_call_def sys_outcome_def segs_def d'_def cur_def Let_def)
  moreover have keys: "fst ` set segs = fst ` set (w_segs w) - {k}" by (auto simp: segs_def AList.delete_eq)
  moreover have "set segs \<subseteq> set (w_segs w)" by (auto simp: segs_def AList.delete_eq)
  moreover have "able X (w\<lparr>w_segments := (w_segments w)\<lparr>sm_segments := segs, sm_current_segment_id := cur\<rparr>\<rparr>) d' n"
    by (rule able_change [OF assms(1)]) (use keys in \<open>auto simp: d'_def\<close>)
  ultimately show ?thesis using assms(2) by (auto simp: named_def)
qed

lemma remove_later_ok:
  assumes "able X w d n" "named w"
  shows "\<exists>w' d'. remove_later X segment infos (w, d) = (Inr (), w', d') \<and> able X w' d' n \<and> named w'"
  using assms
proof (induction infos arbitrary: w d)
  case (Cons info infos)
  show ?case
  proof (cases "si_segment_id info \<le> segment")
    case False
    obtain w1 d1 where r: "on_segments (SegmentManager_RemoveSegment (x_os X) (si_segment_id info)) (w, d) = (Inr (), w1, d1)" "able X w1 d1 n" "named w1"
      using remove_ok [OF Cons.prems] by blast
    show ?thesis using Cons.IH [OF r(2,3)] r(1) False by simp
  qed (use Cons in simp)
qed simp

lemma Truncate_ok:
  assumes "able X w d m" "mid X w d L es []" "unat i = unat (w_first_index w) + n" "n < length es"
  shows "\<exists>w' d'. WAL_TruncateSuffixFrom X i (w, d) = (Inr (), w', d') \<and> able X w' d' m"
proof -
  have log: "log_ok X w d L es" using assms(2) by (simp add: mid_def)
  have mgr: "mgr_ok X (w_segments w) d L" and routed: "routed (w_segs w) L" using log by (auto simp: log_ok_def)
  define e where "e = es ! n"
  have ei: "e_index e = i" using log_index_nth [OF log assms(4)] assms(3) by (simp add: e_def u64_eq_iff)
  obtain ss k s ss' Ls is1 is2 Ls' where l: "w_segs w = ss @ (k, s) # ss'" "L = Ls @ (is1 @ Entry_item e # is2) # Ls'"
    "length ss = length Ls" "length ss' = length Ls'" "seg_ok X d (k, s) (is1 @ Entry_item e # is2)" "segment_at k (w_segments w) = s" "k \<notin> fst ` set ss"
    "wi_entries (w_index w) ! n = \<lparr>ie_segment_id = k, ie_offset = of_nat (32 + length (records X is1)),
       ie_length = of_nat (length (entry_record X e)), ie_term = e_term e\<rparr>"
    using log_locate [OF log assms(4)] unfolding e_def by metis
  have look: "WALIndex_Lookup i (w_index w) = Some (wi_entries (w_index w) ! n)" using log_lookup [OF log, of i] assms(3,4) by simp
  have seg: "SegmentManager_GetSegmentForIndex i (w_segments w) = Some k"
    using log_segment [OF routed l(1-4)] ei by (simp add: SegmentManager_GetSegmentForIndex_def)
  let ?pre = "seg_head s @ records X is1" let ?off = "of_nat (32 + length (records X is1)) :: u64"
  obtain junk where s: "seg_segment_id s = k" "seg_path s = Segment_MakeSegmentFilename k" "seg_open s" "file_exists d (seg_path s)"
    "file_of d (seg_path s) = ?pre @ junk"
    using l(5) by (auto simp: seg_ok_def seg_holds_def)
  have os: "\<forall>k. x_os X k = Done" and ff: "fault_free (x_os X) d" using able_fault_free [OF assms(1)] assms(1) by (simp_all add: able_def)
  define s1 where "s1 = s\<lparr>seg_write_offset := ?off, seg_file_size := ?off\<rparr>"
  define d1 where "d1 = set_file (seg_path s) ?pre (d\<lparr>d_clock := Suc (d_clock d)\<rparr>)"
  define w1 where "w1 = w\<lparr>w_segments := (w_segments w)\<lparr>sm_segments := ss @ (k, s1) # ss'\<rparr>\<rparr>"
  have t: "on_segments (on_segment k (Segment_Truncate (x_os X) ?off)) (w, d) = (Inr (), w1, d1)"
    using Segment_Truncate_raw [OF ff s(3,5)] l(1,6,7) by (simp add: on_segments_def on_segment_def update_middle s1_def d1_def w1_def)
  have a1: "able X w1 d1 m" by (rule able_change [OF assms(1)]) (use s(4,5) l(1) in \<open>auto simp: w1_def d1_def\<close>)
  have n1: "named w1" using mgr_named [OF mgr] l(1) by (auto simp: named_def w1_def s1_def)
  have at1: "segment_at k (w_segments w1) = s1" using l(7) by (simp add: segment_at_def w1_def map_add_def map_of_eq_None_iff [THEN iffD2])
  let ?d2 = "d1\<lparr>d_clock := Suc (d_clock d1)\<rparr>"
  have y: "sync_segment X k (w1, d1) = (Inr (), w1, ?d2)"
    using at1 s(3) os by (simp add: sync_segment_def Segment_Sync_def PosixSegmentIo_Sync_def sys_call_def sys_outcome_def s1_def)
  have a2: "able X w1 ?d2 m" by (rule able_change [OF a1]) auto
  obtain w3 d3 where rm: "remove_later X k (SegmentManager_ListSegments (w_segments w1)) (w1, ?d2) = (Inr (), w3, d3)" "able X w3 d3 m"
    using remove_later_ok [OF a2 n1] by blast
  have "WAL_TruncateSuffixFrom X i (w, d) = (Inr (), w3\<lparr>w_index := WALIndex_TruncateFrom i (w_index w3)\<rparr>, d3)"
    using look seg s(1) l(6,8) t y rm(1) at1 by (simp add: WAL_TruncateSuffixFrom_def s1_def)
  moreover have "able X (w3\<lparr>w_index := WALIndex_TruncateFrom i (w_index w3)\<rparr>) d3 m" by (rule able_change [OF rm(2)]) auto
  ultimately show ?thesis by blast
qed

lemma sync_ok:
  assumes "\<forall>k. os k = Done" "\<forall>p \<in> set segs. seg_open (snd p)"
  shows "\<exists>c. sync_segments os segs d = (Inr (), d\<lparr>d_clock := c\<rparr>)"
  using assms(2)
proof (induction segs arbitrary: d)
  case Nil
  then show ?case by (intro exI [of _ "d_clock d"]) simp
next
  case (Cons p segs)
  have "Segment_Sync os (snd p) d = (Inr (), d\<lparr>d_clock := Suc (d_clock d)\<rparr>)"
    using assms(1) Cons.prems by (simp add: Segment_Sync_def PosixSegmentIo_Sync_def sys_call_def sys_outcome_def)
  moreover obtain c where "sync_segments os segs (d\<lparr>d_clock := Suc (d_clock d)\<rparr>) = (Inr (), d\<lparr>d_clock := c\<rparr>)"
    using Cons.IH [of "d\<lparr>d_clock := Suc (d_clock d)\<rparr>"] Cons.prems by auto
  ultimately show ?case by (cases p) auto
qed

lemma mgr_open: "mgr_ok X sm d L \<Longrightarrow> \<forall>p \<in> set (sm_segments sm). seg_open (snd p)"
  by (auto simp: mgr_ok_def list_all2_conv_all_nth in_set_conv_nth seg_ok_def seg_holds_def) (metis snd_conv)

lemma sync_if_configured_ok:
  assumes "able X w d n" "mgr_ok X (w_segments w) d L"
  shows "\<exists>d'. sync_if_configured X (w, d) = (Inr (), w, d') \<and> able X w d' n"
proof -
  obtain c where "sync_segments (x_os X) (w_segs w) d = (Inr (), d\<lparr>d_clock := c\<rparr>)"
    using sync_ok [of "x_os X" "w_segs w" d] assms(1) mgr_open [OF assms(2)] by (auto simp: able_def)
  then show ?thesis using assms(1) able_change [OF assms(1), of "d\<lparr>d_clock := c\<rparr>" w n]
    by (auto simp: sync_if_configured_def on_segments_def SegmentManager_SyncAll_def)
qed

theorem Append_ok:
  assumes "wal_at X w d hss es" "new \<noteq> []"
    "contig (e_index (hd new)) new" "\<forall>e \<in> set new. entry_ok X e"
    "unat (e_index (hd new)) + length new < 2 ^ 64" "unat (sm_current_segment_id (w_segments w)) + 2 * length new + 1 < 2 ^ 64"
    "w_first_index w \<le> e_index (hd new)" "e_index (hd new) \<le> WAL_LastIndex w + 1"
    "able X w d (m + length (records X (map Entry_item new)))"
  shows "\<exists>w' d'. WAL_Append X new (w, d) = (Inr (), w', d') \<and> able X w' d' m"
proof -
  let ?i = "e_index (hd new)" let ?cur = "\<lambda>w. unat (sm_current_segment_id (w_segments w))" let ?n = "m + length (records X (map Entry_item new))"
  define n where "n = unat ?i - unat (w_first_index w)"
  have cfg: "cfg_ok X" using assms(1) by (simp add: wal_at_def)
  obtain L where mL: "mid X w d L es []" using assms(1) by (auto simp: wal_at_def)
  have last: "unat (WAL_LastIndex w + 1) = unat (w_first_index w) + length es" using wal_last(1) [of X w d es] assms(1) by (auto simp: wal_ok_def)
  have i: "unat ?i = unat (w_first_index w) + n" "n \<le> length es" using assms(7,8) last by (auto simp: n_def word_le_nat_alt)
  obtain w1 d1 L1 where o1: "(if ?i = WAL_LastIndex w + 1 then io_return ()
      else if ?i < WAL_LastIndex w + 1 \<and> w_first_index w \<le> ?i then WAL_TruncateSuffixFrom X ?i
      else io_fail (FatalError (Fmt ''non-continuous entries: expected {}, got {}'' [WAL_LastIndex w + 1, ?i]))) (w, d) = (Inr (), w1, d1)"
    and a1: "able X w1 d1 ?n" and m1: "mid X w1 d1 L1 (take n es) []" "same_state w w1" "?cur w1 \<le> ?cur w"
  proof (cases "?i = WAL_LastIndex w + 1")
    case True
    then show ?thesis using that [of w d L] mL assms(9) last i by simp
  next
    case False
    have n: "n < length es" using False i last by (auto simp: u64_eq_iff)
    obtain w1 d1 where t: "WAL_TruncateSuffixFrom X ?i (w, d) = (Inr (), w1, d1)" "able X w1 d1 ?n"
      using Truncate_ok [OF assms(9) mL i(1) n] by blast
    obtain L1 where "mid X w1 d1 L1 (take n es) []" "same_state w w1" "?cur w1 \<le> ?cur w"
      using Truncate_log [OF t(1) mL i(1) n] by metis
    then show ?thesis using that [of w1 d1 L1] t False assms(7,8) by (auto simp: order_less_le)
  qed
  have st1: "w_first_index w1 = w_first_index w" using m1(2) by (simp add: same_state_def)
  have len: "length (take n es) = n" using i(2) by simp
  obtain seg w2 d2 where o2: "WAL_GetCurrentSegmentForAppend X ?i (w1, d1) = (Inr seg, w2, d2)" and a2: "able X w2 d2 ?n"
    using GetCurrent_ok [OF a1 m1(1) _ cfg, of ?i] i st1 len m1(3) assms(6) by auto
  obtain L2 es2 bs2 where m2: "mid X w2 d2 L2 es2 bs2" "es2 @ bs2 = take n es" "grows 1 w1 L1 w2 L2" "seg = sm_current_segment_id (w_segments w2)" "w_segs w2 \<noteq> []" "bs2 = []"
    using GetCurrent_log [OF o2 m1(1) _ _ cfg] i st1 len m1(3) assms(6) by auto
  have m2': "mid X w2 d2 L2 (take n es) []" using m2(1,2,6) by simp
  have st2: "same_state w w2" "w_first_index w2 = w_first_index w" "?cur w2 \<le> ?cur w + 1"
    using m2(3) m1(2,3) by (auto simp: grows_def same_state_def)
  have num: "unat ?i = unat (w_first_index w2) + length (take n es) + length ([] :: entry list)"
    "unat (w_first_index w2) + length (take n es) + length ([] :: entry list) + length new < 2 ^ 64" "?cur w2 + 2 * length new < 2 ^ 64"
    using i len st2(2,3) assms(5,6) by simp_all
  obtain w3 d3 where o3: "append_entries X new seg (w2, d2) = (Inr (), w3, d3)" and a3: "able X w3 d3 m"
    using append_entries_ok [OF a2 m2' assms(4,3) num(1,2) m2(4,5) num(3) cfg] by blast
  obtain L3 es3 bs3 where m3: "mid X w3 d3 L3 es3 bs3" "es3 @ bs3 = take n es @ [] @ new"
    using append_entries_log [OF o3 m2' assms(4,3) num(1,2) m2(4,5) num(3) cfg] .
  obtain w4 d4 where o4: "WAL_FlushWriteBuffer X (w3, d3) = (Inr (), w4, d4)" and a4: "able X w4 d4 m"
    using Flush_ok [OF a3 m3(1)] by blast
  obtain L4 es4 where m4: "mid X w4 d4 L4 es4 []" using Flush_log [OF o4 m3(1)] by metis
  obtain d5 where o5: "sync_if_configured X (w4, d4) = (Inr (), w4, d5)" and a5: "able X w4 d5 m"
    using sync_if_configured_ok [OF a4, of L4] m4 by (auto simp: mid_def log_ok_def)
  have "WAL_Append X new (w, d) = (Inr (), w4, d5)"
    using assms(2) o1 o2 o3 o4 o5 unfolding WAL_Append_def by (simp add: Let_def)
  then show ?thesis using a5 by blast
qed

section \<open>Saving the hard state\<close>

lemma AtomicWrite_ok:
  assumes "\<forall>k. os k = Done"
  shows "\<exists>d'. MetadataStore_AtomicWrite os data d = (Inr (), d') \<and> file_of d' metadata_tmp_path = []"
  using assms by (simp add: MetadataStore_AtomicWrite_def sys_call_def sys_outcome_def sys_pwrite_def rename_file_def metadata_path_def metadata_tmp_path_def)

lemma save_metadata_ok:
  assumes "able X w d n" "length (MetadataStore_Serialize (x_codec X) meta) + length (w_buffer w) + n < 2 ^ 63"
  shows "\<exists>d'. save_metadata X meta (w, d) = (Inr (), w, d') \<and> able X w d' n"
proof -
  let ?data = "MetadataStore_Serialize (x_codec X) meta"
  obtain d' where d': "MetadataStore_AtomicWrite (x_os X) ?data d = (Inr (), d')" "file_of d' metadata_tmp_path = []"
    using AtomicWrite_ok [of "x_os X" ?data d] assms(1) by (auto simp: able_def)
  have e: "same_but {metadata_tmp_path, metadata_path} d d'" "file_of d' metadata_path = ?data"
    using AtomicWrite_effect [OF d'(1)] by auto
  have "length (file_of d' name) + length (w_buffer w) + n < 2 ^ 63" for name
  proof (cases "name = metadata_path")
    case False
    then have "length (file_of d' name) \<le> length (file_of d name)" using e(1) d'(2) by (cases "name = metadata_tmp_path") (auto simp: same_but_def)
    moreover have "length (file_of d name) + length (w_buffer w) + n < 2 ^ 63" using assms(1) by (simp add: able_def)
    ultimately show ?thesis by linarith
  qed (use e(2) assms(2) in simp)
  moreover have "file_exists d' (Segment_MakeSegmentFilename k) = file_exists d (Segment_MakeSegmentFilename k)" for k
    using e(1) metadata_names [of k] by (simp add: same_but_def)
  ultimately have "able X w d' n" using assms(1) by (simp add: able_def)
  then show ?thesis using d'(1) by (simp add: save_metadata_def MetadataStore_Save_def)
qed

lemma SaveHardState_ok:
  assumes "wal_at X w d hss es" "item_ok X (State_item hs)" "room X w (length (hard_state_record X hs))"
    "unat (sm_current_segment_id (w_segments w)) + 1 < 2 ^ 64" "able X w d (m + length (hard_state_record X hs))"
    "length (MetadataStore_Serialize (x_codec X) (WAL_CreateMetadata (w\<lparr>w_hard_state := hs\<rparr>))) + m < 2 ^ 63"
  shows "\<exists>w' d'. WAL_SaveHardState X hs (w, d) = (Inr (), w', d') \<and> able X w' d' m"
proof -
  let ?w = "w\<lparr>w_hard_state := hs\<rparr>" let ?rec = "hard_state_record X hs" let ?n = "m + length ?rec"
  obtain L where L: "mid X w d L es []" "cfg_ok X" using assms(1) by (auto simp: wal_at_def)
  have m: "mid X ?w d L es []" using L(1) by (simp add: mid_cong [of ?w w])
  have a: "able X ?w d ?n" by (rule able_change [OF assms(5)]) auto
  have r: "room X ?w n = room X w n" for n by (simp add: room_def)
  have "w_segs w = [] \<Longrightarrow> es = []" using L(1) unfolding mid_def log_ok_def by (auto simp: all_positions_def live_def)
  then obtain seg w1 d1 where o1: "WAL_GetCurrentSegmentForAppend X (w_first_index ?w) (?w, d) = (Inr seg, w1, d1)" and a1: "able X w1 d1 ?n"
    using GetCurrent_ok [OF a m _ L(2), of "w_first_index ?w"] assms(4) by auto
  obtain L1 where c: "mid X w1 d1 L1 es []" "grows 1 ?w L w1 L1" "seg = sm_current_segment_id (w_segments w1)" "w_segs w1 \<noteq> []"
    "room X w1 (length ?rec)"
    using GetCurrent_room [OF o1 m _ L(2), of "length ?rec"] r assms(3,4) by auto
  have mgr1: "mgr_ok X (w_segments w1) d1 L1" using c(1) by (simp add: mid_def log_ok_def)
  obtain sm2 d2 where o2: "on_segments (on_segment seg (Segment_Append (x_os X) ?rec)) (w1, d1) = (Inr (), w1\<lparr>w_segments := sm2\<rparr>, d2)"
    and k2: "map fst (sm_segments sm2) = map fst (w_segs w1)" "\<forall>name. file_exists d2 name = file_exists d1 name"
      "\<forall>name. length (file_of d2 name) \<le> length (file_of d1 name) + length ?rec"
    using write_ok [OF a1 mgr1 c(4), of ?rec] c(3) by blast
  let ?w2 = "w1\<lparr>w_segments := sm2\<rparr>"
  have a2: "able X ?w2 d2 m" by (rule able_change [OF a1]) (use k2 fst_image_keys [OF k2(1)] in auto)
  obtain L2 where s: "mid X ?w2 d2 L2 es []" using append_state [OF c(1,4) assms(2) c(5) o2 [unfolded c(3)]] by metis
  have "WAL_CreateMetadata ?w2 = WAL_CreateMetadata ?w" using c(2) by (simp add: grows_def same_state_def WAL_CreateMetadata_def)
  then obtain d3 where o3: "save_metadata X (WAL_CreateMetadata ?w2) (?w2, d2) = (Inr (), ?w2, d3)" and a3: "able X ?w2 d3 m"
    using save_metadata_ok [OF a2, of "WAL_CreateMetadata ?w2"] assms(6) s by (auto simp: mid_def buffer_ok_def)
  have meta: "same_but {metadata_tmp_path, metadata_path} d2 d3"
    using o3 AtomicWrite_effect [of "x_os X" "MetadataStore_Serialize (x_codec X) (WAL_CreateMetadata ?w2)" d2] by (auto simp: save_metadata_def MetadataStore_Save_def split: prod.splits)
  have "mid X ?w2 d3 L2 es []" using mid_same_but [OF s meta metadata_names] .
  then obtain d4 where o4: "sync_if_configured X (?w2, d3) = (Inr (), ?w2, d4)" and a4: "able X ?w2 d4 m"
    using sync_if_configured_ok [OF a3, of L2] by (auto simp: mid_def log_ok_def)
  have "WAL_SaveHardState X hs (w, d) = (Inr (), ?w2, d4)"
    using Flush_empty [OF m] o1 o2 o3 o4 by (simp add: WAL_SaveHardState_def)
  then show ?thesis using a4 by blast
qed

end
