(* ===== verification/WalDurability.thy ===== *)
theory WalDurability
  imports WalTotal
begin

text \<open>What the write-ahead log promises from the first start on.\<close>

lemma SaveHardState_at:
  assumes "wal_at X w d hss es" "WAL_SaveHardState X hs (w, d) = (Inr u, w', d')" "item_ok X (State_item hs)"
    "room X w (length (hard_state_record X hs))" "unat (sm_current_segment_id (w_segments w)) + 1 < 2 ^ 64"
  shows "wal_at X w' d' (hss @ [hs]) es \<and> same_state (w\<lparr>w_hard_state := hs\<rparr>) w' \<and> file_exists d' metadata_path \<and>
    file_of d' metadata_path = MetadataStore_Serialize (x_codec X) (WAL_CreateMetadata w') \<and>
    unat (sm_current_segment_id (w_segments w')) \<le> unat (sm_current_segment_id (w_segments w)) + 1"
proof -
  obtain L where L: "mid X w d L es []" "layout_states L = hss" "cfg_ok X" "es = [] \<longrightarrow> w_snapshot_index w + 1 = w_first_index w"
    using assms(1) by (auto simp: wal_at_def)
  show ?thesis
    by (rule SaveHardState_log [OF assms(2) L(1) assms(3) L(3) assms(4,5)]) (use L in \<open>auto simp: wal_at_def same_state_def\<close>)
qed

lemma AtomicWrite_done:
  assumes "\<forall>n. os n = Done" "d_files d = []"
  shows "\<exists>d'. MetadataStore_AtomicWrite os data d = (Inr (), d') \<and> d_files d' = [(metadata_path, data)] \<and> d_dir d' = d_dir d"
  using assms by (simp add: MetadataStore_AtomicWrite_def sys_call_def sys_outcome_def sys_pwrite_def set_file_def file_of_def
      rename_file_def remove_file_def put_at_def extend_to_def)

lemma parse_metadata_path: "Segment_ParseSegmentId metadata_path = None"
  by (simp add: Segment_ParseSegmentId_def metadata_path_def Let_def)

lemma Open_fresh:
  assumes "\<forall>n. x_os X n = Done" "SelectSegmentIoBackend (x_engine X) (x_to_string X) (x_config X) = Inr b" "cfg_ok X" "d_files d = []"
  shows "\<exists>w d'. WAL_Open X d = Some (Inr w, d') \<and> wal_at X w d' [] [] \<and> w_segs w = [] \<and> sm_current_segment_id (w_segments w) = 0 \<and>
    same_state (WAL_new\<lparr>w_hard_state := default_hard_state\<rparr>) w \<and> d_dir d' \<and> d_files d' = [(metadata_path, MetadataStore_Serialize (x_codec X) WALMetadata_new)]"
proof -
  let ?data = "MetadataStore_Serialize (x_codec X) WALMetadata_new"
  obtain be nt where b: "b = (be, nt)" by (cases b)
  define d0 where "d0 = (if d_dir d then d else d\<lparr>d_clock := Suc (d_clock d), d_dir := True\<rparr>)"
  have d0: "d_files d0 = []" "d_dir d0" using assms(4) by (simp_all add: d0_def)
  obtain d1 where d1: "MetadataStore_AtomicWrite (x_os X) ?data d0 = (Inr (), d1)" "d_files d1 = [(metadata_path, ?data)]" "d_dir d1"
    using AtomicWrite_done [OF assms(1), of d0 ?data] d0 by auto
  have "metadata_encodes (x_codec X) WALMetadata_new" by (simp add: metadata_encodes_def WALMetadata_new_def)
  note des = Deserialize_Serialize [OF this]
  have init: "MetadataStore_Initialize (x_os X) (x_codec X) d = (Inr (), d1)"
    using assms(1,4) d1(1) by (auto simp: MetadataStore_Initialize_def MetadataStore_Exists_def MetadataStore_Save_def sys_call_def
        sys_outcome_def d0_def file_exists_def)
  let ?d2 = "d1\<lparr>d_clock := Suc (d_clock d1)\<rparr>" let ?d3 = "?d2\<lparr>d_clock := d_clock ?d2 + 3\<rparr>"
  have seg: "SegmentManager_Initialize (x_os X) (SegmentManager_new, d1) = (Inr (), SegmentManager_new, ?d2)"
    using assms(1) d1(2,3) by (simp add: SegmentManager_Initialize_def sys_call_def sys_outcome_def parse_metadata_path)
  have load: "MetadataStore_Load (x_os X) (x_codec X) ?d2 = (Inr (metadata_read WALMetadata_new), ?d3)"
    using assms(1) d1(2) des by (simp add: MetadataStore_Load_def MetadataStore_Exists_def sys_call_def sys_outcome_def sys_pread_def
        file_exists_def file_of_def subspan_def)
  define w where "w = WAL_new\<lparr>w_effective_io_backend := be, w_io_backend_note := nt, w_buffer := [], w_segments := SegmentManager_new,
    w_hard_state := default_hard_state, w_conf_state := default_conf_state\<rparr>"
  have "WAL_Open X d = Some (Inr w, ?d3)"
    using assms(2) b init seg load
    by (simp add: WAL_Open_def WAL_Initialize_def WAL_Recover_def on_segments_def metadata_read_def WALMetadata_new_def w_def WAL_new_def
        SegmentManager_ListSegments_def SegmentManager_new_def check_consistent_def WAL_LastIndex_def WALIndex_empty_def WALIndex_new_def
        WALIndex_SetFirstIndex_def io_bind_def default_hard_state_def MakeHardState_def)
  moreover have "wal_at X w ?d3 [] []"
    unfolding wal_at_def mid_def log_ok_def
    using assms(3) by (auto simp: w_def WAL_new_def mgr_ok_def SegmentManager_new_def buffer_ok_def routed_def WALIndex_new_def live_def all_positions_def
        intro!: exI [of _ "[]"])
  ultimately show ?thesis using d1(2,3) by (auto simp: w_def WAL_new_def SegmentManager_new_def same_state_def)
qed

section \<open>The storage implements the memory storage\<close>

text \<open>
  C9. Appending to the storage over the log does what appending to the memory storage does: on a disk that carries out
  every call and has room for the records, the same batches are refused, with a fatal error that leaves storage and
  disk unchanged, and after an accepted batch the storage again holds the entries of the memory storage.
\<close>

theorem wal_append_refines:
  assumes "ws_ok X s d es" "new \<noteq> []" "contig (e_index (hd new)) new" "\<forall>e \<in> set new. entry_ok X e"
    "unat (e_index (hd new)) + length new < 2 ^ 64"
    "unat (sm_current_segment_id (w_segments (ws_wal s))) + 2 * length new + 1 < 2 ^ 64"
    "able X (ws_wal s) d (length (records X (map Entry_item new)))"
  shows "case MemoryStorage_Append new (ws_mem s es) of
      (Inl _, _) \<Rightarrow> \<exists>msg. WALStorage_Append X new (s, d) = (Inl (FatalError msg), s, d)
    | (Inr _, m) \<Rightarrow> \<exists>s' d' es'. WALStorage_Append X new (s, d) = (Inr (), s', d') \<and> ws_ok X s' d' es' \<and> m = ws_mem s' es'"
proof (cases "MemoryStorage_Append new (ws_mem s es)")
  case (Pair r m)
  show ?thesis
  proof (cases r)
    case (Inl e)
    then show ?thesis using ws_append_rejected [OF assms(1,2)] Pair by simp
  next
    case (Inr u)
    obtain hss where at: "wal_at X (ws_wal s) d hss es" using assms(1) by (auto simp: ws_ok_def wal_ok_def)
    have "\<not> e_index (hd new) < w_first_index (ws_wal s)" "\<not> WAL_LastIndex (ws_wal s) + 1 < e_index (hd new)"
      using Pair Inr assms(2) ws_mem_first [OF assms(1)] ws_mem_last [OF assms(1)]
      by (auto simp: MemoryStorage_Append_def MemoryStorage_MayAppend_def Let_def split: if_splits)
    then obtain w' d' where "WAL_Append X new (ws_wal s, d) = (Inr (), w', d')"
      using Append_ok [OF at assms(2-6), of 0] assms(7) by (auto simp: not_less)
    then have w: "WALStorage_Append X new (s, d) = (Inr (), s\<lparr>ws_wal := w'\<rparr>, d')" by (simp add: WALStorage_Append_def on_wal_def)
    then show ?thesis using ws_append_done [OF assms(1) w assms(2-6)] Pair Inr by auto
  qed
qed


section \<open>The log survives its process\<close>



section \<open>A log from its first start\<close>

lemma survives_files:
  assumes "wal_at X w d hss es" "able X w d n" "d_dir d1" "\<forall>name. file_of d1 name = file_of d name \<and> file_exists d1 name = file_exists d name" "file_exists d metadata_path"
    "file_of d metadata_path = MetadataStore_Serialize (x_codec X) (WAL_CreateMetadata w)"
  shows "survives X w d d1"
proof -
  obtain L where m: "mgr_ok X (w_segments w) d L" using assms(1) by (auto simp: wal_at_def mid_def log_ok_def)
  then have mgr: "list_all2 (seg_ok X d) (w_segs w) L" by (simp add: mgr_ok_def)
  have path: "seg_path (snd p) = Segment_MakeSegmentFilename (fst p)" if "p \<in> set (w_segs w)" for p
    using mgr_named [OF m] that by (simp add: named_def)
  have seg: "file_exists d (seg_path (snd p)) \<and> (\<exists>junk. seg_tail X junk \<and>
      file_of d (seg_path (snd p)) = take (unat (seg_write_offset (snd p))) (file_of d (seg_path (snd p))) @ junk)" if p: "p \<in> set (w_segs w)" for p
  proof -
    obtain "is" where "seg_ok X d p is" using mgr p by (metis in_set_conv_nth list_all2_conv_all_nth)
    then obtain z where z: "file_exists d (seg_path (snd p))" "unat (seg_write_offset (snd p)) = 32 + length (records X is)" "file_of d (seg_path (snd p)) = seg_head (snd p) @ records X is @ replicate z 0"
      by (auto simp: seg_ok_def seg_holds_def)
    have "seg_tail X (replicate z 0)" by (auto simp: seg_tail_def)
    then show ?thesis using z by (intro conjI exI [of _ "replicate z 0"]) simp_all
  qed
  have "name \<in> (\<lambda>p. seg_path (snd p)) ` set (w_segs w)" if f: "file_exists d name" "Segment_ParseSegmentId name \<noteq> None" for name
  proof -
    obtain k where k: "name = Segment_MakeSegmentFilename k" using f(2) ParseSegmentId_SomeD by blast
    then obtain p where "p \<in> set (w_segs w)" "k = fst p" using assms(2) f(1) by (auto simp: able_def)
    then show ?thesis using path [of p] k by force
  qed
  note names = this
  have "file_of d1 = file_of d" "file_exists d1 = file_exists d" using assms(4) by auto
  then show ?thesis
    unfolding survives_def using assms(3,5,6) by (intro conjI ballI allI impI) (use seg names in metis)+
qed

definition ex_wal_env :: wal_env where
  "ex_wal_env = \<lparr>x_os = (\<lambda>_. Done), x_codec = ex_codec,
     x_config = DefaultWALConfig\<lparr>wc_segment_size := 256, wc_write_buffer_size := 64, wc_preallocate := False\<rparr>,
     x_engine = (\<lambda>_. Inl (StorageError IoUringNotBuilt)), x_to_string = (\<lambda>_. [])\<rparr>"

definition ex_disk :: disk where
  "ex_disk = \<lparr>d_dir = False, d_files = [], d_clock = 0\<rparr>"

definition ex_log :: "entry list" where
  "ex_log = [MakeEntry 1 1 ENTRY_NORMAL, MakeEntry 2 1 ENTRY_NORMAL]"

definition ex_state :: hard_state where
  "ex_state = MakeHardState 1 2 1"

lemma ex_config: "cfg_ok ex_wal_env" "\<forall>n. x_os ex_wal_env n = Done" "x_codec ex_wal_env = ex_codec"
    "\<exists>b. SelectSegmentIoBackend (x_engine ex_wal_env) (x_to_string ex_wal_env) (x_config ex_wal_env) = Inr b"
  by (simp_all add: ex_wal_env_def cfg_ok_def SelectSegmentIoBackend_def DefaultWALConfig_def)

lemma ex_log: "ex_log \<noteq> []" "contig (e_index (hd ex_log)) ex_log" "\<forall>e \<in> set ex_log. entry_ok ex_wal_env e" "e_index (hd ex_log) = 1" "length ex_log = 2"
  using ex_codec_entry by (simp_all add: ex_log_def item_ok_def ex_config) (simp_all add: MakeEntry_def)

lemma ex_lengths: "length (records ex_wal_env (map Entry_item ex_log)) = 64" "length (hard_state_record ex_wal_env ex_state) = 40"
    "length (MetadataStore_Serialize ex_codec WALMetadata_new) < 200"
    "length (MetadataStore_Serialize ex_codec \<lparr>wm_hard_state = Some ex_state, wm_conf_state = Some default_conf_state, wm_peer_addresses = [],
      wm_first_index = 1, wm_snapshot_index = 0, wm_snapshot_term = 0\<rparr>) < 200"
    "case (case WAL_Open ex_wal_env ex_disk of Some (Inr w, d) \<Rightarrow> Some (WAL_Append ex_wal_env ex_log (w, d)) | _ \<Rightarrow> None) of
       Some (Inr _, w, d) \<Rightarrow> room ex_wal_env w 40 | _ \<Rightarrow> False"
  by code_simp+

lemma ex_open:
  obtains w d where "WAL_Open ex_wal_env ex_disk = Some (Inr w, d)" "wal_at ex_wal_env w d [] []" "same_state (WAL_new\<lparr>w_hard_state := default_hard_state\<rparr>) w"
    "sm_current_segment_id (w_segments w) = 0" "able ex_wal_env w d (2 ^ 40)"
proof -
  obtain b where b: "SelectSegmentIoBackend (x_engine ex_wal_env) (x_to_string ex_wal_env) (x_config ex_wal_env) = Inr b" using ex_config(4) by blast
  have files: "d_files ex_disk = []" by (simp add: ex_disk_def)
  obtain w d where o: "WAL_Open ex_wal_env ex_disk = Some (Inr w, d)" "wal_at ex_wal_env w d [] []"
    "same_state (WAL_new\<lparr>w_hard_state := default_hard_state\<rparr>) w" "sm_current_segment_id (w_segments w) = 0"
    "d_files d = [(metadata_path, MetadataStore_Serialize ex_codec WALMetadata_new)]"
    using Open_fresh [OF ex_config(2) b ex_config(1) files] ex_config(3) by auto
  have "w_buffer w = []" using o(2) by (auto simp: wal_at_def mid_def buffer_ok_def)
  moreover have "length (file_of d name) < 200" for name using ex_lengths(3) o(5) by (simp add: file_of_def)
  moreover have "\<not> file_exists d (Segment_MakeSegmentFilename k)" for k using metadata_names [of k] o(5) by (auto simp: file_exists_def)
  moreover have "unat (wc_segment_size (x_config ex_wal_env)) = 256" by (simp add: ex_wal_env_def)
  ultimately have "able ex_wal_env w d (2 ^ 40)"
    using ex_config(2) by (auto simp: able_def intro: order.strict_trans [of _ 200])
  then show ?thesis using that o by blast
qed

lemma ex_append:
  obtains w d w1 d1 where "WAL_Open ex_wal_env ex_disk = Some (Inr w, d)" "WAL_Append ex_wal_env ex_log (w, d) = (Inr (), w1, d1)"
    "wal_at ex_wal_env w1 d1 [] ex_log" "same_state (WAL_new\<lparr>w_hard_state := default_hard_state\<rparr>) w1"
    "unat (sm_current_segment_id (w_segments w1)) \<le> 5" "able ex_wal_env w1 d1 (2 ^ 39)" "room ex_wal_env w1 40"
proof -
  obtain w d where o: "WAL_Open ex_wal_env ex_disk = Some (Inr w, d)" "wal_at ex_wal_env w d [] []"
    "same_state (WAL_new\<lparr>w_hard_state := default_hard_state\<rparr>) w" "sm_current_segment_id (w_segments w) = 0" "able ex_wal_env w d (2 ^ 40)"
    using ex_open .
  have "wal_ok ex_wal_env w d []" using o(2) by (auto simp: wal_ok_def)
  then have last: "unat (WAL_LastIndex w + 1) = 1" "w_first_index w = 1" using wal_last(1) o(3) by (force simp: same_state_def WAL_new_def)+
  have "able ex_wal_env w d (2 ^ 39 + length (records ex_wal_env (map Entry_item ex_log)))"
    by (rule able_mono [OF o(5)]) (simp add: ex_lengths)
  then obtain w1 d1 where a: "WAL_Append ex_wal_env ex_log (w, d) = (Inr (), w1, d1)" "able ex_wal_env w1 d1 (2 ^ 39)"
    using Append_ok [OF o(2) ex_log(1-3), of "2 ^ 39"] ex_log(4,5) o(4) last by (auto simp: word_le_nat_alt)
  have "wal_at ex_wal_env w1 d1 [] ex_log \<and> same_state w w1 \<and> unat (sm_current_segment_id (w_segments w1)) \<le> 5"
    using Append_log [OF o(2) a(1) ex_log(1-3)] ex_log(4,5) o(4) last by simp
  moreover have "room ex_wal_env w1 40" using ex_lengths(5) o(1) a(1) by simp
  ultimately show ?thesis using that [OF o(1) a(1)] a(2) o(3) by (blast intro: same_state_trans)
qed

lemma ex_save:
  obtains w d w1 d1 w2 d2 where "WAL_Open ex_wal_env ex_disk = Some (Inr w, d)" "WAL_Append ex_wal_env ex_log (w, d) = (Inr (), w1, d1)"
    "WAL_SaveHardState ex_wal_env ex_state (w1, d1) = (Inr (), w2, d2)"
    "wal_at ex_wal_env w1 d1 [] ex_log" "room ex_wal_env w1 40" "unat (sm_current_segment_id (w_segments w1)) \<le> 5"
    "same_state (WAL_new\<lparr>w_hard_state := default_hard_state\<rparr>) w1"
    "wal_at ex_wal_env w2 d2 [ex_state] ex_log" "same_state (WAL_new\<lparr>w_hard_state := ex_state\<rparr>) w2"
    "metadata_encodes ex_codec (WAL_CreateMetadata w2)"
    "fault_free (x_os ex_wal_env) d2" "survives ex_wal_env w2 d2 (d2\<lparr>d_dir := True\<rparr>)" "\<forall>p \<in> set (w_segs w2). unat (fst p) < 10 ^ 6"
proof -
  obtain w d w1 d1 where a: "WAL_Open ex_wal_env ex_disk = Some (Inr w, d)" "WAL_Append ex_wal_env ex_log (w, d) = (Inr (), w1, d1)"
    "wal_at ex_wal_env w1 d1 [] ex_log" "same_state (WAL_new\<lparr>w_hard_state := default_hard_state\<rparr>) w1"
    "unat (sm_current_segment_id (w_segments w1)) \<le> 5" "able ex_wal_env w1 d1 (2 ^ 39)" "room ex_wal_env w1 40"
    using ex_append .
  have st: "item_ok ex_wal_env (State_item ex_state)" using ex_codec_hard_state by (simp add: item_ok_def ex_config)
  have room: "room ex_wal_env w1 (length (hard_state_record ex_wal_env ex_state))" using a(7) by (simp add: ex_lengths)
  have cur: "unat (sm_current_segment_id (w_segments w1)) + 1 < 2 ^ 64" using a(5) by simp
  have ab: "able ex_wal_env w1 d1 (2 ^ 38 + length (hard_state_record ex_wal_env ex_state))"
    by (rule able_mono [OF a(6)]) (simp add: ex_lengths)
  have meta: "WAL_CreateMetadata w3 = \<lparr>wm_hard_state = Some ex_state, wm_conf_state = Some default_conf_state, wm_peer_addresses = [],
      wm_first_index = 1, wm_snapshot_index = 0, wm_snapshot_term = 0\<rparr>" if "same_state (WAL_new\<lparr>w_hard_state := ex_state\<rparr>) w3" for w3
    using that by (simp add: same_state_def WAL_CreateMetadata_def WAL_new_def)
  have "same_state (WAL_new\<lparr>w_hard_state := ex_state\<rparr>) (w1\<lparr>w_hard_state := ex_state\<rparr>)" using a(4) by (simp add: same_state_def)
  then have "length (MetadataStore_Serialize (x_codec ex_wal_env) (WAL_CreateMetadata (w1\<lparr>w_hard_state := ex_state\<rparr>))) + 2 ^ 38 < 2 ^ 63"
    using ex_lengths(4) by (simp add: meta ex_config)
  then obtain w2 d2 where b: "WAL_SaveHardState ex_wal_env ex_state (w1, d1) = (Inr (), w2, d2)" "able ex_wal_env w2 d2 (2 ^ 38)"
    using SaveHardState_ok [OF a(3) st room cur ab] by blast
  have c: "wal_at ex_wal_env w2 d2 [ex_state] ex_log" "same_state (w1\<lparr>w_hard_state := ex_state\<rparr>) w2" "file_exists d2 metadata_path"
    "file_of d2 metadata_path = MetadataStore_Serialize (x_codec ex_wal_env) (WAL_CreateMetadata w2)"
    "unat (sm_current_segment_id (w_segments w2)) \<le> 6"
    using SaveHardState_at [OF a(3) b(1) st room cur] a(5) by auto
  have s2: "same_state (WAL_new\<lparr>w_hard_state := ex_state\<rparr>) w2" using c(2) a(4) by (simp add: same_state_def)
  have enc: "metadata_encodes ex_codec (WAL_CreateMetadata w2)"
    using ex_codec_hard_state unfolding meta [OF s2] by (simp add: metadata_encodes_def) (simp add: encodes_def ex_codec_def)
  have sv: "survives ex_wal_env w2 d2 (d2\<lparr>d_dir := True\<rparr>)"
    by (rule survives_files [OF c(1) b(2)]) (use c(3,4) in \<open>simp_all add: file_of_def file_exists_def\<close>)
  have "unat (fst p) < 10 ^ 6" if p: "p \<in> set (w_segs w2)" for p
  proof -
    obtain L where mgr: "mgr_ok ex_wal_env (w_segments w2) d2 L" using c(1) by (auto simp: wal_at_def mid_def log_ok_def)
    have ne: "w_segs w2 \<noteq> []" using p by auto
    obtain ss s where ss: "w_segs w2 = ss @ [(sm_current_segment_id (w_segments w2), s)]" using mgr_current [OF mgr ne] .
    then have "fst p \<le> sm_current_segment_id (w_segments w2)" using p mgr by (auto simp: mgr_ok_def sorted_wrt_append less_imp_le)
    then show ?thesis using c(5) by (simp add: word_le_nat_alt)
  qed
  then show ?thesis using that [OF a(1,2) b(1) a(3,7,5,4) c(1) s2 enc able_fault_free [OF b(2)] sv] by blast
qed



lemma unat_eq_1_u64: "unat (x + 1 :: u64) = 1 \<longleftrightarrow> x = 0"
  by (metis add_cancel_left_left unat_1 word_unat_eq_iff)

text \<open>The storage that opens the directory for the first time, and the entries it is given.\<close>

lemma ex_storage:
  obtains s d where "WALStorage_Open ex_wal_env ex_disk = Some (Inr s, d)" "ws_ok ex_wal_env s d []" "able ex_wal_env (ws_wal s) d (2 ^ 40)"
    "sm_current_segment_id (w_segments (ws_wal s)) = 0" "MemoryStorage_Append ex_log (ws_mem s []) = (Inr (), (ws_mem s [])\<lparr>ms_entries := ex_log\<rparr>)"
    "w_first_index (ws_wal s) = 1" "WAL_LastIndex (ws_wal s) = 0"
proof -
  obtain w d where o: "WAL_Open ex_wal_env ex_disk = Some (Inr w, d)" "wal_at ex_wal_env w d [] []"
    "same_state (WAL_new\<lparr>w_hard_state := default_hard_state\<rparr>) w" "sm_current_segment_id (w_segments w) = 0" "able ex_wal_env w d (2 ^ 40)"
    using ex_open .
  define s where "s = \<lparr>ws_wal = w, ws_snapshot = default_snapshot, ws_effective_io_backend = w_effective_io_backend w, ws_io_backend_note = w_io_backend_note w\<rparr>"
  have fields: "w_snapshot_index w = 0" "w_first_index w = 1" using o(3) by (simp_all add: same_state_def WAL_new_def)
  have ok: "wal_ok ex_wal_env w d []" using o(2) by (auto simp: wal_ok_def)
  have "unat (WAL_LastIndex w + 1) = 1" using wal_last(1) [OF ok] fields by simp
  then have last: "WAL_LastIndex w = 0" by (rule unat_eq_1_u64 [THEN iffD1])
  have ws: "ws_ok ex_wal_env s d []"
    using ok fields by (simp add: ws_ok_def s_def default_snapshot_def Let_def default_snapshot_metadata_def)
  have "MemoryStorage_Append ex_log (ws_mem s []) = (Inr (), (ws_mem s [])\<lparr>ms_entries := ex_log\<rparr>)"
    using ws_mem_first [OF ws] ws_mem_last [OF ws] fields last ex_log(1,4)
    by (simp add: MemoryStorage_Append_def MemoryStorage_MayAppend_def s_def ws_mem_def Let_def)
  moreover have "WALStorage_Open ex_wal_env ex_disk = Some (Inr s, d)" using o(1) fields by (simp add: WALStorage_Open_def s_def Let_def)
  ultimately show ?thesis using that ws o(4,5) fields last by (simp add: s_def)
qed

theorem wal_append_refines_witness:
  "\<exists>s d s' d' es'. WALStorage_Open ex_wal_env ex_disk = Some (Inr s, d) \<and> WALStorage_Append ex_wal_env ex_log (s, d) = (Inr (), s', d') \<and>
     ws_mem s' es' = (ws_mem s [])\<lparr>ms_entries := ex_log\<rparr>"
proof -
  obtain s d where o: "WALStorage_Open ex_wal_env ex_disk = Some (Inr s, d)" "ws_ok ex_wal_env s d []" "able ex_wal_env (ws_wal s) d (2 ^ 40)"
    "sm_current_segment_id (w_segments (ws_wal s)) = 0" "MemoryStorage_Append ex_log (ws_mem s []) = (Inr (), (ws_mem s [])\<lparr>ms_entries := ex_log\<rparr>)"
    using ex_storage .
  have "able ex_wal_env (ws_wal s) d (length (records ex_wal_env (map Entry_item ex_log)))"
    by (rule able_mono [OF o(3)]) (simp add: ex_lengths)
  then show ?thesis using wal_append_refines [OF o(2) ex_log(1-3)] ex_log(4,5) o(1,4,5) by simp metis
qed


end
