(* ===== verification/Spec2Isabelle.thy ===== *)
theory Spec2Isabelle
  imports Cluster NodeLog Raftor WalDurability
begin

text \<open>
  raftpp is a C++ implementation of the Raft consensus protocol. The library has two layers. The core
  (\<open>lib/core\<close>, \<open>include/raftpp/core\<close>) is a deterministic state machine: it takes messages and ticks, changes the
  state of a node and queues messages; \<open>RawNode\<close> hands out what has to be written, sent and applied as a
  \<open>Ready\<close>. The orchestration (\<open>lib/raftor\<close>, \<open>include/raftpp/raftor\<close>) runs a node: an event loop takes each
  \<open>Ready\<close>, persists it in a storage (in memory, or the write-ahead log), sends the messages through a transport, applies
  committed entries to the state machine of the application and answers its requests. This development models both
  layers, from the file format of the log up to the calls of the application.
\<close>

section \<open>How the model is written\<close>

text \<open>
  \<^item> Names are those of the source: \<open>Class_Method\<close> models \<open>Class::Method\<close>, and the fields of a record carry a short
    prefix (\<open>rl_committed\<close> is \<open>RaftLog::committed_\<close>). A method takes the object as its last argument and returns
    it updated.
  \<^item> \<open>uint64_t\<close>, \<open>uint32_t\<close> and bytes of files are words of their width. An abort (\<open>PANIC\<close>, \<open>ASSERT\<close>, an
    access outside a container) is \<open>None\<close>; a \<open>Result\<close> is a sum with the error on the left.
  \<^item> Hash containers are lists in iteration order; a statement about all lists is one about all orders.
  \<^item> The storage of a node is a type variable \<open>'s\<close> with a record \<open>storage_ops\<close> of its operations, as the class
    \<open>Storage\<close> is abstract in the source; likewise the state machine of the application (\<open>'m\<close>).
  \<^item> Code outside the repository is an argument: the encoded size of an entry and the encoders of Cap'n Proto, the
    CRC, the random election timeout, the clock, the outcome of every system call, the transport's events. A
    statement holds for every such argument, or names what it needs of it (a decoder that inverts its encoder).
\<close>

section \<open>Theories and the code they model\<close>

text \<open>
  The core:
  \<^item> \<open>Raft_Prelude\<close>: types, error codes, and shared lemmas. \<open>Messages\<close>: \<open>proto/raftpp.capnp\<close>, \<open>util.cc\<close>.
  \<^item> \<open>Inflights\<close>, \<open>Progress\<close>, \<open>Quorum\<close>, \<open>Tracker\<close>, \<open>ConfChange\<close>: \<open>inflights.cc\<close>, \<open>progress.cc\<close>,
    \<open>majority_conf.cc\<close> and \<open>joint_conf.cc\<close>, \<open>tracker_conf.cc\<close> and \<open>progress_tracker.cc\<close>, \<open>conf_changer.cc\<close> and
    \<open>conf_restore.cc\<close>.
  \<^item> \<open>Storage\<close>, \<open>Unstable\<close>, \<open>RaftLog\<close>: \<open>memory_storage.cc\<close>, \<open>unstable_log.cc\<close>, \<open>raft_log.cc\<close>.
  \<^item> \<open>ReadOnly\<close>, \<open>RaftConfig\<close>, \<open>RaftCore\<close>: \<open>read_only.cc\<close>, \<open>raft_config.cc\<close>, \<open>raft_core.cc\<close>.
  \<^item> \<open>RaftRoles\<close>, \<open>RaftStep\<close>, \<open>RawNode\<close>: \<open>raft.cc\<close> (roles and campaigns; the handlers of messages) and
    \<open>raw_node.cc\<close>.
  \<^item> \<open>Sending\<close>, \<open>Election\<close>, \<open>Cluster\<close>, \<open>NodeLog\<close>, \<open>Scenario\<close>: what is proved of the node as a whole, and the
    concrete group that the witnesses run on.

  The write-ahead log (\<open>lib/raftor/wal\<close>):
  \<^item> \<open>WalRecord\<close>, \<open>WalDisk\<close>: \<open>record.cc\<close>, and the file system. \<open>WalIndex\<close>, \<open>Segment\<close>, \<open>SegmentManager\<close>,
    \<open>MetadataStore\<close>: the files of these names. \<open>Wal\<close>, \<open>WalStorage\<close>: \<open>wal.cc\<close>, \<open>wal_storage.cc\<close>.
  \<^item> \<open>WalLayout\<close>, \<open>WalLog\<close>, \<open>WalRead\<close>, \<open>WalRecover\<close>, \<open>WalState\<close>, \<open>WalTotal\<close>, \<open>WalDurability\<close>: the invariant
    of the files, what appending, reading, recovering and saving do to it, and what follows from the first start on.

  The orchestration (\<open>lib/raftor\<close>):
  \<^item> \<open>Proposals\<close>: \<open>proposal_tracker.cc\<close> and the queues. \<open>StateMachine\<close>: the interface of the application, and
    \<open>mock_state_machine.cc\<close>.
  \<^item> \<open>ReadyProcessor\<close>: \<open>ready_processor.cc\<close>, with the order of its effects as a trace.
  \<^item> \<open>Raftor\<close>: \<open>raftor.cc\<close>; \<open>raftor_run\<close> is a sequence of calls of the application and iterations of the loop.
\<close>

section \<open>What is shown\<close>

text \<open>
  \<^item> Elections. The handling of any message refines an abstract machine of terms, votes and roles; from it, a
    node votes once per term. In a group of nodes joined by a network that may lose, repeat, reorder and invent
    messages, except that it does not forge vote responses, and whose nodes may stop and start again with the term and the
    vote they had, there is at most one leader per term, as long as any two of the configurations in force overlap.
  \<^item> Logs. Handling a well-formed message never loses or changes a committed entry, and a leader only appends; this is proved over
    the contract \<open>node_storage\<close> and holds for the memory storage. The log's own operations (matching, conflicts,
    paging, the entries to apply) are characterised exactly.
  \<^item> Quorums and membership. Commit indices and vote results are those of their definitions by counting; a single
    membership change keeps quorums overlapping, a joint one reaches its target, and each error is reported exactly under
    the condition it is named for.
  \<^item> Replication flow. The window of messages in flight refines a bounded queue, and \<open>Progress\<close> keeps its invariant.
  \<^item> Durability. Records round-trip, and appending to the write-ahead log replaces the suffix as in the memory storage.
    Reading agrees with the memory storage, but a size limit lets one entry more through. Opening the log again after a
    stop rebuilds it; the hard state is then the last one of the highest term on disk. A saved hard state survives
    when its segment had room for it, no earlier one has a higher term and the log has not been cut since; the lemmas
    \<open>recovery_prefers_record\<close> and \<open>SaveHardState_roll_misroutes\<close> show why this is needed. What a call that reports success did
    holds whatever system calls failed before; \<open>WalTotal\<close> adds that calls do succeed on a disk that carries them out
    and has room.
  \<^item> Processing. Within a cycle no message leaves and no entry is applied before the Ready is stored; a successful cycle
    applies the committed entries of its Ready and its light Ready once and in order, apart from configuration changes,
    address changes and empty entries; when checksums are on, no entry with a wrong checksum is stored or applied unless it is
    an address change, which is not checked; a confirmed read is answered when its index has been applied.
  \<^item> Requests. Each function handed to \<open>Propose\<close> or \<open>ReadIndex\<close> is called once or is still waiting, and none waits
    after the loop has stopped. A snapshot that a state machine writes in any chunks is stored and read back as written.

  The interfaces are locales with an interpretation on the model: \<open>send_window\<close> (\<open>Inflights\<close>), \<open>quorum_family\<close>
  (majorities and joint majorities), \<open>log_storage\<close> and \<open>node_storage\<close> (memory storage), \<open>dense_index\<close> (\<open>WALIndex\<close>).
\<close>

section \<open>Bounds\<close>

text \<open>
  There is no fuel. Loops that end are total functions with a termination proof. Loops that end only if their
  environment lets them (\<open>RaftLog_Scan\<close>, \<open>RaftLog_AllEntries\<close>, \<open>FindConflictByTerm_loop\<close>,
  \<open>RaftCore_SendAppendAggressively\<close>, and \<open>WriteAll\<close> and \<open>read_all\<close>, which retry interrupted calls) are partial functions
  into \<open>option\<close>; for the loops of the log that they return is part of what is proved. Where an index or a term
  could reach \<open>2 ^ 64\<close> the wrap-around is in the model, and a statement that needs the room says so, as \<open>r_term r <
  u64_max\<close> in \<open>Cluster\<close>. The witnesses run on groups of three voters and on logs of a few entries.
\<close>

section \<open>Not modelled\<close>

text \<open>
  \<^item> The transports (\<open>lib/raftor/rpc\<close>): sockets and event loops around the Cap'n Proto library. A transport is the
    calls made to it and the events it delivers.
  \<^item> The io_uring engine: a third-party queue with the contract of the POSIX calls; whether it can be created is an
    argument of the choice of the backend.
  \<^item> Threads: \<open>ProposeSync\<close>, \<open>ReadIndexSync\<close> and \<open>ProposeAsync\<close> wait on promises that the modelled callbacks fill;
    a call of another thread is one step between two iterations of the loop. The mutexes have no counterpart.
  \<^item> The runtime (\<open>std_runtime.cc\<close>), telemetry, logging and the rendering of errors as text.
  \<^item> The programs under \<open>examples\<close>, which are clients of the library and sit on JSON and HTTP libraries.
  \<^item> Enumerants of a message, an entry or a transition that the schema does not have; only those of a membership change are
    modelled, since the code has a branch for them.
  \<^item> Log matching across a group and the completeness of a leader's log: the statements on logs are about one
    node and the messages it receives.
\<close>

end
